(* ===== verification/Prelude.thy ===== *)
theory Prelude
  imports Main "HOL-Library.Word" "HOL-Library.Monad_Syntax"
begin

section \<open>Prelude: bytes, C strings, decimal text and bounded buffers\<close>

text \<open>
  The vocabulary every component shares. A byte is an \<open>8 word\<close> (on the ARM target
  \<open>char\<close> is unsigned, as is the source's \<open>UINT8\<close>); \<open>u16\<close> and \<open>u32\<close> are the
  source's \<open>UINT16\<close> and \<open>UINT32\<close>. A C array is a list of bytes of the array's size;
  an access outside it is undefined behaviour in C and is the value \<open>None\<close> here, so that
  \<open>Option.bind\<close> (with the \<open>do\<close> notation of \<open>HOL-Library.Monad_Syntax\<close>) sequences
  the operations that may fault.
\<close>

unbundle bit_operations_syntax

type_synonym byte = "8 word"
type_synonym u16 = "16 word"
type_synonym u32 = "32 word"
type_synonym bytes = "byte list"

named_theorems c_text \<open>evaluation of C strings, digits and character classes\<close>

subsection \<open>String literals and character classes of the C library\<close>

definition asc :: "char \<Rightarrow> byte" where
  "asc c = of_char c"

definition str :: "string \<Rightarrow> bytes" where
  "str s = map asc s"

definition isdigit :: "byte \<Rightarrow> bool" where
  "isdigit b \<longleftrightarrow> 48 \<le> b \<and> b \<le> 57"

definition isalpha :: "byte \<Rightarrow> bool" where
  "isalpha b \<longleftrightarrow> (65 \<le> b \<and> b \<le> 90) \<or> (97 \<le> b \<and> b \<le> 122)"

definition isalnum :: "byte \<Rightarrow> bool" where
  "isalnum b \<longleftrightarrow> isalpha b \<or> isdigit b"

definition isspace :: "byte \<Rightarrow> bool" where
  "isspace b \<longleftrightarrow> b = 32 \<or> (9 \<le> b \<and> b \<le> 13)"

definition isxdigit :: "byte \<Rightarrow> bool" where
  "isxdigit b \<longleftrightarrow> isdigit b \<or> (65 \<le> b \<and> b \<le> 70) \<or> (97 \<le> b \<and> b \<le> 102)"

lemmas char_class_defs = isdigit_def isalpha_def isalnum_def isspace_def isxdigit_def

lemma str_Nil [simp]: "str [] = []"
  and str_Cons [simp]: "str (c # cs) = asc c # str cs"
  and str_append [simp]: "str (s @ t) = str s @ str t"
  and length_str [simp]: "length (str s) = length s"
  by (simp_all add: str_def)

lemma asc_eq_iff: "asc c = asc d \<longleftrightarrow> c = d"
proof -
  have u: "unat (of_char c :: byte) = of_char c" for c :: char
  proof -
    have "(of_char c :: byte) = of_nat (of_char c)" by (cases c) simp
    moreover have "of_char c < (256 :: nat)" by (cases c) simp
    ultimately show ?thesis by (simp add: unat_of_nat)
  qed
  show ?thesis unfolding asc_def by (metis u of_char_eq_iff)
qed

lemma str_eq_iff: "str s = str t \<longleftrightarrow> s = t"
  unfolding str_def by (rule inj_map_eq_map) (simp add: inj_on_def asc_eq_iff)

lemma take_str: "take n (str s) = str (take n s)"
  by (simp add: str_def take_map)

subsection \<open>NUL-terminated strings in an array\<close>

text \<open>
  \<open>c_str mem\<close> is the string that starts at the first byte of \<open>mem\<close>; \<open>None\<close> if no NUL
  follows before the array ends (\<open>strlen\<close>, \<open>strcpy\<close> and the like would read past it).
\<close>

fun c_str :: "bytes \<Rightarrow> bytes option" where
  "c_str [] = None"
| "c_str (b # bs) = (if b = 0 then Some [] else map_option (Cons b) (c_str bs))"

lemma c_str_append [simp]: "0 \<notin> set s \<Longrightarrow> c_str (s @ 0 # r) = Some s"
  by (induction s) auto

lemma c_str_SomeD: "c_str m = Some s \<Longrightarrow> 0 \<notin> set s \<and> (\<exists>r. m = s @ 0 # r)"
proof (induction m arbitrary: s)
  case Nil
  then show ?case by simp
next
  case (Cons b m)
  show ?case
  proof (cases "b = 0")
    case True
    with Cons.prems show ?thesis by simp
  next
    case False
    with Cons.prems obtain t where t: "c_str m = Some t" and s: "s = b # t" by auto
    from Cons.IH [OF t] obtain r where "0 \<notin> set t" and "m = t @ 0 # r" by blast
    with s False show ?thesis by simp
  qed
qed

lemma c_str_length:
  assumes "c_str m = Some s"
  shows "length s < length m"
proof -
  from c_str_SomeD [OF assms] obtain r where "m = s @ 0 # r" by blast
  then have "length m = length (s @ 0 # r)" by (rule arg_cong)
  then show ?thesis by simp
qed

lemma c_str_None_iff: "c_str m = None \<longleftrightarrow> 0 \<notin> set m"
  by (induction m) auto

text \<open>Reading one cell and writing a run of cells of an array.\<close>

definition peek :: "'a list \<Rightarrow> nat \<Rightarrow> 'a option" where
  "peek buf i = (if i < length buf then Some (buf ! i) else None)"

definition poke :: "nat \<Rightarrow> 'a list \<Rightarrow> 'a list \<Rightarrow> 'a list option" where
  "poke i bs buf =
     (if i + length bs \<le> length buf
      then Some (take i buf @ bs @ drop (i + length bs) buf) else None)"

lemma length_poke: "poke i bs buf = Some buf' \<Longrightarrow> length buf' = length buf"
  by (auto simp: poke_def split: if_splits)

lemma poke_0 [simp]: "length bs \<le> length buf \<Longrightarrow> poke 0 bs buf = Some (bs @ drop (length bs) buf)"
  by (simp add: poke_def)

subsection \<open>Decimal text\<close>

text \<open>\<open>dec n\<close> is what \<open>sprintf\<close> writes for \<open>"%d"\<close> and a value that is not negative.\<close>

definition digit_ch :: "nat \<Rightarrow> byte" where
  "digit_ch d = of_nat (48 + d)"

fun dec :: "nat \<Rightarrow> bytes" where
  "dec n = (if n < 10 then [digit_ch n] else dec (n div 10) @ [digit_ch (n mod 10)])"

declare dec.simps [simp del]

definition dec_int :: "int \<Rightarrow> bytes" where
  "dec_int i = (if i < 0 then 45 # dec (nat (- i)) else dec (nat i))"

text \<open>
  \<open>atoi\<close> of newlib: leading white space, a sign, the digits, clamped as \<open>strtol\<close> does.
\<close>

fun digits_val :: "int \<Rightarrow> bytes \<Rightarrow> int" where
  "digits_val acc [] = acc"
| "digits_val acc (b # bs) =
     (if isdigit b then digits_val (10 * acc + (uint b - 48)) bs else acc)"

definition clamp32 :: "int \<Rightarrow> int" where
  "clamp32 i = max (- (2 ^ 31)) (min (2 ^ 31 - 1) i)"

definition atoi :: "bytes \<Rightarrow> int" where
  "atoi s = (case dropWhile isspace s of
       [] \<Rightarrow> 0
     | b # bs \<Rightarrow> clamp32 (if b = 45 then - digits_val 0 bs
                   else if b = 43 then digits_val 0 bs
                   else digits_val 0 (b # bs)))"

lemma unat_digit_ch: "d < 10 \<Longrightarrow> unat (digit_ch d) = 48 + d"
  by (simp add: digit_ch_def unat_of_nat del: of_nat_add)

lemma uint_digit_ch: "d < 10 \<Longrightarrow> uint (digit_ch d) = 48 + int d"
  by (simp add: uint_nat unat_digit_ch)

lemma isdigit_digit_ch [simp]: "d < 10 \<Longrightarrow> isdigit (digit_ch d)"
  by (simp add: isdigit_def word_le_nat_alt unat_digit_ch)

lemma dec_digits: "b \<in> set (dec n) \<Longrightarrow> isdigit b"
proof (induction n rule: dec.induct)
  case (1 n)
  show ?case
  proof (cases "n < 10")
    case True
    with "1.prems" show ?thesis by (simp add: dec.simps [of n])
  next
    case False
    with 1 show ?thesis by (auto simp: dec.simps [of n])
  qed
qed

lemma dec_nonempty [simp]: "dec n \<noteq> []"
  by (subst dec.simps) simp

lemma zero_notin_dec [simp]: "0 \<notin> set (dec n)"
  using dec_digits [of 0 n] by (auto simp: isdigit_def)

lemma digits_val_append:
  "(\<forall>b \<in> set xs. isdigit b) \<Longrightarrow> digits_val acc (xs @ ys) = digits_val (digits_val acc xs) ys"
  by (induction xs arbitrary: acc) auto

lemma digits_val_stop: "r = [] \<or> \<not> isdigit (hd r) \<Longrightarrow> digits_val acc r = acc"
  by (cases r) auto

lemma digits_val_dec: "digits_val 0 (dec n) = int n"
proof (induction n rule: dec.induct)
  case (1 n)
  show ?case
  proof (cases "n < 10")
    case True
    then show ?thesis
      by (subst dec.simps) (simp add: uint_digit_ch)
  next
    case False
    have d: "\<forall>b \<in> set (dec (n div 10)). isdigit b" by (auto dest: dec_digits)
    from False have "digits_val 0 (dec n) = digits_val (digits_val 0 (dec (n div 10))) [digit_ch (n mod 10)]"
      by (subst dec.simps) (simp add: digits_val_append [OF d] del: digits_val.simps)
    also have "\<dots> = 10 * int (n div 10) + int (n mod 10)"
      using 1 [OF False] by (simp add: uint_digit_ch)
    also have "\<dots> = int n" by presburger
    finally show ?thesis .
  qed
qed

lemma digit_not_space: "isdigit b \<Longrightarrow> \<not> isspace b \<and> b \<noteq> 45 \<and> b \<noteq> 43 \<and> b \<noteq> 0 \<and> b \<noteq> 46 \<and> b \<noteq> 60"
  by (auto simp: isdigit_def isspace_def word_le_nat_alt)

text \<open>Reading back what \<open>sprintf\<close> wrote, up to the first character that is no digit.\<close>

lemma atoi_dec:
  assumes "n < 2 ^ 31" and "r = [] \<or> \<not> isdigit (hd r)"
  shows "atoi (dec n @ r) = int n"
proof -
  obtain b bs where b: "dec n = b # bs" by (cases "dec n") auto
  then have d: "isdigit b" using dec_digits [of b n] by simp
  have all: "\<forall>x \<in> set (dec n). isdigit x" by (auto dest: dec_digits)
  have "digits_val 0 (dec n @ r) = int n"
    using assms(2) by (simp add: digits_val_append [OF all] digits_val_dec digits_val_stop)
  moreover have "clamp32 (int n) = int n" using assms(1) by (simp add: clamp32_def)
  ultimately show ?thesis
    using d digit_not_space [OF d] by (simp add: atoi_def b)
qed

lemma length_dec: "0 < k \<Longrightarrow> n < 10 ^ k \<Longrightarrow> length (dec n) \<le> k"
proof (induction n arbitrary: k rule: dec.induct)
  case (1 n)
  show ?case
  proof (cases "n < 10")
    case True
    with "1.prems" show ?thesis by (simp add: dec.simps [of n])
  next
    case False
    with "1.prems" have k: "1 < k" by (cases "k = 1") auto
    then have "10 ^ k = 10 * (10 ^ (k - 1) :: nat)"
      by (cases k) auto
    with "1.prems" have "n div 10 < 10 ^ (k - 1)" by (simp add: less_mult_imp_div_less)
    with 1 False k have "length (dec (n div 10)) \<le> k - 1" by simp
    with False k show ?thesis by (simp add: dec.simps [of n])
  qed
qed

subsection \<open>Proof tools for bytes\<close>

lemma lt8: "(n::nat) < 8 \<longleftrightarrow> n = 0 \<or> n = 1 \<or> n = 2 \<or> n = 3 \<or> n = 4 \<or> n = 5 \<or> n = 6 \<or> n = 7"
  by auto

lemma byte_eqI: "(\<And>n. n < 8 \<Longrightarrow> bit a n = bit b n) \<Longrightarrow> a = (b :: byte)"
  by (rule bit_word_eqI) simp

lemma byte_plus_or: "a AND b = 0 \<Longrightarrow> a + b = a OR (b :: byte)"
  by (rule disjunctive_add_eq_or)

lemma unat_byte_less [simp]: "unat (b :: byte) < 256"
  using unsigned_less [of b] by simp

lemma nibble_all:
  assumes "list_all P [0 :: byte, 1, 2, 3, 4, 5, 6, 7, 8, 9, 10, 11, 12, 13, 14, 15]" and "n < 16"
  shows "P n"
proof -
  from \<open>n < 16\<close> have "unat n < 16" by (simp add: word_less_nat_alt)
  then have "unat n \<in> {0, 1, 2, 3, 4, 5, 6, 7, 8, 9, 10, 11, 12, 13, 14, 15}"
    unfolding insert_iff empty_iff by presburger
  then have "(of_nat (unat n) :: byte) \<in> of_nat ` {0 :: nat, 1, 2, 3, 4, 5, 6, 7, 8, 9, 10, 11, 12, 13, 14, 15}"
    by (rule imageI)
  then have "n \<in> {0, 1, 2, 3, 4, 5, 6, 7, 8, 9, 10, 11, 12, 13, 14, 15}"
    unfolding image_insert image_empty by simp
  with assms(1) show ?thesis by auto
qed

lemma byte_below:
  assumes "list_all P (map of_nat [0..<n] :: byte list)" and "unat b < n"
  shows "P b"
proof -
  from assms(2) have "unat b \<in> set [0..<n]" by simp
  with assms(1) have "P (of_nat (unat b))" unfolding list_all_iff set_map by blast
  then show ?thesis by simp
qed

lemma upt_zero_numeral: "2 \<le> (numeral k :: nat) \<Longrightarrow> [0..<numeral k] = 0 # 1 # [2..<numeral k]"
  by (simp add: upt_conv_Cons eval_nat_numeral)

lemma join8: "push_bit 8 x + ucast (b :: byte) = (push_bit 8 x OR ucast b :: 'a :: len word)"
  by (rule disjunctive_add_eq_or, rule bit_word_eqI) (auto simp: bit_simps dest: bit_imp_le_length)

end
