(* ===== verification/Store.thy ===== *)
theory Store
  imports Prelude
begin

section \<open>The interface of the two persistent memories\<close>

text \<open>
  What the rest of the firmware relies on: a store of byte fields in which a field that was
  written is read back, and a write does not disturb a field elsewhere. A list of fields
  \<open>(a, n, bs)\<close> says that the area of \<open>n\<close> bytes at \<open>a\<close> may have been written and now starts with
  \<open>bs\<close>; \<open>after\<close> relates the memory before and after a sequence of such writes, and
  \<open>after_append\<close> puts two sequences together. The EEPROM and the backup SRAM are both
  interpretations.
\<close>

type_synonym field = "nat \<times> nat \<times> bytes"

locale field_store =
  fixes rd :: "nat \<Rightarrow> nat \<Rightarrow> 'm \<Rightarrow> bytes"
    and wr :: "nat \<Rightarrow> bytes \<Rightarrow> 'm \<Rightarrow> 'm"
    and inv :: "'m \<Rightarrow> bool"
    and fits :: "nat \<Rightarrow> nat \<Rightarrow> bool"
  assumes wr_inv: "inv m \<Longrightarrow> inv (wr a bs m)"
    and fits_less: "fits a n \<Longrightarrow> k \<le> n \<Longrightarrow> fits a k"
    and rd_take: "k \<le> n \<Longrightarrow> rd a k m = take k (rd a n m)"
    and rd_wr_same: "inv m \<Longrightarrow> fits a (length bs) \<Longrightarrow> rd a (length bs) (wr a bs m) = bs"
    and rd_wr_other: "inv m \<Longrightarrow> fits a (length bs) \<Longrightarrow> fits b n \<Longrightarrow>
          a + length bs \<le> b \<or> b + n \<le> a \<Longrightarrow> rd b n (wr a bs m) = rd b n m"
begin

definition clear_of :: "nat \<Rightarrow> nat \<Rightarrow> field list \<Rightarrow> bool" where
  "clear_of b k fs \<longleftrightarrow> list_all (\<lambda>(a, n, bs). a + n \<le> b \<or> b + k \<le> a) fs"

definition after :: "field list \<Rightarrow> 'm \<Rightarrow> 'm \<Rightarrow> bool" where
  "after fs m m' \<longleftrightarrow> inv m'
     \<and> (\<forall>(a, n, bs) \<in> set fs. rd a (length bs) m' = bs)
     \<and> (\<forall>b k. fits b k \<longrightarrow> clear_of b k fs \<longrightarrow> rd b k m' = rd b k m)"

definition sep :: "field list \<Rightarrow> field list \<Rightarrow> bool" where
  "sep fs gs \<longleftrightarrow> list_all (\<lambda>(a, n, bs). length bs \<le> n \<and> fits a n \<and> clear_of a n gs) fs"

lemma clear_of_simps:
  "clear_of b k []"
  "clear_of b k ((a, n, bs) # fs) \<longleftrightarrow> (a + n \<le> b \<or> b + k \<le> a) \<and> clear_of b k fs"
  "clear_of b k (fs @ gs) \<longleftrightarrow> clear_of b k fs \<and> clear_of b k gs"
  by (simp_all add: clear_of_def)

lemma after_Nil: "inv m \<Longrightarrow> after [] m m"
  by (simp add: after_def)

lemma after_wr:
  assumes "inv m" and "fits a (length bs)" and "length bs \<le> n" and "take (length cs) bs = cs"
  shows "after [(a, n, cs)] m (wr a bs m)"
proof -
  have "length (take (length cs) bs) = length cs" using assms(4) by (rule arg_cong)
  then have l: "length cs \<le> length bs" unfolding length_take by linarith
  have "rd a (length cs) (wr a bs m) = take (length cs) (rd a (length bs) (wr a bs m))"
    using l by (rule rd_take)
  then have "rd a (length cs) (wr a bs m) = cs"
    using assms by (simp add: rd_wr_same)
  moreover have "rd b k (wr a bs m) = rd b k m" if "fits b k" "clear_of b k [(a, n, cs)]" for b k
    using that assms by (intro rd_wr_other) (auto simp: clear_of_simps)
  ultimately show ?thesis using assms(1) by (auto simp: after_def wr_inv)
qed

lemma after_append:
  assumes "after fs m m'" and "after gs m' m''" and "sep fs gs"
  shows "after (fs @ gs) m m''"
proof -
  have "rd a (length bs) m'' = bs" if "(a, n, bs) \<in> set fs" for a n bs
  proof -
    from that assms(3) have n: "length bs \<le> n" "fits a n" "clear_of a n gs"
      by (auto simp: sep_def list_all_iff)
    then have "fits a (length bs)" by (blast intro: fits_less)
    moreover have "clear_of a (length bs) gs"
      using n(1,3) by (fastforce simp: clear_of_def list_all_iff)
    ultimately have "rd a (length bs) m'' = rd a (length bs) m'" using assms(2) by (auto simp: after_def)
    with assms(1) that show ?thesis by (auto simp: after_def)
  qed
  with assms(1,2) show ?thesis unfolding after_def by (auto simp: clear_of_simps)
qed

lemma after_read: "after fs m m' \<Longrightarrow> (a, n, bs) \<in> set fs \<Longrightarrow> rd a (length bs) m' = bs"
  by (auto simp: after_def)

lemma after_other: "after fs m m' \<Longrightarrow> fits b k \<Longrightarrow> clear_of b k fs \<Longrightarrow> rd b k m' = rd b k m"
  by (auto simp: after_def)

lemma after_inv: "after fs m m' \<Longrightarrow> inv m'"
  by (auto simp: after_def)

end

end
