(* ===== verification/Eeprom.thy ===== *)
theory Eeprom
  imports Store
begin

section \<open>The EEPROM driver (\<open>24C128.c\<close>)\<close>

text \<open>
  The driver talks to a 24C128 on the I2C bus. \<open>eedev\<close> is the environment: the part of the
  chip that the bus sees, with the sequential read that rolls over at the end of the
  memory, the 64 byte page buffer whose address counter wraps inside the page (the driver's own
  note names that page size) and the write cycle in which it does not acknowledge its address.
  A wait for an I2C event that the chip never raises is the value \<open>None\<close> (the C loop does not
  end). The driver's functions follow their source call by call.

  \<open>eeRd\<close>, \<open>eeWr\<close> and their 8, 16 and 32 bit forms are the abstract specification on the
  memory image alone; the lemmas \<open>EEread_refines\<close> and so on show that the driver implements
  them, from any ready chip to a ready chip. The rest of the firmware is stated over the
  specification.
\<close>

subsection \<open>The chip\<close>

definition EE_SIZE :: nat where "EE_SIZE = 16384"
definition EE_PAGE :: nat where "EE_PAGE = 64"

datatype phase = Idle | Started | Addr_hi | Addr_lo byte | Data bool | Reading

record eedev =
  ee_mem :: bytes
  ee_ptr :: nat
  ee_busy :: nat
  ee_cycle :: nat
  ee_phase :: phase

definition page_next :: "nat \<Rightarrow> nat" where
  "page_next a = a div EE_PAGE * EE_PAGE + (a + 1) mod EE_PAGE"

definition I2C_GenerateSTART :: "eedev \<Rightarrow> eedev" where
  "I2C_GenerateSTART d = d\<lparr>ee_phase := Started\<rparr>"

definition I2C_GenerateSTOP :: "eedev \<Rightarrow> eedev" where
  "I2C_GenerateSTOP d =
     d\<lparr>ee_busy := (if ee_phase d = Data True then ee_cycle d else ee_busy d), ee_phase := Idle\<rparr>"

text \<open>The address byte: the second component tells whether the chip acknowledged.\<close>

definition I2C_Send7bitAddress :: "bool \<Rightarrow> eedev \<Rightarrow> eedev \<times> bool" where
  "I2C_Send7bitAddress receiver d =
     (if ee_busy d > 0 then (d\<lparr>ee_busy := ee_busy d - 1, ee_phase := Idle\<rparr>, False)
      else (d\<lparr>ee_phase := (if receiver then Reading else Addr_hi)\<rparr>, True))"

text \<open>\<open>I2C_SendData\<close> with the wait for \<open>BYTE_TRANSMITTED\<close> after it.\<close>

definition I2C_SendData :: "byte \<Rightarrow> eedev \<Rightarrow> eedev option" where
  "I2C_SendData b d =
     (case ee_phase d of
        Addr_hi \<Rightarrow> Some (d\<lparr>ee_phase := Addr_lo b\<rparr>)
      | Addr_lo h \<Rightarrow> Some (d\<lparr>ee_ptr := (256 * unat h + unat b) mod EE_SIZE, ee_phase := Data False\<rparr>)
      | Data _ \<Rightarrow> Some (d\<lparr>ee_mem := (ee_mem d)[ee_ptr d := b], ee_ptr := page_next (ee_ptr d),
                          ee_phase := Data True\<rparr>)
      | _ \<Rightarrow> None)"

text \<open>The wait for \<open>BYTE_RECEIVED\<close> and \<open>I2C_ReceiveData\<close>.\<close>

definition I2C_ReceiveData :: "eedev \<Rightarrow> (byte \<times> eedev) option" where
  "I2C_ReceiveData d =
     (if ee_phase d = Reading
      then Some (ee_mem d ! ee_ptr d, d\<lparr>ee_ptr := (ee_ptr d + 1) mod EE_SIZE\<rparr>)
      else None)"

subsection \<open>The driver\<close>

text \<open>The loop polls until the chip acknowledges its address.\<close>

function EE_WaitEepromStandbyState :: "eedev \<Rightarrow> eedev" where
  "EE_WaitEepromStandbyState d =
     (let (d1, ack) = I2C_Send7bitAddress False (I2C_GenerateSTART d)
      in if ack then I2C_GenerateSTOP d1 else EE_WaitEepromStandbyState d1)"
  by pat_completeness auto
termination
  by (relation "measure ee_busy")
     (auto simp: I2C_Send7bitAddress_def I2C_GenerateSTART_def split: if_splits)

declare EE_WaitEepromStandbyState.simps [simp del]

text \<open>START and the device address, with the waits for the two events.\<close>

definition select :: "bool \<Rightarrow> eedev \<Rightarrow> eedev option" where
  "select receiver d =
     (let (d1, ack) = I2C_Send7bitAddress receiver (I2C_GenerateSTART d)
      in if ack then Some d1 else None)"

definition send_address :: "u16 \<Rightarrow> eedev \<Rightarrow> eedev option" where
  "send_address addr d = do {
     d \<leftarrow> I2C_SendData (ucast (drop_bit 8 addr)) d;
     I2C_SendData (ucast addr) d }"

fun receive :: "nat \<Rightarrow> eedev \<Rightarrow> (bytes \<times> eedev) option" where
  "receive 0 d = Some ([], d)"
| "receive (Suc n) d = do {
     (b, d) \<leftarrow> I2C_ReceiveData d;
     (bs, d) \<leftarrow> receive n d;
     Some (b # bs, d) }"

fun transmit :: "bytes \<Rightarrow> eedev \<Rightarrow> eedev option" where
  "transmit [] d = Some d"
| "transmit (b # bs) d = do { d \<leftarrow> I2C_SendData b d; transmit bs d }"

text \<open>
  \<open>EEread\<close> writes the last byte at \<open>ptr + size - 1\<close> also for \<open>size = 0\<close>, which is
  outside the caller's array. The result is what it stores at \<open>ptr\<close>.
\<close>

definition EEread :: "u16 \<Rightarrow> nat \<Rightarrow> eedev \<Rightarrow> (bytes \<times> eedev) option" where
  "EEread addr sz d = (if sz = 0 then None else do {
     d \<leftarrow> select False (EE_WaitEepromStandbyState d);
     d \<leftarrow> send_address addr d;
     d \<leftarrow> select True d;
     (bs, d) \<leftarrow> receive (sz - 1) d;
     (b, d) \<leftarrow> I2C_ReceiveData d;
     Some (bs @ [b], I2C_GenerateSTOP d) })"

definition EEread_8 :: "u16 \<Rightarrow> eedev \<Rightarrow> (byte \<times> eedev) option" where
  "EEread_8 addr d = do {
     d \<leftarrow> select False (EE_WaitEepromStandbyState d);
     d \<leftarrow> send_address addr d;
     d \<leftarrow> select True d;
     (retval, d) \<leftarrow> I2C_ReceiveData d;
     Some (retval, I2C_GenerateSTOP d) }"

definition EEread_16 :: "u16 \<Rightarrow> eedev \<Rightarrow> (u16 \<times> eedev) option" where
  "EEread_16 addr d = do {
     d \<leftarrow> select False (EE_WaitEepromStandbyState d);
     d \<leftarrow> send_address addr d;
     d \<leftarrow> select True d;
     (byte1, d) \<leftarrow> I2C_ReceiveData d;
     (byte2, d) \<leftarrow> I2C_ReceiveData d;
     Some (push_bit 8 (ucast byte1) + ucast byte2, I2C_GenerateSTOP d) }"

definition EEread_32 :: "u16 \<Rightarrow> eedev \<Rightarrow> (u32 \<times> eedev) option" where
  "EEread_32 addr d = do {
     d \<leftarrow> select False (EE_WaitEepromStandbyState d);
     d \<leftarrow> send_address addr d;
     d \<leftarrow> select True d;
     (b, d) \<leftarrow> I2C_ReceiveData d;
     let retdata = push_bit 8 (ucast b);
     (b, d) \<leftarrow> I2C_ReceiveData d;
     let retdata = push_bit 8 (retdata + ucast b);
     (b, d) \<leftarrow> I2C_ReceiveData d;
     let retdata = push_bit 8 (retdata + ucast b);
     (b, d) \<leftarrow> I2C_ReceiveData d;
     Some (retdata + ucast b, I2C_GenerateSTOP d) }"

definition EEwrite :: "u16 \<Rightarrow> bytes \<Rightarrow> eedev \<Rightarrow> eedev option" where
  "EEwrite addr bs d = do {
     d \<leftarrow> select False (EE_WaitEepromStandbyState d);
     d \<leftarrow> send_address addr d;
     d \<leftarrow> transmit bs d;
     Some (I2C_GenerateSTOP d) }"

definition EEwrite_8 :: "u16 \<Rightarrow> byte \<Rightarrow> eedev \<Rightarrow> eedev option" where
  "EEwrite_8 addr evar d = do {
     d \<leftarrow> select False (EE_WaitEepromStandbyState d);
     d \<leftarrow> send_address addr d;
     d \<leftarrow> I2C_SendData evar d;
     Some (I2C_GenerateSTOP d) }"

definition EEwrite_16 :: "u16 \<Rightarrow> u16 \<Rightarrow> eedev \<Rightarrow> eedev option" where
  "EEwrite_16 addr evar d = do {
     d \<leftarrow> select False (EE_WaitEepromStandbyState d);
     d \<leftarrow> send_address addr d;
     d \<leftarrow> I2C_SendData (ucast (drop_bit 8 evar)) d;
     d \<leftarrow> I2C_SendData (ucast evar) d;
     Some (I2C_GenerateSTOP d) }"

definition EEwrite_32 :: "u16 \<Rightarrow> u32 \<Rightarrow> eedev \<Rightarrow> eedev option" where
  "EEwrite_32 addr evar d = do {
     d \<leftarrow> select False (EE_WaitEepromStandbyState d);
     d \<leftarrow> send_address addr d;
     d \<leftarrow> I2C_SendData (ucast (drop_bit 24 evar)) d;
     d \<leftarrow> I2C_SendData (ucast (drop_bit 16 evar)) d;
     d \<leftarrow> I2C_SendData (ucast (drop_bit 8 evar)) d;
     d \<leftarrow> I2C_SendData (ucast evar) d;
     Some (I2C_GenerateSTOP d) }"

subsection \<open>The specification on the memory image\<close>

fun eeRd :: "nat \<Rightarrow> nat \<Rightarrow> bytes \<Rightarrow> bytes" where
  "eeRd a 0 m = []"
| "eeRd a (Suc n) m = m ! (a mod EE_SIZE) # eeRd (Suc a) n m"

fun eeWr :: "nat \<Rightarrow> bytes \<Rightarrow> bytes \<Rightarrow> bytes" where
  "eeWr a [] m = m"
| "eeWr a (b # bs) m = eeWr (page_next a) bs (m[a := b])"

definition eeRd8 :: "nat \<Rightarrow> bytes \<Rightarrow> byte" where
  "eeRd8 a m = m ! (a mod EE_SIZE)"

definition be16 :: "byte \<Rightarrow> byte \<Rightarrow> u16" where
  "be16 b1 b2 = push_bit 8 (ucast b1) + ucast b2"

definition be32 :: "byte \<Rightarrow> byte \<Rightarrow> byte \<Rightarrow> byte \<Rightarrow> u32" where
  "be32 b1 b2 b3 b4 =
     push_bit 8 (push_bit 8 (push_bit 8 (ucast b1) + ucast b2) + ucast b3) + ucast b4"

definition split16 :: "u16 \<Rightarrow> bytes" where
  "split16 w = [ucast (drop_bit 8 w), ucast w]"

definition split32 :: "u32 \<Rightarrow> bytes" where
  "split32 w = [ucast (drop_bit 24 w), ucast (drop_bit 16 w), ucast (drop_bit 8 w), ucast w]"

definition eeRd16 :: "nat \<Rightarrow> bytes \<Rightarrow> u16" where
  "eeRd16 a m = be16 (eeRd8 a m) (eeRd8 (a + 1) m)"

definition eeRd32 :: "nat \<Rightarrow> bytes \<Rightarrow> u32" where
  "eeRd32 a m = be32 (eeRd8 a m) (eeRd8 (a + 1) m) (eeRd8 (a + 2) m) (eeRd8 (a + 3) m)"

definition ee_ready :: "eedev \<Rightarrow> bool" where
  "ee_ready d \<longleftrightarrow> length (ee_mem d) = EE_SIZE \<and> ee_phase d = Idle"

subsection \<open>The driver implements the specification\<close>

definition quiet :: "eedev \<Rightarrow> eedev" where
  "quiet d = d\<lparr>ee_busy := 0, ee_phase := Idle\<rparr>"

lemma EE_WaitEepromStandbyState_quiet: "EE_WaitEepromStandbyState d = quiet d"
proof (induction d rule: EE_WaitEepromStandbyState.induct)
  case (1 d)
  show ?case
  proof (cases "ee_busy d = 0")
    case True
    then show ?thesis
      by (subst EE_WaitEepromStandbyState.simps)
         (simp add: I2C_Send7bitAddress_def I2C_GenerateSTART_def I2C_GenerateSTOP_def quiet_def)
  next
    case False
    let ?d1 = "d\<lparr>ee_busy := ee_busy d - 1, ee_phase := Idle\<rparr>"
    have step: "I2C_Send7bitAddress False (I2C_GenerateSTART d) = (?d1, False)"
      using False by (simp add: I2C_Send7bitAddress_def I2C_GenerateSTART_def)
    then have "EE_WaitEepromStandbyState ?d1 = quiet ?d1" by (intro "1.IH") auto
    then show ?thesis
      by (subst EE_WaitEepromStandbyState.simps) (simp add: step quiet_def)
  qed
qed

lemma addr_bytes: "256 * unat (ucast (drop_bit 8 addr) :: byte) + unat (ucast addr :: byte) = unat (addr :: u16)"
proof -
  have a: "unat addr < 65536" using unsigned_less [of addr] by simp
  have "unat (ucast (drop_bit 8 addr) :: byte) = unat addr div 256"
  proof -
    have "unat (drop_bit 8 addr) = unat addr div 256"
      unfolding unat_drop_bit_eq by (simp add: drop_bit_eq_div)
    moreover have "unat (ucast (drop_bit 8 addr) :: byte) = unat (drop_bit 8 addr) mod 256"
      unfolding unsigned_ucast_eq by (simp add: take_bit_eq_mod)
    ultimately show ?thesis using a by simp
  qed
  moreover have "unat (ucast addr :: byte) = unat addr mod 256"
    by (simp add: unsigned_ucast_eq take_bit_eq_mod)
  ultimately show ?thesis by simp
qed

text \<open>Selecting a chip that has finished its write cycle, and sending it the cell's address.\<close>

lemma select_quiet:
  "select r (EE_WaitEepromStandbyState d)
     = Some (d\<lparr>ee_busy := 0, ee_phase := (if r then Reading else Addr_hi)\<rparr>)"
  by (simp add: EE_WaitEepromStandbyState_quiet quiet_def select_def I2C_Send7bitAddress_def
      I2C_GenerateSTART_def)

lemma select_again:
  "ee_busy d = 0 \<Longrightarrow> select r d = Some (d\<lparr>ee_phase := (if r then Reading else Addr_hi)\<rparr>)"
  by (simp add: select_def I2C_Send7bitAddress_def I2C_GenerateSTART_def)

lemma send_address_ptr:
  "ee_phase d = Addr_hi \<Longrightarrow>
     send_address addr d = Some (d\<lparr>ee_ptr := unat addr mod EE_SIZE, ee_phase := Data False\<rparr>)"
  by (simp add: send_address_def I2C_SendData_def addr_bytes)

lemmas transfer = select_quiet select_again send_address_ptr

lemma receive_eeRd:
  assumes "ee_phase d = Reading" and "ee_ptr d = a mod EE_SIZE"
  shows "receive n d = Some (eeRd a n (ee_mem d), d\<lparr>ee_ptr := (a + n) mod EE_SIZE\<rparr>)"
  using assms
proof (induction n arbitrary: d a)
  case 0
  then show ?case by simp
next
  case (Suc n)
  have "((a mod EE_SIZE) + 1) mod EE_SIZE = Suc a mod EE_SIZE" by (simp add: mod_Suc_eq)
  then show ?case using Suc.prems Suc.IH [of "d\<lparr>ee_ptr := Suc a mod EE_SIZE\<rparr>" "Suc a"]
    by (simp add: I2C_ReceiveData_def)
qed

lemma transmit_eeWr:
  assumes "ee_phase d = Data w"
  shows "transmit bs d = Some (d\<lparr>ee_mem := eeWr (ee_ptr d) bs (ee_mem d),
      ee_ptr := (page_next ^^ length bs) (ee_ptr d), ee_phase := Data (w \<or> bs \<noteq> [])\<rparr>)"
  using assms
proof (induction bs arbitrary: d w)
  case Nil
  then show ?case by simp
next
  case (Cons b bs)
  then show ?case by (simp add: I2C_SendData_def funpow_swap1)
qed

lemma eeRd_snoc: "eeRd a (Suc n) m = eeRd a n m @ [m ! ((a + n) mod EE_SIZE)]"
  by (induction n arbitrary: a) simp_all

lemma length_eeRd [simp]: "length (eeRd a n m) = n"
  by (induction n arbitrary: a) simp_all

lemma nth_eeRd: "i < n \<Longrightarrow> eeRd a n m ! i = m ! ((a + i) mod EE_SIZE)"
  by (induction n arbitrary: a i) (auto simp: nth_Cons split: nat.splits)

lemma length_eeWr [simp]: "length (eeWr a bs m) = length m"
  by (induction a bs m rule: eeWr.induct) simp_all

lemma eeRd_mod: "eeRd (a mod EE_SIZE) n m = eeRd a n m"
  by (rule nth_equalityI) (simp_all add: nth_eeRd mod_simps)

lemma EEread_refines:
  assumes "ee_ready d" and "0 < n"
  shows "\<exists>d'. EEread addr n d = Some (eeRd (unat addr) n (ee_mem d), d') \<and> ee_mem d' = ee_mem d \<and> ee_ready d'"
proof -
  obtain k where n: "n = Suc k" using assms(2) by (cases n) auto
  show ?thesis using assms
    by (simp add: EEread_def n transfer receive_eeRd [where a = "unat addr"] I2C_ReceiveData_def
        I2C_GenerateSTOP_def ee_ready_def eeRd_snoc del: eeRd.simps)
qed

lemma EEwrite_refines:
  assumes "ee_ready d"
  shows "\<exists>d'. EEwrite addr bs d = Some d' \<and> ee_mem d' = eeWr (unat addr mod EE_SIZE) bs (ee_mem d) \<and> ee_ready d'"
  using assms by (simp add: EEwrite_def transfer transmit_eeWr [where w = False] I2C_GenerateSTOP_def ee_ready_def)

lemma EEread_8_refines:
  assumes "ee_ready d"
  shows "\<exists>d'. EEread_8 addr d = Some (eeRd8 (unat addr) (ee_mem d), d') \<and> ee_mem d' = ee_mem d \<and> ee_ready d'"
  using assms by (simp add: EEread_8_def transfer I2C_ReceiveData_def I2C_GenerateSTOP_def eeRd8_def ee_ready_def)

lemma EEread_16_refines:
  assumes "ee_ready d"
  shows "\<exists>d'. EEread_16 addr d = Some (eeRd16 (unat addr) (ee_mem d), d') \<and> ee_mem d' = ee_mem d \<and> ee_ready d'"
  using assms by (simp add: EEread_16_def transfer I2C_ReceiveData_def I2C_GenerateSTOP_def eeRd16_def
      be16_def eeRd8_def ee_ready_def mod_Suc_eq)

lemma EEread_32_refines:
  assumes "ee_ready d"
  shows "\<exists>d'. EEread_32 addr d = Some (eeRd32 (unat addr) (ee_mem d), d') \<and> ee_mem d' = ee_mem d \<and> ee_ready d'"
  using assms by (simp add: EEread_32_def transfer I2C_ReceiveData_def I2C_GenerateSTOP_def eeRd32_def
      be32_def eeRd8_def ee_ready_def mod_Suc_eq Let_def numeral_2_eq_2 numeral_3_eq_3)

lemma EEwrite_n_eq:
  "EEwrite_8 addr b = EEwrite addr [b]"
  "EEwrite_16 addr w = EEwrite addr (split16 w)"
  "EEwrite_32 addr v = EEwrite addr (split32 v)"
  by (simp_all add: fun_eq_iff EEwrite_8_def EEwrite_16_def EEwrite_32_def EEwrite_def split16_def split32_def)

subsection \<open>Reading back what was written\<close>

definition ee_fits :: "nat \<Rightarrow> nat \<Rightarrow> bool" where
  "ee_fits a n \<longleftrightarrow> a mod EE_PAGE + n \<le> EE_PAGE \<and> a + n \<le> EE_SIZE"

lemma page_next_Suc: "a mod EE_PAGE + 1 < EE_PAGE \<Longrightarrow> page_next a = Suc a \<and> Suc a mod EE_PAGE = Suc (a mod EE_PAGE)"
proof -
  assume "a mod EE_PAGE + 1 < EE_PAGE"
  then have "Suc a mod EE_PAGE = Suc (a mod EE_PAGE)" by (simp add: mod_Suc)
  then show ?thesis
    by (simp add: page_next_def)
qed

lemma nth_eeWr:
  assumes "ee_fits a (length bs)" and "length m = EE_SIZE" and "i < EE_SIZE"
  shows "eeWr a bs m ! i = (if a \<le> i \<and> i < a + length bs then bs ! (i - a) else m ! i)"
  using assms
proof (induction bs arbitrary: a m)
  case Nil
  then show ?case by auto
next
  case (Cons b bs)
  show ?case
  proof (cases bs)
    case Nil
    with Cons.prems show ?thesis by (auto simp: ee_fits_def nth_list_update)
  next
    case (Cons c cs)
    with Cons.prems have p: "page_next a = Suc a" "ee_fits (Suc a) (length bs)"
      using page_next_Suc [of a] by (auto simp: ee_fits_def)
    have "eeWr (Suc a) bs (m[a := b]) ! i
        = (if Suc a \<le> i \<and> i < Suc a + length bs then bs ! (i - Suc a) else (m[a := b]) ! i)"
      using Cons.prems p(2) by (intro Cons.IH) auto
    moreover have "a < EE_SIZE" using Cons.prems(1) by (auto simp: ee_fits_def)
    moreover have "a < i \<Longrightarrow> (b # bs) ! (i - a) = bs ! (i - Suc a)"
      by (simp add: nth_Cons' )
    ultimately show ?thesis using Cons.prems p(1) by (cases "i = a") auto
  qed
qed

interpretation ees: field_store eeRd eeWr "\<lambda>m. length m = EE_SIZE" ee_fits
proof unfold_locales
  fix m bs :: bytes and a
  assume m: "length m = EE_SIZE" and f: "ee_fits a (length bs)"
  show "eeRd a (length bs) (eeWr a bs m) = bs"
  proof (rule nth_equalityI)
    fix i assume "i < length (eeRd a (length bs) (eeWr a bs m))"
    then have i: "i < length bs" by simp
    with f have "a + i < EE_SIZE" by (simp add: ee_fits_def)
    with i f m show "eeRd a (length bs) (eeWr a bs m) ! i = bs ! i"
      by (simp add: nth_eeRd nth_eeWr)
  qed simp
next
  fix m bs :: bytes and a b n
  assume m: "length m = EE_SIZE" and f: "ee_fits a (length bs)" "ee_fits b n"
    and sep: "a + length bs \<le> b \<or> b + n \<le> a"
  show "eeRd b n (eeWr a bs m) = eeRd b n m"
  proof (rule nth_equalityI)
    fix i assume "i < length (eeRd b n (eeWr a bs m))"
    then have i: "i < n" by simp
    with f(2) have "b + i < EE_SIZE" by (simp add: ee_fits_def)
    with i f m sep show "eeRd b n (eeWr a bs m) ! i = eeRd b n m ! i"
      by (auto simp: nth_eeRd nth_eeWr)
  qed simp
next
  fix m :: bytes and a k n
  assume "k \<le> (n :: nat)"
  then show "eeRd a k m = take k (eeRd a n m)"
    by (intro nth_equalityI) (simp_all add: nth_eeRd)
qed (auto simp: ee_fits_def)

subsection \<open>The 16 and 32 bit forms\<close>

lemma be16_split16: "be16 (ucast (drop_bit 8 w)) (ucast w) = w"
  unfolding be16_def join8 by (rule bit_word_eqI) (auto simp: bit_simps)

lemma be32_split32:
  "be32 (ucast (drop_bit 24 w)) (ucast (drop_bit 16 w)) (ucast (drop_bit 8 w)) (ucast w) = w"
  unfolding be32_def join8
proof (rule bit_word_eqI)
  fix n assume "n < LENGTH(32)"
  then consider "n < 8" | "8 \<le> n" "n < 16" | "16 \<le> n" "n < 24" | "24 \<le> n" "n < 32" by force
  then show "bit (push_bit 8 (push_bit 8 (push_bit 8 (ucast (ucast (drop_bit 24 w) :: byte))
        OR ucast (ucast (drop_bit 16 w) :: byte)) OR ucast (ucast (drop_bit 8 w) :: byte))
        OR ucast (ucast w :: byte) :: u32) n = bit w n"
    by cases (auto simp: bit_simps)
qed

lemma split16_be16: "split16 (be16 a b) = [a, b]"
proof -
  have "ucast (drop_bit 8 (be16 a b)) = a" and "ucast (be16 a b) = b"
    unfolding be16_def join8 by (rule byte_eqI; auto simp: bit_simps dest: bit_imp_le_length)+
  then show ?thesis by (simp add: split16_def)
qed

lemma eeRd16_eq: "eeRd16 a m = be16 (eeRd a 2 m ! 0) (eeRd a 2 m ! 1)"
  by (simp add: eeRd16_def eeRd8_def nth_eeRd)

lemma eeRd32_eq: "eeRd32 a m = be32 (eeRd a 4 m ! 0) (eeRd a 4 m ! 1) (eeRd a 4 m ! 2) (eeRd a 4 m ! 3)"
  by (simp add: eeRd32_def eeRd8_def nth_eeRd)

lemma eeRd16_eeWr:
  assumes "length m = EE_SIZE" and "ee_fits a 2"
  shows "eeRd16 a (eeWr a (split16 w) m) = w"
proof -
  have "length (split16 w) = 2" by (simp add: split16_def)
  then have "eeRd a 2 (eeWr a (split16 w) m) = split16 w"
    using ees.rd_wr_same [of m a "split16 w"] assms by simp
  then show ?thesis unfolding eeRd16_eq by (simp add: split16_def be16_split16)
qed

lemma eeRd32_eeWr:
  assumes "length m = EE_SIZE" and "ee_fits a 4"
  shows "eeRd32 a (eeWr a (split32 w) m) = w"
proof -
  have "length (split32 w) = 4" by (simp add: split32_def)
  then have "eeRd a 4 (eeWr a (split32 w) m) = split32 w"
    using ees.rd_wr_same [of m a "split32 w"] assms by simp
  then show ?thesis unfolding eeRd32_eq by (simp add: split32_def be32_split32)
qed

text \<open>The same through the driver.\<close>

lemma EEwrite_read_back:
  assumes "ee_ready d" and "bs \<noteq> []" and "ee_fits (unat addr) (length bs)"
  shows "\<exists>d1 d2. EEwrite addr bs d = Some d1 \<and> EEread addr (length bs) d1 = Some (bs, d2) \<and> ee_ready d2
     \<and> (\<forall>b n. ee_fits b n \<longrightarrow> unat addr + length bs \<le> b \<or> b + n \<le> unat addr
          \<longrightarrow> eeRd b n (ee_mem d2) = eeRd b n (ee_mem d))"
proof -
  have m: "length (ee_mem d) = EE_SIZE" using assms(1) by (simp add: ee_ready_def)
  have a: "unat addr mod EE_SIZE = unat addr" using assms(2,3) by (cases bs) (simp_all add: ee_fits_def)
  obtain d1 where 1: "EEwrite addr bs d = Some d1" "ee_mem d1 = eeWr (unat addr) bs (ee_mem d)" "ee_ready d1"
    using EEwrite_refines [OF assms(1), of addr bs] unfolding a by blast
  obtain d2 where 2: "EEread addr (length bs) d1 = Some (eeRd (unat addr) (length bs) (ee_mem d1), d2)"
    "ee_mem d2 = ee_mem d1" "ee_ready d2"
    using EEread_refines [OF 1(3), of "length bs" addr] assms(2) by auto
  have "eeRd (unat addr) (length bs) (ee_mem d1) = bs"
    unfolding 1(2) by (rule ees.rd_wr_same [OF m assms(3)])
  then show ?thesis
    using 1 2 ees.rd_wr_other [OF m assms(3)] by auto
qed

lemma EE32_read_back:
  assumes "ee_ready d" and "ee_fits (unat addr) 4"
  shows "\<exists>d1 d2. EEwrite_32 addr v d = Some d1 \<and> EEread_32 addr d1 = Some (v, d2) \<and> ee_ready d2"
proof -
  have m: "length (ee_mem d) = EE_SIZE" using assms(1) by (simp add: ee_ready_def)
  have a: "unat addr mod EE_SIZE = unat addr" using assms(2) by (simp add: ee_fits_def)
  obtain d1 where 1: "EEwrite_32 addr v d = Some d1" "ee_mem d1 = eeWr (unat addr) (split32 v) (ee_mem d)" "ee_ready d1"
    using EEwrite_refines [OF assms(1), of addr "split32 v"] unfolding a EEwrite_n_eq by blast
  with EEread_32_refines [OF 1(3), of addr] show ?thesis by (auto simp: eeRd32_eeWr [OF m assms(2)])
qed

lemma EE16_read_back:
  assumes "ee_ready d" and "ee_fits (unat addr) 2"
  shows "\<exists>d1 d2. EEwrite_16 addr v d = Some d1 \<and> EEread_16 addr d1 = Some (v, d2) \<and> ee_ready d2"
proof -
  have m: "length (ee_mem d) = EE_SIZE" using assms(1) by (simp add: ee_ready_def)
  have a: "unat addr mod EE_SIZE = unat addr" using assms(2) by (simp add: ee_fits_def)
  obtain d1 where 1: "EEwrite_16 addr v d = Some d1" "ee_mem d1 = eeWr (unat addr) (split16 v) (ee_mem d)" "ee_ready d1"
    using EEwrite_refines [OF assms(1), of addr "split16 v"] unfolding a EEwrite_n_eq by blast
  with EEread_16_refines [OF 1(3), of addr] show ?thesis by (auto simp: eeRd16_eeWr [OF m assms(2)])
qed

end
