(* ===== verification/Nvram.thy ===== *)
theory Nvram
  imports Store
begin

section \<open>Battery backed SRAM (\<open>define.h\<close>) and the MKT sample log (\<open>logger.c\<close>)\<close>

text \<open>
  The \<open>NVRAM_Read\<close> and \<open>NVRAM_Write\<close> macros of \<open>define.h\<close> access the 4096 bytes of
  backup SRAM; the processor is little endian. \<open>UpdateMKT\<close> keeps the last twenty samples of a
  sensor there. A sample is the bit pattern of a \<open>float\<close>. The lemmas show that the memory is a
  \<open>field_store\<close> and that \<open>UpdateMKT\<close> refines an append to a bounded log.
\<close>

definition NV_SIZE :: nat where "NV_SIZE = 4096"

definition nvRd :: "nat \<Rightarrow> nat \<Rightarrow> bytes \<Rightarrow> bytes" where
  "nvRd a n m = take n (drop a m)"

definition nvWr :: "nat \<Rightarrow> bytes \<Rightarrow> bytes \<Rightarrow> bytes" where
  "nvWr a bs m = (if a + length bs \<le> length m then take a m @ bs @ drop (a + length bs) m else m)"

definition le32 :: "bytes \<Rightarrow> u32" where
  "le32 bs = (case bs of [b0, b1, b2, b3] \<Rightarrow>
       push_bit 8 (push_bit 8 (push_bit 8 (ucast b3) + ucast b2) + ucast b1) + ucast b0
     | _ \<Rightarrow> 0)"

definition bytes32 :: "u32 \<Rightarrow> bytes" where
  "bytes32 w = [ucast w, ucast (drop_bit 8 w), ucast (drop_bit 16 w), ucast (drop_bit 24 w)]"

definition NVRAM_Read32 :: "nat \<Rightarrow> bytes \<Rightarrow> u32" where
  "NVRAM_Read32 address m = le32 (nvRd address 4 m)"

definition NVRAM_Write32 :: "nat \<Rightarrow> u32 \<Rightarrow> bytes \<Rightarrow> bytes" where
  "NVRAM_Write32 address value m = nvWr address (bytes32 value) m"

text \<open>\<open>NVRAM_ReadFloat\<close> and \<open>NVRAM_WriteFloat\<close> move the same 32 bits.\<close>

definition NVRAM_ReadFloat :: "nat \<Rightarrow> bytes \<Rightarrow> u32" where
  "NVRAM_ReadFloat = NVRAM_Read32"

definition NVRAM_WriteFloat :: "nat \<Rightarrow> u32 \<Rightarrow> bytes \<Rightarrow> bytes" where
  "NVRAM_WriteFloat = NVRAM_Write32"

subsection \<open>\<open>UpdateMKT\<close>\<close>

text \<open>The loop that drops the oldest sample, \<open>cnt\<close> from its value up to 19.\<close>

fun mkt_shift :: "nat \<Rightarrow> nat list \<Rightarrow> bytes \<Rightarrow> bytes" where
  "mkt_shift mktlog [] m = m"
| "mkt_shift mktlog (cnt # cnts) m =
     mkt_shift mktlog cnts (NVRAM_WriteFloat (mktlog + cnt * 4) (NVRAM_ReadFloat (mktlog + cnt * 4 + 4) m) m)"

definition UpdateMKT :: "nat \<Rightarrow> nat \<Rightarrow> u32 \<Rightarrow> bytes \<Rightarrow> bytes" where
  "UpdateMKT mktlog pcount newtemp m =
     (let lgcount = NVRAM_Read32 pcount m;
          (m, lgcount) =
            (if lgcount < 20
             then (NVRAM_WriteFloat (mktlog + unat lgcount * 4) newtemp m, lgcount + 1)
             else (NVRAM_WriteFloat (mktlog + 19 * 4) newtemp (mkt_shift mktlog [0..<19] m), lgcount))
      in NVRAM_Write32 pcount lgcount m)"

text \<open>The abstract log, and what appending to it means.\<close>

definition mkt_samples :: "nat \<Rightarrow> nat \<Rightarrow> bytes \<Rightarrow> u32 list" where
  "mkt_samples mktlog n m = map (\<lambda>i. NVRAM_ReadFloat (mktlog + i * 4) m) [0..<n]"

definition log_append :: "nat \<Rightarrow> 'a \<Rightarrow> 'a list \<Rightarrow> 'a list" where
  "log_append cap x xs = (if length xs < cap then xs @ [x] else tl xs @ [x])"

subsection \<open>The memory as a store of fields\<close>

definition nv_fits :: "nat \<Rightarrow> nat \<Rightarrow> bool" where
  "nv_fits a n \<longleftrightarrow> a + n \<le> NV_SIZE"

lemma length_nvWr [simp]: "length (nvWr a bs m) = length m"
  by (auto simp: nvWr_def)

lemma nth_nvWr:
  assumes "a + length bs \<le> length m" and "i < length m"
  shows "nvWr a bs m ! i = (if a \<le> i \<and> i < a + length bs then bs ! (i - a) else m ! i)"
proof -
  consider "i < a" | "a \<le> i" "i < a + length bs" | "a + length bs \<le> i" by force
  then show ?thesis using assms
    by cases (simp_all add: nvWr_def nth_append not_less less_diff_conv2)
qed

interpretation nvs: field_store nvRd nvWr "\<lambda>m. length m = NV_SIZE" nv_fits
proof unfold_locales
  fix m bs :: bytes and a b n
  assume m: "length m = NV_SIZE" and f: "nv_fits a (length bs)" "nv_fits b n"
    and sep: "a + length bs \<le> b \<or> b + n \<le> a"
  show "nvRd b n (nvWr a bs m) = nvRd b n m"
  proof (rule nth_equalityI)
    show "length (nvRd b n (nvWr a bs m)) = length (nvRd b n m)"
      unfolding nvRd_def by simp
  next
    fix i assume "i < length (nvRd b n (nvWr a bs m))"
    then have i: "i < n" "b + i < length m" using m by (auto simp: nvRd_def)
    moreover have "nvWr a bs m ! (b + i) = m ! (b + i)"
      using nth_nvWr [of a bs m "b + i"] m f sep i by (auto simp: nv_fits_def)
    ultimately show "nvRd b n (nvWr a bs m) ! i = nvRd b n m ! i"
      using m by (simp add: nvRd_def)
  qed
qed (auto simp: nvRd_def nvWr_def nv_fits_def)

lemma length_NVRAM_Write32 [simp]: "length (NVRAM_Write32 a w m) = length m"
  by (simp add: NVRAM_Write32_def)

lemma le32_bytes32 [simp]: "le32 (bytes32 w) = w"
  unfolding le32_def bytes32_def list.case join8
proof (rule bit_word_eqI)
  fix n assume "n < LENGTH(32)"
  then consider "n < 8" | "8 \<le> n" "n < 16" | "16 \<le> n" "n < 24" | "24 \<le> n" "n < 32" by force
  then show "bit (push_bit 8 (push_bit 8 (push_bit 8 (ucast (ucast (drop_bit 24 w) :: byte))
        OR ucast (ucast (drop_bit 16 w) :: byte)) OR ucast (ucast (drop_bit 8 w) :: byte))
        OR ucast (ucast w :: byte) :: u32) n = bit w n"
    by cases (auto simp: bit_simps)
qed

lemma length_bytes32 [simp]: "length (bytes32 w) = 4"
  by (simp add: bytes32_def)

lemma NVRAM_same: "length m = NV_SIZE \<Longrightarrow> a + 4 \<le> NV_SIZE \<Longrightarrow> NVRAM_Read32 a (NVRAM_Write32 a w m) = w"
  using nvs.rd_wr_same [of m a "bytes32 w"]
  by (simp add: NVRAM_Read32_def NVRAM_Write32_def nv_fits_def)

lemma NVRAM_other:
  "\<lbrakk>length m = NV_SIZE; a + 4 \<le> NV_SIZE; b + 4 \<le> NV_SIZE; a + 4 \<le> b \<or> b + 4 \<le> a\<rbrakk>
    \<Longrightarrow> NVRAM_Read32 b (NVRAM_Write32 a w m) = NVRAM_Read32 b m"
  using nvs.rd_wr_other [of m a "bytes32 w" b 4]
  by (simp add: NVRAM_Read32_def NVRAM_Write32_def nv_fits_def)

lemmas NVRAM_float = NVRAM_ReadFloat_def NVRAM_WriteFloat_def

text \<open>Cells of an array of floats.\<close>

lemma NVRAM_cell:
  assumes "length m = NV_SIZE" and "a + 80 \<le> NV_SIZE" and "i < 20" and "j < 20"
  shows "NVRAM_Read32 (a + i * 4) (NVRAM_Write32 (a + j * 4) w m)
       = (if i = j then w else NVRAM_Read32 (a + i * 4) m)"
proof (cases "i = j")
  case True
  with assms show ?thesis by (simp add: NVRAM_same)
next
  case False
  then have "j * 4 + 4 \<le> i * 4 \<or> i * 4 + 4 \<le> j * 4" by (cases "i < j") auto
  with False assms show ?thesis by (subst NVRAM_other) auto
qed

subsection \<open>\<open>UpdateMKT\<close> keeps the last twenty samples\<close>

lemma mkt_shift_read:
  assumes "length m = NV_SIZE" and "a + 80 \<le> NV_SIZE" and "lo + k \<le> 19" and "i < 20"
  shows "NVRAM_ReadFloat (a + i * 4) (mkt_shift a [lo..<lo + k] m)
       = (if lo \<le> i \<and> i < lo + k then NVRAM_ReadFloat (a + (i + 1) * 4) m else NVRAM_ReadFloat (a + i * 4) m)
     \<and> length (mkt_shift a [lo..<lo + k] m) = NV_SIZE"
  using assms
proof (induction k arbitrary: lo m)
  case 0
  then show ?case by auto
next
  case (Suc k)
  let ?m = "NVRAM_WriteFloat (a + lo * 4) (NVRAM_ReadFloat (a + lo * 4 + 4) m) m"
  have up: "[lo..<lo + Suc k] = lo # [Suc lo..<Suc lo + k]" by (simp add: upt_conv_Cons)
  have rd: "NVRAM_ReadFloat (a + j * 4) ?m
      = (if j = lo then NVRAM_ReadFloat (a + (lo + 1) * 4) m else NVRAM_ReadFloat (a + j * 4) m)"
    if "j < 20" for j
    using that Suc.prems NVRAM_cell [of m a j lo] by (auto simp: NVRAM_float algebra_simps)
  have "length ?m = NV_SIZE" using Suc.prems by (simp add: NVRAM_WriteFloat_def)
  note IH = Suc.IH [OF this Suc.prems(2), of "Suc lo"]
  show ?case
    using IH Suc.prems rd [of i] rd [of "i + 1"] unfolding up mkt_shift.simps by auto
qed

lemma UpdateMKT_appends:
  assumes "length m = NV_SIZE" and "a + 80 \<le> NV_SIZE" and "c + 4 \<le> a"
    and "n = unat (NVRAM_Read32 c m)" and "n \<le> 20"
  shows "mkt_samples a (unat (NVRAM_Read32 c (UpdateMKT a c x m))) (UpdateMKT a c x m)
       = log_append 20 x (mkt_samples a n m)
     \<and> length (UpdateMKT a c x m) = NV_SIZE"
proof (cases "n < 20")
  case True
  let ?lg = "NVRAM_Read32 c m"
  let ?m1 = "NVRAM_WriteFloat (a + n * 4) x m"
  have lt: "?lg < 20" using True assms(4) by (simp add: word_less_nat_alt)
  have m1: "length ?m1 = NV_SIZE" using assms(1) by (simp add: NVRAM_WriteFloat_def)
  have U: "UpdateMKT a c x m = NVRAM_Write32 c (?lg + 1) ?m1"
    using lt assms(4) by (simp add: UpdateMKT_def Let_def)
  have cnt: "unat (?lg + 1) = n + 1" using True assms(4) by (simp add: unat_word_ariths)
  have cr: "NVRAM_Read32 c (UpdateMKT a c x m) = ?lg + 1"
    unfolding U using m1 assms by (intro NVRAM_same) auto
  have rd: "NVRAM_ReadFloat (a + i * 4) (UpdateMKT a c x m)
      = (if i = n then x else NVRAM_ReadFloat (a + i * 4) m)" if "i \<le> n" for i
  proof -
    have "NVRAM_ReadFloat (a + i * 4) (UpdateMKT a c x m) = NVRAM_ReadFloat (a + i * 4) ?m1"
      unfolding U NVRAM_ReadFloat_def using m1 assms that True by (intro NVRAM_other) auto
    also have "\<dots> = (if i = n then x else NVRAM_ReadFloat (a + i * 4) m)"
      using assms that True NVRAM_cell [of m a i n] by (simp add: NVRAM_float)
    finally show ?thesis .
  qed
  have "mkt_samples a (n + 1) (UpdateMKT a c x m) = mkt_samples a n m @ [x]"
    by (auto simp: mkt_samples_def rd)
  then show ?thesis using True m1 unfolding cr cnt
    by (simp add: log_append_def mkt_samples_def U)
next
  case False
  then have n: "n = 20" using assms(5) by simp
  let ?lg = "NVRAM_Read32 c m"
  let ?m0 = "mkt_shift a [0..<19] m"
  let ?m1 = "NVRAM_WriteFloat (a + 19 * 4) x ?m0"
  have ge: "\<not> ?lg < 20" using n assms(4) by (simp add: word_less_nat_alt)
  have sh: "NVRAM_ReadFloat (a + i * 4) ?m0
      = (if i < 19 then NVRAM_ReadFloat (a + (i + 1) * 4) m else NVRAM_ReadFloat (a + i * 4) m)
     \<and> length ?m0 = NV_SIZE" if "i < 20" for i
    using mkt_shift_read [OF assms(1,2), of 0 19 i] that by simp
  have m1: "length ?m1 = NV_SIZE" using sh [of 0] by (simp add: NVRAM_WriteFloat_def)
  have U: "UpdateMKT a c x m = NVRAM_Write32 c ?lg ?m1"
    using ge by (simp add: UpdateMKT_def Let_def)
  have cr: "NVRAM_Read32 c (UpdateMKT a c x m) = ?lg"
    unfolding U using m1 assms by (intro NVRAM_same) auto
  have rd: "NVRAM_ReadFloat (a + i * 4) (UpdateMKT a c x m)
      = (if i = 19 then x else NVRAM_ReadFloat (a + (i + 1) * 4) m)" if "i < 20" for i
  proof -
    have "NVRAM_ReadFloat (a + i * 4) (UpdateMKT a c x m) = NVRAM_ReadFloat (a + i * 4) ?m1"
      unfolding U NVRAM_ReadFloat_def using m1 assms that by (intro NVRAM_other) auto
    also have "\<dots> = (if i = 19 then x else NVRAM_ReadFloat (a + (i + 1) * 4) m)"
      using sh [OF that] assms that NVRAM_cell [of ?m0 a i 19 x] by (simp add: NVRAM_float)
    finally show ?thesis .
  qed
  have "mkt_samples a 20 (UpdateMKT a c x m) = tl (mkt_samples a 20 m) @ [x]"
    by (rule nth_equalityI) (auto simp: mkt_samples_def rd nth_append nth_tl)
  then show ?thesis using m1 n assms(4) unfolding cr
    by (simp add: log_append_def mkt_samples_def U)
qed

subsection \<open>The logs of the eight sensors\<close>

lemma mkt_shift_other:
  assumes "a + 80 \<le> NV_SIZE" and "b + 4 \<le> NV_SIZE" and "b + 4 \<le> a \<or> a + 80 \<le> b"
  shows "length m = NV_SIZE \<Longrightarrow> \<forall>c \<in> set cs. c < 19 \<Longrightarrow>
    NVRAM_Read32 b (mkt_shift a cs m) = NVRAM_Read32 b m \<and> length (mkt_shift a cs m) = NV_SIZE"
proof (induction cs arbitrary: m)
  case (Cons c cs)
  let ?m = "NVRAM_Write32 (a + c * 4) (NVRAM_Read32 (a + c * 4 + 4) m) m"
  have "NVRAM_Read32 b ?m = NVRAM_Read32 b m" using Cons.prems assms by (intro NVRAM_other) auto
  moreover have "NVRAM_Read32 b (mkt_shift a cs ?m) = NVRAM_Read32 b ?m \<and> length (mkt_shift a cs ?m) = NV_SIZE"
    using Cons.prems by (intro Cons.IH) auto
  ultimately show ?case by (simp add: NVRAM_float)
qed simp

lemma UpdateMKT_other:
  assumes "length m = NV_SIZE" and "a + 80 \<le> NV_SIZE" and "c + 4 \<le> NV_SIZE" and "unat (NVRAM_Read32 c m) \<le> 20"
    and "b + 4 \<le> NV_SIZE" and "b + 4 \<le> a \<or> a + 80 \<le> b" and "b + 4 \<le> c \<or> c + 4 \<le> b"
  shows "NVRAM_Read32 b (UpdateMKT a c x m) = NVRAM_Read32 b m"
proof -
  have w: "NVRAM_Read32 b (NVRAM_Write32 (a + k * 4) v m') = NVRAM_Read32 b m'"
    if "length m' = NV_SIZE" "k < 20" for k v m'
    using that assms by (intro NVRAM_other) auto
  have l: "length (NVRAM_Write32 p v m') = length m'" for p v m' by simp
  have s: "NVRAM_Read32 b (mkt_shift a [0..<19] m) = NVRAM_Read32 b m \<and> length (mkt_shift a [0..<19] m) = NV_SIZE"
    using assms by (intro mkt_shift_other) auto
  have c: "NVRAM_Read32 b (NVRAM_Write32 c v m') = NVRAM_Read32 b m'" if "length m' = NV_SIZE" for v m'
    using that assms by (intro NVRAM_other) auto
  show ?thesis
    using assms(1) s w [of _ "unat (NVRAM_Read32 c m)"] w [of _ 19] c
    by (auto simp: UpdateMKT_def Let_def NVRAM_float word_less_nat_alt)
qed

text \<open>The logs of the eight sensors, as \<open>LogTemp\<close> places them.\<close>

definition mkt_at :: "nat \<Rightarrow> nat" where "mkt_at i = 0x70 + 80 * i"
definition mkt_count_at :: "nat \<Rightarrow> nat" where "mkt_count_at i = 0x4C + i * 4"

definition mkt_ok :: "bytes \<Rightarrow> bool" where
  "mkt_ok m \<longleftrightarrow> length m = NV_SIZE \<and> list_all (\<lambda>i. unat (NVRAM_Read32 (mkt_count_at i) m) \<le> 20) [0..<8]"

definition mkt_log :: "bytes \<Rightarrow> nat \<Rightarrow> u32 list" where
  "mkt_log m i = mkt_samples (mkt_at i) (unat (NVRAM_Read32 (mkt_count_at i) m)) m"

lemma mkt_samples_cong:
  "(\<And>i. i < n \<Longrightarrow> NVRAM_Read32 (a + i * 4) m' = NVRAM_Read32 (a + i * 4) m) \<Longrightarrow> mkt_samples a n m' = mkt_samples a n m"
  by (simp add: mkt_samples_def NVRAM_float)

lemma length_log_append: "length xs \<le> cap \<Longrightarrow> 0 < cap \<Longrightarrow> length (log_append cap x xs) \<le> cap"
  by (auto simp: log_append_def)

lemma UpdateMKT_logs:
  assumes "mkt_ok m" and "i < 8"
  shows "mkt_ok (UpdateMKT (mkt_at i) (mkt_count_at i) x m)
     \<and> map (mkt_log (UpdateMKT (mkt_at i) (mkt_count_at i) x m)) [0..<8]
       = (map (mkt_log m) [0..<8])[i := log_append 20 x (mkt_log m i)]"
proof -
  let ?m = "UpdateMKT (mkt_at i) (mkt_count_at i) x m"
  have len: "length m = NV_SIZE" and cnt: "unat (NVRAM_Read32 (mkt_count_at k) m) \<le> 20" if "k < 8" for k
    using assms(1) that by (auto simp: mkt_ok_def list_all_iff)
  have a: "mkt_at i + 80 \<le> NV_SIZE" "mkt_count_at i + 4 \<le> mkt_at i" "mkt_count_at i + 4 \<le> NV_SIZE"
    using assms(2) by (simp_all add: mkt_at_def mkt_count_at_def NV_SIZE_def)
  have u: "mkt_samples (mkt_at i) (unat (NVRAM_Read32 (mkt_count_at i) ?m)) ?m
       = log_append 20 x (mkt_samples (mkt_at i) (unat (NVRAM_Read32 (mkt_count_at i) m)) m) \<and> length ?m = NV_SIZE"
    using len cnt [OF assms(2)] a assms(2) by (intro UpdateMKT_appends) auto
  have other: "NVRAM_Read32 b ?m = NVRAM_Read32 b m"
    if "b + 4 \<le> NV_SIZE" "b + 4 \<le> mkt_at i \<or> mkt_at i + 80 \<le> b" "b + 4 \<le> mkt_count_at i \<or> mkt_count_at i + 4 \<le> b" for b
    using that len cnt [OF assms(2)] a assms(2) by (intro UpdateMKT_other) auto
  have c: "NVRAM_Read32 (mkt_count_at k) ?m = NVRAM_Read32 (mkt_count_at k) m" if "k < 8" "k \<noteq> i" for k
    using that assms(2) by (intro other) (auto simp: mkt_at_def mkt_count_at_def NV_SIZE_def)
  have l: "mkt_log ?m k = mkt_log m k" if k: "k < 8" "k \<noteq> i" for k
  proof -
    have "NVRAM_Read32 (mkt_at k + j * 4) ?m = NVRAM_Read32 (mkt_at k + j * 4) m" if "j < 20" for j
    proof (rule other)
      show "mkt_at k + j * 4 + 4 \<le> mkt_at i \<or> mkt_at i + 80 \<le> mkt_at k + j * 4"
        using k(2) that by (cases "k < i") (auto simp: mkt_at_def)
    qed (use k that assms(2) in \<open>auto simp: mkt_at_def mkt_count_at_def NV_SIZE_def\<close>)
    then show ?thesis unfolding mkt_log_def c [OF k] using cnt [OF k(1)] by (intro mkt_samples_cong) auto
  qed
  have own: "mkt_log ?m i = log_append 20 x (mkt_log m i)" using u by (simp add: mkt_log_def)
  have "length (mkt_log m i) \<le> 20" using cnt [OF assms(2)] by (simp add: mkt_log_def mkt_samples_def)
  then have "length (mkt_log ?m i) \<le> 20" unfolding own by (rule length_log_append) simp
  then have ci: "unat (NVRAM_Read32 (mkt_count_at i) ?m) \<le> 20" by (simp add: mkt_log_def mkt_samples_def)
  have "unat (NVRAM_Read32 (mkt_count_at k) ?m) \<le> 20" if "k < 8" for k
    using c [OF that] cnt [OF that] ci by (cases "k = i") auto
  then have "mkt_ok ?m" using u by (simp add: mkt_ok_def list_all_iff)
  moreover have "map (mkt_log ?m) [0..<8] = (map (mkt_log m) [0..<8])[i := log_append 20 x (mkt_log m i)]"
  proof (rule nth_equalityI)
    fix k assume "k < length (map (mkt_log ?m) [0..<8])"
    then have k: "k < 8" by simp
    then have "map f [0..<8] ! k = f k" for f :: "nat \<Rightarrow> u32 list" by (subst nth_map) simp_all
    then show "map (mkt_log ?m) [0..<8] ! k = (map (mkt_log m) [0..<8])[i := log_append 20 x (mkt_log m i)] ! k"
      using k own l assms(2) by (cases "k = i") (simp_all add: nth_list_update)
  qed simp
  ultimately show ?thesis by simp
qed

end
