(* ===== verification/Float32.thy ===== *)
theory Float32
  imports Prelude
begin

section \<open>Single precision arithmetic\<close>

text \<open>
  A \<open>float\<close> of the firmware is its IEEE 754 bit pattern. The operations are those the Cortex-M4
  executes, with rounding to the nearest, ties to even: a finite value is \<open>\<plusminus> m * 2 ^ e\<close> with a natural
  number \<open>m\<close> and an integer \<open>e\<close>, the result is computed exactly and then rounded. A NaN
  operand is returned quiet. The lemmas show that sums of small integers are exact and that the
  comparison of patterns orders the integers.
\<close>

subsection \<open>Model\<close>

fun ilog2 :: "nat \<Rightarrow> nat" where
  "ilog2 n = (if n < 2 then 0 else Suc (ilog2 (n div 2)))"

declare ilog2.simps [simp del]

abbreviation (input) F32_INF :: nat where "F32_INF \<equiv> 0x7F800000"

definition f32_sign :: "u32 \<Rightarrow> bool" where
  "f32_sign w \<longleftrightarrow> unat w \<ge> 2 ^ 31"

definition f32_abs :: "u32 \<Rightarrow> nat" where
  "f32_abs w = unat w mod 2 ^ 31"

definition f32_nan :: "u32 \<Rightarrow> bool" where
  "f32_nan w \<longleftrightarrow> f32_abs w > F32_INF"

definition f32_inf :: "u32 \<Rightarrow> bool" where
  "f32_inf w \<longleftrightarrow> f32_abs w = F32_INF"

definition f32_mant :: "u32 \<Rightarrow> nat" where
  "f32_mant w = (if f32_abs w < 2 ^ 23 then f32_abs w else 2 ^ 23 + f32_abs w mod 2 ^ 23)"

definition f32_exp :: "u32 \<Rightarrow> int" where
  "f32_exp w = int (max 1 (f32_abs w div 2 ^ 23)) - 150"

definition f32_pack :: "bool \<Rightarrow> nat \<Rightarrow> u32" where
  "f32_pack s p = of_nat ((if s then 2 ^ 31 else 0) + min p F32_INF)"

text \<open>Rounding \<open>m * 2 ^ e\<close> to a multiple of \<open>2 ^ q\<close>, where \<open>q\<close> is the unit in the last place.\<close>

definition f32_round :: "bool \<Rightarrow> nat \<Rightarrow> int \<Rightarrow> u32" where
  "f32_round s m e =
     (if m = 0 then f32_pack s 0
      else let q = max (e + int (ilog2 m) - 23) (- 149); d = q - e;
               n = (if d \<le> 0 then m * 2 ^ nat (- d)
                    else let t = m div 2 ^ nat d; r = m mod 2 ^ nat d; half = 2 ^ (nat d - 1)
                         in if r > half \<or> (r = half \<and> odd t) then t + 1 else t)
           in f32_pack s (nat (q + 149) * 2 ^ 23 + n))"

definition f32_of_int :: "int \<Rightarrow> u32" where
  "f32_of_int i = f32_round (i < 0) (nat \<bar>i\<bar>) 0"

definition f32_quiet :: "u32 \<Rightarrow> u32" where
  "f32_quiet w = w OR 0x400000"

definition f32_default_nan :: u32 where
  "f32_default_nan = 0x7FC00000"

definition f32_neg :: "u32 \<Rightarrow> u32" where
  "f32_neg w = of_nat ((if f32_sign w then 0 else 2 ^ 31) + f32_abs w)"

definition f32_scaled :: "u32 \<Rightarrow> int \<Rightarrow> int" where
  "f32_scaled w e = (if f32_sign w then - 1 else 1) * int (f32_mant w * 2 ^ nat (f32_exp w - e))"

definition f32_add :: "u32 \<Rightarrow> u32 \<Rightarrow> u32" where
  "f32_add a b =
     (if f32_nan a then f32_quiet a else if f32_nan b then f32_quiet b
      else if f32_inf a then (if f32_inf b \<and> f32_sign a \<noteq> f32_sign b then f32_default_nan else a)
      else if f32_inf b then b
      else let e = min (f32_exp a) (f32_exp b); i = f32_scaled a e + f32_scaled b e
           in if i = 0 then f32_pack (f32_sign a \<and> f32_sign b) 0 else f32_round (i < 0) (nat \<bar>i\<bar>) e)"

definition f32_sub :: "u32 \<Rightarrow> u32 \<Rightarrow> u32" where
  "f32_sub a b = (if f32_nan b then f32_add a b else f32_add a (f32_neg b))"

text \<open>A quotient with sixty more binary places; a remainder only matters as not being zero.\<close>

definition f32_div :: "u32 \<Rightarrow> u32 \<Rightarrow> u32" where
  "f32_div a b =
     (let s = (f32_sign a \<noteq> f32_sign b); ma = f32_mant a * 2 ^ 60; mb = f32_mant b
      in if f32_nan a then f32_quiet a else if f32_nan b then f32_quiet b
         else if f32_inf a then (if f32_inf b then f32_default_nan else f32_pack s F32_INF)
         else if f32_inf b then f32_pack s 0
         else if mb = 0 then (if ma = 0 then f32_default_nan else f32_pack s F32_INF)
         else f32_round s (2 * (ma div mb) + (if ma mod mb = 0 then 0 else 1)) (f32_exp a - f32_exp b - 61))"

text \<open>Comparison: a NaN compares false, the two zeros are equal.\<close>

definition f32_key :: "u32 \<Rightarrow> int" where
  "f32_key w = (if f32_sign w then - int (f32_abs w) else int (f32_abs w))"

definition f32_less :: "u32 \<Rightarrow> u32 \<Rightarrow> bool" where
  "f32_less a b \<longleftrightarrow> \<not> f32_nan a \<and> \<not> f32_nan b \<and> f32_key a < f32_key b"

definition f32_le :: "u32 \<Rightarrow> u32 \<Rightarrow> bool" where
  "f32_le a b \<longleftrightarrow> \<not> f32_nan a \<and> \<not> f32_nan b \<and> f32_key a \<le> f32_key b"

subsection \<open>Integers\<close>

lemma ilog2_bounds: "0 < n \<Longrightarrow> 2 ^ ilog2 n \<le> n \<and> n < 2 ^ (ilog2 n + 1)"
proof (induction n rule: ilog2.induct)
  case (1 n)
  show ?case
  proof (cases "n < 2")
    case True
    with 1(2) show ?thesis by (simp add: ilog2.simps [of n])
  next
    case False
    then have "2 ^ ilog2 (n div 2) \<le> n div 2" "n div 2 < 2 ^ (ilog2 (n div 2) + 1)" using 1(1) by auto
    moreover have "2 * (n div 2) \<le> n" "n < 2 * (n div 2) + 2" by presburger+
    ultimately show ?thesis using False by (simp add: ilog2.simps [of n])
  qed
qed

lemma ilog2_unique: "2 ^ k \<le> n \<Longrightarrow> n < 2 ^ (k + 1) \<Longrightarrow> ilog2 n = k"
proof -
  assume a: "2 ^ k \<le> n" "n < 2 ^ (k + 1)"
  then have n: "0 < n" using less_le_trans [of 0 "2 ^ k" n] by simp
  from ilog2_bounds [OF n] a have "(2 :: nat) ^ k < 2 ^ (ilog2 n + 1)" "(2 :: nat) ^ ilog2 n < 2 ^ (k + 1)" by linarith+
  then have "k < ilog2 n + 1" "ilog2 n < k + 1"
    by (simp_all only: power_strict_increasing_iff one_less_numeral_iff semiring_norm)
  then show ?thesis by simp
qed

text \<open>The pattern of a natural number below \<open>2 ^ 24\<close>.\<close>

definition nat_pattern :: "nat \<Rightarrow> nat" where
  "nat_pattern n = (if n = 0 then 0 else (ilog2 n + 126) * 2 ^ 23 + n * 2 ^ (23 - ilog2 n))"

lemma scaled_mant:
  assumes "0 < n" and "n < 2 ^ 24"
  shows "ilog2 n \<le> 23" "2 ^ 23 \<le> n * 2 ^ (23 - ilog2 n)" "n * 2 ^ (23 - ilog2 n) < 2 ^ 24"
proof -
  note b = ilog2_bounds [OF assms(1)]
  then have "(2 :: nat) ^ ilog2 n < 2 ^ 24" using assms(2) by linarith
  then have "ilog2 n < 24" by (rule power_less_imp_less_exp [rotated]) simp
  then show l: "ilog2 n \<le> 23" by simp
  have "(2 :: nat) ^ 23 = 2 ^ ilog2 n * 2 ^ (23 - ilog2 n)" using l by (simp add: power_add [symmetric])
  then show "2 ^ 23 \<le> n * 2 ^ (23 - ilog2 n)" using b by (metis mult_le_mono1)
  have "(2 :: nat) ^ 24 = 2 ^ (ilog2 n + 1) * 2 ^ (23 - ilog2 n)" using l by (simp add: power_add [symmetric])
  then show "n * 2 ^ (23 - ilog2 n) < 2 ^ 24" using b by (metis mult_less_mono1 zero_less_power zero_less_numeral)
qed

lemma nat_pattern_bound: "n < 2 ^ 24 \<Longrightarrow> nat_pattern n < F32_INF"
proof (cases "n = 0")
  case False
  assume "n < 2 ^ 24"
  with False have "ilog2 n \<le> 23" "n * 2 ^ (23 - ilog2 n) < 2 ^ 24" using scaled_mant [of n] by auto
  then have "(ilog2 n + 126) * 2 ^ 23 \<le> 149 * 2 ^ 23" "n * 2 ^ (23 - ilog2 n) < 2 ^ 24" by auto
  with False show ?thesis by (simp add: nat_pattern_def)
qed (simp add: nat_pattern_def)

lemma f32_round_exact:
  assumes "0 < n" and "n < 2 ^ 24"
  shows "f32_round s (n * 2 ^ k) (- int k) = f32_pack s (nat_pattern n)"
proof -
  let ?l = "ilog2 n"
  note b = ilog2_bounds [OF assms(1)] and sm = scaled_mant [OF assms]
  have l: "ilog2 (n * 2 ^ k) = ?l + k"
  proof (rule ilog2_unique)
    show "2 ^ (?l + k) \<le> n * 2 ^ k" using b by (simp add: power_add)
    have "n * 2 ^ k < 2 ^ (?l + 1) * 2 ^ k" using b by simp
    then show "n * 2 ^ k < 2 ^ (?l + k + 1)" by (simp add: power_add mult.commute mult.left_commute)
  qed
  have m0: "n * 2 ^ k \<noteq> 0" using assms(1) by simp
  define q where "q = max (- int k + int (ilog2 (n * 2 ^ k)) - 23) (- 149)"
  have q: "q = int ?l - 23" unfolding q_def l by simp
  have "(if q + int k \<le> 0 then n * 2 ^ k * 2 ^ nat (- (q + int k))
        else let t = n * 2 ^ k div 2 ^ nat (q + int k); r = n * 2 ^ k mod 2 ^ nat (q + int k); half = 2 ^ (nat (q + int k) - 1)
             in if r > half \<or> (r = half \<and> odd t) then t + 1 else t) = n * 2 ^ (23 - ?l)"
  proof (cases "q + int k \<le> 0")
    case True
    then have "k + nat (- (q + int k)) = 23 - ?l" using q sm(1) by simp
    then have "(2 :: nat) ^ k * 2 ^ nat (- (q + int k)) = 2 ^ (23 - ?l)" by (simp add: power_add [symmetric])
    then show ?thesis using True by (simp add: mult.assoc)
  next
    case False
    then have "k = (23 - ?l) + nat (q + int k)" using q sm(1) by simp
    then have "n * 2 ^ k = (n * 2 ^ (23 - ?l)) * 2 ^ nat (q + int k)" by (metis mult.assoc power_add)
    then have "n * 2 ^ k div 2 ^ nat (q + int k) = n * 2 ^ (23 - ?l)" "n * 2 ^ k mod 2 ^ nat (q + int k) = 0"
      by (simp_all only: nonzero_mult_div_cancel_right [OF power_not_zero [OF zero_neq_numeral [symmetric]]] mod_mult_self2_is_0)
    then show ?thesis using False by (simp add: Let_def)
  qed
  moreover have "nat (q + 149) * 2 ^ 23 + n * 2 ^ (23 - ?l) = nat_pattern n"
  proof -
    have "nat (q + 149) = ?l + 126" using q by simp
    then show ?thesis using assms(1) by (simp add: nat_pattern_def)
  qed
  ultimately show ?thesis using m0 unfolding f32_round_def Let_def q_def [symmetric] diff_minus_eq_add by simp
qed

lemma f32_pack_fields:
  assumes "p \<le> F32_INF"
  shows "f32_sign (f32_pack s p) = s" "f32_abs (f32_pack s p) = p"
proof -
  have "unat (f32_pack s p) = (if s then 2 ^ 31 else 0) + p"
    using assms by (simp add: f32_pack_def unat_of_nat del: of_nat_add)
  then show "f32_sign (f32_pack s p) = s" "f32_abs (f32_pack s p) = p"
    using assms by (auto simp: f32_sign_def f32_abs_def)
qed

lemma f32_of_int_pattern: "\<bar>i\<bar> < 2 ^ 24 \<Longrightarrow> f32_of_int i = f32_pack (i < 0) (nat_pattern (nat \<bar>i\<bar>))"
  using f32_round_exact [of "nat \<bar>i\<bar>" "i < 0" 0]
  by (cases "i = 0") (auto simp: f32_of_int_def nat_pattern_def f32_round_def)

lemma f32_of_int_fields:
  assumes "\<bar>i\<bar> < 2 ^ 24"
  shows "f32_sign (f32_of_int i) = (i < 0)" "f32_abs (f32_of_int i) = nat_pattern (nat \<bar>i\<bar>)"
    "\<not> f32_nan (f32_of_int i)" "\<not> f32_inf (f32_of_int i)"
proof -
  have "nat \<bar>i\<bar> < 2 ^ 24" using assms by simp
  then have b: "nat_pattern (nat \<bar>i\<bar>) < F32_INF" by (rule nat_pattern_bound)
  then show "f32_sign (f32_of_int i) = (i < 0)" "f32_abs (f32_of_int i) = nat_pattern (nat \<bar>i\<bar>)"
    unfolding f32_of_int_pattern [OF assms] using f32_pack_fields [of "nat_pattern (nat \<bar>i\<bar>)" "i < 0"] by simp_all
  then show "\<not> f32_nan (f32_of_int i)" "\<not> f32_inf (f32_of_int i)"
    using b by (simp_all add: f32_nan_def f32_inf_def)
qed

text \<open>The value of a pattern.\<close>

lemma nat_pattern_value:
  assumes "n < 2 ^ 24" and "f32_abs w = nat_pattern n"
  shows "f32_exp w \<le> 0" "e \<le> f32_exp w \<Longrightarrow> f32_mant w * 2 ^ nat (f32_exp w - e) = n * 2 ^ nat (- e)"
proof -
  have "f32_exp w \<le> 0 \<and> (e \<le> f32_exp w \<longrightarrow> f32_mant w * 2 ^ nat (f32_exp w - e) = n * 2 ^ nat (- e))"
  proof (cases "n = 0")
    case True
    then show ?thesis using assms(2) by (simp add: f32_exp_def f32_mant_def nat_pattern_def)
  next
    case False
    then have n: "0 < n" by simp
    let ?l = "ilog2 n" let ?m = "n * 2 ^ (23 - ?l)"
    note sm = scaled_mant [OF n assms(1)]
    have p: "f32_abs w = (?l + 126) * 2 ^ 23 + ?m" using assms(2) False by (simp add: nat_pattern_def)
    define f where "f = ?m - 2 ^ 23"
    have mf: "?m = 2 ^ 23 + f" "f < 2 ^ 23" using sm by (auto simp: f_def)
    have pf: "f32_abs w = (?l + 127) * 2 ^ 23 + f" using p mf by simp
    have ex: "f32_abs w div 2 ^ 23 = ?l + 127" "f32_abs w mod 2 ^ 23 = f" 
      using div_mult_self3 [of "2 ^ 23" "?l + 127" f] mod_mult_self3 [of "?l + 127" "2 ^ 23" f] mf(2) unfolding pf by simp_all
    have ge: "\<not> f32_abs w < 2 ^ 23" using pf by simp
    have mant: "f32_mant w = ?m" unfolding f32_mant_def ex using ge mf(1) by simp
    have e: "f32_exp w = int ?l - 23" unfolding f32_exp_def ex by simp
    have "?m * 2 ^ nat (int ?l - 23 - e) = n * 2 ^ nat (- e)" if "e \<le> int ?l - 23"
    proof -
      have "(23 - ?l) + nat (int ?l - 23 - e) = nat (- e)" using that sm(1) by simp
      then have "(2 :: nat) ^ (23 - ?l) * 2 ^ nat (int ?l - 23 - e) = 2 ^ nat (- e)" by (simp add: power_add [symmetric])
      then show ?thesis by (simp add: mult.assoc)
    qed
    then show ?thesis using e mant sm(1) by simp
  qed
  then show "f32_exp w \<le> 0" "e \<le> f32_exp w \<Longrightarrow> f32_mant w * 2 ^ nat (f32_exp w - e) = n * 2 ^ nat (- e)" by blast+
qed

lemma f32_scaled_of_int:
  assumes "\<bar>i\<bar> < 2 ^ 24" and "e \<le> f32_exp (f32_of_int i)"
  shows "f32_scaled (f32_of_int i) e = i * 2 ^ nat (- e)" "f32_exp (f32_of_int i) \<le> 0"
proof -
  have n: "nat \<bar>i\<bar> < 2 ^ 24" using assms(1) by simp
  note v = nat_pattern_value [OF n f32_of_int_fields(2) [OF assms(1)]]
  show "f32_exp (f32_of_int i) \<le> 0" by (rule v(1))
  have "int (f32_mant (f32_of_int i) * 2 ^ nat (f32_exp (f32_of_int i) - e)) = \<bar>i\<bar> * 2 ^ nat (- e)"
    unfolding v(2) [OF assms(2)] by simp
  then show "f32_scaled (f32_of_int i) e = i * 2 ^ nat (- e)"
    unfolding f32_scaled_def f32_of_int_fields(1) [OF assms(1)] by auto
qed

text \<open>Sums of small integers are exact.\<close>

lemma f32_add_pattern:
  assumes "\<bar>i\<bar> < 2 ^ 24" and "\<bar>j\<bar> < 2 ^ 24" and "\<bar>i + j\<bar> < 2 ^ 24"
    and w: "f32_abs w = nat_pattern (nat \<bar>j\<bar>)" and s: "j \<noteq> 0 \<Longrightarrow> f32_sign w = (j < 0)"
  shows "f32_add (f32_of_int i) w = f32_of_int (i + j)"
proof -
  define e where "e = min (f32_exp (f32_of_int i)) (f32_exp w)"
  have le: "e \<le> f32_exp (f32_of_int i)" "e \<le> f32_exp w" by (simp_all add: e_def)
  have nj: "nat \<bar>j\<bar> < 2 ^ 24" using assms(2) by simp
  note si = f32_scaled_of_int [OF assms(1) le(1)]
  have "int (f32_mant w * 2 ^ nat (f32_exp w - e)) = \<bar>j\<bar> * 2 ^ nat (- e)"
    unfolding nat_pattern_value(2) [OF nj w le(2)] by simp
  then have sj: "f32_scaled w e = j * 2 ^ nat (- e)"
    unfolding f32_scaled_def using s by (cases "j = 0") auto
  have e0: "e = - int (nat (- e))" using le(1) si(2) by simp
  have sum: "f32_scaled (f32_of_int i) e + f32_scaled w e = (i + j) * 2 ^ nat (- e)"
    unfolding si(1) sj by (simp add: distrib_right)
  note fi = f32_of_int_fields [OF assms(1)]
  have fj: "\<not> f32_nan w" "\<not> f32_inf w" using nat_pattern_bound [OF nj] by (simp_all add: f32_nan_def f32_inf_def w)
  have add: "f32_add (f32_of_int i) w
      = (if (i + j) * 2 ^ nat (- e) = 0 then f32_pack (i < 0 \<and> f32_sign w) 0
         else f32_round ((i + j) * 2 ^ nat (- e) < 0) (nat \<bar>(i + j) * 2 ^ nat (- e)\<bar>) e)"
    unfolding f32_add_def Let_def e_def [symmetric] sum fi(1) using fi(3,4) fj by simp
  show ?thesis
  proof (cases "i + j = 0")
    case True
    then have c: "(i < 0 \<and> f32_sign w) = False" using s by auto
    show ?thesis unfolding add True c by (simp add: f32_of_int_def f32_round_def)
  next
    case False
    have "nat \<bar>(i + j) * 2 ^ nat (- e)\<bar> = nat \<bar>i + j\<bar> * 2 ^ nat (- e)"
      by (simp add: abs_mult nat_mult_distrib nat_power_eq)
    moreover have "((i + j) * 2 ^ nat (- e) < 0) = (i + j < 0)" by (simp add: mult_less_0_iff)
    moreover have "f32_round (i + j < 0) (nat \<bar>i + j\<bar> * 2 ^ nat (- e)) e = f32_pack (i + j < 0) (nat_pattern (nat \<bar>i + j\<bar>))"
      using f32_round_exact [of "nat \<bar>i + j\<bar>" "i + j < 0" "nat (- e)"] False assms(3) e0 by simp
    ultimately show ?thesis using False unfolding add f32_of_int_pattern [OF assms(3)] by simp
  qed
qed

lemma f32_add_int:
  assumes "\<bar>i\<bar> < 2 ^ 24" and "\<bar>j\<bar> < 2 ^ 24" and "\<bar>i + j\<bar> < 2 ^ 24"
  shows "f32_add (f32_of_int i) (f32_of_int j) = f32_of_int (i + j)"
  by (rule f32_add_pattern [OF assms]) (simp_all add: f32_of_int_fields [OF assms(2)])

lemma f32_neg_fields: "f32_sign (f32_neg w) = (\<not> f32_sign w)" "f32_abs (f32_neg w) = f32_abs w"
proof -
  have "f32_abs w < 2 ^ 31" by (simp add: f32_abs_def)
  then have "unat (f32_neg w) = (if f32_sign w then 0 else 2 ^ 31) + f32_abs w"
    unfolding f32_neg_def by (subst unat_of_nat) auto
  then show "f32_sign (f32_neg w) = (\<not> f32_sign w)" "f32_abs (f32_neg w) = f32_abs w"
    using \<open>f32_abs w < 2 ^ 31\<close> by (auto simp: f32_sign_def f32_abs_def)
qed

lemma f32_sub_int:
  assumes "\<bar>i\<bar> < 2 ^ 24" and "\<bar>j\<bar> < 2 ^ 24" and "\<bar>i - j\<bar> < 2 ^ 24"
  shows "f32_sub (f32_of_int i) (f32_of_int j) = f32_of_int (i - j)"
proof -
  have "f32_add (f32_of_int i) (f32_neg (f32_of_int j)) = f32_of_int (i + - j)"
    using assms by (intro f32_add_pattern) (auto simp: f32_neg_fields f32_of_int_fields [OF assms(2)])
  then show ?thesis by (simp add: f32_sub_def f32_of_int_fields [OF assms(2)])
qed

text \<open>The patterns of small integers are ordered as the integers.\<close>

lemma nat_pattern_mono:
  assumes "m < n" and "n < 2 ^ 24"
  shows "nat_pattern m < nat_pattern n"
proof (cases "m = 0")
  case True
  then show ?thesis using assms by (simp add: nat_pattern_def)
next
  case False
  then have m: "0 < m" "m < 2 ^ 24" "0 < n" using assms by auto
  note sm = scaled_mant [OF m(1,2)] and sn = scaled_mant [OF m(3) assms(2)]
  have le: "ilog2 m \<le> ilog2 n"
  proof (rule ccontr)
    assume "\<not> ilog2 m \<le> ilog2 n"
    then have "(2 :: nat) ^ (ilog2 n + 1) \<le> 2 ^ ilog2 m" by (intro power_increasing) auto
    with ilog2_bounds [OF m(1)] ilog2_bounds [OF m(3)] assms(1) show False by linarith
  qed
  show ?thesis
  proof (cases "ilog2 m = ilog2 n")
    case True
    then show ?thesis using assms(1) False by (simp add: nat_pattern_def)
  next
    case neq: False
    then have l: "Suc (ilog2 m) \<le> ilog2 n" using le by simp
    have "nat_pattern m < (ilog2 m + 128) * 2 ^ 23" using sm(3) False by (simp add: nat_pattern_def algebra_simps)
    also have "\<dots> \<le> (ilog2 n + 127) * 2 ^ 23" using l by simp
    also have "\<dots> \<le> nat_pattern n" using sn(2) m(3) by (simp add: nat_pattern_def algebra_simps)
    finally show ?thesis .
  qed
qed

lemma f32_key_mono:
  assumes "i < j" and "\<bar>i\<bar> < 2 ^ 24" and "\<bar>j\<bar> < 2 ^ 24"
  shows "f32_key (f32_of_int i) < f32_key (f32_of_int j)"
proof -
  have k: "f32_key (f32_of_int x) = (if x < 0 then - int (nat_pattern (nat \<bar>x\<bar>)) else int (nat_pattern (nat \<bar>x\<bar>)))"
    if "\<bar>x\<bar> < 2 ^ 24" for x
    unfolding f32_key_def f32_of_int_fields [OF that] ..
  have p0: "0 < nat_pattern n" if "0 < n" "n < 2 ^ 24" for n
    using nat_pattern_mono [OF that] by (simp add: nat_pattern_def)
  consider "0 \<le> i" | "i < 0" "0 \<le> j" | "j < 0" by linarith
  then show ?thesis
  proof cases
    case 1
    then show ?thesis using assms nat_pattern_mono [of "nat \<bar>i\<bar>" "nat \<bar>j\<bar>"] by (simp add: k)
  next
    case 2
    then show ?thesis using assms p0 [of "nat \<bar>i\<bar>"] by (simp add: k) linarith
  next
    case 3
    then show ?thesis using assms nat_pattern_mono [of "nat \<bar>j\<bar>" "nat \<bar>i\<bar>"] by (simp add: k)
  qed
qed

lemma f32_less_int: "\<bar>i\<bar> < 2 ^ 24 \<Longrightarrow> \<bar>j\<bar> < 2 ^ 24 \<Longrightarrow> f32_less (f32_of_int i) (f32_of_int j) \<longleftrightarrow> i < j"
  using f32_key_mono [of i j] f32_key_mono [of j i]
  by (cases i j rule: linorder_cases) (auto simp: f32_less_def f32_of_int_fields)

lemma f32_le_trans: "f32_le a b \<Longrightarrow> f32_le b c \<Longrightarrow> f32_le a c"
  by (auto simp: f32_le_def)

lemma f32_le_int_excl:
  assumes "f32_le (f32_of_int j) t" and "i < j" and "\<bar>i\<bar> < 2 ^ 24" and "\<bar>j\<bar> < 2 ^ 24"
  shows "\<not> f32_le t (f32_of_int i)"
  using assms f32_key_mono [OF assms(2-4)] by (auto simp: f32_le_def)

end
