(* ===== verification/Firmware.thy ===== *)
theory Firmware
  imports Eeprom Nvram Float32
begin

section \<open>The shared state of the firmware (\<open>strukture.c\<close>, \<open>define.h\<close>)\<close>

text \<open>
  The global structures of \<open>strukture.c\<close> as records, the EEPROM map of \<open>define.h\<close>, and
  the state \<open>sys\<close> of the pages and handlers. A \<open>float\<close> is its IEEE 754 bit pattern
  (\<open>u32\<close>, theory \<open>Float32\<close>). Fields that the C
  structures repeat five times under numbered names (\<open>gsm1\<close> to \<open>gsm5\<close>,
  \<open>enable1\<close> to \<open>enable5\<close>) are lists of five.

  The local and global character arrays keep their C size; storing past the end is \<open>None\<close>.
  \<open>XMLBuf\<close> is kept as the string it holds. \<open>ee\<close> is the EEPROM image of theory
  \<open>Eeprom\<close>, \<open>nv\<close> the battery backed SRAM, \<open>files\<close> what the file system lists.
\<close>

subsection \<open>Structures\<close>

record sensor =
  CODE :: bytes
  LOWLIMIT :: byte
  HIGHLIMIT :: byte
  HIS :: byte
  ENBLE :: byte
  STATE :: byte
  KANAL :: byte
  STATUS :: byte
  error_counter :: byte
  DELAY :: u16
  kalibracija :: u32

record strsms =
  sender :: bytes
  uname :: bytes
  sms_password :: bytes
  gsm :: "bytes list"
  gsm_enable :: "byte list"

record whatsapp =
  Msg :: bytes
  wenable :: "byte list"

record digitalinput =
  d_enable :: byte
  d_type :: byte
  d_state :: byte
  d_alarm :: byte
  d_DELAY :: u16

record sntpstruct =
  sntpon :: byte
  dston :: byte

record filetime =
  f_year :: u16
  f_month :: byte
  f_date :: byte
  f_hour :: byte
  f_min :: byte
  f_sec :: byte

record rtc =
  RTC_Hours :: byte
  RTC_Minutes :: byte
  RTC_Seconds :: byte
  RTC_Year :: byte
  RTC_Month :: byte
  RTC_Date :: byte
  RTC_WeekDay :: byte

text \<open>\<open>setDate\<close> and \<open>setTime\<close> of \<open>drajveri.c\<close>.\<close>

definition setDate :: "byte \<Rightarrow> byte \<Rightarrow> byte \<Rightarrow> byte \<Rightarrow> rtc \<Rightarrow> rtc" where
  "setDate y m d wd r = r\<lparr>RTC_Year := y, RTC_Month := m, RTC_Date := d, RTC_WeekDay := wd\<rparr>"

definition setTime :: "byte \<Rightarrow> byte \<Rightarrow> byte \<Rightarrow> rtc \<Rightarrow> rtc" where
  "setTime h m s r = r\<lparr>RTC_Hours := h, RTC_Minutes := m, RTC_Seconds := s\<rparr>"

text \<open>A directory entry: regular file or not, its name, its size and its time attribute.\<close>

record dirent =
  is_reg :: bool
  fname :: bytes
  fsize :: nat
  ftime :: filetime

record sys =
  ee :: bytes
  nv :: bytes
  rtc :: rtc
  files :: "dirent list"
  used_blocks :: nat
  block_count :: nat
  pins :: "bool list"
  mac_addr :: bytes
  senzor :: "sensor list"
  temp :: "u32 list"
  state :: "byte list"
  dinput :: "digitalinput list"
  sms :: strsms
  wapp :: whatsapp
  wAppflag :: byte
  sntp :: sntpstruct
  scansetup :: u16
  backup_scan_flag :: bool
  sntp_scan_flag :: bool
  wcl_active :: bool
  wcl_credit_active :: bool
  infobip_poruka :: bytes
  infobip_status :: bytes
  infobip_credit :: bytes
  sat :: byte
  minuta :: byte
  sekunda :: byte
  dan :: byte
  mjesec :: byte
  godina :: byte
  datum :: byte
  user_name :: bytes
  pass_word :: bytes
  tb :: bytes
  pb :: bytes
  iBuf :: nat
  rBuf :: bytes
  tbuf :: bytes
  tmpBuf :: bytes
  lstr :: bytes
  twi_buf :: bytes
  XMLBuf :: bytes

definition XMLBUF_SIZE :: nat where "XMLBUF_SIZE = 5 * (10 * 536)"

text \<open>The C sizes of the arrays; every operation keeps them.\<close>

definition sys_ok :: "sys \<Rightarrow> bool" where
  "sys_ok s \<longleftrightarrow> length (ee s) = EE_SIZE \<and> length (nv s) = NV_SIZE \<and> length (senzor s) = 8
     \<and> (\<forall>x \<in> set (senzor s). length (CODE x) = 8)
     \<and> length (temp s) = 8 \<and> length (state s) = 8 \<and> length (dinput s) = 3 \<and> length (pins s) = 3
     \<and> length (mac_addr s) = 6
     \<and> length (infobip_poruka s) = 160 \<and> length (infobip_status s) = 32 \<and> length (infobip_credit s) = 16
     \<and> length (user_name s) = 25 \<and> length (pass_word s) = 25
     \<and> length (tb s) = 130 \<and> length (pb s) = 40 \<and> length (rBuf s) = 1024 \<and> length (tbuf s) = 80
     \<and> length (tmpBuf s) = 80 \<and> length (lstr s) = 50 \<and> length (twi_buf s) = 256
     \<and> length (gsm (sms s)) = 5 \<and> length (gsm_enable (sms s)) = 5
     \<and> length (Msg (wapp s)) = 128 \<and> length (wenable (wapp s)) = 5
     \<and> length (XMLBuf s) < XMLBUF_SIZE"

subsection \<open>The EEPROM map\<close>

abbreviation (input) EE_INIT :: nat where "EE_INIT \<equiv> 0x0"
abbreviation (input) EE_IP :: nat where "EE_IP \<equiv> 0x4"
abbreviation (input) EE_SUBNET :: nat where "EE_SUBNET \<equiv> 0x8"
abbreviation (input) EE_GATEWAY :: nat where "EE_GATEWAY \<equiv> 0xC"
abbreviation (input) EE_DNS :: nat where "EE_DNS \<equiv> 0x10"
abbreviation (input) EE_HTTP_PORT :: nat where "EE_HTTP_PORT \<equiv> 0x14"
abbreviation (input) EE_DHCP_STATE :: nat where "EE_DHCP_STATE \<equiv> 0x16"
abbreviation (input) EE_DDNS_STATE :: nat where "EE_DDNS_STATE \<equiv> 0x17"
abbreviation (input) EE_ALARM_IP :: nat where "EE_ALARM_IP \<equiv> 0x18"
abbreviation (input) EE_ALARM_PORT :: nat where "EE_ALARM_PORT \<equiv> 0x1C"
abbreviation (input) EE_USERNAME :: nat where "EE_USERNAME \<equiv> 0x20"
abbreviation (input) EE_PASS :: nat where "EE_PASS \<equiv> 0x30"
abbreviation (input) EE_DDNS_HOST :: nat where "EE_DDNS_HOST \<equiv> 0x40"
abbreviation (input) EE_OBJECT_NAME :: nat where "EE_OBJECT_NAME \<equiv> 0x60"
abbreviation (input) EE_STATUS_TIME :: nat where "EE_STATUS_TIME \<equiv> 0x87"
abbreviation (input) EE_SCAN_TIME :: nat where "EE_SCAN_TIME \<equiv> 0x89"
abbreviation (input) EE_STATUS_SEND :: nat where "EE_STATUS_SEND \<equiv> 0x91"
abbreviation (input) EE_BACKUP_IP :: nat where "EE_BACKUP_IP \<equiv> 0x92"
abbreviation (input) EE_BACKUP_PORT :: nat where "EE_BACKUP_PORT \<equiv> 0x96"
abbreviation (input) EE_BACKUP_TIME :: nat where "EE_BACKUP_TIME \<equiv> 0x98"
abbreviation (input) EE_BACKUP_STAT :: nat where "EE_BACKUP_STAT \<equiv> 0x9A"
abbreviation (input) EE_SENSOR_CODE :: nat where "EE_SENSOR_CODE \<equiv> 0x0"
abbreviation (input) EE_LOW_ALARM :: nat where "EE_LOW_ALARM \<equiv> 0x8"
abbreviation (input) EE_HIGH_ALARM :: nat where "EE_HIGH_ALARM \<equiv> 0x9"
abbreviation (input) EE_HIST :: nat where "EE_HIST \<equiv> 0xB"
abbreviation (input) EE_SENSOR_ACTIVE :: nat where "EE_SENSOR_ACTIVE \<equiv> 0xC"
abbreviation (input) EE_CHANNEL :: nat where "EE_CHANNEL \<equiv> 0xD"
abbreviation (input) EE_WAPP1_ON :: nat where "EE_WAPP1_ON \<equiv> 0x10"
abbreviation (input) EE_WAPP2_ON :: nat where "EE_WAPP2_ON \<equiv> 0x11"
abbreviation (input) EE_WAPP3_ON :: nat where "EE_WAPP3_ON \<equiv> 0x12"
abbreviation (input) EE_WAPP4_ON :: nat where "EE_WAPP4_ON \<equiv> 0x13"
abbreviation (input) EE_WAPP5_ON :: nat where "EE_WAPP5_ON \<equiv> 0x14"
abbreviation (input) EE_SMS1 :: nat where "EE_SMS1 \<equiv> 0x20"
abbreviation (input) EE_SMS2 :: nat where "EE_SMS2 \<equiv> 0x21"
abbreviation (input) EE_SMS3 :: nat where "EE_SMS3 \<equiv> 0x22"
abbreviation (input) EE_SMS4 :: nat where "EE_SMS4 \<equiv> 0x23"
abbreviation (input) EE_SMS5 :: nat where "EE_SMS5 \<equiv> 0x24"
abbreviation (input) EE_MEASURE_TYPE :: nat where "EE_MEASURE_TYPE \<equiv> 0x25"
abbreviation (input) EE_DELAY :: nat where "EE_DELAY \<equiv> 0x26"
abbreviation (input) EE_CALIB :: nat where "EE_CALIB \<equiv> 0x30"
abbreviation (input) EE_SENSOR_NAME :: nat where "EE_SENSOR_NAME \<equiv> 0x40"
abbreviation (input) EE_SNTP_START :: nat where "EE_SNTP_START \<equiv> 0xE00"
abbreviation (input) EE_DST_STATE :: nat where "EE_DST_STATE \<equiv> 0xE00"
abbreviation (input) EE_TIME_ZONE :: nat where "EE_TIME_ZONE \<equiv> 0xE01"
abbreviation (input) EE_SNTP_STATE :: nat where "EE_SNTP_STATE \<equiv> 0xE02"
abbreviation (input) EE_DST_ACTIVETIME :: nat where "EE_DST_ACTIVETIME \<equiv> 0xE03"
abbreviation (input) EE_SNTP1 :: nat where "EE_SNTP1 \<equiv> 0xE20"
abbreviation (input) EE_SNTP2 :: nat where "EE_SNTP2 \<equiv> 0xE40"
abbreviation (input) EE_GSM_START :: nat where "EE_GSM_START \<equiv> 0xC00"
abbreviation (input) EE_GSM_IP :: nat where "EE_GSM_IP \<equiv> 0xC00"
abbreviation (input) EE_GSM_PORT :: nat where "EE_GSM_PORT \<equiv> 0xC04"
abbreviation (input) EE_GSM_UNAME :: nat where "EE_GSM_UNAME \<equiv> 0xC40"
abbreviation (input) EE_GSM_PASS :: nat where "EE_GSM_PASS \<equiv> 0xC50"
abbreviation (input) EE_GSM1_NUM :: nat where "EE_GSM1_NUM \<equiv> 0xC60"
abbreviation (input) EE_GSM2_NUM :: nat where "EE_GSM2_NUM \<equiv> 0xC80"
abbreviation (input) EE_GSM3_NUM :: nat where "EE_GSM3_NUM \<equiv> 0xCA0"
abbreviation (input) EE_GSM4_NUM :: nat where "EE_GSM4_NUM \<equiv> 0xCC0"
abbreviation (input) EE_GSM5_NUM :: nat where "EE_GSM5_NUM \<equiv> 0xCE0"
abbreviation (input) EE_GSM1_NAME :: nat where "EE_GSM1_NAME \<equiv> 0xD00"
abbreviation (input) EE_GSM2_NAME :: nat where "EE_GSM2_NAME \<equiv> 0xD20"
abbreviation (input) EE_GSM3_NAME :: nat where "EE_GSM3_NAME \<equiv> 0xD40"
abbreviation (input) EE_GSM4_NAME :: nat where "EE_GSM4_NAME \<equiv> 0xD60"
abbreviation (input) EE_GSM5_NAME :: nat where "EE_GSM5_NAME \<equiv> 0xD80"
abbreviation (input) EE_WAPP_START :: nat where "EE_WAPP_START \<equiv> 0x1100"
abbreviation (input) EE_WAPP1_NUM :: nat where "EE_WAPP1_NUM \<equiv> 0x1100"
abbreviation (input) EE_WAPP1_KEY :: nat where "EE_WAPP1_KEY \<equiv> 0x1120"
abbreviation (input) EE_WAPP1_NAME :: nat where "EE_WAPP1_NAME \<equiv> 0x1140"
abbreviation (input) EE_WAPP2_NUM :: nat where "EE_WAPP2_NUM \<equiv> 0x1180"
abbreviation (input) EE_WAPP2_KEY :: nat where "EE_WAPP2_KEY \<equiv> 0x11A0"
abbreviation (input) EE_WAPP2_NAME :: nat where "EE_WAPP2_NAME \<equiv> 0x11C0"
abbreviation (input) EE_WAPP3_NUM :: nat where "EE_WAPP3_NUM \<equiv> 0x1200"
abbreviation (input) EE_WAPP3_KEY :: nat where "EE_WAPP3_KEY \<equiv> 0x1220"
abbreviation (input) EE_WAPP3_NAME :: nat where "EE_WAPP3_NAME \<equiv> 0x1240"
abbreviation (input) EE_WAPP4_NUM :: nat where "EE_WAPP4_NUM \<equiv> 0x1280"
abbreviation (input) EE_WAPP4_KEY :: nat where "EE_WAPP4_KEY \<equiv> 0x12A0"
abbreviation (input) EE_WAPP4_NAME :: nat where "EE_WAPP4_NAME \<equiv> 0x12C0"
abbreviation (input) EE_WAPP5_NUM :: nat where "EE_WAPP5_NUM \<equiv> 0x1300"
abbreviation (input) EE_WAPP5_KEY :: nat where "EE_WAPP5_KEY \<equiv> 0x1320"
abbreviation (input) EE_WAPP5_NAME :: nat where "EE_WAPP5_NAME \<equiv> 0x1340"
abbreviation (input) EE_INPUT_START :: nat where "EE_INPUT_START \<equiv> 0x1000"
abbreviation (input) EE_INPUT_NAME1 :: nat where "EE_INPUT_NAME1 \<equiv> 0x1000"
abbreviation (input) EE_INPUT_NAME2 :: nat where "EE_INPUT_NAME2 \<equiv> 0x1020"
abbreviation (input) EE_INPUT_NAME3 :: nat where "EE_INPUT_NAME3 \<equiv> 0x1040"
abbreviation (input) EE_INPUT_ALARM1 :: nat where "EE_INPUT_ALARM1 \<equiv> 0x1060"
abbreviation (input) EE_INPUT_ALARM2 :: nat where "EE_INPUT_ALARM2 \<equiv> 0x1061"
abbreviation (input) EE_INPUT_ALARM3 :: nat where "EE_INPUT_ALARM3 \<equiv> 0x1062"
abbreviation (input) EE_INPUT_TIP1 :: nat where "EE_INPUT_TIP1 \<equiv> 0x1063"
abbreviation (input) EE_INPUT_TIP2 :: nat where "EE_INPUT_TIP2 \<equiv> 0x1064"
abbreviation (input) EE_INPUT_TIP3 :: nat where "EE_INPUT_TIP3 \<equiv> 0x1065"
abbreviation (input) EE_INPUT_WAPP1 :: nat where "EE_INPUT_WAPP1 \<equiv> 0x1066"
abbreviation (input) EE_INPUT_WAPP2 :: nat where "EE_INPUT_WAPP2 \<equiv> 0x1067"
abbreviation (input) EE_INPUT_WAPP3 :: nat where "EE_INPUT_WAPP3 \<equiv> 0x1068"
abbreviation (input) EE_INPUT_WAPP4 :: nat where "EE_INPUT_WAPP4 \<equiv> 0x1069"
abbreviation (input) EE_INPUT_WAPP5 :: nat where "EE_INPUT_WAPP5 \<equiv> 0x106A"
abbreviation (input) EE_INPUT_SMS1 :: nat where "EE_INPUT_SMS1 \<equiv> 0x106B"
abbreviation (input) EE_INPUT_SMS2 :: nat where "EE_INPUT_SMS2 \<equiv> 0x106C"
abbreviation (input) EE_INPUT_SMS3 :: nat where "EE_INPUT_SMS3 \<equiv> 0x106D"
abbreviation (input) EE_INPUT_SMS4 :: nat where "EE_INPUT_SMS4 \<equiv> 0x106E"
abbreviation (input) EE_INPUT_SMS5 :: nat where "EE_INPUT_SMS5 \<equiv> 0x106F"
abbreviation (input) EE_INPUT_DELAY1 :: nat where "EE_INPUT_DELAY1 \<equiv> 0x1070"
abbreviation (input) EE_INPUT_DELAY2 :: nat where "EE_INPUT_DELAY2 \<equiv> 0x1072"
abbreviation (input) EE_INPUT_DELAY3 :: nat where "EE_INPUT_DELAY3 \<equiv> 0x1074"
abbreviation (input) EE_MQTT_START :: nat where "EE_MQTT_START \<equiv> 0x1400"
abbreviation (input) EE_MQTT_SERVER :: nat where "EE_MQTT_SERVER \<equiv> 0x1400"
abbreviation (input) EE_MQTT_UNAME :: nat where "EE_MQTT_UNAME \<equiv> 0x1480"
abbreviation (input) EE_MQTT_PASS :: nat where "EE_MQTT_PASS \<equiv> 0x14A0"
abbreviation (input) EE_MQTT_TOPIC :: nat where "EE_MQTT_TOPIC \<equiv> 0x14C0"
abbreviation (input) EE_MQTT_ENABLE :: nat where "EE_MQTT_ENABLE \<equiv> 0x1500"
abbreviation (input) EE_MQTT_PORT :: nat where "EE_MQTT_PORT \<equiv> 0x1501"
abbreviation (input) EE_MQTT_QOS :: nat where "EE_MQTT_QOS \<equiv> 0x1503"
abbreviation (input) EE_MQTT_KEEPALIVE :: nat where "EE_MQTT_KEEPALIVE \<equiv> 0x1504"
abbreviation (input) EE_MQTT_PERIOD :: nat where "EE_MQTT_PERIOD \<equiv> 0x1505"
abbreviation (input) NV_LOGGER_INIT :: nat where "NV_LOGGER_INIT \<equiv> 0x4"
abbreviation (input) NV_SUM_SEN1 :: nat where "NV_SUM_SEN1 \<equiv> 0x8"
abbreviation (input) NV_COUNT_SEN1 :: nat where "NV_COUNT_SEN1 \<equiv> 0xC"
abbreviation (input) NV_SUM_SEN2 :: nat where "NV_SUM_SEN2 \<equiv> 0x10"
abbreviation (input) NV_COUNT_SEN2 :: nat where "NV_COUNT_SEN2 \<equiv> 0x14"
abbreviation (input) NV_SUM_SEN3 :: nat where "NV_SUM_SEN3 \<equiv> 0x18"
abbreviation (input) NV_COUNT_SEN3 :: nat where "NV_COUNT_SEN3 \<equiv> 0x1C"
abbreviation (input) NV_SUM_SEN4 :: nat where "NV_SUM_SEN4 \<equiv> 0x20"
abbreviation (input) NV_COUNT_SEN4 :: nat where "NV_COUNT_SEN4 \<equiv> 0x24"
abbreviation (input) NV_SUM_SEN5 :: nat where "NV_SUM_SEN5 \<equiv> 0x28"
abbreviation (input) NV_COUNT_SEN5 :: nat where "NV_COUNT_SEN5 \<equiv> 0x2C"
abbreviation (input) NV_SUM_SEN6 :: nat where "NV_SUM_SEN6 \<equiv> 0x30"
abbreviation (input) NV_COUNT_SEN6 :: nat where "NV_COUNT_SEN6 \<equiv> 0x34"
abbreviation (input) NV_SUM_SEN7 :: nat where "NV_SUM_SEN7 \<equiv> 0x38"
abbreviation (input) NV_COUNT_SEN7 :: nat where "NV_COUNT_SEN7 \<equiv> 0x3C"
abbreviation (input) NV_SUM_SEN8 :: nat where "NV_SUM_SEN8 \<equiv> 0x40"
abbreviation (input) NV_COUNT_SEN8 :: nat where "NV_COUNT_SEN8 \<equiv> 0x44"
abbreviation (input) NV_MKT_INIT :: nat where "NV_MKT_INIT \<equiv> 0x48"
abbreviation (input) NV_MKT_COUNT_SEN1 :: nat where "NV_MKT_COUNT_SEN1 \<equiv> 0x4C"
abbreviation (input) NV_MKT_COUNT_SEN2 :: nat where "NV_MKT_COUNT_SEN2 \<equiv> 0x50"
abbreviation (input) NV_MKT_COUNT_SEN3 :: nat where "NV_MKT_COUNT_SEN3 \<equiv> 0x54"
abbreviation (input) NV_MKT_COUNT_SEN4 :: nat where "NV_MKT_COUNT_SEN4 \<equiv> 0x58"
abbreviation (input) NV_MKT_COUNT_SEN5 :: nat where "NV_MKT_COUNT_SEN5 \<equiv> 0x5C"
abbreviation (input) NV_MKT_COUNT_SEN6 :: nat where "NV_MKT_COUNT_SEN6 \<equiv> 0x60"
abbreviation (input) NV_MKT_COUNT_SEN7 :: nat where "NV_MKT_COUNT_SEN7 \<equiv> 0x64"
abbreviation (input) NV_MKT_COUNT_SEN8 :: nat where "NV_MKT_COUNT_SEN8 \<equiv> 0x68"
abbreviation (input) NV_MKT_SEN1 :: nat where "NV_MKT_SEN1 \<equiv> 0x70"
abbreviation (input) NV_MKT_SEN2 :: nat where "NV_MKT_SEN2 \<equiv> 0xC0"
abbreviation (input) NV_MKT_SEN3 :: nat where "NV_MKT_SEN3 \<equiv> 0x110"
abbreviation (input) NV_MKT_SEN4 :: nat where "NV_MKT_SEN4 \<equiv> 0x1B0"
abbreviation (input) NV_MKT_SEN5 :: nat where "NV_MKT_SEN5 \<equiv> 0x200"
abbreviation (input) NV_MKT_SEN6 :: nat where "NV_MKT_SEN6 \<equiv> 0x250"
abbreviation (input) NV_MKT_SEN7 :: nat where "NV_MKT_SEN7 \<equiv> 0x2A0"
abbreviation (input) NV_MKT_SEN8 :: nat where "NV_MKT_SEN8 \<equiv> 0x340"
abbreviation (input) NV_DELAY_SEN1 :: nat where "NV_DELAY_SEN1 \<equiv> 0x400"
abbreviation (input) NV_DELAY_SEN2 :: nat where "NV_DELAY_SEN2 \<equiv> 0x404"
abbreviation (input) NV_DELAY_SEN3 :: nat where "NV_DELAY_SEN3 \<equiv> 0x408"
abbreviation (input) NV_DELAY_SEN4 :: nat where "NV_DELAY_SEN4 \<equiv> 0x40C"
abbreviation (input) NV_DELAY_SEN5 :: nat where "NV_DELAY_SEN5 \<equiv> 0x410"
abbreviation (input) NV_DELAY_SEN6 :: nat where "NV_DELAY_SEN6 \<equiv> 0x414"
abbreviation (input) NV_DELAY_SEN7 :: nat where "NV_DELAY_SEN7 \<equiv> 0x418"
abbreviation (input) NV_DELAY_SEN8 :: nat where "NV_DELAY_SEN8 \<equiv> 0x41C"
abbreviation (input) NV_DELAY_IN1 :: nat where "NV_DELAY_IN1 \<equiv> 0x420"
abbreviation (input) NV_DELAY_IN2 :: nat where "NV_DELAY_IN2 \<equiv> 0x424"
abbreviation (input) NV_DELAY_IN3 :: nat where "NV_DELAY_IN3 \<equiv> 0x428"

abbreviation (input) ALARM_HI :: byte where "ALARM_HI \<equiv> 1"
abbreviation (input) ALARM_LOW :: byte where "ALARM_LOW \<equiv> 2"
abbreviation (input) LFS_BLOCK_SIZE :: nat where "LFS_BLOCK_SIZE \<equiv> 4096"

subsection \<open>Steps the components share\<close>

text \<open>The arrays a conversion stores its result in, and storing there.\<close>

datatype dst = Pb | Tb | RBuf

definition store :: "dst \<Rightarrow> nat \<Rightarrow> bytes \<Rightarrow> sys \<Rightarrow> sys option" where
  "store d i bs s =
     (case d of
        Pb \<Rightarrow> do { b \<leftarrow> poke i bs (pb s); Some (s\<lparr>pb := b\<rparr>) }
      | Tb \<Rightarrow> do { b \<leftarrow> poke i bs (tb s); Some (s\<lparr>tb := b\<rparr>) }
      | RBuf \<Rightarrow> do { b \<leftarrow> poke i bs (rBuf s); Some (s\<lparr>rBuf := b\<rparr>) })"

definition EE_write :: "nat \<Rightarrow> bytes \<Rightarrow> sys \<Rightarrow> sys" where
  "EE_write a bs s = s\<lparr>ee := eeWr a bs (ee s)\<rparr>"

text \<open>\<open>EEwrite(addr, pb, strlen(pb) + 1)\<close> and the same with \<open>rBuf\<close>.\<close>

definition EE_write_pb :: "nat \<Rightarrow> sys \<Rightarrow> sys option" where
  "EE_write_pb a s = do { v \<leftarrow> c_str (pb s); Some (EE_write a (v @ [0]) s) }"

definition EE_write_rBuf :: "nat \<Rightarrow> sys \<Rightarrow> sys option" where
  "EE_write_rBuf a s = do { v \<leftarrow> c_str (rBuf s); Some (EE_write a (v @ [0]) s) }"

definition upd_sensor :: "nat \<Rightarrow> (sensor \<Rightarrow> sensor) \<Rightarrow> sys \<Rightarrow> sys" where
  "upd_sensor snum f s = s\<lparr>senzor := (senzor s)[snum := f (senzor s ! snum)]\<rparr>"

definition upd_input :: "nat \<Rightarrow> (digitalinput \<Rightarrow> digitalinput) \<Rightarrow> sys \<Rightarrow> sys" where
  "upd_input i f s = s\<lparr>dinput := (dinput s)[i := f (dinput s ! i)]\<rparr>"

end
