(* ===== verification/Sys_Text.thy ===== *)
theory Sys_Text
  imports Prelude
begin

section \<open>Text utilities and authentication (\<open>system.c\<close>)\<close>

text \<open>
  \<open>bufsearch\<close>, the hexadecimal and Base64 conversions, the two integer formatters and
  \<open>checkAuth\<close>. Source pointers are indices into an array; a read or a write outside the
  array is \<open>None\<close>. \<open>bufsearch\<close> is a loop that jumps backwards; its model takes fuel,
  and the lemmas below show that the fuel \<open>bufsearch\<close> gives it is enough.
\<close>

subsection \<open>\<open>bufsearch\<close>\<close>

text \<open>
  The loop's variables are kept as the source has them: \<open>i\<close> (\<open>UINT16\<close>), the index
  \<open>target\<close> of the pointer into the buffer, the index \<open>k\<close> of the key pointer,
  \<open>position\<close> (\<open>INT16\<close>) and \<open>matchesnow\<close>. The key array ends with its NUL.
\<close>

fun bufsearch_loop ::
    "nat \<Rightarrow> bytes \<Rightarrow> u16 \<Rightarrow> bytes \<Rightarrow> nat \<Rightarrow> u16 \<Rightarrow> int \<Rightarrow> nat \<Rightarrow> u16 \<Rightarrow> nat \<Rightarrow> u16 option" where
  "bufsearch_loop 0 buf len key needed i target k position now = None"
| "bufsearch_loop (Suc fuel) buf len key needed i target k position now =
     (if i < len then
        (if target < 0 \<or> int (length buf) \<le> target \<or> length key \<le> k then None
         else if buf ! nat target = key ! k then
           (let now = now + 1; k = k + 1; target = target + 1;
                position = (if now = 1 then i else position)
            in if needed = now then Some position
               else bufsearch_loop fuel buf len key needed (i + 1) target k position now)
         else if now \<noteq> 0 then
           bufsearch_loop fuel buf len key needed (position + 1) (sint position + 1) 0 position 0
         else
           bufsearch_loop fuel buf len key needed (i + 1) (target + 1) k position now)
      else Some (- 1))"

text \<open>\<open>str\<close> is the search string without its NUL; more than 30 characters are refused.\<close>

definition bufsearch :: "bytes \<Rightarrow> u16 \<Rightarrow> bytes \<Rightarrow> u16 option" where
  "bufsearch startadr len key =
     (if length key > 30 then Some (- 1)
      else bufsearch_loop (32 * (unat len + 2)) startadr len (key @ [0]) (length key) 0 0 0 (- 1) 0)"

text \<open>The specification: the first place below \<open>n\<close> where the key stands.\<close>

definition occurs_at :: "bytes \<Rightarrow> bytes \<Rightarrow> nat \<Rightarrow> bool" where
  "occurs_at key buf p \<longleftrightarrow> take (length key) (drop p buf) = key"

fun find_from :: "bytes \<Rightarrow> bytes \<Rightarrow> nat \<Rightarrow> nat option" where
  "find_from key [] p = (if key = [] then Some p else None)"
| "find_from key (b # bs) p =
     (if take (length key) (b # bs) = key then Some p else find_from key bs (Suc p))"

subsection \<open>Hexadecimal digits\<close>

definition hex_nibble :: "byte \<Rightarrow> byte" where
  "hex_nibble n = (if n < 10 then n + 48 else n + 55)"

definition hextoascii :: "byte \<Rightarrow> u16" where
  "hextoascii c =
     (let as1 = hex_nibble (drop_bit 4 c AND 0x0F); as2 = hex_nibble (c AND 0x0F)
      in push_bit 8 (ucast as1) + ucast as2)"

definition asciitohex :: "byte \<Rightarrow> byte" where
  "asciitohex ch =
     (if ch < 58 \<and> 47 < ch then ch - 48
      else if ch < 71 \<and> 64 < ch then ch - 55
      else 0)"

text \<open>\<open>https_read_encoded2\<close> reads two hexadecimal digits (either case) at a pointer.\<close>

definition enc_digit :: "byte \<Rightarrow> byte" where
  "enc_digit t =
     (if asc CHR ''0'' \<le> t \<and> t \<le> asc CHR ''9'' then t - asc CHR ''0''
      else if asc CHR ''a'' \<le> t \<and> t \<le> asc CHR ''f'' then t - asc CHR ''a'' + 10
      else t - asc CHR ''A'' + 10)"

definition https_read_encoded2 :: "bytes \<Rightarrow> nat \<Rightarrow> byte option" where
  "https_read_encoded2 ibuf p = do {
     t1 \<leftarrow> peek ibuf p;
     t2 \<leftarrow> peek ibuf (p + 1);
     Some (push_bit 4 (enc_digit t1) OR enc_digit t2) }"

subsection \<open>Base64\<close>

definition b64_value :: "byte \<Rightarrow> byte option" where
  "b64_value i =
     (if asc CHR ''A'' \<le> i \<and> i \<le> asc CHR ''Z'' then Some (i - asc CHR ''A'')
      else if asc CHR ''a'' \<le> i \<and> i \<le> asc CHR ''z'' then Some (i - (asc CHR ''a'' - 26))
      else if asc CHR ''0'' \<le> i \<and> i \<le> asc CHR ''9'' then Some (i - (asc CHR ''0'' - 52))
      else if i = asc CHR ''+'' \<or> i = asc CHR ''-'' then Some 62
      else if i = asc CHR ''/'' \<or> i = asc CHR ''_'' then Some 63
      else None)"

definition b64_char :: "byte \<Rightarrow> byte" where
  "b64_char j =
     (if j \<le> 25 then j + asc CHR ''A''
      else if j \<le> 51 then j + (asc CHR ''a'' - 26)
      else if j \<le> 61 then j + (asc CHR ''0'' - 52)
      else if j = 62 then asc CHR ''+''
      else if j = 63 then asc CHR ''/''
      else asc CHR ''='')"

text \<open>
  The decoder's loop: what is left of the source, \<open>vByteNumber\<close>, \<open>wBytesOutput\<close>, the
  destination array and the index of \<open>cDestData\<close> in it. \<open>dest_or\<close> is
  \<open>*cDestData |= v\<close>, \<open>dest_set\<close> is \<open>*cDestData = v\<close>.
\<close>

definition dest_set :: "bytes \<Rightarrow> nat \<Rightarrow> byte \<Rightarrow> bytes option" where
  "dest_set dest d v = (if d < length dest then Some (dest[d := v]) else None)"

definition dest_or :: "bytes \<Rightarrow> nat \<Rightarrow> byte \<Rightarrow> bytes option" where
  "dest_or dest d v = (if d < length dest then Some (dest[d := dest ! d OR v]) else None)"

fun Base64Decode_loop :: "bytes \<Rightarrow> nat \<Rightarrow> nat \<Rightarrow> nat \<Rightarrow> bytes \<Rightarrow> nat \<Rightarrow> (nat \<times> bytes) option" where
  "Base64Decode_loop [] wDestLen n out dest d = Some (out, dest)"
| "Base64Decode_loop (c # src) wDestLen n out dest d =
     (let bPad = (c = asc CHR ''='') in
      case b64_value c of
        None \<Rightarrow> Base64Decode_loop src wDestLen n out dest d
      | Some i \<Rightarrow>
          if n = 0 then
            (if bPad then Base64Decode_loop src wDestLen n out dest d
             else if out \<ge> wDestLen then Some (out, dest)
             else do {
               dest \<leftarrow> dest_set dest d (push_bit 2 i);
               Base64Decode_loop src wDestLen 1 (out + 1) dest d })
          else if n = 1 then do {
            dest \<leftarrow> dest_or dest d (drop_bit 4 i);
            (if out \<ge> wDestLen then Some (out, dest)
             else if bPad then Base64Decode_loop src wDestLen 2 out dest (d + 1)
             else do {
               dest \<leftarrow> dest_set dest (d + 1) (push_bit 4 i);
               Base64Decode_loop src wDestLen 2 (out + 1) dest (d + 1) }) }
          else if n = 2 then do {
            dest \<leftarrow> dest_or dest d (drop_bit 2 i);
            (if out \<ge> wDestLen then Some (out, dest)
             else if bPad then Base64Decode_loop src wDestLen 3 out dest (d + 1)
             else do {
               dest \<leftarrow> dest_set dest (d + 1) (push_bit 6 i);
               Base64Decode_loop src wDestLen 3 (out + 1) dest (d + 1) }) }
          else do {
            dest \<leftarrow> dest_or dest d i;
            Base64Decode_loop src wDestLen 0 out dest (d + 1) })"

definition Base64Decode :: "bytes \<Rightarrow> nat \<Rightarrow> bytes \<Rightarrow> nat \<Rightarrow> (nat \<times> bytes) option" where
  "Base64Decode cSourceData wSourceLen cDestData wDestLen =
     (if wSourceLen \<le> length cSourceData
      then Base64Decode_loop (take wSourceLen cSourceData) wDestLen 0 0 cDestData 0
      else None)"

text \<open>
  The encoder returns what it writes to \<open>cDestData\<close>, group by group while four more
  characters fit; the return value of the C function is the length of this list.
\<close>

definition b64_group :: "byte \<Rightarrow> byte option \<Rightarrow> byte option \<Rightarrow> bytes" where
  "b64_group a b c =
     (let v0 = drop_bit 2 (a AND 0xFC);
          v1 = push_bit 4 (a AND 0x03);
          v1' = (case b of None \<Rightarrow> v1 | Some i \<Rightarrow> v1 OR drop_bit 4 (i AND 0xF0));
          v2 = (case b of None \<Rightarrow> 0xFF | Some i \<Rightarrow> push_bit 2 (i AND 0x0F));
          v2' = (case c of None \<Rightarrow> v2 | Some i \<Rightarrow> v2 OR drop_bit 6 (i AND 0xC0));
          v3 = (case c of None \<Rightarrow> 0xFF | Some i \<Rightarrow> i AND 0x3F)
      in map b64_char [v0, v1', v2', v3])"

fun Base64Encode :: "bytes \<Rightarrow> nat \<Rightarrow> bytes" where
  "Base64Encode [] wDestLen = []"
| "Base64Encode [a] wDestLen =
     (if wDestLen \<ge> 4 then b64_group a None None @ Base64Encode [] (wDestLen - 4) else [])"
| "Base64Encode [a, b] wDestLen =
     (if wDestLen \<ge> 4 then b64_group a (Some b) None @ Base64Encode [] (wDestLen - 4) else [])"
| "Base64Encode (a # b # c # src) wDestLen =
     (if wDestLen \<ge> 4 then b64_group a (Some b) (Some c) @ Base64Encode src (wDestLen - 4) else [])"

subsection \<open>Integers as text\<close>

text \<open>
  \<open>itoay\<close> collects the digits in a seven byte scratch array, last digit first, and copies
  them in reverse; the result is the string at \<open>szBuffer\<close>.
\<close>

function itoay_digits :: "int \<Rightarrow> bytes \<Rightarrow> bytes option" where
  "itoay_digits n tmbuf =
     (if n > 0 then
        (if length tmbuf < 7 then itoay_digits (n div 10) (tmbuf @ [of_int (48 + n mod 10)]) else None)
      else Some tmbuf)"
  by pat_completeness auto
termination
  by (relation "measure (\<lambda>(n, _). nat n)") auto

definition itoay :: "int \<Rightarrow> bytes option" where
  "itoay x = (if x \<noteq> 0 then map_option rev (itoay_digits x []) else Some (str ''0''))"

text \<open>\<open>itoax\<close>: five characters by repeated subtraction of the powers of ten.\<close>

function itoax_sub :: "int \<Rightarrow> int \<Rightarrow> byte \<Rightarrow> int \<times> byte" where
  "itoax_sub pow10i num dig =
     (if 0 < pow10i \<and> num - pow10i > 0 then itoax_sub pow10i (num - pow10i) (dig + 1) else (num, dig))"
  by pat_completeness auto
termination
  by (relation "measure (\<lambda>(p, n, _). nat n)") auto

definition itoax :: "int \<Rightarrow> bytes" where
  "itoax num =
     (let (n1, d1) = itoax_sub 10000 num 0;
          (n2, d2) = itoax_sub 1000 n1 0;
          (n3, d3) = itoax_sub 100 n2 0;
          (n4, d4) = itoax_sub 10 n3 0
      in [d1 + 0x30, d2 + 0x30, d3 + 0x30, d4 + 0x30, of_int (n4 + 0x30)])"

declare itoay_digits.simps [simp del] itoax_sub.simps [simp del]

subsection \<open>\<open>checkAuth\<close>\<close>

text \<open>
  \<open>stk\<close> is what the 80 byte stack array \<open>tbuf\<close> holds before it is written; \<open>ubuf\<close> has
  40 bytes. \<open>cut\<close> is the C string in an array, as \<open>strcmp\<close> sees it.
\<close>

definition cut :: "bytes \<Rightarrow> bytes" where
  "cut s = takeWhile (\<lambda>b. b \<noteq> 0) s"

definition AUTHEN_LEN :: nat where "AUTHEN_LEN = 80"

text \<open>The first loop: \<open>Inl\<close> is \<open>return 0\<close>, \<open>Inr\<close> the characters before the colon.\<close>

function auth_user :: "bytes \<Rightarrow> bytes \<Rightarrow> (unit + bytes) option" where
  "auth_user tbuf ubuf =
     (case peek tbuf (length ubuf) of
        None \<Rightarrow> None
      | Some c \<Rightarrow>
          if c = asc CHR '':'' then Some (Inr ubuf)
          else if length ubuf \<ge> 40 then None
          else if length ubuf + 1 > AUTHEN_LEN then Some (Inl ())
          else auth_user tbuf (ubuf @ [c]))"
  by pat_completeness auto
termination
  by (relation "measure (\<lambda>(_, ubuf). 40 - length ubuf)") auto

declare auth_user.simps [simp del]

definition auth_check :: "nat \<Rightarrow> bytes \<Rightarrow> bytes \<Rightarrow> bytes \<Rightarrow> bool option" where
  "auth_check decodelen tbuf username password = do {
     r \<leftarrow> auth_user tbuf [];
     (case r of
        Inl _ \<Rightarrow> Some False
      | Inr ubuf \<Rightarrow>
          if length ubuf \<ge> 40 then None
          else if cut ubuf \<noteq> username then Some False
          else (let pw = drop (length ubuf + 1) (take decodelen tbuf)
                in if length pw \<ge> 40 then None else Some (cut pw = password))) }"

definition checkAuth :: "bytes \<Rightarrow> bytes \<Rightarrow> bytes \<Rightarrow> bytes \<Rightarrow> bool option" where
  "checkAuth pbuf username password stk = do {
     p1 \<leftarrow> bufsearch pbuf 128 (str ''&'');
     let point1 = sint p1;
     if point1 = 0 then Some False
     else do {
       p2 \<leftarrow> bufsearch (drop (nat (point1 + 1)) pbuf) 128 (str ''&'');
       let point2 = sint p2 + point1 + 1;
       if point2 < 0 then Some False
       else if point1 < 0 then None
       else do {
         (decodelen, tbuf) \<leftarrow>
           Base64Decode (drop (nat point1) pbuf) (nat (point2 - point1)) stk AUTHEN_LEN;
         auth_check decodelen tbuf username password } } }"

subsection \<open>Hexadecimal round trip\<close>

lemma asciitohex_nibble: "n < 16 \<Longrightarrow> asciitohex (hex_nibble n) = n"
  by (rule nibble_all [where P = "\<lambda>n. asciitohex (hex_nibble n) = n"])
     (simp_all add: asciitohex_def hex_nibble_def)

lemma nibble_bounds: "(c AND 0x0F :: byte) < 16" "drop_bit 4 c AND 0x0F < (16 :: byte)"
  using word_and_le1 [of c "0x0F"] word_and_le1 [of "drop_bit 4 c" "0x0F"]
  by (auto simp: word_le_nat_alt word_less_nat_alt)

lemma nibbles_join: "push_bit 4 (drop_bit 4 c AND 0x0F) + (c AND 0x0F) = (c :: byte)"
proof -
  have "push_bit 4 (drop_bit 4 c AND 0x0F) AND (c AND 0x0F) = (0 :: byte)"
    by (rule byte_eqI) (auto simp: lt8 bit_simps)
  then have "push_bit 4 (drop_bit 4 c AND 0x0F) + (c AND 0x0F)
      = push_bit 4 (drop_bit 4 c AND 0x0F) OR (c AND 0x0F)"
    by (rule byte_plus_or)
  also have "\<dots> = c" by (rule byte_eqI) (auto simp: lt8 bit_simps)
  finally show ?thesis .
qed

lemma hextoascii_halves:
  "ucast (drop_bit 8 (hextoascii c)) = hex_nibble (drop_bit 4 c AND 0x0F)"
  "ucast (hextoascii c) = hex_nibble (c AND 0x0F)"
proof -
  have split: "push_bit 8 (ucast a) + ucast b = (push_bit 8 (ucast a) OR ucast b :: u16)" for a b :: byte
    by (rule disjunctive_add_eq_or, rule bit_word_eqI) (auto simp: bit_simps dest: bit_imp_le_length)
  show "ucast (drop_bit 8 (hextoascii c)) = hex_nibble (drop_bit 4 c AND 0x0F)"
    unfolding hextoascii_def Let_def split
    by (rule byte_eqI) (auto simp: bit_simps dest: bit_imp_le_length)
  show "ucast (hextoascii c) = hex_nibble (c AND 0x0F)"
    unfolding hextoascii_def Let_def split
    by (rule byte_eqI) (auto simp: bit_simps dest: bit_imp_le_length)
qed

lemma hex_roundtrip:
  "push_bit 4 (asciitohex (ucast (drop_bit 8 (hextoascii c)))) + asciitohex (ucast (hextoascii c)) = c"
  unfolding hextoascii_halves asciitohex_nibble [OF nibble_bounds(1)] asciitohex_nibble [OF nibble_bounds(2)]
  by (rule nibbles_join)

lemma https_read_encoded2_hex:
  assumes "p + 1 < length ibuf"
    and "ibuf ! p = ucast (drop_bit 8 (hextoascii c))" and "ibuf ! (p + 1) = ucast (hextoascii c)"
  shows "https_read_encoded2 ibuf p = Some c"
proof -
  have e: "n < 16 \<Longrightarrow> enc_digit (hex_nibble n) = n" for n
    by (rule nibble_all [where P = "\<lambda>n. enc_digit (hex_nibble n) = n"])
       (simp_all add: enc_digit_def hex_nibble_def asc_def)
  have "push_bit 4 (drop_bit 4 c AND 0x0F) OR (c AND 0x0F) = c"
    by (rule byte_eqI) (auto simp: lt8 bit_simps)
  with assms e nibble_bounds show ?thesis
    by (simp add: https_read_encoded2_def peek_def hextoascii_halves)
qed

subsection \<open>\<open>bufsearch\<close> finds the first occurrence\<close>

lemma find_from_short: "length bs < length key \<Longrightarrow> find_from key bs p = None"
proof (induction bs arbitrary: p)
  case Nil
  then show ?case by auto
next
  case (Cons b bs)
  then have "take (length key) (b # bs) = b # bs" by simp
  moreover have "b # bs \<noteq> key" using Cons.prems by auto
  ultimately have "take (length key) (b # bs) \<noteq> key" by simp
  with Cons show ?case by simp
qed

lemma find_from_step:
  assumes "p < length t"
  shows "find_from key (drop p t) p
       = (if occurs_at key t p then Some p else find_from key (drop (Suc p) t) (Suc p))"
  using assms by (simp add: Cons_nth_drop_Suc [symmetric] occurs_at_def)

definition found :: "nat option \<Rightarrow> u16" where
  "found r = (case r of None \<Rightarrow> - 1 | Some p \<Rightarrow> of_nat p)"

lemma nat_int_comm: "nat (int a + int b) = a + b"
  by simp

lemma bufsearch_loop_spec:
  assumes "0 < length key" and "L \<le> length buf" and "L < 2 ^ 15"
  shows "\<lbrakk>p + now \<le> L; now < length key; take now (drop p buf) = take now key;
          now = 0 \<or> position = of_nat p; (L - p) * (length key + 1) + 1 \<le> fuel + now\<rbrakk>
    \<Longrightarrow> bufsearch_loop fuel buf (of_nat L) (key @ [0]) (length key) (of_nat (p + now)) (int (p + now))
          now position now = Some (found (find_from key (drop p (take L buf)) p))"
proof (induction fuel arbitrary: p now position)
  case 0
  let ?m = "length key + 1"
  have "now < ?m" using 0 by simp
  then show ?case
  proof (cases "L - p")
    case 0
    with "0.prems" show ?thesis by simp
  next
    case (Suc d)
    with "0.prems" show ?thesis by simp
  qed
next
  case (Suc fuel)
  let ?T = "take L buf" and ?m = "length key"
  have lt: "(of_nat (p + now) :: u16) < of_nat L \<longleftrightarrow> p + now < L"
    using Suc.prems(1) assms(3) by (simp add: word_less_nat_alt unat_of_nat del: of_nat_add)
  show ?case
  proof (cases "p + now < L")
    case False
    with Suc.prems have "length (drop p ?T) < ?m" using assms by simp
    then have "find_from key (drop p ?T) p = None" by (rule find_from_short)
    with False lt show ?thesis by (simp add: found_def del: of_nat_add)
  next
    case True
    have inb: "p + now < length buf" using True assms(2) by simp
    have step: "find_from key (drop p ?T) p
        = (if occurs_at key ?T p then Some p else find_from key (drop (Suc p) ?T) (Suc p))"
      using True assms(2) by (intro find_from_step) simp
    have ext: "take (Suc now) (drop p buf) = take now (drop p buf) @ [buf ! (p + now)]"
      using inb by (simp add: take_Suc_conv_app_nth)
    have extk: "take (Suc now) key = take now key @ [key ! now]"
      using Suc.prems(2) by (simp add: take_Suc_conv_app_nth)
    show ?thesis
    proof (cases "buf ! (p + now) = key ! now")
      case eq: True
      have pos: "(if now + 1 = 1 then of_nat (p + now) else position) = (of_nat p :: u16)"
        using Suc.prems(4) by auto
      have tk: "take (Suc now) (drop p buf) = take (Suc now) key"
        using Suc.prems(3) eq ext extk by simp
      show ?thesis
      proof (cases "?m = now + 1")
        case fin: True
        have "Suc now \<le> L - p" using True by simp
        then have "occurs_at key ?T p"
          using tk fin True by (simp add: occurs_at_def drop_take take_take min_def)
        with step fin True lt eq inb pos Suc.prems(2) show ?thesis
          by (simp add: nth_append found_def Let_def del: of_nat_add)
      next
        case more: False
        have "bufsearch_loop fuel buf (of_nat L) (key @ [0]) ?m (of_nat (p + Suc now))
                (int (p + Suc now)) (Suc now) (of_nat p) (Suc now)
            = Some (found (find_from key (drop p ?T) p))"
          using Suc.prems True more tk by (intro Suc.IH) auto
        moreover have "nat (int p + int now) = p + now" by simp
        moreover have "now \<noteq> 0 \<Longrightarrow> position = of_nat p" using Suc.prems(4) by simp
        ultimately show ?thesis using more True lt eq inb Suc.prems(2)
          by (cases "now = 0") (simp_all add: nth_append Let_def add.commute add.left_commute)
      qed
    next
      case ne: False
      have no: "\<not> occurs_at key ?T p"
      proof
        assume "occurs_at key ?T p"
        then have "take (Suc now) (take ?m (drop p ?T)) = take (Suc now) key"
          by (simp add: occurs_at_def)
        moreover have "Suc now \<le> L - p" and "Suc now \<le> ?m" using Suc.prems(2) True by simp_all
        ultimately have "take (Suc now) (drop p buf) = take (Suc now) key"
          by (simp add: drop_take take_take)
        with ne ext extk Suc.prems(3) show False by simp
      qed
      have fuel: "(L - Suc p) * (?m + 1) + 1 \<le> fuel"
      proof -
        have "L - p = Suc (L - Suc p)" using True by simp
        then have "(L - p) * (?m + 1) = (L - Suc p) * (?m + 1) + (?m + 1)" by simp
        with Suc.prems(2,5) show ?thesis by simp
      qed
      have "bufsearch_loop fuel buf (of_nat L) (key @ [0]) ?m (of_nat (Suc p + 0)) (int (Suc p + 0)) 0 q 0
            = Some (found (find_from key (drop (Suc p) ?T) (Suc p)))" for q
        using True fuel assms(1) by (intro Suc.IH) auto
      moreover have "now \<noteq> 0 \<Longrightarrow> sint position = int p"
        using Suc.prems(4) assms(3) True by (auto simp: signed_of_nat signed_take_bit_int_eq_self)
      ultimately show ?thesis
        using ne no step True lt inb Suc.prems(2,4)
        by (cases "now = 0") (simp_all add: nth_append ac_simps nat_int_comm)
    qed
  qed
qed

lemma find_from_SomeD:
  "find_from key bs p = Some q \<Longrightarrow>
     p \<le> q \<and> q \<le> p + length bs \<and> take (length key) (drop (q - p) bs) = key
     \<and> (\<forall>r. p \<le> r \<and> r < q \<longrightarrow> take (length key) (drop (r - p) bs) \<noteq> key)"
proof (induction bs arbitrary: p)
  case Nil
  then show ?case by (auto split: if_splits)
next
  case (Cons b bs)
  show ?case
  proof (cases "take (length key) (b # bs) = key")
    case True
    with Cons.prems show ?thesis by auto
  next
    case False
    with Cons.prems have "find_from key bs (Suc p) = Some q" by simp
    from Cons.IH [OF this] have IH: "Suc p \<le> q" "q \<le> Suc p + length bs"
      "take (length key) (drop (q - Suc p) bs) = key"
      "\<forall>r. Suc p \<le> r \<and> r < q \<longrightarrow> take (length key) (drop (r - Suc p) bs) \<noteq> key" by auto
    have "take (length key) (drop (r - p) (b # bs)) \<noteq> key" if "p \<le> r" "r < q" for r
    proof (cases "r = p")
      case True
      with False show ?thesis by simp
    next
      case ne: False
      with that have "r - p = Suc (r - Suc p)" by simp
      with that ne IH(4) show ?thesis by simp
    qed
    moreover have "q - p = Suc (q - Suc p)" using IH(1) by simp
    ultimately show ?thesis using IH by simp
  qed
qed

lemma find_from_NoneD: "find_from key bs p = None \<Longrightarrow> i \<le> length bs \<Longrightarrow> take (length key) (drop i bs) \<noteq> key"
proof (induction bs arbitrary: p i)
  case Nil
  then show ?case by (auto split: if_splits)
next
  case (Cons b bs)
  then have "take (length key) (b # bs) \<noteq> key" and n: "find_from key bs (Suc p) = None"
    by (auto split: if_splits)
  with Cons.IH [OF n] Cons.prems show ?case by (cases i) auto
qed

lemma find_from_at:
  assumes "take (length key) (drop i bs) = key" and "i \<le> length bs"
    and "\<forall>r < i. take (length key) (drop r bs) \<noteq> key"
  shows "find_from key bs p = Some (p + i)"
  using assms
proof (induction bs arbitrary: p i)
  case Nil
  then show ?case by auto
next
  case (Cons b bs)
  show ?case
  proof (cases i)
    case 0
    with Cons.prems show ?thesis by simp
  next
    case (Suc j)
    with Cons.prems(3) have "take (length key) (b # bs) \<noteq> key" by force
    moreover have "\<forall>r < j. take (length key) (drop r bs) \<noteq> key"
      using Cons.prems(3) Suc by force
    ultimately show ?thesis using Cons.IH [of j "Suc p"] Cons.prems Suc by simp
  qed
qed

lemma bufsearch_found:
  assumes "key \<noteq> []" and "length key \<le> 30" and "unat len \<le> length buf" and "unat len < 2 ^ 15"
  shows "bufsearch buf len key = Some (found (find_from key (take (unat len) buf) 0))"
proof -
  have "x \<le> y * 31 \<Longrightarrow> x + 1 \<le> 32 * (y + 2)" for x y :: nat by simp
  moreover have "unat len * (length key + 1) \<le> unat len * 31"
    using assms(2) by (intro mult_le_mono) simp_all
  ultimately have "(unat len - 0) * (length key + 1) + 1 \<le> 32 * (unat len + 2) + 0"
    unfolding diff_zero add_0_right by blast
  with bufsearch_loop_spec [of key "unat len" buf 0 0 "- 1" "32 * (unat len + 2)"] assms
  show ?thesis by (simp add: bufsearch_def)
qed

subsection \<open>Base64 round trip\<close>

lemma b64_value_char: "j < 64 \<Longrightarrow> b64_value (b64_char j) = Some j"
  by (rule byte_below [where P = "\<lambda>j. b64_value (b64_char j) = Some j" and n = 64])
     (simp_all add: upt_zero_numeral b64_value_def b64_char_def asc_def word_less_nat_alt)

lemma b64_pad: "b64_char 0xFF = asc CHR ''=''" "b64_value (asc CHR ''='') = None"
  by (simp_all add: b64_char_def b64_value_def asc_def)

lemma b64_char_no_pad: "j < 64 \<Longrightarrow> b64_char j \<noteq> asc CHR ''=''"
  by (metis b64_value_char b64_pad(2) option.distinct(1))

lemma dest_set_at: "d = length pre \<Longrightarrow> dest_set (pre @ x # post) d v = Some (pre @ v # post)"
  by (simp add: dest_set_def)

lemma dest_or_at: "d = length pre \<Longrightarrow> dest_or (pre @ x # post) d v = Some (pre @ (x OR v) # post)"
  by (simp add: dest_or_def nth_append)

lemma dest_set_at1: "d = Suc (length pre) \<Longrightarrow> dest_set (pre @ x # y # post) d v = Some (pre @ x # v # post)"
  using dest_set_at [of d "pre @ [x]" y post v] by simp

lemma dest_set_at2: "d = Suc (Suc (length pre)) \<Longrightarrow> dest_set (pre @ x # y # z # post) d v = Some (pre @ x # y # v # post)"
  using dest_set_at [of d "pre @ [x, y]" z post v] by simp

lemma dest_or_at1: "d = Suc (length pre) \<Longrightarrow> dest_or (pre @ x # y # post) d v = Some (pre @ x # (y OR v) # post)"
  using dest_or_at [of d "pre @ [x]" y post v] by simp

lemma dest_or_at2: "d = Suc (Suc (length pre)) \<Longrightarrow> dest_or (pre @ x # y # z # post) d v = Some (pre @ x # y # (z OR v) # post)"
  using dest_or_at [of d "pre @ [x, y]" z post v] by simp

lemmas dest_at = dest_set_at dest_set_at1 dest_set_at2 dest_or_at dest_or_at1 dest_or_at2

lemma decode_four:
  assumes "v0 < 64" "v1 < 64" "v2 < 64" "v3 < 64" and "length pre + 3 \<le> w"
  shows "Base64Decode_loop (map b64_char [v0, v1, v2, v3] @ src) w 0 (length pre)
            (pre @ x # y # z # post) (length pre)
       = Base64Decode_loop src w 0 (length pre + 3)
            (pre @ [push_bit 2 v0 OR drop_bit 4 v1, push_bit 4 v1 OR drop_bit 2 v2, push_bit 6 v2 OR v3] @ post)
            (length pre + 3)"
  using assms by (simp add: b64_value_char b64_char_no_pad dest_at numeral_3_eq_3)

lemma decode_two:
  assumes "v0 < 64" "v1 < 64" and "length pre + 2 \<le> w"
  shows "Base64Decode_loop (map b64_char [v0, v1, 0xFF, 0xFF] @ src) w 0 (length pre)
            (pre @ x # y # post) (length pre)
       = Base64Decode_loop src w 2 (length pre + 2)
            (pre @ (push_bit 2 v0 OR drop_bit 4 v1) # push_bit 4 v1 # post) (length pre + 1)"
  using assms by (simp add: b64_value_char b64_char_no_pad dest_at b64_pad numeral_2_eq_2)

lemma decode_three:
  assumes "v0 < 64" "v1 < 64" "v2 < 64" and "length pre + 3 \<le> w"
  shows "Base64Decode_loop (map b64_char [v0, v1, v2, 0xFF] @ src) w 0 (length pre)
            (pre @ x # y # z # post) (length pre)
       = Base64Decode_loop src w 3 (length pre + 3)
            (pre @ [push_bit 2 v0 OR drop_bit 4 v1, push_bit 4 v1 OR drop_bit 2 v2] @ push_bit 6 v2 # post)
            (length pre + 2)"
  using assms by (simp add: b64_value_char b64_char_no_pad dest_at b64_pad numeral_3_eq_3)

text \<open>The six-bit values a group is made of, and the octets they recombine to.\<close>

lemma b64_parts:
  "drop_bit 2 (a AND 0xFC) < (64 :: byte)" "push_bit 4 (a AND 0x03) < (64 :: byte)"
  "push_bit 4 (a AND 0x03) OR drop_bit 4 (b AND 0xF0) < (64 :: byte)"
  "push_bit 2 (b AND 0x0F) < (64 :: byte)"
  "push_bit 2 (b AND 0x0F) OR drop_bit 6 (c AND 0xC0) < (64 :: byte)" "c AND 0x3F < (64 :: byte)"
proof -
  have sixty_four: "x < 64" if "\<not> bit x 6" and "\<not> bit x 7" for x :: byte
  proof -
    have "x = x AND 0x3F"
      using that by (intro byte_eqI) (auto simp: lt8 bit_simps)
    moreover have "x AND 0x3F \<le> 0x3F" by (rule word_and_le1)
    ultimately have "x \<le> 0x3F" by simp
    then show ?thesis by (simp add: word_le_nat_alt word_less_nat_alt)
  qed
  show "drop_bit 2 (a AND 0xFC) < (64 :: byte)" "push_bit 4 (a AND 0x03) < (64 :: byte)"
    "push_bit 4 (a AND 0x03) OR drop_bit 4 (b AND 0xF0) < (64 :: byte)"
    "push_bit 2 (b AND 0x0F) < (64 :: byte)"
    "push_bit 2 (b AND 0x0F) OR drop_bit 6 (c AND 0xC0) < (64 :: byte)" "c AND 0x3F < (64 :: byte)"
    by (rule sixty_four; simp add: bit_simps)+
qed

lemma b64_join:
  "push_bit 2 (drop_bit 2 (a AND 0xFC)) OR drop_bit 4 (push_bit 4 (a AND 0x03)) = (a :: byte)"
  "push_bit 4 (push_bit 4 (a AND 0x03)) = (0 :: byte)"
  "push_bit 2 (drop_bit 2 (a AND 0xFC)) OR drop_bit 4 (push_bit 4 (a AND 0x03) OR drop_bit 4 (b AND 0xF0)) = a"
  "push_bit 4 (push_bit 4 (a AND 0x03) OR drop_bit 4 (b AND 0xF0)) OR drop_bit 2 (push_bit 2 (b AND 0x0F)) = (b :: byte)"
  "push_bit 6 (push_bit 2 (b AND 0x0F)) = (0 :: byte)"
  "push_bit 4 (push_bit 4 (a AND 0x03) OR drop_bit 4 (b AND 0xF0)) OR drop_bit 2 (push_bit 2 (b AND 0x0F) OR drop_bit 6 (c AND 0xC0)) = b"
  "push_bit 6 (push_bit 2 (b AND 0x0F) OR drop_bit 6 (c AND 0xC0)) OR (c AND 0x3F) = (c :: byte)"
  by (rule byte_eqI; auto simp: lt8 bit_simps numeral_2_eq_2 [symmetric] numeral_3_eq_3 [symmetric])+

lemma decode_group:
  "length pre + 2 \<le> w \<Longrightarrow> Base64Decode_loop (b64_group a None None @ src) w 0 (length pre) (pre @ x # y # post) (length pre)
    = Base64Decode_loop src w 2 (length pre + 2) (pre @ a # 0 # post) (length pre + 1)"
  "length pre + 3 \<le> w \<Longrightarrow> Base64Decode_loop (b64_group a (Some b) None @ src) w 0 (length pre) (pre @ x # y # z # post) (length pre)
    = Base64Decode_loop src w 3 (length pre + 3) (pre @ a # b # 0 # post) (length pre + 2)"
  "length pre + 3 \<le> w \<Longrightarrow> Base64Decode_loop (b64_group a (Some b) (Some c) @ src) w 0 (length pre) (pre @ x # y # z # post) (length pre)
    = Base64Decode_loop src w 0 (length pre + 3) (pre @ a # b # c # post) (length pre + 3)"
  unfolding b64_group_def Let_def option.case
  by (subst decode_two decode_three decode_four; (rule b64_parts | assumption | simp only: b64_join append_Cons append_Nil))+

lemma length_b64_group [simp]: "length (b64_group a b c) = 4"
  by (simp add: b64_group_def Let_def)

lemma div3_step: "(5 + l) div 3 = Suc (Suc (Suc l) div 3)"
  by presburger

lemma length_Base64Encode: "4 * ((length src + 2) div 3) \<le> w \<Longrightarrow>
    length (Base64Encode src w) = 4 * ((length src + 2) div 3)"
  by (induction src w rule: Base64Encode.induct) (auto simp: div3_step)

declare Base64Decode_loop.simps [simp del]

lemma decode_encode:
  "\<lbrakk>4 * ((length src + 2) div 3) \<le> w; length pre + length src + 1 \<le> dlen; length src < length rest\<rbrakk> \<Longrightarrow>
   Base64Decode_loop (Base64Encode src w @ rst) dlen 0 (length pre) (pre @ rest) (length pre)
   = (if length src mod 3 = 0
      then Base64Decode_loop rst dlen 0 (length pre + length src) (pre @ src @ drop (length src) rest)
             (length pre + length src)
      else Base64Decode_loop rst dlen (length src mod 3 + 1) (length pre + length src + 1)
             (pre @ src @ 0 # drop (length src + 1) rest) (length pre + length src))"
proof (induction src w arbitrary: pre rest rule: Base64Encode.induct)
  case (1 w)
  then show ?case by simp
next
  case (2 a w)
  then obtain x y r where rest: "rest = x # y # r"
    by (cases rest; cases "tl rest") auto
  with 2 show ?case using decode_group(1) [of pre dlen a rst x y r]
    by (simp add: numeral_2_eq_2 [symmetric])
next
  case (3 a b w)
  then obtain x y z r where rest: "rest = x # y # z # r"
    by (cases rest; cases "tl rest"; cases "tl (tl rest)") auto
  with 3 show ?case using decode_group(2) [of pre dlen a b rst x y z r, unfolded numeral_3_eq_3]
    by simp
next
  case (4 a b c src w)
  then obtain x y z r where rest: "rest = x # y # z # r"
    by (cases rest; cases "tl rest"; cases "tl (tl rest)") auto
  have w: "w \<ge> 4" "4 * ((length src + 2) div 3) \<le> w - 4" using 4(2) by (simp_all add: div3_step)
  have step: "Base64Decode_loop (Base64Encode (a # b # c # src) w @ rst) dlen 0 (length pre) (pre @ rest) (length pre)
      = Base64Decode_loop (Base64Encode src (w - 4) @ rst) dlen 0 (length (pre @ [a, b, c])) ((pre @ [a, b, c]) @ r)
          (length (pre @ [a, b, c]))"
    using w(1) 4(3) decode_group(3) [of pre dlen a b c "Base64Encode src (w - 4) @ rst" x y z r]
    by (simp add: rest numeral_3_eq_3)
  have IH: "length src < length r" "length (pre @ [a, b, c]) + length src + 1 \<le> dlen"
    using 4(3,4) rest by simp_all
  have "length (a # b # c # src) mod 3 = length src mod 3"
    unfolding list.size by presburger
  moreover have "length (pre @ [a, b, c]) + length src = length pre + length (a # b # c # src)"
    and "drop (length (a # b # c # src)) rest = drop (length src) r"
    and "drop (length (a # b # c # src) + 1) rest = drop (length src + 1) r"
    by (simp_all add: rest)
  ultimately show ?case
    unfolding step unfolding 4(1) [OF w IH(2) IH(1)]
    unfolding append_assoc append_Cons append_Nil by (simp only:)
qed

lemma Base64Decode_Encode:
  assumes "4 * ((length src + 2) div 3) \<le> w" and "length src < dlen" and "length src < length dest"
    and "enc = Base64Encode src w"
  shows "Base64Decode (enc @ rest) (length enc) dest dlen =
      Some (if length src mod 3 = 0 then (length src, src @ drop (length src) dest)
            else (length src + 1, src @ 0 # drop (length src + 1) dest))"
  using assms decode_encode [of src w "[]" dlen dest "[]"]
  by (simp add: Base64Decode_def Base64Decode_loop.simps(1))

text \<open>Characters outside the alphabet in front of the text are skipped.\<close>

lemma decode_skip: "b64_value c = None \<Longrightarrow>
    Base64Decode_loop (c # src) w n out dest d = Base64Decode_loop src w n out dest d"
  by (simp add: Base64Decode_loop.simps Let_def)

subsection \<open>\<open>itoay\<close>\<close>

lemma rev_itoay_digits:
  "\<lbrakk>0 < n; n < 10 ^ k; length acc + k \<le> 7\<rbrakk> \<Longrightarrow> itoay_digits (int n) acc = Some (acc @ rev (dec n))"
proof (induction n arbitrary: acc k rule: dec.induct)
  case (1 n)
  obtain j where k: "k = Suc j" using "1.prems" by (cases k) auto
  have digit: "of_int (48 + int n mod 10) = digit_ch (n mod 10)"
  proof -
    have "48 + int n mod 10 = int (48 + n mod 10)" by (simp add: zmod_int)
    then show ?thesis by (simp only: digit_ch_def of_int_of_nat_eq)
  qed
  have step: "itoay_digits (int n) acc = itoay_digits (int (n div 10)) (acc @ [digit_ch (n mod 10)])"
    using "1.prems" k digit by (subst itoay_digits.simps) (simp add: zdiv_int)
  show ?case
  proof (cases "n < 10")
    case True
    then show ?thesis using step by (simp add: itoay_digits.simps dec.simps [of n])
  next
    case False
    have "n div 10 < 10 ^ j" using "1.prems"(2) k by (simp add: less_mult_imp_div_less)
    then have "itoay_digits (int (n div 10)) (acc @ [digit_ch (n mod 10)])
        = Some ((acc @ [digit_ch (n mod 10)]) @ rev (dec (n div 10)))"
      using "1.prems"(3) k False by (intro "1.IH") auto
    then show ?thesis using step False by (simp add: dec.simps [of n])
  qed
qed

lemma itoay_dec: "n < 10 ^ 7 \<Longrightarrow> itoay (int n) = Some (dec n)"
  using rev_itoay_digits [of n 7 "[]"]
  by (cases "n = 0") (simp_all add: itoay_def dec.simps [of 0] digit_ch_def asc_def)

subsection \<open>\<open>checkAuth\<close>\<close>

text \<open>A search for one character stops where it finds it, whatever follows there.\<close>

lemma bufsearch_scan:
  "\<lbrakk>length pre + length todo < 128; c \<notin> set todo; length todo < fuel\<rbrakk> \<Longrightarrow>
    bufsearch_loop fuel (pre @ todo @ c # post) 128 [c, 0] 1 (of_nat (length pre)) (int (length pre)) 0 p 0
      = Some (of_nat (length pre + length todo))"
proof (induction todo arbitrary: pre fuel)
  case Nil
  then obtain f where "fuel = Suc f" by (cases fuel) auto
  moreover have "(of_nat (length pre) :: u16) < 128" using Nil by (simp add: word_less_nat_alt unat_of_nat)
  ultimately show ?case by (simp add: Let_def)
next
  case (Cons b todo)
  then obtain f where f: "fuel = Suc f" by (cases fuel) auto
  have l: "(of_nat (length pre) :: u16) < 128" using Cons.prems by (simp add: word_less_nat_alt unat_of_nat)
  have "bufsearch_loop f ((pre @ [b]) @ todo @ c # post) 128 [c, 0] 1 (of_nat (length (pre @ [b])))
      (int (length (pre @ [b]))) 0 p 0 = Some (of_nat (length (pre @ [b]) + length todo))"
    using Cons.prems f by (intro Cons.IH) auto
  then show ?case using Cons.prems f l by (auto simp: add.commute)
qed

lemma bufsearch_char:
  assumes "length pre < 128" and "c \<notin> set pre"
  shows "bufsearch (pre @ c # post) 128 [c] = Some (of_nat (length pre))"
  using bufsearch_scan [of "[]" pre c "32 * (unat (128 :: u16) + 2)" post "- 1"] assms
  by (simp add: bufsearch_def)

lemma amp_notin_Base64Encode: "asc CHR ''&'' \<notin> set (Base64Encode src w)"
proof -
  have c: "b64_char j \<noteq> asc CHR ''&''" for j
  proof (cases "j < 64")
    case True
    then show ?thesis using b64_value_char [OF True] by (auto simp: b64_value_def asc_def)
  next
    case False
    then show ?thesis by (auto simp: b64_char_def asc_def word_less_nat_alt word_le_nat_alt)
  qed
  have "asc CHR ''&'' \<notin> set (b64_group a b d)" for a b d
    using c [symmetric] by (auto simp: b64_group_def Let_def simp del: push_bit_and)
  then show ?thesis by (induction src w rule: Base64Encode.induct) auto
qed

lemma auth_user_colon:
  "\<lbrakk>asc CHR '':'' \<notin> set u; length acc + length u < 40\<rbrakk> \<Longrightarrow>
    auth_user (acc @ u @ asc CHR '':'' # r) acc = Some (Inr (acc @ u))"
proof (induction u arbitrary: acc)
  case Nil
  then show ?case by (subst auth_user.simps) (simp add: peek_def)
next
  case (Cons b u)
  then have "auth_user ((acc @ [b]) @ u @ asc CHR '':'' # r) (acc @ [b]) = Some (Inr ((acc @ [b]) @ u))"
    by (intro Cons.IH) auto
  with Cons.prems show ?case
    by (subst auth_user.simps) (auto simp: peek_def AUTHEN_LEN_def)
qed

lemma cut_id: "0 \<notin> set s \<Longrightarrow> cut s = s" "0 \<notin> set s \<Longrightarrow> cut (s @ 0 # r) = s"
  by (auto simp: cut_def takeWhile_eq_all_conv takeWhile_append)

lemma auth_check_plain:
  assumes "asc CHR '':'' \<notin> set u" "0 \<notin> set u" "length u < 40" "0 \<notin> set pw" "length pw < 39"
    and "n = length u + 1 + length pw \<and> tbuf = (u @ asc CHR '':'' # pw) @ rest
         \<or> n = length u + 1 + length pw + 1 \<and> tbuf = (u @ asc CHR '':'' # pw) @ 0 # rest"
  shows "auth_check n tbuf username password = Some (u = username \<and> pw = password)"
  using assms(6)
proof
  assume "n = length u + 1 + length pw \<and> tbuf = (u @ asc CHR '':'' # pw) @ rest"
  then show ?thesis using assms auth_user_colon [of u "[]" "pw @ rest"]
    by (auto simp: auth_check_def cut_id)
next
  assume "n = length u + 1 + length pw + 1 \<and> tbuf = (u @ asc CHR '':'' # pw) @ 0 # rest"
  then show ?thesis using assms auth_user_colon [of u "[]" "pw @ 0 # rest"]
    by (auto simp: auth_check_def cut_id)
qed

lemma checkAuth_decides:
  assumes "pre \<noteq> []" "asc CHR ''&'' \<notin> set pre" "length pre < 128"
    and "asc CHR '':'' \<notin> set u" "0 \<notin> set u" "length u < 40" "0 \<notin> set pw" "length pw < 39"
    and "length stk = 80"
    and "pbuf = pre @ str ''&'' @ Base64Encode (u @ str '':'' @ pw) 108 @ str ''&'' @ post"
  shows "checkAuth pbuf username password stk = Some (u = username \<and> pw = password)"
proof -
  let ?amp = "asc CHR ''&''" and ?src = "u @ str '':'' @ pw"
  let ?e = "Base64Encode ?src 108"
  have len: "length ?src < 79" using assms(6,8) by simp
  then have "4 * ((length ?src + 2) div 3) \<le> 108" by presburger
  from length_Base64Encode [OF this] this have e: "length ?e \<le> 108" by simp
  have p1: "bufsearch pbuf 128 [?amp] = Some (of_nat (length pre))"
    using bufsearch_char [of pre ?amp "?e @ ?amp # post"] assms by simp
  have p2: "bufsearch (?e @ ?amp # post) 128 [?amp] = Some (of_nat (length ?e))"
    using e amp_notin_Base64Encode [of ?src 108] by (intro bufsearch_char) auto
  have s: "sint (of_nat k :: u16) = int k" if "k < 128" for k
    using that by (subst signed_of_nat) (simp add: signed_take_bit_int_eq_self)
  obtain n tbuf where dec: "Base64Decode (?e @ ?amp # post) (length ?e) stk 80 = Some (n, tbuf)"
    and nt: "n = length ?src \<and> tbuf = ?src @ drop (length ?src) stk
       \<or> n = length ?src + 1 \<and> tbuf = ?src @ 0 # drop (length ?src + 1) stk"
    using Base64Decode_Encode [of ?src 108 80 stk ?e "?amp # post"] len assms(9)
      \<open>4 * ((length ?src + 2) div 3) \<le> 108\<close> by (cases "length ?src mod 3 = 0") simp_all
  have "Base64Decode (?amp # ?e @ ?amp # post) (length ?e + 1) stk 80 = Some (n, tbuf)"
    using dec by (simp add: Base64Decode_def decode_skip b64_value_def asc_def)
  moreover have "auth_check n tbuf username password = Some (u = username \<and> pw = password)"
    using nt
  proof
    assume "n = length ?src \<and> tbuf = ?src @ drop (length ?src) stk"
    with assms show ?thesis by (intro auth_check_plain [where rest = "drop (length ?src) stk"]) auto
  next
    assume "n = length ?src + 1 \<and> tbuf = ?src @ 0 # drop (length ?src + 1) stk"
    with assms show ?thesis by (intro auth_check_plain [where rest = "drop (length ?src + 1) stk"]) auto
  qed
  moreover have "drop (length pre + 1) pbuf = ?e @ ?amp # post" "drop (length pre) pbuf = ?amp # ?e @ ?amp # post"
    using assms(10) by simp_all
  ultimately show ?thesis
    using p1 p2 e assms(1,3) s [of "length pre"] s [of "length ?e"]
    by (simp add: checkAuth_def Let_def AUTHEN_LEN_def nat_add_distrib)
qed

end
