(* ===== verification/Sva_Tags.thy ===== *)
theory Sva_Tags
  imports Firmware Sys_Text
begin

section \<open>The configuration requests (\<open>SVATagovi.c\<close>)\<close>

text \<open>
  A POST handler looks up each of its tags in the request with \<open>XMLParser\<close>, which copies the
  value into \<open>tb\<close>, converts the value through the pointer \<open>iBuf\<close> (an index into \<open>tb\<close>
  here) and writes the EEPROM and the run-time structures. A read or a write outside an array is
  \<open>None\<close>. \<open>atof\<close> (to a \<open>float\<close>) is a parameter; \<open>msg\<close> is the request buffer.

  Locals that the source leaves unset when a tag is empty are the list \<open>loc\<close> of what
  the stack holds.
\<close>

subsection \<open>Converting a value\<close>

text \<open>\<open>*iBuf\<close>.\<close>

definition cur :: "sys \<Rightarrow> byte option" where
  "cur s = peek (tb s) (iBuf s)"

definition set_tb :: "nat \<Rightarrow> byte \<Rightarrow> sys \<Rightarrow> sys option" where
  "set_tb i b s = do { t \<leftarrow> poke i [b] (tb s); Some (s\<lparr>tb := t\<rparr>) }"

definition adv :: "nat \<Rightarrow> sys \<Rightarrow> sys" where
  "adv n s = s\<lparr>iBuf := iBuf s + n\<rparr>"

text \<open>
  \<open>DS18B20CodeToArray\<close>: pairs of hexadecimal digits up to \<open>tPoint\<close> (an odd length reads one
  more character). The result is the array of the bytes it writes.
\<close>

function ds_code_loop :: "nat \<Rightarrow> bytes \<Rightarrow> sys \<Rightarrow> (bytes \<times> sys) option" where
  "ds_code_loop tPoint acc s =
     (if iBuf s < tPoint then
        (case (peek (tb s) (iBuf s), peek (tb s) (iBuf s + 1)) of
           (Some c1, Some c2) \<Rightarrow>
             ds_code_loop tPoint (acc @ [push_bit 4 (asciitohex c1) + asciitohex c2]) (adv 2 s)
         | _ \<Rightarrow> None)
      else Some (acc, s))"
  by pat_completeness auto
termination
  by (relation "measure (\<lambda>(t, _, s). t - iBuf s)") (auto simp: adv_def)

definition DS18B20CodeToArray :: "byte \<Rightarrow> sys \<Rightarrow> (bytes \<times> sys) option" where
  "DS18B20CodeToArray inLen s = ds_code_loop (iBuf s + unat inLen) [] s"

text \<open>
  \<open>StringToFile\<close>: letters, digits, white space and \<open>-_.@?#\<close> are kept, \<open>%20\<close> becomes a
  space and any other escape nothing. For another character the condition \<open>(*iBuf++) == '%'\<close>
  has moved the pointer already when the last branch moves it again.
\<close>

definition string_char :: "byte \<Rightarrow> bool" where
  "string_char c \<longleftrightarrow> isalnum c \<or> isspace c \<or> c \<in> set (str ''-_.@?#'')"

function string_loop :: "nat \<Rightarrow> nat \<Rightarrow> byte \<Rightarrow> sys \<Rightarrow> (byte option \<times> sys) option" where
  "string_loop tPoint inLen cnt s =
     (if iBuf s < tPoint then
        (case cur s of
           None \<Rightarrow> None
         | Some c \<Rightarrow>
             if string_char c then
               (case set_tb (unat cnt) c s of
                  None \<Rightarrow> None
                | Some s' \<Rightarrow> (if unat (cnt + 1) > inLen then Some (None, adv 1 s')
                             else string_loop tPoint inLen (cnt + 1) (s'\<lparr>iBuf := iBuf s + 1\<rparr>)))
             else if c = asc CHR ''%'' then
               (case https_read_encoded2 (tb s) (iBuf s + 1) of
                  None \<Rightarrow> None
                | Some a \<Rightarrow>
                    if a = 0x20 then
                      (case set_tb (unat cnt) a s of
                         None \<Rightarrow> None
                       | Some s' \<Rightarrow> (if unat (cnt + 1) > inLen then Some (None, adv 3 s')
                                    else string_loop tPoint inLen (cnt + 1) (s'\<lparr>iBuf := iBuf s + 3\<rparr>)))
                    else if unat cnt > inLen then Some (None, adv 3 s)
                    else string_loop tPoint inLen cnt (s\<lparr>iBuf := iBuf s + 3\<rparr>))
             else if unat cnt > inLen then Some (None, adv 2 s)
             else string_loop tPoint inLen cnt (s\<lparr>iBuf := iBuf s + 2\<rparr>))
      else Some (Some cnt, s))"
  by pat_completeness auto
termination
  by (relation "measure (\<lambda>(t, _, _, s). t - iBuf s)") (auto simp: adv_def)

text \<open>The result \<open>0\<close> of the early return is \<open>None\<close> in the inner option; else the count.\<close>

definition StringToFile :: "dst \<Rightarrow> byte \<Rightarrow> sys \<Rightarrow> (byte \<times> sys) option" where
  "StringToFile d inLen s = do {
     (r, s) \<leftarrow> string_loop (iBuf s + unat inLen) (unat inLen) 0 s;
     (case r of
        None \<Rightarrow> Some (0, s)
      | Some cnt \<Rightarrow> do {
          s \<leftarrow> set_tb (unat cnt) 0 s;
          let s = adv 1 s;
          v \<leftarrow> c_str (tb s);
          s \<leftarrow> store d 0 (v @ [0]) s;
          Some (cnt, s) }) }"

text \<open>
  \<open>getTemp\<close>: digits, each after an optional minus sign, moved to the front of \<open>tb\<close>; the
  result is 0 at any other character, else the number modulo 256, negated after a minus.
\<close>

function temp_loop :: "nat \<Rightarrow> byte \<Rightarrow> bool \<Rightarrow> sys \<Rightarrow> ((byte \<times> bool) option \<times> sys) option" where
  "temp_loop tPoint cnt minus_flag s =
     (if iBuf s < tPoint then
        (case cur s of
           None \<Rightarrow> None
         | Some c0 \<Rightarrow>
             let minus = (c0 = asc CHR ''-'');
                 s1 = (if minus then adv 1 s else s)
             in (case cur s1 of
                   None \<Rightarrow> None
                 | Some c \<Rightarrow>
                     if isdigit c then
                       (case set_tb (unat cnt) c s1 of
                          None \<Rightarrow> None
                        | Some s2 \<Rightarrow> temp_loop tPoint (cnt + 1) (minus_flag \<or> minus) (s2\<lparr>iBuf := iBuf s1 + 1\<rparr>))
                     else Some (None, s1)))
      else Some (Some (cnt, minus_flag), s))"
  by pat_completeness auto
termination
  by (relation "measure (\<lambda>(t, _, _, s). t - iBuf s)") (auto simp: adv_def split: if_splits)

definition getTemp :: "byte \<Rightarrow> sys \<Rightarrow> (byte \<times> sys) option" where
  "getTemp inLen s = do {
     (r, s) \<leftarrow> temp_loop (iBuf s + unat inLen) 0 False s;
     (case r of
        None \<Rightarrow> Some (0, s)
      | Some (cnt, minus_flag) \<Rightarrow> do {
          s \<leftarrow> set_tb (unat cnt) 0 s;
          let s = adv 1 s;
          v \<leftarrow> c_str (tb s);
          let eVal = (of_int (atoi v) :: byte);
          Some ((if minus_flag then 0xFF - eVal + 1 else eVal), s) }) }"

text \<open>
  \<open>IntToFile\<close>: the digits go to \<open>intBuf[6]\<close>. \<open>False\<close> is the result 0 for a character
  that is no digit, which leaves the destination as it was.
\<close>

function int_loop :: "nat \<Rightarrow> bytes \<Rightarrow> sys \<Rightarrow> (bytes option \<times> sys) option" where
  "int_loop tPoint intBuf s =
     (if iBuf s < tPoint then
        (case cur s of
           None \<Rightarrow> None
         | Some c \<Rightarrow>
             if isdigit c then
               (if length intBuf < 6 then int_loop tPoint (intBuf @ [c]) (adv 1 s) else None)
             else Some (None, s))
      else Some (Some intBuf, s))"
  by pat_completeness auto
termination
  by (relation "measure (\<lambda>(t, _, s). t - iBuf s)") (auto simp: adv_def)

definition IntToFile :: "dst \<Rightarrow> byte \<Rightarrow> sys \<Rightarrow> (bool \<times> sys) option" where
  "IntToFile d inLen s = do {
     (r, s) \<leftarrow> int_loop (iBuf s + unat inLen) [] s;
     (case r of
        None \<Rightarrow> Some (False, s)
      | Some intBuf \<Rightarrow>
          if length intBuf < 6 then do {
            let eVal = atoi intBuf;
            s \<leftarrow> store d 0 [of_int (eVal div 256), of_int (eVal mod 256)] s;
            Some (True, s) }
          else None) }"

text \<open>
  \<open>IPtoFile\<close>: the first three numbers end at a point, the last one at \<open>tPoint\<close>; each goes
  through \<open>ct[5]\<close>, which \<open>atoi\<close> reads to its first NUL. A wrong character returns 0 after the
  numbers before it have been stored.
\<close>

function octet_loop :: "bytes \<Rightarrow> sys \<Rightarrow> (bytes option \<times> sys) option" where
  "octet_loop ct s =
     (case cur s of
        None \<Rightarrow> None
      | Some c \<Rightarrow>
          if c = asc CHR ''.'' then Some (Some ct, s)
          else if isdigit c then
            (if length ct < 5 then octet_loop (ct @ [c]) (adv 1 s) else None)
          else Some (None, s))"
  by pat_completeness auto
termination
  by (relation "measure (\<lambda>(ct, _). 5 - length ct)") auto

definition octet :: "bytes \<Rightarrow> byte option" where
  "octet ct = (if length ct < 5 then Some (of_int (atoi ct)) else None)"

declare ds_code_loop.simps [simp del] string_loop.simps [simp del] temp_loop.simps [simp del]
  int_loop.simps [simp del] octet_loop.simps [simp del]

text \<open>One number followed by a point, stored at index \<open>i\<close> of the destination.\<close>

definition ip_dotted :: "dst \<Rightarrow> nat \<Rightarrow> sys \<Rightarrow> (bool \<times> sys) option" where
  "ip_dotted d i s = do {
     (r, s) \<leftarrow> octet_loop [] s;
     (case r of
        None \<Rightarrow> Some (False, s)
      | Some ct \<Rightarrow> do {
          k \<leftarrow> octet ct;
          s \<leftarrow> store d i [k] (adv 1 s);
          Some (True, s) }) }"

text \<open>The last loop tests \<open>iBuf < tPoint\<close> before it reads a character.\<close>

function ip_last_loop :: "nat \<Rightarrow> bytes \<Rightarrow> sys \<Rightarrow> (bytes option \<times> sys) option" where
  "ip_last_loop tPoint ct s =
     (if iBuf s < tPoint then
        (case cur s of
           None \<Rightarrow> None
         | Some c \<Rightarrow>
             if isdigit c then
               (if length ct < 5 then ip_last_loop tPoint (ct @ [c]) (adv 1 s) else None)
             else Some (None, s))
      else Some (Some ct, s))"
  by pat_completeness auto
termination
  by (relation "measure (\<lambda>(t, _, s). t - iBuf s)") (auto simp: adv_def)

declare ip_last_loop.simps [simp del]

definition IPtoFile :: "dst \<Rightarrow> byte \<Rightarrow> sys \<Rightarrow> (bool \<times> sys) option" where
  "IPtoFile d inLen s = do {
     let tPoint = iBuf s + unat inLen;
     (ok, s) \<leftarrow> ip_dotted d 0 s;
     (if \<not> ok then Some (False, s) else do {
        (ok, s) \<leftarrow> ip_dotted d 1 s;
        (if \<not> ok then Some (False, s) else do {
           (ok, s) \<leftarrow> ip_dotted d 2 s;
           (if \<not> ok then Some (False, s) else do {
              (r, s) \<leftarrow> ip_last_loop tPoint [] s;
              (case r of
                 None \<Rightarrow> Some (False, s)
               | Some ct \<Rightarrow> do {
                   k \<leftarrow> octet ct;
                   s \<leftarrow> store d 3 [k] s;
                   Some (True, s) }) }) }) }) }"

text \<open>
  \<open>IPtoLONG\<close> works on its own argument and ends at \<open>&\<close>, \<open><\<close> or NUL. The octets are taken
  from the text \<open>t\<close>; \<open>None\<close> of the inner option is the result 0 for a wrong character.
\<close>

fun long_octet :: "bytes \<Rightarrow> bytes \<Rightarrow> (bytes \<times> bytes) option option" where
  "long_octet ct [] = None"
| "long_octet ct (c # t) =
     (if c = asc CHR ''.'' then Some (Some (ct, t))
      else if isdigit c then (if length ct < 5 then long_octet (ct @ [c]) t else None)
      else Some None)"

fun long_last :: "bytes \<Rightarrow> bytes \<Rightarrow> bytes option option" where
  "long_last ct [] = None"
| "long_last ct (c # t) =
     (if c = asc CHR ''&'' then Some (Some ct)
      else if isdigit c then (if length ct < 5 then long_last (ct @ [c]) t else None)
      else if c = asc CHR ''<'' \<or> c = 0 then Some (Some ct)
      else Some None)"

definition long_num :: "bytes \<Rightarrow> u32 option" where
  "long_num ct = (if length ct < 5 then Some (of_int (atoi ct)) else None)"

definition IPtoLONG :: "bytes \<Rightarrow> u32 option" where
  "IPtoLONG ipBuf = do {
     r1 \<leftarrow> long_octet [] ipBuf;
     (case r1 of None \<Rightarrow> Some 0 | Some (c1, t) \<Rightarrow> do {
        k1 \<leftarrow> long_num c1;
        r2 \<leftarrow> long_octet [] t;
        (case r2 of None \<Rightarrow> Some 0 | Some (c2, t) \<Rightarrow> do {
           k2 \<leftarrow> long_num c2;
           r3 \<leftarrow> long_octet [] t;
           (case r3 of None \<Rightarrow> Some 0 | Some (c3, t) \<Rightarrow> do {
              k3 \<leftarrow> long_num c3;
              r4 \<leftarrow> long_last [] t;
              (case r4 of None \<Rightarrow> Some 0 | Some c4 \<Rightarrow> do {
                 k4 \<leftarrow> long_num c4;
                 Some (push_bit 8 (push_bit 8 (push_bit 8 k1 + k2) + k3) + k4) }) }) }) }) }"

subsection \<open>\<open>XMLParser\<close>\<close>

text \<open>The value up to the next \<open><\<close>.\<close>

fun until_lt :: "bytes \<Rightarrow> bytes option" where
  "until_lt [] = None"
| "until_lt (c # t) = (if c = asc CHR ''<'' then Some [] else map_option (Cons c) (until_lt t))"

text \<open>
  The \<open>INT8\<close> result, which every caller keeps in a \<open>UINT8\<close>, so that "not found" (-1)
  is the length 255, and the destination array.
\<close>

definition XMLParser :: "bytes \<Rightarrow> bytes \<Rightarrow> u16 \<Rightarrow> bytes \<Rightarrow> (byte \<times> bytes) option" where
  "XMLParser tag itagBuf iBufLen dest = do {
     rval \<leftarrow> bufsearch itagBuf iBufLen tag;
     (if rval = - 1 then Some (- 1, dest)
      else if sint rval < 0 then None
      else do {
        v \<leftarrow> until_lt (drop (nat (sint rval) + length tag) itagBuf);
        dest \<leftarrow> poke 0 (v @ [0]) dest;
        Some (of_nat (length v), dest) }) }"

definition parse_tb :: "string \<Rightarrow> bytes \<Rightarrow> u16 \<Rightarrow> sys \<Rightarrow> (byte \<times> sys) option" where
  "parse_tb tag msg len s = do {
     (varlen, t) \<leftarrow> XMLParser (str tag) msg len (tb s);
     Some (varlen, s\<lparr>tb := t\<rparr>) }"

text \<open>The same with \<open>iBuf = tb\<close> after it, as most of the handlers have it.\<close>

definition parse_at :: "string \<Rightarrow> bytes \<Rightarrow> u16 \<Rightarrow> sys \<Rightarrow> (byte \<times> sys) option" where
  "parse_at tag msg len s = do {
     (varlen, s) \<leftarrow> parse_tb tag msg len s;
     Some (varlen, s\<lparr>iBuf := 0\<rparr>) }"

subsection \<open>The steps the handlers are made of\<close>

definition save_ip :: "string \<Rightarrow> nat \<Rightarrow> bytes \<Rightarrow> u16 \<Rightarrow> sys \<Rightarrow> sys option" where
  "save_ip tag a msg len s = do {
     (varlen, s) \<leftarrow> parse_at tag msg len s;
     (if varlen \<noteq> 0 then do {
        (ok, s) \<leftarrow> IPtoFile Pb varlen s;
        Some (if ok then EE_write a (take 4 (pb s)) s else s) }
      else Some s) }"

definition save_int :: "string \<Rightarrow> nat \<Rightarrow> bytes \<Rightarrow> u16 \<Rightarrow> sys \<Rightarrow> sys option" where
  "save_int tag a msg len s = do {
     (varlen, s) \<leftarrow> parse_at tag msg len s;
     (if varlen \<noteq> 0 then do {
        (ok, s) \<leftarrow> IntToFile Pb varlen s;
        Some (if ok then EE_write a (take 2 (pb s)) s else s) }
      else Some s) }"

definition save_str :: "string \<Rightarrow> nat \<Rightarrow> bytes \<Rightarrow> u16 \<Rightarrow> sys \<Rightarrow> sys option" where
  "save_str tag a msg len s = do {
     (varlen, s) \<leftarrow> parse_at tag msg len s;
     (if varlen \<noteq> 0 then do {
        (r, s) \<leftarrow> StringToFile Pb varlen s;
        (if r \<noteq> 0 then EE_write_pb a s else Some s) }
      else Some s) }"

text \<open>The object name is written as the 32 bytes of \<open>pb\<close>, whatever follows the string.\<close>

definition save_name :: "string \<Rightarrow> nat \<Rightarrow> bytes \<Rightarrow> u16 \<Rightarrow> sys \<Rightarrow> sys option" where
  "save_name tag a msg len s = do {
     (varlen, s) \<leftarrow> parse_at tag msg len s;
     (if varlen \<noteq> 0 then do {
        (r, s) \<leftarrow> StringToFile Pb varlen s;
        Some (if r \<noteq> 0 then EE_write a (take 32 (pb s)) s else s) }
      else Some s) }"

text \<open>\<open>if (!strcmp(tb, "ON")) v = 1; else v = 0;\<close> on a local or a field that holds \<open>old\<close>.\<close>

definition tb_is :: "string \<Rightarrow> sys \<Rightarrow> bool option" where
  "tb_is t s = do { v \<leftarrow> c_str (tb s); Some (v = str t) }"

definition flag_tag :: "string \<Rightarrow> bytes \<Rightarrow> u16 \<Rightarrow> byte \<Rightarrow> sys \<Rightarrow> (byte \<times> sys) option" where
  "flag_tag tag msg len old s = do {
     (varlen, s) \<leftarrow> parse_tb tag msg len s;
     (if varlen \<noteq> 0 then do {
        on \<leftarrow> tb_is ''ON'' s;
        Some ((if on then 1 else 0), s) }
      else Some (old, s)) }"

subsection \<open>The handlers\<close>

definition SaveNet :: "bytes \<Rightarrow> u16 \<Rightarrow> sys \<Rightarrow> sys option" where
  "SaveNet bpoint len s = do {
     s \<leftarrow> store RBuf 0 [0xAA, 0x55] s;
     s \<leftarrow> save_ip ''<IP>'' EE_IP bpoint len s;
     s \<leftarrow> save_ip ''<SUB>'' EE_SUBNET bpoint len s;
     s \<leftarrow> save_ip ''<ROUT>'' EE_GATEWAY bpoint len s;
     s \<leftarrow> save_ip ''<DNS>'' EE_DNS bpoint len s;
     s \<leftarrow> save_int ''<HTTP>'' EE_HTTP_PORT bpoint len s;
     s \<leftarrow> save_name ''<NAZIV>'' EE_OBJECT_NAME bpoint len s;
     s \<leftarrow> save_int ''<ALARMPORT>'' EE_ALARM_PORT bpoint len s;
     save_ip ''<ALARMIP>'' EE_ALARM_IP bpoint len s }"

definition SaveSms :: "bytes \<Rightarrow> u16 \<Rightarrow> sys \<Rightarrow> sys option" where
  "SaveSms bpoint len s = do {
     s \<leftarrow> save_ip ''<IP>'' EE_GSM_IP bpoint len s;
     s \<leftarrow> save_int ''<PORT>'' EE_GSM_PORT bpoint len s;
     s \<leftarrow> save_str ''<UNAME>'' EE_GSM_UNAME bpoint len s;
     s \<leftarrow> save_str ''<PASS>'' EE_GSM_PASS bpoint len s;
     s \<leftarrow> save_str ''<GSM1>'' EE_GSM1_NUM bpoint len s;
     s \<leftarrow> save_str ''<GSM2>'' EE_GSM2_NUM bpoint len s;
     s \<leftarrow> save_str ''<GSM3>'' EE_GSM3_NUM bpoint len s;
     s \<leftarrow> save_str ''<GSM4>'' EE_GSM4_NUM bpoint len s;
     s \<leftarrow> save_str ''<GSM5>'' EE_GSM5_NUM bpoint len s;
     s \<leftarrow> save_str ''<NAME1>'' EE_GSM1_NAME bpoint len s;
     s \<leftarrow> save_str ''<NAME2>'' EE_GSM2_NAME bpoint len s;
     s \<leftarrow> save_str ''<NAME3>'' EE_GSM3_NAME bpoint len s;
     s \<leftarrow> save_str ''<NAME4>'' EE_GSM4_NAME bpoint len s;
     save_str ''<NAME5>'' EE_GSM5_NAME bpoint len s }"

text \<open>The number of a WhatsApp receiver is copied as it is, without the filter of names.\<close>

definition save_number :: "string \<Rightarrow> nat \<Rightarrow> bytes \<Rightarrow> u16 \<Rightarrow> sys \<Rightarrow> sys option" where
  "save_number tag a msg len s = do {
     (varlen, s) \<leftarrow> parse_at tag msg len s;
     (if varlen \<noteq> 0 then do {
        v \<leftarrow> c_str (tb s);
        s \<leftarrow> (if v \<noteq> [] then store Pb 0 (v @ [0]) s else Some s);
        EE_write_pb a s }
      else Some s) }"

definition SaveWApp :: "bytes \<Rightarrow> u16 \<Rightarrow> sys \<Rightarrow> sys option" where
  "SaveWApp bpoint len s = do {
     s \<leftarrow> save_number ''<NUMBER1>'' EE_WAPP1_NUM bpoint len s;
     s \<leftarrow> save_str ''<KEY1>'' EE_WAPP1_KEY bpoint len s;
     s \<leftarrow> save_str ''<NAME1>'' EE_WAPP1_NAME bpoint len s;
     s \<leftarrow> save_number ''<NUMBER2>'' EE_WAPP2_NUM bpoint len s;
     s \<leftarrow> save_str ''<KEY2>'' EE_WAPP2_KEY bpoint len s;
     s \<leftarrow> save_str ''<NAME2>'' EE_WAPP2_NAME bpoint len s;
     s \<leftarrow> save_number ''<NUMBER3>'' EE_WAPP3_NUM bpoint len s;
     s \<leftarrow> save_str ''<KEY3>'' EE_WAPP3_KEY bpoint len s;
     s \<leftarrow> save_str ''<NAME3>'' EE_WAPP3_NAME bpoint len s;
     s \<leftarrow> save_number ''<NUMBER4>'' EE_WAPP4_NUM bpoint len s;
     s \<leftarrow> save_str ''<KEY4>'' EE_WAPP4_KEY bpoint len s;
     s \<leftarrow> save_str ''<NAME4>'' EE_WAPP4_NAME bpoint len s;
     s \<leftarrow> save_number ''<NUMBER5>'' EE_WAPP5_NUM bpoint len s;
     s \<leftarrow> save_str ''<KEY5>'' EE_WAPP5_KEY bpoint len s;
     save_str ''<NAME5>'' EE_WAPP5_NAME bpoint len s }"

text \<open>\<open>IntToFile\<close> into \<open>tb\<close> itself; its result is not looked at.\<close>

definition time_tag :: "string \<Rightarrow> bytes \<Rightarrow> u16 \<Rightarrow> (bytes \<Rightarrow> sys \<Rightarrow> sys) \<Rightarrow> sys \<Rightarrow> sys option" where
  "time_tag tag msg len upd s = do {
     (varlen, s) \<leftarrow> parse_at tag msg len s;
     (if varlen \<noteq> 0 then do {
        (ok, s) \<leftarrow> IntToFile Tb varlen s;
        Some (upd (tb s) s) }
      else Some s) }"

definition store_time :: "sys \<Rightarrow> sys" where
  "store_time s = s\<lparr>rtc := setTime (sat s) (minuta s) (sekunda s) (rtc s)\<rparr>"

definition store_date :: "sys \<Rightarrow> sys" where
  "store_date s = s\<lparr>rtc := setDate (godina s) (mjesec s) (datum s) (dan s) (rtc s)\<rparr>"

definition SaveTime :: "bytes \<Rightarrow> u16 \<Rightarrow> sys \<Rightarrow> sys option" where
  "SaveTime bpoint len s = do {
     s \<leftarrow> time_tag ''<HOUR>'' bpoint len (\<lambda>t s. s\<lparr>sat := t ! 1\<rparr>) s;
     s \<leftarrow> time_tag ''<MIN>'' bpoint len (\<lambda>t s. s\<lparr>minuta := t ! 1\<rparr>) s;
     s \<leftarrow> time_tag ''<SEC>'' bpoint len (\<lambda>t s. s\<lparr>sekunda := t ! 1\<rparr>) s;
     let s = store_time s;
     s \<leftarrow> time_tag ''<DATE>'' bpoint len (\<lambda>t s. s\<lparr>datum := t ! 1\<rparr>) s;
     s \<leftarrow> time_tag ''<DAY>'' bpoint len (\<lambda>t s. s\<lparr>dan := t ! 1\<rparr>) s;
     s \<leftarrow> time_tag ''<YEAR>'' bpoint len
           (\<lambda>t s. s\<lparr>godina := of_int (int (unat (t ! 0)) * 256 + int (unat (t ! 1)) - 2000)\<rparr>) s;
     s \<leftarrow> time_tag ''<MONTH>'' bpoint len (\<lambda>t s. s\<lparr>mjesec := t ! 1\<rparr>) s;
     Some (store_date s) }"

text \<open>
  \<open>DelFile0\<close> parses into the local \<open>tname[32]\<close> (\<open>stk\<close> is what it holds) and copies the name to
  \<open>file_name[32]\<close>; \<open>lfs_remove\<close> belongs to the file system library and is a parameter. The
  result is \<open>None\<close> where the C function ends without a \<open>return\<close>.
\<close>

definition DelFile0 ::
    "(bytes \<Rightarrow> dirent list \<Rightarrow> int \<times> dirent list) \<Rightarrow> bytes \<Rightarrow> bytes \<Rightarrow> u16 \<Rightarrow> sys \<Rightarrow> (byte option \<times> sys) option" where
  "DelFile0 lfs_remove stk bpoint len s = do {
     (varlen, tname) \<leftarrow> XMLParser (str ''<FNAME>'') bpoint len stk;
     (if varlen \<noteq> 0 then do {
        name \<leftarrow> c_str tname;
        let (retn, fs) = lfs_remove name (files s);
        Some (Some (if retn < 0 then 0 else 1), s\<lparr>files := fs\<rparr>) }
      else Some (None, s)) }"

text \<open>
  \<open>Sensor\<close>, in four parts as it goes through its tags: name and serial number, the limits and
  the delay, the switches of the measurement, and the message switches.
\<close>

definition sensor_name :: "nat \<Rightarrow> bytes \<Rightarrow> u16 \<Rightarrow> sys \<Rightarrow> sys option" where
  "sensor_name snum bpoint len s = do {
     let ee_block = 0x100 * (snum + 1);
     (varlen, s) \<leftarrow> parse_at ''<NAME>'' bpoint len s;
     s \<leftarrow> (if varlen \<noteq> 0 then map_option snd (StringToFile RBuf varlen s) else Some s);
     s \<leftarrow> EE_write_rBuf (ee_block + EE_SENSOR_NAME) s;
     (varlen, s) \<leftarrow> parse_at ''<SERIALNUM>'' bpoint len s;
     (if varlen \<noteq> 0 then do {
        (code, s) \<leftarrow> DS18B20CodeToArray varlen s;
        code \<leftarrow> poke 0 code (CODE (senzor s ! snum));
        Some (EE_write (ee_block + EE_SENSOR_CODE) code (upd_sensor snum (CODE_update (\<lambda>_. code)) s)) }
      else Some s) }"

text \<open>A limit: \<open>senzor[snum].X = getTemp(varlen); EEwrite_8(addr, senzor[snum].X);\<close>.\<close>

definition temp_tag ::
    "string \<Rightarrow> nat \<Rightarrow> nat \<Rightarrow> (byte \<Rightarrow> sensor \<Rightarrow> sensor) \<Rightarrow> bytes \<Rightarrow> u16 \<Rightarrow> sys \<Rightarrow> sys option" where
  "temp_tag tag a snum f msg len s = do {
     (varlen, s) \<leftarrow> parse_at tag msg len s;
     (if varlen \<noteq> 0 then do {
        (v, s) \<leftarrow> getTemp varlen s;
        Some (EE_write a [v] (upd_sensor snum (f v) s)) }
      else Some s) }"

definition sensor_limits :: "(bytes \<Rightarrow> u32) \<Rightarrow> nat \<Rightarrow> bytes \<Rightarrow> u16 \<Rightarrow> sys \<Rightarrow> sys option" where
  "sensor_limits atof snum bpoint len s = do {
     let ee_block = 0x100 * (snum + 1);
     s \<leftarrow> temp_tag ''<LOWLIMIT>'' (ee_block + EE_LOW_ALARM) snum (\<lambda>v. LOWLIMIT_update (\<lambda>_. v)) bpoint len s;
     s \<leftarrow> temp_tag ''<HIGHLIMIT>'' (ee_block + EE_HIGH_ALARM) snum (\<lambda>v. HIGHLIMIT_update (\<lambda>_. v)) bpoint len s;
     s \<leftarrow> temp_tag ''<HIST>'' (ee_block + EE_HIST) snum (\<lambda>v. HIS_update (\<lambda>_. v)) bpoint len s;
     (varlen, s) \<leftarrow> parse_at ''<DELAY>'' bpoint len s;
     s \<leftarrow> (if varlen \<noteq> 0 then do {
             (ok, s) \<leftarrow> IntToFile Pb varlen s;
             Some (if ok then
                     (let v = be16 (pb s ! 0) (pb s ! 1)
                      in EE_write (ee_block + EE_DELAY) (split16 v) (upd_sensor snum (DELAY_update (\<lambda>_. v)) s))
                   else s) }
           else Some s);
     (varlen, s) \<leftarrow> parse_tb ''<KALIB>'' bpoint len s;
     (if varlen \<noteq> 0 then do {
        v \<leftarrow> c_str (tb s);
        let tKalib = atof v;
        Some (EE_write (ee_block + EE_CALIB) (split32 tKalib)
                (upd_sensor snum (kalibracija_update (\<lambda>_. tKalib)) s)) }
      else Some s) }"

definition sensor_switches :: "nat \<Rightarrow> bytes \<Rightarrow> u16 \<Rightarrow> sys \<Rightarrow> sys option" where
  "sensor_switches snum bpoint len s = do {
     let ee_block = 0x100 * (snum + 1);
     (varlen, s) \<leftarrow> parse_tb ''<ENABLE>'' bpoint len s;
     s \<leftarrow> (if varlen \<noteq> 0 then do {
             on \<leftarrow> tb_is ''ON'' s;
             let v = (if on then 1 else 0);
             Some (EE_write (ee_block + EE_SENSOR_ACTIVE) [v] (upd_sensor snum (ENBLE_update (\<lambda>_. v)) s)) }
           else Some s);
     (varlen, s) \<leftarrow> parse_tb ''<MTYPE>'' bpoint len s;
     (if varlen \<noteq> 0 then do {
        mkt \<leftarrow> tb_is ''MKT'' s;
        Some (EE_write (ee_block + EE_MEASURE_TYPE) [if mkt then 1 else 0] s) }
      else Some s) }"

definition sensor_messages :: "bytes \<Rightarrow> nat \<Rightarrow> bytes \<Rightarrow> u16 \<Rightarrow> sys \<Rightarrow> sys option" where
  "sensor_messages loc snum bpoint len s = do {
     let ee_block = 0x100 * (snum + 1);
     (wapp1, s) \<leftarrow> flag_tag ''<WAPP1>'' bpoint len (loc ! 0) s;
     (wapp2, s) \<leftarrow> flag_tag ''<WAPP2>'' bpoint len (loc ! 1) s;
     (wapp3, s) \<leftarrow> flag_tag ''<WAPP3>'' bpoint len (loc ! 2) s;
     (wapp4, s) \<leftarrow> flag_tag ''<WAPP4>'' bpoint len (loc ! 3) s;
     (wapp5, s) \<leftarrow> flag_tag ''<WAPP5>'' bpoint len (loc ! 4) s;
     s \<leftarrow> temp_tag ''<KANAL>'' (ee_block + EE_CHANNEL) snum (\<lambda>v. KANAL_update (\<lambda>_. v)) bpoint len s;
     (sms1, s) \<leftarrow> flag_tag ''<SMS1>'' bpoint len (loc ! 5) s;
     (sms2, s) \<leftarrow> flag_tag ''<SMS2>'' bpoint len (loc ! 6) s;
     (sms3, s) \<leftarrow> flag_tag ''<SMS3>'' bpoint len (loc ! 7) s;
     (sms4, s) \<leftarrow> flag_tag ''<SMS4>'' bpoint len (loc ! 8) s;
     (sms5, s) \<leftarrow> flag_tag ''<SMS5>'' bpoint len (loc ! 9) s;
     s \<leftarrow> store RBuf 0 [wapp1, wapp2, wapp3, wapp4, wapp5] s;
     let s = EE_write (ee_block + EE_WAPP1_ON) (take 5 (rBuf s)) s;
     s \<leftarrow> store RBuf 0 [sms1, sms2, sms3, sms4, sms5] s;
     Some (EE_write (ee_block + EE_SMS1) (take 5 (rBuf s)) s) }"

definition Sensor :: "(bytes \<Rightarrow> u32) \<Rightarrow> bytes \<Rightarrow> nat \<Rightarrow> bytes \<Rightarrow> u16 \<Rightarrow> sys \<Rightarrow> sys option" where
  "Sensor atof loc snum bpoint len s = do {
     s \<leftarrow> sensor_name snum bpoint len s;
     s \<leftarrow> sensor_limits atof snum bpoint len s;
     s \<leftarrow> sensor_switches snum bpoint len s;
     sensor_messages loc snum bpoint len s }"

text \<open>
  \<open>send_infobip\<close> of \<open>infobip.c\<close> and the test requests. \<open>stk\<close> is what \<open>tname[64]\<close> holds.
\<close>

definition send_infobip :: "bool \<Rightarrow> bool \<Rightarrow> bool \<Rightarrow> bool \<Rightarrow> bool \<Rightarrow> sys \<Rightarrow> sys" where
  "send_infobip sms1 sms2 sms3 sms4 sms5 s =
     (let en = replicate 5 0;
          en = (if sms1 then en[0 := 1] else en);
          en = (if sms2 then en[1 := 1] else en);
          en = (if sms3 then en[2 := 1] else en);
          en = (if sms4 then en[3 := 1] else en);
          en = (if sms5 then en[4 := 1] else en);
          en = en[4 := 1]
      in s\<lparr>sms := (sms s)\<lparr>gsm_enable := en\<rparr>, wcl_active := True\<rparr>)"

definition set_poruka :: "string \<Rightarrow> sys \<Rightarrow> sys option" where
  "set_poruka t s = do { b \<leftarrow> poke 0 (str t @ [0]) (infobip_poruka s); Some (s\<lparr>infobip_poruka := b\<rparr>) }"

definition clear_infobip :: "sys \<Rightarrow> sys" where
  "clear_infobip s = s\<lparr>infobip_credit := (infobip_credit s)[0 := 0], infobip_status := (infobip_status s)[0 := 0]\<rparr>"

definition TestSms :: "bytes \<Rightarrow> bytes \<Rightarrow> u16 \<Rightarrow> sys \<Rightarrow> sys option" where
  "TestSms stk bpoint len s = do {
     let s = clear_infobip s;
     (varlen, tname) \<leftarrow> XMLParser (str ''<TSMS>'') bpoint len stk;
     (if varlen \<noteq> 0 then do {
        t \<leftarrow> c_str tname;
        (if t = str ''sms1'' then
           map_option (send_infobip True False False False False) (set_poruka ''SMS1 test poruka'' s)
         else if t = str ''sms2'' then
           map_option (send_infobip False True False False False) (set_poruka ''SMS2 test poruka'' s)
         else if t = str ''sms3'' then
           map_option (send_infobip False False True False False) (set_poruka ''SMS3 test poruka'' s)
         else if t = str ''sms4'' then
           map_option (send_infobip False False False True False) (set_poruka ''SMS4 test poruka'' s)
         else if t = str ''sms5'' then
           map_option (send_infobip False False False False True) (set_poruka ''SMS5 test poruka'' s)
         else Some s) }
      else Some s) }"

definition test_wapp :: "string \<Rightarrow> nat \<Rightarrow> sys \<Rightarrow> sys option" where
  "test_wapp t i s = do {
     b \<leftarrow> poke 0 (str t @ [0]) (Msg (wapp s));
     Some (s\<lparr>wAppflag := 1, wapp := (wapp s)\<lparr>Msg := b, wenable := (wenable (wapp s))[i := 1]\<rparr>\<rparr>) }"

definition TestWApp :: "bytes \<Rightarrow> bytes \<Rightarrow> u16 \<Rightarrow> sys \<Rightarrow> sys option" where
  "TestWApp stk bpoint len s = do {
     let s = clear_infobip s;
     (varlen, tname) \<leftarrow> XMLParser (str ''<TWAPP>'') bpoint len stk;
     (if varlen \<noteq> 0 then do {
        t \<leftarrow> c_str tname;
        (if t = str ''wapp1'' then test_wapp ''WAPP1 test poruka'' 0 s
         else if t = str ''wapp2'' then test_wapp ''WAPP2 test poruka'' 1 s
         else if t = str ''wapp3'' then test_wapp ''WAPP3 test poruka'' 2 s
         else if t = str ''wapp4'' then test_wapp ''WAPP4 test poruka'' 3 s
         else if t = str ''wapp5'' then test_wapp ''WAPP5 test poruka'' 4 s
         else Some s) }
      else Some s) }"

text \<open>A 16 bit setting that is stored with \<open>EEwrite_16\<close> and kept in \<open>scansetup\<close>.\<close>

definition sample_tag :: "string \<Rightarrow> nat \<Rightarrow> bytes \<Rightarrow> u16 \<Rightarrow> sys \<Rightarrow> sys option" where
  "sample_tag tag a msg len s = do {
     (varlen, s) \<leftarrow> parse_at tag msg len s;
     (if varlen \<noteq> 0 then do {
        (ok, s) \<leftarrow> IntToFile Pb varlen s;
        Some (if ok then (let v = be16 (pb s ! 0) (pb s ! 1)
                          in EE_write a (split16 v) (s\<lparr>scansetup := v\<rparr>))
              else s) }
      else Some s) }"

definition SaveSample :: "bytes \<Rightarrow> u16 \<Rightarrow> sys \<Rightarrow> sys option" where
  "SaveSample bpoint len s = do {
     (varlen, s) \<leftarrow> parse_tb ''<CHECK>'' bpoint len s;
     s \<leftarrow> (if varlen \<noteq> 0 then do {
             on \<leftarrow> tb_is ''ON'' s;
             Some (EE_write EE_STATUS_SEND [if on then 1 else 0] s) }
           else Some s);
     s \<leftarrow> sample_tag ''<REPORT>'' EE_STATUS_TIME bpoint len s;
     sample_tag ''<LOGTIME>'' EE_SCAN_TIME bpoint len s }"

definition pass_tag :: "string \<Rightarrow> nat \<Rightarrow> bytes \<Rightarrow> u16 \<Rightarrow> sys \<Rightarrow> sys option" where
  "pass_tag tag a msg len s = do {
     (varlen, s) \<leftarrow> parse_at tag msg len s;
     (if varlen \<noteq> 0 then do {
        (n, b) \<leftarrow> Base64Decode (tb s) (unat varlen) (pb s) 30;
        EE_write_pb a (s\<lparr>pb := b\<rparr>) }
      else Some s) }"

definition Pass :: "bytes \<Rightarrow> u16 \<Rightarrow> sys \<Rightarrow> sys option" where
  "Pass bpoint len s = do {
     s \<leftarrow> pass_tag ''<PASS>'' EE_PASS bpoint len s;
     pass_tag ''<UNAME>'' EE_USERNAME bpoint len s }"

text \<open>\<open>SaveBack\<close> stores 32 bit words at the byte offsets 5 to 9 of the backup SRAM.\<close>

definition SaveBack :: "bytes \<Rightarrow> u16 \<Rightarrow> sys \<Rightarrow> sys option" where
  "SaveBack bpoint len s = do {
     (varlen, s) \<leftarrow> parse_tb ''<ONOFF>'' bpoint len s;
     s \<leftarrow> (if varlen \<noteq> 0 then do {
             on \<leftarrow> tb_is ''ON'' s;
             store RBuf 8 [if on then 1 else 0] s }
           else Some s);
     (varlen, s) \<leftarrow> parse_at ''<IP>'' bpoint len s;
     s \<leftarrow> (if varlen \<noteq> 0 then do {
             (ok, s) \<leftarrow> IPtoFile Pb varlen s;
             (if ok then store RBuf 0 (take 4 (pb s)) s else Some s) }
           else Some s);
     (varlen, s) \<leftarrow> parse_at ''<PORT>'' bpoint len s;
     s \<leftarrow> (if varlen \<noteq> 0 then do {
             (ok, s) \<leftarrow> IntToFile Pb varlen s;
             (if ok then store RBuf 4 (take 2 (pb s)) s else Some s) }
           else Some s);
     (varlen, s) \<leftarrow> parse_at ''<BACKTIME>'' bpoint len s;
     s \<leftarrow> (if varlen \<noteq> 0 then do {
             (ok, s) \<leftarrow> IntToFile Pb varlen s;
             s \<leftarrow> (if ok then store RBuf 6 (take 2 (pb s)) s else Some s);
             let m = NVRAM_Write32 5 (ucast (rBuf s ! 6)) (nv s);
             Some (s\<lparr>nv := NVRAM_Write32 6 (ucast (rBuf s ! 7)) m\<rparr>) }
           else Some s);
     let m = NVRAM_Write32 7 (ucast (rBuf s ! 8)) (nv s);
     let m = NVRAM_Write32 8 (ucast (rBuf s ! 9)) m;
     Some (s\<lparr>nv := NVRAM_Write32 9 (ucast (rBuf s ! 10)) m\<rparr>) }"

definition TestBack :: "bytes \<Rightarrow> bytes \<Rightarrow> u16 \<Rightarrow> sys \<Rightarrow> sys option" where
  "TestBack stk bpoint len s = do {
     (varlen, tname) \<leftarrow> XMLParser (str ''<TEST>'') bpoint len stk;
     Some (if varlen \<noteq> 0 then s\<lparr>backup_scan_flag := True\<rparr> else s) }"

definition TestSNTP :: "bytes \<Rightarrow> bytes \<Rightarrow> u16 \<Rightarrow> sys \<Rightarrow> sys option" where
  "TestSNTP stk bpoint len s = do {
     (varlen, tname) \<leftarrow> XMLParser (str ''<SNTP>'') bpoint len stk;
     Some (if varlen \<noteq> 0 then s\<lparr>sntp_scan_flag := True\<rparr> else s) }"

definition SaveSNTP :: "bytes \<Rightarrow> u16 \<Rightarrow> sys \<Rightarrow> sys option" where
  "SaveSNTP bpoint len s = do {
     s \<leftarrow> save_str ''<SNTP1>'' EE_SNTP1 bpoint len s;
     s \<leftarrow> save_str ''<SNTP2>'' EE_SNTP2 bpoint len s;
     (varlen, s) \<leftarrow> parse_tb ''<ZONA>'' bpoint len s;
     s \<leftarrow> (if varlen \<noteq> 0 then do {
             v \<leftarrow> c_str (tb s);
             Some (EE_write EE_TIME_ZONE [of_int (atoi v)] s) }
           else Some s);
     (varlen, s) \<leftarrow> parse_tb ''<SENAB>'' bpoint len s;
     s \<leftarrow> (if varlen \<noteq> 0 then do {
             on \<leftarrow> tb_is ''ON'' s;
             let v = (if on then 1 else 0);
             Some ((EE_write EE_SNTP_STATE [v] s)\<lparr>sntp := (sntp s)\<lparr>sntpon := v\<rparr>\<rparr>) }
           else Some s);
     (varlen, s) \<leftarrow> parse_tb ''<DST>'' bpoint len s;
     (if varlen \<noteq> 0 then do {
        on \<leftarrow> tb_is ''ON'' s;
        let v = (if on then 1 else 0);
        Some ((EE_write EE_DST_STATE [v] s)\<lparr>sntp := (sntp s)\<lparr>dston := v\<rparr>\<rparr>) }
      else Some s) }"

text \<open>\<open>SaveInput\<close>, in three parts: names and types, message switches, delays.\<close>

definition input_switch ::
    "string \<Rightarrow> string \<Rightarrow> byte \<Rightarrow> byte \<Rightarrow> nat \<Rightarrow> (byte \<Rightarrow> digitalinput \<Rightarrow> digitalinput) \<Rightarrow> nat
     \<Rightarrow> bytes \<Rightarrow> u16 \<Rightarrow> sys \<Rightarrow> sys option" where
  "input_switch tag yes v1 v2 a f i msg len s = do {
     (varlen, s) \<leftarrow> parse_tb tag msg len s;
     (if varlen \<noteq> 0 then do {
        on \<leftarrow> tb_is yes s;
        let v = (if on then v1 else v2);
        Some (upd_input i (f v) (EE_write a [v] s)) }
      else Some s) }"

definition input_setup :: "bytes \<Rightarrow> u16 \<Rightarrow> sys \<Rightarrow> sys option" where
  "input_setup bpoint len s = do {
     s \<leftarrow> save_str ''<NAME1>'' EE_INPUT_NAME1 bpoint len s;
     s \<leftarrow> save_str ''<NAME2>'' EE_INPUT_NAME2 bpoint len s;
     s \<leftarrow> save_str ''<NAME3>'' EE_INPUT_NAME3 bpoint len s;
     s \<leftarrow> input_switch ''<ALARM1>'' ''ON'' 1 0 EE_INPUT_ALARM1 (\<lambda>v. d_enable_update (\<lambda>_. v)) 0 bpoint len s;
     s \<leftarrow> input_switch ''<ALARM2>'' ''ON'' 1 0 EE_INPUT_ALARM2 (\<lambda>v. d_enable_update (\<lambda>_. v)) 1 bpoint len s;
     s \<leftarrow> input_switch ''<ALARM3>'' ''ON'' 1 0 EE_INPUT_ALARM3 (\<lambda>v. d_enable_update (\<lambda>_. v)) 2 bpoint len s;
     s \<leftarrow> input_switch ''<TIP1>'' ''NC'' 1 2 EE_INPUT_TIP1 (\<lambda>v. d_type_update (\<lambda>_. v)) 0 bpoint len s;
     s \<leftarrow> input_switch ''<TIP2>'' ''NC'' 1 2 EE_INPUT_TIP2 (\<lambda>v. d_type_update (\<lambda>_. v)) 1 bpoint len s;
     input_switch ''<TIP3>'' ''NC'' 1 2 EE_INPUT_TIP3 (\<lambda>v. d_type_update (\<lambda>_. v)) 2 bpoint len s }"

definition input_messages :: "bytes \<Rightarrow> bytes \<Rightarrow> u16 \<Rightarrow> sys \<Rightarrow> sys option" where
  "input_messages loc bpoint len s = do {
     (wapp1, s) \<leftarrow> flag_tag ''<WAPP1>'' bpoint len (loc ! 0) s;
     (wapp2, s) \<leftarrow> flag_tag ''<WAPP2>'' bpoint len (loc ! 1) s;
     (wapp3, s) \<leftarrow> flag_tag ''<WAPP3>'' bpoint len (loc ! 2) s;
     (wapp4, s) \<leftarrow> flag_tag ''<WAPP4>'' bpoint len (loc ! 3) s;
     (wapp5, s) \<leftarrow> flag_tag ''<WAPP5>'' bpoint len (loc ! 4) s;
     (sms1, s) \<leftarrow> flag_tag ''<SMS1>'' bpoint len (loc ! 5) s;
     (sms2, s) \<leftarrow> flag_tag ''<SMS2>'' bpoint len (loc ! 6) s;
     (sms3, s) \<leftarrow> flag_tag ''<SMS3>'' bpoint len (loc ! 7) s;
     (sms4, s) \<leftarrow> flag_tag ''<SMS4>'' bpoint len (loc ! 8) s;
     (sms5, s) \<leftarrow> flag_tag ''<SMS5>'' bpoint len (loc ! 9) s;
     s \<leftarrow> store RBuf 0 [wapp1, wapp2, wapp3, wapp4, wapp5] s;
     let s = EE_write EE_INPUT_WAPP1 (take 5 (rBuf s)) s;
     s \<leftarrow> store RBuf 0 [sms1, sms2, sms3, sms4, sms5] s;
     Some (EE_write EE_INPUT_SMS1 (take 5 (rBuf s)) s) }"

definition input_delay_tag :: "string \<Rightarrow> nat \<Rightarrow> nat \<Rightarrow> bytes \<Rightarrow> u16 \<Rightarrow> sys \<Rightarrow> sys option" where
  "input_delay_tag tag a i msg len s = do {
     (varlen, s) \<leftarrow> parse_at tag msg len s;
     (if varlen \<noteq> 0 then do {
        (ok, s) \<leftarrow> IntToFile Pb varlen s;
        Some (if ok then (let v = be16 (pb s ! 0) (pb s ! 1)
                          in upd_input i (d_DELAY_update (\<lambda>_. v)) (EE_write a (split16 v) s))
              else s) }
      else Some s) }"

text \<open>The third delay goes to \<open>dinput[1]\<close>, as in the source.\<close>

definition SaveInput :: "bytes \<Rightarrow> bytes \<Rightarrow> u16 \<Rightarrow> sys \<Rightarrow> sys option" where
  "SaveInput loc bpoint len s = do {
     s \<leftarrow> input_setup bpoint len s;
     s \<leftarrow> input_messages loc bpoint len s;
     s \<leftarrow> input_delay_tag ''<DELAY1>'' EE_INPUT_DELAY1 0 bpoint len s;
     s \<leftarrow> input_delay_tag ''<DELAY2>'' EE_INPUT_DELAY2 1 bpoint len s;
     input_delay_tag ''<DELAY3>'' EE_INPUT_DELAY3 1 bpoint len s }"

text \<open>\<open>SaveMQTT\<close> writes a string field also when its tag is empty.\<close>

definition mqtt_str :: "string \<Rightarrow> nat \<Rightarrow> bytes \<Rightarrow> u16 \<Rightarrow> sys \<Rightarrow> sys option" where
  "mqtt_str tag a msg len s = do {
     (varlen, s) \<leftarrow> parse_at tag msg len s;
     s \<leftarrow> (if varlen \<noteq> 0 then map_option snd (StringToFile RBuf varlen s) else Some s);
     EE_write_rBuf a s }"

definition mqtt_num :: "string \<Rightarrow> nat \<Rightarrow> bytes \<Rightarrow> u16 \<Rightarrow> sys \<Rightarrow> sys option" where
  "mqtt_num tag a msg len s = do {
     (varlen, s) \<leftarrow> parse_at tag msg len s;
     (if varlen \<noteq> 0 then do {
        (v, s) \<leftarrow> getTemp varlen s;
        Some (EE_write a [v] s) }
      else Some s) }"

definition SaveMQTT :: "bytes \<Rightarrow> u16 \<Rightarrow> sys \<Rightarrow> sys option" where
  "SaveMQTT bpoint len s = do {
     (varlen, s) \<leftarrow> parse_tb ''<ENABLE>'' bpoint len s;
     s \<leftarrow> (if varlen \<noteq> 0 then do {
             on \<leftarrow> tb_is ''ON'' s;
             Some (EE_write EE_MQTT_ENABLE [if on then 1 else 0] s) }
           else Some s);
     s \<leftarrow> mqtt_str ''<SERVER>'' EE_MQTT_SERVER bpoint len s;
     s \<leftarrow> save_int ''<PORT>'' EE_MQTT_PORT bpoint len s;
     s \<leftarrow> mqtt_str ''<USERNAME>'' EE_MQTT_UNAME bpoint len s;
     s \<leftarrow> mqtt_str ''<PASS>'' EE_MQTT_PASS bpoint len s;
     s \<leftarrow> mqtt_str ''<TOPIC>'' EE_MQTT_TOPIC bpoint len s;
     s \<leftarrow> mqtt_num ''<KEEPALIVE>'' EE_MQTT_KEEPALIVE bpoint len s;
     s \<leftarrow> mqtt_num ''<QOS>'' EE_MQTT_QOS bpoint len s;
     mqtt_num ''<PERIOD>'' EE_MQTT_PERIOD bpoint len s }"

subsection \<open>What \<open>XMLParser\<close> finds\<close>

text \<open>The specification: the text behind the first occurrence of the tag, up to the next \<open><\<close>.\<close>

definition tag_value :: "string \<Rightarrow> bytes \<Rightarrow> u16 \<Rightarrow> bytes option" where
  "tag_value tag msg len =
     (case find_from (str tag) (take (unat len) msg) 0 of
        None \<Rightarrow> None
      | Some p \<Rightarrow> until_lt (drop (p + length tag) msg))"

text \<open>A request as the HTTP server hands it over, and a tag the search accepts.\<close>

definition msg_ok :: "bytes \<Rightarrow> u16 \<Rightarrow> bool" where
  "msg_ok msg len \<longleftrightarrow> unat len \<le> length msg \<and> unat len < 2 ^ 15"

lemma until_lt_app: "asc CHR ''<'' \<notin> set v \<Longrightarrow> until_lt (v @ asc CHR ''<'' # r) = Some v"
  by (induction v) auto

lemma XMLParser_found:
  assumes "tag_value tag msg len = Some v" and "msg_ok msg len"
    and "tag \<noteq> ''''" and "length tag \<le> 30" and "length v < length dest"
  shows "XMLParser (str tag) msg len dest = Some (of_nat (length v), v @ 0 # drop (length v + 1) dest)"
proof -
  from assms(1) obtain p where p: "find_from (str tag) (take (unat len) msg) 0 = Some p"
    and v: "until_lt (drop (p + length tag) msg) = Some v"
    by (auto simp: tag_value_def split: option.splits)
  from find_from_SomeD [OF p] assms(2) have "p < 2 ^ 15" by (simp add: msg_ok_def)
  then have s: "sint (of_nat p :: u16) = int p"
    by (subst signed_of_nat) (simp add: signed_take_bit_int_eq_self)
  then have "of_nat p \<noteq> (- 1 :: u16)" by auto
  moreover have "bufsearch msg len (str tag) = Some (of_nat p)"
    using bufsearch_found [of "str tag" len msg] assms p by (simp add: msg_ok_def found_def str_def)
  ultimately show ?thesis using s v assms(5) by (simp add: XMLParser_def)
qed

lemma XMLParser_missing:
  assumes "find_from (str tag) (take (unat len) msg) 0 = None" and "msg_ok msg len"
    and "tag \<noteq> ''''" and "length tag \<le> 30"
  shows "XMLParser (str tag) msg len dest = Some (- 1, dest)"
  using bufsearch_found [of "str tag" len msg] assms
  by (simp add: XMLParser_def msg_ok_def found_def str_def)

lemma parse_tb_found:
  assumes "tag_value tag msg len = Some v" and "msg_ok msg len"
    and "tag \<noteq> ''''" and "length tag \<le> 30" and "length v < length (tb s)"
  shows "parse_tb tag msg len s = Some (of_nat (length v), s\<lparr>tb := v @ 0 # drop (length v + 1) (tb s)\<rparr>)"
  using XMLParser_found [OF assms] by (simp add: parse_tb_def)

lemma parse_at_found:
  assumes "tag_value tag msg len = Some v" and "msg_ok msg len"
    and "tag \<noteq> ''''" and "length tag \<le> 30" and "length v < length (tb s)"
  shows "parse_at tag msg len s
       = Some (of_nat (length v), s\<lparr>tb := v @ 0 # drop (length v + 1) (tb s), iBuf := 0\<rparr>)"
  using parse_tb_found [OF assms] by (simp add: parse_at_def)

subsection \<open>What the conversions compute\<close>

lemma adv_0 [simp]: "adv 0 s = s"
  and adv_adv [simp]: "adv m (adv n s) = adv (n + m) s"
  and tb_adv [simp]: "tb (adv n s) = tb s"
  and pb_adv [simp]: "pb (adv n s) = pb s"
  and iBuf_adv [simp]: "iBuf (adv n s) = iBuf s + n"
  by (simp_all add: adv_def)

lemma cur_at: "tb s = pre @ c # post \<Longrightarrow> iBuf s = length pre \<Longrightarrow> cur s = Some c"
  by (simp add: cur_def peek_def)

lemma int_loop_run:
  "\<lbrakk>tb s = pre @ ds @ post; iBuf s = length pre; \<forall>d \<in> set ds. isdigit d; length acc + length ds \<le> 6\<rbrakk>
    \<Longrightarrow> int_loop (length pre + length ds) acc s = Some (Some (acc @ ds), adv (length ds) s)"
proof (induction ds arbitrary: pre acc s)
  case Nil
  then show ?case by (simp add: int_loop.simps)
next
  case (Cons d ds)
  then have "int_loop (length (pre @ [d]) + length ds) (acc @ [d]) (adv 1 s)
      = Some (Some ((acc @ [d]) @ ds), adv (length ds) (adv 1 s))"
    by (intro Cons.IH) auto
  with Cons.prems cur_at [of s pre d "ds @ post"] show ?case
    by (subst int_loop.simps) simp
qed

lemma ip_last_loop_run:
  "\<lbrakk>tb s = pre @ ds @ post; iBuf s = length pre; \<forall>d \<in> set ds. isdigit d; length acc + length ds \<le> 5\<rbrakk>
    \<Longrightarrow> ip_last_loop (length pre + length ds) acc s = Some (Some (acc @ ds), adv (length ds) s)"
proof (induction ds arbitrary: pre acc s)
  case Nil
  then show ?case by (simp add: ip_last_loop.simps)
next
  case (Cons d ds)
  then have "ip_last_loop (length (pre @ [d]) + length ds) (acc @ [d]) (adv 1 s)
      = Some (Some ((acc @ [d]) @ ds), adv (length ds) (adv 1 s))"
    by (intro Cons.IH) auto
  with Cons.prems cur_at [of s pre d "ds @ post"] show ?case
    by (subst ip_last_loop.simps) simp
qed

lemma dot_not_digit: "isdigit d \<Longrightarrow> d \<noteq> asc CHR ''.''"
  by (auto simp: isdigit_def asc_def word_le_nat_alt)

lemma octet_loop_run:
  "\<lbrakk>tb s = pre @ ds @ asc CHR ''.'' # post; iBuf s = length pre; \<forall>d \<in> set ds. isdigit d;
    length acc + length ds \<le> 5\<rbrakk>
    \<Longrightarrow> octet_loop acc s = Some (Some (acc @ ds), adv (length ds) s)"
proof (induction ds arbitrary: pre acc s)
  case Nil
  then show ?case using cur_at [of s pre "asc CHR ''.''" post] by (simp add: octet_loop.simps)
next
  case (Cons d ds)
  then have "octet_loop (acc @ [d]) (adv 1 s) = Some (Some ((acc @ [d]) @ ds), adv (length ds) (adv 1 s))"
    by (intro Cons.IH [where pre = "pre @ [d]"]) auto
  with Cons.prems cur_at [of s pre d "ds @ asc CHR ''.'' # post"] dot_not_digit [of d] show ?case
    by (subst octet_loop.simps) simp
qed

lemma atoi_dec': "n < 2 ^ 31 \<Longrightarrow> atoi (dec n) = int n"
  using atoi_dec [of n "[]"] by simp

lemma dec_isdigit: "\<forall>d \<in> set (dec n). isdigit d"
  by (auto dest: dec_digits)

lemma length_dec_le: "n < 10 ^ k \<Longrightarrow> 0 < k \<Longrightarrow> length (dec n) \<le> k"
  by (rule length_dec)

lemma octet_dec: "n < 256 \<Longrightarrow> octet (dec n) = Some (of_nat n)"
  using length_dec_le [of n 3] by (simp add: octet_def atoi_dec')

text \<open>One dotted number and the last one.\<close>

lemma ip_dotted_dec:
  assumes "tb s = pre @ dec n @ asc CHR ''.'' # post" and "iBuf s = length pre" and "n < 256"
    and "i < length (pb s)"
  shows "ip_dotted Pb i s
     = Some (True, s\<lparr>iBuf := length pre + length (dec n) + 1, pb := (pb s)[i := of_nat n]\<rparr>)"
proof -
  have "length (dec n) \<le> 5" using length_dec_le [of n 3] assms(3) by simp
  then have "octet_loop [] s = Some (Some (dec n), adv (length (dec n)) s)"
    using octet_loop_run [OF assms(1,2), of "[]"] dec_isdigit by simp
  moreover have "poke i [of_nat n] (pb s) = Some ((pb s)[i := of_nat n])"
    using assms(4) by (simp add: poke_def upd_conv_take_nth_drop)
  ultimately show ?thesis using assms(2,3)
    by (simp add: ip_dotted_def octet_dec store_def adv_def)
qed

definition ip_text :: "nat \<Rightarrow> nat \<Rightarrow> nat \<Rightarrow> nat \<Rightarrow> bytes" where
  "ip_text a b c d = dec a @ asc CHR ''.'' # dec b @ asc CHR ''.'' # dec c @ asc CHR ''.'' # dec d"

lemma length_ip_text:
  assumes "a < 256" "b < 256" "c < 256" "d < 256"
  shows "length (ip_text a b c d) \<le> 15"
  using assms length_dec_le [of a 3] length_dec_le [of b 3] length_dec_le [of c 3] length_dec_le [of d 3]
  by (simp add: ip_text_def)

lemma four_updates: "4 \<le> length xs \<Longrightarrow> xs[0 := a, Suc 0 := b, 2 := c, 3 := d] = a # b # c # d # drop 4 xs"
  by (cases xs; cases "tl xs"; cases "tl (tl xs)"; cases "tl (tl (tl xs))")
     (auto simp: numeral_2_eq_2 numeral_3_eq_3 drop_Cons')

lemma IPtoFile_text:
  assumes "a < 256" "b < 256" "c < 256" "d < 256"
    and "tb s = ip_text a b c d @ 0 # rest" and "iBuf s = 0" and "4 \<le> length (pb s)"
  shows "IPtoFile Pb (of_nat (length (ip_text a b c d))) s
     = Some (True, s\<lparr>iBuf := length (ip_text a b c d),
                     pb := [of_nat a, of_nat b, of_nat c, of_nat d] @ drop 4 (pb s)\<rparr>)"
proof -
  let ?dot = "asc CHR ''.''" and ?n = "length (ip_text a b c d)"
  let ?p1 = "dec a @ [?dot]" and ?p2 = "dec a @ ?dot # dec b @ [?dot]"
  let ?p3 = "dec a @ ?dot # dec b @ ?dot # dec c @ [?dot]"
  define s1 where "s1 = s\<lparr>iBuf := length ?p1, pb := (pb s)[0 := of_nat a]\<rparr>"
  define s2 where "s2 = s1\<lparr>iBuf := length ?p2, pb := (pb s1)[1 := of_nat b]\<rparr>"
  define s3 where "s3 = s2\<lparr>iBuf := length ?p3, pb := (pb s2)[2 := of_nat c]\<rparr>"
  have ne: "pb s \<noteq> []" using assms(7) by auto
  have t: "unat (of_nat ?n :: byte) = ?n"
    using length_ip_text [OF assms(1-4)] by (simp add: unat_of_nat)
  have 1: "ip_dotted Pb 0 s = Some (True, s1)"
    using ip_dotted_dec [of s "[]" a "dec b @ ?dot # dec c @ ?dot # dec d @ 0 # rest" 0] assms ne
    by (simp add: ip_text_def s1_def)
  have 2: "ip_dotted Pb 1 s1 = Some (True, s2)"
    using ip_dotted_dec [of s1 ?p1 b "dec c @ ?dot # dec d @ 0 # rest" 1] assms
    by (simp add: ip_text_def s1_def s2_def)
  have 3: "ip_dotted Pb 2 s2 = Some (True, s3)"
    using ip_dotted_dec [of s2 ?p2 c "dec d @ 0 # rest" 2] assms
    by (simp add: ip_text_def s1_def s2_def s3_def)
  have ld: "length (dec d) \<le> 3" using length_dec_le [of d 3] assms(4) by simp
  have "ip_last_loop (length ?p3 + length (dec d)) [] s3 = Some (Some ([] @ dec d), adv (length (dec d)) s3)"
    using assms ld dec_isdigit
    by (intro ip_last_loop_run [where post = "0 # rest"]) (simp_all add: ip_text_def s1_def s2_def s3_def)
  then have 4: "ip_last_loop ?n [] s3 = Some (Some (dec d), adv (length (dec d)) s3)"
    by (simp add: ip_text_def add.assoc)
  have 5: "store Pb 3 [of_nat d] (adv (length (dec d)) s3)
      = Some (s\<lparr>iBuf := ?n, pb := (pb s)[0 := of_nat a, Suc 0 := of_nat b, 2 := of_nat c, 3 := of_nat d]\<rparr>)"
    using assms(7) by (simp add: store_def poke_def s3_def s2_def s1_def adv_def ip_text_def upd_conv_take_nth_drop)
  show ?thesis
    using 1 2 3 4 5 t assms(4,6,7) by (simp add: IPtoFile_def Let_def octet_dec four_updates)
qed

text \<open>Decimal numbers below 65536.\<close>

lemma split16_of_nat: "n < 65536 \<Longrightarrow> split16 (of_nat n) = [of_nat (n div 256), of_nat (n mod 256)]"
proof -
  assume n: "n < 65536"
  have "unat (of_nat n :: u16) = n" using n by (simp add: unat_of_nat)
  moreover have "256 * unat (ucast (drop_bit 8 (of_nat n :: u16)) :: byte) + unat (ucast (of_nat n :: u16) :: byte)
      = unat (of_nat n :: u16)"
    by (rule addr_bytes)
  moreover have "unat (ucast (of_nat n :: u16) :: byte) < 256" by simp
  ultimately have A: "unat (ucast (drop_bit 8 (of_nat n :: u16)) :: byte) = n div 256"
    and B: "unat (ucast (of_nat n :: u16) :: byte) = n mod 256"
    by (metis add.commute div_mult_self4 div_less add_0 zero_neq_numeral,
        metis add.commute mod_mult_self2 mod_less)
  have "x = of_nat k" if "unat x = k" for x :: byte and k
    using that by auto
  from this [OF A] this [OF B] show ?thesis by (simp add: split16_def)
qed

lemma IntToFile_dec:
  assumes "n < 65536" and "tb s = dec n @ 0 # rest" and "iBuf s = 0" and "2 \<le> length (pb s)"
  shows "IntToFile Pb (of_nat (length (dec n))) s
     = Some (True, s\<lparr>iBuf := length (dec n), pb := split16 (of_nat n) @ drop 2 (pb s)\<rparr>)"
proof -
  have l: "length (dec n) \<le> 5" using length_dec_le [of n 5] assms(1) by simp
  then have "unat (of_nat (length (dec n)) :: byte) = length (dec n)" by (simp add: unat_of_nat)
  moreover have "int_loop (length (dec n)) [] s = Some (Some (dec n), adv (length (dec n)) s)"
    using int_loop_run [of s "[]" "dec n" "0 # rest" "[]"] assms l dec_isdigit by simp
  moreover have "(of_int (int n div 256) :: byte) = of_nat (n div 256)" "(of_int (int n mod 256) :: byte) = of_nat (n mod 256)"
    by (metis of_int_of_nat_eq of_nat_numeral zdiv_int, metis of_int_of_nat_eq of_nat_numeral zmod_int)
  ultimately show ?thesis using assms l
    by (simp add: IntToFile_def atoi_dec' store_def adv_def split16_of_nat numeral_2_eq_2 [symmetric])
qed

text \<open>A value of accepted characters stays in place in \<open>tb\<close> and is copied to the destination.\<close>

lemma poke_same: "tb' = pre @ c # post \<Longrightarrow> poke (length pre) [c] tb' = Some tb'"
  by (simp add: poke_def)

lemma set_tb_same: "tb s = pre @ c # post \<Longrightarrow> i = length pre \<Longrightarrow> set_tb i c s = Some s"
  using poke_same [of "tb s" pre c post] by (simp add: set_tb_def)

lemma set_tb_at: "tb s = pre @ x # post \<Longrightarrow> i = length pre \<Longrightarrow> set_tb i c s = Some (s\<lparr>tb := pre @ c # post\<rparr>)"
  by (simp add: set_tb_def poke_def)

lemma string_loop_run:
  "\<lbrakk>tb s = pre @ v @ post; iBuf s = length pre; \<forall>c \<in> set v. string_char c;
    length pre + length v < 256; n = length pre + length v\<rbrakk>
    \<Longrightarrow> string_loop n n (of_nat (length pre)) s = Some (Some (of_nat n), s\<lparr>iBuf := n\<rparr>)"
proof (induction v arbitrary: pre s)
  case Nil
  then show ?case by (simp add: string_loop.simps)
next
  case (Cons c v)
  let ?s1 = "s\<lparr>iBuf := iBuf s + 1\<rparr>"
  have u: "unat (of_nat (length pre) :: byte) = length pre"
    "unat (of_nat (length pre) + 1 :: byte) = length pre + 1"
  proof -
    show "unat (of_nat (length pre) :: byte) = length pre" using Cons.prems(4) by (simp add: unat_of_nat)
    have "(of_nat (length pre) + 1 :: byte) = of_nat (length pre + 1)" by simp
    then show "unat (of_nat (length pre) + 1 :: byte) = length pre + 1"
      using Cons.prems(4) by (simp add: unat_of_nat del: of_nat_add of_nat_Suc)
  qed
  have "string_loop n n (of_nat (length (pre @ [c]))) ?s1 = Some (Some (of_nat n), ?s1\<lparr>iBuf := n\<rparr>)"
    using Cons.prems by (intro Cons.IH) auto
  moreover have "cur s = Some c" using Cons.prems cur_at [of s pre c "v @ post"] by simp
  moreover have "set_tb (length pre) c s = Some s"
    using Cons.prems by (intro set_tb_same [of s pre c "v @ post"]) auto
  ultimately show ?case using Cons.prems u
    by (subst string_loop.simps) (simp add: ac_simps)
qed

lemma string_char_nz: "string_char c \<Longrightarrow> c \<noteq> 0"
  by (auto simp: string_char_def char_class_defs asc_def)

lemma StringToFile_plain:
  assumes "tb s = v @ 0 # rest" and "iBuf s = 0" and "\<forall>c \<in> set v. string_char c"
    and "length v < 256" and "store d 0 (v @ [0]) (s\<lparr>iBuf := length v + 1\<rparr>) = Some s'"
  shows "StringToFile d (of_nat (length v)) s = Some (of_nat (length v), s')"
proof -
  have u: "unat (of_nat (length v) :: byte) = length v" using assms(4) by (simp add: unat_of_nat)
  have "string_loop (length v) (length v) 0 s = Some (Some (of_nat (length v)), s\<lparr>iBuf := length v\<rparr>)"
    using string_loop_run [of s "[]" v "0 # rest" "length v"] assms by simp
  moreover have "set_tb (length v) 0 (s\<lparr>iBuf := length v\<rparr>) = Some (s\<lparr>iBuf := length v\<rparr>)"
    using assms(1) by (intro set_tb_same [where pre = v and post = rest]) auto
  moreover have "0 \<notin> set v" using assms(3) string_char_nz by blast
  then have "c_str (tb s) = Some v" using assms(1) by simp
  ultimately show ?thesis using assms(2,5) u by (simp add: StringToFile_def adv_def)
qed

text \<open>A signed number is read back modulo 256.\<close>

lemma temp_step:
  assumes "iBuf s < n" and "cur s = Some c" and "c \<noteq> asc CHR ''-''" and "isdigit c"
    and "set_tb (unat cnt) c s = Some s2"
  shows "temp_loop n cnt mf s = temp_loop n (cnt + 1) mf (s2\<lparr>iBuf := iBuf s + 1\<rparr>)"
  by (subst temp_loop.simps) (use assms in simp)

lemma temp_loop_plain:
  "\<lbrakk>tb s = pre @ ds @ post; iBuf s = length pre; \<forall>d \<in> set ds. isdigit d;
    length pre + length ds < 256; n = length pre + length ds\<rbrakk>
    \<Longrightarrow> temp_loop n (of_nat (length pre)) mf s = Some (Some (of_nat n, mf), s\<lparr>iBuf := n\<rparr>)"
proof (induction ds arbitrary: pre s)
  case Nil
  then show ?case by (simp add: temp_loop.simps)
next
  case (Cons c v)
  let ?s1 = "s\<lparr>iBuf := iBuf s + 1\<rparr>"
  have u: "unat (of_nat (length pre) :: byte) = length pre" using Cons.prems(4) by (simp add: unat_of_nat)
  have "temp_loop n (of_nat (length (pre @ [c]))) mf ?s1 = Some (Some (of_nat n, mf), ?s1\<lparr>iBuf := n\<rparr>)"
    using Cons.prems by (intro Cons.IH) auto
  moreover have "cur s = Some c" using Cons.prems cur_at [of s pre c "v @ post"] by simp
  moreover have "set_tb (length pre) c s = Some s"
    using Cons.prems by (intro set_tb_same [of s pre c "v @ post"]) auto
  moreover have "c \<noteq> asc CHR ''-''" and "isdigit c"
    using Cons.prems(3) digit_not_space [of c] by (auto simp: asc_def)
  ultimately show ?case using Cons.prems u
    by (subst temp_step [where c = c and ?s2.0 = s]) (simp_all add: add.commute)
qed

lemma temp_loop_shift:
  "\<lbrakk>tb s = pre @ x # ds @ post; iBuf s = length pre + 1; \<forall>d \<in> set ds. isdigit d;
    length pre + length ds < 255; n = length pre + length ds\<rbrakk>
    \<Longrightarrow> \<exists>y. temp_loop (n + 1) (of_nat (length pre)) mf s
         = Some (Some (of_nat n, mf), s\<lparr>tb := pre @ ds @ y # post, iBuf := n + 1\<rparr>)"
proof (induction ds arbitrary: pre x s)
  case Nil
  have "s\<lparr>tb := pre @ x # post, iBuf := n + 1\<rparr> = s" using Nil by simp
  moreover have "temp_loop (n + 1) (of_nat (length pre)) mf s = Some (Some (of_nat n, mf), s)"
    by (subst temp_loop.simps) (use Nil in simp)
  ultimately show ?case by (intro exI [of _ x]) simp
next
  case (Cons c v)
  let ?s1 = "s\<lparr>tb := (pre @ [c]) @ c # v @ post, iBuf := length (pre @ [c]) + 1\<rparr>"
  have u: "unat (of_nat (length pre) :: byte) = length pre" using Cons.prems(4) by (simp add: unat_of_nat)
  have "\<exists>y. temp_loop (n + 1) (of_nat (length (pre @ [c]))) mf ?s1
      = Some (Some (of_nat n, mf), ?s1\<lparr>tb := (pre @ [c]) @ v @ y # post, iBuf := n + 1\<rparr>)"
    using Cons.prems by (intro Cons.IH) auto
  moreover have "cur s = Some c" using Cons.prems cur_at [of s "pre @ [x]" c "v @ post"] by simp
  moreover have "set_tb (length pre) c s = Some (s\<lparr>tb := pre @ c # c # v @ post\<rparr>)"
    using Cons.prems by (intro set_tb_at) auto
  moreover have "c \<noteq> asc CHR ''-''" and "isdigit c"
    using Cons.prems(3) digit_not_space [of c] by (auto simp: asc_def)
  ultimately show ?case using Cons.prems u
    by (subst temp_step [where c = c and ?s2.0 = "s\<lparr>tb := pre @ c # c # v @ post\<rparr>"]) (simp_all add: add.commute)
qed

lemma neg_byte: "0xFF - x + 1 = (- x :: byte)"
  by simp

lemma getTemp_dec_int:
  assumes "tb s = dec_int i @ 0 # rest" and "iBuf s = 0" and "\<bar>i\<bar> < 1000"
  shows "\<exists>t k. getTemp (of_nat (length (dec_int i))) s = Some (of_int i, s\<lparr>tb := t, iBuf := k\<rparr>)
               \<and> length t = length (tb s) \<and> 0 \<in> set t"
proof (cases "i < 0")
  case False
  let ?v = "dec (nat i)"
  have l: "length ?v \<le> 3" using length_dec_le [of "nat i" 3] assms(3) by simp
  have u: "unat (of_nat (length ?v) :: byte) = length ?v" using l by (simp add: unat_of_nat)
  have v: "dec_int i = ?v" using False by (simp add: dec_int_def)
  have "temp_loop (length ?v) 0 False s = Some (Some (of_nat (length ?v), False), s\<lparr>iBuf := length ?v\<rparr>)"
    using temp_loop_plain [of s "[]" ?v "0 # rest" "length ?v" False] assms l v dec_isdigit by simp
  moreover have "set_tb (length ?v) 0 (s\<lparr>iBuf := length ?v\<rparr>) = Some (s\<lparr>iBuf := length ?v\<rparr>)"
    using assms(1) v by (intro set_tb_same [where pre = ?v and post = rest]) auto
  ultimately have "getTemp (of_nat (length (dec_int i))) s = Some (of_int i, s\<lparr>tb := tb s, iBuf := length ?v + 1\<rparr>)"
    using assms u v False by (simp add: getTemp_def adv_def atoi_dec' Let_def)
  then show ?thesis using assms(1) by (intro exI) auto
next
  case True
  let ?v = "dec (nat (- i))"
  have l: "length ?v \<le> 3" using length_dec_le [of "nat (- i)" 3] assms(3) by simp
  have u: "unat (of_nat (length ?v) :: byte) = length ?v" "unat (of_nat (length ?v + 1) :: byte) = length ?v + 1"
    using l by (simp_all add: unat_of_nat del: of_nat_add of_nat_Suc)
  have v: "dec_int i = 45 # ?v" using True by (simp add: dec_int_def)
  obtain d ds where d: "?v = d # ds" by (cases ?v) auto
  let ?s1 = "s\<lparr>tb := [d] @ d # ds @ 0 # rest, iBuf := 2\<rparr>"
  have dig: "isdigit d" "\<forall>x \<in> set ds. isdigit x" using dec_isdigit [of "nat (- i)"] d by auto
  have "\<exists>y. temp_loop (length ?v + 1) (of_nat (length [d])) True ?s1
      = Some (Some (of_nat (length ?v), True), ?s1\<lparr>tb := [d] @ ds @ y # 0 # rest, iBuf := length ?v + 1\<rparr>)"
    using l d dig by (intro temp_loop_shift) auto
  then obtain y where y: "temp_loop (length ?v + 1) 1 True ?s1
      = Some (Some (of_nat (length ?v), True), s\<lparr>tb := ?v @ y # 0 # rest, iBuf := length ?v + 1\<rparr>)"
    by (auto simp: d)
  have c: "cur s = Some 45" "cur (adv 1 s) = Some d"
    using assms(1,2) v d cur_at [of s "[]" 45 "?v @ 0 # rest"] cur_at [of "adv 1 s" "[45]" d "ds @ 0 # rest"] by simp_all
  have st: "set_tb 0 d (adv 1 s) = Some (s\<lparr>tb := [d] @ d # ds @ 0 # rest, iBuf := 1\<rparr>)"
    using set_tb_at [of "adv 1 s" "[]" 45 "?v @ 0 # rest" 0 d] assms v d by (simp add: adv_def)
  have "temp_loop (length ?v + 1) 0 False s
      = Some (Some (of_nat (length ?v), True), s\<lparr>tb := ?v @ y # 0 # rest, iBuf := length ?v + 1\<rparr>)"
    using c st y dig assms(2) by (subst temp_loop.simps) (simp add: asc_def numeral_2_eq_2)
  moreover have "set_tb (length ?v) 0 (s\<lparr>tb := ?v @ y # 0 # rest, iBuf := length ?v + 1\<rparr>)
      = Some (s\<lparr>tb := ?v @ 0 # 0 # rest, iBuf := length ?v + 1\<rparr>)"
    by (subst set_tb_at) auto
  moreover have "unat (of_nat (length (dec_int i)) :: byte) = length ?v + 1" using u v by simp
  moreover have "atoi ?v = - i" using atoi_dec' [of "nat (- i)"] True assms(3) by simp
  ultimately have "getTemp (of_nat (length (dec_int i))) s
      = Some (of_int i, s\<lparr>tb := ?v @ 0 # 0 # rest, iBuf := length ?v + 2\<rparr>)"
    using assms(2) u by (simp add: getTemp_def adv_def Let_def)
  then show ?thesis using assms(1) v by (intro exI) auto
qed

end
