(* ===== verification/Xml_Tags.thy ===== *)
theory Xml_Tags
  imports Firmware Sys_Text
begin

section \<open>The XML pages (\<open>XMLTagovi.c\<close>)\<close>

text \<open>
  Every page function of \<open>XMLTagovi.c\<close> builds its document in \<open>XMLBuf\<close> from the EEPROM and
  the shared state and returns its length. A function returns \<open>None\<close> when it stores past
  the end of one of its arrays or reads a string that has no end. The copy that the page functions
  make of the finished document into the caller's buffer is not part of the state. \<open>ftoa\<close> is
  \<open>my_ftoa\<close> with one decimal (\<open>temp_to_ascii\<close>), which works in \<open>double\<close> and is a parameter.
\<close>

subsection \<open>Dates, addresses and limits as text\<close>

definition decb :: "byte \<Rightarrow> bytes" where "decb b = dec (unat b)"

definition filetimetostr :: "filetime \<Rightarrow> bytes" where
  "filetimetostr ft = decb (f_hour ft) @ str '':'' @ decb (f_min ft) @ str '':'' @ decb (f_sec ft)"

definition filedatetostr :: "filetime \<Rightarrow> bytes" where
  "filedatetostr ft = decb (f_date ft) @ str ''.'' @ decb (f_month ft) @ str ''.'' @ dec (unat (f_year ft))"

definition ftimetostr :: "u16 \<Rightarrow> bytes" where
  "ftimetostr t =
     decb (ucast (drop_bit 11 t)) @ str '':''
     @ decb (ucast (drop_bit 5 (t AND 0x07E0))) @ str '':''
     @ decb (ucast (push_bit 1 (t AND 0x001F)))"

definition fdatetostr :: "u16 \<Rightarrow> bytes" where
  "fdatetostr d =
     dec (unat (d AND 0x001F)) @ str ''.''
     @ dec (unat (drop_bit 5 (d AND 0x01E0))) @ str ''.''
     @ dec (unat (drop_bit 9 d) + 1980)"

text \<open>
  \<open>isfextcsv\<close>: up to nine characters are skipped to find the point; the rest is copied in
  lower case to \<open>ext[5]\<close>.
\<close>

definition to_lower :: "byte \<Rightarrow> byte" where
  "to_lower b = (if 65 \<le> b \<and> b \<le> 90 then b + 32 else b)"

fun skip_point :: "nat \<Rightarrow> bytes \<Rightarrow> bytes option" where
  "skip_point 0 fn = Some fn"
| "skip_point (Suc n) [] = None"
| "skip_point (Suc n) (c # fn) = (if c = asc CHR ''.'' then Some fn else skip_point n fn)"

definition isfextcsv :: "bytes \<Rightarrow> bool option" where
  "isfextcsv fn = do {
     rest \<leftarrow> skip_point 9 fn;
     ext \<leftarrow> c_str rest;
     (if length ext < 5 then Some (map to_lower ext = str ''csv'') else None) }"

definition create_limit_string :: "byte \<Rightarrow> byte \<Rightarrow> bytes" where
  "create_limit_string llow lhigh = dec_int (sint llow) @ str '' ..... '' @ dec_int (sint lhigh)"

definition LONGtoIP :: "u32 \<Rightarrow> bytes" where
  "LONGtoIP lAdr =
     decb (ucast (drop_bit 24 lAdr)) @ str ''.'' @ decb (ucast (drop_bit 16 lAdr)) @ str ''.''
     @ decb (ucast (drop_bit 8 lAdr)) @ str ''.'' @ decb (ucast lAdr)"

subsection \<open>Building the document\<close>

definition strcat_XML :: "bytes \<Rightarrow> sys \<Rightarrow> sys option" where
  "strcat_XML t s =
     (if length (XMLBuf s) + length t < XMLBUF_SIZE then Some (s\<lparr>XMLBuf := XMLBuf s @ t\<rparr>) else None)"

definition CreateXMLHeader :: "sys \<Rightarrow> sys" where
  "CreateXMLHeader s = s\<lparr>XMLBuf := str ''<?xml version=\"1.0\" encoding=\"ISO-8859-1\" ?>''\<rparr>"

definition OpenTag :: "string \<Rightarrow> sys \<Rightarrow> sys option" where
  "OpenTag pTag s = do {
     s \<leftarrow> strcat_XML (str ''<'') s;
     s \<leftarrow> strcat_XML (str pTag) s;
     strcat_XML (str ''>'') s }"

definition CloseTag :: "string \<Rightarrow> sys \<Rightarrow> sys option" where
  "CloseTag pTag s = do {
     s \<leftarrow> strcat_XML (str ''</'') s;
     s \<leftarrow> strcat_XML (str pTag) s;
     strcat_XML (str ''>'') s }"

definition AddTag :: "string \<Rightarrow> bytes \<Rightarrow> sys \<Rightarrow> sys option" where
  "AddTag pTag bufVal s = do {
     s \<leftarrow> strcat_XML (str ''<'') s;
     s \<leftarrow> strcat_XML (str pTag) s;
     s \<leftarrow> strcat_XML (str ''>'') s;
     s \<leftarrow> strcat_XML bufVal s;
     s \<leftarrow> strcat_XML (str ''</'') s;
     s \<leftarrow> strcat_XML (str pTag) s;
     strcat_XML (str ''>'') s }"

definition AddNumTag :: "string \<Rightarrow> u16 \<Rightarrow> sys \<Rightarrow> sys option" where
  "AddNumTag pTag xval = AddTag pTag (dec (unat xval))"

text \<open>
  A negative \<open>INT8\<close> is printed as a minus sign and the \<open>INT8\<close> \<open>255 - xval + 1\<close>.
\<close>

definition AddTempTag :: "string \<Rightarrow> byte \<Rightarrow> sys \<Rightarrow> sys option" where
  "AddTempTag pTag xval =
     AddTag pTag (if sint xval < 0 then 45 # dec_int (sint (255 - xval + 1)) else dec_int (sint xval))"

text \<open>\<open>addLength\<close> overwrites the first \<open>'#'\<close> of the buffer with a number and a space.\<close>

definition addLength :: "nat \<Rightarrow> bytes \<Rightarrow> bytes option" where
  "addLength ctLen buf =
     (let p = length (takeWhile (\<lambda>b. b \<noteq> asc CHR ''#'') buf)
      in if p = length buf then None else poke p (dec ctLen @ [0x20]) buf)"

text \<open>A tag whose value is the C string in one of the arrays.\<close>

definition AddBuf :: "string \<Rightarrow> (sys \<Rightarrow> bytes) \<Rightarrow> sys \<Rightarrow> sys option" where
  "AddBuf pTag buf s = do { v \<leftarrow> c_str (buf s); AddTag pTag v s }"

text \<open>\<open>if (tmp == 0) AddTag(..., "OFF") else AddTag(..., "ON")\<close>.\<close>

definition AddOnOff :: "string \<Rightarrow> byte \<Rightarrow> sys \<Rightarrow> sys option" where
  "AddOnOff pTag v = AddTag pTag (if v = 0 then str ''OFF'' else str ''ON'')"

text \<open>Reading the EEPROM into an array, and printing a string into one.\<close>

definition EE_tbuf :: "nat \<Rightarrow> nat \<Rightarrow> sys \<Rightarrow> sys option" where
  "EE_tbuf a n s = do { b \<leftarrow> poke 0 (eeRd a n (ee s)) (tbuf s); Some (s\<lparr>tbuf := b\<rparr>) }"

definition EE_lstr :: "nat \<Rightarrow> nat \<Rightarrow> sys \<Rightarrow> sys option" where
  "EE_lstr a n s = do { b \<leftarrow> poke 0 (eeRd a n (ee s)) (lstr s); Some (s\<lparr>lstr := b\<rparr>) }"

definition EE_rBuf :: "nat \<Rightarrow> nat \<Rightarrow> sys \<Rightarrow> sys option" where
  "EE_rBuf a n s = do { b \<leftarrow> poke 0 (eeRd a n (ee s)) (rBuf s); Some (s\<lparr>rBuf := b\<rparr>) }"

definition EE_twi_buf :: "nat \<Rightarrow> nat \<Rightarrow> sys \<Rightarrow> sys option" where
  "EE_twi_buf a n s = do { b \<leftarrow> poke 0 (eeRd a n (ee s)) (twi_buf s); Some (s\<lparr>twi_buf := b\<rparr>) }"

definition set_tmpBuf :: "bytes \<Rightarrow> sys \<Rightarrow> sys option" where
  "set_tmpBuf v s = do { b \<leftarrow> poke 0 (v @ [0]) (tmpBuf s); Some (s\<lparr>tmpBuf := b\<rparr>) }"

definition set_lstr :: "bytes \<Rightarrow> sys \<Rightarrow> sys option" where
  "set_lstr v s = do { b \<leftarrow> poke 0 (v @ [0]) (lstr s); Some (s\<lparr>lstr := b\<rparr>) }"

definition finish :: "sys \<Rightarrow> (u16 \<times> sys) option" where
  "finish s = Some (of_nat (length (XMLBuf s)), s)"

text \<open>A value that goes through \<open>tmpBuf\<close> into a tag.\<close>

definition AddTmp :: "string \<Rightarrow> bytes \<Rightarrow> sys \<Rightarrow> sys option" where
  "AddTmp pTag v s = do { s \<leftarrow> set_tmpBuf v s; AddBuf pTag tmpBuf s }"

subsection \<open>The pages\<close>

definition XMLSms :: "sys \<Rightarrow> (u16 \<times> sys) option" where
  "XMLSms s = do {
     let s = s\<lparr>infobip_credit := (infobip_credit s)[0 := 0]\<rparr>;
     let s = CreateXMLHeader s;
     s \<leftarrow> OpenTag ''SMS'' s;
     s \<leftarrow> AddTmp ''IP'' (LONGtoIP (eeRd32 EE_GSM_IP (ee s))) s;
     s \<leftarrow> AddNumTag ''PORT'' (eeRd16 EE_GSM_PORT (ee s)) s;
     s \<leftarrow> EE_tbuf EE_GSM_UNAME 16 s; s \<leftarrow> AddBuf ''UNAME'' tbuf s;
     s \<leftarrow> EE_tbuf EE_GSM_PASS 16 s;  s \<leftarrow> AddBuf ''PASS'' tbuf s;
     s \<leftarrow> EE_tbuf EE_GSM1_NUM 32 s;  s \<leftarrow> AddBuf ''GSM1'' tbuf s;
     s \<leftarrow> EE_tbuf EE_GSM2_NUM 32 s;  s \<leftarrow> AddBuf ''GSM2'' tbuf s;
     s \<leftarrow> EE_tbuf EE_GSM3_NUM 32 s;  s \<leftarrow> AddBuf ''GSM3'' tbuf s;
     s \<leftarrow> EE_tbuf EE_GSM4_NUM 32 s;  s \<leftarrow> AddBuf ''GSM4'' tbuf s;
     s \<leftarrow> EE_tbuf EE_GSM5_NUM 32 s;  s \<leftarrow> AddBuf ''GSM5'' tbuf s;
     s \<leftarrow> EE_tbuf EE_GSM1_NAME 32 s; s \<leftarrow> AddBuf ''NAME1'' tbuf s;
     s \<leftarrow> EE_tbuf EE_GSM2_NAME 32 s; s \<leftarrow> AddBuf ''NAME2'' tbuf s;
     s \<leftarrow> EE_tbuf EE_GSM3_NAME 32 s; s \<leftarrow> AddBuf ''NAME3'' tbuf s;
     s \<leftarrow> EE_tbuf EE_GSM4_NAME 32 s; s \<leftarrow> AddBuf ''NAME4'' tbuf s;
     s \<leftarrow> EE_tbuf EE_GSM5_NAME 32 s; s \<leftarrow> AddBuf ''NAME5'' tbuf s;
     s \<leftarrow> CloseTag ''SMS'' s;
     finish s }"

text \<open>\<open>"%X"\<close> of a byte, and the six bytes of the hardware address with colons.\<close>

definition hex_digit :: "nat \<Rightarrow> byte" where
  "hex_digit n = (if n < 10 then of_nat (48 + n) else of_nat (55 + n))"

definition hexX :: "byte \<Rightarrow> bytes" where
  "hexX b = (if unat b < 16 then [hex_digit (unat b)]
             else [hex_digit (unat b div 16), hex_digit (unat b mod 16)])"

fun mac_text :: "bytes \<Rightarrow> bytes" where
  "mac_text [] = []"
| "mac_text [b] = hexX b"
| "mac_text (b # bs) = hexX b @ str '':'' @ mac_text bs"

definition XMLMreza :: "sys \<Rightarrow> (u16 \<times> sys) option" where
  "XMLMreza s = do {
     let s = CreateXMLHeader s;
     s \<leftarrow> OpenTag ''IPMODULA'' s;
     s \<leftarrow> AddTmp ''IP'' (LONGtoIP (eeRd32 EE_IP (ee s))) s;
     s \<leftarrow> AddTmp ''MAC'' (mac_text (mac_addr s)) s;
     s \<leftarrow> AddTmp ''SUB'' (LONGtoIP (eeRd32 EE_SUBNET (ee s))) s;
     s \<leftarrow> AddTmp ''ROUT'' (LONGtoIP (eeRd32 EE_GATEWAY (ee s))) s;
     s \<leftarrow> AddTmp ''DNS'' (LONGtoIP (eeRd32 EE_DNS (ee s))) s;
     s \<leftarrow> AddTmp ''HTTP'' (dec (unat (eeRd16 EE_HTTP_PORT (ee s)))) s;
     s \<leftarrow> EE_twi_buf EE_OBJECT_NAME 32 s;
     s \<leftarrow> AddBuf ''NAZIV'' twi_buf s;
     s \<leftarrow> AddTmp ''ALARMIP'' (LONGtoIP (eeRd32 EE_ALARM_IP (ee s))) s;
     s \<leftarrow> AddTmp ''ALARMPORT'' (dec (unat (eeRd16 EE_ALARM_PORT (ee s)))) s;
     s \<leftarrow> CloseTag ''IPMODULA'' s;
     finish s }"

definition XMLUlazi :: "sys \<Rightarrow> (u16 \<times> sys) option" where
  "XMLUlazi s = do {
     let s = CreateXMLHeader s;
     s \<leftarrow> OpenTag ''ULAZI'' s;
     s \<leftarrow> AddTag ''IN1'' (if pins s ! 0 then str ''CLOSE'' else str ''OPEN'') s;
     s \<leftarrow> AddTag ''IN2'' (if pins s ! 1 then str ''CLOSE'' else str ''OPEN'') s;
     s \<leftarrow> AddTag ''IN3'' (if pins s ! 2 then str ''CLOSE'' else str ''OPEN'') s;
     s \<leftarrow> CloseTag ''ULAZI'' s;
     finish s }"

definition XMLSustav :: "sys \<Rightarrow> (u16 \<times> sys) option" where
  "XMLSustav s = do {
     let s = CreateXMLHeader s;
     s \<leftarrow> OpenTag ''SUSTAV'' s;
     finish s }"

text \<open>\<open>getTime\<close> and \<open>getDate\<close> of \<open>drajveri.c\<close> with the globals as destinations.\<close>

definition getTime :: "sys \<Rightarrow> sys" where
  "getTime s = s\<lparr>sat := RTC_Hours (rtc s), minuta := RTC_Minutes (rtc s), sekunda := RTC_Seconds (rtc s)\<rparr>"

definition getDate :: "sys \<Rightarrow> sys" where
  "getDate s = s\<lparr>godina := RTC_Year (rtc s), mjesec := RTC_Month (rtc s),
                 datum := RTC_Date (rtc s), dan := RTC_WeekDay (rtc s)\<rparr>"

definition XMLTime :: "sys \<Rightarrow> (u16 \<times> sys) option" where
  "XMLTime s = do {
     let s = CreateXMLHeader s;
     let s = getDate (getTime s);
     s \<leftarrow> OpenTag ''TIME'' s;
     s \<leftarrow> AddTmp ''HOUR'' (decb (sat s)) s;
     s \<leftarrow> AddTmp ''MIN'' (decb (minuta s)) s;
     s \<leftarrow> AddTmp ''SEC'' (decb (sekunda s)) s;
     s \<leftarrow> AddTmp ''DATE'' (decb (datum s)) s;
     s \<leftarrow> AddTmp ''MONTH'' (decb (mjesec s)) s;
     s \<leftarrow> AddTmp ''YEAR'' (dec (unat (godina s) + 2000)) s;
     s \<leftarrow> AddTmp ''DAY'' (decb (dan s)) s;
     s \<leftarrow> CloseTag ''TIME'' s;
     finish s }"

text \<open>
  The directory pages: \<open>files\<close> is what \<open>lfs_dir_read\<close> yields, and \<open>res\<close> its last
  result (0 at the end of the directory, negative on an error, which ends the page at once).
  The size tags are computed in 32 bits as the source does.
\<close>

definition totsect :: "sys \<Rightarrow> u32" where
  "totsect s = of_nat (block_count s) * of_nat LFS_BLOCK_SIZE"

definition freesect :: "sys \<Rightarrow> u32" where
  "freesect s = totsect s - of_nat (used_blocks s) * of_nat LFS_BLOCK_SIZE"

definition AddLstr :: "string \<Rightarrow> bytes \<Rightarrow> sys \<Rightarrow> sys option" where
  "AddLstr pTag v s = do { s \<leftarrow> set_lstr v s; AddBuf pTag lstr s }"

definition AddDinfo :: "sys \<Rightarrow> sys option" where
  "AddDinfo s = do {
     s \<leftarrow> OpenTag ''DINFO'' s;
     s \<leftarrow> AddLstr ''FREE'' (dec (unat (freesect s) div 1024)) s;
     s \<leftarrow> AddLstr ''SIZE'' (dec (unat (totsect s) div 1024)) s;
     CloseTag ''DINFO'' s }"

fun disk_entries :: "dirent list \<Rightarrow> sys \<Rightarrow> sys option" where
  "disk_entries [] s = Some s"
| "disk_entries (e # es) s =
     (if is_reg e then do {
        s \<leftarrow> OpenTag ''LF'' s;
        s \<leftarrow> AddTag ''NM'' (fname e) s;
        s \<leftarrow> AddLstr ''SZ'' (dec (fsize e)) s;
        s \<leftarrow> AddLstr ''DT'' (filedatetostr (ftime e)) s;
        s \<leftarrow> AddLstr ''TM'' (filetimetostr (ftime e)) s;
        s \<leftarrow> CloseTag ''LF'' s;
        disk_entries es s }
      else disk_entries es s)"

definition XMLDisk :: "int \<Rightarrow> sys \<Rightarrow> (u16 \<times> sys) option" where
  "XMLDisk res s = do {
     let s = CreateXMLHeader s;
     s \<leftarrow> OpenTag ''DISK0'' s;
     s \<leftarrow> AddDinfo s;
     s \<leftarrow> disk_entries (files s) s;
     (if res < 0 then Some (of_int res, s)
      else do {
        s \<leftarrow> CloseTag ''DISK0'' s;
        finish s }) }"

text \<open>The names and limits of the eight sensors, as \<open>XMLLogfile\<close> and \<open>XMLHaccp\<close> list them.\<close>

definition log_sensor :: "nat \<Rightarrow> string \<Rightarrow> string \<Rightarrow> string \<Rightarrow> sys \<Rightarrow> sys option" where
  "log_sensor i sen low high s = do {
     s \<leftarrow> EE_tbuf (0x100 * (i + 1) + EE_SENSOR_NAME) 16 s;
     s \<leftarrow> AddBuf sen tbuf s;
     s \<leftarrow> AddTempTag low (LOWLIMIT (senzor s ! i)) s;
     AddTempTag high (HIGHLIMIT (senzor s ! i)) s }"

definition log_sensors :: "sys \<Rightarrow> sys option" where
  "log_sensors s = do {
     s \<leftarrow> OpenTag ''LOGFILE'' s;
     s \<leftarrow> OpenTag ''SENZOR'' s;
     s \<leftarrow> log_sensor 0 ''SEN1'' ''LOW1'' ''HIGH1'' s;
     s \<leftarrow> log_sensor 1 ''SEN2'' ''LOW2'' ''HIGH2'' s;
     s \<leftarrow> log_sensor 2 ''SEN3'' ''LOW3'' ''HIGH3'' s;
     s \<leftarrow> log_sensor 3 ''SEN4'' ''LOW4'' ''HIGH4'' s;
     s \<leftarrow> log_sensor 4 ''SEN5'' ''LOW5'' ''HIGH5'' s;
     s \<leftarrow> log_sensor 5 ''SEN6'' ''LOW6'' ''HIGH6'' s;
     s \<leftarrow> log_sensor 6 ''SEN7'' ''LOW7'' ''HIGH7'' s;
     s \<leftarrow> log_sensor 7 ''SEN8'' ''LOW8'' ''HIGH8'' s;
     CloseTag ''SENZOR'' s }"

fun log_entries :: "byte \<Rightarrow> dirent list \<Rightarrow> sys \<Rightarrow> sys option" where
  "log_entries c [] s = Some s"
| "log_entries c (e # es) s =
     (if is_reg e \<and> fname e \<noteq> [] \<and> hd (fname e) = c then do {
        s \<leftarrow> OpenTag ''LF'' s;
        s \<leftarrow> AddTag ''LOG'' (fname e) s;
        s \<leftarrow> CloseTag ''LF'' s;
        log_entries c es s }
      else log_entries c es s)"

definition XMLLogfile :: "int \<Rightarrow> sys \<Rightarrow> (u16 \<times> sys) option" where
  "XMLLogfile res s = do {
     let s = CreateXMLHeader s;
     s \<leftarrow> log_sensors s;
     s \<leftarrow> AddDinfo s;
     s \<leftarrow> log_entries (asc CHR ''T'') (files s) s;
     (if res < 0 then Some (of_int res, s)
      else do {
        s \<leftarrow> CloseTag ''LOGFILE'' s;
        finish s }) }"

definition XMLHaccp :: "int \<Rightarrow> sys \<Rightarrow> (u16 \<times> sys) option" where
  "XMLHaccp res s = do {
     let s = CreateXMLHeader s;
     s \<leftarrow> log_sensors s;
     s \<leftarrow> log_entries (asc CHR ''H'') (files s) s;
     (if res < 0 then Some (of_int res, s)
      else do {
        s \<leftarrow> CloseTag ''LOGFILE'' s;
        finish s }) }"

text \<open>\<open>DS18B20Code\<close> reads the serial number \<open>bcode\<close> of the sensor on channel 1.\<close>

definition serial_text :: "bytes \<Rightarrow> bytes" where
  "serial_text code = concat (map (\<lambda>c. [ucast (drop_bit 8 (hextoascii c)), ucast (hextoascii c)]) code)"

definition set_serial :: "bytes \<Rightarrow> sys \<Rightarrow> sys option" where
  "set_serial code s = do {
     b \<leftarrow> poke 0 (replicate 30 0) (lstr s);
     b \<leftarrow> poke 0 (serial_text code) b;
     Some (s\<lparr>lstr := b\<rparr>) }"

definition XMLCode :: "bytes \<Rightarrow> sys \<Rightarrow> (u16 \<times> sys) option" where
  "XMLCode bcode s = do {
     let s = CreateXMLHeader s;
     s \<leftarrow> OpenTag ''DSCODE'' s;
     s \<leftarrow> set_serial bcode s;
     s \<leftarrow> AddBuf ''CODE'' lstr s;
     s \<leftarrow> CloseTag ''DSCODE'' s;
     finish s }"

text \<open>The ten message switches in the order both pages write them.\<close>

definition AddSwitches :: "bytes \<Rightarrow> bytes \<Rightarrow> sys \<Rightarrow> sys option" where
  "AddSwitches wapps smss s = do {
     s \<leftarrow> AddOnOff ''WAPP1'' (wapps ! 0) s;
     s \<leftarrow> AddOnOff ''WAPP2'' (wapps ! 1) s;
     s \<leftarrow> AddOnOff ''WAPP3'' (wapps ! 2) s;
     s \<leftarrow> AddOnOff ''WAPP4'' (wapps ! 3) s;
     s \<leftarrow> AddOnOff ''WAPP5'' (wapps ! 4) s;
     s \<leftarrow> AddOnOff ''SMS1'' (smss ! 0) s;
     s \<leftarrow> AddOnOff ''SMS2'' (smss ! 1) s;
     s \<leftarrow> AddOnOff ''SMS3'' (smss ! 2) s;
     s \<leftarrow> AddOnOff ''SMS4'' (smss ! 3) s;
     AddOnOff ''SMS5'' (smss ! 4) s }"

definition XMLSensor :: "(nat \<Rightarrow> u32 \<Rightarrow> bytes) \<Rightarrow> nat \<Rightarrow> sys \<Rightarrow> (u16 \<times> sys) option" where
  "XMLSensor ftoa snum s = do {
     let s = CreateXMLHeader s;
     s \<leftarrow> OpenTag ''SENSOR'' s;
     s \<leftarrow> AddTempTag ''LOWLIMIT'' (LOWLIMIT (senzor s ! snum)) s;
     s \<leftarrow> AddTempTag ''HIGHLIMIT'' (HIGHLIMIT (senzor s ! snum)) s;
     s \<leftarrow> AddTempTag ''HIST'' (HIS (senzor s ! snum)) s;
     s \<leftarrow> AddLstr ''KALIB'' (ftoa 1 (kalibracija (senzor s ! snum))) s;
     s \<leftarrow> AddTag ''ENABLE'' (if ENBLE (senzor s ! snum) = 1 then str ''ON'' else str ''OFF'') s;
     s \<leftarrow> set_serial (CODE (senzor s ! snum)) s;
     s \<leftarrow> AddBuf ''SERIALNUM'' lstr s;
     s \<leftarrow> EE_lstr (0x100 * (snum + 1) + EE_SENSOR_NAME) 32 s;
     s \<leftarrow> AddBuf ''NAME'' lstr s;
     s \<leftarrow> AddTempTag ''KANAL'' (KANAL (senzor s ! snum)) s;
     s \<leftarrow> AddTag ''MTYPE'' (if eeRd8 (0x100 * (snum + 1) + EE_MEASURE_TYPE) (ee s) = 1
                          then str ''MKT'' else str ''AVERAGE'') s;
     s \<leftarrow> AddNumTag ''DELAY'' (eeRd16 (0x100 * (snum + 1) + EE_DELAY) (ee s)) s;
     s \<leftarrow> EE_rBuf (0x100 * (snum + 1) + EE_SMS1) 5 s;
     let smss = take 5 (rBuf s);
     s \<leftarrow> EE_rBuf (0x100 * (snum + 1) + EE_WAPP1_ON) 5 s;
     let wapps = take 5 (rBuf s);
     s \<leftarrow> AddSwitches wapps smss s;
     s \<leftarrow> CloseTag ''SENSOR'' s;
     finish s }"

text \<open>A loop over indices, and the tags that carry the sensor's number.\<close>

fun each :: "('a \<Rightarrow> sys \<Rightarrow> sys option) \<Rightarrow> 'a list \<Rightarrow> sys \<Rightarrow> sys option" where
  "each f [] s = Some s"
| "each f (i # is) s = do { s \<leftarrow> f i s; each f is s }"

definition numbered :: "string \<Rightarrow> nat \<Rightarrow> string \<Rightarrow> string" where
  "numbered p cnt q = p @ [char_of (49 + cnt)] @ q"

definition date_text :: "string \<Rightarrow> sys \<Rightarrow> bytes" where
  "date_text sep s = decb (datum s) @ str sep @ decb (mjesec s) @ str sep @ dec (unat (godina s) + 2000)"

definition time_text :: "sys \<Rightarrow> bytes" where
  "time_text s = decb (sat s) @ str '':'' @ decb (minuta s) @ str '':'' @ decb (sekunda s)"

definition AddStat :: "nat \<Rightarrow> sys \<Rightarrow> sys option" where
  "AddStat cnt s = AddTag (numbered ''STAT'' cnt '''')
     (if ENBLE (senzor s ! cnt) \<noteq> 0
      then (if state s ! cnt = 1 then str ''OK'' else str ''ERROR'')
      else str ''DISABLE'') s"

definition home_sensor :: "(nat \<Rightarrow> u32 \<Rightarrow> bytes) \<Rightarrow> nat \<Rightarrow> sys \<Rightarrow> sys option" where
  "home_sensor ftoa cnt s = do {
     s \<leftarrow> EE_rBuf (0x100 * (cnt + 1) + EE_SENSOR_NAME) 64 s;
     s \<leftarrow> AddBuf (numbered ''NAME'' cnt '''') rBuf s;
     s \<leftarrow> AddStat cnt s;
     AddTmp (numbered ''TEMP'' cnt '''') (ftoa 2 (temp s ! cnt)) s }"

definition XMLHome :: "(nat \<Rightarrow> u32 \<Rightarrow> bytes) \<Rightarrow> sys \<Rightarrow> (u16 \<times> sys) option" where
  "XMLHome ftoa s = do {
     let s = CreateXMLHeader (getDate (getTime s));
     s \<leftarrow> OpenTag ''STATUSI'' s;
     s \<leftarrow> AddLstr ''FREE'' (dec (unat (freesect s) div 1000)) s;
     s \<leftarrow> AddLstr ''SIZE'' (dec (unat (totsect s) div 1000)) s;
     s \<leftarrow> EE_rBuf EE_OBJECT_NAME 32 s;
     s \<leftarrow> AddBuf ''NAME'' rBuf s;
     s \<leftarrow> AddLstr ''DATUM'' (date_text ''.'' s @ str ''  |  '' @ time_text s) s;
     s \<leftarrow> AddTag ''VERZIJA'' (str ''VER-3.0 01082023'') s;
     s \<leftarrow> each (home_sensor ftoa) [0..<8] s;
     s \<leftarrow> CloseTag ''STATUSI'' s;
     finish s }"

text \<open>
  The time left of an alarm delay as \<open>h:m:s\<close>. \<open>set\<close> is the configured delay;
  \<open>delayhh\<close>, \<open>delaymm\<close> and \<open>delayss\<close> are 16 bit variables.
\<close>

definition delay_text :: "u16 \<Rightarrow> u32 \<Rightarrow> bytes" where
  "delay_text setdelay delaytimer =
     (if delaytimer = 0 then str ''0:0:0''
      else let delaysec = ucast setdelay - delaytimer :: u32;
               delayhh = ucast (delaysec div 3600) :: u16;
               delaymm = ucast ((delaysec - ucast delayhh * 3600) div 60) :: u16;
               delayss = ucast (delaysec - ucast delayhh * 3600 - ucast delaymm * 60) :: u16
           in dec (unat delayhh) @ str '':'' @ dec (unat delaymm) @ str '':'' @ dec (unat delayss))"

definition online_sensor :: "(nat \<Rightarrow> u32 \<Rightarrow> bytes) \<Rightarrow> nat \<Rightarrow> sys \<Rightarrow> sys option" where
  "online_sensor ftoa cnt s = do {
     s \<leftarrow> AddStat cnt s;
     s \<leftarrow> EE_lstr (0x100 * (cnt + 1) + EE_SENSOR_NAME) 16 s;
     s \<leftarrow> AddBuf (numbered ''NAME'' cnt '''') lstr s;
     s \<leftarrow> AddTmp (numbered ''TEMP'' cnt '''') (ftoa 2 (temp s ! cnt)) s;
     s \<leftarrow> AddTmp (numbered ''T'' cnt ''LOW'') (ftoa 2 (f32_of_int (sint (LOWLIMIT (senzor s ! cnt))))) s;
     s \<leftarrow> AddTmp (numbered ''T'' cnt ''HIGH'') (ftoa 2 (f32_of_int (sint (HIGHLIMIT (senzor s ! cnt))))) s;
     s \<leftarrow> AddTag (numbered ''ALARM'' cnt '''')
          (if STATE (senzor s ! cnt) = ALARM_HI then str ''ALHIGH''
           else if STATE (senzor s ! cnt) = ALARM_LOW then str ''ALLOW''
           else str ''NONE'') s;
     AddTmp (numbered ''DELAY'' cnt '''')
       (delay_text (DELAY (senzor s ! cnt)) (NVRAM_Read32 (NV_DELAY_SEN1 + cnt * 4) (nv s))) s }"

text \<open>
  Before the time is printed, \<open>XMLOnline\<close> reads a sensor name into \<open>lstr\<close> with \<open>cnt\<close> not
  yet set; \<open>cnt0\<close> is what \<open>cnt\<close> holds then.
\<close>

definition XMLOnline :: "(nat \<Rightarrow> u32 \<Rightarrow> bytes) \<Rightarrow> byte \<Rightarrow> sys \<Rightarrow> (u16 \<times> sys) option" where
  "XMLOnline ftoa cnt0 s = do {
     let s = CreateXMLHeader s;
     s \<leftarrow> OpenTag ''ONLINE'' s;
     let s = getDate (getTime s);
     s \<leftarrow> AddLstr ''DATE'' (date_text ''/'' s) s;
     s \<leftarrow> EE_lstr (0x100 * (unat cnt0 + 1) + EE_SENSOR_NAME) 16 s;
     s \<leftarrow> AddLstr ''TIME'' (time_text s) s;
     s \<leftarrow> each (online_sensor ftoa) [0..<8] s;
     s \<leftarrow> CloseTag ''ONLINE'' s;
     finish s }"

definition XMLCredit :: "sys \<Rightarrow> (u16 \<times> sys) option" where
  "XMLCredit s = do {
     let s = CreateXMLHeader s;
     s \<leftarrow> OpenTag ''CREDIT'' s;
     s \<leftarrow> AddBuf ''STATE'' infobip_credit s;
     s \<leftarrow> CloseTag ''CREDIT'' s;
     finish s }"

definition XMLSmsstatus :: "sys \<Rightarrow> (u16 \<times> sys) option" where
  "XMLSmsstatus s = do {
     let s = getDate (getTime (CreateXMLHeader s));
     s \<leftarrow> OpenTag ''SMS'' s;
     s \<leftarrow> AddBuf ''CREDIT'' infobip_credit s;
     s \<leftarrow> AddBuf ''STATE'' infobip_status s;
     s \<leftarrow> CloseTag ''SMS'' s;
     finish s }"

text \<open>\<open>get_credit\<close> of \<open>infobip.c\<close> raises the flag its thread waits for.\<close>

definition get_credit :: "sys \<Rightarrow> sys" where
  "get_credit s = s\<lparr>wcl_credit_active := True\<rparr>"

definition XMLStartCredit :: "sys \<Rightarrow> (u16 \<times> sys) option" where
  "XMLStartCredit s = do {
     let s = get_credit s;
     b \<leftarrow> poke 0 (str ''WAIT'' @ [0]) (infobip_credit s);
     let s = CreateXMLHeader (s\<lparr>infobip_credit := b\<rparr>);
     s \<leftarrow> OpenTag ''STARTCREDIT'' s;
     s \<leftarrow> AddTag ''STATE'' (str ''STARTED'') s;
     s \<leftarrow> CloseTag ''STARTCREDIT'' s;
     finish s }"

definition XMLSample :: "sys \<Rightarrow> (u16 \<times> sys) option" where
  "XMLSample s = do {
     let s = CreateXMLHeader s;
     s \<leftarrow> OpenTag ''SAMPLE'' s;
     s \<leftarrow> AddOnOff ''CHECK'' (eeRd8 EE_STATUS_SEND (ee s)) s;
     s \<leftarrow> AddNumTag ''REPORT'' (eeRd16 EE_STATUS_TIME (ee s)) s;
     s \<leftarrow> AddNumTag ''LOGTIME'' (eeRd16 EE_SCAN_TIME (ee s)) s;
     s \<leftarrow> CloseTag ''SAMPLE'' s;
     finish s }"

definition XMLPass :: "sys \<Rightarrow> (u16 \<times> sys) option" where
  "XMLPass s = do {
     s \<leftarrow> EE_rBuf EE_PASS 16 s;
     let s = CreateXMLHeader s;
     s \<leftarrow> OpenTag ''LOGIN'' s;
     s \<leftarrow> EE_tbuf EE_USERNAME 16 s;
     s \<leftarrow> AddBuf ''UNAME'' tbuf s;
     s \<leftarrow> EE_tbuf EE_PASS 16 s;
     s \<leftarrow> AddBuf ''PASS'' tbuf s;
     s \<leftarrow> CloseTag ''LOGIN'' s;
     finish s }"

definition XMLBackup :: "sys \<Rightarrow> (u16 \<times> sys) option" where
  "XMLBackup s = do {
     let s = CreateXMLHeader s;
     s \<leftarrow> OpenTag ''BACKUP'' s;
     s \<leftarrow> AddOnOff ''ONOFF'' (rBuf s ! 8) s;
     s \<leftarrow> AddTmp ''IP'' (LONGtoIP (be32 (rBuf s ! 0) (rBuf s ! 1) (rBuf s ! 2) (rBuf s ! 3))) s;
     s \<leftarrow> AddTmp ''PORT'' (dec (unat (rBuf s ! 4) * 256 + unat (rBuf s ! 5))) s;
     s \<leftarrow> AddTmp ''BACKTIME'' (dec (unat (rBuf s ! 6) * 256 + unat (rBuf s ! 7))) s;
     s \<leftarrow> CloseTag ''BACKUP'' s;
     finish s }"

definition XMLSNTP :: "sys \<Rightarrow> (u16 \<times> sys) option" where
  "XMLSNTP s = do {
     let s = CreateXMLHeader s;
     s \<leftarrow> OpenTag ''SNTP'' s;
     s \<leftarrow> AddOnOff ''DST'' (eeRd8 EE_DST_STATE (ee s)) s;
     s \<leftarrow> AddOnOff ''SENAB'' (eeRd8 EE_SNTP_STATE (ee s)) s;
     s \<leftarrow> AddNumTag ''DSTSTATE'' (ucast (eeRd8 EE_DST_ACTIVETIME (ee s))) s;
     s \<leftarrow> EE_tbuf EE_SNTP1 32 s;
     s \<leftarrow> AddBuf ''SNTP1'' tbuf s;
     s \<leftarrow> EE_tbuf EE_SNTP2 32 s;
     s \<leftarrow> AddBuf ''SNTP2'' tbuf s;
     s \<leftarrow> AddNumTag ''ZONA'' (ucast (eeRd8 EE_TIME_ZONE (ee s))) s;
     s \<leftarrow> CloseTag ''SNTP'' s;
     finish s }"

definition XMLInput :: "sys \<Rightarrow> (u16 \<times> sys) option" where
  "XMLInput s = do {
     let s = CreateXMLHeader s;
     s \<leftarrow> OpenTag ''INPUT'' s;
     s \<leftarrow> EE_lstr EE_INPUT_NAME1 32 s; s \<leftarrow> AddBuf ''NAME1'' lstr s;
     s \<leftarrow> EE_lstr EE_INPUT_NAME2 32 s; s \<leftarrow> AddBuf ''NAME2'' lstr s;
     s \<leftarrow> EE_lstr EE_INPUT_NAME3 32 s; s \<leftarrow> AddBuf ''NAME3'' lstr s;
     s \<leftarrow> EE_rBuf EE_INPUT_ALARM1 6 s;
     s \<leftarrow> AddTag ''ALARM1'' (if rBuf s ! 0 = 1 then str ''ON'' else str ''OFF'') s;
     s \<leftarrow> AddTag ''ALARM2'' (if rBuf s ! 1 = 1 then str ''ON'' else str ''OFF'') s;
     s \<leftarrow> AddTag ''ALARM3'' (if rBuf s ! 2 = 1 then str ''ON'' else str ''OFF'') s;
     s \<leftarrow> AddTag ''TIP1'' (if rBuf s ! 3 = 1 then str ''NC'' else str ''NO'') s;
     s \<leftarrow> AddTag ''TIP2'' (if rBuf s ! 4 = 1 then str ''NC'' else str ''NO'') s;
     s \<leftarrow> AddTag ''TIP3'' (if rBuf s ! 5 = 1 then str ''NC'' else str ''NO'') s;
     s \<leftarrow> EE_rBuf EE_INPUT_SMS1 5 s;
     let smss = take 5 (rBuf s);
     s \<leftarrow> EE_rBuf EE_INPUT_WAPP1 5 s;
     let wapps = take 5 (rBuf s);
     s \<leftarrow> AddSwitches wapps smss s;
     s \<leftarrow> AddNumTag ''DELAY1'' (eeRd16 EE_INPUT_DELAY1 (ee s)) s;
     s \<leftarrow> AddNumTag ''DELAY2'' (eeRd16 EE_INPUT_DELAY2 (ee s)) s;
     s \<leftarrow> AddNumTag ''DELAY3'' (eeRd16 EE_INPUT_DELAY3 (ee s)) s;
     s \<leftarrow> CloseTag ''INPUT'' s;
     finish s }"

definition XMLWapp :: "sys \<Rightarrow> (u16 \<times> sys) option" where
  "XMLWapp s = do {
     let s = CreateXMLHeader s;
     s \<leftarrow> OpenTag ''WHATSAPP'' s;
     s \<leftarrow> EE_lstr EE_WAPP1_NUM 32 s;  s \<leftarrow> AddBuf ''NUMBER1'' lstr s;
     s \<leftarrow> EE_lstr EE_WAPP1_KEY 32 s;  s \<leftarrow> AddBuf ''KEY1'' lstr s;
     s \<leftarrow> EE_lstr EE_WAPP1_NAME 64 s; s \<leftarrow> AddBuf ''NAME1'' lstr s;
     s \<leftarrow> EE_lstr EE_WAPP2_NUM 32 s;  s \<leftarrow> AddBuf ''NUMBER2'' lstr s;
     s \<leftarrow> EE_lstr EE_WAPP2_KEY 32 s;  s \<leftarrow> AddBuf ''KEY2'' lstr s;
     s \<leftarrow> EE_lstr EE_WAPP2_NAME 64 s; s \<leftarrow> AddBuf ''NAME2'' lstr s;
     s \<leftarrow> EE_lstr EE_WAPP3_NUM 32 s;  s \<leftarrow> AddBuf ''NUMBER3'' lstr s;
     s \<leftarrow> EE_lstr EE_WAPP3_KEY 32 s;  s \<leftarrow> AddBuf ''KEY3'' lstr s;
     s \<leftarrow> EE_lstr EE_WAPP3_NAME 64 s; s \<leftarrow> AddBuf ''NAME3'' lstr s;
     s \<leftarrow> EE_lstr EE_WAPP4_NUM 32 s;  s \<leftarrow> AddBuf ''NUMBER4'' lstr s;
     s \<leftarrow> EE_lstr EE_WAPP4_KEY 32 s;  s \<leftarrow> AddBuf ''KEY4'' lstr s;
     s \<leftarrow> EE_lstr EE_WAPP4_NAME 64 s; s \<leftarrow> AddBuf ''NAME4'' lstr s;
     s \<leftarrow> EE_lstr EE_WAPP5_NUM 32 s;  s \<leftarrow> AddBuf ''NUMBER5'' lstr s;
     s \<leftarrow> EE_lstr EE_WAPP5_KEY 32 s;  s \<leftarrow> AddBuf ''KEY5'' lstr s;
     s \<leftarrow> EE_lstr EE_WAPP5_NAME 64 s; s \<leftarrow> AddBuf ''NAME5'' lstr s;
     s \<leftarrow> CloseTag ''WHATSAPP'' s;
     finish s }"

definition XMLMQTT :: "sys \<Rightarrow> (u16 \<times> sys) option" where
  "XMLMQTT s = do {
     let s = CreateXMLHeader s;
     s \<leftarrow> OpenTag ''MQTT'' s;
     s \<leftarrow> AddOnOff ''ENABLE'' (eeRd8 EE_MQTT_ENABLE (ee s)) s;
     s \<leftarrow> EE_twi_buf EE_MQTT_SERVER 64 s; s \<leftarrow> AddBuf ''SERVER'' twi_buf s;
     s \<leftarrow> AddTmp ''PORT'' (dec (unat (eeRd16 EE_MQTT_PORT (ee s)))) s;
     s \<leftarrow> EE_twi_buf EE_MQTT_UNAME 32 s; s \<leftarrow> AddBuf ''USERNAME'' twi_buf s;
     s \<leftarrow> EE_twi_buf EE_MQTT_PASS 32 s; s \<leftarrow> AddBuf ''PASS'' twi_buf s;
     s \<leftarrow> EE_twi_buf EE_MQTT_TOPIC 64 s; s \<leftarrow> AddBuf ''TOPIC'' twi_buf s;
     s \<leftarrow> AddTmp ''KEEPALIVE'' (decb (eeRd8 EE_MQTT_KEEPALIVE (ee s))) s;
     s \<leftarrow> AddTmp ''QOS'' (decb (eeRd8 EE_MQTT_QOS (ee s))) s;
     s \<leftarrow> AddTmp ''PERIOD'' (decb (eeRd8 EE_MQTT_PERIOD (ee s))) s;
     s \<leftarrow> CloseTag ''MQTT'' s;
     finish s }"

definition XMLOk :: "sys \<Rightarrow> (u16 \<times> sys) option" where
  "XMLOk s = do {
     let s = CreateXMLHeader s;
     s \<leftarrow> OpenTag ''STATE'' s;
     s \<leftarrow> AddTag ''OK'' (str ''ok'') s;
     s \<leftarrow> CloseTag ''STATE'' s;
     finish s }"

definition input_delay :: "nat \<Rightarrow> sys \<Rightarrow> sys option" where
  "input_delay cnt s = AddTmp (numbered ''DELAY'' cnt '''')
     (delay_text (d_DELAY (dinput s ! cnt)) (NVRAM_Read32 (NV_DELAY_IN1 + cnt * 4) (nv s))) s"

definition XMLOnlineInput :: "sys \<Rightarrow> (u16 \<times> sys) option" where
  "XMLOnlineInput s = do {
     let s = CreateXMLHeader s;
     s \<leftarrow> OpenTag ''ONLINE'' s;
     s \<leftarrow> EE_lstr EE_INPUT_NAME1 32 s; s \<leftarrow> AddBuf ''IN1NAME'' lstr s;
     s \<leftarrow> EE_lstr EE_INPUT_NAME2 32 s; s \<leftarrow> AddBuf ''IN2NAME'' lstr s;
     s \<leftarrow> EE_lstr EE_INPUT_NAME3 32 s; s \<leftarrow> AddBuf ''IN3NAME'' lstr s;
     s \<leftarrow> AddTag ''STAT1'' (if d_state (dinput s ! 0) = 0 then str ''OPEN'' else str ''CLOSE'') s;
     s \<leftarrow> AddTag ''STAT2'' (if d_state (dinput s ! 1) = 0 then str ''OPEN'' else str ''CLOSE'') s;
     s \<leftarrow> AddTag ''STAT3'' (if d_state (dinput s ! 2) = 0 then str ''OPEN'' else str ''CLOSE'') s;
     s \<leftarrow> AddTag ''ALARM1'' (if d_alarm (dinput s ! 0) = 0 then str ''NONE'' else str ''ALARM'') s;
     s \<leftarrow> AddTag ''ALARM2'' (if d_alarm (dinput s ! 1) = 0 then str ''NONE'' else str ''ALARM'') s;
     s \<leftarrow> AddTag ''ALARM3'' (if d_alarm (dinput s ! 2) = 0 then str ''NONE'' else str ''ALARM'') s;
     s \<leftarrow> each input_delay [0..<3] s;
     s \<leftarrow> CloseTag ''ONLINE'' s;
     finish s }"

end
