(* ===== verification/Http.thy ===== *)
theory Http
  imports Sva_Tags Xml_Tags
begin

section \<open>The application side of the HTTP server (\<open>httpd.c\<close>, \<open>fs.c\<close>)\<close>

text \<open>
  The three POST callbacks of \<open>httpd.c\<close> collect a request body in \<open>post_buffer\<close> and call the
  handler its URI names. \<open>http_find_file\<close> and \<open>fs_open\<close> serve a GET: \<open>fs_open\<close> asks
  \<open>checkAuth\<close> before it serves an HTML file and calls the page function an XML name stands for.
  The TCP side of the server is theory \<open>Connection\<close>. The files of the file system and of \<open>fsdata.c\<close> have no
  content here: \<open>Other_file\<close> is the name such a file is looked up under.

  \<open>env\<close> collects what the handlers take from outside: \<open>atof\<close>, \<open>my_ftoa\<close>,
  \<open>lfs_remove\<close>, the result of reading the directory, and what the stack holds where the source
  reads a local before it is set.
\<close>

record env =
  e_atof :: "bytes \<Rightarrow> u32"
  e_ftoa :: "nat \<Rightarrow> u32 \<Rightarrow> bytes"
  e_remove :: "bytes \<Rightarrow> dirent list \<Rightarrow> int \<times> dirent list"
  e_dir :: int
  e_bcode :: bytes
  e_loc :: bytes
  e_stk32 :: bytes
  e_stk64 :: bytes
  e_stk80 :: bytes
  e_cnt :: byte

subsection \<open>Receiving a request body\<close>

record http =
  post_buf_write_pos :: nat
  post_buffer :: bytes
  post_funkcija :: bytes
  authen_uri :: bytes
  dev :: sys

definition http_ok :: "http \<Rightarrow> bool" where
  "http_ok h \<longleftrightarrow> length (post_buffer h) = 4096 \<and> length (post_funkcija h) = 64
     \<and> length (authen_uri h) = 100 \<and> sys_ok (dev h)"

definition httpd_post_begin :: "bytes \<Rightarrow> http \<Rightarrow> http option" where
  "httpd_post_begin uri h = do {
     let h = h\<lparr>post_buf_write_pos := 0\<rparr>;
     b \<leftarrow> poke 0 (uri @ [0]) (post_funkcija h);
     Some (h\<lparr>post_funkcija := b\<rparr>) }"

text \<open>Only the first \<open>pbuf\<close> of a chain is copied; \<open>data\<close> is its payload.\<close>

definition httpd_post_receive_data :: "bytes \<Rightarrow> http \<Rightarrow> http option" where
  "httpd_post_receive_data data h = do {
     b \<leftarrow> poke (post_buf_write_pos h) data (post_buffer h);
     Some (h\<lparr>post_buffer := b, post_buf_write_pos := post_buf_write_pos h + length data\<rparr>) }"

text \<open>
  What \<open>httpd_post_finished\<close> ends in: \<open>/reset.sva\<close> and \<open>/boot.sva\<close> never return, the
  watchdog restarts the processor.
\<close>

datatype outcome = Running http | Restart | Bootloader

definition uri_is :: "string \<Rightarrow> bytes \<Rightarrow> bool" where
  "uri_is t f \<longleftrightarrow> take (length t) (cut f) = str t"

definition on_dev :: "(sys \<Rightarrow> sys option) \<Rightarrow> http \<Rightarrow> outcome option" where
  "on_dev f h = do { s \<leftarrow> f (dev h); Some (Running (h\<lparr>dev := s\<rparr>)) }"

definition httpd_post_finished :: "env \<Rightarrow> http \<Rightarrow> outcome option" where
  "httpd_post_finished E h = do {
     b \<leftarrow> poke (post_buf_write_pos h) [0] (post_buffer h);
     let h = h\<lparr>post_buffer := b\<rparr>;
     let f = post_funkcija h;
     let len = (of_nat (post_buf_write_pos h) :: u16);
     (if uri_is ''/savenet.sva'' f then on_dev (SaveNet b len) h
      else if uri_is ''/savetime.sva'' f then on_dev (SaveTime b len) h
      else if uri_is ''/savesntp.sva'' f then on_dev (SaveSNTP b len) h
      else if uri_is ''/testsntp.sva'' f then on_dev (TestSNTP (e_stk32 E) b len) h
      else if uri_is ''/delfile0.sva'' f then
        on_dev (\<lambda>s. map_option snd (DelFile0 (e_remove E) (e_stk32 E) b len s)) h
      else if uri_is ''/reset.sva'' f then Some Restart
      else if uri_is ''/sensor1.sva'' f then on_dev (Sensor (e_atof E) (e_loc E) 0 b len) h
      else if uri_is ''/sensor2.sva'' f then on_dev (Sensor (e_atof E) (e_loc E) 1 b len) h
      else if uri_is ''/sensor3.sva'' f then on_dev (Sensor (e_atof E) (e_loc E) 2 b len) h
      else if uri_is ''/sensor4.sva'' f then on_dev (Sensor (e_atof E) (e_loc E) 3 b len) h
      else if uri_is ''/sensor5.sva'' f then on_dev (Sensor (e_atof E) (e_loc E) 4 b len) h
      else if uri_is ''/sensor6.sva'' f then on_dev (Sensor (e_atof E) (e_loc E) 5 b len) h
      else if uri_is ''/sensor7.sva'' f then on_dev (Sensor (e_atof E) (e_loc E) 6 b len) h
      else if uri_is ''/sensor8.sva'' f then on_dev (Sensor (e_atof E) (e_loc E) 7 b len) h
      else if uri_is ''/pass.sva'' f then on_dev (Pass b len) h
      else if uri_is ''/savesms.sva'' f then on_dev (SaveSms b len) h
      else if uri_is ''/testsms.sva'' f then on_dev (TestSms (e_stk64 E) b len) h
      else if uri_is ''/savewapp.sva'' f then on_dev (SaveWApp b len) h
      else if uri_is ''/wapptest.sva'' f then on_dev (TestWApp (e_stk64 E) b len) h
      else if uri_is ''/savesample.sva'' f then on_dev (SaveSample b len) h
      else if uri_is ''/input.sva'' f then on_dev (SaveInput (e_loc E) b len) h
      else if uri_is ''/savemqtt.sva'' f then on_dev (SaveMQTT b len) h
      else if uri_is ''/boot.sva'' f then Some Bootloader
      else Some (Running h)) }"

text \<open>A whole request: the body arrives in pieces.\<close>

fun receive_all :: "bytes list \<Rightarrow> http \<Rightarrow> http option" where
  "receive_all [] h = Some h"
| "receive_all (d # ds) h = do { h \<leftarrow> httpd_post_receive_data d h; receive_all ds h }"

definition post :: "env \<Rightarrow> bytes \<Rightarrow> bytes list \<Rightarrow> http \<Rightarrow> outcome option" where
  "post E uri ds h = do {
     h \<leftarrow> httpd_post_begin uri h;
     h \<leftarrow> receive_all ds h;
     httpd_post_finished E h }"

subsection \<open>Serving a file\<close>

text \<open>
  The extension behind the first point, up to \<open>(\<close>, \<open>?\<close> or the end of the name, in
  \<open>ekstenzija[10]\<close>; the loops run off a name without a point.
\<close>

fun ext_copy :: "bytes \<Rightarrow> bytes \<Rightarrow> bytes option" where
  "ext_copy e [] = None"
| "ext_copy e (c # cs) =
     (if c = 0 \<or> c = asc CHR ''('' \<or> c = asc CHR ''?'' then (if length e < 10 then Some e else None)
      else if length e < 10 then ext_copy (e @ [c]) cs else None)"

fun extension :: "bytes \<Rightarrow> bytes option" where
  "extension [] = None"
| "extension (c # cs) = (if c = asc CHR ''.'' then ext_copy [] cs else extension cs)"

text \<open>The name that is served: an HTML file only after \<open>checkAuth\<close> accepted the URI.\<close>

definition gate :: "bytes \<Rightarrow> http \<Rightarrow> bytes \<Rightarrow> bytes option" where
  "gate stk h name =
     (if cut name = str ''/login.html'' then Some (cut name)
      else do {
        e \<leftarrow> extension name;
        (if e = str ''html'' then do {
           ok \<leftarrow> checkAuth (authen_uri h) (cut (user_name (dev h))) (cut (pass_word (dev h))) stk;
           Some (if ok then cut name else str ''/login.html'') }
         else Some (cut name)) })"

datatype served = Document u16 | Other_file bytes

definition xml_page :: "env \<Rightarrow> bytes \<Rightarrow> (sys \<Rightarrow> (u16 \<times> sys) option) option" where
  "xml_page E name =
     (if name = str ''/disk0.xml'' then Some (XMLDisk (e_dir E))
      else if name = str ''/mreza.xml'' then Some XMLMreza
      else if name = str ''/time.xml'' then Some XMLTime
      else if name = str ''/sntp.xml'' then Some XMLSNTP
      else if name = str ''/logfile.xml'' then Some (XMLLogfile (e_dir E))
      else if name = str ''/sensor1.xml'' then Some (XMLSensor (e_ftoa E) 0)
      else if name = str ''/sensor2.xml'' then Some (XMLSensor (e_ftoa E) 1)
      else if name = str ''/sensor3.xml'' then Some (XMLSensor (e_ftoa E) 2)
      else if name = str ''/sensor4.xml'' then Some (XMLSensor (e_ftoa E) 3)
      else if name = str ''/sensor5.xml'' then Some (XMLSensor (e_ftoa E) 4)
      else if name = str ''/sensor6.xml'' then Some (XMLSensor (e_ftoa E) 5)
      else if name = str ''/sensor7.xml'' then Some (XMLSensor (e_ftoa E) 6)
      else if name = str ''/sensor8.xml'' then Some (XMLSensor (e_ftoa E) 7)
      else if name = str ''/home.xml'' then Some (XMLHome (e_ftoa E))
      else if name = str ''/code.xml'' then Some (XMLCode (e_bcode E))
      else if name = str ''/online.xml'' then Some (XMLOnline (e_ftoa E) (e_cnt E))
      else if name = str ''/sms.xml'' then Some XMLSms
      else if name = str ''/credit.xml'' then Some XMLCredit
      else if name = str ''/startcredit.xml'' then Some XMLStartCredit
      else if name = str ''/smsstatus.xml'' then Some XMLSmsstatus
      else if name = str ''/sample.xml'' then Some XMLSample
      else if name = str ''/haccp.xml'' then Some (XMLHaccp (e_dir E))
      else if name = str ''/ok.xml'' then Some XMLOk
      else if name = str ''/ulazi.xml'' then Some XMLUlazi
      else if name = str ''/input.xml'' then Some XMLInput
      else if name = str ''/wapp.xml'' then Some XMLWapp
      else if name = str ''/mqtt.xml'' then Some XMLMQTT
      else if name = str ''/onlineinput.xml'' then Some XMLOnlineInput
      else None)"

definition fs_open :: "env \<Rightarrow> bytes \<Rightarrow> http \<Rightarrow> (served \<times> http) option" where
  "fs_open E name h = do {
     name \<leftarrow> gate (e_stk80 E) h name;
     (case xml_page E name of
        Some page \<Rightarrow> do {
          (len, s) \<leftarrow> page (dev h);
          Some (Document len, h\<lparr>dev := s\<rparr>) }
      | None \<Rightarrow> Some (Other_file name, h)) }"

text \<open>
  \<open>http_find_file\<close>: \<open>/\<close> is \<open>/login.html\<close>; any other URI is copied to
  \<open>authen_uri\<close>, and its parameters are cut off before the file is opened.
\<close>

definition http_find_file :: "env \<Rightarrow> bytes \<Rightarrow> http \<Rightarrow> (served \<times> http) option" where
  "http_find_file E uri h =
     (if uri = str ''/'' then fs_open E (str ''/login.html'' @ [0]) h
      else do {
        b \<leftarrow> poke 0 (uri @ [0]) (authen_uri h);
        fs_open E (takeWhile (\<lambda>c. c \<noteq> asc CHR ''?'') uri @ [0]) (h\<lparr>authen_uri := b\<rparr>) })"

end
