(* ===== verification/Frames.thy ===== *)
theory Frames
  imports Sva_Tags
begin

section \<open>What parsing a request may change\<close>

text \<open>
  Whatever the request holds, looking up a tag and converting its value changes the arrays
  \<open>tb\<close>, \<open>pb\<close>, \<open>rBuf\<close> and the pointer \<open>iBuf\<close> only, and keeps the sizes of the arrays.
\<close>

definition rest :: "sys \<Rightarrow> sys" where
  "rest s = s\<lparr>tb := [], pb := [], iBuf := 0, rBuf := []\<rparr>"

definition parses :: "sys \<Rightarrow> sys \<Rightarrow> bool" where
  "parses s s' \<longleftrightarrow> rest s' = rest s \<and> length (tb s') = length (tb s) \<and> length (pb s') = length (pb s)
     \<and> length (rBuf s') = length (rBuf s)"

named_theorems parse_frame

lemma parses_refl [simp]: "parses s s"
  by (simp add: parses_def)

lemma parses_trans: "parses s s' \<Longrightarrow> parses s' s'' \<Longrightarrow> parses s s''"
  by (simp add: parses_def)

lemma parses_upd:
  "parses s (s'\<lparr>iBuf := i\<rparr>) \<longleftrightarrow> parses s s'"
  "length t = length (tb s) \<Longrightarrow> parses s (s\<lparr>tb := t\<rparr>)"
  "length t = length (pb s) \<Longrightarrow> parses s (s\<lparr>pb := t\<rparr>)"
  "length t = length (rBuf s) \<Longrightarrow> parses s (s\<lparr>rBuf := t\<rparr>)"
  by (auto simp: parses_def rest_def)

lemma parses_adv [simp]: "parses s (adv n s') \<longleftrightarrow> parses s s'"
  by (simp add: adv_def parses_upd)

lemma adv_parses [simp]: "parses (adv n s) s' \<longleftrightarrow> parses s s'"
  by (simp add: adv_def parses_def rest_def)

lemma parses_keep:
  assumes "parses s s'"
  shows "ee s' = ee s" "nv s' = nv s" "senzor s' = senzor s" "dinput s' = dinput s" "scansetup s' = scansetup s"
    "sntp s' = sntp s"
  using assms by (cases s; cases s'; simp add: parses_def rest_def)+

lemma parses_sys_ok:
  assumes "parses s s'" and "sys_ok s"
  shows "sys_ok s'"
  using assms by (cases s; cases s'; simp add: parses_def rest_def sys_ok_def)

lemma set_tb_parses [parse_frame]: "set_tb i b s = Some s' \<Longrightarrow> parses s s'"
  by (auto simp: set_tb_def parses_upd length_poke split: bind_splits)

lemma store_parses [parse_frame]: "store d i bs s = Some s' \<Longrightarrow> parses s s'"
  by (cases d) (auto simp: store_def parses_upd length_poke split: bind_splits)

lemma parse_tb_parses [parse_frame]: "parse_tb tag msg len s = Some (v, s') \<Longrightarrow> parses s s'"
  by (auto simp: parse_tb_def XMLParser_def parses_upd length_poke split: bind_splits if_splits)

lemma parse_at_parses [parse_frame]: "parse_at tag msg len s = Some (v, s') \<Longrightarrow> parses s s'"
  by (auto simp: parse_at_def parses_upd parse_frame split: bind_splits)

lemma ds_code_loop_parses: "ds_code_loop t acc s = Some (r, s') \<Longrightarrow> parses s s'"
proof (induction t acc s rule: ds_code_loop.induct)
  case (1 t acc s)
  from "1.prems" show ?case
    by (subst (asm) ds_code_loop.simps) (auto split: if_splits option.splits dest!: "1.IH" simp: adv_def parses_def rest_def)
qed

lemma int_loop_parses: "int_loop t acc s = Some (r, s') \<Longrightarrow> parses s s'"
proof (induction t acc s rule: int_loop.induct)
  case (1 t acc s)
  from "1.prems" show ?case
    by (subst (asm) int_loop.simps) (auto split: if_splits option.splits dest!: "1.IH" simp: adv_def parses_def rest_def)
qed

lemma ip_last_loop_parses: "ip_last_loop t acc s = Some (r, s') \<Longrightarrow> parses s s'"
proof (induction t acc s rule: ip_last_loop.induct)
  case (1 t acc s)
  from "1.prems" show ?case
    by (subst (asm) ip_last_loop.simps) (auto split: if_splits option.splits dest!: "1.IH" simp: adv_def parses_def rest_def)
qed

lemma octet_loop_parses: "octet_loop acc s = Some (r, s') \<Longrightarrow> parses s s'"
proof (induction acc s rule: octet_loop.induct)
  case (1 acc s)
  from "1.prems" show ?case
    by (subst (asm) octet_loop.simps) (auto split: if_splits option.splits dest!: "1.IH" simp: adv_def parses_def rest_def)
qed

text \<open>One round of the string loop ends it or moves the pointer on.\<close>

lemma string_loop_round:
  assumes "string_loop t n c s = Some (r, s')"
  shows "(\<exists>u k. parses s u \<and> s' = u\<lparr>iBuf := k\<rparr>)
       \<or> (\<exists>u k c'. iBuf s < t \<and> iBuf s < k \<and> parses s u \<and> string_loop t n c' (u\<lparr>iBuf := k\<rparr>) = Some (r, s'))"
proof (cases "iBuf s < t")
  case False
  with assms have "s' = s\<lparr>iBuf := iBuf s\<rparr>" by (subst (asm) string_loop.simps) simp
  then show ?thesis using parses_refl by blast
next
  case True
  let ?ends = "\<lambda>u. \<exists>k. s' = u\<lparr>iBuf := k\<rparr>"
  let ?goes = "\<lambda>u. \<exists>k c'. iBuf s < k \<and> string_loop t n c' (u\<lparr>iBuf := k\<rparr>) = Some (r, s')"
  have "\<exists>u. parses s u \<and> (?ends u \<or> ?goes u)"
  proof -
    from True assms obtain ch where ch: "cur s = Some ch"
      by (subst (asm) string_loop.simps) (auto split: option.splits)
    consider "string_char ch" | "\<not> string_char ch" "ch = asc CHR ''%''" | "\<not> string_char ch" "ch \<noteq> asc CHR ''%''"
      by blast
    then show ?thesis
    proof cases
      case 1
      with True assms ch obtain u where u: "set_tb (unat c) ch s = Some u"
        by (subst (asm) string_loop.simps) (auto split: option.splits)
      with 1 True assms ch have "?ends u \<or> ?goes u"
        by (subst (asm) string_loop.simps) (auto simp: adv_def split: if_splits)
      with set_tb_parses [OF u] show ?thesis by blast
    next
      case 2
      with True assms ch obtain a where a: "https_read_encoded2 (tb s) (iBuf s + 1) = Some a"
        by (subst (asm) string_loop.simps) (auto split: option.splits)
      show ?thesis
      proof (cases "a = 0x20")
        case a20: True
        with 2 True assms ch a obtain u where u: "set_tb (unat c) a s = Some u"
          by (subst (asm) string_loop.simps) (auto split: option.splits)
        with 2 True assms ch a a20 have "?ends u \<or> ?goes u"
          by (subst (asm) string_loop.simps) (auto simp: adv_def split: if_splits)
        with set_tb_parses [OF u] show ?thesis by blast
      next
        case False
        with 2 True assms ch a have "?ends s \<or> ?goes s"
          by (subst (asm) string_loop.simps) (auto simp: adv_def split: if_splits)
        with parses_refl show ?thesis by blast
      qed
    next
      case 3
      with True assms ch have "?ends s \<or> ?goes s"
        by (subst (asm) string_loop.simps) (auto simp: adv_def split: if_splits)
      with parses_refl show ?thesis by blast
    qed
  qed
  with True show ?thesis by blast
qed

lemma string_loop_parses: "string_loop t n c s = Some (r, s') \<Longrightarrow> parses s s'"
proof (induction "t - iBuf s" arbitrary: c s rule: less_induct)
  case less
  from string_loop_round [OF less.prems] show ?case
  proof (elim disjE exE conjE)
    fix u k assume "parses s u" "s' = u\<lparr>iBuf := k\<rparr>"
    then show ?thesis by (simp add: parses_upd)
  next
    fix u k c' assume u: "iBuf s < t" "iBuf s < k" "parses s u"
      and r: "string_loop t n c' (u\<lparr>iBuf := k\<rparr>) = Some (r, s')"
    have "parses (u\<lparr>iBuf := k\<rparr>) s'" by (rule less.hyps [OF _ r]) (use u in simp)
    moreover have "parses s (u\<lparr>iBuf := k\<rparr>)" using u(3) by (simp add: parses_upd)
    ultimately show ?thesis by (rule parses_trans [rotated])
  qed
qed

lemma temp_loop_parses: "temp_loop t c m s = Some (r, s') \<Longrightarrow> parses s s'"
proof (induction t c m s rule: temp_loop.induct)
  case (1 t c m s)
  have P: "parses s u \<Longrightarrow> parses (u\<lparr>iBuf := k\<rparr>) s' \<Longrightarrow> parses s s'" for u k
    by (rule parses_trans [of s "u\<lparr>iBuf := k\<rparr>"]) (simp_all add: parses_upd)
  have Q: "parses (adv n s) u \<Longrightarrow> parses s u" for u n by simp
  from "1.prems" show ?case
    by (subst (asm) temp_loop.simps)
       (auto simp: Let_def split: if_splits option.splits dest!: "1.IH"
             intro: P [OF set_tb_parses] P [OF Q [OF set_tb_parses]] dest: Q)
qed

text \<open>The conversions.\<close>

lemma DS18B20CodeToArray_parses [parse_frame]: "DS18B20CodeToArray n s = Some (c, s') \<Longrightarrow> parses s s'"
  unfolding DS18B20CodeToArray_def by (rule ds_code_loop_parses)

lemma StringToFile_parses [parse_frame]: "StringToFile d n s = Some (v, s') \<Longrightarrow> parses s s'"
  by (auto simp: StringToFile_def Let_def split: bind_splits option.splits
      dest!: string_loop_parses set_tb_parses store_parses elim!: parses_trans)

lemma getTemp_parses [parse_frame]: "getTemp n s = Some (v, s') \<Longrightarrow> parses s s'"
  by (auto simp: getTemp_def Let_def split: bind_splits option.splits
      dest!: temp_loop_parses set_tb_parses elim!: parses_trans)

lemma IntToFile_parses [parse_frame]: "IntToFile d n s = Some (v, s') \<Longrightarrow> parses s s'"
  by (auto simp: IntToFile_def Let_def split: bind_splits option.splits if_splits
      dest!: int_loop_parses store_parses elim!: parses_trans)

lemma ip_dotted_parses: "ip_dotted d i s = Some (v, s') \<Longrightarrow> parses s s'"
  by (fastforce simp: ip_dotted_def Let_def split: bind_splits option.splits
      dest!: octet_loop_parses store_parses elim: parses_trans)

lemma IPtoFile_parses [parse_frame]: "IPtoFile d n s = Some (v, s') \<Longrightarrow> parses s s'"
  by (auto simp: IPtoFile_def Let_def split: bind_splits option.splits if_splits
      dest!: ip_dotted_parses ip_last_loop_parses store_parses elim!: parses_trans)

end
