(* ===== verification/Params.thy ===== *)
theory Params
  imports Firmware
begin

section \<open>Default settings and loading them at start (\<open>main.c\<close>)\<close>

text \<open>
  \<open>InitParam\<close> runs once at start. If the EEPROM holds the mark \<open>0x55AA\<close> it loads the sensor
  table, the credentials and the input table from it; otherwise it writes the mark and the defaults
  and leaves the tables as they are. \<open>InitNV\<close> clears the logs in the backup SRAM whose mark is
  missing.
\<close>

subsection \<open>Defaults\<close>

text \<open>\<open>strcpy(&rBuf[0], t); rBuf[strlen(t)] = 0; EEwrite(a, &rBuf[0], strlen(t) + 1);\<close>\<close>

definition put_str :: "nat \<Rightarrow> string \<Rightarrow> sys \<Rightarrow> sys option" where
  "put_str a t s = do {
     s \<leftarrow> store RBuf 0 (str t @ [0]) s;
     Some (EE_write a (take (length t + 1) (rBuf s)) s) }"

definition InitSMS :: "sys \<Rightarrow> sys option" where
  "InitSMS s = do {
     s \<leftarrow> store RBuf 0 [193, 105, 74, 59, 0, 80] s;
     let s = EE_write EE_GSM_IP (take 6 (rBuf s)) s;
     s \<leftarrow> put_str EE_GSM_UNAME ''admin'' s;
     s \<leftarrow> put_str EE_GSM_PASS ''admin'' s;
     s \<leftarrow> put_str EE_GSM1_NUM ''0911234567'' s;
     s \<leftarrow> put_str EE_GSM2_NUM ''0911234567'' s;
     s \<leftarrow> put_str EE_GSM3_NUM ''0911234567'' s;
     s \<leftarrow> put_str EE_GSM4_NUM ''0911234567'' s;
     s \<leftarrow> put_str EE_GSM5_NUM ''0911234567'' s;
     s \<leftarrow> put_str EE_GSM1_NAME ''ime 1'' s;
     s \<leftarrow> put_str EE_GSM2_NAME ''ime 2'' s;
     s \<leftarrow> put_str EE_GSM3_NAME ''ime 3'' s;
     s \<leftarrow> put_str EE_GSM4_NAME ''ime 4'' s;
     put_str EE_GSM5_NAME ''ime 5'' s }"

definition InitSNTP :: "sys \<Rightarrow> sys option" where
  "InitSNTP s = do {
     s \<leftarrow> put_str EE_SNTP1 ''hr.pool.ntp.org'' s;
     s \<leftarrow> put_str EE_SNTP2 ''at.pool.ntp.org'' s;
     let s = EE_write EE_TIME_ZONE [1] s;
     let s = EE_write EE_SNTP_STATE [1] s;
     Some (EE_write EE_DST_ACTIVETIME [1] s) }"

text \<open>The block of one sensor: 256 zeros with four cells set (the other stores are zeros again).\<close>

definition sensor_block :: bytes where
  "sensor_block = (replicate 256 0)[EE_LOW_ALARM := 10, EE_HIGH_ALARM := 40, EE_HIST := 1, EE_CHANNEL := 1]"

definition init_sensor :: "nat \<Rightarrow> sys \<Rightarrow> sys option" where
  "init_sensor i s = do {
     s \<leftarrow> store RBuf 0 sensor_block s;
     let s = EE_write (0x100 * (i + 1)) (take 64 (rBuf s)) s;
     s \<leftarrow> store RBuf 0 (str ''Senzor'' @ [0]) s;
     s \<leftarrow> store RBuf 6 [49 + of_nat i, 0] s;
     Some (EE_write (0x100 * (i + 1) + EE_SENSOR_NAME) (take 32 (rBuf s)) s) }"

fun init_sensors_from :: "nat list \<Rightarrow> sys \<Rightarrow> sys option" where
  "init_sensors_from [] s = Some s"
| "init_sensors_from (i # is) s = do { s \<leftarrow> init_sensor i s; init_sensors_from is s }"

definition InitSensors :: "sys \<Rightarrow> sys option" where
  "InitSensors = init_sensors_from [0..<8]"

subsection \<open>Battery backed memory\<close>

definition NV_MARK :: u32 where "NV_MARK = 0x0155AAFE"

definition InitNV :: "bytes \<Rightarrow> bytes" where
  "InitNV m =
     (let m = (if NVRAM_Read32 NV_LOGGER_INIT m \<noteq> NV_MARK
               then fold (\<lambda>cnt. NVRAM_Write32 (NV_LOGGER_INIT + cnt * 4 + 4) 0) [0..<16]
                      (NVRAM_Write32 NV_LOGGER_INIT NV_MARK m)
               else m)
      in if NVRAM_Read32 NV_MKT_INIT m \<noteq> NV_MARK
         then fold (\<lambda>cnt. NVRAM_Write32 (NV_MKT_SEN1 + cnt * 4) 0) [0..<160]
                (fold (\<lambda>cnt. NVRAM_Write32 (NV_MKT_COUNT_SEN1 + cnt * 4) 0) [0..<8]
                   (NVRAM_Write32 NV_MKT_INIT NV_MARK m))
         else m)"

subsection \<open>\<open>InitParam\<close>\<close>

definition load_sensor :: "nat \<Rightarrow> sys \<Rightarrow> sys option" where
  "load_sensor i s = do {
     let ee_block = 0x100 * (i + 1);
     s \<leftarrow> store RBuf 0 (eeRd ee_block 0x30 (ee s)) s;
     let r = rBuf s;
     Some (upd_sensor i (\<lambda>x. x\<lparr>CODE := take 8 r, LOWLIMIT := r ! EE_LOW_ALARM,
             HIGHLIMIT := r ! EE_HIGH_ALARM, HIS := r ! EE_HIST, ENBLE := r ! EE_SENSOR_ACTIVE,
             KANAL := r ! EE_CHANNEL, DELAY := eeRd16 (ee_block + EE_DELAY) (ee s),
             kalibracija := eeRd32 (ee_block + EE_CALIB) (ee s)\<rparr>) s) }"

fun load_sensors_from :: "nat list \<Rightarrow> sys \<Rightarrow> sys option" where
  "load_sensors_from [] s = Some s"
| "load_sensors_from (i # is) s = do { s \<leftarrow> load_sensor i s; load_sensors_from is s }"

definition set_user :: "bytes \<Rightarrow> sys \<Rightarrow> sys option" where
  "set_user v s = do { b \<leftarrow> poke 0 v (user_name s); Some (s\<lparr>user_name := b\<rparr>) }"

definition set_pass :: "bytes \<Rightarrow> sys \<Rightarrow> sys option" where
  "set_pass v s = do { b \<leftarrow> poke 0 v (pass_word s); Some (s\<lparr>pass_word := b\<rparr>) }"

definition load_input :: "nat \<Rightarrow> nat \<Rightarrow> nat \<Rightarrow> nat \<Rightarrow> sys \<Rightarrow> sys" where
  "load_input i al tip del s =
     upd_input i (\<lambda>d. d\<lparr>d_enable := eeRd8 al (ee s), d_type := eeRd8 tip (ee s), d_DELAY := eeRd16 del (ee s)\<rparr>) s"

definition load_params :: "bool \<Rightarrow> sys \<Rightarrow> sys option" where
  "load_params jumper s = do {
     s \<leftarrow> load_sensors_from [0..<8] s;
     s \<leftarrow> (if \<not> jumper then do {
             s \<leftarrow> set_user (str ''s'' @ [0]) s;
             set_pass (str ''s'' @ [0]) s }
           else do {
             s \<leftarrow> set_pass (eeRd EE_PASS 16 (ee s)) s;
             set_user (eeRd EE_USERNAME 16 (ee s)) s });
     let s = s\<lparr>scansetup := eeRd16 EE_SCAN_TIME (ee s),
               sntp := (sntp s)\<lparr>dston := eeRd8 EE_DST_STATE (ee s), sntpon := eeRd8 EE_SNTP_STATE (ee s)\<rparr>\<rparr>;
     let s = load_input 0 EE_INPUT_ALARM1 EE_INPUT_TIP1 EE_INPUT_DELAY1 s;
     let s = load_input 1 EE_INPUT_ALARM2 EE_INPUT_TIP2 EE_INPUT_DELAY2 s;
     Some (load_input 2 EE_INPUT_ALARM3 EE_INPUT_TIP3 EE_INPUT_DELAY3 s) }"

definition write_defaults :: "sys \<Rightarrow> sys option" where
  "write_defaults s = do {
     let s = EE_write EE_INIT (split16 0x55AA) s;
     let s = EE_write EE_IP (split32 0xC0A801C8) s;
     let s = EE_write EE_SUBNET (split32 0xFFFFFF00) s;
     let s = EE_write EE_GATEWAY (split32 0xC0A80101) s;
     let s = EE_write EE_DNS (split32 0x08080808) s;
     let s = EE_write EE_HTTP_PORT (split16 80) s;
     let s = EE_write EE_DDNS_STATE [0] s;
     let s = EE_write EE_DHCP_STATE [0] s;
     s \<leftarrow> store RBuf 0 (str ''myhostname.com'' @ [0]) s;
     let s = EE_write EE_DDNS_HOST (take 32 (rBuf s)) s;
     s \<leftarrow> store RBuf 0 (str ''Larus Webtermo'' @ [0]) s;
     let s = EE_write EE_OBJECT_NAME (take 32 (rBuf s)) s;
     s \<leftarrow> store RBuf 0 (str ''s'' @ [0]) s;
     let s = EE_write EE_PASS (take 16 (rBuf s)) s;
     let s = EE_write EE_USERNAME (take 16 (rBuf s)) s;
     s \<leftarrow> set_user (str ''s'' @ [0]) s;
     s \<leftarrow> set_pass (str ''s'' @ [0]) s;
     let s = EE_write EE_SCAN_TIME (split16 15) s;
     s \<leftarrow> InitSensors s;
     s \<leftarrow> InitSMS s;
     InitSNTP s }"

text \<open>\<open>jumper\<close> is \<open>GetResetJumperState\<close>, the state of the reset jumper.\<close>

definition InitParam :: "bool \<Rightarrow> sys \<Rightarrow> sys option" where
  "InitParam jumper s =
     (if eeRd16 EE_INIT (ee s) = 0x55AA then load_params jumper s else write_defaults s)"

subsection \<open>\<open>InitNV\<close> clears once\<close>

text \<open>A run of words cleared.\<close>

definition clear_words :: "nat \<Rightarrow> nat \<Rightarrow> bytes \<Rightarrow> bytes" where
  "clear_words base n = fold (\<lambda>cnt. NVRAM_Write32 (base + cnt * 4) 0) [0..<n]"

lemma clear_words:
  assumes "length m = NV_SIZE" and "base + n * 4 \<le> NV_SIZE" and "a + 4 \<le> NV_SIZE"
  shows "length (clear_words base n m) = NV_SIZE
     \<and> (a + 4 \<le> base \<or> base + n * 4 \<le> a \<longrightarrow> NVRAM_Read32 a (clear_words base n m) = NVRAM_Read32 a m)
     \<and> (\<forall>k < n. NVRAM_Read32 (base + k * 4) (clear_words base n m) = 0)"
  using assms(2)
proof (induction n)
  case 0
  with assms show ?case by (simp add: clear_words_def)
next
  case (Suc n)
  let ?c = "clear_words base n m"
  have s: "clear_words base (Suc n) m = NVRAM_Write32 (base + n * 4) 0 ?c" by (simp add: clear_words_def)
  have IH: "length ?c = NV_SIZE"
     "a + 4 \<le> base \<or> base + n * 4 \<le> a \<Longrightarrow> NVRAM_Read32 a ?c = NVRAM_Read32 a m"
     "\<And>k. k < n \<Longrightarrow> NVRAM_Read32 (base + k * 4) ?c = 0" using Suc by auto
  have other: "NVRAM_Read32 b (NVRAM_Write32 (base + n * 4) 0 ?c) = NVRAM_Read32 b ?c"
    if "b + 4 \<le> base + n * 4 \<or> base + n * 4 + 4 \<le> b" "b + 4 \<le> NV_SIZE" for b
    using that IH(1) Suc.prems by (intro NVRAM_other) auto
  have "NVRAM_Read32 (base + k * 4) (NVRAM_Write32 (base + n * 4) 0 ?c) = 0" if "k < Suc n" for k
  proof (cases "k = n")
    case True
    then show ?thesis using IH(1) Suc.prems by (simp add: NVRAM_same)
  next
    case False
    with that have "k < n" by simp
    then have "base + k * 4 + 4 \<le> base + n * 4" by simp
    with \<open>k < n\<close> show ?thesis using other [of "base + k * 4"] IH(3) Suc.prems by simp
  qed
  then show ?case unfolding s using IH(1,2) other [of a] Suc.prems assms(3) by auto
qed

lemma InitNV_eq:
  "InitNV m =
     (let m = (if NVRAM_Read32 NV_LOGGER_INIT m \<noteq> NV_MARK
               then clear_words NV_SUM_SEN1 16 (NVRAM_Write32 NV_LOGGER_INIT NV_MARK m) else m)
      in if NVRAM_Read32 NV_MKT_INIT m \<noteq> NV_MARK
         then clear_words NV_MKT_SEN1 160 (clear_words NV_MKT_COUNT_SEN1 8 (NVRAM_Write32 NV_MKT_INIT NV_MARK m)) else m)"
  by (simp add: InitNV_def clear_words_def Let_def)

lemma InitNV_marks:
  assumes "length m = NV_SIZE"
  shows "length (InitNV m) = NV_SIZE \<and> NVRAM_Read32 NV_LOGGER_INIT (InitNV m) = NV_MARK
     \<and> NVRAM_Read32 NV_MKT_INIT (InitNV m) = NV_MARK"
proof -
  define m1 where "m1 = (if NVRAM_Read32 NV_LOGGER_INIT m \<noteq> NV_MARK
               then clear_words NV_SUM_SEN1 16 (NVRAM_Write32 NV_LOGGER_INIT NV_MARK m) else m)"
  have 1: "length m1 = NV_SIZE" "NVRAM_Read32 NV_LOGGER_INIT m1 = NV_MARK"
    using assms clear_words [of "NVRAM_Write32 NV_LOGGER_INIT NV_MARK m" NV_SUM_SEN1 16 NV_LOGGER_INIT]
    by (auto simp: m1_def NV_SIZE_def NVRAM_same)
  let ?m = "NVRAM_Write32 NV_MKT_INIT NV_MARK m1"
  let ?c = "clear_words NV_MKT_COUNT_SEN1 8 ?m"
  have 2: "length ?m = NV_SIZE" "NVRAM_Read32 NV_LOGGER_INIT ?m = NV_MARK" "NVRAM_Read32 NV_MKT_INIT ?m = NV_MARK"
    using 1 by (auto simp: NV_SIZE_def NVRAM_same NVRAM_other)
  have 3: "length ?c = NV_SIZE" "NVRAM_Read32 NV_LOGGER_INIT ?c = NV_MARK" "NVRAM_Read32 NV_MKT_INIT ?c = NV_MARK"
    using 2 clear_words [of ?m NV_MKT_COUNT_SEN1 8 NV_LOGGER_INIT] clear_words [of ?m NV_MKT_COUNT_SEN1 8 NV_MKT_INIT]
    by (auto simp: NV_SIZE_def)
  have "InitNV m = (if NVRAM_Read32 NV_MKT_INIT m1 \<noteq> NV_MARK then clear_words NV_MKT_SEN1 160 ?c else m1)"
    by (simp only: InitNV_eq m1_def Let_def)
  then show ?thesis
    using 1 3 clear_words [of ?c NV_MKT_SEN1 160 NV_LOGGER_INIT] clear_words [of ?c NV_MKT_SEN1 160 NV_MKT_INIT]
    by (auto simp: NV_SIZE_def)
qed

lemma InitNV_id: "NVRAM_Read32 NV_LOGGER_INIT m = NV_MARK \<Longrightarrow> NVRAM_Read32 NV_MKT_INIT m = NV_MARK \<Longrightarrow> InitNV m = m"
  by (simp add: InitNV_def)

lemma InitNV_idem: "length m = NV_SIZE \<Longrightarrow> InitNV (InitNV m) = InitNV m"
  using InitNV_marks [of m] by (simp add: InitNV_id)

lemma InitNV_fresh_counts:
  assumes "length m = NV_SIZE" and "NVRAM_Read32 NV_MKT_INIT m \<noteq> NV_MARK" and "k < 8"
  shows "NVRAM_Read32 (NV_MKT_COUNT_SEN1 + k * 4) (InitNV m) = 0"
proof -
  define m1 where "m1 = (if NVRAM_Read32 NV_LOGGER_INIT m \<noteq> NV_MARK
               then clear_words NV_SUM_SEN1 16 (NVRAM_Write32 NV_LOGGER_INIT NV_MARK m) else m)"
  have 1: "length m1 = NV_SIZE" "NVRAM_Read32 NV_MKT_INIT m1 \<noteq> NV_MARK"
    using assms clear_words [of "NVRAM_Write32 NV_LOGGER_INIT NV_MARK m" NV_SUM_SEN1 16 NV_MKT_INIT]
      NVRAM_other [of m NV_LOGGER_INIT NV_MKT_INIT NV_MARK]
    by (auto simp: m1_def NV_SIZE_def)
  let ?m = "NVRAM_Write32 NV_MKT_INIT NV_MARK m1"
  let ?c = "clear_words NV_MKT_COUNT_SEN1 8 ?m" and ?a = "NV_MKT_COUNT_SEN1 + k * 4"
  have 2: "length ?m = NV_SIZE" using 1(1) by simp
  have 3: "length ?c = NV_SIZE" "NVRAM_Read32 ?a ?c = 0"
    using 2 assms(3) clear_words [of ?m NV_MKT_COUNT_SEN1 8 0] by (auto simp: NV_SIZE_def)
  have "InitNV m = (if NVRAM_Read32 NV_MKT_INIT m1 \<noteq> NV_MARK then clear_words NV_MKT_SEN1 160 ?c else m1)"
    by (simp only: InitNV_eq m1_def Let_def)
  then have "InitNV m = clear_words NV_MKT_SEN1 160 ?c" using 1(2) by simp
  then show ?thesis using 3 assms(3) clear_words [of ?c NV_MKT_SEN1 160 ?a] by (auto simp: NV_SIZE_def)
qed

lemma InitNV_fresh:
  assumes "length m = NV_SIZE" and "NVRAM_Read32 NV_MKT_INIT m \<noteq> NV_MARK"
  shows "mkt_ok (InitNV m) \<and> map (mkt_log (InitNV m)) [0..<8] = replicate 8 []"
proof -
  have "NVRAM_Read32 (mkt_count_at k) (InitNV m) = 0" if "k < 8" for k
    using InitNV_fresh_counts [OF assms that] by (simp add: mkt_count_at_def)
  then have "mkt_ok (InitNV m)" "\<And>k. k < 8 \<Longrightarrow> mkt_log (InitNV m) k = []"
    using InitNV_marks [OF assms(1)] by (auto simp: mkt_ok_def list_all_iff mkt_log_def mkt_samples_def)
  then show ?thesis by (auto intro!: nth_equalityI)
qed

text \<open>Samples of all sensors, in the order they are taken.\<close>

definition log_samples :: "(nat \<times> u32) list \<Rightarrow> bytes \<Rightarrow> bytes" where
  "log_samples xs = fold (\<lambda>(i, x). UpdateMKT (mkt_at i) (mkt_count_at i) x) xs"

definition last_n :: "nat \<Rightarrow> 'a list \<Rightarrow> 'a list" where
  "last_n n xs = drop (length xs - n) xs"

lemma log_append_last_n: "0 < n \<Longrightarrow> log_append n x (last_n n xs) = last_n n (xs @ [x])"
proof -
  assume "0 < n"
  show ?thesis
  proof (cases "length xs < n")
    case True
    then show ?thesis by (simp add: log_append_def last_n_def)
  next
    case False
    then have "tl (drop (length xs - n) xs) = drop (length xs - n + 1) xs" by (simp add: drop_Suc tl_drop)
    then show ?thesis using False \<open>0 < n\<close> by (simp add: log_append_def last_n_def Suc_diff_le)
  qed
qed

lemma log_samples_history:
  assumes "mkt_ok m" and "map (mkt_log m) [0..<8] = replicate 8 []"
  shows "\<forall>(i, x) \<in> set xs. i < 8 \<Longrightarrow> mkt_ok (log_samples xs m)
     \<and> map (mkt_log (log_samples xs m)) [0..<8]
       = map (\<lambda>k. last_n 20 (map snd (filter (\<lambda>(i, x). i = k) xs))) [0..<8]"
proof (induction xs rule: rev_induct)
  case Nil
  then show ?case using assms by (simp add: log_samples_def last_n_def map_replicate_trivial)
next
  case (snoc p xs)
  obtain i x where p: "p = (i, x)" by force
  let ?m = "log_samples xs m"
  let ?h = "\<lambda>ys k. last_n 20 (map snd (filter (\<lambda>(i, x). i = k) ys))"
  have i: "i < 8" and IH: "mkt_ok ?m" "map (mkt_log ?m) [0..<8] = map (?h xs) [0..<8]"
    using snoc p by auto
  have s: "log_samples (xs @ [p]) m = UpdateMKT (mkt_at i) (mkt_count_at i) x ?m"
    by (simp add: log_samples_def p)
  have "mkt_log ?m i = map (mkt_log ?m) [0..<8] ! i" using i by (subst nth_map) simp_all
  also have "\<dots> = ?h xs i" unfolding IH(2) using i by (subst nth_map) simp_all
  finally have own: "mkt_log ?m i = ?h xs i" .
  have "(map (?h xs) [0..<8])[i := log_append 20 x (?h xs i)] = map (?h (xs @ [p])) [0..<8]"
  proof (rule nth_equalityI)
    fix k assume "k < length ((map (?h xs) [0..<8])[i := log_append 20 x (?h xs i)])"
    then have k: "k < 8" by simp
    then have "map f [0..<8] ! k = f k" for f :: "nat \<Rightarrow> u32 list" by (subst nth_map) simp_all
    then show "(map (?h xs) [0..<8])[i := log_append 20 x (?h xs i)] ! k = map (?h (xs @ [p])) [0..<8] ! k"
      using k by (cases "k = i") (simp_all add: nth_list_update p log_append_last_n)
  qed simp
  then show ?case using UpdateMKT_logs [OF IH(1) i, of x] unfolding s IH(2) own by simp
qed

end
