(* ===== verification/Sync.thy ===== *)
theory Sync
  imports Frames Params
begin

section \<open>The sensor table and its copy in the EEPROM\<close>

text \<open>
  The firmware keeps every sensor's settings twice: in \<open>senzor\<close> for the measuring tasks and in
  the EEPROM for the next start. \<open>synced\<close> says that the two agree. Every handler keeps this,
  whatever the request holds, and \<open>load_sensors_from\<close> establishes it.
\<close>

definition sensor_base :: "nat \<Rightarrow> nat" where
  "sensor_base i = 0x100 * (i + 1)"

definition agree :: "nat \<Rightarrow> sensor \<Rightarrow> bytes \<Rightarrow> bool" where
  "agree i x m \<longleftrightarrow>
     (let b = sensor_base i in
      CODE x = eeRd b 8 m \<and> LOWLIMIT x = eeRd8 (b + EE_LOW_ALARM) m \<and> HIGHLIMIT x = eeRd8 (b + EE_HIGH_ALARM) m
    \<and> HIS x = eeRd8 (b + EE_HIST) m \<and> ENBLE x = eeRd8 (b + EE_SENSOR_ACTIVE) m \<and> KANAL x = eeRd8 (b + EE_CHANNEL) m
    \<and> DELAY x = eeRd16 (b + EE_DELAY) m \<and> kalibracija x = eeRd32 (b + EE_CALIB) m)"

definition synced :: "sys \<Rightarrow> bool" where
  "synced s \<longleftrightarrow> (\<forall>i < 8. agree i (senzor s ! i) (ee s))"

subsection \<open>Where a write reaches\<close>

text \<open>A write of any length stays in its page of 64 bytes.\<close>

lemma page_next_div: "page_next a div EE_PAGE = a div EE_PAGE"
  by (simp add: page_next_def EE_PAGE_def)

lemma length_eeWr_gen [simp]: "length (eeWr a bs m) = length m"
  by (induction bs arbitrary: a m) simp_all

lemma eeWr_other_page: "j div EE_PAGE \<noteq> a div EE_PAGE \<Longrightarrow> eeWr a bs m ! j = m ! j"
proof (induction bs arbitrary: a m)
  case (Cons b bs)
  then have "eeWr (page_next a) bs (m[a := b]) ! j = m[a := b] ! j"
    by (intro Cons.IH) (simp add: page_next_div)
  moreover have "a \<noteq> j" using Cons.prems by auto
  ultimately show ?case by simp
qed simp

lemma eeRd8_in:
  assumes "ee_fits a (length bs)" and "length m = EE_SIZE" and "j < EE_SIZE"
  shows "eeRd8 j (eeWr a bs m) = (if a \<le> j \<and> j < a + length bs then bs ! (j - a) else eeRd8 j m)"
  using nth_eeWr [OF assms] assms(3) by (simp add: eeRd8_def)

text \<open>The cells of a block that hold settings of the table.\<close>

definition cells :: "nat set" where
  "cells = {0, 1, 2, 3, 4, 5, 6, 7, 8, 9, 0xB, 0xC, 0xD, 0x26, 0x27, 0x30, 0x31, 0x32, 0x33}"

lemma eeRd_8_cells: "eeRd a 8 m = [eeRd8 a m, eeRd8 (a + 1) m, eeRd8 (a + 2) m, eeRd8 (a + 3) m,
    eeRd8 (a + 4) m, eeRd8 (a + 5) m, eeRd8 (a + 6) m, eeRd8 (a + 7) m]"
  by (simp add: eeRd8_def eval_nat_numeral)

lemma agree_cong:
  assumes "\<And>c. c \<in> cells \<Longrightarrow> eeRd8 (sensor_base i + c) m' = eeRd8 (sensor_base i + c) m"
  shows "agree i x m' = agree i x m"
proof -
  note a = assms [unfolded cells_def]
  show ?thesis
    using a [of 0] a [of 1] a [of 2] a [of 3] a [of 4] a [of 5] a [of 6] a [of 7] a [of 8] a [of 9]
      a [of "0xB"] a [of "0xC"] a [of "0xD"] a [of "0x26"] a [of "0x27"] a [of "0x30"] a [of "0x31"] a [of "0x32"] a [of "0x33"]
    by (simp add: agree_def eeRd_8_cells eeRd16_def eeRd32_def Let_def ac_simps)
qed

lemma cells_less: "c \<in> cells \<Longrightarrow> c < 64"
  by (auto simp: cells_def)

lemma base_page: "c < 64 \<Longrightarrow> (sensor_base i + c) div EE_PAGE = 4 * (i + 1)"
  by (simp add: sensor_base_def EE_PAGE_def)

text \<open>A write to a page that holds no settings of a sensor.\<close>

definition foreign :: "nat \<Rightarrow> bool" where
  "foreign a \<longleftrightarrow> (\<forall>i < 8. a div EE_PAGE \<noteq> 4 * (i + 1))"

lemma agree_foreign:
  assumes "foreign a" and "i < 8"
  shows "agree i x (eeWr a bs m) = agree i x m"
proof (rule agree_cong)
  fix c assume c: "c \<in> cells"
  have "(sensor_base i + c) mod EE_SIZE = sensor_base i + c"
    using assms(2) cells_less [OF c] by (simp add: sensor_base_def EE_SIZE_def)
  moreover have "(sensor_base i + c) div EE_PAGE \<noteq> a div EE_PAGE"
    using assms base_page [OF cells_less [OF c], of i] by (auto simp: foreign_def)
  ultimately show "eeRd8 (sensor_base i + c) (eeWr a bs m) = eeRd8 (sensor_base i + c) m"
    by (simp add: eeRd8_def eeWr_other_page)
qed

lemma synced_foreign: "foreign a \<Longrightarrow> synced (EE_write a bs s) = synced s"
  by (auto simp: synced_def EE_write_def agree_foreign)

text \<open>A write into the settings of one sensor.\<close>

lemma agree_other_sensor:
  assumes "k \<noteq> i" and "o' < 64" and "k < 8"
  shows "agree k x (eeWr (sensor_base i + o') bs m) = agree k x m"
proof (rule agree_cong)
  fix c assume c: "c \<in> cells"
  have "(sensor_base k + c) mod EE_SIZE = sensor_base k + c"
    using assms(3) cells_less [OF c] by (simp add: sensor_base_def EE_SIZE_def)
  moreover have "(sensor_base k + c) div EE_PAGE \<noteq> (sensor_base i + o') div EE_PAGE"
    using assms base_page [OF cells_less [OF c], of k] base_page [OF assms(2), of i] by auto
  ultimately show "eeRd8 (sensor_base k + c) (eeWr (sensor_base i + o') bs m) = eeRd8 (sensor_base k + c) m"
    by (simp add: eeRd8_def eeWr_other_page)
qed

lemma synced_own:
  assumes "sys_ok s" and "synced s" and "i < 8" and "o' < 64"
    and "agree i (f (senzor s ! i)) (eeWr (sensor_base i + o') bs (ee s))"
  shows "synced (EE_write (sensor_base i + o') bs (upd_sensor i f s))"
  unfolding synced_def
proof (intro allI impI)
  fix k :: nat assume k: "k < 8"
  have "length (senzor s) = 8" using assms(1) by (simp add: sys_ok_def)
  with assms k show "agree k (senzor (EE_write (sensor_base i + o') bs (upd_sensor i f s)) ! k)
      (ee (EE_write (sensor_base i + o') bs (upd_sensor i f s)))"
    by (cases "k = i") (auto simp: EE_write_def upd_sensor_def agree_other_sensor synced_def)
qed

text \<open>The cells of the written sensor: inside the write its bytes, elsewhere the old ones.\<close>

lemma own_cell:
  assumes "length m = EE_SIZE" and "i < 8" and "o' < 64" and "o' + length bs \<le> 64" and "c < 64"
  shows "eeRd8 (sensor_base i + c) (eeWr (sensor_base i + o') bs m)
       = (if o' \<le> c \<and> c < o' + length bs then bs ! (c - o') else eeRd8 (sensor_base i + c) m)"
proof -
  have "sensor_base i + o' = o' + EE_PAGE * (4 * (i + 1))" by (simp add: sensor_base_def EE_PAGE_def)
  then have "(sensor_base i + o') mod EE_PAGE = o' mod EE_PAGE" by (simp only: mod_mult_self2)
  then have "ee_fits (sensor_base i + o') (length bs)"
    using assms(2-4) by (simp add: ee_fits_def EE_PAGE_def) (simp add: sensor_base_def EE_SIZE_def)
  moreover have "sensor_base i + c < EE_SIZE" using assms(2,5) by (simp add: sensor_base_def EE_SIZE_def)
  ultimately show ?thesis using assms(1) by (auto simp: eeRd8_in)
qed

text \<open>\<open>agree\<close> cell by cell.\<close>

lemma agree_iff:
  "agree i x m \<longleftrightarrow>
     CODE x = map (\<lambda>c. eeRd8 (sensor_base i + c) m) [0, 1, 2, 3, 4, 5, 6, 7]
   \<and> LOWLIMIT x = eeRd8 (sensor_base i + 8) m \<and> HIGHLIMIT x = eeRd8 (sensor_base i + 9) m
   \<and> HIS x = eeRd8 (sensor_base i + 11) m \<and> ENBLE x = eeRd8 (sensor_base i + 12) m
   \<and> KANAL x = eeRd8 (sensor_base i + 13) m
   \<and> DELAY x = be16 (eeRd8 (sensor_base i + 38) m) (eeRd8 (sensor_base i + 39) m)
   \<and> kalibracija x = be32 (eeRd8 (sensor_base i + 48) m) (eeRd8 (sensor_base i + 49) m)
       (eeRd8 (sensor_base i + 50) m) (eeRd8 (sensor_base i + 51) m)"
proof -
  have "sensor_base i + 38 + 1 = sensor_base i + 39" "sensor_base i + 48 + 1 = sensor_base i + 49"
    "sensor_base i + 48 + 2 = sensor_base i + 50" "sensor_base i + 48 + 3 = sensor_base i + 51" by simp_all
  then show ?thesis
    unfolding agree_def Let_def eeRd_8_cells eeRd16_def eeRd32_def by (simp add: add.commute)
qed

lemmas own_start = own_cell [where o' = 0, simplified]

lemmas own = own_cell own_cell [where c = 0, simplified] own_cell [where c = 1, simplified]
  own_cell [where c = 2, simplified] own_start own_start [where c = 0, simplified]
  own_start [where c = 1, simplified] own_start [where c = 2, simplified]

text \<open>What a write of \<open>bs\<close> at offset \<open>o'\<close> has to do to the table.\<close>

definition tracks :: "nat \<Rightarrow> bytes \<Rightarrow> (sensor \<Rightarrow> sensor) \<Rightarrow> bool" where
  "tracks o' bs f \<longleftrightarrow> (\<forall>i x m. i < 8 \<longrightarrow> length m = EE_SIZE \<longrightarrow> agree i x m
      \<longrightarrow> length (CODE x) = 8 \<longrightarrow> agree i (f x) (eeWr (sensor_base i + o') bs m) \<and> length (CODE (f x)) = 8)"

lemma tracks_limits:
  "tracks 8 [v] (LOWLIMIT_update (\<lambda>_. v))" "tracks 9 [v] (HIGHLIMIT_update (\<lambda>_. v))"
  "tracks 11 [v] (HIS_update (\<lambda>_. v))" "tracks 12 [v] (ENBLE_update (\<lambda>_. v))" "tracks 13 [v] (KANAL_update (\<lambda>_. v))"
  by (simp_all add: tracks_def agree_iff own del: eeWr.simps)

lemma tracks_DELAY: "tracks 38 (split16 w) (DELAY_update (\<lambda>_. w))"
  by (simp add: tracks_def agree_iff own split16_def be16_split16 del: eeWr.simps)

lemma tracks_kalibracija: "tracks 48 (split32 w) (kalibracija_update (\<lambda>_. w))"
  by (simp add: tracks_def agree_iff own split32_def be32_split32 del: eeWr.simps)

lemma tracks_CODE: "length c = 8 \<Longrightarrow> tracks 0 c (CODE_update (\<lambda>_. c))"
proof -
  assume "length c = 8"
  moreover from this have "c = map (\<lambda>k. c ! k) [0, 1, 2, 3, 4, 5, 6, 7]"
    by (intro nth_equalityI) (auto simp: less_Suc_eq eval_nat_numeral)
  ultimately show ?thesis by (auto simp: tracks_def agree_iff own simp del: eeWr.simps)
qed

lemma tracks_none:
  "tracks 37 [v] id" "length bs = 5 \<Longrightarrow> tracks 16 bs id" "length bs = 5 \<Longrightarrow> tracks 32 bs id"
  by (simp_all add: tracks_def agree_iff own del: eeWr.simps)

subsection \<open>Steps that keep the table and its copy together\<close>

definition well :: "sys \<Rightarrow> bool" where
  "well s \<longleftrightarrow> sys_ok s \<and> synced s"

definition keeps :: "(sys \<Rightarrow> sys option) \<Rightarrow> bool" where
  "keeps f \<longleftrightarrow> (\<forall>s s'. well s \<longrightarrow> f s = Some s' \<longrightarrow> well s')"

lemma keepsI: "(\<And>s s'. well s \<Longrightarrow> f s = Some s' \<Longrightarrow> well s') \<Longrightarrow> keeps f"
  by (simp add: keeps_def)

lemma keepsD: "keeps f \<Longrightarrow> f s = Some s' \<Longrightarrow> well s \<Longrightarrow> well s'"
  by (simp add: keeps_def)

lemma keeps_bind: "keeps f \<Longrightarrow> keeps g \<Longrightarrow> keeps (\<lambda>s. f s \<bind> g)"
  unfolding keeps_def by (metis bind_eq_Some_conv)

lemma parses_well: "parses s s' \<Longrightarrow> well s \<Longrightarrow> well s'"
  by (simp add: well_def synced_def parses_keep parses_sys_ok)

lemmas step_well = parse_frame [THEN parses_well]

lemma sys_ok_EE_write [simp]: "sys_ok (EE_write a bs s) = sys_ok s"
  by (simp add: sys_ok_def EE_write_def)

lemma well_foreign: "foreign a \<Longrightarrow> well s \<Longrightarrow> well (EE_write a bs s)"
  by (simp add: well_def synced_foreign)

lemma well_tracks:
  assumes "tracks o' bs f" and "well s" and "i < 8" and "o' < 64"
  shows "well (EE_write (sensor_base i + o') bs (upd_sensor i f s))"
proof -
  have s: "length (senzor s) = 8" "\<forall>x \<in> set (senzor s). length (CODE x) = 8" "length (ee s) = EE_SIZE"
    using assms(2) by (simp_all add: well_def sys_ok_def)
  with assms(2,3) have "agree i (senzor s ! i) (ee s)" "length (CODE (senzor s ! i)) = 8"
    by (simp_all add: well_def synced_def)
  with assms(1,3) s(3) have "agree i (f (senzor s ! i)) (eeWr (sensor_base i + o') bs (ee s))"
    and c: "length (CODE (f (senzor s ! i))) = 8" by (simp_all add: tracks_def)
  then have "synced (EE_write (sensor_base i + o') bs (upd_sensor i f s))"
    using assms by (intro synced_own) (simp_all add: well_def)
  moreover have "sys_ok (upd_sensor i f s)"
    using assms(2) s c by (auto simp: well_def sys_ok_def upd_sensor_def dest!: set_update_subset_insert [THEN subsetD])
  ultimately show ?thesis by (simp add: well_def)
qed

lemma well_tracks_id:
  assumes "tracks o' bs id" and "well s" and "i < 8" and "o' < 64"
  shows "well (EE_write (sensor_base i + o') bs s)"
  using well_tracks [OF assms] by (simp add: upd_sensor_def)

subsection \<open>The handlers' steps\<close>

lemma EE_write_pb_well: "foreign a \<Longrightarrow> EE_write_pb a s = Some s' \<Longrightarrow> well s \<Longrightarrow> well s'"
  by (auto simp: EE_write_pb_def well_foreign split: bind_splits)

lemma EE_write_rBuf_well: "foreign a \<Longrightarrow> EE_write_rBuf a s = Some s' \<Longrightarrow> well s \<Longrightarrow> well s'"
  by (auto simp: EE_write_rBuf_def well_foreign split: bind_splits)

text \<open>The same for a step that also returns a value, and the rules that take a handler apart.\<close>

definition keeps2 :: "(sys \<Rightarrow> ('a \<times> sys) option) \<Rightarrow> bool" where
  "keeps2 f \<longleftrightarrow> (\<forall>s v s'. well s \<longrightarrow> f s = Some (v, s') \<longrightarrow> well s')"

lemma keeps2_frame: "(\<And>s v s'. f s = Some (v, s') \<Longrightarrow> parses s s') \<Longrightarrow> keeps2 f"
  unfolding keeps2_def by (blast intro: parses_well)

lemma keeps2I: "(\<And>s v s'. well s \<Longrightarrow> f s = Some (v, s') \<Longrightarrow> well s') \<Longrightarrow> keeps2 f"
  unfolding keeps2_def by blast

lemma keeps2D: "keeps2 f \<Longrightarrow> f s = Some (v, s') \<Longrightarrow> well s \<Longrightarrow> well s'"
  unfolding keeps2_def by blast

lemma keeps_bind2:
  assumes "keeps2 f" and "\<And>v. keeps (g v)"
  shows "keeps (\<lambda>s. f s \<bind> (\<lambda>(v, s). g v s))"
proof (rule keepsI)
  fix s s' assume "well s" and "(f s \<bind> (\<lambda>(v, s). g v s)) = Some s'"
  then obtain v s1 where "f s = Some (v, s1)" "g v s1 = Some s'" by (auto simp: bind_eq_Some_conv)
  with assms \<open>well s\<close> show "well s'" by (blast intro: keepsD keeps2D)
qed

lemma keeps2_bind2:
  assumes "keeps2 f" and "\<And>v. keeps2 (g v)"
  shows "keeps2 (\<lambda>s. f s \<bind> (\<lambda>(v, s). g v s))"
proof (rule keeps2I)
  fix s w s' assume "well s" and "(f s \<bind> (\<lambda>(v, s). g v s)) = Some (w, s')"
  then obtain v s1 where "f s = Some (v, s1)" "g v s1 = Some (w, s')" by (auto simp: bind_eq_Some_conv)
  with assms \<open>well s\<close> show "well s'" by (blast intro: keeps2D)
qed

lemma keeps_if: "keeps f \<Longrightarrow> keeps g \<Longrightarrow> keeps (\<lambda>s. if b then f s else g s)"
  by (cases b) simp_all

lemma keeps2_if: "keeps2 f \<Longrightarrow> keeps2 g \<Longrightarrow> keeps2 (\<lambda>s. if b then f s else g s)"
  by (cases b) simp_all

lemma keeps_ret: "(\<And>s. well s \<Longrightarrow> well (h s)) \<Longrightarrow> keeps (\<lambda>s. Some (h s))"
  by (rule keepsI) auto

lemma keeps2_ret: "(\<And>s. well s \<Longrightarrow> well (h s)) \<Longrightarrow> keeps2 (\<lambda>s. Some (k s, h s))"
  unfolding keeps2_def by auto

lemma keeps_tb_is: "(\<And>v. keeps (g v)) \<Longrightarrow> keeps (\<lambda>s. tb_is t s \<bind> (\<lambda>v. g v s))"
  unfolding keeps_def by (auto split: bind_splits)

lemma keeps2_tb_is: "(\<And>v. keeps2 (g v)) \<Longrightarrow> keeps2 (\<lambda>s. tb_is t s \<bind> (\<lambda>v. g v s))"
  unfolding keeps2_def by (auto split: bind_splits)

lemma keeps_c_str: "(\<And>v. keeps (g v)) \<Longrightarrow> keeps (\<lambda>s. c_str (a s) \<bind> (\<lambda>v. g v s))"
  unfolding keeps_def by (auto split: bind_splits)

lemma keeps_snd: "keeps2 f \<Longrightarrow> keeps (\<lambda>s. map_option snd (f s))"
  unfolding keeps_def keeps2_def by fastforce

lemma keeps_write_pb: "foreign a \<Longrightarrow> keeps (EE_write_pb a)"
  by (rule keepsI) (rule EE_write_pb_well)

lemma keeps_write_rBuf: "foreign a \<Longrightarrow> keeps (EE_write_rBuf a)"
  by (rule keepsI) (rule EE_write_rBuf_well)

lemma keeps_store: "keeps (store d i bs)"
  by (rule keepsI) (rule parses_well [OF store_parses])

lemma keeps_store_at: "keeps (\<lambda>s. store d i (bs s) s)"
  by (rule keepsI) (rule parses_well [OF store_parses])

lemma keeps2_parse:
  "keeps2 (parse_at tag msg len)" "keeps2 (parse_tb tag msg len)" "keeps2 (IPtoFile d n)"
  "keeps2 (IntToFile d n)" "keeps2 (StringToFile d n)" "keeps2 (getTemp n)" "keeps2 (DS18B20CodeToArray n)"
  by (rule keeps2_frame, erule parse_frame)+

lemmas keeps_rules = keeps_bind2 keeps2_bind2 keeps_if keeps2_if keeps_ret keeps2_ret keeps_tb_is keeps2_tb_is
  keeps_snd keeps_write_pb keeps_write_rBuf keeps_store keeps_store_at keeps_c_str keeps2_parse keeps_bind

lemma keeps_save_ip: "foreign a \<Longrightarrow> keeps (save_ip tag a msg len)"
  unfolding save_ip_def [abs_def] by (intro keeps_rules) (simp_all add: well_foreign)

lemma keeps_save_int: "foreign a \<Longrightarrow> keeps (save_int tag a msg len)"
  unfolding save_int_def [abs_def] by (intro keeps_rules) (simp_all add: well_foreign)

lemma keeps_save_name: "foreign a \<Longrightarrow> keeps (save_name tag a msg len)"
  unfolding save_name_def [abs_def] by (intro keeps_rules) (simp_all add: well_foreign)

lemma keeps_save_str: "foreign a \<Longrightarrow> keeps (save_str tag a msg len)"
  unfolding save_str_def [abs_def] by (intro keeps_rules)

lemma keeps_save_number: "foreign a \<Longrightarrow> keeps (save_number tag a msg len)"
  unfolding save_number_def [abs_def] by (intro keeps_rules)

lemma keeps_mqtt_str: "foreign a \<Longrightarrow> keeps (mqtt_str tag a msg len)"
  unfolding mqtt_str_def [abs_def] by (intro keeps_rules)

lemma keeps_mqtt_num: "foreign a \<Longrightarrow> keeps (mqtt_num tag a msg len)"
  unfolding mqtt_num_def [abs_def] by (intro keeps_rules) (simp_all add: well_foreign)

lemma foreign_simps: "foreign a \<longleftrightarrow> list_all (\<lambda>i. a div 64 \<noteq> 4 * (i + 1)) [0, 1, 2, 3, 4, 5, 6, 7]"
proof -
  have "foreign a \<longleftrightarrow> list_all (\<lambda>i. a div 64 \<noteq> 4 * (i + 1)) [0..<8]"
    by (auto simp: list_all_iff foreign_def EE_PAGE_def)
  moreover have "[0..<8] = [0, 1, 2, 3, 4, 5, 6, 7 :: nat]" by (simp add: upt_zero_numeral upt_rec_numeral)
  ultimately show ?thesis by simp
qed

lemma keeps_SaveNet: "keeps (SaveNet msg len)"
  unfolding SaveNet_def [abs_def]
  by (intro keeps_bind keeps_store keeps_save_ip keeps_save_int keeps_save_name) (simp_all add: foreign_simps)

lemma keeps_SaveSms: "keeps (SaveSms msg len)"
  unfolding SaveSms_def [abs_def]
  by (intro keeps_bind keeps_save_ip keeps_save_int keeps_save_str) (simp_all add: foreign_simps)

lemma keeps_SaveWApp: "keeps (SaveWApp msg len)"
  unfolding SaveWApp_def [abs_def]
  by (intro keeps_bind keeps_save_number keeps_save_str) (simp_all add: foreign_simps)

text \<open>Updates of the run-time variables that are not part of the table.\<close>

lemma well_other_fields:
  "well (s\<lparr>scansetup := a\<rparr>) = well s" "well (s\<lparr>sntp := b\<rparr>) = well s"
  "well (s\<lparr>sat := c\<rparr>) = well s" "well (s\<lparr>minuta := c\<rparr>) = well s" "well (s\<lparr>sekunda := c\<rparr>) = well s"
  "well (s\<lparr>datum := c\<rparr>) = well s" "well (s\<lparr>dan := c\<rparr>) = well s" "well (s\<lparr>godina := c\<rparr>) = well s"
  "well (s\<lparr>mjesec := c\<rparr>) = well s" "well (s\<lparr>rtc := d\<rparr>) = well s"
  "well (s\<lparr>backup_scan_flag := e\<rparr>) = well s" "well (s\<lparr>sntp_scan_flag := e\<rparr>) = well s"
  "well (s\<lparr>files := fs\<rparr>) = well s" "well (s\<lparr>wcl_active := e\<rparr>) = well s"
  by (simp_all add: well_def sys_ok_def synced_def)

lemma well_upd_input: "well s \<Longrightarrow> well (upd_input i f s)"
  by (simp add: well_def sys_ok_def synced_def upd_input_def)

lemma keeps_SaveSNTP: "keeps (SaveSNTP msg len)"
  unfolding SaveSNTP_def [abs_def] Let_def
  by (intro keeps_rules keeps_save_str) (simp_all add: foreign_simps well_foreign well_other_fields)

lemma keeps_sample_tag: "foreign a \<Longrightarrow> keeps (sample_tag tag a msg len)"
  unfolding sample_tag_def [abs_def] Let_def
  by (intro keeps_rules) (simp_all add: well_foreign well_other_fields)

lemma keeps_SaveSample: "keeps (SaveSample msg len)"
  unfolding SaveSample_def [abs_def]
  by (intro keeps_rules keeps_sample_tag) (simp_all add: foreign_simps well_foreign)

lemma pb_parses_well: "well (s\<lparr>pb := b\<rparr>)" if "well s" "length b = 40"
  using that by (intro parses_well [OF _ that(1)]) (simp add: parses_upd well_def sys_ok_def)

lemma dest_length: "dest_set d i b = Some d' \<Longrightarrow> length d' = length d"
  "dest_or d i b = Some d' \<Longrightarrow> length d' = length d"
  by (auto simp: dest_set_def dest_or_def split: if_splits)

lemma length_Base64Decode_loop:
  "Base64Decode_loop src w n k dest d = Some (m, dest') \<Longrightarrow> length dest' = length dest"
proof (induction src arbitrary: n k dest d)
  case (Cons c src)
  from Cons.prems show ?case
    unfolding Base64Decode_loop.simps Let_def
    by (auto simp: bind_eq_Some_conv dest_length dest!: Cons.IH split: option.splits if_splits)
qed (simp add: Base64Decode_loop.simps(1))

lemma length_Base64Decode: "Base64Decode src n dest w = Some (m, dest') \<Longrightarrow> length dest' = length dest"
  by (auto simp: Base64Decode_def intro: length_Base64Decode_loop split: if_splits)

lemma keeps_pass_tag:
  assumes "foreign a"
  shows "keeps (pass_tag tag a msg len)"
proof (rule keepsI)
  fix s s' assume s: "well s" "pass_tag tag a msg len s = Some s'"
  then obtain v s1 where p: "parse_at tag msg len s = Some (v, s1)" and
    r: "(if v \<noteq> 0 then do { (n, b) \<leftarrow> Base64Decode (tb s1) (unat v) (pb s1) 30;
          EE_write_pb a (s1\<lparr>pb := b\<rparr>) } else Some s1) = Some s'"
    by (auto simp: pass_tag_def bind_eq_Some_conv)
  have s1: "well s1" using parse_at_parses [OF p] s(1) by (rule parses_well)
  show "well s'"
  proof (cases "v = 0")
    case True
    with r s1 show ?thesis by simp
  next
    case False
    with r obtain n b where b: "Base64Decode (tb s1) (unat v) (pb s1) 30 = Some (n, b)"
      and w: "EE_write_pb a (s1\<lparr>pb := b\<rparr>) = Some s'"
      by (auto simp: bind_eq_Some_conv)
    have "length b = length (pb s1)" using b by (rule length_Base64Decode)
    then have "well (s1\<lparr>pb := b\<rparr>)" using s1 by (intro pb_parses_well) (simp_all add: well_def sys_ok_def)
    with assms w show ?thesis by (blast intro: EE_write_pb_well)
  qed
qed

lemma keeps_Pass: "keeps (Pass msg len)"
  unfolding Pass_def [abs_def] by (intro keeps_bind keeps_pass_tag) (simp_all add: foreign_simps)

lemma keeps_time_tag:
  assumes "\<And>t s. well s \<Longrightarrow> well (upd t s)"
  shows "keeps (time_tag tag msg len upd)"
  unfolding time_tag_def [abs_def] by (intro keeps_rules) (simp_all add: assms)

lemma keeps_SaveTime: "keeps (SaveTime msg len)"
proof -
  have st: "keeps (\<lambda>s. f (store_time s))" if "keeps f" for f :: "sys \<Rightarrow> sys option"
    using that by (auto simp: store_time_def well_other_fields intro!: keepsI elim!: keepsD)
  show ?thesis
    unfolding SaveTime_def [abs_def] Let_def
    by (intro keeps_bind keeps_time_tag st keeps_ret) (simp_all add: well_other_fields store_date_def)
qed

lemma keeps_SaveMQTT: "keeps (SaveMQTT msg len)"
  unfolding SaveMQTT_def [abs_def]
  by (intro keeps_rules keeps_mqtt_str keeps_mqtt_num keeps_save_int) (simp_all add: foreign_simps well_foreign)

lemma keeps_input_switch: "foreign a \<Longrightarrow> keeps (input_switch tag yes v1 v2 a f i msg len)"
  unfolding input_switch_def [abs_def] Let_def
  by (intro keeps_rules) (simp_all add: well_foreign well_upd_input)

lemma keeps_input_delay_tag: "foreign a \<Longrightarrow> keeps (input_delay_tag tag a i msg len)"
  unfolding input_delay_tag_def [abs_def] Let_def
  by (intro keeps_rules) (simp_all add: well_foreign well_upd_input)

lemma keeps2_flag_tag: "keeps2 (flag_tag tag msg len old)"
  unfolding flag_tag_def [abs_def] by (intro keeps_rules)

lemma keeps_write_store:
  assumes "foreign a" and "keeps g"
  shows "keeps (\<lambda>s. g (EE_write a (k s) s))"
  by (rule keepsI) (rule keepsD [OF assms(2)], assumption, rule well_foreign [OF assms(1)])

lemma keeps_SaveInput: "keeps (SaveInput loc msg len)"
proof -
  have "keeps (input_setup msg len)"
    unfolding input_setup_def [abs_def]
    by (intro keeps_bind keeps_save_str keeps_input_switch) (simp_all add: foreign_simps)
  moreover have "keeps (input_messages loc msg len)"
    unfolding input_messages_def [abs_def] Let_def
    by (intro keeps_bind2 keeps2_flag_tag keeps_bind keeps_store keeps_ret
          keeps_write_store [where g = "\<lambda>s. store d i bs s \<bind> h s" for d i bs h])
       (simp_all add: foreign_simps well_foreign)
  ultimately show ?thesis
    unfolding SaveInput_def [abs_def]
    by (intro keeps_bind keeps_input_delay_tag) (simp_all add: foreign_simps)
qed

subsection \<open>The sensor handler\<close>

lemma EE_SENSOR_NAME_foreign: "foreign (0x100 * (i + 1) + EE_SENSOR_NAME)"
  unfolding foreign_def EE_PAGE_def
proof (intro allI impI notI)
  fix k :: nat
  assume "(256 * (i + 1) + 64) div 64 = 4 * (k + 1)"
  moreover have "(256 * (i + 1) + 64) div 64 = 4 * (i + 1) + 1" by simp
  ultimately have "4 * (i + 1) + 1 = 4 * (k + 1)" by simp
  then show False by presburger
qed

lemma block_base: "0x100 * (i + 1) = sensor_base i"
  by (simp add: sensor_base_def)

lemma keeps_temp_tag:
  assumes "i < 8" and "o' < 64" and "\<And>v. tracks o' [v] (f v)"
  shows "keeps (temp_tag tag (sensor_base i + o') i f msg len)"
  unfolding temp_tag_def [abs_def]
  by (intro keeps_rules) (simp_all add: assms well_tracks)

lemma keeps_sensor_name:
  assumes "i < 8"
  shows "keeps (sensor_name i msg len)"
proof -
  have code: "keeps (\<lambda>s. poke 0 c (CODE (senzor s ! i)) \<bind>
      (\<lambda>code. Some (EE_write (sensor_base i + EE_SENSOR_CODE) code (upd_sensor i (CODE_update (\<lambda>_. code)) s))))" for c
  proof (rule keepsI)
    fix s s'
    assume s: "well s" and w: "(poke 0 c (CODE (senzor s ! i)) \<bind>
      (\<lambda>code. Some (EE_write (sensor_base i + EE_SENSOR_CODE) code (upd_sensor i (CODE_update (\<lambda>_. code)) s)))) = Some s'"
    then obtain code where code: "poke 0 c (CODE (senzor s ! i)) = Some code"
      "s' = EE_write (sensor_base i + 0) code (upd_sensor i (CODE_update (\<lambda>_. code)) s)"
      by (auto simp: bind_eq_Some_conv)
    have "length (CODE (senzor s ! i)) = 8" using s assms by (simp add: well_def sys_ok_def)
    then have "length code = 8" using length_poke [OF code(1)] by simp
    then show "well s'" unfolding code(2)
      using assms s by (intro well_tracks tracks_CODE) simp_all
  qed
  show ?thesis
    unfolding sensor_name_def [abs_def] Let_def block_base
    by (intro keeps_bind2 keeps_bind keeps_if keeps_snd keeps2_parse keeps_ret keeps_write_rBuf code)
       (simp_all add: EE_SENSOR_NAME_foreign [unfolded block_base])
qed

lemma keeps_sensor_limits:
  assumes "i < 8"
  shows "keeps (sensor_limits atof i msg len)"
  unfolding sensor_limits_def [abs_def] Let_def block_base
  by (intro keeps_rules keeps_temp_tag)
     (simp_all add: assms tracks_limits well_tracks tracks_DELAY tracks_kalibracija)

lemma keeps_sensor_switches:
  assumes "i < 8"
  shows "keeps (sensor_switches i msg len)"
  unfolding sensor_switches_def [abs_def] Let_def block_base
  by (intro keeps_rules) (simp_all add: assms tracks_limits well_tracks tracks_none well_tracks_id)

lemma keeps_sensor_messages:
  assumes "i < 8"
  shows "keeps (sensor_messages loc i msg len)"
proof -
  have w: "well (EE_write (sensor_base i + o') (take 5 (rBuf s)) s)"
    if "well s" "o' = 16 \<or> o' = 32" for s o'
  proof -
    have "length (take 5 (rBuf s)) = 5" using that(1) by (simp add: well_def sys_ok_def)
    with that assms show ?thesis by (intro well_tracks_id) (auto intro: tracks_none)
  qed
  have tail: "keeps (\<lambda>s. store RBuf 0 as s \<bind> (\<lambda>s. store RBuf 0 bs
      (EE_write (sensor_base i + EE_WAPP1_ON) (take 5 (rBuf s)) s) \<bind>
        (\<lambda>s. Some (EE_write (sensor_base i + EE_SMS1) (take 5 (rBuf s)) s))))" for as bs
  proof (rule keepsI)
    fix s s' assume s: "well s" and "(store RBuf 0 as s \<bind> (\<lambda>s. store RBuf 0 bs
      (EE_write (sensor_base i + EE_WAPP1_ON) (take 5 (rBuf s)) s) \<bind>
        (\<lambda>s. Some (EE_write (sensor_base i + EE_SMS1) (take 5 (rBuf s)) s)))) = Some s'"
    then obtain s1 s2 where 1: "store RBuf 0 as s = Some s1"
      and 2: "store RBuf 0 bs (EE_write (sensor_base i + EE_WAPP1_ON) (take 5 (rBuf s1)) s1) = Some s2"
      and 3: "s' = EE_write (sensor_base i + EE_SMS1) (take 5 (rBuf s2)) s2"
      by (auto simp: bind_eq_Some_conv)
    from store_parses [OF 1] s have "well s1" by (rule parses_well)
    then have "well (EE_write (sensor_base i + EE_WAPP1_ON) (take 5 (rBuf s1)) s1)" by (rule w) simp
    with store_parses [OF 2] have "well s2" by (rule parses_well)
    then show "well s'" unfolding 3 by (rule w) simp
  qed
  show ?thesis
    unfolding sensor_messages_def [abs_def] Let_def block_base
    by (intro keeps_bind2 keeps2_flag_tag keeps_bind [OF keeps_temp_tag] tail)
       (simp_all add: assms tracks_limits)
qed

lemma keeps_Sensor: "i < 8 \<Longrightarrow> keeps (Sensor atof loc i msg len)"
  unfolding Sensor_def [abs_def]
  by (intro keeps_bind keeps_sensor_name keeps_sensor_limits keeps_sensor_switches keeps_sensor_messages)

subsection \<open>The remaining handlers\<close>

lemma keeps_DelFile0: "keeps (\<lambda>s. map_option snd (DelFile0 rm stk msg len s))"
  by (rule keepsI) (auto simp: DelFile0_def Let_def well_other_fields split: bind_splits if_splits prod.splits)

lemma keeps_TestSNTP: "keeps (TestSNTP stk msg len)"
  by (rule keepsI) (auto simp: TestSNTP_def well_other_fields split: bind_splits if_splits)

lemma well_clear_infobip: "well (clear_infobip s) = well s"
  by (simp add: well_def sys_ok_def synced_def clear_infobip_def)

lemma well_send_infobip: "well s \<Longrightarrow> well (send_infobip a b c d e s)"
  by (simp add: well_def sys_ok_def synced_def send_infobip_def Let_def)

lemma well_poruka: "length b = 160 \<Longrightarrow> well (s\<lparr>infobip_poruka := b\<rparr>) = well s" if "well s"
  using that by (simp add: well_def sys_ok_def synced_def)

lemma well_set_poruka: "set_poruka t s = Some s' \<Longrightarrow> well s \<Longrightarrow> well s'"
proof -
  assume s: "set_poruka t s = Some s'" "well s"
  then obtain b where b: "poke 0 (str t @ [0]) (infobip_poruka s) = Some b" "s' = s\<lparr>infobip_poruka := b\<rparr>"
    by (auto simp: set_poruka_def bind_eq_Some_conv)
  have "length (infobip_poruka s) = 160" using s(2) by (simp add: well_def sys_ok_def)
  then have "length b = 160" using length_poke [OF b(1)] by simp
  then show "well s'" using s(2) b(2) well_poruka [of s b] by simp
qed

lemma well_wapp: "length b = 128 \<Longrightarrow>
    well (s\<lparr>wAppflag := 1, wapp := (wapp s)\<lparr>Msg := b, wenable := (wenable (wapp s))[i := 1]\<rparr>\<rparr>)" if "well s"
  using that by (simp add: well_def sys_ok_def synced_def)

lemma well_test_wapp: "test_wapp t i s = Some s' \<Longrightarrow> well s \<Longrightarrow> well s'"
proof -
  assume s: "test_wapp t i s = Some s'" "well s"
  then obtain b where b: "poke 0 (str t @ [0]) (Msg (wapp s)) = Some b"
    "s' = s\<lparr>wAppflag := 1, wapp := (wapp s)\<lparr>Msg := b, wenable := (wenable (wapp s))[i := 1]\<rparr>\<rparr>"
    by (auto simp: test_wapp_def bind_eq_Some_conv)
  have "length (Msg (wapp s)) = 128" using s(2) by (simp add: well_def sys_ok_def)
  then have "length b = 128" using length_poke [OF b(1)] by simp
  then show "well s'" unfolding b(2) using s(2) well_wapp by blast
qed

lemma keeps_let: "(\<And>s. well s \<Longrightarrow> well (h s)) \<Longrightarrow> keeps f \<Longrightarrow> keeps (\<lambda>s. let x = h s in f x)"
  by (rule keepsI) (auto elim: keepsD)

lemma keeps_const: "(\<And>v. keeps (g v)) \<Longrightarrow> keeps (\<lambda>s. e \<bind> (\<lambda>v. g v s))"
  by (rule keepsI, auto simp: bind_eq_Some_conv, blast intro: keepsD)

lemma keeps_const2: "(\<And>v w. keeps (g v w)) \<Longrightarrow> keeps (\<lambda>s. e \<bind> (\<lambda>(v, w). g v w s))"
  by (rule keepsI, auto simp: bind_eq_Some_conv, blast intro: keepsD)

lemma keeps_map: "keeps f \<Longrightarrow> (\<And>s. well s \<Longrightarrow> well (h s)) \<Longrightarrow> keeps (\<lambda>s. map_option h (f s))"
  by (rule keepsI, auto, blast intro: keepsD)

lemma keeps_TestSms: "keeps (TestSms stk msg len)"
  unfolding TestSms_def [abs_def]
  by (intro keeps_let keeps_const2 keeps_const keeps_if keeps_map keeps_ret well_send_infobip)
     (simp_all add: well_clear_infobip keepsI [OF well_set_poruka])

lemma keeps_TestWApp: "keeps (TestWApp stk msg len)"
  unfolding TestWApp_def [abs_def]
  by (intro keeps_let keeps_const2 keeps_const keeps_if keeps_ret)
     (simp_all add: well_clear_infobip keepsI [OF well_test_wapp])

subsection \<open>Loading the table at start\<close>

lemma load_sensor_agree:
  assumes "sys_ok s" and "i < 8"
  shows "\<exists>s'. load_sensor i s = Some s' \<and> sys_ok s' \<and> ee s' = ee s \<and> length (senzor s') = 8
     \<and> agree i (senzor s' ! i) (ee s) \<and> (\<forall>j. j \<noteq> i \<longrightarrow> senzor s' ! j = senzor s ! j)"
proof -
  let ?b = "sensor_base i"
  let ?r = "eeRd ?b 0x30 (ee s) @ drop 0x30 (rBuf s)"
  let ?x = "(senzor s ! i)\<lparr>CODE := take 8 ?r, LOWLIMIT := ?r ! 8, HIGHLIMIT := ?r ! 9, HIS := ?r ! 11, ENBLE := ?r ! 12,
      KANAL := ?r ! 13, DELAY := eeRd16 (?b + EE_DELAY) (ee s), kalibracija := eeRd32 (?b + EE_CALIB) (ee s)\<rparr>"
  let ?s' = "s\<lparr>rBuf := ?r, senzor := (senzor s)[i := ?x]\<rparr>"
  have l: "length (senzor s) = 8" "length (rBuf s) = 1024" using assms(1) by (simp_all add: sys_ok_def)
  then have f: "load_sensor i s = Some ?s'"
    by (simp add: load_sensor_def store_def upd_sensor_def sensor_base_def Let_def)
  have c: "?r ! k = eeRd8 (?b + k) (ee s)" if "k < 0x30" for k
    using that by (simp add: nth_append nth_eeRd eeRd8_def)
  have tk: "take 8 (eeRd ?b 0x30 (ee s)) = eeRd ?b 8 (ee s)" by (rule ees.rd_take [symmetric]) simp
  then have code: "take 8 ?r = eeRd ?b 8 (ee s)" by simp
  have "agree i ?x (ee s)" by (simp add: agree_def Let_def c tk)
  moreover have "sys_ok ?s'"
    using assms(1) l code by (auto simp: sys_ok_def dest!: set_update_subset_insert [THEN subsetD])
  ultimately show ?thesis using f l assms(2) by (intro exI [of _ ?s']) simp
qed

lemma load_sensors_agree:
  "\<lbrakk>sys_ok s; \<forall>i \<in> set is. i < 8; distinct is\<rbrakk> \<Longrightarrow>
    \<exists>s'. load_sensors_from is s = Some s' \<and> sys_ok s' \<and> ee s' = ee s
      \<and> (\<forall>i \<in> set is. agree i (senzor s' ! i) (ee s)) \<and> (\<forall>j. j \<notin> set is \<longrightarrow> senzor s' ! j = senzor s ! j)"
proof (induction "is" arbitrary: s)
  case (Cons i "is")
  then obtain s1 where 1: "load_sensor i s = Some s1" "sys_ok s1" "ee s1 = ee s"
    "agree i (senzor s1 ! i) (ee s)" "\<forall>j. j \<noteq> i \<longrightarrow> senzor s1 ! j = senzor s ! j"
    using load_sensor_agree [of s i] by auto
  from Cons.IH [of s1] Cons.prems 1(2) obtain s2 where 2: "load_sensors_from is s1 = Some s2" "sys_ok s2" "ee s2 = ee s1"
    "\<forall>i \<in> set is. agree i (senzor s2 ! i) (ee s1)" "\<forall>j. j \<notin> set is \<longrightarrow> senzor s2 ! j = senzor s1 ! j" by auto
  show ?case using 1 2 Cons.prems by (intro exI [of _ s2]) auto
qed simp

lemma load_sensors_synced:
  assumes "sys_ok s"
  shows "\<exists>s'. load_sensors_from [0..<8] s = Some s' \<and> well s' \<and> ee s' = ee s"
  using load_sensors_agree [OF assms, of "[0..<8]"] by (auto simp: well_def synced_def)

end
