(* ===== verification/Page_Frames.thy ===== *)
theory Page_Frames
  imports Sync Xml_Tags
begin

section \<open>What serving a page may change\<close>

text \<open>
  A page function keeps the sizes of the arrays and the agreement of theory \<open>Sync\<close>: it writes
  text buffers, the clock variables and the credit only. The document never outgrows \<open>XMLBuf\<close>
  unnoticed (\<open>strcat_XML\<close> is \<open>None\<close> then).
\<close>

lemma well_text_buffers:
  "length b = 80 \<Longrightarrow> well s \<Longrightarrow> well (s\<lparr>tbuf := b\<rparr>)" "length b = 80 \<Longrightarrow> well s \<Longrightarrow> well (s\<lparr>tmpBuf := b\<rparr>)"
  "length b = 50 \<Longrightarrow> well s \<Longrightarrow> well (s\<lparr>lstr := b\<rparr>)" "length b = 256 \<Longrightarrow> well s \<Longrightarrow> well (s\<lparr>twi_buf := b\<rparr>)"
  "length b = 1024 \<Longrightarrow> well s \<Longrightarrow> well (s\<lparr>rBuf := b\<rparr>)" "length b < XMLBUF_SIZE \<Longrightarrow> well s \<Longrightarrow> well (s\<lparr>XMLBuf := b\<rparr>)"
  "length b = 16 \<Longrightarrow> well s \<Longrightarrow> well (s\<lparr>infobip_credit := b\<rparr>)"
  by (simp_all add: well_def sys_ok_def synced_def)

lemma well_lengths:
  assumes "well s"
  shows "length (tbuf s) = 80" "length (tmpBuf s) = 80" "length (lstr s) = 50" "length (twi_buf s) = 256"
    "length (rBuf s) = 1024" "length (infobip_credit s) = 16"
  using assms by (simp_all add: well_def sys_ok_def)

lemma well_getTime [simp]: "well (getTime s) = well s"
  and well_getDate [simp]: "well (getDate s) = well s"
  and well_get_credit [simp]: "well (get_credit s) = well s"
  by (simp_all add: getTime_def getDate_def get_credit_def well_def sys_ok_def synced_def)

lemma well_CreateXMLHeader: "well s \<Longrightarrow> well (CreateXMLHeader s)"
  unfolding CreateXMLHeader_def by (rule well_text_buffers) (simp_all add: XMLBUF_SIZE_def)

lemma keeps_strcat_XML: "keeps (\<lambda>s. strcat_XML (t s) s)"
  by (rule keepsI) (auto simp: strcat_XML_def intro: well_text_buffers split: if_splits)

lemma keeps_OpenTag: "keeps (OpenTag tag)"
  unfolding OpenTag_def [abs_def] by (intro keeps_bind keeps_strcat_XML)

lemma keeps_CloseTag: "keeps (CloseTag tag)"
  unfolding CloseTag_def [abs_def] by (intro keeps_bind keeps_strcat_XML)

lemma keeps_AddTag0: "keeps (AddTag tag t)"
  unfolding AddTag_def [abs_def] by (intro keeps_bind keeps_strcat_XML)

lemma keeps_AddTag: "keeps (\<lambda>s. AddTag tag (t s) s)"
  by (rule keepsI) (rule keepsD [OF keeps_AddTag0])

lemma keeps_AddNumTag: "keeps (\<lambda>s. AddNumTag tag (w s) s)"
  unfolding AddNumTag_def by (rule keeps_AddTag)

lemma keeps_AddTempTag: "keeps (\<lambda>s. AddTempTag tag (b s) s)"
  unfolding AddTempTag_def by (rule keeps_AddTag)

lemma keeps_AddOnOff: "keeps (\<lambda>s. AddOnOff tag (b s) s)"
  unfolding AddOnOff_def by (rule keeps_AddTag)

lemma keeps_AddBuf: "keeps (AddBuf tag buf)"
  unfolding AddBuf_def [abs_def] by (intro keeps_c_str keeps_AddTag)

lemma keeps_AddStat: "keeps (AddStat cnt)"
  unfolding AddStat_def [abs_def] by (rule keeps_AddTag)

lemma keeps_set_tmpBuf: "keeps (\<lambda>s. set_tmpBuf (v s) s)"
  and keeps_set_lstr: "keeps (\<lambda>s. set_lstr (v s) s)"
  and keeps_EE_tbuf: "keeps (EE_tbuf a n)"
  and keeps_EE_lstr: "keeps (EE_lstr a n)"
  and keeps_EE_rBuf: "keeps (EE_rBuf a n)"
  and keeps_EE_twi_buf: "keeps (EE_twi_buf a n)"
  by (rule keepsI, auto simp: set_tmpBuf_def set_lstr_def EE_tbuf_def EE_lstr_def EE_rBuf_def EE_twi_buf_def
        bind_eq_Some_conv length_poke well_lengths intro: well_text_buffers)+

lemma keeps_set_serial: "keeps (\<lambda>s. set_serial (c s) s)"
  by (rule keepsI, auto simp: set_serial_def bind_eq_Some_conv length_poke well_lengths
        dest: length_poke intro!: well_text_buffers)

lemma keeps_AddTmp: "keeps (\<lambda>s. AddTmp tag (v s) s)"
  unfolding AddTmp_def by (intro keeps_bind keeps_set_tmpBuf keeps_AddBuf)

lemma keeps_AddLstr: "keeps (\<lambda>s. AddLstr tag (v s) s)"
  unfolding AddLstr_def by (intro keeps_bind keeps_set_lstr keeps_AddBuf)

lemma keeps_each: "(\<And>i. keeps (f i)) \<Longrightarrow> keeps (each f is)"
proof (induction "is")
  case Nil
  show ?case unfolding each.simps [abs_def] by (intro keeps_ret)
next
  case (Cons i "is")
  show ?case unfolding each.simps [abs_def] by (intro keeps_bind Cons)
qed

lemma keeps2_finish: "keeps2 finish"
  by (rule keeps2I) (simp add: finish_def)

lemma keeps2_seq:
  assumes "keeps f" and "keeps2 g"
  shows "keeps2 (\<lambda>s. f s \<bind> g)"
proof (rule keeps2I)
  fix s v s' assume "well s" and "(f s \<bind> g) = Some (v, s')"
  then obtain s1 where "f s = Some s1" "g s1 = Some (v, s')" by (auto simp: bind_eq_Some_conv)
  with assms \<open>well s\<close> show "well s'" by (blast intro: keepsD keeps2D)
qed

lemma keeps2_read: "(\<And>v. keeps2 (f v)) \<Longrightarrow> keeps2 (\<lambda>s. let x = h s in f x s)"
  unfolding keeps2_def by auto

lemma keeps2_let: "(\<And>s. well s \<Longrightarrow> well (h s)) \<Longrightarrow> keeps2 f \<Longrightarrow> keeps2 (\<lambda>s. let x = h s in f x)"
  unfolding keeps2_def by auto

lemmas page_keeps = keeps2_let keeps2_seq keeps2_finish keeps_OpenTag keeps_CloseTag keeps_AddTag keeps_AddNumTag
  keeps_AddTempTag keeps_AddOnOff keeps_AddBuf keeps_AddStat keeps_AddTmp keeps_AddLstr keeps_set_serial
  keeps_EE_tbuf keeps_EE_lstr keeps_EE_rBuf keeps_EE_twi_buf well_CreateXMLHeader keeps_each keeps_bind

lemma keeps2_XMLMreza: "keeps2 XMLMreza"
  unfolding XMLMreza_def [abs_def] by (intro page_keeps)

lemma keeps2_XMLUlazi: "keeps2 XMLUlazi"
  unfolding XMLUlazi_def [abs_def] by (intro page_keeps)

lemma keeps2_XMLTime: "keeps2 XMLTime"
  unfolding XMLTime_def [abs_def] by (intro page_keeps) simp_all

lemma keeps2_XMLCode: "keeps2 (XMLCode c)"
  unfolding XMLCode_def [abs_def] by (intro page_keeps)

lemma keeps2_XMLCredit: "keeps2 XMLCredit"
  unfolding XMLCredit_def [abs_def] by (intro page_keeps)

lemma keeps2_XMLSmsstatus: "keeps2 XMLSmsstatus"
  unfolding XMLSmsstatus_def [abs_def] by (intro page_keeps) (simp add: well_CreateXMLHeader)

lemma keeps2_XMLSample: "keeps2 XMLSample"
  unfolding XMLSample_def [abs_def] by (intro page_keeps)

lemma keeps2_XMLSNTP: "keeps2 XMLSNTP"
  unfolding XMLSNTP_def [abs_def] by (intro page_keeps)

lemma keeps2_XMLWapp: "keeps2 XMLWapp"
  unfolding XMLWapp_def [abs_def] by (intro page_keeps)

lemma keeps2_XMLMQTT: "keeps2 XMLMQTT"
  unfolding XMLMQTT_def [abs_def] by (intro page_keeps)

lemma keeps2_XMLOk: "keeps2 XMLOk"
  unfolding XMLOk_def [abs_def] by (intro page_keeps)

lemma keeps2_XMLSms: "keeps2 XMLSms"
  unfolding XMLSms_def [abs_def] by (intro page_keeps) (simp_all add: well_text_buffers well_lengths)

lemma keeps_AddDinfo: "keeps AddDinfo"
  unfolding AddDinfo_def [abs_def] by (intro page_keeps)

lemma keeps_log_sensor: "keeps (log_sensor i a b c)"
  unfolding log_sensor_def [abs_def] by (intro page_keeps)

lemma keeps_log_sensors: "keeps log_sensors"
  unfolding log_sensors_def [abs_def] by (intro page_keeps keeps_log_sensor)

lemma keeps_disk_entries: "keeps (disk_entries es)"
proof (induction es)
  case (Cons e es)
  show ?case unfolding disk_entries.simps [abs_def] by (intro keeps_if page_keeps Cons)
qed (simp add: keeps_def)

lemma keeps_log_entries: "keeps (log_entries c es)"
proof (induction es)
  case (Cons e es)
  show ?case unfolding log_entries.simps [abs_def] by (intro keeps_if page_keeps Cons)
qed (simp add: keeps_def)

lemma keeps_disk_files: "keeps (\<lambda>s. disk_entries (files s) s)"
  by (rule keepsI) (rule keepsD [OF keeps_disk_entries])

lemma keeps_log_files: "keeps (\<lambda>s. log_entries c (files s) s)"
  by (rule keepsI) (rule keepsD [OF keeps_log_entries])

lemma keeps2_XMLDisk: "keeps2 (XMLDisk r)"
  unfolding XMLDisk_def [abs_def]
  by (intro page_keeps keeps_AddDinfo keeps_disk_files keeps2_if keeps2_ret)

lemma keeps2_XMLLogfile: "keeps2 (XMLLogfile r)"
  unfolding XMLLogfile_def [abs_def]
  by (intro page_keeps keeps_AddDinfo keeps_log_sensors keeps_log_files keeps2_if keeps2_ret)

lemma keeps2_XMLHaccp: "keeps2 (XMLHaccp r)"
  unfolding XMLHaccp_def [abs_def]
  by (intro page_keeps keeps_log_sensors keeps_log_files keeps2_if keeps2_ret)

lemma keeps_AddSwitches: "keeps (AddSwitches w m)"
  unfolding AddSwitches_def [abs_def] by (intro page_keeps)

lemma keeps2_XMLSensor: "keeps2 (XMLSensor ftoa i)"
  unfolding XMLSensor_def [abs_def]
  by (rule keeps2_let, erule well_CreateXMLHeader)
     (intro keeps2_seq page_keeps(4-) keeps_AddSwitches keeps2_read keeps2_finish)

lemma keeps2_XMLInput: "keeps2 XMLInput"
  unfolding XMLInput_def [abs_def]
  by (rule keeps2_let, erule well_CreateXMLHeader)
     (intro keeps2_seq page_keeps(4-) keeps_AddSwitches keeps2_read keeps2_finish)

lemma keeps_input_delay: "keeps (input_delay cnt)"
  unfolding input_delay_def [abs_def] by (rule keeps_AddTmp)

lemma keeps2_XMLOnlineInput: "keeps2 XMLOnlineInput"
  unfolding XMLOnlineInput_def [abs_def] by (intro page_keeps keeps_input_delay)

lemma keeps_home_sensor: "keeps (home_sensor ftoa cnt)"
  unfolding home_sensor_def [abs_def] by (intro page_keeps)

lemma keeps_online_sensor: "keeps (online_sensor ftoa cnt)"
  unfolding online_sensor_def [abs_def] by (intro page_keeps)

lemma keeps2_XMLHome: "keeps2 (XMLHome ftoa)"
  unfolding XMLHome_def [abs_def]
  by (intro page_keeps keeps_home_sensor) (simp add: well_CreateXMLHeader)

lemma keeps2_XMLOnline: "keeps2 (XMLOnline ftoa c)"
  unfolding XMLOnline_def [abs_def] by (intro page_keeps keeps_online_sensor) simp_all

lemma keeps2_XMLStartCredit: "keeps2 XMLStartCredit"
proof (rule keeps2I)
  fix s v s' assume s: "well s" and "XMLStartCredit s = Some (v, s')"
  then obtain b where b: "poke 0 (str ''WAIT'' @ [0]) (infobip_credit (get_credit s)) = Some b"
    and r: "(OpenTag ''STARTCREDIT'' (CreateXMLHeader (get_credit s\<lparr>infobip_credit := b\<rparr>)) \<bind>
      (\<lambda>s. AddTag ''STATE'' (str ''STARTED'') s \<bind> (\<lambda>s. CloseTag ''STARTCREDIT'' s \<bind> finish))) = Some (v, s')"
    by (auto simp: XMLStartCredit_def Let_def bind_eq_Some_conv)
  have "well (get_credit s)" using s by simp
  then have "well (CreateXMLHeader (get_credit s\<lparr>infobip_credit := b\<rparr>))"
    using length_poke [OF b] by (intro well_CreateXMLHeader well_text_buffers) (simp_all add: well_lengths)
  moreover have "keeps2 (\<lambda>s. OpenTag ''STARTCREDIT'' s \<bind>
      (\<lambda>s. AddTag ''STATE'' (str ''STARTED'') s \<bind> (\<lambda>s. CloseTag ''STARTCREDIT'' s \<bind> finish)))"
    by (intro page_keeps)
  ultimately show "well s'" using r by (blast intro: keeps2D)
qed

end
