(* ===== verification/Pages.thy ===== *)
theory Pages
  imports Xml_Tags
begin

section \<open>What the pages say\<close>

text \<open>
  \<open>page R s0 f t\<close> says that in every state that differs from \<open>s0\<close> in the text buffers only
  the step \<open>f\<close> appends \<open>t\<close> to the document, as long as there is room for it. Steps compose, so a
  page is described by the list of its elements.
\<close>

subsection \<open>Elements\<close>

definition elem :: "string \<Rightarrow> bytes \<Rightarrow> bytes" where
  "elem tag v = str (''<'' @ tag @ ''>'') @ v @ str (''</'' @ tag @ ''>'')"

definition xml_header :: bytes where
  "xml_header = str ''<?xml version=\"1.0\" encoding=\"ISO-8859-1\" ?>''"

definition on_off :: "byte \<Rightarrow> bytes" where
  "on_off v = (if v = 0 then str ''OFF'' else str ''ON'')"

lemma length_elem [simp]: "length (elem tag v) = 2 * length tag + 5 + length v"
  by (simp add: elem_def)

subsection \<open>Steps that append to the document\<close>

text \<open>The states differ in the text buffers only.\<close>

definition plain :: "sys \<Rightarrow> sys" where
  "plain s = s\<lparr>tbuf := [], tmpBuf := [], lstr := [], twi_buf := [], rBuf := [], XMLBuf := []\<rparr>"

definition bufs :: "sys \<Rightarrow> sys \<Rightarrow> bool" where
  "bufs s s' \<longleftrightarrow> plain s' = plain s"

lemma bufs_refl [simp]: "bufs s s"
  by (simp add: bufs_def)

lemma bufs_keep:
  assumes "bufs s s'"
  shows "ee s' = ee s" "senzor s' = senzor s" "rtc s' = rtc s" "mac_addr s' = mac_addr s" "pins s' = pins s"
    "sat s' = sat s" "minuta s' = minuta s" "sekunda s' = sekunda s" "datum s' = datum s"
    "mjesec s' = mjesec s" "godina s' = godina s" "dan s' = dan s" "sntp s' = sntp s"
    "scansetup s' = scansetup s" "dinput s' = dinput s" "files s' = files s"
  using assms by (cases s; cases s'; simp add: bufs_def plain_def)+

lemma bufs_upd:
  assumes "bufs s s'"
  shows "bufs s (s'\<lparr>XMLBuf := x\<rparr>)" "bufs s (s'\<lparr>tbuf := x\<rparr>)" "bufs s (s'\<lparr>tmpBuf := x\<rparr>)"
    "bufs s (s'\<lparr>lstr := x\<rparr>)" "bufs s (s'\<lparr>twi_buf := x\<rparr>)" "bufs s (s'\<lparr>rBuf := x\<rparr>)"
  using assms by (simp_all add: bufs_def plain_def)

text \<open>\<open>R\<close> relates what the step returns to the state it ends in.\<close>

definition page :: "('a \<Rightarrow> sys \<Rightarrow> bool) \<Rightarrow> sys \<Rightarrow> (sys \<Rightarrow> 'a option) \<Rightarrow> bytes \<Rightarrow> bool" where
  "page R s0 f t \<longleftrightarrow> (\<forall>s. sys_ok s \<longrightarrow> bufs s0 s \<longrightarrow> length (XMLBuf s) + length t < XMLBUF_SIZE \<longrightarrow>
     (\<exists>r s'. f s = Some r \<and> R r s' \<and> sys_ok s' \<and> bufs s0 s' \<and> XMLBuf s' = XMLBuf s @ t))"

definition is_length :: "u16 \<times> sys \<Rightarrow> sys \<Rightarrow> bool" where
  "is_length r s \<longleftrightarrow> r = (of_nat (length (XMLBuf s)), s)"

abbreviation (input) page_step :: "sys \<Rightarrow> (sys \<Rightarrow> sys option) \<Rightarrow> bytes \<Rightarrow> bool" where
  "page_step \<equiv> page (\<lambda>r s. s = r)"

abbreviation (input) page_doc :: "sys \<Rightarrow> (sys \<Rightarrow> (u16 \<times> sys) option) \<Rightarrow> bytes \<Rightarrow> bool" where
  "page_doc \<equiv> page is_length"

lemma page_I:
  assumes "\<And>s. \<lbrakk>sys_ok s; bufs s0 s; length (XMLBuf s) + length t < XMLBUF_SIZE\<rbrakk>
      \<Longrightarrow> \<exists>r s'. f s = Some r \<and> R r s' \<and> sys_ok s' \<and> bufs s0 s' \<and> XMLBuf s' = XMLBuf s @ t"
  shows "page R s0 f t"
  using assms by (simp add: page_def)

lemma page_D:
  assumes "page R s0 f t" "sys_ok s" "bufs s0 s" "length (XMLBuf s) + length t < XMLBUF_SIZE"
  shows "\<exists>r s'. f s = Some r \<and> R r s' \<and> sys_ok s' \<and> bufs s0 s' \<and> XMLBuf s' = XMLBuf s @ t"
  using assms by (simp add: page_def)

lemma page_bind:
  assumes "page_step s0 f t" and "page R s0 g u"
  shows "page R s0 (\<lambda>s. f s \<bind> g) (t @ u)"
proof (rule page_I)
  fix s assume s: "sys_ok s" "bufs s0 s" "length (XMLBuf s) + length (t @ u) < XMLBUF_SIZE"
  then have "length (XMLBuf s) + length t < XMLBUF_SIZE" by simp
  with page_D [OF assms(1) s(1,2)]
  obtain s1 where 1: "f s = Some s1" "sys_ok s1" "bufs s0 s1" "XMLBuf s1 = XMLBuf s @ t" by auto
  with s(3) have "length (XMLBuf s1) + length u < XMLBUF_SIZE" by simp
  with page_D [OF assms(2) 1(2,3)] 1
  show "\<exists>r s'. (f s \<bind> g) = Some r \<and> R r s' \<and> sys_ok s' \<and> bufs s0 s' \<and> XMLBuf s' = XMLBuf s @ t @ u"
    by simp
qed

lemma page_finish: "page_doc s0 finish []"
  by (simp add: page_def finish_def is_length_def)

text \<open>Fixing the array a step works on before it appends.\<close>

lemma page_via:
  assumes "\<And>s. sys_ok s \<Longrightarrow> bufs s0 s \<Longrightarrow> f s = g (u s) \<and> sys_ok (u s) \<and> bufs s0 (u s) \<and> XMLBuf (u s) = XMLBuf s"
    and "page R s0 g t"
  shows "page R s0 f t"
proof (rule page_I)
  fix s assume s: "sys_ok s" "bufs s0 s" "length (XMLBuf s) + length t < XMLBUF_SIZE"
  note a = assms(1) [OF s(1,2)]
  show "\<exists>r s'. f s = Some r \<and> R r s' \<and> sys_ok s' \<and> bufs s0 s' \<and> XMLBuf s' = XMLBuf s @ t"
    using page_D [OF assms(2), of "u s"] a s(3) by simp
qed

lemma page_strcat: "page_step s0 (strcat_XML t) t"
  by (rule page_I) (simp add: strcat_XML_def bufs_upd sys_ok_def)

lemma page_OpenTag: "page_step s0 (OpenTag tag) (str (''<'' @ tag @ ''>''))"
  unfolding OpenTag_def [abs_def] str_append by (intro page_bind page_strcat)

lemma page_CloseTag: "page_step s0 (CloseTag tag) (str (''</'' @ tag @ ''>''))"
  unfolding CloseTag_def [abs_def] str_append by (intro page_bind page_strcat)

lemma page_AddTag: "page_step s0 (AddTag tag v) (elem tag v)"
  unfolding AddTag_def [abs_def] elem_def str_append append_assoc by (intro page_bind page_strcat)

lemma page_AddTag_at: "(\<And>s. bufs s0 s \<Longrightarrow> h s = v) \<Longrightarrow> page_step s0 (\<lambda>s. AddTag tag (h s) s) (elem tag v)"
  by (rule page_via [where u = "\<lambda>s. s", OF _ page_AddTag]) simp

lemma page_AddNumTag:
  "(\<And>s. bufs s0 s \<Longrightarrow> h s = w) \<Longrightarrow> page_step s0 (\<lambda>s. AddNumTag tag (h s) s) (elem tag (dec (unat w)))"
  unfolding AddNumTag_def by (rule page_AddTag_at) simp

lemma page_AddTmp:
  assumes "\<And>s. bufs s0 s \<Longrightarrow> h s = v" and "0 \<notin> set v" and "length v < 80"
  shows "page_step s0 (\<lambda>s. AddTmp tag (h s) s) (elem tag v)"
  by (rule page_via [where u = "\<lambda>s. s\<lparr>tmpBuf := v @ 0 # drop (length v + 1) (tmpBuf s)\<rparr>", OF _ page_AddTag])
     (use assms in \<open>simp add: AddTmp_def set_tmpBuf_def poke_def AddBuf_def sys_ok_def bufs_upd\<close>)

lemma page_AddLstr:
  assumes "\<And>s. bufs s0 s \<Longrightarrow> h s = v" and "0 \<notin> set v" and "length v < 50"
  shows "page_step s0 (\<lambda>s. AddLstr tag (h s) s) (elem tag v)"
  by (rule page_via [where u = "\<lambda>s. s\<lparr>lstr := v @ 0 # drop (length v + 1) (lstr s)\<rparr>", OF _ page_AddTag])
     (use assms in \<open>simp add: AddLstr_def set_lstr_def poke_def AddBuf_def sys_ok_def bufs_upd\<close>)

text \<open>A string of the EEPROM, read into an array that is long enough.\<close>

lemma eeRd_c_str:
  assumes "c_str (eeRd a n m) = Some v"
  shows "\<exists>r. eeRd a n m = v @ 0 # r \<and> 0 \<notin> set v \<and> n = length v + 1 + length r"
proof -
  from c_str_SomeD [OF assms] obtain r where "eeRd a n m = v @ 0 # r" "0 \<notin> set v" by blast
  moreover from arg_cong [OF this(1), of length] have "n = length v + 1 + length r" by simp
  ultimately show ?thesis by blast
qed

lemma page_tbuf:
  assumes "c_str (eeRd a n (ee s0)) = Some v" and "n \<le> 80" and "page R s0 g t"
  shows "page R s0 (\<lambda>s. EE_tbuf a n s \<bind> (\<lambda>s. AddBuf tag tbuf s \<bind> g)) (elem tag v @ t)"
proof -
  from eeRd_c_str [OF assms(1)] obtain r
    where r: "eeRd a n (ee s0) = v @ 0 # r" "0 \<notin> set v" "n = length v + 1 + length r" by blast
  show ?thesis
    by (rule page_via [where u = "\<lambda>s. s\<lparr>tbuf := eeRd a n (ee s0) @ drop n (tbuf s)\<rparr>",
          OF _ page_bind [OF page_AddTag assms(3)]])
       (use assms(2) r in \<open>simp add: EE_tbuf_def poke_def AddBuf_def sys_ok_def bufs_upd bufs_keep\<close>)
qed

lemma page_twi_buf:
  assumes "c_str (eeRd a n (ee s0)) = Some v" and "n \<le> 256" and "page R s0 g t"
  shows "page R s0 (\<lambda>s. EE_twi_buf a n s \<bind> (\<lambda>s. AddBuf tag twi_buf s \<bind> g)) (elem tag v @ t)"
proof -
  from eeRd_c_str [OF assms(1)] obtain r
    where r: "eeRd a n (ee s0) = v @ 0 # r" "0 \<notin> set v" "n = length v + 1 + length r" by blast
  show ?thesis
    by (rule page_via [where u = "\<lambda>s. s\<lparr>twi_buf := eeRd a n (ee s0) @ drop n (twi_buf s)\<rparr>",
          OF _ page_bind [OF page_AddTag assms(3)]])
       (use assms(2) r in \<open>simp add: EE_twi_buf_def poke_def AddBuf_def sys_ok_def bufs_upd bufs_keep\<close>)
qed

text \<open>A page: the header, then the steps.\<close>

lemma page_run:
  assumes "page_doc (CreateXMLHeader s) f t" and "sys_ok s" and "length t < 26000"
  shows "\<exists>s'. f (CreateXMLHeader s) = Some (of_nat (length (XMLBuf s')), s')
           \<and> XMLBuf s' = xml_header @ t \<and> ee s' = ee s"
proof -
  let ?s = "CreateXMLHeader s"
  have h: "XMLBuf ?s = xml_header" "ee ?s = ee s" by (simp_all add: CreateXMLHeader_def xml_header_def)
  have l: "length xml_header < 100" by (simp add: xml_header_def)
  have r: "length (XMLBuf ?s) + length t < XMLBUF_SIZE" and ok: "sys_ok ?s"
    using l h(1) assms(2,3) by (simp_all add: XMLBUF_SIZE_def sys_ok_def CreateXMLHeader_def)
  from page_D [OF assms(1) ok bufs_refl r] obtain r s' where
    "f ?s = Some r" "is_length r s'" "XMLBuf s' = xml_header @ t" "bufs ?s s'" using h(1) by auto
  then show ?thesis using h(2) by (auto simp: is_length_def bufs_keep)
qed

subsection \<open>Texts that fit their array\<close>

lemma dec_text: "n < 10 ^ k \<Longrightarrow> 0 < k \<Longrightarrow> 0 \<notin> set (dec n) \<and> length (dec n) \<le> k"
  using dec_digits [of 0 n] length_dec [of k n] by (auto simp: isdigit_def)

lemma decb_text: "0 \<notin> set (decb b) \<and> length (decb b) \<le> 3"
  using dec_text [of "unat b" 3] unat_byte_less [of b] by (simp add: decb_def del: unat_byte_less)

lemma u16_less: "unat (w :: u16) < 65536"
  using unsigned_less [of w] by simp

lemma dec16_text: "0 \<notin> set (dec (unat (w :: u16))) \<and> length (dec (unat w)) \<le> 5"
  using dec_text [of "unat w" 5] u16_less [of w] by simp

lemma LONGtoIP_text: "0 \<notin> set (LONGtoIP w) \<and> length (LONGtoIP w) \<le> 15"
  using decb_text [of "ucast (drop_bit 24 w)"] decb_text [of "ucast (drop_bit 16 w)"]
    decb_text [of "ucast (drop_bit 8 w)"] decb_text [of "ucast w"]
  by (auto simp: LONGtoIP_def asc_def)

lemma hexX_text: "0 \<notin> set (hexX b) \<and> length (hexX b) \<le> 2"
proof -
  have "hex_digit n \<noteq> 0" if "n < 16" for n
  proof -
    have "unat (hex_digit n) = (if n < 10 then 48 + n else 55 + n)"
      using that by (auto simp: hex_digit_def unat_of_nat simp del: of_nat_add)
    then have "unat (hex_digit n) \<noteq> 0" by simp
    then show ?thesis by auto
  qed
  moreover have "unat b div 16 < 16" using unat_byte_less [of b] by linarith
  ultimately show ?thesis by (auto simp: hexX_def)
qed

lemma mac_text_text: "0 \<notin> set (mac_text bs) \<and> length (mac_text bs) \<le> 3 * length bs"
proof (induction bs rule: mac_text.induct)
  case (2 b)
  then show ?case using hexX_text [of b] by simp
next
  case (3 b c bs)
  then show ?case using hexX_text [of b] by (auto simp: asc_def)
qed simp

subsection \<open>Network settings and messages\<close>

definition mreza_page :: "bytes \<Rightarrow> bytes \<Rightarrow> bytes \<Rightarrow> bytes" where
  "mreza_page mac name m =
     xml_header @ str ''<IPMODULA>''
     @ elem ''IP'' (LONGtoIP (eeRd32 EE_IP m)) @ elem ''MAC'' (mac_text mac)
     @ elem ''SUB'' (LONGtoIP (eeRd32 EE_SUBNET m)) @ elem ''ROUT'' (LONGtoIP (eeRd32 EE_GATEWAY m))
     @ elem ''DNS'' (LONGtoIP (eeRd32 EE_DNS m)) @ elem ''HTTP'' (dec (unat (eeRd16 EE_HTTP_PORT m)))
     @ elem ''NAZIV'' name
     @ elem ''ALARMIP'' (LONGtoIP (eeRd32 EE_ALARM_IP m))
     @ elem ''ALARMPORT'' (dec (unat (eeRd16 EE_ALARM_PORT m)))
     @ str ''</IPMODULA>''"

lemma XMLMreza_shows:
  assumes "sys_ok s" and "c_str (eeRd EE_OBJECT_NAME 32 (ee s)) = Some name"
  shows "\<exists>s'. XMLMreza s = Some (of_nat (length (XMLBuf s')), s')
           \<and> XMLBuf s' = mreza_page (mac_addr s) name (ee s) \<and> ee s' = ee s"
proof -
  let ?s = "CreateXMLHeader s" and ?m = "ee s"
  have k: "ee ?s = ?m" "mac_addr ?s = mac_addr s" by (simp_all add: CreateXMLHeader_def)
  have mac: "0 \<notin> set (mac_text (mac_addr s))" "length (mac_text (mac_addr s)) < 80"
    using mac_text_text [of "mac_addr s"] assms(1) by (simp_all add: sys_ok_def)
  have ip: "0 \<notin> set (LONGtoIP w)" "length (LONGtoIP w) < 80" for w
    using LONGtoIP_text [of w] by simp_all
  have d: "0 \<notin> set (dec (unat w))" "length (dec (unat w)) < 80" for w :: u16
    using dec16_text [of w] by simp_all
  have nm: "length name < 32" using c_str_length [OF assms(2)] by simp
  have pg: "page_doc ?s (\<lambda>s. do {
     s \<leftarrow> OpenTag ''IPMODULA'' s;
     s \<leftarrow> AddTmp ''IP'' (LONGtoIP (eeRd32 EE_IP (ee s))) s;
     s \<leftarrow> AddTmp ''MAC'' (mac_text (mac_addr s)) s;
     s \<leftarrow> AddTmp ''SUB'' (LONGtoIP (eeRd32 EE_SUBNET (ee s))) s;
     s \<leftarrow> AddTmp ''ROUT'' (LONGtoIP (eeRd32 EE_GATEWAY (ee s))) s;
     s \<leftarrow> AddTmp ''DNS'' (LONGtoIP (eeRd32 EE_DNS (ee s))) s;
     s \<leftarrow> AddTmp ''HTTP'' (dec (unat (eeRd16 EE_HTTP_PORT (ee s)))) s;
     s \<leftarrow> EE_twi_buf EE_OBJECT_NAME 32 s;
     s \<leftarrow> AddBuf ''NAZIV'' twi_buf s;
     s \<leftarrow> AddTmp ''ALARMIP'' (LONGtoIP (eeRd32 EE_ALARM_IP (ee s))) s;
     s \<leftarrow> AddTmp ''ALARMPORT'' (dec (unat (eeRd16 EE_ALARM_PORT (ee s)))) s;
     s \<leftarrow> CloseTag ''IPMODULA'' s;
     finish s })
    (str (''<'' @ ''IPMODULA'' @ ''>'')
     @ elem ''IP'' (LONGtoIP (eeRd32 EE_IP ?m)) @ elem ''MAC'' (mac_text (mac_addr s))
     @ elem ''SUB'' (LONGtoIP (eeRd32 EE_SUBNET ?m)) @ elem ''ROUT'' (LONGtoIP (eeRd32 EE_GATEWAY ?m))
     @ elem ''DNS'' (LONGtoIP (eeRd32 EE_DNS ?m)) @ elem ''HTTP'' (dec (unat (eeRd16 EE_HTTP_PORT ?m)))
     @ elem ''NAZIV'' name
     @ elem ''ALARMIP'' (LONGtoIP (eeRd32 EE_ALARM_IP ?m))
     @ elem ''ALARMPORT'' (dec (unat (eeRd16 EE_ALARM_PORT ?m)))
     @ str (''</'' @ ''IPMODULA'' @ ''>'') @ [])" (is "page_doc ?s ?f ?t")
    by (intro page_bind page_twi_buf page_OpenTag page_CloseTag page_AddTmp page_finish ip d mac)
       (simp_all add: bufs_keep k assms(2))
  have len26: "length ?t < 26000"
    using nm mac(2) LONGtoIP_text dec16_text [of "eeRd16 EE_HTTP_PORT ?m"] dec16_text [of "eeRd16 EE_ALARM_PORT ?m"]
      ip(2) [of "eeRd32 EE_IP ?m"] ip(2) [of "eeRd32 EE_SUBNET ?m"] ip(2) [of "eeRd32 EE_GATEWAY ?m"]
      ip(2) [of "eeRd32 EE_DNS ?m"] ip(2) [of "eeRd32 EE_ALARM_IP ?m"]
    by simp
  note page_run [OF pg assms(1) len26]
  moreover have "xml_header @ ?t = mreza_page (mac_addr s) name ?m" by (simp add: mreza_page_def)
  ultimately show ?thesis unfolding XMLMreza_def Let_def by simp
qed

text \<open>The strings of the SMS page: tag, EEPROM area and its size.\<close>

definition sms_tags :: "(string \<times> nat \<times> nat) list" where
  "sms_tags =
     [(''UNAME'', EE_GSM_UNAME, 16), (''PASS'', EE_GSM_PASS, 16),
      (''GSM1'', EE_GSM1_NUM, 32), (''GSM2'', EE_GSM2_NUM, 32), (''GSM3'', EE_GSM3_NUM, 32),
      (''GSM4'', EE_GSM4_NUM, 32), (''GSM5'', EE_GSM5_NUM, 32),
      (''NAME1'', EE_GSM1_NAME, 32), (''NAME2'', EE_GSM2_NAME, 32), (''NAME3'', EE_GSM3_NAME, 32),
      (''NAME4'', EE_GSM4_NAME, 32), (''NAME5'', EE_GSM5_NAME, 32)]"

definition sms_page :: "u32 \<Rightarrow> u16 \<Rightarrow> (string \<Rightarrow> bytes) \<Rightarrow> bytes" where
  "sms_page ip port val =
     xml_header @ str ''<SMS>'' @ elem ''IP'' (LONGtoIP ip) @ elem ''PORT'' (dec (unat port))
     @ concat (map (\<lambda>(tag, a, n). elem tag (val tag)) sms_tags) @ str ''</SMS>''"

lemma XMLSms_shows:
  assumes "sys_ok s"
    and "list_all (\<lambda>(tag, a, n). c_str (eeRd a n (ee s)) = Some (val tag)) sms_tags"
  shows "\<exists>s'. XMLSms s = Some (of_nat (length (XMLBuf s')), s')
           \<and> XMLBuf s' = sms_page (eeRd32 EE_GSM_IP (ee s)) (eeRd16 EE_GSM_PORT (ee s)) val \<and> ee s' = ee s"
proof -
  let ?z = "s\<lparr>infobip_credit := (infobip_credit s)[0 := 0]\<rparr>"
  let ?s = "CreateXMLHeader ?z" and ?m = "ee s"
  have k: "ee ?s = ?m" by (simp add: CreateXMLHeader_def)
  have ip: "0 \<notin> set (LONGtoIP w)" "length (LONGtoIP w) < 80" for w
    using LONGtoIP_text [of w] by simp_all
  note v = assms(2) [unfolded sms_tags_def, simplified]
  note l = v [THEN conjunct1, THEN c_str_length]
  have len: "length (val tag) < 32" if "(tag, a, n) \<in> set sms_tags" for tag a n
  proof -
    have "n \<le> 32" using that by (auto simp: sms_tags_def)
    moreover have "c_str (eeRd a n (ee s)) = Some (val tag)" using that assms(2) by (auto simp: list_all_iff)
    then have "length (val tag) < n" using c_str_length by fastforce
    ultimately show ?thesis by linarith
  qed
  have pg: "page_doc ?s (\<lambda>s. do {
     s \<leftarrow> OpenTag ''SMS'' s;
     s \<leftarrow> AddTmp ''IP'' (LONGtoIP (eeRd32 EE_GSM_IP (ee s))) s;
     s \<leftarrow> AddNumTag ''PORT'' (eeRd16 EE_GSM_PORT (ee s)) s;
     s \<leftarrow> EE_tbuf EE_GSM_UNAME 16 s; s \<leftarrow> AddBuf ''UNAME'' tbuf s;
     s \<leftarrow> EE_tbuf EE_GSM_PASS 16 s;  s \<leftarrow> AddBuf ''PASS'' tbuf s;
     s \<leftarrow> EE_tbuf EE_GSM1_NUM 32 s;  s \<leftarrow> AddBuf ''GSM1'' tbuf s;
     s \<leftarrow> EE_tbuf EE_GSM2_NUM 32 s;  s \<leftarrow> AddBuf ''GSM2'' tbuf s;
     s \<leftarrow> EE_tbuf EE_GSM3_NUM 32 s;  s \<leftarrow> AddBuf ''GSM3'' tbuf s;
     s \<leftarrow> EE_tbuf EE_GSM4_NUM 32 s;  s \<leftarrow> AddBuf ''GSM4'' tbuf s;
     s \<leftarrow> EE_tbuf EE_GSM5_NUM 32 s;  s \<leftarrow> AddBuf ''GSM5'' tbuf s;
     s \<leftarrow> EE_tbuf EE_GSM1_NAME 32 s; s \<leftarrow> AddBuf ''NAME1'' tbuf s;
     s \<leftarrow> EE_tbuf EE_GSM2_NAME 32 s; s \<leftarrow> AddBuf ''NAME2'' tbuf s;
     s \<leftarrow> EE_tbuf EE_GSM3_NAME 32 s; s \<leftarrow> AddBuf ''NAME3'' tbuf s;
     s \<leftarrow> EE_tbuf EE_GSM4_NAME 32 s; s \<leftarrow> AddBuf ''NAME4'' tbuf s;
     s \<leftarrow> EE_tbuf EE_GSM5_NAME 32 s; s \<leftarrow> AddBuf ''NAME5'' tbuf s;
     s \<leftarrow> CloseTag ''SMS'' s;
     finish s })
    (str (''<'' @ ''SMS'' @ ''>'')
     @ elem ''IP'' (LONGtoIP (eeRd32 EE_GSM_IP ?m)) @ elem ''PORT'' (dec (unat (eeRd16 EE_GSM_PORT ?m)))
     @ elem ''UNAME'' (val ''UNAME'') @ elem ''PASS'' (val ''PASS'')
     @ elem ''GSM1'' (val ''GSM1'') @ elem ''GSM2'' (val ''GSM2'') @ elem ''GSM3'' (val ''GSM3'')
     @ elem ''GSM4'' (val ''GSM4'') @ elem ''GSM5'' (val ''GSM5'')
     @ elem ''NAME1'' (val ''NAME1'') @ elem ''NAME2'' (val ''NAME2'') @ elem ''NAME3'' (val ''NAME3'')
     @ elem ''NAME4'' (val ''NAME4'') @ elem ''NAME5'' (val ''NAME5'')
     @ str (''</'' @ ''SMS'' @ ''>'') @ [])" (is "page_doc ?s ?f ?t")
    by (intro page_bind page_tbuf page_OpenTag page_CloseTag page_AddTmp page_AddNumTag page_finish ip)
       (simp_all add: bufs_keep k v)
  have len26: "length ?t < 26000"
    using dec16_text [of "eeRd16 EE_GSM_PORT ?m"] ip(2) [of "eeRd32 EE_GSM_IP ?m"]
      len [unfolded sms_tags_def, of "''UNAME''"] len [unfolded sms_tags_def, of "''PASS''"]
      len [unfolded sms_tags_def, of "''GSM1''"] len [unfolded sms_tags_def, of "''GSM2''"]
      len [unfolded sms_tags_def, of "''GSM3''"] len [unfolded sms_tags_def, of "''GSM4''"]
      len [unfolded sms_tags_def, of "''GSM5''"] len [unfolded sms_tags_def, of "''NAME1''"]
      len [unfolded sms_tags_def, of "''NAME2''"] len [unfolded sms_tags_def, of "''NAME3''"]
      len [unfolded sms_tags_def, of "''NAME4''"] len [unfolded sms_tags_def, of "''NAME5''"]
    by simp
  have ok: "sys_ok ?z" using assms(1) by (simp add: sys_ok_def)
  note page_run [OF pg ok len26]
  moreover have "xml_header @ ?t = sms_page (eeRd32 EE_GSM_IP ?m) (eeRd16 EE_GSM_PORT ?m) val"
    by (simp add: sms_page_def sms_tags_def)
  ultimately show ?thesis unfolding XMLSms_def Let_def by simp
qed

text \<open>The clock page.\<close>

definition time_page :: "rtc \<Rightarrow> bytes" where
  "time_page r =
     xml_header @ str ''<TIME>''
     @ elem ''HOUR'' (decb (RTC_Hours r)) @ elem ''MIN'' (decb (RTC_Minutes r)) @ elem ''SEC'' (decb (RTC_Seconds r))
     @ elem ''DATE'' (decb (RTC_Date r)) @ elem ''MONTH'' (decb (RTC_Month r))
     @ elem ''YEAR'' (dec (unat (RTC_Year r) + 2000)) @ elem ''DAY'' (decb (RTC_WeekDay r))
     @ str ''</TIME>''"

lemma XMLTime_shows:
  assumes "sys_ok s"
  shows "\<exists>s'. XMLTime s = Some (of_nat (length (XMLBuf s')), s') \<and> XMLBuf s' = time_page (rtc s) \<and> ee s' = ee s"
proof -
  let ?z = "getDate (getTime s)"
  let ?s = "CreateXMLHeader ?z" and ?r = "rtc s"
  have k: "sat ?s = RTC_Hours ?r" "minuta ?s = RTC_Minutes ?r" "sekunda ?s = RTC_Seconds ?r"
    "godina ?s = RTC_Year ?r" "mjesec ?s = RTC_Month ?r" "datum ?s = RTC_Date ?r" "dan ?s = RTC_WeekDay ?r"
    by (simp_all add: CreateXMLHeader_def getDate_def getTime_def)
  have d: "0 \<notin> set (decb b)" "length (decb b) < 80" for b using decb_text [of b] by simp_all
  have y: "0 \<notin> set (dec (unat b + 2000)) \<and> length (dec (unat b + 2000)) \<le> 4" for b :: byte
    using dec_text [of "unat b + 2000" 4] unat_byte_less [of b] by (simp del: unat_byte_less)
  have pg: "page_doc ?s (\<lambda>s. do {
     s \<leftarrow> OpenTag ''TIME'' s;
     s \<leftarrow> AddTmp ''HOUR'' (decb (sat s)) s;
     s \<leftarrow> AddTmp ''MIN'' (decb (minuta s)) s;
     s \<leftarrow> AddTmp ''SEC'' (decb (sekunda s)) s;
     s \<leftarrow> AddTmp ''DATE'' (decb (datum s)) s;
     s \<leftarrow> AddTmp ''MONTH'' (decb (mjesec s)) s;
     s \<leftarrow> AddTmp ''YEAR'' (dec (unat (godina s) + 2000)) s;
     s \<leftarrow> AddTmp ''DAY'' (decb (dan s)) s;
     s \<leftarrow> CloseTag ''TIME'' s;
     finish s })
    (str (''<'' @ ''TIME'' @ ''>'')
     @ elem ''HOUR'' (decb (RTC_Hours ?r)) @ elem ''MIN'' (decb (RTC_Minutes ?r)) @ elem ''SEC'' (decb (RTC_Seconds ?r))
     @ elem ''DATE'' (decb (RTC_Date ?r)) @ elem ''MONTH'' (decb (RTC_Month ?r))
     @ elem ''YEAR'' (dec (unat (RTC_Year ?r) + 2000)) @ elem ''DAY'' (decb (RTC_WeekDay ?r))
     @ str (''</'' @ ''TIME'' @ ''>'') @ [])" (is "page_doc ?s ?f ?t")
    using y by (intro page_bind page_OpenTag page_CloseTag page_AddTmp page_finish d)
       (simp_all add: bufs_keep k le_less_trans [of _ 4])
  have len26: "length ?t < 26000"
    using d(2) [of "RTC_Hours ?r"] d(2) [of "RTC_Minutes ?r"] d(2) [of "RTC_Seconds ?r"] d(2) [of "RTC_Date ?r"]
      d(2) [of "RTC_Month ?r"] y [of "RTC_Year ?r"] d(2) [of "RTC_WeekDay ?r"] by simp
  have ok: "sys_ok ?z" using assms(1) by (simp add: sys_ok_def getDate_def getTime_def)
  note page_run [OF pg ok len26]
  moreover have "xml_header @ ?t = time_page ?r" by (simp add: time_page_def)
  moreover have "ee ?z = ee s" by (simp add: getDate_def getTime_def)
  moreover have "getDate (getTime (CreateXMLHeader s)) = ?s"
    by (simp add: getDate_def getTime_def CreateXMLHeader_def)
  ultimately show ?thesis unfolding XMLTime_def Let_def by simp
qed

end
