(* ===== verification/Config.thy ===== *)
theory Config
  imports Sva_Tags Pages Params
begin

section \<open>What a configuration request changes, and what the pages then show\<close>

text \<open>
  \<open>cfg_step f fs\<close> says that, from every well-formed state, the step \<open>f\<close> succeeds, writes the
  EEPROM fields \<open>fs\<close> (in the sense of \<open>ees.after\<close>) and changes nothing else but the scratch
  buffers of the parsers. Steps compose (\<open>cfg_bind\<close>), so the handlers are proved tag by tag.
\<close>

subsection \<open>Steps that only write the EEPROM\<close>

definition scratch :: "sys \<Rightarrow> sys \<Rightarrow> bool" where
  "scratch s s' \<longleftrightarrow> (\<exists>e t p i r. s' = s\<lparr>ee := e, tb := t, pb := p, iBuf := i, rBuf := r\<rparr>)"

definition cfg_step :: "(sys \<Rightarrow> sys option) \<Rightarrow> field list \<Rightarrow> bool" where
  "cfg_step f fs \<longleftrightarrow> (\<forall>s. sys_ok s \<longrightarrow>
     (\<exists>s'. f s = Some s' \<and> sys_ok s' \<and> scratch s s' \<and> ees.after fs (ee s) (ee s')))"

lemma scratch_trans: "scratch s s' \<Longrightarrow> scratch s' s'' \<Longrightarrow> scratch s s''"
  by (fastforce simp: scratch_def)

lemma scratch_simps:
  "scratch s s' \<Longrightarrow> senzor s' = senzor s \<and> dinput s' = dinput s \<and> mac_addr s' = mac_addr s
     \<and> tmpBuf s' = tmpBuf s \<and> twi_buf s' = twi_buf s \<and> XMLBuf s' = XMLBuf s \<and> nv s' = nv s"
  by (auto simp: scratch_def)

lemma cfg_stepD: "cfg_step f fs \<Longrightarrow> sys_ok s \<Longrightarrow>
    \<exists>s'. f s = Some s' \<and> sys_ok s' \<and> scratch s s' \<and> ees.after fs (ee s) (ee s')"
  by (simp add: cfg_step_def)

lemma cfg_bind:
  assumes "cfg_step f fs" and "cfg_step g gs" and "ees.sep fs gs"
  shows "cfg_step (\<lambda>s. f s \<bind> g) (fs @ gs)"
  unfolding cfg_step_def
proof (intro allI impI)
  fix s assume "sys_ok s"
  with assms(1) obtain s1 where 1: "f s = Some s1" "sys_ok s1" "scratch s s1" "ees.after fs (ee s) (ee s1)"
    by (blast dest: cfg_stepD)
  with assms(2) obtain s2 where 2: "g s1 = Some s2" "sys_ok s2" "scratch s1 s2" "ees.after gs (ee s1) (ee s2)"
    by (blast dest: cfg_stepD)
  from 1(3) 2(3) have "scratch s s2" by (rule scratch_trans)
  moreover from 1(4) 2(4) assms(3) have "ees.after (fs @ gs) (ee s) (ee s2)" by (rule ees.after_append)
  ultimately show "\<exists>s'. (f s \<bind> g) = Some s' \<and> sys_ok s' \<and> scratch s s' \<and> ees.after (fs @ gs) (ee s) (ee s')"
    using 1(1) 2(1,2) by simp
qed

text \<open>A step that succeeds with one write at the end.\<close>

lemma cfg_stepI:
  assumes "ee_fits a n" and "length cs \<le> n"
    and "\<And>s. sys_ok s \<Longrightarrow> \<exists>t p i r bs. f s = Some (s\<lparr>tb := t, pb := p, iBuf := i, rBuf := r, ee := eeWr a bs (ee s)\<rparr>)
            \<and> length t = 130 \<and> length p = 40 \<and> length r = 1024 \<and> length bs \<le> n \<and> take (length cs) bs = cs"
  shows "cfg_step f [(a, n, cs)]"
  unfolding cfg_step_def
proof (intro allI impI)
  fix s assume s: "sys_ok s"
  from assms(3) [OF s] obtain t p i r bs where
    f: "f s = Some (s\<lparr>tb := t, pb := p, iBuf := i, rBuf := r, ee := eeWr a bs (ee s)\<rparr>)"
    and l: "length t = 130" "length p = 40" "length r = 1024" "length bs \<le> n" "take (length cs) bs = cs"
    by blast
  let ?s' = "s\<lparr>tb := t, pb := p, iBuf := i, rBuf := r, ee := eeWr a bs (ee s)\<rparr>"
  have "sys_ok ?s'" using s l by (simp add: sys_ok_def)
  moreover have "scratch s ?s'"
    unfolding scratch_def by (rule exI [of _ "eeWr a bs (ee s)"], rule exI [of _ t], rule exI [of _ p],
        rule exI [of _ i], rule exI [of _ r]) simp
  moreover have "ees.after [(a, n, cs)] (ee s) (ee ?s')"
    using s l assms(1) by (simp add: ees.after_wr ees.fits_less sys_ok_def)
  ultimately show "\<exists>s'. f s = Some s' \<and> sys_ok s' \<and> scratch s s' \<and> ees.after [(a, n, cs)] (ee s) (ee s')"
    using f by blast
qed

text \<open>The conditions under which a request sets a tag.\<close>

definition sets :: "bytes \<Rightarrow> u16 \<Rightarrow> string \<Rightarrow> bytes \<Rightarrow> bool" where
  "sets msg len tag v \<longleftrightarrow> msg_ok msg len \<and> tag \<noteq> '''' \<and> length tag \<le> 30
     \<and> tag_value tag msg len = Some v \<and> v \<noteq> [] \<and> length v < 128"

lemma parse_at_sets:
  assumes "sets msg len tag v" and "sys_ok s"
  shows "parse_at tag msg len s
       = Some (of_nat (length v), s\<lparr>tb := v @ 0 # drop (length v + 1) (tb s), iBuf := 0\<rparr>)"
  using assms parse_at_found [of tag msg len v s] by (simp add: sets_def sys_ok_def)

lemma parse_tb_sets:
  assumes "sets msg len tag v" and "sys_ok s"
  shows "parse_tb tag msg len s = Some (of_nat (length v), s\<lparr>tb := v @ 0 # drop (length v + 1) (tb s)\<rparr>)"
  using assms parse_tb_found [of tag msg len v s] by (simp add: sets_def sys_ok_def)

lemma sets_nz:
  assumes "sets msg len tag v"
  shows "(of_nat (length v) :: byte) \<noteq> 0"
proof
  assume "(of_nat (length v) :: byte) = 0"
  then have "unat (of_nat (length v) :: byte) = 0" by simp
  with assms show False by (simp add: sets_def unat_of_nat)
qed

lemma save_ip_step:
  assumes "sets msg len tag (ip_text a b c d)" and "a < 256" "b < 256" "c < 256" "d < 256" and "ee_fits adr 4"
  shows "cfg_step (save_ip tag adr msg len) [(adr, 4, [of_nat a, of_nat b, of_nat c, of_nat d])]"
proof (rule cfg_stepI)
  fix s assume s: "sys_ok s"
  let ?v = "ip_text a b c d"
  let ?t = "?v @ 0 # drop (length ?v + 1) (tb s)"
  let ?p = "[of_nat a, of_nat b, of_nat c, of_nat d] @ drop 4 (pb s)"
  have lt: "length ?t = 130" and lp: "length ?p = 40"
    using s assms(1) by (simp_all add: sys_ok_def sets_def)
  have "IPtoFile Pb (of_nat (length ?v)) (s\<lparr>tb := ?t, iBuf := 0\<rparr>)
      = Some (True, s\<lparr>tb := ?t, iBuf := length ?v, pb := ?p\<rparr>)"
    using IPtoFile_text [OF assms(2-5), of "s\<lparr>tb := ?t, iBuf := 0\<rparr>"] s by (simp add: sys_ok_def)
  then have f: "save_ip tag adr msg len s = Some (s\<lparr>tb := ?t, pb := ?p, iBuf := length ?v, rBuf := rBuf s,
      ee := eeWr adr [of_nat a, of_nat b, of_nat c, of_nat d] (ee s)\<rparr>)"
    using parse_at_sets [OF assms(1) s] sets_nz [OF assms(1)] by (simp add: save_ip_def EE_write_def)
  show "\<exists>t p i r bs. save_ip tag adr msg len s
      = Some (s\<lparr>tb := t, pb := p, iBuf := i, rBuf := r, ee := eeWr adr bs (ee s)\<rparr>)
      \<and> length t = 130 \<and> length p = 40 \<and> length r = 1024 \<and> length bs \<le> 4
      \<and> take (length [of_nat a, of_nat b, of_nat c, of_nat d]) bs = [of_nat a, of_nat b, of_nat c, of_nat d]"
    by (intro exI conjI, rule f) (use lt lp s in \<open>simp_all add: sys_ok_def\<close>)
qed (use assms in simp_all)

lemma save_int_step:
  assumes "sets msg len tag (dec n)" and "n < 65536" and "ee_fits adr 2"
  shows "cfg_step (save_int tag adr msg len) [(adr, 2, split16 (of_nat n))]"
proof (rule cfg_stepI)
  fix s assume s: "sys_ok s"
  let ?v = "dec n"
  let ?t = "?v @ 0 # drop (length ?v + 1) (tb s)"
  let ?p = "split16 (of_nat n) @ drop 2 (pb s)"
  have lt: "length ?t = 130" and lp: "length ?p = 40"
    using s assms(1) by (simp_all add: sys_ok_def sets_def split16_def)
  have "IntToFile Pb (of_nat (length ?v)) (s\<lparr>tb := ?t, iBuf := 0\<rparr>)
      = Some (True, s\<lparr>tb := ?t, iBuf := length ?v, pb := ?p\<rparr>)"
    using IntToFile_dec [OF assms(2), of "s\<lparr>tb := ?t, iBuf := 0\<rparr>"] s by (simp add: sys_ok_def)
  then have f: "save_int tag adr msg len s = Some (s\<lparr>tb := ?t, pb := ?p, iBuf := length ?v, rBuf := rBuf s,
      ee := eeWr adr (split16 (of_nat n)) (ee s)\<rparr>)"
    using parse_at_sets [OF assms(1) s] sets_nz [OF assms(1)]
    by (simp add: save_int_def EE_write_def split16_def)
  show "\<exists>t p i r bs. save_int tag adr msg len s
      = Some (s\<lparr>tb := t, pb := p, iBuf := i, rBuf := r, ee := eeWr adr bs (ee s)\<rparr>)
      \<and> length t = 130 \<and> length p = 40 \<and> length r = 1024 \<and> length bs \<le> 2
      \<and> take (length (split16 (of_nat n))) bs = split16 (of_nat n)"
    by (intro exI conjI, rule f) (use lt lp s in \<open>simp_all add: sys_ok_def split16_def\<close>)
qed (use assms in \<open>simp_all add: split16_def\<close>)

lemma StringToFile_Pb:
  assumes "sys_ok s" and "tb s = v @ 0 # rest" and "iBuf s = 0" and "\<forall>c \<in> set v. string_char c"
    and "length v < 40"
  shows "StringToFile Pb (of_nat (length v)) s
       = Some (of_nat (length v), s\<lparr>iBuf := length v + 1, pb := v @ 0 # drop (length v + 1) (pb s)\<rparr>)"
  using assms by (intro StringToFile_plain) (auto simp: store_def poke_def sys_ok_def)

lemma save_str_step:
  assumes "sets msg len tag v" and "\<forall>c \<in> set v. string_char c" and "length v < n" and "n \<le> 32"
    and "ee_fits adr n"
  shows "cfg_step (save_str tag adr msg len) [(adr, n, v @ [0])]"
proof (rule cfg_stepI)
  fix s assume s: "sys_ok s"
  let ?t = "v @ 0 # drop (length v + 1) (tb s)"
  let ?p = "v @ 0 # drop (length v + 1) (pb s)"
  have lt: "length ?t = 130" and lp: "length ?p = 40"
    using s assms by (simp_all add: sys_ok_def sets_def)
  have "sys_ok (s\<lparr>tb := ?t, iBuf := 0\<rparr>)" using s lt by (simp add: sys_ok_def)
  then have "StringToFile Pb (of_nat (length v)) (s\<lparr>tb := ?t, iBuf := 0\<rparr>)
      = Some (of_nat (length v), s\<lparr>tb := ?t, iBuf := length v + 1, pb := ?p\<rparr>)"
    using StringToFile_Pb [of "s\<lparr>tb := ?t, iBuf := 0\<rparr>" v] assms by simp
  moreover have "c_str ?p = Some v" by (rule c_str_append) (use assms(2) string_char_nz in blast)
  ultimately have f: "save_str tag adr msg len s = Some (s\<lparr>tb := ?t, pb := ?p, iBuf := length v + 1, rBuf := rBuf s,
      ee := eeWr adr (v @ [0]) (ee s)\<rparr>)"
    using parse_at_sets [OF assms(1) s] sets_nz [OF assms(1)]
    by (simp add: save_str_def EE_write_def EE_write_pb_def)
  show "\<exists>t p i r bs. save_str tag adr msg len s
      = Some (s\<lparr>tb := t, pb := p, iBuf := i, rBuf := r, ee := eeWr adr bs (ee s)\<rparr>)
      \<and> length t = 130 \<and> length p = 40 \<and> length r = 1024 \<and> length bs \<le> n
      \<and> take (length (v @ [0])) bs = v @ [0]"
    by (intro exI conjI, rule f) (use lt lp s assms in \<open>simp_all add: sys_ok_def\<close>)
qed (use assms in simp_all)

lemma save_name_step:
  assumes "sets msg len tag v" and "\<forall>c \<in> set v. string_char c" and "length v < 32" and "ee_fits adr 32"
  shows "cfg_step (save_name tag adr msg len) [(adr, 32, v @ [0])]"
proof (rule cfg_stepI)
  fix s assume s: "sys_ok s"
  let ?t = "v @ 0 # drop (length v + 1) (tb s)"
  let ?p = "v @ 0 # drop (length v + 1) (pb s)"
  have lt: "length ?t = 130" and lp: "length ?p = 40"
    using s assms by (simp_all add: sys_ok_def sets_def)
  have "sys_ok (s\<lparr>tb := ?t, iBuf := 0\<rparr>)" using s lt by (simp add: sys_ok_def)
  then have "StringToFile Pb (of_nat (length v)) (s\<lparr>tb := ?t, iBuf := 0\<rparr>)
      = Some (of_nat (length v), s\<lparr>tb := ?t, iBuf := length v + 1, pb := ?p\<rparr>)"
    using StringToFile_Pb [of "s\<lparr>tb := ?t, iBuf := 0\<rparr>" v] assms by simp
  then have f: "save_name tag adr msg len s = Some (s\<lparr>tb := ?t, pb := ?p, iBuf := length v + 1, rBuf := rBuf s,
      ee := eeWr adr (take 32 ?p) (ee s)\<rparr>)"
    using parse_at_sets [OF assms(1) s] sets_nz [OF assms(1)]
    by (simp add: save_name_def EE_write_def)
  have tk: "take (length (v @ [0])) (take 32 ?p) = v @ [0]" using assms(3) by (simp add: min_def)
  show "\<exists>t p i r bs. save_name tag adr msg len s
      = Some (s\<lparr>tb := t, pb := p, iBuf := i, rBuf := r, ee := eeWr adr bs (ee s)\<rparr>)
      \<and> length t = 130 \<and> length p = 40 \<and> length r = 1024 \<and> length bs \<le> 32
      \<and> take (length (v @ [0])) bs = v @ [0]"
    by (intro exI conjI, rule f) (use lt lp s tk in \<open>simp_all add: sys_ok_def\<close>)
qed (use assms in simp_all)

lemma cfg_store_rBuf:
  assumes "i + length bs \<le> 1024"
  shows "cfg_step (store RBuf i bs) []"
  unfolding cfg_step_def
proof (intro allI impI)
  fix s assume s: "sys_ok s"
  let ?s' = "s\<lparr>rBuf := take i (rBuf s) @ bs @ drop (i + length bs) (rBuf s)\<rparr>"
  have "store RBuf i bs s = Some ?s'" and "sys_ok ?s'"
    using s assms by (simp_all add: store_def poke_def sys_ok_def)
  moreover have "scratch s ?s'"
    unfolding scratch_def by (rule exI [of _ "ee s"], rule exI [of _ "tb s"], rule exI [of _ "pb s"],
        rule exI [of _ "iBuf s"], rule exI) simp
  ultimately show "\<exists>s'. store RBuf i bs s = Some s' \<and> sys_ok s' \<and> scratch s s' \<and> ees.after [] (ee s) (ee s')"
    using s by (intro exI [of _ ?s']) (simp add: ees.after_Nil sys_ok_def)
qed

subsection \<open>The network settings\<close>

text \<open>The request sets every tag of \<open>SaveNet\<close>.\<close>

record netcfg =
  n_ip :: "nat \<times> nat \<times> nat \<times> nat"
  n_sub :: "nat \<times> nat \<times> nat \<times> nat"
  n_rout :: "nat \<times> nat \<times> nat \<times> nat"
  n_dns :: "nat \<times> nat \<times> nat \<times> nat"
  n_http :: nat
  n_naziv :: bytes
  n_aport :: nat
  n_aip :: "nat \<times> nat \<times> nat \<times> nat"

definition ip_str :: "nat \<times> nat \<times> nat \<times> nat \<Rightarrow> bytes" where
  "ip_str = (\<lambda>(a, b, c, d). ip_text a b c d)"

definition ip_bytes :: "nat \<times> nat \<times> nat \<times> nat \<Rightarrow> bytes" where
  "ip_bytes = (\<lambda>(a, b, c, d). [of_nat a, of_nat b, of_nat c, of_nat d])"

definition ip_ok :: "nat \<times> nat \<times> nat \<times> nat \<Rightarrow> bool" where
  "ip_ok = (\<lambda>(a, b, c, d). a < 256 \<and> b < 256 \<and> c < 256 \<and> d < 256)"

definition net_request :: "bytes \<Rightarrow> u16 \<Rightarrow> netcfg \<Rightarrow> bool" where
  "net_request msg len n \<longleftrightarrow>
     sets msg len ''<IP>'' (ip_str (n_ip n)) \<and> ip_ok (n_ip n)
   \<and> sets msg len ''<SUB>'' (ip_str (n_sub n)) \<and> ip_ok (n_sub n)
   \<and> sets msg len ''<ROUT>'' (ip_str (n_rout n)) \<and> ip_ok (n_rout n)
   \<and> sets msg len ''<DNS>'' (ip_str (n_dns n)) \<and> ip_ok (n_dns n)
   \<and> sets msg len ''<HTTP>'' (dec (n_http n)) \<and> n_http n < 65536
   \<and> sets msg len ''<NAZIV>'' (n_naziv n) \<and> list_all string_char (n_naziv n) \<and> length (n_naziv n) < 32
   \<and> sets msg len ''<ALARMPORT>'' (dec (n_aport n)) \<and> n_aport n < 65536
   \<and> sets msg len ''<ALARMIP>'' (ip_str (n_aip n)) \<and> ip_ok (n_aip n)"

definition net_fields :: "netcfg \<Rightarrow> field list" where
  "net_fields n =
     [(EE_IP, 4, ip_bytes (n_ip n)), (EE_SUBNET, 4, ip_bytes (n_sub n)),
      (EE_GATEWAY, 4, ip_bytes (n_rout n)), (EE_DNS, 4, ip_bytes (n_dns n)),
      (EE_HTTP_PORT, 2, split16 (of_nat (n_http n))), (EE_OBJECT_NAME, 32, n_naziv n @ [0]),
      (EE_ALARM_PORT, 2, split16 (of_nat (n_aport n))), (EE_ALARM_IP, 4, ip_bytes (n_aip n))]"

lemma ip_step:
  "sets msg len tag (ip_str x) \<Longrightarrow> ip_ok x \<Longrightarrow> ee_fits adr 4 \<Longrightarrow> cfg_step (save_ip tag adr msg len) [(adr, 4, ip_bytes x)]"
  by (cases x) (auto simp: ip_str_def ip_bytes_def ip_ok_def intro: save_ip_step)

lemma length_ip_bytes [simp]: "length (ip_bytes x) = 4"
  by (cases x) (simp add: ip_bytes_def)

lemma length_split16 [simp]: "length (split16 w) = 2"
  by (simp add: split16_def)

lemma cfg_bind1:
  "cfg_step f [x] \<Longrightarrow> cfg_step g gs \<Longrightarrow> ees.sep [x] gs \<Longrightarrow> cfg_step (\<lambda>s. f s \<bind> g) (x # gs)"
  using cfg_bind [of f "[x]" g gs] by simp

lemma cfg_bind0:
  "cfg_step f [] \<Longrightarrow> cfg_step g gs \<Longrightarrow> cfg_step (\<lambda>s. f s \<bind> g) gs"
  using cfg_bind [of f "[]" g gs] by (simp add: ees.sep_def)

lemmas sep_simps = ees.sep_def ees.clear_of_simps ee_fits_def EE_SIZE_def EE_PAGE_def

lemma SaveNet_step:
  assumes "net_request msg len n"
  shows "cfg_step (SaveNet msg len) (net_fields n)"
  unfolding SaveNet_def [abs_def] net_fields_def
  by (rule cfg_bind0, rule cfg_store_rBuf, simp)
     (intro cfg_bind1 ip_step save_int_step save_name_step;
       use assms in \<open>auto simp: net_request_def sep_simps list_all_iff\<close>)

text \<open>What the pages print of such fields.\<close>

lemma LONGtoIP_ip_bytes:
  assumes "eeRd a 4 m = ip_bytes x" and "ip_ok x"
  shows "LONGtoIP (eeRd32 a m) = ip_str x"
proof -
  obtain p q r t where x: "x = (p, q, r, t)" by (metis prod_cases4)
  have b: "ucast (drop_bit 24 (be32 b1 b2 b3 b4)) = b1" "ucast (drop_bit 16 (be32 b1 b2 b3 b4)) = b2"
    "ucast (drop_bit 8 (be32 b1 b2 b3 b4)) = b3" "ucast (be32 b1 b2 b3 b4) = b4" for b1 b2 b3 b4 :: byte
    unfolding be32_def join8 by (rule byte_eqI; auto simp: bit_simps dest: bit_imp_le_length)+
  show ?thesis
    using assms unfolding x eeRd32_eq
    by (simp add: ip_bytes_def ip_ok_def ip_str_def ip_text_def LONGtoIP_def decb_def b unat_of_nat)
qed

lemma eeRd16_split16: "eeRd a 2 m = split16 w \<Longrightarrow> eeRd16 a m = w"
  unfolding eeRd16_eq by (simp add: split16_def be16_split16)

lemma c_str_area:
  assumes "eeRd a (length (v @ [0])) m = v @ [0]" and "0 \<notin> set v" and "length v < n"
  shows "c_str (eeRd a n m) = Some v"
proof -
  have "eeRd a (length (v @ [0])) m = take (length (v @ [0])) (eeRd a n m)"
    using assms(3) by (intro ees.rd_take) simp
  then have "eeRd a n m = (v @ [0]) @ drop (length (v @ [0])) (eeRd a n m)"
    using assms(1) append_take_drop_id [of "length (v @ [0])" "eeRd a n m"] by metis
  then show ?thesis using c_str_append [OF assms(2)] by (metis append.assoc append_Cons append_Nil)
qed

lemma unat_of_nat16 [simp]: "n < 65536 \<Longrightarrow> unat (of_nat n :: u16) = n"
  by (simp add: unat_of_nat)

definition netcfg_page :: "bytes \<Rightarrow> netcfg \<Rightarrow> bytes" where
  "netcfg_page mac n =
     xml_header @ str ''<IPMODULA>''
     @ elem ''IP'' (ip_str (n_ip n)) @ elem ''MAC'' (mac_text mac)
     @ elem ''SUB'' (ip_str (n_sub n)) @ elem ''ROUT'' (ip_str (n_rout n))
     @ elem ''DNS'' (ip_str (n_dns n)) @ elem ''HTTP'' (dec (n_http n))
     @ elem ''NAZIV'' (n_naziv n)
     @ elem ''ALARMIP'' (ip_str (n_aip n)) @ elem ''ALARMPORT'' (dec (n_aport n))
     @ str ''</IPMODULA>''"

lemma net_fields_shown:
  assumes "net_request msg len n" and "sys_ok s" and "ees.after (net_fields n) e (ee s)"
  shows "\<exists>s'. XMLMreza s = Some (of_nat (length (XMLBuf s')), s') \<and> XMLBuf s' = netcfg_page (mac_addr s) n \<and> ee s' = ee s"
proof -
  note rd = ees.after_read [OF assms(3)]
  have ip: "eeRd EE_IP 4 (ee s) = ip_bytes (n_ip n)" "eeRd EE_SUBNET 4 (ee s) = ip_bytes (n_sub n)"
    "eeRd EE_GATEWAY 4 (ee s) = ip_bytes (n_rout n)" "eeRd EE_DNS 4 (ee s) = ip_bytes (n_dns n)"
    "eeRd EE_ALARM_IP 4 (ee s) = ip_bytes (n_aip n)"
    using rd [of EE_IP 4 "ip_bytes (n_ip n)"] rd [of EE_SUBNET 4 "ip_bytes (n_sub n)"]
      rd [of EE_GATEWAY 4 "ip_bytes (n_rout n)"] rd [of EE_DNS 4 "ip_bytes (n_dns n)"]
      rd [of EE_ALARM_IP 4 "ip_bytes (n_aip n)"] by (simp_all add: net_fields_def)
  have num: "eeRd EE_HTTP_PORT 2 (ee s) = split16 (of_nat (n_http n))"
    "eeRd EE_ALARM_PORT 2 (ee s) = split16 (of_nat (n_aport n))"
    using rd [of EE_HTTP_PORT 2 "split16 (of_nat (n_http n))"]
      rd [of EE_ALARM_PORT 2 "split16 (of_nat (n_aport n))"] by (simp_all add: net_fields_def)
  have "0 \<notin> set (n_naziv n)" using assms(1) string_char_nz by (auto simp: net_request_def list_all_iff)
  then have nm: "c_str (eeRd EE_OBJECT_NAME 32 (ee s)) = Some (n_naziv n)"
    using assms(1) rd [of EE_OBJECT_NAME 32 "n_naziv n @ [0]"]
    by (intro c_str_area) (simp_all add: net_fields_def net_request_def)
  have "mreza_page (mac_addr s) (n_naziv n) (ee s) = netcfg_page (mac_addr s) n"
    using assms(1) ip num
    by (simp add: mreza_page_def netcfg_page_def net_request_def LONGtoIP_ip_bytes eeRd16_split16)
  then show ?thesis using XMLMreza_shows [OF assms(2) nm] by metis
qed

lemma SaveNet_shown:
  assumes "net_request msg len n" and "sys_ok s"
  shows "\<exists>s' s''. SaveNet msg len s = Some s' \<and> sys_ok s' \<and> scratch s s'
           \<and> ees.after (net_fields n) (ee s) (ee s')
           \<and> XMLMreza s' = Some (of_nat (length (XMLBuf s'')), s'')
           \<and> XMLBuf s'' = netcfg_page (mac_addr s) n"
proof -
  from cfg_stepD [OF SaveNet_step [OF assms(1)] assms(2)] obtain s' where
    s': "SaveNet msg len s = Some s'" "sys_ok s'" "scratch s s'" "ees.after (net_fields n) (ee s) (ee s')" by blast
  from net_fields_shown [OF assms(1) s'(2,4)] scratch_simps [OF s'(3)] s' show ?thesis by auto
qed

subsection \<open>The message settings\<close>

definition sms_request :: "bytes \<Rightarrow> u16 \<Rightarrow> nat \<times> nat \<times> nat \<times> nat \<Rightarrow> nat \<Rightarrow> (string \<Rightarrow> bytes) \<Rightarrow> bool" where
  "sms_request msg len ip port val \<longleftrightarrow>
     sets msg len ''<IP>'' (ip_str ip) \<and> ip_ok ip \<and> sets msg len ''<PORT>'' (dec port) \<and> port < 65536
   \<and> list_all (\<lambda>(tag, a, n). sets msg len (''<'' @ tag @ ''>'') (val tag)
        \<and> list_all string_char (val tag) \<and> length (val tag) < n) sms_tags"

definition sms_fields :: "nat \<times> nat \<times> nat \<times> nat \<Rightarrow> nat \<Rightarrow> (string \<Rightarrow> bytes) \<Rightarrow> field list" where
  "sms_fields ip port val =
     (EE_GSM_IP, 4, ip_bytes ip) # (EE_GSM_PORT, 2, split16 (of_nat port))
       # map (\<lambda>(tag, a, n). (a, n, val tag @ [0])) sms_tags"

lemma SaveSms_step:
  assumes "sms_request msg len ip port val"
  shows "cfg_step (SaveSms msg len) (sms_fields ip port val)"
  using assms unfolding SaveSms_def [abs_def] sms_fields_def sms_tags_def list.map prod.case sms_request_def list_all_iff
  by (intro cfg_bind1 ip_step save_int_step save_str_step)
     (auto simp: sep_simps list_all_iff)

lemma SaveSms_shown:
  assumes "sms_request msg len ip port val" and "sys_ok s"
  shows "\<exists>s' s''. SaveSms msg len s = Some s' \<and> sys_ok s' \<and> scratch s s'
           \<and> ees.after (sms_fields ip port val) (ee s) (ee s')
           \<and> XMLSms s' = Some (of_nat (length (XMLBuf s'')), s'')
           \<and> XMLBuf s'' = xml_header @ str ''<SMS>'' @ elem ''IP'' (ip_str ip) @ elem ''PORT'' (dec port)
               @ concat (map (\<lambda>(tag, a, n). elem tag (val tag)) sms_tags) @ str ''</SMS>''"
proof -
  from cfg_stepD [OF SaveSms_step [OF assms(1)] assms(2)] obtain s' where
    s': "SaveSms msg len s = Some s'" "sys_ok s'" "scratch s s'" "ees.after (sms_fields ip port val) (ee s) (ee s')"
    by blast
  note rd = ees.after_read [OF s'(4)]
  have ip: "eeRd EE_GSM_IP 4 (ee s') = ip_bytes ip" and port: "eeRd EE_GSM_PORT 2 (ee s') = split16 (of_nat port)"
    using rd [of EE_GSM_IP 4 "ip_bytes ip"] rd [of EE_GSM_PORT 2 "split16 (of_nat port)"]
    by (simp_all add: sms_fields_def)
  have "c_str (eeRd a n (ee s')) = Some (val tag)" if t: "(tag, a, n) \<in> set sms_tags" for tag a n
  proof (rule c_str_area)
    have v: "list_all string_char (val tag)" "length (val tag) < n"
      using assms(1) t by (auto simp: sms_request_def list_all_iff)
    then show "0 \<notin> set (val tag)" and "length (val tag) < n" using string_char_nz by (auto simp: list_all_iff)
    have "(a, n, val tag @ [0]) \<in> set (sms_fields ip port val)" using t by (force simp: sms_fields_def)
    then show "eeRd a (length (val tag @ [0])) (ee s') = val tag @ [0]" by (rule rd)
  qed
  then have "list_all (\<lambda>(tag, a, n). c_str (eeRd a n (ee s')) = Some (val tag)) sms_tags"
    by (auto simp: list_all_iff)
  from XMLSms_shows [OF s'(2) this] obtain s'' where
    "XMLSms s' = Some (of_nat (length (XMLBuf s'')), s'')"
    "XMLBuf s'' = sms_page (eeRd32 EE_GSM_IP (ee s')) (eeRd16 EE_GSM_PORT (ee s')) val" by blast
  with s' assms(1) show ?thesis
    by (intro exI [of _ s'] exI [of _ s''])
       (simp add: sms_page_def sms_request_def LONGtoIP_ip_bytes [OF ip] eeRd16_split16 [OF port])
qed

end
