(* ===== verification/Forms.thy ===== *)
theory Forms
  imports Config
begin

section \<open>The body of a request as a form\<close>

text \<open>
  The web pages of the device post their settings as a sequence of elements
  \<open><TAG>value</TAG>\<close>. \<open>form\<close> builds such a body; \<open>tag_value_form\<close> says that looking a
  tag up finds its value, wherever it stands, if no name or value holds an angle bracket.
\<close>

definition form :: "(string \<times> bytes) list \<Rightarrow> bytes" where
  "form kvs = concat (map (\<lambda>(t, v). elem t v) kvs)"

definition plain_text :: "bytes \<Rightarrow> bool" where
  "plain_text v \<longleftrightarrow> list_all (\<lambda>c. c \<noteq> asc CHR ''<'' \<and> c \<noteq> asc CHR ''>'') v"

definition field_ok :: "string \<times> bytes \<Rightarrow> bool" where
  "field_ok = (\<lambda>(t, v). t \<noteq> '''' \<and> length t \<le> 28 \<and> plain_text (str t) \<and> hd (str t) \<noteq> asc CHR ''/''
     \<and> plain_text v \<and> length v < 128)"

definition form_ok :: "(string \<times> bytes) list \<Rightarrow> bool" where
  "form_ok kvs \<longleftrightarrow> distinct (map (\<lambda>(t, v). str t) kvs) \<and> list_all field_ok kvs \<and> length (form kvs) < 4096"

lemma form_simps:
  "form [] = []"
  "form ((t, v) # kvs) = elem t v @ form kvs"
  by (simp_all add: form_def)

subsection \<open>Searching for an opening tag\<close>

lemma find_from_no_lt:
  "asc CHR ''<'' \<notin> set xs \<Longrightarrow> find_from (asc CHR ''<'' # k) (xs @ ys) p = find_from (asc CHR ''<'' # k) ys (p + length xs)"
  by (induction xs arbitrary: p) auto

lemma find_from_lt_other:
  "take (length k) xs \<noteq> k \<Longrightarrow>
    find_from (asc CHR ''<'' # k) (asc CHR ''<'' # xs) p = find_from (asc CHR ''<'' # k) xs (Suc p)"
  by simp

lemma find_from_lt_same: "find_from (asc CHR ''<'' # k) (asc CHR ''<'' # k @ xs) p = Some p"
  by simp

text \<open>Names without an angle bracket, closed by one, match only if they are equal.\<close>

lemma closed_name_eq:
  assumes "take (length (a @ [g])) (b @ g # xs) = a @ [g]" and "g \<notin> set a" and "g \<notin> set b"
  shows "a = b"
proof -
  have "takeWhile (\<lambda>c. c \<noteq> g) (b @ g # xs) = b"
    using assms(3) by (induction b) auto
  moreover have "b @ g # xs = (a @ [g]) @ drop (length (a @ [g])) (b @ g # xs)"
    using assms(1) append_take_drop_id by metis
  then have "takeWhile (\<lambda>c. c \<noteq> g) (b @ g # xs) = takeWhile (\<lambda>c. c \<noteq> g) (a @ g # drop (length (a @ [g])) (b @ g # xs))"
    by (metis append.assoc append_Cons append_Nil)
  moreover have "takeWhile (\<lambda>c. c \<noteq> g) (a @ g # ys) = a" for ys
    using assms(2) by (induction a) auto
  ultimately show ?thesis by simp
qed

lemma plain_textD: "plain_text v \<Longrightarrow> asc CHR ''<'' \<notin> set v \<and> asc CHR ''>'' \<notin> set v"
  by (auto simp: plain_text_def list_all_iff)

lemma elem_unfold:
  "elem t v = asc CHR ''<'' # (str t @ asc CHR ''>'' # v) @ asc CHR ''<'' # asc CHR ''/'' # str t @ [asc CHR ''>'']"
  by (simp add: elem_def)

lemma find_in_elem_other:
  assumes "field_ok (t, v)" and "field_ok (u, w)" and "str t \<noteq> str u"
  shows "find_from (str (''<'' @ u @ ''>'')) (elem t v @ ys) p
       = find_from (str (''<'' @ u @ ''>'')) ys (p + length (elem t v))"
proof -
  let ?lt = "asc CHR ''<''" and ?gt = "asc CHR ''>''" and ?sl = "asc CHR ''/''"
  let ?k = "str u @ [?gt]"
  have t: "?lt \<notin> set (str t)" "?gt \<notin> set (str t)" "?lt \<notin> set v" and u: "?gt \<notin> set (str u)" "str u \<noteq> []" "hd (str u) \<noteq> ?sl"
    using assms(1,2) plain_textD [of "str t"] plain_textD [of v] plain_textD [of "str u"]
    by (auto simp: field_ok_def str_def)
  have k: "str (''<'' @ u @ ''>'') = ?lt # ?k" by simp
  have gl: "?lt \<noteq> ?gt" "?lt \<noteq> ?sl" by (simp_all add: asc_def)
  have o1: "take (length ?k) ((str t @ ?gt # v) @ ?lt # ?sl # str t @ [?gt] @ ys) \<noteq> ?k"
  proof
    assume "take (length ?k) ((str t @ ?gt # v) @ ?lt # ?sl # str t @ [?gt] @ ys) = ?k"
    then have "take (length (str u @ [?gt])) (str t @ ?gt # (v @ ?lt # ?sl # str t @ [?gt] @ ys)) = str u @ [?gt]" by simp
    then have "str u = str t" using u(1) t(2) by (rule closed_name_eq)
    with assms(3) show False by simp
  qed
  have o2: "take (length ?k) (?sl # str t @ [?gt] @ ys) \<noteq> ?k"
    using u(2,3) by (cases "str u") auto
  have "find_from (?lt # ?k) (elem t v @ ys) p
      = find_from (?lt # ?k) (?lt # (str t @ ?gt # v) @ ?lt # ?sl # str t @ [?gt] @ ys) p"
    by (simp add: elem_unfold)
  also have "\<dots> = find_from (?lt # ?k) ((str t @ ?gt # v) @ ?lt # ?sl # str t @ [?gt] @ ys) (Suc p)"
    using o1 by (rule find_from_lt_other)
  also have "\<dots> = find_from (?lt # ?k) (?lt # ?sl # str t @ [?gt] @ ys) (Suc p + length (str t @ ?gt # v))"
    using t gl by (intro find_from_no_lt) auto
  also have "\<dots> = find_from (?lt # ?k) (?sl # str t @ [?gt] @ ys) (Suc (Suc p + length (str t @ ?gt # v)))"
    using o2 by (rule find_from_lt_other)
  also have "\<dots> = find_from (?lt # ?k) ((?sl # str t @ [?gt]) @ ys) (Suc (Suc p + length (str t @ ?gt # v)))"
    by (simp only: append_Cons append_assoc)
  also have "\<dots> = find_from (?lt # ?k) ys (Suc (Suc p + length (str t @ ?gt # v)) + length (?sl # str t @ [?gt]))"
    using t gl by (intro find_from_no_lt) auto
  also have "Suc (Suc p + length (str t @ ?gt # v)) + length (?sl # str t @ [?gt]) = p + length (elem t v)"
    by simp
  finally show ?thesis unfolding k .
qed

subsection \<open>The value of a field\<close>

lemma find_in_form:
  assumes "list_all field_ok kvs" and "distinct (map (\<lambda>(t, v). str t) kvs)" and "(u, w) \<in> set kvs"
  shows "\<exists>p xs. find_from (str (''<'' @ u @ ''>'')) (form kvs @ ys) q = Some (q + p)
     \<and> drop p (form kvs @ ys) = str (''<'' @ u @ ''>'') @ w @ asc CHR ''<'' # xs"
  using assms
proof (induction kvs arbitrary: q)
  case (Cons kv kvs)
  obtain t v where kv: "kv = (t, v)" by (cases kv)
  show ?case
  proof (cases "str t = str u")
    case True
    with Cons.prems kv have "v = w" by (force simp: list_all_iff)
    let ?xs = "asc CHR ''/'' # str t @ asc CHR ''>'' # form kvs @ ys"
    have f: "form (kv # kvs) @ ys = asc CHR ''<'' # (str u @ [asc CHR ''>'']) @ w @ asc CHR ''<'' # ?xs"
      using True \<open>v = w\<close> by (simp add: kv form_simps elem_def)
    have "find_from (asc CHR ''<'' # str u @ [asc CHR ''>'']) (form (kv # kvs) @ ys) q = Some q"
      unfolding f by (rule find_from_lt_same)
    then show ?thesis using f by (intro exI [of _ 0] exI [of _ ?xs]) simp
  next
    case False
    with Cons.prems kv have u: "(u, w) \<in> set kvs" by auto
    have ok: "field_ok (t, v)" "field_ok (u, w)" using Cons.prems kv u by (auto simp: list_all_iff)
    from Cons.IH [of "q + length (elem t v)"] Cons.prems u kv obtain p xs where
      p: "find_from (str (''<'' @ u @ ''>'')) (form kvs @ ys) (q + length (elem t v)) = Some (q + length (elem t v) + p)"
        "drop p (form kvs @ ys) = str (''<'' @ u @ ''>'') @ w @ asc CHR ''<'' # xs" by auto
    have f: "form (kv # kvs) @ ys = elem t v @ form kvs @ ys" by (simp add: kv form_simps)
    have "find_from (str (''<'' @ u @ ''>'')) (form (kv # kvs) @ ys) q = Some (q + (length (elem t v) + p))"
      unfolding f find_in_elem_other [OF ok False] using p(1) by (simp add: add.assoc)
    moreover have "drop (length (elem t v) + p) (form (kv # kvs) @ ys) = drop p (form kvs @ ys)"
      unfolding f by simp
    ultimately show ?thesis using p(2) by (intro exI [of _ "length (elem t v) + p"] exI [of _ xs]) simp
  qed
qed simp

lemma tag_value_form:
  assumes "form_ok kvs" and "(u, w) \<in> set kvs"
  shows "tag_value (''<'' @ u @ ''>'') (form kvs @ ys) (of_nat (length (form kvs))) = Some w"
proof -
  have len: "unat (of_nat (length (form kvs)) :: u16) = length (form kvs)"
    using assms(1) by (simp add: form_ok_def unat_of_nat)
  from find_in_form [of kvs u w "[]" 0] assms obtain p where
    "find_from (str (''<'' @ u @ ''>'')) (form kvs) 0 = Some p" by (auto simp: form_ok_def)
  moreover from find_in_form [of kvs u w "[]" 0] assms this obtain xs where
    d: "drop p (form kvs) = str (''<'' @ u @ ''>'') @ w @ asc CHR ''<'' # xs" by (auto simp: form_ok_def)
  moreover have "drop (p + length (''<'' @ u @ ''>'')) (form kvs @ ys) = w @ asc CHR ''<'' # xs @ ys"
  proof -
    have "p \<le> length (form kvs)" using d by (cases "p \<le> length (form kvs)") auto
    then have "drop p (form kvs @ ys) = str (''<'' @ u @ ''>'') @ w @ asc CHR ''<'' # xs @ ys" using d by simp
    then have "drop (length (''<'' @ u @ ''>'')) (drop p (form kvs @ ys)) = w @ asc CHR ''<'' # xs @ ys" by simp
    then show ?thesis by (simp only: drop_drop add.commute)
  qed
  moreover have "asc CHR ''<'' \<notin> set w"
    using assms plain_textD [of w] by (auto simp: form_ok_def list_all_iff field_ok_def)
  ultimately show ?thesis by (simp only: tag_value_def len take_append) (simp add: until_lt_app)
qed

lemma sets_form:
  assumes "form_ok kvs" and "(u, w) \<in> set kvs" and "w \<noteq> []"
  shows "sets (form kvs @ ys) (of_nat (length (form kvs))) (''<'' @ u @ ''>'') w"
proof -
  have "field_ok (u, w)" using assms by (auto simp: form_ok_def list_all_iff)
  moreover have "unat (of_nat (length (form kvs)) :: u16) = length (form kvs)" "length (form kvs) < 4096"
    using assms(1) by (simp_all add: form_ok_def unat_of_nat)
  ultimately show ?thesis
    using assms(3) tag_value_form [OF assms(1,2), of ys] by (auto simp: sets_def msg_ok_def field_ok_def)
qed

lemma parse_at_form:
  assumes "form_ok kvs" and "(u, w) \<in> set kvs" and "sys_ok s"
  shows "parse_at (''<'' @ u @ ''>'') (form kvs @ ys) (of_nat (length (form kvs))) s
       = Some (of_nat (length w), s\<lparr>tb := w @ 0 # drop (length w + 1) (tb s), iBuf := 0\<rparr>)"
proof (rule parse_at_found)
  show "tag_value (''<'' @ u @ ''>'') (form kvs @ ys) (of_nat (length (form kvs))) = Some w"
    by (rule tag_value_form [OF assms(1,2)])
  have "unat (of_nat (length (form kvs)) :: u16) = length (form kvs)" "length (form kvs) < 4096"
    using assms(1) by (simp_all add: form_ok_def unat_of_nat)
  then show "msg_ok (form kvs @ ys) (of_nat (length (form kvs)))" by (simp add: msg_ok_def)
  have "field_ok (u, w)" using assms by (auto simp: form_ok_def list_all_iff)
  then show "length (''<'' @ u @ ''>'') \<le> 30" and "length w < length (tb s)"
    using assms(3) by (simp_all add: field_ok_def sys_ok_def)
qed simp

lemma find_from_occurs:
  assumes "\<forall>p. p \<le> length t \<longrightarrow> \<not> occurs_at key t p"
  shows "find_from key t 0 = None"
proof (cases "find_from key t 0")
  case (Some q)
  with find_from_SomeD [OF Some] assms show ?thesis by (auto simp: occurs_at_def)
qed

lemma parse_at_missing:
  assumes "msg_ok msg len" and "tag \<noteq> ''''" and "length tag \<le> 30"
    and "\<forall>p. p \<le> unat len \<longrightarrow> \<not> occurs_at (str tag) (take (unat len) msg) p"
  shows "parse_at tag msg len s = Some (255, s\<lparr>iBuf := 0\<rparr>)"
proof -
  have "length (take (unat len) msg) = unat len" using assms(1) by (simp add: msg_ok_def)
  with find_from_occurs [of "take (unat len) msg" "str tag"] assms(4)
  have "find_from (str tag) (take (unat len) msg) 0 = None" by simp
  from XMLParser_missing [OF this assms(1-3)] show ?thesis by (simp add: parse_at_def parse_tb_def)
qed

subsection \<open>The network page\<close>

definition net_form :: "netcfg \<Rightarrow> (string \<times> bytes) list" where
  "net_form n =
     [(''IP'', ip_str (n_ip n)), (''SUB'', ip_str (n_sub n)), (''ROUT'', ip_str (n_rout n)), (''DNS'', ip_str (n_dns n)),
      (''HTTP'', dec (n_http n)), (''NAZIV'', n_naziv n), (''ALARMPORT'', dec (n_aport n)), (''ALARMIP'', ip_str (n_aip n))]"

definition net_ok :: "netcfg \<Rightarrow> bool" where
  "net_ok n \<longleftrightarrow> ip_ok (n_ip n) \<and> ip_ok (n_sub n) \<and> ip_ok (n_rout n) \<and> ip_ok (n_dns n) \<and> ip_ok (n_aip n)
     \<and> n_http n < 65536 \<and> n_aport n < 65536
     \<and> n_naziv n \<noteq> [] \<and> list_all string_char (n_naziv n) \<and> length (n_naziv n) < 32"

lemma string_char_plain: "list_all string_char v \<Longrightarrow> plain_text v"
  by (auto simp: plain_text_def list_all_iff string_char_def char_class_defs asc_def)

lemma dec_plain: "plain_text (dec n)" and dec_nonempty: "dec n \<noteq> []"
proof -
  show "plain_text (dec n)"
    using dec_isdigit [of n] digit_not_space by (auto simp: plain_text_def list_all_iff asc_def isdigit_def)
qed simp

lemma ip_str_field: "ip_ok x \<Longrightarrow> plain_text (ip_str x) \<and> ip_str x \<noteq> [] \<and> length (ip_str x) \<le> 15"
proof -
  assume x: "ip_ok x"
  obtain a b c d where e: "x = (a, b, c, d)" by (metis prod_cases4)
  have "plain_text (ip_text a b c d)"
    using dec_plain [of a] dec_plain [of b] dec_plain [of c] dec_plain [of d]
    by (auto simp: ip_text_def plain_text_def asc_def)
  then show ?thesis using x length_ip_text [of a b c d] by (simp add: e ip_str_def ip_ok_def ip_text_def)
qed

lemma net_form_ok:
  assumes "net_ok n"
  shows "form_ok (net_form n)"
proof -
  have ip: "plain_text (ip_str x)" "length (ip_str x) \<le> 15" if "ip_ok x" for x
    using ip_str_field [OF that] by simp_all
  have d: "length (dec k) \<le> 5" if "k < 65536" for k
    using length_dec_le [of k 5] that by simp
  note n = assms [unfolded net_ok_def]
  have "list_all field_ok (net_form n)"
    using n ip ip(2) [THEN le_less_trans, of _ 128] d [THEN le_less_trans, of _ 128] dec_plain string_char_plain
    by (simp add: net_form_def field_ok_def plain_text_def asc_def)
  moreover have "distinct (map (\<lambda>(t, v). str t) (net_form n))"
    by (simp add: net_form_def asc_def)
  moreover have "length (form (net_form n)) < 4096"
    using n ip(2) [of "n_ip n"] ip(2) [of "n_sub n"] ip(2) [of "n_rout n"] ip(2) [of "n_dns n"] ip(2) [of "n_aip n"]
      d [of "n_http n"] d [of "n_aport n"]
    by (simp add: net_form_def form_simps)
  ultimately show ?thesis by (simp add: form_ok_def)
qed

lemma net_request_form:
  assumes "net_ok n"
  shows "net_request (form (net_form n) @ ys) (of_nat (length (form (net_form n)))) n"
proof -
  note s = sets_form [OF net_form_ok [OF assms], where ys = ys]
  have ip: "ip_ok x \<Longrightarrow> ip_str x \<noteq> []" for x using ip_str_field by blast
  show ?thesis
    unfolding net_request_def
    using assms s [of "''IP''"] s [of "''SUB''"] s [of "''ROUT''"] s [of "''DNS''"] s [of "''HTTP''"] s [of "''NAZIV''"]
      s [of "''ALARMPORT''"] s [of "''ALARMIP''"] ip dec_nonempty
    by (simp add: net_form_def net_ok_def)
qed

subsection \<open>The message page\<close>

definition sms_form :: "nat \<times> nat \<times> nat \<times> nat \<Rightarrow> nat \<Rightarrow> (string \<Rightarrow> bytes) \<Rightarrow> (string \<times> bytes) list" where
  "sms_form ip port val =
     (''IP'', ip_str ip) # (''PORT'', dec port) # map (\<lambda>(tag, a, n). (tag, val tag)) sms_tags"

definition sms_ok :: "nat \<times> nat \<times> nat \<times> nat \<Rightarrow> nat \<Rightarrow> (string \<Rightarrow> bytes) \<Rightarrow> bool" where
  "sms_ok ip port val \<longleftrightarrow> ip_ok ip \<and> port < 65536
     \<and> list_all (\<lambda>(tag, a, n). val tag \<noteq> [] \<and> list_all string_char (val tag) \<and> length (val tag) < n) sms_tags"

lemma sms_form_ok:
  assumes "sms_ok ip port val"
  shows "form_ok (sms_form ip port val)"
proof -
  have ip: "plain_text (ip_str ip)" "length (ip_str ip) \<le> 15"
    using ip_str_field assms by (simp_all add: sms_ok_def)
  have d: "length (dec port) \<le> 5" using length_dec_le [of port 5] assms by (simp add: sms_ok_def)
  note v = assms [unfolded sms_ok_def sms_tags_def, simplified]
  have "list_all field_ok (sms_form ip port val)"
    using v ip d dec_plain string_char_plain
    by (simp add: sms_form_def sms_tags_def field_ok_def plain_text_def asc_def)
  moreover have "distinct (map (\<lambda>(t, v). str t) (sms_form ip port val))"
    by (simp add: sms_form_def sms_tags_def asc_def)
  moreover have "length (form (sms_form ip port val)) < 4096"
    using v ip d by (simp add: sms_form_def sms_tags_def form_simps)
  ultimately show ?thesis by (simp add: form_ok_def)
qed

lemma sms_request_form:
  assumes "sms_ok ip port val"
  shows "sms_request (form (sms_form ip port val) @ ys) (of_nat (length (form (sms_form ip port val)))) ip port val"
proof -
  note s = sets_form [OF sms_form_ok [OF assms], where ys = ys]
  let ?m = "form (sms_form ip port val) @ ys" and ?l = "of_nat (length (form (sms_form ip port val))) :: u16"
  have "sets ?m ?l (''<'' @ ''IP'' @ ''>'') (ip_str ip)" "sets ?m ?l (''<'' @ ''PORT'' @ ''>'') (dec port)"
    by (rule s; use ip_str_field dec_nonempty assms in \<open>simp add: sms_form_def sms_ok_def\<close>)+
  moreover have "sets ?m ?l (''<'' @ tag @ ''>'') (val tag)" if "(tag, a, n) \<in> set sms_tags" for tag a n
  proof (rule s)
    show "val tag \<noteq> []" using that assms by (auto simp: sms_ok_def list_all_iff)
    have "(tag, val tag) \<in> (\<lambda>(tag, a, n). (tag, val tag)) ` set sms_tags"
      by (rule rev_image_eqI [OF that]) simp
    then show "(tag, val tag) \<in> set (sms_form ip port val)" by (simp add: sms_form_def)
  qed
  ultimately show ?thesis
    using assms by (auto simp: sms_request_def sms_ok_def list_all_iff)
qed

end
