(* ===== verification/Requests.thy ===== *)
theory Requests
  imports Http Page_Frames Forms
begin

section \<open>Requests from the first byte to the last\<close>

text \<open>
  A body is collected in \<open>post_buffer\<close> whatever pieces it arrives in, as long as it fits, and
  then given to the handler the URI names. \<open>post_well\<close> puts the handlers together: no request
  that returns breaks the agreement of theory \<open>Sync\<close>, and \<open>device\<close> is the closure of requests
  and restarts.
\<close>

subsection \<open>Collecting the body\<close>

lemma receive_all_concat:
  assumes "length (post_buffer h) = 4096" and "post_buf_write_pos h \<le> 4096"
  shows "receive_all ds h
       = (if ds = [] then Some h
          else if post_buf_write_pos h + length (concat ds) \<le> 4096
          then Some (h\<lparr>post_buffer := take (post_buf_write_pos h) (post_buffer h) @ concat ds
                        @ drop (post_buf_write_pos h + length (concat ds)) (post_buffer h),
                      post_buf_write_pos := post_buf_write_pos h + length (concat ds)\<rparr>)
          else None)"
  using assms
proof (induction ds arbitrary: h)
  case (Cons d ds)
  let ?p = "post_buf_write_pos h" and ?b = "post_buffer h"
  show ?case
  proof (cases "?p + length d \<le> 4096")
    case False
    with Cons.prems show ?thesis by (auto simp: httpd_post_receive_data_def poke_def)
  next
    case True
    let ?h = "h\<lparr>post_buffer := take ?p ?b @ d @ drop (?p + length d) ?b, post_buf_write_pos := ?p + length d\<rparr>"
    have r: "httpd_post_receive_data d h = Some ?h"
      using True Cons.prems by (simp add: httpd_post_receive_data_def poke_def)
    have "receive_all ds ?h = (if ds = [] then Some ?h
        else if post_buf_write_pos ?h + length (concat ds) \<le> 4096
        then Some (?h\<lparr>post_buffer := take (post_buf_write_pos ?h) (post_buffer ?h) @ concat ds
                      @ drop (post_buf_write_pos ?h + length (concat ds)) (post_buffer ?h),
                    post_buf_write_pos := post_buf_write_pos ?h + length (concat ds)\<rparr>)
        else None)"
      using True Cons.prems by (intro Cons.IH) simp_all
    then show ?thesis
      using True Cons.prems r by (auto simp: ac_simps min_def)
  qed
qed simp

lemma receive_all_one:
  assumes "length (post_buffer h) = 4096" and "post_buf_write_pos h \<le> 4096" and "ds \<noteq> []"
  shows "receive_all ds h = receive_all [concat ds] h"
  using assms receive_all_concat [of h ds] receive_all_concat [of h "[concat ds]"] by simp

definition begun :: "bytes \<Rightarrow> http \<Rightarrow> http" where
  "begun uri h = h\<lparr>post_buf_write_pos := 0, post_funkcija := uri @ 0 # drop (length uri + 1) (post_funkcija h)\<rparr>"

lemma httpd_post_begin_eq:
  "http_ok h \<Longrightarrow> httpd_post_begin uri h = (if length uri < 64 then Some (begun uri h) else None)"
  by (auto simp: httpd_post_begin_def http_ok_def begun_def poke_def)

definition collected :: "bytes \<Rightarrow> bytes \<Rightarrow> http \<Rightarrow> http" where
  "collected uri body h = (begun uri h)\<lparr>post_buffer := body @ 0 # drop (length body + 1) (post_buffer h),
     post_buf_write_pos := length body\<rparr>"

lemma post_dispatch:
  assumes "http_ok h" and "length uri < 64" and "length (concat ds) < 4096" and "ds \<noteq> []"
  shows "post E uri ds h = httpd_post_finished E (collected uri (concat ds) h)"
proof -
  let ?h = "begun uri h" and ?body = "concat ds"
  let ?h1 = "?h\<lparr>post_buffer := ?body @ drop (length ?body) (post_buffer h), post_buf_write_pos := length ?body\<rparr>"
  have b: "length (post_buffer ?h) = 4096" "post_buf_write_pos ?h = 0" "post_buffer ?h = post_buffer h"
    using assms(1) by (simp_all add: begun_def http_ok_def)
  have r: "receive_all ds ?h = Some ?h1"
    using receive_all_concat [of ?h ds] b assms(3,4) by simp
  have d: "drop (length ?body) (post_buffer h) = post_buffer h ! length ?body # drop (length ?body + 1) (post_buffer h)"
    using assms(1,3) Cons_nth_drop_Suc [of "length ?body" "post_buffer h"] by (simp add: http_ok_def)
  have p: "poke (post_buf_write_pos ?h1) [0] (post_buffer ?h1) = Some (?body @ 0 # drop (length ?body + 1) (post_buffer h))"
    "poke (post_buf_write_pos (collected uri ?body h)) [0] (post_buffer (collected uri ?body h))
      = Some (?body @ 0 # drop (length ?body + 1) (post_buffer h))"
    using d assms(1,3) by (simp_all add: poke_def collected_def http_ok_def)
  have "httpd_post_finished E ?h1 = httpd_post_finished E (collected uri ?body h)"
    unfolding httpd_post_finished_def p Option.bind.bind_lunit
    by (simp only: collected_def sys.simps http.simps cong: if_cong) simp
  then show ?thesis
    using assms(1,2) r by (simp add: post_def httpd_post_begin_eq)
qed

text \<open>How the body is cut does not matter, and a body of 4096 bytes or more is written past the buffer.\<close>

lemma post_pieces:
  assumes "http_ok h" and "length uri < 64" and "ds \<noteq> []"
  shows "post E uri ds h =
           (if length (concat ds) < 4096 then httpd_post_finished E (collected uri (concat ds) h) else None)"
proof (cases "length (concat ds) < 4096")
  case True
  with post_dispatch [OF assms(1,2) _ assms(3)] show ?thesis by simp
next
  case False
  let ?h = "begun uri h"
  have b: "length (post_buffer ?h) = 4096" "post_buf_write_pos ?h = 0" using assms(1) by (simp_all add: begun_def http_ok_def)
  have "httpd_post_finished E h' = None" if "post_buf_write_pos h' = 4096" "length (post_buffer h') = 4096" for h'
    using that by (simp add: httpd_post_finished_def poke_def)
  then show ?thesis using False b assms receive_all_concat [of ?h ds]
    by (auto simp: post_def httpd_post_begin_eq)
qed

subsection \<open>Every request keeps the settings and their copy together\<close>

definition http_inv :: "http \<Rightarrow> bool" where
  "http_inv h \<longleftrightarrow> http_ok h \<and> synced (dev h)"

lemma http_inv_iff: "http_inv h \<longleftrightarrow> http_ok h \<and> well (dev h)"
  by (auto simp: http_inv_def http_ok_def well_def)

lemma on_dev_inv: "keeps f \<Longrightarrow> on_dev f h = Some (Running h') \<Longrightarrow> http_inv h \<Longrightarrow> http_inv h'"
  by (auto simp: on_dev_def bind_eq_Some_conv http_inv_iff http_ok_def well_def dest: keepsD [unfolded well_def])

lemma httpd_post_finished_inv:
  assumes "http_inv h" and "httpd_post_finished E h = Some (Running h')"
  shows "http_inv h'"
proof -
  obtain b where b: "poke (post_buf_write_pos h) [0] (post_buffer h) = Some b"
    using assms(2) by (auto simp: httpd_post_finished_def bind_eq_Some_conv)
  let ?h = "h\<lparr>post_buffer := b\<rparr>"
  have "http_inv ?h" using assms(1) length_poke [OF b] by (simp add: http_inv_def http_ok_def)
  then show ?thesis
    using assms(2) unfolding httpd_post_finished_def b Option.bind.bind_lunit Let_def
    by (auto split: if_splits
        elim!: on_dev_inv [rotated]
        intro: keeps_SaveNet keeps_SaveTime keeps_SaveSNTP keeps_TestSNTP keeps_DelFile0 keeps_Sensor keeps_Pass
          keeps_SaveSms keeps_TestSms keeps_SaveWApp keeps_TestWApp keeps_SaveSample keeps_SaveInput keeps_SaveMQTT)
qed

lemma httpd_post_receive_data_inv: "httpd_post_receive_data d h = Some h' \<Longrightarrow> http_inv h \<Longrightarrow> http_inv h'"
  by (auto simp: httpd_post_receive_data_def bind_eq_Some_conv http_inv_def http_ok_def length_poke)

lemma receive_all_inv: "receive_all ds h = Some h' \<Longrightarrow> http_inv h \<Longrightarrow> http_inv h'"
  by (induction ds arbitrary: h) (auto simp: bind_eq_Some_conv dest: httpd_post_receive_data_inv)

lemma post_inv:
  assumes "http_inv h" and "post E uri ds h = Some (Running h')"
  shows "http_inv h'"
proof -
  from assms(2) obtain h1 h2 where 1: "httpd_post_begin uri h = Some h1" and 2: "receive_all ds h1 = Some h2"
    and 3: "httpd_post_finished E h2 = Some (Running h')"
    by (auto simp: post_def bind_eq_Some_conv)
  have "http_inv h1"
    using 1 assms(1) by (auto simp: httpd_post_begin_def Let_def bind_eq_Some_conv http_inv_def http_ok_def length_poke)
  then have "http_inv h2" using 2 by (blast intro: receive_all_inv)
  then show ?thesis using 3 by (rule httpd_post_finished_inv)
qed

lemma keeps2_choice:
  "(if c then Some a else r) = Some p \<Longrightarrow> keeps2 a \<Longrightarrow> (r = Some p \<Longrightarrow> keeps2 p) \<Longrightarrow> keeps2 p"
  by (cases c) auto

lemmas keeps2_pages = keeps2_XMLDisk keeps2_XMLMreza keeps2_XMLTime keeps2_XMLSNTP keeps2_XMLLogfile
  keeps2_XMLSensor keeps2_XMLHome keeps2_XMLCode keeps2_XMLOnline keeps2_XMLSms keeps2_XMLCredit
  keeps2_XMLStartCredit keeps2_XMLSmsstatus keeps2_XMLSample keeps2_XMLHaccp keeps2_XMLOk keeps2_XMLUlazi
  keeps2_XMLInput keeps2_XMLWapp keeps2_XMLMQTT keeps2_XMLOnlineInput

lemma xml_page_keeps: "xml_page E name = Some p \<Longrightarrow> keeps2 p"
  unfolding xml_page_def by (erule keeps2_choice, (rule keeps2_pages; simp)?)+ simp

lemma fs_open_inv:
  assumes "http_inv h" and "fs_open E name h = Some (r, h')"
  shows "http_inv h'"
proof -
  from assms(2) obtain n where n: "gate (e_stk80 E) h name = Some n"
    by (auto simp: fs_open_def bind_eq_Some_conv)
  show ?thesis
  proof (cases "xml_page E n")
    case None
    with assms n show ?thesis by (simp add: fs_open_def)
  next
    case (Some p)
    with assms(2) n obtain v s where p: "p (dev h) = Some (v, s)" and h': "h' = h\<lparr>dev := s\<rparr>"
      by (auto simp: fs_open_def bind_eq_Some_conv)
    have "well s" using xml_page_keeps [OF Some] p assms(1) by (auto simp: http_inv_iff dest: keeps2D)
    then show ?thesis using assms(1) h' by (simp add: http_inv_def http_ok_def well_def)
  qed
qed

lemma http_find_file_inv:
  assumes "http_inv h" and "http_find_file E uri h = Some (r, h')"
  shows "http_inv h'"
proof (cases "uri = str ''/''")
  case True
  with assms show ?thesis unfolding http_find_file_def by (auto intro: fs_open_inv)
next
  case False
  with assms(2) obtain b where b: "poke 0 (uri @ [0]) (authen_uri h) = Some b"
    and o: "fs_open E (takeWhile (\<lambda>c. c \<noteq> asc CHR ''?'') uri @ [0]) (h\<lparr>authen_uri := b\<rparr>) = Some (r, h')"
    unfolding http_find_file_def by (auto simp: bind_eq_Some_conv)
  have "http_inv (h\<lparr>authen_uri := b\<rparr>)" using assms(1) length_poke [OF b] by (simp add: http_inv_def http_ok_def)
  then show ?thesis using o by (rule fs_open_inv)
qed

subsection \<open>Starting again\<close>

lemma set_user_well: "set_user v s = Some s' \<Longrightarrow> well s \<Longrightarrow> well s'"
  and set_pass_well: "set_pass v s = Some s' \<Longrightarrow> well s \<Longrightarrow> well s'"
proof -
  have u: "well (s\<lparr>user_name := b\<rparr>)" "well (s\<lparr>pass_word := b\<rparr>)" if "well s" "length b = 25" for b
    using that by (simp_all add: well_def sys_ok_def synced_def)
  have l: "length (user_name s) = 25" "length (pass_word s) = 25" if "well s"
    using that by (simp_all add: well_def sys_ok_def)
  show "set_user v s = Some s' \<Longrightarrow> well s \<Longrightarrow> well s'"
    using u(1) l(1) by (auto simp: set_user_def bind_eq_Some_conv length_poke)
  show "set_pass v s = Some s' \<Longrightarrow> well s \<Longrightarrow> well s'"
    using u(2) l(2) by (auto simp: set_pass_def bind_eq_Some_conv length_poke)
qed

lemma well_load_input: "well s \<Longrightarrow> well (load_input i a t d s)"
  by (simp add: load_input_def well_upd_input)

lemma load_params_well:
  assumes "sys_ok s" and "load_params jumper s = Some s'"
  shows "well s'"
proof -
  obtain s1 where 1: "load_sensors_from [0..<8] s = Some s1" "well s1"
    using load_sensors_synced [OF assms(1)] by blast
  from assms(2) 1(1) obtain s2 where
    2: "(if \<not> jumper then set_user (str ''s'' @ [0]) s1 \<bind> set_pass (str ''s'' @ [0])
         else set_pass (eeRd EE_PASS 16 (ee s1)) s1 \<bind> (\<lambda>s. set_user (eeRd EE_USERNAME 16 (ee s)) s)) = Some s2"
    and 3: "s' = load_input 2 EE_INPUT_ALARM3 EE_INPUT_TIP3 EE_INPUT_DELAY3
      (load_input 1 EE_INPUT_ALARM2 EE_INPUT_TIP2 EE_INPUT_DELAY2
        (load_input 0 EE_INPUT_ALARM1 EE_INPUT_TIP1 EE_INPUT_DELAY1
          (s2\<lparr>scansetup := eeRd16 EE_SCAN_TIME (ee s2),
             sntp := (sntp s2)\<lparr>dston := eeRd8 EE_DST_STATE (ee s2), sntpon := eeRd8 EE_SNTP_STATE (ee s2)\<rparr>\<rparr>)))"
    by (auto simp: load_params_def Let_def bind_eq_Some_conv)
  have "well s2" using 2 1(2) by (auto simp: bind_eq_Some_conv split: if_splits dest: set_user_well set_pass_well)
  then show ?thesis unfolding 3 by (intro well_load_input) (simp add: well_other_fields)
qed

text \<open>
  The device over time: requests, and restarts of an initialised device, which begin with
  arbitrary contents of the RAM and the two memories as they were.
\<close>

inductive device_step :: "env \<Rightarrow> http \<Rightarrow> http \<Rightarrow> bool" for E where
  posted: "post E uri ds h = Some (Running h') \<Longrightarrow> device_step E h h'"
| got: "http_find_file E uri h = Some (r, h') \<Longrightarrow> device_step E h h'"
| restarted: "\<lbrakk>http_ok h0; ee (dev h0) = ee (dev h); nv (dev h0) = nv (dev h); eeRd16 EE_INIT (ee (dev h)) = 0x55AA;
     InitParam jumper (dev h0) = Some s\<rbrakk> \<Longrightarrow> device_step E h (h0\<lparr>dev := s\<rparr>)"

inductive reachable :: "env \<Rightarrow> http \<Rightarrow> http \<Rightarrow> bool" for E h where
  start: "reachable E h h"
| step: "reachable E h h1 \<Longrightarrow> device_step E h1 h2 \<Longrightarrow> reachable E h h2"

lemma device_step_inv: "device_step E h h' \<Longrightarrow> http_inv h \<Longrightarrow> http_inv h'"
proof (induction rule: device_step.induct)
  case (restarted h0 h jumper s)
  then have "load_params jumper (dev h0) = Some s" by (simp add: InitParam_def)
  moreover have "sys_ok (dev h0)" using restarted by (simp add: http_ok_def)
  ultimately have "well s" by (rule load_params_well [rotated])
  with restarted show ?case by (simp add: http_inv_iff http_ok_def well_def)
qed (blast intro: post_inv http_find_file_inv)+

lemma reachable_inv: "reachable E h h' \<Longrightarrow> http_inv h \<Longrightarrow> http_inv h'"
  by (induction rule: reachable.induct) (auto intro: device_step_inv)

text \<open>The settings of a sensor, and what a restart does to them.\<close>

definition settings :: "sensor \<Rightarrow> bytes \<times> byte \<times> byte \<times> byte \<times> byte \<times> byte \<times> u16 \<times> u32" where
  "settings x = (CODE x, LOWLIMIT x, HIGHLIMIT x, HIS x, ENBLE x, KANAL x, DELAY x, kalibracija x)"

lemma agree_settings: "agree i x m \<Longrightarrow> agree i y m \<Longrightarrow> settings x = settings y"
  by (simp add: agree_def settings_def Let_def)

lemma load_params_ee: "sys_ok s \<Longrightarrow> load_params jumper s = Some s' \<Longrightarrow> ee s' = ee s"
  using load_sensors_synced [of s]
  by (auto simp: load_params_def Let_def bind_eq_Some_conv set_user_def set_pass_def load_input_def upd_input_def
      split: if_splits)

lemma load_params_total:
  assumes "sys_ok s"
  shows "\<exists>s'. load_params jumper s = Some s'"
proof -
  obtain s1 where 1: "load_sensors_from [0..<8] s = Some s1" "well s1"
    using load_sensors_synced [OF assms] by blast
  have l: "length (user_name s1) = 25" "length (pass_word s1) = 25"
    using 1(2) by (simp_all add: well_def sys_ok_def)
  then show ?thesis using 1(1) by (simp add: load_params_def set_user_def set_pass_def Let_def)
qed

lemma restart_settings:
  assumes "http_inv h" and "http_ok h0" and "ee (dev h0) = ee (dev h)" and "eeRd16 EE_INIT (ee (dev h)) = 0x55AA"
  shows "\<exists>s. InitParam jumper (dev h0) = Some s \<and> well s \<and> map settings (senzor s) = map settings (senzor (dev h))"
proof -
  have k: "sys_ok (dev h0)" using assms(2) by (simp add: http_ok_def)
  from load_params_total [OF k] obtain s where l: "load_params jumper (dev h0) = Some s" by blast
  then have "InitParam jumper (dev h0) = Some s" using assms(3,4) by (simp add: InitParam_def)
  moreover have w: "well s" using k l by (rule load_params_well)
  have e: "ee s = ee (dev h)" using load_params_ee [OF k l] assms(3) by simp
  have "map settings (senzor s) = map settings (senzor (dev h))"
  proof (rule nth_equalityI)
    show "length (map settings (senzor s)) = length (map settings (senzor (dev h)))"
      using w assms(1) by (simp add: well_def sys_ok_def http_inv_def http_ok_def)
  next
    fix i assume "i < length (map settings (senzor s))"
    then have i: "i < length (senzor s)" "i < 8" "i < length (senzor (dev h))"
      using w assms(1) by (simp_all add: well_def sys_ok_def http_inv_def http_ok_def)
    then have "agree i (senzor s ! i) (ee (dev h))" "agree i (senzor (dev h) ! i) (ee (dev h))"
      using w e assms(1) by (auto simp: well_def synced_def http_inv_def)
    then show "map settings (senzor s) ! i = map settings (senzor (dev h)) ! i"
      using i agree_settings by (metis nth_map)
  qed
  ultimately show ?thesis using w by blast
qed

end
