(* ===== verification/Serving.thy ===== *)
theory Serving
  imports Requests
begin

section \<open>Requests end to end\<close>

text \<open>
  The request \<open>/savenet.sva\<close> and the page \<open>/mreza.xml\<close>, the request \<open>/savesms.sva\<close> and the page
  \<open>/sms.xml\<close>, through the server: the page shows what the form held, however the body was cut into
  pieces. An HTML file is served exactly to who knows the user name and the password.
\<close>

subsection \<open>Dispatching a request\<close>

lemma collected_simps:
  "dev (collected uri body h) = dev h"
  "post_buf_write_pos (collected uri body h) = length body"
  "post_buffer (collected uri body h) = body @ 0 # drop (length body + 1) (post_buffer h)"
  "post_funkcija (collected uri body h) = uri @ 0 # drop (length uri + 1) (post_funkcija h)"
  by (simp_all add: collected_def begun_def)

lemma collected_ok: "http_ok h \<Longrightarrow> length uri < 64 \<Longrightarrow> length body < 4096 \<Longrightarrow> http_ok (collected uri body h)"
  by (simp add: http_ok_def collected_def begun_def)

lemma collected_again: "length body < 4096 \<Longrightarrow> http_ok h \<Longrightarrow>
    poke (length body) [0] (body @ 0 # drop (length body + 1) (post_buffer h))
      = Some (body @ 0 # drop (length body + 1) (post_buffer h))"
  by (simp add: poke_def http_ok_def)

lemma uri_is_collected: "0 \<notin> set uri \<Longrightarrow> uri_is t (uri @ 0 # r) \<longleftrightarrow> take (length t) uri = str t"
  by (simp add: uri_is_def cut_id)

lemma upd_same_buffer: "h\<lparr>post_buffer := post_buffer h\<rparr> = h"
  by simp

lemma collected_poked:
  assumes "http_ok h" and "length body < 4096"
  shows "poke (length body) [0] (post_buffer (collected uri body h)) = Some (post_buffer (collected uri body h))"
  using collected_again [OF assms(2,1)] by (simp add: collected_simps)

lemma uri_is_post:
  "0 \<notin> set (str u) \<Longrightarrow> uri_is t (post_funkcija (collected (str u) body h)) \<longleftrightarrow> take (length t) u = t"
  by (simp add: collected_simps uri_is_collected take_str str_eq_iff)

lemmas finished_simps = httpd_post_finished_def collected_simps(2) uri_is_post Option.bind.bind_lunit Let_def
  upd_same_buffer

lemma finished_savenet:
  assumes "http_ok h" and "length body < 4096" and "c = collected (str ''/savenet.sva'') body h"
  shows "httpd_post_finished E c = on_dev (SaveNet (post_buffer c) (of_nat (length body))) c"
proof -
  have z: "0 \<notin> set (str ''/savenet.sva'')" by (simp add: asc_def)
  show ?thesis unfolding assms(3) finished_simps collected_poked [OF assms(1,2)] uri_is_post [OF z]
    by (simp del: str_Cons)
qed

lemma finished_savesms:
  assumes "http_ok h" and "length body < 4096" and "c = collected (str ''/savesms.sva'') body h"
  shows "httpd_post_finished E c = on_dev (SaveSms (post_buffer c) (of_nat (length body))) c"
proof -
  have z: "0 \<notin> set (str ''/savesms.sva'')" by (simp add: asc_def)
  show ?thesis unfolding assms(3) finished_simps collected_poked [OF assms(1,2)] uri_is_post [OF z]
    by (simp del: str_Cons)
qed

subsection \<open>Serving an XML page\<close>

definition served_as :: "bytes \<Rightarrow> sys \<Rightarrow> http \<Rightarrow> http" where
  "served_as name s h = h\<lparr>authen_uri := name @ 0 # drop (length name + 1) (authen_uri h), dev := s\<rparr>"

lemma http_find_xml:
  assumes "http_ok h" and "length name < 100" and "name \<noteq> str ''/''" and "0 \<notin> set name"
    and "asc CHR ''?'' \<notin> set name" and "extension (name @ [0]) = Some (str ''xml'')"
    and "xml_page E name = Some p" and "p (dev h) = Some (len, s)"
  shows "http_find_file E name h = Some (Document len, served_as name s h)"
proof -
  have t: "takeWhile (\<lambda>c. c \<noteq> asc CHR ''?'') name = name" using assms(5) by (auto simp: takeWhile_eq_all_conv)
  have b: "poke 0 (name @ [0]) (authen_uri h) = Some (name @ 0 # drop (length name + 1) (authen_uri h))"
    using assms(1,2) by (simp add: http_ok_def)
  have g: "gate stk h' (name @ [0]) = Some name" for stk h'
    using assms(6) cut_id(2) [OF assms(4), of "[]"] by (auto simp: gate_def str_eq_iff simp del: str_Cons)
  show ?thesis
    unfolding http_find_file_def t b fs_open_def Option.bind.bind_lunit g assms(7) option.case served_as_def
    using assms(3,8) by (simp add: assms(7))
qed

lemma http_find_mreza:
  assumes "http_ok h" and "XMLMreza (dev h) = Some (len, s)" and "name = str ''/mreza.xml''"
  shows "http_find_file E name h = Some (Document len, served_as name s h)"
  by (rule http_find_xml [where p = XMLMreza]) (use assms in \<open>simp_all add: xml_page_def asc_def\<close>)

lemma http_find_sms:
  assumes "http_ok h" and "XMLSms (dev h) = Some (len, s)" and "name = str ''/sms.xml''"
  shows "http_find_file E name h = Some (Document len, served_as name s h)"
  by (rule http_find_xml [where p = XMLSms]) (use assms in \<open>simp_all add: xml_page_def asc_def\<close>)

subsection \<open>A form, and the page after it\<close>

lemma post_collected:
  assumes "http_ok h" and "length uri < 64" and "concat ds = body" and "length body < 4096" and "ds \<noteq> []"
  shows "post E uri ds h = httpd_post_finished E (collected uri body h)"
  using post_dispatch [OF assms(1,2) _ assms(5)] assms(3,4) by simp

lemma savenet_then_mreza:
  assumes "http_ok h" and "net_ok n" and "ds \<noteq> []" and "concat ds = form (net_form n)"
  shows "\<exists>h' h''. post E (str ''/savenet.sva'') ds h = Some (Running h') \<and> http_ok h' \<and> mac_addr (dev h') = mac_addr (dev h)
           \<and> ees.after (net_fields n) (ee (dev h)) (ee (dev h'))
           \<and> http_find_file E (str ''/mreza.xml'') h' = Some (Document (of_nat (length (XMLBuf (dev h'')))), h'')
           \<and> XMLBuf (dev h'') = netcfg_page (mac_addr (dev h)) n"
proof -
  let ?body = "form (net_form n)"
  define c where "c = collected (str ''/savenet.sva'') ?body h"
  have l: "length ?body < 4096" using net_form_ok [OF assms(2)] by (simp add: form_ok_def)
  have ok: "http_ok c" and b: "post_buffer c = ?body @ 0 # drop (length ?body + 1) (post_buffer h)" and d: "dev c = dev h"
    using collected_ok [OF assms(1)] l by (simp_all add: c_def collected_simps)
  have p: "post E (str ''/savenet.sva'') ds h = on_dev (SaveNet (post_buffer c) (of_nat (length ?body))) c"
    unfolding c_def using post_collected [OF assms(1) _ assms(4) l assms(3)] finished_savenet [OF assms(1) l refl] by simp
  have "sys_ok (dev h)" using assms(1) by (simp add: http_ok_def)
  from SaveNet_shown [OF net_request_form [OF assms(2)] this, of "0 # drop (length ?body + 1) (post_buffer h)"]
  obtain s' s'' where s: "SaveNet (post_buffer c) (of_nat (length ?body)) (dev c) = Some s'"
    "sys_ok s'" "mac_addr s' = mac_addr (dev h)" "ees.after (net_fields n) (ee (dev h)) (ee s')"
    "XMLMreza s' = Some (of_nat (length (XMLBuf s'')), s'')" "XMLBuf s'' = netcfg_page (mac_addr (dev h)) n"
    using scratch_simps by (auto simp: b d)
  have "http_ok (c\<lparr>dev := s'\<rparr>)" using ok s(2) by (simp add: http_ok_def)
  with http_find_mreza [of "c\<lparr>dev := s'\<rparr>" _ s'' "str ''/mreza.xml''" E] s show ?thesis
    by (intro exI [of _ "c\<lparr>dev := s'\<rparr>"] exI [of _ "served_as (str ''/mreza.xml'') s'' (c\<lparr>dev := s'\<rparr>)"])
       (simp add: p on_dev_def served_as_def del: str_Cons)
qed

lemma savesms_then_sms:
  assumes "http_ok h" and "sms_ok ip port val" and "ds \<noteq> []" and "concat ds = form (sms_form ip port val)"
  shows "\<exists>h' h''. post E (str ''/savesms.sva'') ds h = Some (Running h') \<and> http_ok h'
           \<and> ees.after (sms_fields ip port val) (ee (dev h)) (ee (dev h'))
           \<and> http_find_file E (str ''/sms.xml'') h' = Some (Document (of_nat (length (XMLBuf (dev h'')))), h'')
           \<and> XMLBuf (dev h'') = xml_header @ str ''<SMS>'' @ elem ''IP'' (ip_str ip) @ elem ''PORT'' (dec port)
               @ concat (map (\<lambda>(tag, a, n). elem tag (val tag)) sms_tags) @ str ''</SMS>''"
proof -
  let ?body = "form (sms_form ip port val)"
  define c where "c = collected (str ''/savesms.sva'') ?body h"
  have l: "length ?body < 4096" using sms_form_ok [OF assms(2)] by (simp add: form_ok_def)
  have ok: "http_ok c" and b: "post_buffer c = ?body @ 0 # drop (length ?body + 1) (post_buffer h)" and d: "dev c = dev h"
    using collected_ok [OF assms(1)] l by (simp_all add: c_def collected_simps)
  have p: "post E (str ''/savesms.sva'') ds h = on_dev (SaveSms (post_buffer c) (of_nat (length ?body))) c"
    unfolding c_def using post_collected [OF assms(1) _ assms(4) l assms(3)] finished_savesms [OF assms(1) l refl] by simp
  have "sys_ok (dev h)" using assms(1) by (simp add: http_ok_def)
  from SaveSms_shown [OF sms_request_form [OF assms(2)] this, of "0 # drop (length ?body + 1) (post_buffer h)"]
  obtain s' s'' where s: "SaveSms (post_buffer c) (of_nat (length ?body)) (dev c) = Some s'"
    "sys_ok s'" "ees.after (sms_fields ip port val) (ee (dev h)) (ee s')"
    "XMLSms s' = Some (of_nat (length (XMLBuf s'')), s'')"
    "XMLBuf s'' = xml_header @ str ''<SMS>'' @ elem ''IP'' (ip_str ip) @ elem ''PORT'' (dec port)
               @ concat (map (\<lambda>(tag, a, n). elem tag (val tag)) sms_tags) @ str ''</SMS>''"
    unfolding b d by blast
  have "http_ok (c\<lparr>dev := s'\<rparr>)" using ok s(2) by (simp add: http_ok_def)
  with http_find_sms [of "c\<lparr>dev := s'\<rparr>" _ s'' "str ''/sms.xml''" E] s show ?thesis
    by (intro exI [of _ "c\<lparr>dev := s'\<rparr>"] exI [of _ "served_as (str ''/sms.xml'') s'' (c\<lparr>dev := s'\<rparr>)"])
       (simp add: p on_dev_def served_as_def del: str_Cons)
qed

subsection \<open>Serving an HTML file\<close>

lemma extension_path:
  "asc CHR ''.'' \<notin> set pre \<Longrightarrow> extension (pre @ asc CHR ''.'' # e) = ext_copy [] e"
  by (induction pre) auto

lemma extension_html: "asc CHR ''.'' \<notin> set pre \<Longrightarrow> extension (pre @ str ''.html'' @ [0]) = Some (str ''html'')"
  using extension_path [of pre "str ''html'' @ [0]"] by (simp add: asc_def)

lemma xml_page_not_html: "xml_page E (pre @ str ''.html'') = None"
proof -
  define n where "n = pre @ str ''.html''"
  have r: "take 3 (rev n) = str ''lmt''" by (simp add: n_def)
  have ne: "(n = str lit) = False" if "take 3 (rev lit) \<noteq> ''lmt''" for lit
  proof -
    have "take 3 (rev (str lit)) = str (take 3 (rev lit))" by (simp only: str_def rev_map take_map)
    with r that show ?thesis by (metis str_eq_iff)
  qed
  have "xml_page E n = None"
    unfolding xml_page_def by (simp add: ne del: str_Cons str_append)
  then show ?thesis by (simp only: n_def)
qed

text \<open>The URI of a page with its credentials, as the pages of the device build it.\<close>

definition auth_uri :: "bytes \<Rightarrow> bytes \<Rightarrow> bytes \<Rightarrow> bytes \<Rightarrow> bytes" where
  "auth_uri pre q u pw = pre @ str ''.html'' @ str ''?'' @ q @ str ''&'' @ Base64Encode (u @ str '':'' @ pw) 108 @ str ''&''"

definition path_ok :: "bytes \<Rightarrow> bool" where
  "path_ok pre \<longleftrightarrow> 0 \<notin> set pre \<and> asc CHR ''.'' \<notin> set pre \<and> asc CHR ''?'' \<notin> set pre \<and> asc CHR ''&'' \<notin> set pre
     \<and> pre \<noteq> str ''/login''"

lemma http_find_html:
  assumes "http_ok h" and "path_ok pre" and "asc CHR ''&'' \<notin> set q" and "length (auth_uri pre q u pw) < 100"
    and "asc CHR '':'' \<notin> set u" "0 \<notin> set u" "length u < 40" "0 \<notin> set pw" "length pw < 39"
    and "length (e_stk80 E) = 80"
  shows "\<exists>h'. http_find_file E (auth_uri pre q u pw) h
       = Some (Other_file (if u = cut (user_name (dev h)) \<and> pw = cut (pass_word (dev h))
                           then pre @ str ''.html'' else str ''/login.html''), h')
       \<and> dev h' = dev h"
proof -
  let ?uri = "auth_uri pre q u pw" and ?p = "pre @ str ''.html''"
  let ?h = "h\<lparr>authen_uri := ?uri @ 0 # drop (length ?uri + 1) (authen_uri h)\<rparr>"
  let ?ok = "u = cut (user_name (dev h)) \<and> pw = cut (pass_word (dev h))"
  have path: "0 \<notin> set pre" "asc CHR ''.'' \<notin> set pre" "asc CHR ''?'' \<notin> set pre" "asc CHR ''&'' \<notin> set pre"
    "pre \<noteq> str ''/login''" using assms(2) by (simp_all add: path_ok_def)
  have z: "0 \<notin> set ?p" and amp: "asc CHR ''&'' \<notin> set ?p" and qm: "asc CHR ''?'' \<notin> set ?p"
    using path by (simp_all add: asc_def)
  have u: "?uri \<noteq> str ''/''" by (simp add: auth_uri_def)
  have b: "poke 0 (?uri @ [0]) (authen_uri h) = Some (?uri @ 0 # drop (length ?uri + 1) (authen_uri h))"
    using assms(1,4) by (simp add: http_ok_def)
  have t: "takeWhile (\<lambda>c. c \<noteq> asc CHR ''?'') ?uri = ?p"
    unfolding auth_uri_def append_assoc [symmetric, of pre] using qm by (subst takeWhile_append2) auto
  have c: "cut (?p @ [0]) = ?p" using cut_id(2) [OF z, of "[]"] by simp
  have nl: "?p \<noteq> str ''/login.html''"
  proof
    assume "?p = str ''/login.html''"
    then have "take (length ?p - 5) ?p = take (length ?p - 5) (str ''/login.html'')" and "length ?p = length ''/login.html''"
      by (simp_all only: length_str)
    then have "pre = str ''/login''" by (simp add: take_str)
    with path(5) show False by simp
  qed
  have "checkAuth (?uri @ 0 # drop (length ?uri + 1) (authen_uri h)) (cut (user_name (dev h))) (cut (pass_word (dev h))) (e_stk80 E)
      = Some ?ok"
    by (rule checkAuth_decides [where pre = "?p @ str ''?'' @ q" and post = "0 # drop (length ?uri + 1) (authen_uri h)"])
      (use assms amp in \<open>auto simp: auth_uri_def asc_def\<close>)
  then have g: "gate (e_stk80 E) ?h (?p @ [0]) = Some (if ?ok then ?p else str ''/login.html'')"
    using c nl extension_html [OF path(2)] by (simp add: gate_def del: str_Cons)
  have l: "xml_page E (str ''/login.html'') = None" using xml_page_not_html [of E "str ''/login''"] by simp
  show ?thesis
    unfolding http_find_file_def t b fs_open_def Option.bind.bind_lunit g
    using u xml_page_not_html [of E pre] l by (auto simp del: str_Cons)
qed

end
