(* ===== verification/Accounts.thy ===== *)
theory Accounts
  imports Serving
begin

section \<open>Changing the user name and the password\<close>

text \<open>
  \<open>Pass\<close> decodes both values into the same buffer \<open>pb\<close> and stores it up to its first NUL. The
  decoder ends its output with a NUL only when the length of the text is no multiple of three.
\<close>

text \<open>What the buffer holds after the decoder has put \<open>src\<close> in front of \<open>old\<close>, as a C string.\<close>

definition over :: "bytes \<Rightarrow> bytes \<Rightarrow> bytes" where
  "over src old = (if length src mod 3 = 0 then src @ drop (length src) old else src @ 0 # drop (length src + 1) old)"

definition b64 :: "bytes \<Rightarrow> bytes" where
  "b64 src = Base64Encode src 40"

lemma length_b64: "length src \<le> 28 \<Longrightarrow> length (b64 src) = 4 * ((length src + 2) div 3)"
  unfolding b64_def by (rule length_Base64Encode) linarith

lemma length_over: "length src < length old \<Longrightarrow> length (over src old) = length old"
  by (cases old) (auto simp: over_def)

lemma Base64Decode_b64:
  assumes "length src \<le> 28" and "length dest = 40" and "n = length (b64 src)"
  shows "\<exists>k. Base64Decode (b64 src @ ys) n dest 30 = Some (k, over src dest)"
  using Base64Decode_Encode [of src 40 30 dest "b64 src" ys] assms
  by (auto simp: b64_def over_def)

lemma pass_tag_run:
  assumes "sets msg len tag (b64 src)" and "length src \<le> 28" and "sys_ok s"
    and "c_str (over src (pb s)) = Some v"
  shows "\<exists>t. pass_tag tag a msg len s
       = Some (s\<lparr>tb := t, iBuf := 0, pb := over src (pb s), ee := eeWr a (v @ [0]) (ee s)\<rparr>) \<and> length t = 130"
proof -
  let ?w = "b64 src"
  let ?t = "?w @ 0 # drop (length ?w + 1) (tb s)"
  have l: "length ?w < 128" using assms(1) by (simp add: sets_def)
  have lt: "length ?t = 130" and p: "length (pb s) = 40" using l assms(3) by (simp_all add: sys_ok_def)
  have u: "unat (of_nat (length ?w) :: byte) = length ?w" using l by (simp add: unat_of_nat)
  obtain k where "Base64Decode ?t (length ?w) (pb s) 30 = Some (k, over src (pb s))"
    using Base64Decode_b64 [OF assms(2) p refl] by blast
  then have "pass_tag tag a msg len s
       = Some (s\<lparr>tb := ?t, iBuf := 0, pb := over src (pb s), ee := eeWr a (v @ [0]) (ee s)\<rparr>)"
    using parse_at_sets [OF assms(1,3)] sets_nz [OF assms(1)] u assms(4)
    by (simp add: pass_tag_def EE_write_pb_def EE_write_def)
  then show ?thesis using lt by blast
qed

lemma Pass_run:
  assumes "sets msg len ''<PASS>'' (b64 pw)" and "length pw \<le> 28" and "sets msg len ''<UNAME>'' (b64 un)"
    and "length un \<le> 28" and "sys_ok s"
    and "c_str (over pw (pb s)) = Some v" and "c_str (over un (over pw (pb s))) = Some w"
  shows "\<exists>t. Pass msg len s
       = Some (s\<lparr>tb := t, iBuf := 0, pb := over un (over pw (pb s)),
             ee := eeWr EE_USERNAME (w @ [0]) (eeWr EE_PASS (v @ [0]) (ee s))\<rparr>) \<and> length t = 130"
proof -
  from pass_tag_run [OF assms(1,2,5,6), of EE_PASS] obtain t where
    t: "pass_tag ''<PASS>'' EE_PASS msg len s
       = Some (s\<lparr>tb := t, iBuf := 0, pb := over pw (pb s), ee := eeWr EE_PASS (v @ [0]) (ee s)\<rparr>)" "length t = 130" by blast
  let ?s = "s\<lparr>tb := t, iBuf := 0, pb := over pw (pb s), ee := eeWr EE_PASS (v @ [0]) (ee s)\<rparr>"
  have "sys_ok ?s" using assms(2,5) t(2) by (simp add: sys_ok_def length_over)
  with pass_tag_run [OF assms(3,4), of ?s w EE_USERNAME] assms(7) t show ?thesis
    by (auto simp: Pass_def)
qed

text \<open>Terminated texts.\<close>

lemma c_str_over: "0 \<notin> set src \<Longrightarrow> length src mod 3 \<noteq> 0 \<Longrightarrow> c_str (over src old) = Some src"
  by (simp add: over_def)

subsection \<open>After a restart\<close>

definition account_ok :: "bytes \<Rightarrow> bool" where
  "account_ok t \<longleftrightarrow> t \<noteq> [] \<and> 0 \<notin> set t \<and> length t < 16 \<and> length t mod 3 \<noteq> 0"

lemma load_params_account:
  assumes "sys_ok s" and "load_params True s = Some s'"
    and "c_str (eeRd EE_USERNAME 16 (ee s)) = Some un" and "c_str (eeRd EE_PASS 16 (ee s)) = Some pw"
  shows "cut (user_name s') = un \<and> cut (pass_word s') = pw"
proof -
  obtain s1 where 1: "load_sensors_from [0..<8] s = Some s1" "well s1" "ee s1 = ee s"
    using load_sensors_synced [OF assms(1)] by blast
  have l: "length (user_name s1) = 25" "length (pass_word s1) = 25"
    using 1(2) by (simp_all add: well_def sys_ok_def)
  obtain r where r: "eeRd EE_USERNAME 16 (ee s) = un @ 0 # r" "0 \<notin> set un" using c_str_SomeD [OF assms(3)] by blast
  obtain q where q: "eeRd EE_PASS 16 (ee s) = pw @ 0 # q" "0 \<notin> set pw" using c_str_SomeD [OF assms(4)] by blast
  have lr: "length un + Suc (length r) = 16" using arg_cong [OF r(1), of length] by simp
  have lq: "length pw + Suc (length q) = 16" using arg_cong [OF q(1), of length] by simp
  have "poke 0 (eeRd EE_PASS 16 (ee s)) (pass_word s1) = Some (pw @ 0 # q @ drop 16 (pass_word s1))"
    "poke 0 (eeRd EE_USERNAME 16 (ee s)) (user_name s1) = Some (un @ 0 # r @ drop 16 (user_name s1))"
    using l lr lq by (simp_all add: r(1) q(1))
  then show ?thesis
    using assms(2) 1(1,3) r(2) q(2)
    by (auto simp: load_params_def Let_def set_user_def set_pass_def load_input_def upd_input_def cut_id)
qed

lemma eeWr_append: "eeWr a (xs @ ys) m = eeWr ((page_next ^^ length xs) a) ys (eeWr a xs m)"
  by (induction xs arbitrary: a m) (simp_all add: funpow_swap1)

text \<open>Both texts in their areas of 16 bytes: they are the account after the next start.\<close>

lemma Pass_account:
  assumes "sets msg len ''<PASS>'' (b64 pw)" and "sets msg len ''<UNAME>'' (b64 un)"
    and "account_ok pw" and "account_ok un" and "sys_ok s" and "eeRd16 EE_INIT (ee s) = 0x55AA"
    and "Pass msg len s = Some s'" and "sys_ok s0" and "ee s0 = ee s'"
  shows "\<exists>s1. InitParam True s0 = Some s1 \<and> cut (user_name s1) = un \<and> cut (pass_word s1) = pw"
proof -
  have ac: "0 \<notin> set pw" "length pw < 16" "length pw mod 3 \<noteq> 0" "0 \<notin> set un" "length un < 16" "length un mod 3 \<noteq> 0"
    using assms(3,4) by (simp_all add: account_ok_def)
  let ?m = "eeWr EE_PASS (pw @ [0]) (ee s)"
  have m: "length (ee s) = EE_SIZE" "length ?m = EE_SIZE" using assms(5) by (simp_all add: sys_ok_def)
  have e: "ee s' = eeWr EE_USERNAME (un @ [0]) ?m"
    using Pass_run [OF assms(1) _ assms(2) _ assms(5), of pw un] ac assms(7) by (auto simp: c_str_over)
  have f: "ee_fits EE_PASS (length (pw @ [0]))" "ee_fits EE_USERNAME (length (un @ [0]))"
    "ee_fits EE_INIT 2" "ee_fits EE_PASS 16"
    using ac by (simp_all add: ee_fits_def EE_PAGE_def EE_SIZE_def)
  have "eeRd EE_INIT 2 (ee s') = eeRd EE_INIT 2 (ee s)"
    unfolding e using m f by (simp add: ees.rd_wr_other)
  then have mark: "eeRd16 EE_INIT (ee s0) = 0x55AA" using assms(6,9) by (simp add: eeRd16_eq)
  have p: "c_str (eeRd EE_PASS 16 (ee s0)) = Some pw"
  proof (rule c_str_area)
    have "eeRd EE_PASS (length (pw @ [0])) (ee s') = eeRd EE_PASS (length (pw @ [0])) ?m"
      unfolding e using m f ac by (intro ees.rd_wr_other) simp_all
    then show "eeRd EE_PASS (length (pw @ [0])) (ee s0) = pw @ [0]"
      using ees.rd_wr_same [OF m(1) f(1)] assms(9) by simp
  qed (use ac in simp_all)
  have u: "c_str (eeRd EE_USERNAME 16 (ee s0)) = Some un"
    by (rule c_str_area) (use ees.rd_wr_same [OF m(2) f(2)] e ac assms(9) in simp_all)
  obtain s1 where "load_params True s0 = Some s1" using load_params_total [OF assms(8)] by blast
  with load_params_account [OF assms(8) this u p] mark show ?thesis by (simp add: InitParam_def)
qed

subsection \<open>A password that does not fit\<close>

text \<open>
  The area of the password ends with a page of the EEPROM. The NUL behind a password of 16
  characters is written to the first byte of that page, which is the mark of \<open>InitParam\<close>.
\<close>

lemma page_next_pass: "k < 16 \<Longrightarrow> (page_next ^^ k) EE_PASS = EE_PASS + k"
proof (induction k)
  case (Suc k)
  then have "page_next (EE_PASS + k) = EE_PASS + k + 1" using page_next_Suc [of "EE_PASS + k"] by (simp add: EE_PAGE_def)
  with Suc show ?case by simp
qed simp

lemma wrap_16: "length pw = 16 \<Longrightarrow> (page_next ^^ length pw) EE_PASS = 0"
proof -
  assume "length pw = 16"
  then have "(page_next ^^ length pw) EE_PASS = page_next ((page_next ^^ 15) EE_PASS)"
    by (simp add: numeral_eq_Suc)
  then show ?thesis by (simp add: page_next_pass) (simp add: page_next_def EE_PAGE_def)
qed

lemma Pass_wraps:
  assumes "sets msg len ''<PASS>'' (b64 pw)" and "sets msg len ''<UNAME>'' (b64 un)"
    and "length pw = 16" and "0 \<notin> set pw" and "account_ok un" and "sys_ok s"
    and "Pass msg len s = Some s'" and "ee s0 = ee s'"
  shows "InitParam jumper s0 = write_defaults s0"
proof -
  have ac: "0 \<notin> set un" "length un < 16" "length un mod 3 \<noteq> 0"
    using assms(5) by (simp_all add: account_ok_def)
  let ?m = "eeWr EE_PASS (pw @ [0]) (ee s)"
  have m: "length (ee s) = EE_SIZE" "length ?m = EE_SIZE" using assms(6) by (simp_all add: sys_ok_def)
  have e: "ee s' = eeWr EE_USERNAME (un @ [0]) ?m"
    using Pass_run [OF assms(1) _ assms(2) _ assms(6), of pw un] ac assms(3,4,7) by (auto simp: c_str_over)
  have "?m = (eeWr EE_PASS pw (ee s))[0 := 0]"
    unfolding eeWr_append wrap_16 [OF assms(3)] by simp
  then have "?m ! 0 = 0" using m by (simp add: EE_SIZE_def)
  moreover have "ee_fits EE_USERNAME (length (un @ [0]))" using ac by (simp add: ee_fits_def EE_PAGE_def EE_SIZE_def)
  ultimately have "eeRd8 0 (ee s') = 0"
    unfolding e using m eeRd8_in [of EE_USERNAME "un @ [0]" ?m 0] by (simp add: EE_SIZE_def eeRd8_def)
  then have "split16 (eeRd16 EE_INIT (ee s0)) ! 0 = 0"
    using assms(8) by (simp add: eeRd16_def split16_be16)
  then have "eeRd16 EE_INIT (ee s0) \<noteq> 0x55AA" by (auto simp: split16_def)
  then show ?thesis by (simp add: InitParam_def)
qed

text \<open>A user name of a multiple of three characters is followed by the tail of the password.\<close>

lemma Pass_tail:
  assumes "sets msg len ''<PASS>'' (b64 pw)" and "sets msg len ''<UNAME>'' (b64 un)"
    and "account_ok pw" and "un \<noteq> []" "0 \<notin> set un" and "length un mod 3 = 0" and "length un < length pw"
    and "sys_ok s" and "Pass msg len s = Some s'"
  shows "c_str (eeRd EE_USERNAME 16 (ee s')) = Some (un @ drop (length un) pw)"
proof -
  let ?w = "un @ drop (length un) pw"
  have ac: "0 \<notin> set pw" "length pw < 16" "length pw mod 3 \<noteq> 0" using assms(3) by (simp_all add: account_ok_def)
  then have z: "0 \<notin> set ?w" using assms(5) by (auto dest: in_set_dropD)
  have "over un (over pw (pb s)) = ?w @ 0 # drop (length pw + 1) (pb s)"
    using assms(6,7) ac(3) by (simp add: over_def)
  then have "c_str (over un (over pw (pb s))) = Some ?w" using c_str_append [OF z] by simp
  then have e: "ee s' = eeWr EE_USERNAME (?w @ [0]) (eeWr EE_PASS (pw @ [0]) (ee s))"
    using Pass_run [OF assms(1) _ assms(2) _ assms(8), of pw ?w] ac assms(7,9) by (auto simp: c_str_over)
  have "ee_fits EE_USERNAME (length (?w @ [0]))" using ac assms(7) by (simp add: ee_fits_def EE_PAGE_def EE_SIZE_def)
  then have "eeRd EE_USERNAME (length (?w @ [0])) (ee s') = ?w @ [0]"
    unfolding e using assms(8) by (intro ees.rd_wr_same) (simp_all add: sys_ok_def)
  then show ?thesis using z ac assms(7) by (intro c_str_area) simp_all
qed

subsection \<open>The account form\<close>

lemma Base64Encode_chars:
  assumes "b64_value x = None" and "x \<noteq> asc CHR ''=''"
  shows "x \<notin> set (Base64Encode src w)"
proof -
  have c: "b64_char j \<noteq> x" for j
  proof (cases "j < 64")
    case True
    then show ?thesis using b64_value_char [OF True] assms by auto
  next
    case False
    then show ?thesis using assms(2) by (auto simp: b64_char_def asc_def word_less_nat_alt word_le_nat_alt)
  qed
  have "x \<notin> set (b64_group a b d)" for a b d
    using c [symmetric] by (auto simp: b64_group_def Let_def simp del: push_bit_and)
  then show ?thesis by (induction src w rule: Base64Encode.induct) auto
qed

definition account_form :: "bytes \<Rightarrow> bytes \<Rightarrow> (string \<times> bytes) list" where
  "account_form pw un = [(''PASS'', b64 pw), (''UNAME'', b64 un)]"

lemma b64_field: "length src \<le> 28 \<Longrightarrow> src \<noteq> [] \<Longrightarrow> plain_text (b64 src) \<and> length (b64 src) \<le> 40 \<and> b64 src \<noteq> []"
proof -
  assume l: "length src \<le> 28" and n: "src \<noteq> []"
  have "asc CHR ''<'' \<notin> set (b64 src)" "asc CHR ''>'' \<notin> set (b64 src)"
    unfolding b64_def by (rule Base64Encode_chars; simp add: b64_value_def asc_def)+
  then have "plain_text (b64 src)" by (auto simp: plain_text_def list_all_iff)
  moreover have "length (b64 src) \<le> 40" "length (b64 src) \<noteq> 0"
    using length_b64 [OF l] l n by (simp, cases src, auto)
  ultimately show ?thesis by auto
qed

lemma account_form_ok:
  assumes "length pw \<le> 28" "pw \<noteq> []" "length un \<le> 28" "un \<noteq> []"
  shows "form_ok (account_form pw un)"
  using b64_field [OF assms(1,2)] b64_field [OF assms(3,4)]
  by (simp add: form_ok_def account_form_def field_ok_def form_simps plain_text_def [of "[_, _, _, _]"]
      plain_text_def [of "[_, _, _, _, _]"] asc_def)

lemma account_sets:
  assumes "length pw \<le> 28" "pw \<noteq> []" "length un \<le> 28" "un \<noteq> []"
  shows "sets (form (account_form pw un) @ ys) (of_nat (length (form (account_form pw un)))) ''<PASS>'' (b64 pw)"
    and "sets (form (account_form pw un) @ ys) (of_nat (length (form (account_form pw un)))) ''<UNAME>'' (b64 un)"
  using sets_form [OF account_form_ok [OF assms], of "''PASS''" "b64 pw" ys]
    sets_form [OF account_form_ok [OF assms], of "''UNAME''" "b64 un" ys] b64_field [OF assms(1,2)] b64_field [OF assms(3,4)]
  by (simp_all add: account_form_def)

lemma finished_pass:
  assumes "http_ok h" and "length body < 4096" and "c = collected (str ''/pass.sva'') body h"
  shows "httpd_post_finished E c = on_dev (Pass (post_buffer c) (of_nat (length body))) c"
proof -
  have z: "0 \<notin> set (str ''/pass.sva'')" by (simp add: asc_def)
  show ?thesis unfolding assms(3) finished_simps collected_poked [OF assms(1,2)] uri_is_post [OF z]
    by (simp del: str_Cons)
qed

text \<open>Posting an account, whatever the two texts are.\<close>

lemma post_account:
  assumes "http_ok h" and "ds \<noteq> []" and "concat ds = form (account_form pw un)"
    and "length pw \<le> 28" "pw \<noteq> []" "length un \<le> 28" "un \<noteq> []"
    and "0 \<in> set (over pw (pb (dev h)))" and "0 \<in> set (over un (over pw (pb (dev h))))"
  shows "\<exists>h' ys. post E (str ''/pass.sva'') ds h = Some (Running h') \<and> http_ok h'
     \<and> Pass (form (account_form pw un) @ ys) (of_nat (length (form (account_form pw un)))) (dev h) = Some (dev h')"
proof -
  let ?body = "form (account_form pw un)"
  define c where "c = collected (str ''/pass.sva'') ?body h"
  let ?ys = "0 # drop (length ?body + 1) (post_buffer h)"
  have l: "length ?body < 4096" using account_form_ok [OF assms(4-7)] by (simp add: form_ok_def)
  have ok: "http_ok c" and b: "post_buffer c = ?body @ ?ys" and d: "dev c = dev h"
    using collected_ok [OF assms(1)] l by (simp_all add: c_def collected_simps)
  have p: "post E (str ''/pass.sva'') ds h = on_dev (Pass (post_buffer c) (of_nat (length ?body))) c"
    unfolding c_def using post_collected [OF assms(1) _ assms(3) l assms(2)] finished_pass [OF assms(1) l refl] by simp
  have s: "sys_ok (dev h)" using assms(1) by (simp add: http_ok_def)
  obtain v w where "c_str (over pw (pb (dev h))) = Some v" "c_str (over un (over pw (pb (dev h)))) = Some w"
    using assms(8,9) c_str_None_iff by (metis option.exhaust)
  from Pass_run [OF account_sets(1) [OF assms(4-7)] assms(4) account_sets(2) [OF assms(4-7)] assms(6) s this, of ?ys]
  obtain t where t: "Pass (?body @ ?ys) (of_nat (length ?body)) (dev h)
       = Some ((dev h)\<lparr>tb := t, iBuf := 0, pb := over un (over pw (pb (dev h))),
             ee := eeWr EE_USERNAME (w @ [0]) (eeWr EE_PASS (v @ [0]) (ee (dev h)))\<rparr>)" "length t = 130" by blast
  let ?s = "(dev h)\<lparr>tb := t, iBuf := 0, pb := over un (over pw (pb (dev h))),
             ee := eeWr EE_USERNAME (w @ [0]) (eeWr EE_PASS (v @ [0]) (ee (dev h)))\<rparr>"
  have "sys_ok ?s" using s t(2) assms(4,6) by (simp add: sys_ok_def length_over)
  then have "http_ok (c\<lparr>dev := ?s\<rparr>)" using ok by (simp add: http_ok_def)
  then show ?thesis using p t(1) by (intro exI [of _ "c\<lparr>dev := ?s\<rparr>"] exI [of _ ?ys]) (simp add: b d on_dev_def)
qed

lemma over_zero: "length src mod 3 \<noteq> 0 \<Longrightarrow> 0 \<in> set (over src old)"
  by (simp add: over_def)

lemma over_keeps_zero: "length src < length v \<Longrightarrow> old = v @ 0 # r \<Longrightarrow> 0 \<in> set (over src old)"
  by (auto simp: over_def)

lemma posted_account:
  assumes "http_ok h" and "ds \<noteq> []" and "concat ds = form (account_form pw un)"
    and "account_ok pw" and "account_ok un" and "eeRd16 EE_INIT (ee (dev h)) = 0x55AA"
  shows "\<exists>h'. post E (str ''/pass.sva'') ds h = Some (Running h') \<and> http_ok h'
     \<and> (\<forall>h0. http_ok h0 \<longrightarrow> ee (dev h0) = ee (dev h') \<longrightarrow>
          (\<exists>s. InitParam True (dev h0) = Some s \<and> cut (user_name s) = un \<and> cut (pass_word s) = pw))"
proof -
  have a: "length pw \<le> 28" "pw \<noteq> []" "length un \<le> 28" "un \<noteq> []"
    "0 \<in> set (over pw (pb (dev h)))" "0 \<in> set (over un (over pw (pb (dev h))))"
    using assms(4,5) by (auto simp: account_ok_def intro: over_zero)
  from post_account [OF assms(1-3) a, of E] obtain h' ys where
    h': "post E (str ''/pass.sva'') ds h = Some (Running h')" "http_ok h'"
      "Pass (form (account_form pw un) @ ys) (of_nat (length (form (account_form pw un)))) (dev h) = Some (dev h')" by blast
  have s: "sys_ok (dev h)" using assms(1) by (simp add: http_ok_def)
  from Pass_account [OF account_sets [OF a(1-4)] assms(4,5) s assms(6) h'(3)] h' show ?thesis
    by (auto simp: http_ok_def)
qed

lemma posted_long_password:
  assumes "http_ok h" and "ds \<noteq> []" and "concat ds = form (account_form pw un)"
    and "length pw = 16" and "0 \<notin> set pw" and "account_ok un"
  shows "\<exists>h'. post E (str ''/pass.sva'') ds h = Some (Running h')
     \<and> (\<forall>s jumper. ee s = ee (dev h') \<longrightarrow> InitParam jumper s = write_defaults s)"
proof -
  have a: "length pw \<le> 28" "pw \<noteq> []" "length un \<le> 28" "un \<noteq> []"
    "0 \<in> set (over pw (pb (dev h)))" "0 \<in> set (over un (over pw (pb (dev h))))"
    using assms(4,6) by (auto simp: account_ok_def intro: over_zero)
  from post_account [OF assms(1-3) a, of E] obtain h' ys where
    h': "post E (str ''/pass.sva'') ds h = Some (Running h')"
      "Pass (form (account_form pw un) @ ys) (of_nat (length (form (account_form pw un)))) (dev h) = Some (dev h')" by blast
  have s: "sys_ok (dev h)" using assms(1) by (simp add: http_ok_def)
  from Pass_wraps [OF account_sets [OF a(1-4)] assms(4-6) s h'(2)] h' show ?thesis by blast
qed

lemma posted_tail:
  assumes "http_ok h" and "ds \<noteq> []" and "concat ds = form (account_form pw un)"
    and "account_ok pw" and "un \<noteq> []" "0 \<notin> set un" and "length un mod 3 = 0" and "length un < length pw"
  shows "\<exists>h'. post E (str ''/pass.sva'') ds h = Some (Running h')
     \<and> c_str (eeRd EE_USERNAME 16 (ee (dev h'))) = Some (un @ drop (length un) pw)"
proof -
  have a: "length pw \<le> 28" "pw \<noteq> []" "length un \<le> 28" "un \<noteq> []" "0 \<in> set (over pw (pb (dev h)))"
    using assms(4-8) by (auto simp: account_ok_def intro: over_zero)
  have z: "0 \<in> set (over un (over pw (pb (dev h))))"
    by (rule over_keeps_zero [of un pw, OF assms(8)]) (use assms(4) in \<open>simp add: over_def account_ok_def\<close>)
  from post_account [OF assms(1-3) a z, of E] obtain h' ys where
    h': "post E (str ''/pass.sva'') ds h = Some (Running h')"
      "Pass (form (account_form pw un) @ ys) (of_nat (length (form (account_form pw un)))) (dev h) = Some (dev h')" by blast
  have s: "sys_ok (dev h)" using assms(1) by (simp add: http_ok_def)
  from Pass_tail [OF account_sets [OF a(1-4)] assms(4-8) s h'(2)] h'(1) show ?thesis by blast
qed

end
