(* ===== verification/Timer.thy ===== *)
theory Timer
  imports Prelude
begin

section \<open>Software timers and the millisecond clock (\<open>timer.c\<close>, \<open>netconf.c\<close>)\<close>

text \<open>
  \<open>clock\<close> holds the four counters that \<open>IncrementTimer\<close> (called from \<open>SysTick_Handler\<close>
  every millisecond) advances; a software \<open>timer\<close> remembers when it was armed and for how
  long. Arithmetic wraps at 32 bits and \<open>timer_expired\<close> compares as signed \<open>int\<close>.
  The locale \<open>soft_timer\<close> is what the protothreads rely on; the interpretation at the end
  of the theory discharges its law for this code.
\<close>

subsection \<open>Model\<close>

record clock =
  Timex :: u32
  LocalTime :: u32
  sysTyck :: u32
  I2CTimer :: u32

record timer =
  start :: u32
  interval :: u32

definition timer_expired :: "clock \<Rightarrow> timer \<Rightarrow> bool" where
  "timer_expired c t \<longleftrightarrow> sint (Timex c - start t) \<ge> sint (interval t)"

definition timer_set :: "clock \<Rightarrow> u32 \<Rightarrow> timer" where
  "timer_set c i = \<lparr>start = Timex c, interval = i\<rparr>"

definition IncrementTimer :: "clock \<Rightarrow> clock" where
  "IncrementTimer c =
     c\<lparr>Timex := Timex c + 1,
       LocalTime := LocalTime c + 10,
       sysTyck := sysTyck c + 1,
       I2CTimer := (if I2CTimer c \<noteq> 0 then I2CTimer c + 1 else I2CTimer c)\<rparr>"

definition sys_now :: "clock \<Rightarrow> u32" where
  "sys_now c = sysTyck c"

text \<open>\<open>n\<close> calls of the interrupt handler.\<close>

definition elapse :: "nat \<Rightarrow> clock \<Rightarrow> clock" where
  "elapse n = (IncrementTimer ^^ n)"

text \<open>
  \<open>LwIP_Periodic_Handle\<close> is called from the main loop with \<open>LocalTime\<close>; it runs
  \<open>tcp_tmr\<close> and \<open>etharp_tmr\<close> of the vendored network stack. The state is the two
  time stamps and how often each was run.
\<close>

record periodic =
  TCPTimer :: u32
  ARPTimer :: u32
  tcp_runs :: nat
  arp_runs :: nat

definition TCP_TMR_INTERVAL :: u32 where "TCP_TMR_INTERVAL = 250"
definition ARP_TMR_INTERVAL :: u32 where "ARP_TMR_INTERVAL = 1000"

definition LwIP_Periodic_Handle :: "u32 \<Rightarrow> periodic \<Rightarrow> periodic" where
  "LwIP_Periodic_Handle localtime p =
     (let p1 = (if localtime - TCPTimer p \<ge> TCP_TMR_INTERVAL
                then p\<lparr>TCPTimer := localtime, tcp_runs := Suc (tcp_runs p)\<rparr> else p)
      in if localtime - ARPTimer p1 \<ge> ARP_TMR_INTERVAL
         then p1\<lparr>ARPTimer := localtime, arp_runs := Suc (arp_runs p1)\<rparr> else p1)"

subsection \<open>The clock after \<open>n\<close> ticks\<close>

lemma elapse_0 [simp]: "elapse 0 c = c"
  and elapse_Suc: "elapse (Suc n) c = IncrementTimer (elapse n c)"
  and elapse_add: "elapse (m + n) c = elapse m (elapse n c)"
  by (simp_all add: elapse_def funpow_add)

lemma Timex_elapse [simp]: "Timex (elapse n c) = Timex c + of_nat n"
  and LocalTime_elapse [simp]: "LocalTime (elapse n c) = LocalTime c + of_nat (10 * n)"
  and sysTyck_elapse [simp]: "sysTyck (elapse n c) = sysTyck c + of_nat n"
  by (induction n) (simp_all add: elapse_Suc IncrementTimer_def algebra_simps)

lemma I2CTimer_elapse_0: "I2CTimer c = 0 \<Longrightarrow> I2CTimer (elapse n c) = 0"
  by (induction n) (simp_all add: elapse_Suc IncrementTimer_def)

lemma sint_of_nat_small: "n < 2 ^ 31 \<Longrightarrow> sint (of_nat n :: u32) = int n"
  by (subst signed_of_nat) (simp add: signed_take_bit_int_eq_self)

lemma timer_set_expired:
  assumes "unat i < 2 ^ 31" and "n < 2 ^ 31"
  shows "timer_expired (elapse n c) (timer_set c i) \<longleftrightarrow> unat i \<le> n"
proof -
  have "sint i = int (unat i)"
    using sint_of_nat_small [OF assms(1)] by simp
  moreover have "uint i \<le> int n \<longleftrightarrow> unat i \<le> n"
    unfolding unat_eq_nat_uint by (rule nat_le_iff [symmetric])
  ultimately show ?thesis using assms(2)
    by (simp add: timer_expired_def timer_set_def sint_of_nat_small)
qed

subsection \<open>The interface the waiting code relies on\<close>

locale soft_timer =
  fixes arm :: "'c \<Rightarrow> nat \<Rightarrow> 't"
    and due :: "'c \<Rightarrow> 't \<Rightarrow> bool"
    and pass :: "nat \<Rightarrow> 'c \<Rightarrow> 'c"
    and window :: nat
  assumes due_iff: "i < window \<Longrightarrow> n < window \<Longrightarrow> due (pass n c) (arm c i) \<longleftrightarrow> i \<le> n"
    and pass_pass: "pass m (pass n c) = pass (m + n) c"
begin

lemma not_due_before: "i < window \<Longrightarrow> n < i \<Longrightarrow> \<not> due (pass n c) (arm c i)"
  by (subst due_iff) auto

lemma due_at: "i < window \<Longrightarrow> due (pass i c) (arm c i)"
  by (simp add: due_iff)

lemma due_stays:
  assumes "i < window" and "due (pass n c) (arm c i)" and "n < window" and "m + n < window"
  shows "due (pass m (pass n c)) (arm c i)"
  using assms by (simp add: pass_pass due_iff)

text \<open>
  Polling at intervals of at most \<open>d\<close> ticks, the first poll that sees the timer due comes
  no earlier than the deadline and less than \<open>d\<close> ticks after it.
\<close>

lemma first_due_poll:
  assumes "i < window" and "n < window" and "due (pass n c) (arm c i)"
    and "n = 0 \<or> (\<exists>k < n. n - k \<le> d \<and> \<not> due (pass k c) (arm c i))"
  shows "i \<le> n \<and> n < i + max d 1"
proof -
  from assms(1-3) have "i \<le> n" by (simp add: due_iff)
  moreover have "n < i + max d 1"
  proof (cases "n = 0")
    case True
    then show ?thesis by (simp add: max_def)
  next
    case False
    with assms(4) obtain k where k: "k < n" "n - k \<le> d" "\<not> due (pass k c) (arm c i)" by auto
    with assms(1,2) have "\<not> i \<le> k" using due_iff [of i k c] by auto
    with k show ?thesis by auto
  qed
  ultimately show ?thesis by simp
qed

end

interpretation tmr: soft_timer "\<lambda>c i. timer_set c (of_nat i)" timer_expired elapse "2 ^ 31"
proof unfold_locales
  fix i n :: nat and c :: clock
  assume "i < 2 ^ 31" and "n < 2 ^ 31"
  moreover from this have "unat (of_nat i :: u32) = i" by (simp add: unat_of_nat)
  ultimately show "timer_expired (elapse n c) (timer_set c (of_nat i)) \<longleftrightarrow> i \<le> n"
    by (simp add: timer_set_expired)
next
  fix m n c
  show "elapse m (elapse n c) = elapse (m + n) c" by (simp add: elapse_add)
qed

end
