(* ===== verification/Calendar.thy ===== *)
theory Calendar
  imports Firmware
begin

section \<open>Time from the network and daylight saving (\<open>dst.c\<close>)\<close>

text \<open>
  \<open>sntp_set_system_time\<close> takes a count of seconds, adds the time zone of the EEPROM, breaks the
  time down with \<open>localtime\<close>, adds the hour of the daylight saving time if it is enabled, and
  sets the real time clock. \<open>localtime\<close> is the function of the C library on a system without
  a time zone: seconds since 1970 in the Gregorian calendar. The lemmas show that the
  hour is added exactly between the last Sundays of March and October and that the carries of the
  hour into day, weekday and month are those of the calendar.
\<close>

subsection \<open>Broken-down time of the C library\<close>

definition leap :: "nat \<Rightarrow> bool" where
  "leap y \<longleftrightarrow> y mod 4 = 0 \<and> (y mod 100 \<noteq> 0 \<or> y mod 400 = 0)"

definition mdays :: "nat \<Rightarrow> nat \<Rightarrow> nat" where
  "mdays y m = (if m = 2 then (if leap y then 29 else 28) else if m \<in> {4, 6, 9, 11} then 30 else 31)"

definition ydays :: "nat \<Rightarrow> nat" where
  "ydays y = (if leap y then 366 else 365)"

text \<open>The year and the month in which a number of days ends, counted from a start.\<close>

function year_of :: "nat \<Rightarrow> nat \<Rightarrow> nat \<times> nat" where
  "year_of y d = (if d < ydays y then (y, d) else year_of (y + 1) (d - ydays y))"
  by auto
termination by (relation "measure snd") (auto simp: ydays_def split: if_splits)

declare year_of.simps [simp del]

fun month_of :: "nat \<Rightarrow> nat list \<Rightarrow> nat \<Rightarrow> nat \<times> nat" where
  "month_of y [] d = (12, d)"
| "month_of y (m # ms) d = (if d < mdays y m then (m, d) else month_of y ms (d - mdays y m))"

record tm =
  tm_year :: nat
  tm_mon :: nat
  tm_mday :: nat
  tm_hour :: nat
  tm_min :: nat
  tm_sec :: nat
  tm_wday :: nat

text \<open>\<open>tm_year\<close> and \<open>tm_mon\<close> count from 1900 and 0 in C; \<open>localtime\<close> here gives what the C code has
  after its two corrections. The first of January 1970 was a Thursday.\<close>

definition localtime :: "nat \<Rightarrow> tm" where
  "localtime t =
     (let (y, d) = year_of 1970 (t div 86400);
          (m, d') = month_of y [1..<13] d;
          r = t mod 86400
      in \<lparr>tm_year = y, tm_mon = m, tm_mday = d' + 1, tm_hour = r div 3600, tm_min = r div 60 mod 60,
          tm_sec = r mod 60, tm_wday = (t div 86400 + 4) mod 7\<rparr>)"

subsection \<open>\<open>dst.c\<close>\<close>

definition DaysInMonth :: "nat list" where
  "DaysInMonth = [31, 29, 31, 30, 31, 30, 31, 31, 30, 31, 30, 31]"

record RTC_t =
  t_year :: u16
  t_month :: byte
  t_mday :: byte
  t_wday :: byte
  t_hour :: byte
  t_min :: byte
  t_sec :: byte
  t_dst :: byte

text \<open>The operands of \<open>t->mday - wday\<close> are promoted to \<open>int\<close>.\<close>

definition isDST :: "RTC_t \<Rightarrow> bool" where
  "isDST t =
     (if t_month t < 3 \<or> t_month t > 10 then False
      else if int (unat (t_mday t)) - int (unat (t_wday t)) \<ge> 25 \<and> (t_wday t \<noteq> 0 \<or> t_hour t \<ge> 2)
           then t_month t \<noteq> 10
           else t_month t \<noteq> 3)"

text \<open>The carries of the added hour; the flag goes to the EEPROM.\<close>

definition add_hour :: "RTC_t \<Rightarrow> RTC_t" where
  "add_hour t =
     (let h = t_hour t + 1
      in if h = 24
         then (let w = (if t_wday t + 1 = 7 then 0 else t_wday t + 1);
                   (d, m) = (if unat (t_mday t) = DaysInMonth ! (unat (t_month t) - 1) then (0, t_month t + 1)
                             else (t_mday t, t_month t))
               in t\<lparr>t_month := m, t_hour := 0, t_mday := d + 1, t_wday := w\<rparr>)
         else t\<lparr>t_hour := h\<rparr>)"

definition adjustDST :: "RTC_t \<Rightarrow> bytes \<Rightarrow> (bool \<times> RTC_t \<times> bytes) option" where
  "adjustDST t m =
     (if isDST t
      then (if unat (t_month t) - 1 < length DaysInMonth
            then Some (True, add_hour (t\<lparr>t_dst := 1\<rparr>), eeWr EE_DST_ACTIVETIME [1] m) else None)
      else Some (False, t\<lparr>t_dst := 0\<rparr>, eeWr EE_DST_ACTIVETIME [0] m))"

text \<open>\<open>shift_time\<close> has 16 bits.\<close>

definition zone_time :: "byte \<Rightarrow> nat \<Rightarrow> int" where
  "zone_time timezone ltime =
     (if timezone > 20 then int ltime - uint (of_int ((uint timezone - 20) * 3600) :: u16)
      else int ltime + uint (of_int (uint timezone * 3600) :: u16))"

definition rtc_of_tm :: "tm \<Rightarrow> RTC_t" where
  "rtc_of_tm i = \<lparr>t_year = of_nat (tm_year i), t_month = of_nat (tm_mon i), t_mday = of_nat (tm_mday i),
     t_wday = of_nat (tm_wday i), t_hour = of_nat (tm_hour i), t_min = of_nat (tm_min i), t_sec = of_nat (tm_sec i), t_dst = 0\<rparr>"

definition sntp_set_system_time :: "nat \<Rightarrow> sys \<Rightarrow> sys option" where
  "sntp_set_system_time ltime s = do {
     let t = zone_time (eeRd8 EE_TIME_ZONE (ee s)) ltime;
     r \<leftarrow> (if t < 0 then None else Some (rtc_of_tm (localtime (nat t))));
     (r, e) \<leftarrow> (if eeRd8 EE_DST_STATE (ee s) = 1
               then do { (b, r, e) \<leftarrow> adjustDST r (ee s); Some (r, e) }
               else Some (r, ee s));
     Some (s\<lparr>ee := e, rtc := setTime (t_hour r) (t_min r) (t_sec r)
              (setDate (ucast (t_year r - 2000)) (t_month r) (t_mday r) (t_wday r) (Firmware.rtc s))\<rparr>) }"


subsection \<open>The calendar\<close>

text \<open>Days since the first of January 1970, the weekday, and the second at which a clock reading stands.\<close>

definition days_of_years :: "nat \<Rightarrow> nat" where
  "days_of_years y = sum_list (map ydays [1970..<y])"

definition day_number :: "nat \<Rightarrow> nat \<Rightarrow> nat \<Rightarrow> nat" where
  "day_number y m d = days_of_years y + sum_list (map (mdays y) [1..<m]) + (d - 1)"

definition weekday :: "nat \<Rightarrow> nat \<Rightarrow> nat \<Rightarrow> nat" where
  "weekday y m d = (day_number y m d + 4) mod 7"

definition valid_date :: "nat \<Rightarrow> nat \<Rightarrow> nat \<Rightarrow> bool" where
  "valid_date y m d \<longleftrightarrow> 1970 \<le> y \<and> 1 \<le> m \<and> m \<le> 12 \<and> 1 \<le> d \<and> d \<le> mdays y m"

lemma mdays_le: "mdays y m \<le> 31" "28 \<le> mdays y m"
  by (simp_all add: mdays_def)

lemma ydays_months: "sum_list (map (mdays y) [1..<13]) = ydays y"
  by (simp add: upt_rec mdays_def ydays_def)

lemma year_of_sum:
  "year_of y d = (y', d') \<Longrightarrow> y \<le> y' \<and> d' < ydays y' \<and> sum_list (map ydays [y..<y']) + d' = d"
proof (induction y d rule: year_of.induct)
  case (1 y d)
  show ?case
  proof (cases "d < ydays y")
    case True
    with 1(2) show ?thesis by (simp add: year_of.simps)
  next
    case False
    with 1(2) have "year_of (y + 1) (d - ydays y) = (y', d')" by (simp add: year_of.simps)
    from 1(1) [OF False this] False show ?thesis
      by (auto simp: upt_conv_Cons Suc_le_eq)
  qed
qed

lemma month_of_sum:
  assumes "month_of y ms d = (m, d')" and "d < sum_list (map (mdays y) ms)"
  shows "\<exists>k < length ms. m = ms ! k \<and> d' < mdays y m \<and> sum_list (map (mdays y) (take k ms)) + d' = d"
  using assms
proof (induction ms arbitrary: d)
  case (Cons a ms)
  show ?case
  proof (cases "d < mdays y a")
    case True
    with Cons.prems show ?thesis by (intro exI [of _ 0]) auto
  next
    case False
    with Cons.prems have "month_of y ms (d - mdays y a) = (m, d')" "d - mdays y a < sum_list (map (mdays y) ms)"
      by auto
    from Cons.IH [OF this] obtain k where
      "k < length ms" "m = ms ! k" "d' < mdays y m" "sum_list (map (mdays y) (take k ms)) + d' = d - mdays y a" by blast
    with False show ?thesis by (intro exI [of _ "Suc k"]) auto
  qed
qed simp

lemma localtime_date:
  assumes "i = localtime t"
  shows "valid_date (tm_year i) (tm_mon i) (tm_mday i)"
    and "day_number (tm_year i) (tm_mon i) (tm_mday i) = t div 86400"
    and "tm_wday i = weekday (tm_year i) (tm_mon i) (tm_mday i)"
proof -
  obtain y d where y: "year_of 1970 (t div 86400) = (y, d)" by fastforce
  note ys = year_of_sum [OF y]
  obtain m d' where m: "month_of y [1..<13] d = (m, d')" by fastforce
  have "d < sum_list (map (mdays y) [1..<13])" using ys unfolding ydays_months by simp
  from month_of_sum [OF m this] obtain k where
    k: "k < length [1..<13]" "m = [1..<13] ! k" "d' < mdays y m" "sum_list (map (mdays y) (take k [1..<13])) + d' = d" by blast
  have mk: "m = Suc k" "k < 12" using k(1,2) by auto
  then have tk: "take k [1..<13] = [1..<m]" by (simp add: take_upt)
  have i: "tm_year i = y" "tm_mon i = m" "tm_mday i = d' + 1" "tm_wday i = (t div 86400 + 4) mod 7"
    using assms y m by (simp_all add: localtime_def Let_def)
  show 1: "valid_date (tm_year i) (tm_mon i) (tm_mday i)"
    using ys k(3) mk by (simp add: valid_date_def i)
  show 2: "day_number (tm_year i) (tm_mon i) (tm_mday i) = t div 86400"
    using ys k(4) tk by (simp add: day_number_def days_of_years_def i)
  show "tm_wday i = weekday (tm_year i) (tm_mon i) (tm_mday i)"
    using 2 unfolding weekday_def i by simp
qed

lemma localtime_clock:
  assumes "i = localtime t"
  shows "tm_hour i < 24" "tm_min i < 60" "tm_sec i < 60"
    and "tm_hour i * 3600 + tm_min i * 60 + tm_sec i = t mod 86400"
proof -
  let ?r = "t mod 86400"
  have "?r < 86400" by simp
  then show "tm_hour i < 24" by (auto simp: assms localtime_def Let_def split: prod.split)
  show "tm_min i < 60" "tm_sec i < 60" by (auto simp: assms localtime_def Let_def split: prod.split)
  have "?r div 3600 = ?r div 60 div 60" by (simp add: div_mult2_eq [symmetric])
  then have "?r div 3600 * 3600 + ?r div 60 mod 60 * 60 + ?r mod 60 = ?r"
    using div_mult_mod_eq [of "?r div 60" 60] div_mult_mod_eq [of ?r 60] by linarith
  then show "tm_hour i * 3600 + tm_min i * 60 + tm_sec i = t mod 86400"
    by (auto simp: assms localtime_def Let_def split: prod.split)
qed

lemma days_of_years_mono: "y \<le> y' \<Longrightarrow> 1970 \<le> y \<Longrightarrow> days_of_years y \<le> days_of_years y'"
proof (induction y' rule: dec_induct)
  case (step n)
  then show ?case by (simp add: days_of_years_def)
qed simp

lemma day_number_year:
  assumes "valid_date y m d"
  shows "days_of_years y \<le> day_number y m d" "day_number y m d < days_of_years (Suc y)"
proof -
  show "days_of_years y \<le> day_number y m d" by (simp add: day_number_def)
  have m: "1 \<le> m" "m < 13" "d \<le> mdays y m" "1 \<le> d" "1970 \<le> y" using assms by (auto simp: valid_date_def)
  have "[1..<m + (13 - m)] = [1..<m] @ [m..<m + (13 - m)]" using m by (intro upt_add_eq_append)
  then have "[1..<13] = [1..<m] @ m # [Suc m..<13]" using m by (simp add: upt_conv_Cons)
  then have "sum_list (map (mdays y) [1..<m]) + mdays y m \<le> sum_list (map (mdays y) [1..<13])" by simp
  then have "sum_list (map (mdays y) [1..<m]) + mdays y m \<le> ydays y" unfolding ydays_months .
  with m show "day_number y m d < days_of_years (Suc y)"
    by (simp add: day_number_def days_of_years_def)
qed

lemma day_number_month_end:
  assumes "1 \<le> m"
  shows "day_number y (Suc m) 1 = Suc (day_number y m (mdays y m))"
  using assms mdays_le [of y m] by (simp add: day_number_def)

text \<open>A clock shows the second \<open>t\<close>, with a valid date and its weekday.\<close>

definition clock_shows :: "nat \<Rightarrow> RTC_t \<Rightarrow> nat \<Rightarrow> bool" where
  "clock_shows y r t \<longleftrightarrow> valid_date y (unat (t_month r)) (unat (t_mday r))
     \<and> unat (t_hour r) < 24 \<and> unat (t_min r) < 60 \<and> unat (t_sec r) < 60
     \<and> unat (t_wday r) = weekday y (unat (t_month r)) (unat (t_mday r))
     \<and> day_number y (unat (t_month r)) (unat (t_mday r)) * 86400
         + unat (t_hour r) * 3600 + unat (t_min r) * 60 + unat (t_sec r) = t"

lemma unat_byte: "n < 256 \<Longrightarrow> unat (of_nat n :: byte) = n"
  by (simp add: unat_of_nat)

lemma clock_shows_localtime:
  "clock_shows (tm_year (localtime t)) (rtc_of_tm (localtime t)) t"
proof -
  let ?i = "localtime t"
  note d = localtime_date [OF refl, of t] and c = localtime_clock [OF refl, of t]
  have b: "tm_mon ?i < 256" "tm_mday ?i < 256"
    using d(1) mdays_le(1) [of "tm_year ?i" "tm_mon ?i"] by (auto simp: valid_date_def)
  have w: "tm_wday ?i < 256" using d(3) by (simp add: weekday_def less_trans [OF mod_less_divisor])
  have "t div 86400 * 86400 + (tm_hour ?i * 3600 + tm_min ?i * 60 + tm_sec ?i) = t" unfolding c(4) by simp
  then show ?thesis using d c(1-3) b w
    by (simp add: clock_shows_def rtc_of_tm_def unat_byte)
qed

lemma weekday_less: "weekday y m d < 7"
  by (simp add: weekday_def)

lemma unat_Suc_byte: "unat (b :: byte) < 255 \<Longrightarrow> unat (b + 1) = Suc (unat b)"
  by (simp add: unat_word_ariths)

lemma month_length: "1 \<le> m \<Longrightarrow> m \<le> 12 \<Longrightarrow> m \<noteq> 2 \<Longrightarrow> DaysInMonth ! (m - 1) = mdays y m"
proof -
  assume "1 \<le> m" "m \<le> 12" "m \<noteq> 2"
  then have "m \<in> {1, 3, 4, 5, 6, 7, 8, 9, 10, 11, 12}" by (simp, presburger)
  then show ?thesis by (auto simp: DaysInMonth_def mdays_def)
qed

lemma add_hour_shows:
  assumes "clock_shows y r t" and "3 \<le> t_month r" and "t_month r \<le> 10"
  shows "clock_shows y (add_hour r) (t + 3600) \<and> t_year (add_hour r) = t_year r"
proof -
  let ?m = "unat (t_month r)" and ?d = "unat (t_mday r)" and ?h = "unat (t_hour r)"
  from assms(1) have v: "valid_date y ?m ?d" "?h < 24" and w: "unat (t_wday r) = weekday y ?m ?d"
    and e: "day_number y ?m ?d * 86400 + ?h * 3600 + unat (t_min r) * 60 + unat (t_sec r) = t"
    by (auto simp: clock_shows_def)
  have m: "3 \<le> ?m" "?m \<le> 10" using assms(2,3) by (simp_all add: word_le_nat_alt)
  have d: "1 \<le> ?d" "?d \<le> mdays y ?m" using v by (auto simp: valid_date_def)
  have d31: "?d \<le> 31" using d mdays_le(1) [of y ?m] by linarith
  have ml: "DaysInMonth ! (?m - 1) = mdays y ?m" using m by (intro month_length) auto
  have h: "unat (t_hour r + 1) = Suc ?h" using v by (intro unat_Suc_byte) simp
  then have h24: "t_hour r + 1 = 24 \<longleftrightarrow> ?h = 23" by (auto simp: word_unat_eq_iff)
  have w1: "unat (t_wday r + 1) = Suc (weekday y ?m ?d)" using w weekday_less [of y ?m ?d] by (subst unat_Suc_byte) auto
  then have w7: "t_wday r + 1 = 7 \<longleftrightarrow> weekday y ?m ?d = 6" by (auto simp: word_unat_eq_iff)
  define W where "W = (if t_wday r + 1 = 7 then 0 else t_wday r + 1)"
  have wd: "unat W = (day_number y ?m ?d + 5) mod 7"
  proof -
    have "(day_number y ?m ?d + 5) mod 7 = (if Suc (weekday y ?m ?d) = 7 then 0 else Suc (weekday y ?m ?d))"
      using mod_Suc [of "day_number y ?m ?d + 4" 7] by (simp add: weekday_def add.commute)
    then show ?thesis using w1 unfolding W_def w7 by auto
  qed
  have ah: "add_hour r = (if ?h = 23
      then (if ?d = mdays y ?m
            then r\<lparr>t_month := t_month r + 1, t_hour := 0, t_mday := 1, t_wday := W\<rparr>
            else r\<lparr>t_hour := 0, t_mday := t_mday r + 1, t_wday := W\<rparr>)
      else r\<lparr>t_hour := t_hour r + 1\<rparr>)"
    unfolding add_hour_def Let_def h24 ml W_def by simp
  consider "?h \<noteq> 23" | "?h = 23" "?d = mdays y ?m" | "?h = 23" "?d \<noteq> mdays y ?m" by blast
  then show ?thesis
  proof cases
    case 1
    then show ?thesis using assms(1) v h unfolding ah by (simp add: clock_shows_def)
  next
    case 2
    have m1: "unat (t_month r + 1) = Suc ?m" using m by (intro unat_Suc_byte) simp
    have dn: "day_number y (Suc ?m) 1 = Suc (day_number y ?m ?d)"
      using day_number_month_end [of ?m y] m 2 by simp
    have "valid_date y (Suc ?m) 1" using v(1) m mdays_le(2) [of y "Suc ?m"] by (auto simp: valid_date_def)
    moreover have "weekday y (Suc ?m) 1 = (day_number y ?m ?d + 5) mod 7" unfolding weekday_def dn by (simp add: add.commute)
    ultimately show ?thesis
      using assms(1) e 2 unfolding ah clock_shows_def by (simp add: m1 dn wd del: One_nat_def)
  next
    case 3
    have d1: "unat (t_mday r + 1) = Suc ?d" using d31 by (intro unat_Suc_byte) simp
    have dn: "day_number y ?m (Suc ?d) = Suc (day_number y ?m ?d)" using d by (simp add: day_number_def)
    have "valid_date y ?m (Suc ?d)" using v(1) d 3 by (auto simp: valid_date_def)
    moreover have "weekday y ?m (Suc ?d) = (day_number y ?m ?d + 5) mod 7" unfolding weekday_def dn by (simp add: add.commute)
    ultimately show ?thesis
      using assms(1) e 3 unfolding ah clock_shows_def by (simp add: d1 dn wd)
  qed
qed

subsection \<open>Summer time\<close>

text \<open>The last Sunday of a month of 31 days, and the time between the two changes, in standard time.\<close>

definition last_sunday :: "nat \<Rightarrow> nat \<Rightarrow> nat" where
  "last_sunday y m = 31 - weekday y m 31"

definition date_key :: "nat \<Rightarrow> nat \<Rightarrow> nat \<Rightarrow> nat" where
  "date_key m d h = (m * 32 + d) * 24 + h"

definition summer :: "nat \<Rightarrow> nat \<Rightarrow> nat \<Rightarrow> nat \<Rightarrow> bool" where
  "summer y m d h \<longleftrightarrow> date_key 3 (last_sunday y 3) 2 \<le> date_key m d h \<and> date_key m d h < date_key 10 (last_sunday y 10) 2"

lemma weekday_31:
  assumes "1 \<le> d" and "d \<le> 31"
  shows "weekday y m 31 = (weekday y m d + (31 - d)) mod 7"
proof -
  have "day_number y m 31 = day_number y m d + (31 - d)" using assms by (simp add: day_number_def)
  then show ?thesis unfolding weekday_def mod_add_left_eq by (simp add: algebra_simps)
qed

text \<open>The test of the code on a date of a month of 31 days.\<close>

lemma after_last_sunday:
  fixes h :: nat
  assumes "1 \<le> d" and "d \<le> 31"
  shows "(int d - int (weekday y m d) \<ge> 25 \<and> (weekday y m d \<noteq> 0 \<or> 2 \<le> h))
     \<longleftrightarrow> (last_sunday y m < d \<or> last_sunday y m = d \<and> 2 \<le> h)"
proof -
  define w where "w = weekday y m d"
  have w: "w < 7" by (simp add: w_def weekday_less)
  have e: "weekday y m 31 = (w + (31 - d)) mod 7" unfolding w_def by (rule weekday_31 [OF assms])
  define k where "k = 31 - d"
  have k: "d = 31 - k" "k \<le> 30" using assms by (auto simp: k_def)
  have s: "(w + k) mod 7 < 7" by simp
  have "(31 - int k - int w \<ge> 25 \<and> (w \<noteq> 0 \<or> 2 \<le> h))
     \<longleftrightarrow> (31 - (w + k) mod 7 < 31 - k \<or> 31 - (w + k) mod 7 = 31 - k \<and> 2 \<le> h)"
  proof (cases "w + k < 7")
    case True
    then have m: "(w + k) mod 7 = w + k" and l: "31 - int k - int w \<ge> 25" by simp_all
    have "31 - (w + k) < 31 - k \<longleftrightarrow> w \<noteq> 0" "31 - (w + k) = 31 - k \<longleftrightarrow> w = 0" using True by linarith+
    with l show ?thesis unfolding m by auto
  next
    case False
    then have "(w + k) mod 7 \<le> w + k - 7" using mod_less_eq_dividend [of "w + k - 7" 7] by (simp add: le_mod_geq)
    then have "\<not> 31 - (w + k) mod 7 \<le> 31 - k" using False w k(2) by linarith
    moreover have "\<not> 31 - int k - int w \<ge> 25" using False by linarith
    ultimately show ?thesis by simp
  qed
  moreover have "int d = 31 - int k" using k by simp
  ultimately show ?thesis unfolding last_sunday_def e w_def [symmetric] k_def [symmetric] using k(1) by metis
qed

lemma last_sunday_bounds: "25 \<le> last_sunday y m" "last_sunday y m \<le> 31"
  using weekday_less [of y m 31] unfolding last_sunday_def by linarith+

lemma isDST_summer:
  assumes "clock_shows y r t"
  shows "isDST r \<longleftrightarrow> summer y (unat (t_month r)) (unat (t_mday r)) (unat (t_hour r))"
proof -
  let ?m = "unat (t_month r)" and ?d = "unat (t_mday r)" and ?h = "unat (t_hour r)"
  from assms have v: "1 \<le> ?m" "?m \<le> 12" "1 \<le> ?d" "?d \<le> 31" "?h < 24" and w: "unat (t_wday r) = weekday y ?m ?d"
    using mdays_le(1) [of y ?m] by (auto simp: clock_shows_def valid_date_def)
  have w0: "t_wday r = 0 \<longleftrightarrow> weekday y ?m ?d = 0" using w by (simp add: unat_eq_zero [symmetric])
  have h2: "2 \<le> t_hour r \<longleftrightarrow> 2 \<le> ?h" by (simp add: word_le_nat_alt)
  have mm: "t_month r < 3 \<longleftrightarrow> ?m < 3" "t_month r > 10 \<longleftrightarrow> ?m > 10" "t_month r = 10 \<longleftrightarrow> ?m = 10" "t_month r = 3 \<longleftrightarrow> ?m = 3"
    by (simp_all add: word_less_nat_alt word_unat_eq_iff)
  have isd: "isDST r \<longleftrightarrow> \<not> (?m < 3 \<or> ?m > 10)
      \<and> (if last_sunday y ?m < ?d \<or> last_sunday y ?m = ?d \<and> 2 \<le> ?h then ?m \<noteq> 10 else ?m \<noteq> 3)"
    unfolding isDST_def w w0 h2 mm after_last_sunday [OF v(3,4)] by simp
  note b = last_sunday_bounds [of y 3] last_sunday_bounds [of y 10]
  consider "?m < 3" | "?m = 3" | "3 < ?m" "?m < 10" | "?m = 10" | "10 < ?m" by linarith
  then show ?thesis
  proof cases
    case 2
    then show ?thesis using v b unfolding isd summer_def date_key_def by auto
  next
    case 4
    then show ?thesis using v b unfolding isd summer_def date_key_def by auto
  qed (use v b in \<open>unfold isd summer_def date_key_def, auto\<close>)
qed

subsection \<open>Setting the clock\<close>

definition zone_hours :: "byte \<Rightarrow> int" where
  "zone_hours z = (if z > 20 then 20 - uint z else uint z)"

lemma uint_u16: "0 \<le> i \<Longrightarrow> i < 65536 \<Longrightarrow> uint (of_int i :: u16) = i"
  by (simp add: unsigned_of_int take_bit_int_eq_self)

lemma zone_time_hours:
  assumes "z \<le> 18 \<or> 21 \<le> z \<and> z \<le> 38"
  shows "zone_time z t = int t + zone_hours z * 3600"
proof (cases "z > 20")
  case True
  with assms have "20 < uint z" "uint z \<le> 38" by (auto simp: word_le_def word_less_def)
  then have "uint (of_int ((uint z - 20) * 3600) :: u16) = (uint z - 20) * 3600" by (intro uint_u16) auto
  then show ?thesis unfolding zone_time_def zone_hours_def if_P [OF True] by (simp only: left_diff_distrib)
next
  case False
  with assms have "0 \<le> uint z" "uint z \<le> 18" by (auto simp: word_le_def word_less_def)
  then have "uint (of_int (uint z * 3600) :: u16) = uint z * 3600" by (intro uint_u16) auto
  then show ?thesis unfolding zone_time_def zone_hours_def if_not_P [OF False] by (simp only:)
qed

text \<open>What the real time clock shows, as a count of seconds, and that its date is one.\<close>

definition rtc_seconds :: "rtc \<Rightarrow> nat" where
  "rtc_seconds r = day_number (2000 + unat (RTC_Year r)) (unat (RTC_Month r)) (unat (RTC_Date r)) * 86400
     + unat (RTC_Hours r) * 3600 + unat (RTC_Minutes r) * 60 + unat (RTC_Seconds r)"

definition rtc_valid :: "rtc \<Rightarrow> bool" where
  "rtc_valid r \<longleftrightarrow> valid_date (2000 + unat (RTC_Year r)) (unat (RTC_Month r)) (unat (RTC_Date r))
     \<and> unat (RTC_WeekDay r) = weekday (2000 + unat (RTC_Year r)) (unat (RTC_Month r)) (unat (RTC_Date r))
     \<and> unat (RTC_Hours r) < 24 \<and> unat (RTC_Minutes r) < 60 \<and> unat (RTC_Seconds r) < 60"

lemma set_clock_shows:
  assumes "clock_shows y r t" and "2000 \<le> y" and "y < 2256" and "t_year r = of_nat y"
  shows "rtc_valid (setTime (t_hour r) (t_min r) (t_sec r) (setDate (ucast (t_year r - 2000)) (t_month r) (t_mday r) (t_wday r) c))
     \<and> rtc_seconds (setTime (t_hour r) (t_min r) (t_sec r) (setDate (ucast (t_year r - 2000)) (t_month r) (t_mday r) (t_wday r) c)) = t"
proof -
  have "t_year r - 2000 = of_nat (y - 2000)" using assms(2,4) by (simp add: of_nat_diff)
  moreover have "unat (ucast (of_nat (y - 2000) :: u16) :: byte) = y - 2000"
    using assms(2,3) by (simp only: unsigned_of_nat unsigned_ucast_eq) (simp add: take_bit_nat_eq_self)
  ultimately have "unat (ucast (t_year r - 2000) :: byte) = y - 2000" by simp
  then have "2000 + unat (ucast (t_year r - 2000) :: byte) = y" using assms(2) by simp
  then show ?thesis using assms(1)
    by (simp add: rtc_valid_def rtc_seconds_def setTime_def setDate_def clock_shows_def)
qed

lemma days_2000: "days_of_years 2000 = 10957" and days_2100: "days_of_years 2100 = 47482"
  by (simp_all add: days_of_years_def upt_rec ydays_def leap_def)

lemma localtime_year:
  assumes "946684800 \<le> t" and "t < 4102444800"
  shows "2000 \<le> tm_year (localtime t)" "tm_year (localtime t) < 2100"
proof -
  let ?y = "tm_year (localtime t)"
  note d = localtime_date [OF refl, of t]
  note n = day_number_year [OF d(1)] and y = d(1) [unfolded valid_date_def]
  show "2000 \<le> ?y"
  proof (rule ccontr)
    assume "\<not> 2000 \<le> ?y"
    then have "days_of_years (Suc ?y) \<le> days_of_years 2000" using y by (intro days_of_years_mono) auto
    with n(2) assms(1) show False unfolding d(2) days_2000 by auto
  qed
  show "?y < 2100"
  proof (rule ccontr)
    assume "\<not> ?y < 2100"
    then have "days_of_years 2100 \<le> days_of_years ?y" by (intro days_of_years_mono) auto
    with n(1) assms(2) show False unfolding d(2) days_2100 by auto
  qed
qed

text \<open>Local standard time, and what the clock shows after it was set.\<close>

definition in_summer :: "nat \<Rightarrow> bool" where
  "in_summer t = (let i = localtime t in summer (tm_year i) (tm_mon i) (tm_mday i) (tm_hour i))"

lemma sntp_sets_clock:
  assumes "z = eeRd8 EE_TIME_ZONE (ee s)" and "z \<le> 18 \<or> 21 \<le> z \<and> z \<le> 38"
    and "int local = int t + zone_hours z * 3600" and "946684800 \<le> local" and "local < 4102444800"
  shows "\<exists>s'. sntp_set_system_time t s = Some s' \<and> rtc_valid (rtc s')
     \<and> rtc_seconds (rtc s') = local + (if eeRd8 EE_DST_STATE (ee s) = 1 \<and> in_summer local then 3600 else 0)"
proof -
  let ?i = "localtime local" and ?y = "tm_year (localtime local)"
  let ?r = "rtc_of_tm ?i"
  have zt: "zone_time (eeRd8 EE_TIME_ZONE (ee s)) t = int local"
    using zone_time_hours [OF assms(2), of t] assms(1,3) by simp
  note c = clock_shows_localtime [of local] and y = localtime_year [OF assms(4,5)]
  have yr: "t_year ?r = of_nat ?y" "t_year (r\<lparr>t_dst := x\<rparr>) = t_year r" for r x by (simp_all add: rtc_of_tm_def)
  have sm: "isDST ?r \<longleftrightarrow> in_summer local"
  proof -
    have "unat (t_month ?r) = tm_mon ?i" "unat (t_mday ?r) = tm_mday ?i" "unat (t_hour ?r) = tm_hour ?i"
      using localtime_date(1) [OF refl, of local] localtime_clock(1) [OF refl, of local] mdays_le(1) [of ?y "tm_mon ?i"]
      by (auto simp: rtc_of_tm_def unat_byte valid_date_def)
    then show ?thesis using isDST_summer [OF c] by (simp add: in_summer_def Let_def)
  qed
  have cd: "clock_shows ?y (?r\<lparr>t_dst := x\<rparr>) local" for x using c by (simp add: clock_shows_def)
  show ?thesis
  proof (cases "eeRd8 EE_DST_STATE (ee s) = 1 \<and> in_summer local")
    case True
    then have m: "3 \<le> t_month ?r" "t_month ?r \<le> 10" using sm by (auto simp: isDST_def split: if_splits)
    then have l: "unat (t_month ?r) - 1 < length DaysInMonth" by (simp add: DaysInMonth_def word_le_nat_alt)
    have a: "clock_shows ?y (add_hour (?r\<lparr>t_dst := 1\<rparr>)) (local + 3600)" "t_year (add_hour (?r\<lparr>t_dst := 1\<rparr>)) = of_nat ?y"
      using add_hour_shows [OF cd, of 1] m yr by auto
    then show ?thesis using True sm l set_clock_shows [OF a(1) _ _ a(2)] y
      by (simp add: sntp_set_system_time_def zt adjustDST_def)
  next
    case False
    then show ?thesis using sm set_clock_shows [OF cd _ _ yr(1) [THEN trans [OF yr(2)]]] set_clock_shows [OF c _ _ yr(1)] y
      by (auto simp: sntp_set_system_time_def zt adjustDST_def)
  qed
qed

end
