(* ===== verification/Crc.thy ===== *)
theory Crc
  imports Prelude
begin

section \<open>The checksum of the one wire bus (\<open>1wire.c\<close>)\<close>

text \<open>
  A DS18B20 protects its 64 bit identifier and its scratchpad with an eight bit CRC
  (polynomial \<open>x^8 + x^5 + x^4 + 1\<close>, least significant bit first). The firmware has two
  implementations: \<open>OWI_ComputeCRC8\<close> for identifiers and \<open>calc_crc\<close> for scratchpads. The
  lemmas show that they compute the same function and that a single damaged byte never passes.
\<close>

subsection \<open>Model\<close>

text \<open>The loop of \<open>OWI_ComputeCRC8\<close>, \<open>bitsLeft\<close> more times.\<close>

fun OWI_bits :: "nat \<Rightarrow> byte \<Rightarrow> byte \<Rightarrow> byte" where
  "OWI_bits 0 inData seed = seed"
| "OWI_bits (Suc bitsLeft) inData seed =
     OWI_bits bitsLeft (drop_bit 1 inData)
       (if (seed XOR inData) AND 0x01 = 0 then drop_bit 1 seed
        else drop_bit 1 (seed XOR 0x18) OR 0x80)"

definition OWI_ComputeCRC8 :: "byte \<Rightarrow> byte \<Rightarrow> byte" where
  "OWI_ComputeCRC8 inData seed = OWI_bits 8 inData seed"

definition OWI_CRC_OK :: byte where "OWI_CRC_OK = 0x00"
definition OWI_CRC_ERROR :: byte where "OWI_CRC_ERROR = 0x01"

definition OWI_CheckRomCRC :: "bytes \<Rightarrow> byte option" where
  "OWI_CheckRomCRC romValue =
     (if 8 \<le> length romValue
      then Some (if foldl (\<lambda>crc8 b. OWI_ComputeCRC8 b crc8) 0 (take 7 romValue) = romValue ! 7
                 then OWI_CRC_OK else OWI_CRC_ERROR)
      else None)"

text \<open>The inner loop of \<open>calc_crc\<close> over the bits \<open>j\<close> of one byte, and the function.\<close>

fun crc_bits :: "nat list \<Rightarrow> byte \<Rightarrow> byte \<Rightarrow> byte" where
  "crc_bits [] b shift_reg = shift_reg"
| "crc_bits (j # js) b shift_reg =
     (let data_bit = drop_bit j b AND 0x01;
          sr_lsb = shift_reg AND 0x01;
          fb_bit = (data_bit XOR sr_lsb) AND 0x01;
          shift_reg = drop_bit 1 shift_reg
      in crc_bits js b (if fb_bit \<noteq> 0 then shift_reg XOR 0x8C else shift_reg))"

definition calc_crc :: "bytes \<Rightarrow> nat \<Rightarrow> byte option" where
  "calc_crc buff num_vals =
     (if num_vals \<le> length buff
      then Some (foldl (\<lambda>sr b. crc_bits [0..<8] b sr) 0 (take num_vals buff)) else None)"

subsection \<open>One step of the shift register\<close>

definition crc_step :: "byte \<Rightarrow> byte" where
  "crc_step x = (if bit x 0 then drop_bit 1 x XOR 0x8C else drop_bit 1 x)"

lemma and_1_eq_0: "(x :: byte) AND 1 = 0 \<longleftrightarrow> \<not> bit x 0"
  by (simp add: and_one_eq odd_iff_mod_2_eq_one bit_0)

lemma crc_step_xor: "crc_step (x XOR y) = crc_step x XOR crc_step y"
  by (auto simp: crc_step_def bit_xor_iff xor.assoc xor.left_commute xor.commute drop_bit_xor)

lemma crc_step_0 [simp]: "crc_step 0 = 0"
  by (simp add: crc_step_def)

lemma bit_0x80: "bit (0x80 :: byte) n \<longleftrightarrow> n = 7"
  using bit_exp_iff [where 'a = byte, of 7 n] by auto

lemma or_0x80: "\<not> bit y 7 \<Longrightarrow> y OR 0x80 = y XOR (0x80 :: byte)"
  by (rule bit_word_eqI, simp only: bit_or_iff bit_xor_iff bit_0x80, blast)

lemma drop_shift: "(drop_bit (Suc 0) x XOR 12) OR 0x80 = drop_bit (Suc 0) x XOR (0x8C :: byte)"
proof -
  have "\<not> bit x 8" using bit_imp_le_length [of x 8] by auto
  then have "\<not> bit (drop_bit (Suc 0) x XOR 12) 7" by (simp add: bit_simps)
  then show ?thesis by (simp add: or_0x80 xor.assoc)
qed

lemma OWI_bits_step: "OWI_bits (Suc n) d s = OWI_bits n (drop_bit 1 d) (crc_step (s XOR (d AND 1)))"
proof -
  have "bit (s XOR (d AND 1)) 0 \<longleftrightarrow> \<not> (s XOR d) AND 1 = 0"
    by (simp add: and_1_eq_0 bit_simps)
  moreover have "drop_bit 1 (s XOR (d AND 1)) = drop_bit 1 s"
    unfolding drop_bit_xor by (simp add: drop_bit_and)
  ultimately show ?thesis
    by (auto simp: crc_step_def drop_shift drop_bit_xor)
qed

declare OWI_bits.simps(2) [simp del]

lemma OWI_bits_xor: "OWI_bits n (d XOR d') (s XOR s') = OWI_bits n d s XOR OWI_bits n d' s'"
proof (induction n arbitrary: d d' s s')
  case (Suc n)
  have "(s XOR s') XOR ((d XOR d') AND 1) = (s XOR (d AND 1)) XOR (s' XOR (d' AND 1))"
    by (rule bit_word_eqI) (auto simp: bit_simps)
  then show ?case by (simp only: OWI_bits_step crc_step_xor drop_bit_xor Suc.IH)
qed simp

lemma crc_step_eq_0: "crc_step x = 0 \<longleftrightarrow> x = 0"
proof
  assume a: "crc_step x = 0"
  have n8: "\<not> bit x 8" using bit_imp_le_length [of x 8] by auto
  have s: "bit (crc_step x) 7 \<longleftrightarrow> bit x 0"
    using n8 by (auto simp: crc_step_def bit_simps)
  with a have b0: "\<not> bit x 0" by simp
  with a have d: "drop_bit 1 x = 0" by (simp add: crc_step_def)
  show "x = 0"
  proof (rule bit_word_eqI)
    fix n assume "n < LENGTH(8)"
    have "bit (drop_bit 1 x) (n - 1) \<longleftrightarrow> bit x n" if "n \<noteq> 0" using that by (simp add: bit_simps)
    with d b0 show "bit x n \<longleftrightarrow> bit 0 n" by (cases "n = 0") auto
  qed
qed simp

lemma crc_step_even: "\<not> bit x 0 \<Longrightarrow> crc_step x = drop_bit 1 x"
  by (simp add: crc_step_def)

lemma byte_xor_eq_0: "x XOR y = 0 \<longleftrightarrow> x = (y :: byte)"
proof
  assume "x XOR y = 0"
  then have "(x XOR y) XOR y = 0 XOR y" by (rule arg_cong)
  then show "x = y" by (simp only: xor.assoc xor_self_eq xor.left_neutral xor.right_neutral)
qed simp

lemma byte_xor_cancel: "a XOR x = a XOR y \<longleftrightarrow> x = (y :: byte)" "x XOR a = y XOR a \<longleftrightarrow> x = y"
proof -
  show *: "a XOR x = a XOR y \<longleftrightarrow> x = y"
  proof
    assume "a XOR x = a XOR y"
    then have "a XOR (a XOR x) = a XOR (a XOR y)" by (rule arg_cong)
    then show "x = y" by (simp only: xor.assoc [symmetric] xor_self_eq xor.left_neutral)
  qed simp
  show "x XOR a = y XOR a \<longleftrightarrow> x = y" unfolding xor.commute [of _ a] by (rule *)
qed

lemma OWI_bits_eq: "OWI_bits n d s = (crc_step ^^ n) (s XOR take_bit n d)"
proof (induction n arbitrary: d s)
  case (Suc n)
  let ?r = "take_bit (Suc n) d XOR (d AND 1)"
  have "\<not> bit ?r 0" by (simp add: bit_simps)
  then have "crc_step ?r = drop_bit 1 ?r" by (rule crc_step_even)
  also have "\<dots> = take_bit n (drop_bit 1 d)"
    by (rule bit_word_eqI) (auto simp: bit_simps)
  finally have r: "crc_step ?r = take_bit n (drop_bit 1 d)" .
  have "s XOR take_bit (Suc n) d = (s XOR (d AND 1)) XOR ?r"
    by (rule bit_word_eqI) (auto simp: bit_simps)
  then have "crc_step (s XOR take_bit (Suc n) d) = crc_step ((s XOR (d AND 1)) XOR ?r)" by (rule arg_cong)
  also have "\<dots> = crc_step (s XOR (d AND 1)) XOR take_bit n (drop_bit 1 d)"
    unfolding r [symmetric] by (rule crc_step_xor)
  finally have "crc_step (s XOR take_bit (Suc n) d) = crc_step (s XOR (d AND 1)) XOR take_bit n (drop_bit 1 d)" .
  then show ?case by (simp only: OWI_bits_step Suc.IH funpow_Suc_right o_apply)
qed simp

text \<open>The table the hardware implements: one byte of data is added to the register and shifted through.\<close>

lemma OWI_ComputeCRC8_eq: "OWI_ComputeCRC8 d s = (crc_step ^^ 8) (s XOR d)"
proof -
  have "take_bit 8 d = d" using take_bit_word_eq_self [of 8 d] by simp
  then show ?thesis by (simp add: OWI_ComputeCRC8_def OWI_bits_eq)
qed

lemma crc_step_inj: "inj crc_step"
proof (rule injI)
  fix x y assume "crc_step x = crc_step y"
  then have "crc_step (x XOR y) = 0" by (simp add: crc_step_xor)
  then show "x = y" by (simp only: crc_step_eq_0 byte_xor_eq_0)
qed

lemma OWI_ComputeCRC8_inj: "OWI_ComputeCRC8 d s = OWI_ComputeCRC8 d' s' \<longleftrightarrow> s XOR d = s' XOR d'"
  unfolding OWI_ComputeCRC8_eq using inj_fn [OF crc_step_inj] by (auto dest: injD)

subsection \<open>Both implementations\<close>

lemma crc_bits_step:
  "crc_bits (j # js) b s = crc_bits js b (crc_step (s XOR (drop_bit j b AND 1)))"
proof -
  have fb: "((drop_bit j b AND 1) XOR (s AND 1)) AND 1 \<noteq> 0 \<longleftrightarrow> bit (s XOR (drop_bit j b AND 1)) 0"
    unfolding and_1_eq_0 not_not by (auto simp: bit_simps)
  have "drop_bit 1 (s XOR (drop_bit j b AND 1)) = drop_bit 1 s"
    unfolding drop_bit_xor by (simp add: drop_bit_and)
  then show ?thesis unfolding crc_bits.simps Let_def crc_step_def fb by simp
qed

lemma crc_bits_from: "crc_bits [k..<k + n] b s = OWI_bits n (drop_bit k b) s"
proof (induction n arbitrary: k s)
  case (Suc n)
  have "[k..<k + Suc n] = k # [Suc k..<Suc k + n]" by (simp add: upt_conv_Cons)
  then show ?case by (simp only: crc_bits_step OWI_bits_step Suc.IH) simp
qed simp

lemma crc_bits_byte: "crc_bits [0..<8] b s = OWI_ComputeCRC8 b s"
  using crc_bits_from [of 0 8 b s] by (simp add: OWI_ComputeCRC8_def)

definition crc8 :: "bytes \<Rightarrow> byte" where
  "crc8 bs = foldl (\<lambda>c b. OWI_ComputeCRC8 b c) 0 bs"

lemma calc_crc_eq: "num_vals \<le> length buff \<Longrightarrow> calc_crc buff num_vals = Some (crc8 (take num_vals buff))"
  by (simp add: calc_crc_def crc8_def crc_bits_byte)

lemma OWI_CheckRomCRC_eq:
  "8 \<le> length rom \<Longrightarrow> OWI_CheckRomCRC rom = Some (if crc8 (take 7 rom) = rom ! 7 then OWI_CRC_OK else OWI_CRC_ERROR)"
  by (simp add: OWI_CheckRomCRC_def crc8_def)

lemma crc8_snoc: "crc8 (bs @ [b]) = (crc_step ^^ 8) (crc8 bs XOR b)"
  by (simp add: crc8_def OWI_ComputeCRC8_eq)

lemma crc_step_funpow_0: "(crc_step ^^ n) x = 0 \<longleftrightarrow> x = 0"
  by (induction n) (simp_all add: crc_step_eq_0)

lemma crc8_residue: "crc8 (bs @ [b]) = 0 \<longleftrightarrow> crc8 bs = b"
  unfolding crc8_snoc crc_step_funpow_0 byte_xor_eq_0 ..

subsection \<open>A damaged byte does not pass\<close>

lemma foldl_crc_inj:
  "foldl (\<lambda>c b. OWI_ComputeCRC8 b c) s bs = foldl (\<lambda>c b. OWI_ComputeCRC8 b c) s' bs \<longleftrightarrow> s = s'"
proof (induction bs arbitrary: s s')
  case (Cons b bs)
  show ?case by (simp add: Cons.IH OWI_ComputeCRC8_inj byte_xor_cancel)
qed simp

lemma crc8_damaged:
  assumes "i < length bs"
  shows "crc8 (bs[i := x]) = crc8 bs \<longleftrightarrow> x = bs ! i"
proof -
  let ?c = "crc8 (take i bs)"
  have "bs = take i bs @ bs ! i # drop (Suc i) bs" using assms by (simp add: id_take_nth_drop)
  then have 1: "crc8 bs = foldl (\<lambda>c b. OWI_ComputeCRC8 b c) (OWI_ComputeCRC8 (bs ! i) ?c) (drop (Suc i) bs)"
    unfolding crc8_def by (metis (no_types, lifting) foldl_Cons foldl_append)
  have "bs[i := x] = take i bs @ x # drop (Suc i) bs" using assms by (rule upd_conv_take_nth_drop)
  then have 2: "crc8 (bs[i := x]) = foldl (\<lambda>c b. OWI_ComputeCRC8 b c) (OWI_ComputeCRC8 x ?c) (drop (Suc i) bs)"
    by (simp add: crc8_def)
  show ?thesis unfolding 1 2 foldl_crc_inj OWI_ComputeCRC8_inj byte_xor_cancel ..
qed

lemma rom_passes_iff: "length rom = 8 \<Longrightarrow> OWI_CheckRomCRC rom = Some OWI_CRC_OK \<longleftrightarrow> crc8 rom = 0"
proof -
  assume l: "length rom = 8"
  have "take (Suc 7) rom = take 7 rom @ [rom ! 7]" using l by (intro take_Suc_conv_app_nth) simp
  then have "rom = take 7 rom @ [rom ! 7]" using l by simp
  then have "crc8 rom = 0 \<longleftrightarrow> crc8 (take 7 rom) = rom ! 7" by (metis crc8_residue)
  then show ?thesis using l by (simp add: OWI_CheckRomCRC_eq OWI_CRC_OK_def OWI_CRC_ERROR_def)
qed

lemma rom_damage_detected:
  assumes "length rom = 8" and "OWI_CheckRomCRC rom = Some OWI_CRC_OK" and "i < 8" and "x \<noteq> rom ! i"
  shows "OWI_CheckRomCRC (rom[i := x]) = Some OWI_CRC_ERROR"
proof -
  have "crc8 rom = 0" using assms by (simp add: rom_passes_iff)
  then have "crc8 (rom[i := x]) \<noteq> 0" using crc8_damaged [of i rom x] assms by simp
  then have "OWI_CheckRomCRC (rom[i := x]) \<noteq> Some OWI_CRC_OK" using assms by (simp add: rom_passes_iff)
  then show ?thesis using assms(1) by (auto simp: OWI_CheckRomCRC_def split: if_splits)
qed

end
