(* ===== verification/Inputs.thy ===== *)
theory Inputs
  imports Firmware Timer
begin

section \<open>The digital input (\<open>inputs.c\<close>)\<close>

text \<open>
  \<open>ScanInputs\<close> is called from the main loop. It samples the three pins and runs the protothread of
  the first input, \<open>ptInput1NC\<close> or \<open>ptInput1NO\<close> after its type; both run on the same
  \<open>struct pt\<close>. A protothread returns where it waits and remembers the source line in \<open>lc\<close>
  (\<open>LC_SET\<close> of \<open>lc-switch.h\<close>); the next call enters the function at that line, or falls out of the
  \<open>switch\<close> and ends when the function has no such line. The lines are those of the source.

  The lemmas are about a sequence of calls with time passing in between: an alarm needs the input
  active at two calls at least 100 ms apart, an input that stays active raises it, and a bounce at
  the end of the release time leaves it raised.
\<close>

subsection \<open>Model\<close>

record indev =
  isys :: sys
  iclk :: clock
  DIN1 :: byte
  DIN2 :: byte
  DIN3 :: byte
  lc :: nat
  Input1Timer :: timer

definition input_alarm :: "byte \<Rightarrow> indev \<Rightarrow> indev" where
  "input_alarm v d =
     (let s = upd_input 0 (d_alarm_update (\<lambda>_. v)) (isys d)
      in d\<lparr>isys := s\<lparr>nv := NVRAM_Write32 NV_DELAY_IN1 (ucast v) (nv s)\<rparr>\<rparr>)"

text \<open>
  The two threads differ in the level that counts as active and in their lines. \<open>wait4\<close> is the code
  from the last \<open>PT_WAIT_UNTIL\<close> to the end, \<open>wait3\<close> that from the one before, and so on.
\<close>

definition wait4 :: "(byte \<Rightarrow> bool) \<Rightarrow> nat \<Rightarrow> indev \<Rightarrow> indev" where
  "wait4 on l4 d =
     (if timer_expired (iclk d) (Input1Timer d)
      then (if \<not> on (DIN1 d) then (input_alarm 0 d)\<lparr>lc := 0\<rparr> else d\<lparr>lc := 0\<rparr>)
      else d\<lparr>lc := l4\<rparr>)"

definition wait3 :: "(byte \<Rightarrow> bool) \<Rightarrow> nat \<Rightarrow> nat \<Rightarrow> indev \<Rightarrow> indev" where
  "wait3 on l3 l4 d =
     (if \<not> on (DIN1 d) then wait4 on l4 (d\<lparr>Input1Timer := timer_set (iclk d) 100\<rparr>) else d\<lparr>lc := l3\<rparr>)"

definition wait2 :: "(byte \<Rightarrow> bool) \<Rightarrow> nat \<Rightarrow> nat \<Rightarrow> nat \<Rightarrow> indev \<Rightarrow> indev" where
  "wait2 on l2 l3 l4 d =
     (if timer_expired (iclk d) (Input1Timer d)
      then (if on (DIN1 d) then wait3 on l3 l4 (input_alarm 1 d) else d\<lparr>lc := 0\<rparr>)
      else d\<lparr>lc := l2\<rparr>)"

definition wait1 :: "(byte \<Rightarrow> bool) \<Rightarrow> nat \<Rightarrow> nat \<Rightarrow> nat \<Rightarrow> nat \<Rightarrow> indev \<Rightarrow> indev" where
  "wait1 on l1 l2 l3 l4 d =
     (if on (DIN1 d) then wait2 on l2 l3 l4 (d\<lparr>Input1Timer := timer_set (iclk d) 100\<rparr>) else d\<lparr>lc := l1\<rparr>)"

definition pt_input :: "(byte \<Rightarrow> bool) \<Rightarrow> nat \<Rightarrow> nat \<Rightarrow> nat \<Rightarrow> nat \<Rightarrow> nat \<Rightarrow> indev \<Rightarrow> indev" where
  "pt_input on l0 l1 l2 l3 l4 d =
     (if lc d = 0 then d\<lparr>lc := l0\<rparr>
      else if lc d = l0 \<or> lc d = l1 then wait1 on l1 l2 l3 l4 d
      else if lc d = l2 then wait2 on l2 l3 l4 d
      else if lc d = l3 then wait3 on l3 l4 d
      else if lc d = l4 then wait4 on l4 d
      else d\<lparr>lc := 0\<rparr>)"

definition ptInput1NC :: "indev \<Rightarrow> indev" where
  "ptInput1NC = pt_input (\<lambda>v. v = 0) 53 54 57 66 68"

definition ptInput1NO :: "indev \<Rightarrow> indev" where
  "ptInput1NO = pt_input (\<lambda>v. v > 0) 83 84 86 95 97"

text \<open>A pin reads as 0 or 1.\<close>

definition DigitalInput :: "nat \<Rightarrow> sys \<Rightarrow> byte" where
  "DigitalInput i s = (if pins s ! i then 1 else 0)"

definition ScanInputs :: "indev \<Rightarrow> indev" where
  "ScanInputs d =
     (let d = d\<lparr>DIN1 := DigitalInput 0 (isys d), DIN2 := DigitalInput 1 (isys d), DIN3 := DigitalInput 2 (isys d)\<rparr>;
          d = d\<lparr>isys := upd_input 2 (d_state_update (\<lambda>_. DIN3 d)) (upd_input 1 (d_state_update (\<lambda>_. DIN2 d))
                  (upd_input 0 (d_state_update (\<lambda>_. DIN1 d)) (isys d)))\<rparr>;
          i = dinput (isys d) ! 0
      in if d_enable i = 1 \<and> d_type i = 2 then ptInput1NO d
         else if d_enable i = 1 \<and> d_type i = 1 then ptInput1NC d
         else d)"

subsection \<open>A sequence of calls\<close>

text \<open>A call \<open>(n, v)\<close> comes \<open>n\<close> milliseconds after the one before and finds the first pin at \<open>v\<close>.\<close>

definition scan_after :: "nat \<times> bool \<Rightarrow> indev \<Rightarrow> indev" where
  "scan_after c d = ScanInputs (d\<lparr>iclk := elapse (fst c) (iclk d), isys := (isys d)\<lparr>pins := (pins (isys d))[0 := snd c]\<rparr>\<rparr>)"

definition scans :: "(nat \<times> bool) list \<Rightarrow> indev \<Rightarrow> indev" where
  "scans cs d = foldl (\<lambda>d c. scan_after c d) d cs"

definition span :: "(nat \<times> bool) list \<Rightarrow> nat" where
  "span cs = sum_list (map fst cs)"

lemma scans_simps [simp]: "scans [] d = d" "scans (cs @ [c]) d = scan_after c (scans cs d)" "scans (c # cs) d = scans cs (scan_after c d)"
  by (simp_all add: scans_def)

lemma scans_append: "scans (as @ bs) d = scans bs (scans as d)"
  by (simp add: scans_def)

lemma span_simps [simp]: "span [] = 0" "span (c # cs) = fst c + span cs" "span (as @ bs) = span as + span bs"
  by (simp_all add: span_def)

definition alarm_on :: "indev \<Rightarrow> byte" where
  "alarm_on d = d_alarm (dinput (isys d) ! 0)"

text \<open>The first input is enabled with type \<open>t\<close>: 1 is normally closed, 2 normally open.\<close>

definition watches :: "byte \<Rightarrow> indev \<Rightarrow> bool" where
  "watches t d \<longleftrightarrow> length (dinput (isys d)) = 3 \<and> length (pins (isys d)) = 3
     \<and> d_enable (dinput (isys d) ! 0) = 1 \<and> d_type (dinput (isys d) ! 0) = t"

definition active :: "byte \<Rightarrow> bool \<Rightarrow> bool" where
  "active t v \<longleftrightarrow> (if t = 1 then \<not> v else v)"

definition in_lines :: "byte \<Rightarrow> nat \<times> nat \<times> nat \<times> nat \<times> nat" where
  "in_lines t = (if t = 1 then (53, 54, 57, 66, 68) else (83, 84, 86, 95, 97))"

lemma input_alarm_simps [simp]:
  "iclk (input_alarm v d) = iclk d" "DIN1 (input_alarm v d) = DIN1 d" "lc (input_alarm v d) = lc d"
  "Input1Timer (input_alarm v d) = Input1Timer d" "pins (isys (input_alarm v d)) = pins (isys d)"
  "length (nv (isys (input_alarm v d))) = length (nv (isys d))"
  by (simp_all add: input_alarm_def Let_def upd_input_def)

lemma input_alarm_dinput:
  assumes "length (dinput (isys d)) = 3"
  shows "alarm_on (input_alarm v d) = v" "length (dinput (isys (input_alarm v d))) = 3"
    "d_enable (dinput (isys (input_alarm v d)) ! 0) = d_enable (dinput (isys d) ! 0)"
    "d_type (dinput (isys (input_alarm v d)) ! 0) = d_type (dinput (isys d) ! 0)"
  using assms by (simp_all add: input_alarm_def Let_def upd_input_def alarm_on_def)

subsection \<open>The debouncer\<close>

text \<open>
  What the thread promises: \<open>(p, a, m)\<close> is the place where it waits, the alarm, and the milliseconds
  since the timer was armed.
\<close>

fun debounce :: "nat \<Rightarrow> bool \<Rightarrow> nat \<times> byte \<times> nat \<Rightarrow> nat \<times> byte \<times> nat" where
  "debounce n v (p, a, m) =
     (if p = 1 then (if v then (2, a, 0) else (1, a, 0))
      else if p = 2 then (if 100 \<le> m + n then (if v then (3, 1, 0) else (0, a, 0)) else (2, a, m + n))
      else if p = 3 then (if v then (3, a, 0) else (4, a, 0))
      else if p = 4 then (if 100 \<le> m + n then (if v then (0, a, 0) else (0, 0, 0)) else (4, a, m + n))
      else (1, a, 0))"

declare debounce.simps [simp del]

definition place :: "byte \<Rightarrow> nat \<Rightarrow> nat" where
  "place t l = (if t = 1
     then (if l = 53 \<or> l = 54 then 1 else if l = 57 then 2 else if l = 66 then 3 else if l = 68 then 4 else 0)
     else (if l = 83 \<or> l = 84 then 1 else if l = 86 then 2 else if l = 95 then 3 else if l = 97 then 4 else 0))"

definition armed :: "nat \<Rightarrow> indev \<Rightarrow> bool" where
  "armed m d \<longleftrightarrow> (\<exists>c. Input1Timer d = timer_set c 100 \<and> iclk d = elapse m c)"

definition simulates :: "byte \<Rightarrow> indev \<Rightarrow> nat \<times> byte \<times> nat \<Rightarrow> bool" where
  "simulates t d s \<longleftrightarrow> (case s of (p, a, m) \<Rightarrow>
     watches t d \<and> place t (lc d) = p \<and> (p = 0 \<longrightarrow> lc d = 0) \<and> alarm_on d = a \<and> m < 2 ^ 31
     \<and> (p = 2 \<or> p = 4 \<longrightarrow> armed m d))"

text \<open>The state in which a call runs its thread.\<close>

definition sampled :: "nat \<times> bool \<Rightarrow> indev \<Rightarrow> indev" where
  "sampled c d =
     (let d = d\<lparr>iclk := elapse (fst c) (iclk d), isys := (isys d)\<lparr>pins := (pins (isys d))[0 := snd c]\<rparr>\<rparr>;
          d = d\<lparr>DIN1 := DigitalInput 0 (isys d), DIN2 := DigitalInput 1 (isys d), DIN3 := DigitalInput 2 (isys d)\<rparr>
      in d\<lparr>isys := upd_input 2 (d_state_update (\<lambda>_. DIN3 d)) (upd_input 1 (d_state_update (\<lambda>_. DIN2 d))
           (upd_input 0 (d_state_update (\<lambda>_. DIN1 d)) (isys d)))\<rparr>)"

lemma scan_after_sampled:
  "scan_after c d =
     (let d = sampled c d; i = dinput (isys d) ! 0
      in if d_enable i = 1 \<and> d_type i = 2 then ptInput1NO d
         else if d_enable i = 1 \<and> d_type i = 1 then ptInput1NC d else d)"
  unfolding scan_after_def ScanInputs_def sampled_def by (simp only: Let_def)

lemma sampled_simps [simp]:
  "lc (sampled c d) = lc d" "Input1Timer (sampled c d) = Input1Timer d" "iclk (sampled c d) = elapse (fst c) (iclk d)"
  "nv (isys (sampled c d)) = nv (isys d)"
  by (simp_all add: sampled_def Let_def upd_input_def)

lemma sampled_watches:
  assumes "watches t d"
  shows "watches t (sampled c d)" "alarm_on (sampled c d) = alarm_on d" "DIN1 (sampled c d) = (if snd c then 1 else 0)"
proof -
  have l: "length (dinput (isys d)) = 3" "length (pins (isys d)) = 3" using assms by (simp_all add: watches_def)
  show "watches t (sampled c d)" "alarm_on (sampled c d) = alarm_on d" "DIN1 (sampled c d) = (if snd c then 1 else 0)"
    using assms l by (simp_all add: sampled_def Let_def upd_input_def watches_def alarm_on_def DigitalInput_def)
qed

lemma due_after:
  assumes "m + n < 2 ^ 31"
  shows "timer_expired (elapse n (elapse m c)) (timer_set c 100) \<longleftrightarrow> 100 \<le> m + n"
  using tmr.due_iff [of 100 "n + m" c] assms unfolding elapse_add [symmetric] by (simp add: add.commute)

lemma not_due_now: "\<not> timer_expired c (timer_set c 100)"
  using tmr.due_iff [of 100 0 c] by simp

lemma armed_simps [simp]: "armed m (d\<lparr>lc := l\<rparr>) = armed m d" "armed 0 (d\<lparr>Input1Timer := timer_set (iclk d) 100\<rparr>)"
  by (auto simp: armed_def intro: exI [of _ "iclk d"])

lemma armed_due: "armed m d \<Longrightarrow> m < 2 ^ 31 \<Longrightarrow> timer_expired (iclk d) (Input1Timer d) \<longleftrightarrow> 100 \<le> m"
  using due_after [of m 0] by (auto simp: armed_def)

lemma sampled_armed: "armed m d \<Longrightarrow> armed (m + fst c) (sampled c d)"
  unfolding armed_def sampled_simps by (metis add.commute elapse_add)

lemma watches_lc [simp]: "watches t (d\<lparr>lc := l\<rparr>) = watches t d" "watches t (d\<lparr>Input1Timer := x\<rparr>) = watches t d"
  "alarm_on (d\<lparr>lc := l\<rparr>) = alarm_on d" "alarm_on (d\<lparr>Input1Timer := x\<rparr>) = alarm_on d"
  by (simp_all add: watches_def alarm_on_def)

lemma watches_alarm: "watches t d \<Longrightarrow> watches t (input_alarm v d) \<and> alarm_on (input_alarm v d) = v"
  using input_alarm_dinput [of d v] by (simp add: watches_def)

text \<open>One thread, with its five lines.\<close>

lemma pt_input_debounces:
  assumes lines: "\<And>l. place t l = (if l = l0 \<or> l = l1 then 1 else if l = l2 then 2 else if l = l3 then 3 else if l = l4 then 4 else 0)"
    and distinct: "distinct [0, l0, l1, l2, l3, l4]"
    and w: "watches t d" and p: "place t (lc d) = p" "p = 0 \<longrightarrow> lc d = 0" and b: "m + n < 2 ^ 31"
    and tm: "p = 2 \<or> p = 4 \<longrightarrow> armed (m + n) d"
  shows "simulates t (pt_input on l0 l1 l2 l3 l4 d) (debounce n (on (DIN1 d)) (p, alarm_on d, m))"
proof -
  have ne: "l0 \<noteq> 0" "l1 \<noteq> 0" "l2 \<noteq> 0" "l3 \<noteq> 0" "l4 \<noteq> 0" "l2 \<noteq> l0" "l2 \<noteq> l1" "l3 \<noteq> l0" "l3 \<noteq> l1" "l3 \<noteq> l2"
    "l4 \<noteq> l0" "l4 \<noteq> l1" "l4 \<noteq> l2" "l4 \<noteq> l3" using distinct by auto
  have due: "timer_expired (iclk d) (Input1Timer d) \<longleftrightarrow> 100 \<le> m + n" if "p = 2 \<or> p = 4"
    using that tm b by (auto simp: armed_due)
  have pl: "place t l0 = 1" "place t l1 = 1" "place t l2 = 2" "place t l3 = 3" "place t l4 = 4" "place t 0 = 0"
    unfolding lines using ne by presburger+
  note wa = watches_alarm [OF w]
  consider "p = 0" "lc d = 0" | "p = 1" "lc d = l0 \<or> lc d = l1" "lc d \<noteq> 0" | "p = 2" "lc d = l2"
    | "p = 3" "lc d = l3" | "p = 4" "lc d = l4"
    using p ne unfolding lines by (auto split: if_splits)
  then show ?thesis
  proof cases
    case 1
    then show ?thesis using w by (simp add: pt_input_def simulates_def pl debounce.simps)
  next
    case 2
    then have "pt_input on l0 l1 l2 l3 l4 d = wait1 on l1 l2 l3 l4 d" by (auto simp: pt_input_def)
    then show ?thesis using 2(1) w
      by (cases "on (DIN1 d)") (simp_all add: wait1_def wait2_def not_due_now simulates_def pl debounce.simps)
  next
    case 3
    then have "pt_input on l0 l1 l2 l3 l4 d = wait2 on l2 l3 l4 d" using ne by (simp add: pt_input_def)
    then show ?thesis using 3(1) w wa b tm due
      by (cases "100 \<le> m + n"; cases "on (DIN1 d)") (simp_all add: wait2_def wait3_def simulates_def pl debounce.simps)
  next
    case 4
    then have "pt_input on l0 l1 l2 l3 l4 d = wait3 on l3 l4 d" using ne by (simp add: pt_input_def)
    then show ?thesis using 4(1) w
      by (cases "on (DIN1 d)") (simp_all add: wait3_def wait4_def not_due_now simulates_def pl debounce.simps)
  next
    case 5
    then have "pt_input on l0 l1 l2 l3 l4 d = wait4 on l4 d" using ne by (simp add: pt_input_def)
    then show ?thesis using 5(1) w wa b tm due
      by (cases "100 \<le> m + n"; cases "on (DIN1 d)") (simp_all add: wait4_def simulates_def pl debounce.simps)
  qed
qed

lemma scan_after_debounces:
  assumes s: "simulates t d (p, a, m)" and t: "t = 1 \<or> t = 2" and b: "m + fst c < 2 ^ 31"
  shows "simulates t (scan_after c d) (debounce (fst c) (active t (snd c)) (p, a, m))"
proof -
  from s have w: "watches t d" and p: "place t (lc d) = p" "p = 0 \<longrightarrow> lc d = 0" and a: "alarm_on d = a"
    and tm: "p = 2 \<or> p = 4 \<longrightarrow> armed m d"
    by (auto simp: simulates_def)
  note sw = sampled_watches [OF w, of c]
  have tm': "p = 2 \<or> p = 4 \<longrightarrow> armed (m + fst c) (sampled c d)" using tm sampled_armed by blast
  have p': "place t (lc (sampled c d)) = p" "p = 0 \<longrightarrow> lc (sampled c d) = 0" using p by simp_all
  have call: "scan_after c d = (if t = 1 then ptInput1NC (sampled c d) else ptInput1NO (sampled c d))"
    using sw(1) t unfolding scan_after_sampled Let_def watches_def by auto
  have nc: "simulates t (ptInput1NC (sampled c d)) (debounce (fst c) (active t (snd c)) (p, a, m))" if "t = 1"
    using pt_input_debounces [OF _ _ sw(1) p' b tm', of 53 54 57 66 68 "\<lambda>v. v = 0"] that
    by (simp add: ptInput1NC_def place_def active_def sw(2,3) a del: debounce.simps split: if_splits)
  have no: "simulates t (ptInput1NO (sampled c d)) (debounce (fst c) (active t (snd c)) (p, a, m))" if "t = 2"
    using pt_input_debounces [OF _ _ sw(1) p' b tm', of 83 84 86 95 97 "\<lambda>v. v > 0"] that
    by (simp add: ptInput1NO_def place_def active_def sw(2,3) a del: debounce.simps split: if_splits)
  show ?thesis
  proof (cases "t = 1")
    case True
    then show ?thesis using nc call by simp
  next
    case False
    then show ?thesis using no call t by simp
  qed
qed

subsection \<open>Runs\<close>

definition debounces :: "byte \<Rightarrow> (nat \<times> bool) list \<Rightarrow> nat \<times> byte \<times> nat \<Rightarrow> nat \<times> byte \<times> nat" where
  "debounces t cs s = foldl (\<lambda>s c. debounce (fst c) (active t (snd c)) s) s cs"

lemma debounces_simps [simp]: "debounces t [] s = s"
  "debounces t (c # cs) s = debounces t cs (debounce (fst c) (active t (snd c)) s)"
  "debounces t (cs @ [c]) s = debounce (fst c) (active t (snd c)) (debounces t cs s)"
  by (simp_all add: debounces_def)

lemma debounce_time: "debounce n v (p, a, m) = (p', a', m') \<Longrightarrow> m' \<le> m + n"
  by (auto simp: debounce.simps split: if_splits)

lemma scans_debounces:
  assumes "simulates t d (p, a, m)" and "t = 1 \<or> t = 2" and "m + span cs < 2 ^ 31"
  shows "simulates t (scans cs d) (debounces t cs (p, a, m))"
  using assms
proof (induction cs arbitrary: d p a m)
  case (Cons c cs)
  obtain p' a' m' where e: "debounce (fst c) (active t (snd c)) (p, a, m) = (p', a', m')" by (metis prod_cases3)
  have s: "simulates t (scan_after c d) (p', a', m')"
    using scan_after_debounces [OF Cons.prems(1,2), of c] Cons.prems(3) unfolding e by simp
  have "m' + span cs < 2 ^ 31" using debounce_time [OF e] Cons.prems(3) by simp
  from Cons.IH [OF s Cons.prems(2) this] show ?case by (simp add: e)
qed simp

lemma idle_simulates: "watches t d \<Longrightarrow> lc d = 0 \<Longrightarrow> t = 1 \<or> t = 2 \<Longrightarrow> simulates t d (0, alarm_on d, 0)"
  by (auto simp: simulates_def place_def)

lemma alarm_of_run:
  assumes "watches t d" and "lc d = 0" and "t = 1 \<or> t = 2" and "span cs < 2 ^ 31"
  shows "alarm_on (scans cs d) = fst (snd (debounces t cs (0, alarm_on d, 0)))"
  using scans_debounces [OF idle_simulates [OF assms(1-3)] assms(3), of cs] assms(4)
  by (cases "debounces t cs (0, alarm_on d, 0)") (auto simp: simulates_def)

text \<open>Two calls at least 100 ms apart that both saw the input active.\<close>

definition confirmed :: "byte \<Rightarrow> (nat \<times> bool) list \<Rightarrow> bool" where
  "confirmed t cs \<longleftrightarrow> (\<exists>as x bs y es. cs = as @ x # bs @ y # es \<and> active t (snd x) \<and> active t (snd y) \<and> 100 \<le> span (bs @ [y]))"

lemma confirmed_snoc: "confirmed t cs \<Longrightarrow> confirmed t (cs @ [c])"
  unfolding confirmed_def by (metis append.assoc append_Cons)

lemma debounces_confirmed:
  assumes "debounces t cs (0, 0, 0) = (p, a, m)"
  shows "(p = 2 \<longrightarrow> (\<exists>as x bs. cs = as @ x # bs \<and> active t (snd x) \<and> m = span bs)) \<and> (a \<noteq> 0 \<longrightarrow> confirmed t cs)
     \<and> (p = 3 \<longrightarrow> confirmed t cs)"
  using assms
proof (induction cs arbitrary: p a m rule: rev_induct)
  case (snoc c cs)
  obtain p0 a0 m0 where e: "debounces t cs (0, 0, 0) = (p0, a0, m0)" by (metis prod_cases3)
  note IH = snoc.IH [OF e]
  have step: "debounce (fst c) (active t (snd c)) (p0, a0, m0) = (p, a, m)" using snoc.prems e by simp
  have keep: "a0 \<noteq> 0 \<Longrightarrow> confirmed t (cs @ [c])" using IH confirmed_snoc by blast
  show ?case
  proof (cases "p0 = 2 \<and> 100 \<le> m0 + fst c \<and> active t (snd c)")
    case True
    with IH obtain as x bs where "cs = as @ x # bs" "active t (snd x)" "m0 = span bs" by blast
    with True have "confirmed t (cs @ [c])"
      unfolding confirmed_def by (intro exI [of _ as] exI [of _ x] exI [of _ bs] exI [of _ c] exI [of _ "[]"]) simp
    with True step show ?thesis by (simp add: debounce.simps)
  next
    case False
    have "p = 2 \<Longrightarrow> \<exists>as x bs. cs @ [c] = as @ x # bs \<and> active t (snd x) \<and> m = span bs"
    proof -
      assume p2: "p = 2"
      consider "p0 = 1" "active t (snd c)" "m = 0" | "p0 = 2" "m = m0 + fst c"
        using step p2 by (auto simp: debounce.simps split: if_splits)
      then show ?thesis
      proof cases
        case 1
        then show ?thesis by (intro exI [of _ cs] exI [of _ c] exI [of _ "[]"]) simp
      next
        case 2
        with IH obtain as x bs where "cs = as @ x # bs" "active t (snd x)" "m0 = span bs" by blast
        with 2 show ?thesis by (intro exI [of _ as] exI [of _ x] exI [of _ "bs @ [c]"]) simp
      qed
    qed
    moreover have "a = a0 \<or> a = 0" "p = 3 \<Longrightarrow> p0 = 3"
      using False step by (auto simp: debounce.simps split: if_splits)
    ultimately show ?thesis using keep IH confirmed_snoc by blast
  qed
qed simp

lemma alarm_confirmed:
  assumes "watches t d" and "lc d = 0" and "t = 1 \<or> t = 2" and "span cs < 2 ^ 31"
    and "alarm_on d = 0" and "alarm_on (scans cs d) \<noteq> 0"
  shows "confirmed t cs"
  using debounces_confirmed [of t cs] alarm_of_run [OF assms(1-4)] assms(5,6)
  by (cases "debounces t cs (0, 0, 0)") auto

lemma debounces_hold:
  "\<forall>c \<in> set cs. active t (snd c) \<Longrightarrow> debounces t cs (3, a, 0) = (3, a, 0)"
  "\<forall>c \<in> set cs. active t (snd c) \<Longrightarrow> cs \<noteq> [] \<Longrightarrow> 100 \<le> m + span cs \<Longrightarrow> debounces t cs (2, a, m) = (3, 1, 0)"
proof -
  show hold: "\<forall>c \<in> set cs. active t (snd c) \<Longrightarrow> debounces t cs (3, a, 0) = (3, a, 0)" for cs and a :: byte
    by (induction cs) (simp_all add: debounce.simps)
  show "\<forall>c \<in> set cs. active t (snd c) \<Longrightarrow> cs \<noteq> [] \<Longrightarrow> 100 \<le> m + span cs \<Longrightarrow> debounces t cs (2, a, m) = (3, 1, 0)"
  proof (induction cs arbitrary: m)
    case (Cons c cs)
    show ?case
    proof (cases "100 \<le> m + fst c")
      case True
      then show ?thesis using Cons.prems hold [of cs] by (simp add: debounce.simps)
    next
      case False
      then have "cs \<noteq> []" using Cons.prems(3) by auto
      then show ?thesis using Cons.IH [of "m + fst c"] Cons.prems False by (simp add: debounce.simps)
    qed
  qed simp
qed

lemma held_raises:
  assumes "watches t d" and "lc d = 0" and "t = 1 \<or> t = 2" and "span (c1 # c2 # cs) < 2 ^ 31"
    and "\<forall>c \<in> set (c2 # cs). active t (snd c)" and "100 \<le> span cs"
  shows "alarm_on (scans (c1 # c2 # cs) d) = 1"
proof -
  have "cs \<noteq> []" using assms(6) by auto
  then have "debounces t cs (2, alarm_on d, 0) = (3, 1, 0)" using assms(5,6) by (intro debounces_hold(2)) auto
  then have "debounces t (c1 # c2 # cs) (0, alarm_on d, 0) = (3, 1, 0)"
    using assms(5) by (simp add: debounce.simps)
  then show ?thesis by (simp only: alarm_of_run [OF assms(1-4)]) simp
qed

lemma debounces_idle: "\<forall>c \<in> set cs. \<not> active t (snd c) \<Longrightarrow> fst (snd (debounces t cs (1, a, 0))) = a"
  by (induction cs) (simp_all add: debounce.simps)

lemma bounce_latches:
  assumes "watches t d" and "lc d = 0" and "t = 1 \<or> t = 2"
    and "span ([(n1, x), (n2, on), (n3, on), (n4, off), (n5, on)] @ cs) < 2 ^ 31"
    and "active t on" and "\<not> active t off" and "100 \<le> n3" and "100 \<le> n5" and "\<forall>c \<in> set cs. \<not> active t (snd c)"
  shows "alarm_on (scans ([(n1, x), (n2, on), (n3, on), (n4, off), (n5, on)] @ cs) d) = 1"
proof -
  have "debounces t ([(n1, x), (n2, on), (n3, on), (n4, off), (n5, on)] @ cs) (0, alarm_on d, 0) = debounces t cs (0, 1, 0)"
    using assms(5-8) by (simp add: debounce.simps)
  moreover have "fst (snd (debounces t cs (0, 1, 0))) = 1"
    using assms(9) debounces_idle [of "tl cs" t 1] by (cases cs) (auto simp: debounce.simps)
  ultimately show ?thesis by (simp only: alarm_of_run [OF assms(1-4)])
qed

end
