(* ===== verification/Url.thy ===== *)
theory Url
  imports Firmware Sys_Text
begin

section \<open>Percent encoding (\<open>urlencode.c\<close>, \<open>WhatsApp.c\<close>)\<close>

text \<open>
  The messages that leave the device through a web gateway are percent encoded, in two ways:
  \<open>rfc1738_escape\<close> for the SMS gateway, \<open>url_encode\<close> for WhatsApp. Both are shown to be undone by
  \<open>rfc1738_unescape\<close>, which works in place with a reading and a writing index. The buffer bound of
  \<open>rfc1738_escape\<close> is tested before a character is written, which may take three bytes.
\<close>

subsection \<open>Model\<close>

text \<open>The digits of \<open>"%02x"\<close> and the value \<open>sscanf\<close> gives them.\<close>

definition hexc :: "byte \<Rightarrow> byte" where
  "hexc n = (if n < 10 then 48 + n else 87 + n)"

definition hexv :: "byte \<Rightarrow> byte" where
  "hexv c = (if isdigit c then c - 48 else if 97 \<le> c then c - 87 else c - 55)"

definition rfc1738_unsafe_chars :: bytes where
  "rfc1738_unsafe_chars = [0x3C, 0x3E, 0x22, 0x23, 0x25, 0x7B, 0x7D, 0x7C, 0x5C, 0x5E, 0x7E, 0x5B, 0x5D, 0x60, 0x27, 0x20]"

definition do_escape :: "byte \<Rightarrow> bool" where
  "do_escape c \<longleftrightarrow> c \<in> set rfc1738_unsafe_chars \<or> c \<le> 0x1F \<or> c = 0x7F \<or> (c \<ge> 0x80 \<and> c \<le> 0xFF)"

definition percent :: "byte \<Rightarrow> bytes" where
  "percent c = [asc CHR ''%'', hexc (drop_bit 4 c), hexc (c AND 15)]"

text \<open>
  \<open>escbuf\<close> is the memory from the pointer on, \<open>q\<close> the index of \<open>*q\<close> in it; \<open>sprintf\<close> also writes
  its closing NUL.
\<close>

fun escape_loop :: "bytes \<Rightarrow> nat \<Rightarrow> nat \<Rightarrow> bytes \<Rightarrow> bytes option" where
  "escape_loop [] q sz escbuf = None"
| "escape_loop (c # p) q sz escbuf =
     (if c \<noteq> 0 \<and> q + 1 < sz
      then (if do_escape c
            then do { escbuf \<leftarrow> poke q (percent c @ [0]) escbuf; escape_loop p (q + 3) sz escbuf }
            else do { escbuf \<leftarrow> poke q [c] escbuf; escape_loop p (q + 1) sz escbuf })
      else poke q [0] escbuf)"

definition rfc1738_escape :: "bytes \<Rightarrow> bytes \<Rightarrow> nat \<Rightarrow> bytes option" where
  "rfc1738_escape url escbuf escbuf_size = escape_loop url 0 escbuf_size escbuf"

text \<open>\<open>i\<close> is the writing, \<open>j\<close> the reading index.\<close>

function unescape_loop :: "nat \<Rightarrow> nat \<Rightarrow> bytes \<Rightarrow> bytes option" where
  "unescape_loop i j s =
     (if j < length s
      then (if s ! j = 0 then poke i [0] s
            else (let s = s[i := s ! j]
                  in if s ! i = asc CHR ''%'' \<and> j + 2 < length s \<and> s ! (j + 1) \<noteq> 0 \<and> s ! (j + 2) \<noteq> 0
                       \<and> isxdigit (s ! (j + 1)) \<and> isxdigit (s ! (j + 2))
                     then unescape_loop (i + 1) (j + 3) (s[i := hexv (s ! (j + 1)) * 16 + hexv (s ! (j + 2))])
                     else if s ! i = asc CHR ''%'' \<and> (j + 1 \<ge> length s \<or> (s ! (j + 1) \<noteq> 0 \<and> j + 2 \<ge> length s)) then None
                     else unescape_loop (i + 1) (j + 1) s))
      else None)"
  by auto
termination by (relation "measure (\<lambda>(i, j, s). length s - j)") auto

declare unescape_loop.simps [simp del]

definition rfc1738_unescape :: "bytes \<Rightarrow> bytes option" where
  "rfc1738_unescape s = unescape_loop 0 0 s"

definition url_char :: "byte \<Rightarrow> bool" where
  "url_char c \<longleftrightarrow> isalnum c \<or> c = asc CHR ''-'' \<or> c = asc CHR ''_'' \<or> c = asc CHR ''.'' \<or> c = asc CHR ''~''"

text \<open>\<open>url_encode\<close> writes to a static array of 1024 bytes.\<close>

fun encode_loop :: "bytes \<Rightarrow> bytes \<Rightarrow> bytes option" where
  "encode_loop [] p = None"
| "encode_loop (c # s) p =
     (if c = 0 then (if length p < 1024 then Some p else None)
      else if url_char c then (if length p < 1024 then encode_loop s (p @ [c]) else None)
      else if length p + 3 \<le> 1024 then encode_loop s (p @ percent c) else None)"

definition url_encode :: "bytes \<Rightarrow> bytes option" where
  "url_encode s = encode_loop s []"

text \<open>
  The request of \<open>send_whatsapp_message\<close>: number and key come from the EEPROM into arrays of 34
  bytes, of which 32 are read; the contents of the other two are given. \<open>sprintf\<close> writes to
  \<open>URL[200]\<close>.
\<close>

definition whatsapp_url :: "nat \<Rightarrow> bytes \<Rightarrow> bytes \<Rightarrow> bytes \<Rightarrow> bytes \<Rightarrow> bytes option" where
  "whatsapp_url snum wappMessage numtail keytail m = do {
     n \<leftarrow> c_str (eeRd (EE_WAPP_START + (snum - 1) * 0x80) 32 m @ numtail);
     k \<leftarrow> c_str (eeRd (EE_WAPP_START + (snum - 1) * 0x80 + 0x20) 32 m @ keytail);
     t \<leftarrow> url_encode wappMessage;
     let u = str ''/whatsapp.php?phone='' @ n @ str ''&text='' @ t @ str ''&apikey='' @ k;
     (if length u < 200 then Some u else None) }"

subsection \<open>The encoded text\<close>

definition esc :: "(byte \<Rightarrow> bool) \<Rightarrow> bytes \<Rightarrow> bytes" where
  "esc f url = concat (map (\<lambda>c. if f c then percent c else [c]) url)"

lemma esc_simps [simp]: "esc f [] = []" "esc f (c # cs) = (if f c then percent c else [c]) @ esc f cs"
  by (simp_all add: esc_def)

lemma length_percent [simp]: "length (percent c) = 3"
  by (simp add: percent_def)

lemma length_esc: "length (esc f url) \<le> 3 * length url"
  by (induction url) auto

lemma drop_4_less: "drop_bit 4 c < (16 :: byte)"
proof -
  have "unat (drop_bit 4 c) = unat c div 16" by (simp only: unat_drop_bit_eq) (simp add: drop_bit_eq_div)
  moreover have "unat c div 16 < 16" using unat_byte_less [of c] by (intro less_mult_imp_div_less) simp
  ultimately have "unat (drop_bit 4 c) < 16" by simp
  then show ?thesis by (simp add: word_less_nat_alt)
qed

lemma hexc_props: "n < 16 \<Longrightarrow> isxdigit (hexc n) \<and> hexv (hexc n) = n \<and> hexc n \<noteq> 0 \<and> \<not> do_escape (hexc n) \<and> isalnum (hexc n)"
  by (rule nibble_all [where P = "\<lambda>n. isxdigit (hexc n) \<and> hexv (hexc n) = n \<and> hexc n \<noteq> 0 \<and> \<not> do_escape (hexc n) \<and> isalnum (hexc n)"])
     (simp_all add: hexc_def hexv_def char_class_defs do_escape_def rfc1738_unsafe_chars_def)

lemma drop_4_nibble: "drop_bit 4 c AND 15 = drop_bit 4 (c :: byte)"
proof -
  have "take_bit 4 (drop_bit 4 c) = drop_bit 4 c"
    using drop_4_less [of c] by (simp add: take_bit_eq_mod word_unat_eq_iff unat_mod word_less_nat_alt)
  then show ?thesis by (simp add: take_bit_eq_mask mask_eq_exp_minus_1 and.commute)
qed

lemma percent_value: "hexv (hexc (drop_bit 4 c)) * 16 + hexv (hexc (c AND 15)) = c"
proof -
  have "hexv (hexc (drop_bit 4 c)) = drop_bit 4 c" "hexv (hexc (c AND 15)) = c AND 15"
    using hexc_props drop_4_less nibble_bounds(1) by auto
  moreover have "drop_bit 4 c * 16 = push_bit 4 (drop_bit 4 c)" by (simp add: push_bit_eq_mult)
  ultimately show ?thesis using nibbles_join [of c] by (simp add: drop_4_nibble)
qed

subsection \<open>Encoding and decoding\<close>

lemma escape_loop_result:
  assumes "0 \<notin> set url" and "length pre + length (esc do_escape url) + 1 < sz \<or> url = []"
    and "length pre + length (esc do_escape url) < length (pre @ post)"
  shows "escape_loop (url @ 0 # r) (length pre) sz (pre @ post)
       = Some (pre @ esc do_escape url @ 0 # drop (length (esc do_escape url) + 1) post)"
  using assms
proof (induction url arbitrary: pre post)
  case Nil
  then show ?case by (cases post) (auto simp: poke_def)
next
  case (Cons c url)
  let ?w = "if do_escape c then percent c else [c]"
  have q: "length pre + 1 < sz" using Cons.prems by auto
  show ?case
  proof (cases "do_escape c")
    case True
    with Cons.prems have l: "4 \<le> length post" by simp
    then have "poke (length pre) (percent c @ [0]) (pre @ post) = Some ((pre @ percent c) @ 0 # drop 4 post)"
      by (simp add: poke_def)
    moreover have "escape_loop (url @ 0 # r) (length (pre @ percent c)) sz ((pre @ percent c) @ 0 # drop 4 post)
        = Some ((pre @ percent c) @ esc do_escape url @ 0 # drop (length (esc do_escape url) + 1) (0 # drop 4 post))"
      using Cons.prems True l by (intro Cons.IH) auto
    ultimately show ?thesis using Cons.prems True q by (simp add: add.commute)
  next
    case False
    with Cons.prems have l: "1 \<le> length post" by (cases post) auto
    then have "poke (length pre) [c] (pre @ post) = Some ((pre @ [c]) @ drop 1 post)"
      by (simp add: poke_def)
    moreover have "escape_loop (url @ 0 # r) (length (pre @ [c])) sz ((pre @ [c]) @ drop 1 post)
        = Some ((pre @ [c]) @ esc do_escape url @ 0 # drop (length (esc do_escape url) + 1) (drop 1 post))"
      using Cons.prems False l by (intro Cons.IH) auto
    ultimately show ?thesis using Cons.prems False q by simp
  qed
qed

lemma rfc1738_escape_result:
  assumes "0 \<notin> set url" and "length (esc do_escape url) + 1 < sz" and "length (esc do_escape url) < length buf"
  shows "rfc1738_escape (url @ 0 # r) buf sz = Some (esc do_escape url @ 0 # drop (length (esc do_escape url) + 1) buf)"
  using escape_loop_result [of url "[]" sz buf r] assms by (simp add: rfc1738_escape_def)

lemma unescape_copy:
  assumes "c \<noteq> 0" "c \<noteq> asc CHR ''%''"
  shows "unescape_loop (length out) (length out + length mid) (out @ mid @ c # rst)
       = unescape_loop (length (out @ [c])) (length (out @ [c]) + length (tl (mid @ [c]))) ((out @ [c]) @ tl (mid @ [c]) @ rst)"
proof -
  have "(out @ mid @ c # rst)[length out := c] = (out @ [c]) @ tl (mid @ [c]) @ rst"
    by (cases mid) (simp_all add: list_update_append)
  moreover have "(out @ mid @ c # rst) ! (length out + length mid) = c" by (simp add: nth_append)
  moreover have "((out @ [c]) @ tl (mid @ [c]) @ rst) ! length out = c" by (simp add: nth_append)
  ultimately show ?thesis using assms
    by (subst unescape_loop.simps) (simp add: Let_def del: append_assoc)
qed

lemma unescape_percent:
  assumes "c \<noteq> 0"
  shows "unescape_loop (length out) (length out + length mid) (out @ mid @ percent c @ rst)
       = unescape_loop (length (out @ [c])) (length (out @ [c]) + length (tl (mid @ percent c)))
           ((out @ [c]) @ tl (mid @ percent c) @ rst)"
proof -
  let ?p = "asc CHR ''%''" and ?a = "hexc (drop_bit 4 c)" and ?b = "hexc (c AND 15)"
  let ?s = "out @ mid @ percent c @ rst" and ?j = "length out + length mid"
  let ?t = "(out @ [?p]) @ tl (mid @ percent c) @ rst"
  have ab: "isxdigit ?a" "isxdigit ?b" "?a \<noteq> 0" "?b \<noteq> 0"
    using hexc_props drop_4_less nibble_bounds(1) by auto
  have up: "?s[length out := x] = (out @ [x]) @ tl (mid @ percent c) @ rst" for x
    by (cases mid) (simp_all add: list_update_append percent_def)
  have upt: "?t[length out := x] = (out @ [x]) @ tl (mid @ percent c) @ rst" for x
    by (simp add: list_update_append)
  have s: "?s ! ?j = ?p" by (simp add: nth_append percent_def)
  have t: "?t ! length out = ?p" "?t ! (?j + 1) = ?a" "?t ! (?j + 2) = ?b" "?j + 2 < length ?t"
    by (cases mid; simp add: nth_append percent_def)+
  have j: "?j < length ?s" "?p \<noteq> 0" by (simp_all add: percent_def asc_def)
  have l: "length (out @ [c]) + length (tl (mid @ percent c)) = ?j + 3" by (simp add: percent_def)
  have "unescape_loop (length out) ?j ?s = unescape_loop (length out + 1) (?j + 3) (?t[length out := c])"
    using s j ab unfolding unescape_loop.simps [of "length out" ?j ?s] Let_def s up t
    by (simp only: percent_value if_True if_False not_False_eq_True simp_thms t)
  then show ?thesis unfolding upt l by simp
qed

lemma unescape_esc:
  assumes "0 \<notin> set url" and "f (asc CHR ''%'')"
  shows "\<exists>z. unescape_loop (length out) (length out + length mid) (out @ mid @ esc f url @ 0 # r) = Some (out @ url @ 0 # z)"
  using assms(1)
proof (induction url arbitrary: out mid)
  case Nil
  have "poke (length out) [0] (out @ mid @ 0 # r) = Some (out @ 0 # tl (mid @ 0 # r))"
    by (cases mid) (simp_all add: poke_def)
  then show ?case by (subst unescape_loop.simps) (simp add: nth_append)
next
  case (Cons c url)
  have c: "c \<noteq> 0" "0 \<notin> set url" using Cons.prems by auto
  obtain mid' where m: "unescape_loop (length out) (length out + length mid) (out @ mid @ esc f (c # url) @ 0 # r)
      = unescape_loop (length (out @ [c])) (length (out @ [c]) + length mid') ((out @ [c]) @ mid' @ esc f url @ 0 # r)"
  proof (cases "f c")
    case True
    then show ?thesis using unescape_percent [OF c(1), of out mid "esc f url @ 0 # r"] that [of "tl (mid @ percent c)"]
      by simp
  next
    case False
    then have "c \<noteq> asc CHR ''%''" using assms(2) by auto
    from unescape_copy [OF c(1) this, of out mid "esc f url @ 0 # r"] False that [of "tl (mid @ [c])"] show ?thesis
      by simp
  qed
  show ?case using Cons.IH [OF c(2), of "out @ [c]" mid'] unfolding m by simp
qed

lemma rfc1738_unescape_esc:
  assumes "0 \<notin> set url" and "f (asc CHR ''%'')"
  shows "\<exists>m. rfc1738_unescape (esc f url @ 0 # r) = Some m \<and> c_str m = Some url"
proof -
  obtain z where "rfc1738_unescape (esc f url @ 0 # r) = Some (url @ 0 # z)"
    using unescape_esc [where f = f, OF assms, of "[]" "[]" r] by (auto simp: rfc1738_unescape_def)
  then show ?thesis using assms(1) by auto
qed

lemma escape_unescape:
  assumes "0 \<notin> set url" and "3 * length url + 1 < sz" and "sz \<le> length buf"
  shows "\<exists>out m. rfc1738_escape (url @ 0 # r) buf sz = Some out \<and> rfc1738_unescape out = Some m \<and> c_str m = Some url"
proof -
  have l: "length (esc do_escape url) \<le> 3 * length url" by (rule length_esc)
  have "do_escape (asc CHR ''%'')" by (simp add: do_escape_def rfc1738_unsafe_chars_def asc_def)
  from rfc1738_unescape_esc [OF assms(1), where f = do_escape, OF this] rfc1738_escape_result [of url sz buf r] assms l
  show ?thesis by auto
qed

text \<open>What \<open>rfc1738_escape\<close> writes: never two bytes past its bound, and the byte after it can be reached.\<close>

lemma escape_loop_bound:
  assumes "0 \<notin> set url" and "sz + 2 \<le> length buf" and "q < sz \<or> q \<le> sz + 1 \<and> 2 \<le> q"
  shows "\<exists>out. escape_loop (url @ 0 # r) q sz buf = Some out \<and> length out = length buf
     \<and> (\<forall>k \<ge> sz + 2. k < length buf \<longrightarrow> out ! k = buf ! k)"
  using assms
proof (induction url arbitrary: q buf)
  case Nil
  then show ?case by (auto simp: poke_def nth_append)
next
  case (Cons c url)
  show ?case
  proof (cases "q + 1 < sz")
    case False
    then show ?thesis using Cons.prems by (auto simp: poke_def nth_append)
  next
    case q: True
    let ?bs = "if do_escape c then percent c @ [0] else [c]"
    let ?b = "take q buf @ ?bs @ drop (q + length ?bs) buf"
    let ?q = "q + (if do_escape c then 3 else 1)"
    have p: "poke q ?bs buf = Some ?b" using q Cons.prems by (auto simp: poke_def)
    have lb: "length ?b = length buf" using q Cons.prems by auto
    have "escape_loop ((c # url) @ 0 # r) q sz buf = escape_loop (url @ 0 # r) ?q sz ?b"
      using q p Cons.prems by auto
    moreover have "?q < sz \<or> ?q \<le> sz + 1 \<and> 2 \<le> ?q" using q by auto
    moreover have "?b ! k = buf ! k" if "k \<ge> sz + 2" "k < length buf" for k
      using that q by (auto simp: nth_append)
    ultimately show ?thesis using Cons.IH [of ?b ?q] Cons.prems lb by (auto split del: if_split)
  qed
qed

lemma encode_loop_result:
  assumes "0 \<notin> set s" and "length p + length (esc (\<lambda>c. \<not> url_char c) s) < 1024"
  shows "encode_loop (s @ 0 # r) p = Some (p @ esc (\<lambda>c. \<not> url_char c) s)"
  using assms
proof (induction s arbitrary: p)
  case (Cons c s)
  then show ?case by (cases "url_char c") auto
qed simp

lemma url_encode_result:
  "0 \<notin> set s \<Longrightarrow> length s \<le> 341 \<Longrightarrow> url_encode (s @ 0 # r) = Some (esc (\<lambda>c. \<not> url_char c) s)"
  using encode_loop_result [of s "[]" r] length_esc [of "\<lambda>c. \<not> url_char c" s] by (simp add: url_encode_def)

end
