(* ===== verification/Messages.thy ===== *)
theory Messages
  imports Sva_Tags
begin

section \<open>Alarm messages (\<open>logger.c\<close>)\<close>

text \<open>
  When the delay of an alarm has run out the main loop calls \<open>SendWApp\<close> or \<open>SendWAppInput\<close>, which
  build the WhatsApp message and mark its receivers, and \<open>SendSMS\<close>, which does the same for the SMS
  gateway. Texts are put together with \<open>strcpy\<close> and \<open>strcat\<close> in arrays of fixed size; a text
  that does not fit is \<open>None\<close>. \<open>ftoa\<close> is \<open>my_ftoa\<close>, a parameter as in theory \<open>Xml_Tags\<close>.
\<close>

subsection \<open>Model\<close>

definition strcpy_to :: "bytes \<Rightarrow> bytes \<Rightarrow> bytes option" where
  "strcpy_to dest v = poke 0 (v @ [0]) dest"

definition strcat_to :: "bytes \<Rightarrow> bytes \<Rightarrow> bytes option" where
  "strcat_to dest v = do { u \<leftarrow> c_str dest; poke (length u) (v @ [0]) dest }"

text \<open>\<open>strcpy\<close> of the first text, then \<open>strcat\<close> of the others.\<close>

fun strcats :: "bytes \<Rightarrow> bytes list \<Rightarrow> bytes option" where
  "strcats dest [] = Some dest"
| "strcats dest (v # vs) = do { dest \<leftarrow> strcat_to dest v; strcats dest vs }"

definition cat_Msg :: "bytes list \<Rightarrow> sys \<Rightarrow> sys option" where
  "cat_Msg vs s = do { b \<leftarrow> strcats (Msg (wapp s)) vs; Some (s\<lparr>wapp := (wapp s)\<lparr>Msg := b\<rparr>\<rparr>) }"

definition set_Msg :: "bytes \<Rightarrow> sys \<Rightarrow> sys option" where
  "set_Msg v s = do { b \<leftarrow> strcpy_to (Msg (wapp s)) v; Some (s\<lparr>wapp := (wapp s)\<lparr>Msg := b\<rparr>\<rparr>) }"

definition cat_poruka :: "bytes list \<Rightarrow> sys \<Rightarrow> sys option" where
  "cat_poruka vs s = do { b \<leftarrow> strcats (infobip_poruka s) vs; Some (s\<lparr>infobip_poruka := b\<rparr>) }"

definition copy_poruka :: "bytes \<Rightarrow> sys \<Rightarrow> sys option" where
  "copy_poruka v s = do { b \<leftarrow> strcpy_to (infobip_poruka s) v; Some (s\<lparr>infobip_poruka := b\<rparr>) }"

definition read_rBuf :: "nat \<Rightarrow> nat \<Rightarrow> sys \<Rightarrow> sys option" where
  "read_rBuf a n s = store RBuf 0 (eeRd a n (ee s)) s"

text \<open>\<open>temp_to_ascii(TAlarm, ttoa)\<close> into \<open>ttoa[10]\<close>.\<close>

definition temp_to_ascii :: "(nat \<Rightarrow> u32 \<Rightarrow> bytes) \<Rightarrow> u32 \<Rightarrow> bytes option" where
  "temp_to_ascii ftoa x = (if length (ftoa 2 x) < 10 then Some (ftoa 2 x) else None)"

definition alarm_type :: "u32 \<Rightarrow> sensor \<Rightarrow> byte" where
  "alarm_type t x =
     (if f32_less (f32_of_int (sint (HIGHLIMIT x))) t then ALARM_HI
      else if f32_less t (f32_of_int (sint (LOWLIMIT x))) then ALARM_LOW else 0)"

text \<open>The five flags from \<open>i\<close> on in \<open>rBuf\<close>.\<close>

definition mark_receivers :: "nat \<Rightarrow> sys \<Rightarrow> sys" where
  "mark_receivers i s =
     (let on = map (\<lambda>k. rBuf s ! (i + k) \<noteq> 0) [0..<5]
      in s\<lparr>wapp := (wapp s)\<lparr>wenable := map (\<lambda>b. if b then 1 else 0) on\<rparr>, wAppflag := (if True \<in> set on then 1 else 0)\<rparr>)"

text \<open>The lines of the WhatsApp message.\<close>

definition HI_LINE :: bytes where "HI_LINE = str '' ALARM VISOKE TEMPERATURE '' @ [13]"
definition LOW_LINE :: bytes where "LOW_LINE = str '' ALARM NISKE TEMPERATURE '' @ [13]"
definition C_LINE :: bytes where "C_LINE = str '' C'' @ [10]"

definition SendWApp :: "(nat \<Rightarrow> u32 \<Rightarrow> bytes) \<Rightarrow> nat \<Rightarrow> sys \<Rightarrow> sys option" where
  "SendWApp ftoa n s = do {
     let TAlarm = temp s ! n;
     let type = alarm_type TAlarm (senzor s ! n);
     s \<leftarrow> read_rBuf EE_OBJECT_NAME 64 s;
     v \<leftarrow> c_str (rBuf s);
     s \<leftarrow> set_Msg v s;
     s \<leftarrow> cat_Msg [[10]] s;
     s \<leftarrow> read_rBuf ((n + 1) * 0x100) 256 s;
     v \<leftarrow> c_str (drop EE_SENSOR_NAME (rBuf s));
     s \<leftarrow> cat_Msg [v, [10]] s;
     s \<leftarrow> (if type = ALARM_HI then do {
             t \<leftarrow> temp_to_ascii ftoa TAlarm;
             cat_Msg [HI_LINE, t, C_LINE] s }
           else if type = ALARM_LOW then do {
             t \<leftarrow> temp_to_ascii ftoa TAlarm;
             cat_Msg [LOW_LINE, t, C_LINE] s }
           else Some s);
     Some (mark_receivers EE_WAPP1_ON s) }"

definition SendWAppInput :: "nat \<Rightarrow> sys \<Rightarrow> sys option" where
  "SendWAppInput n s = do {
     s \<leftarrow> read_rBuf EE_OBJECT_NAME 64 s;
     v \<leftarrow> c_str (rBuf s);
     s \<leftarrow> set_Msg v s;
     s \<leftarrow> cat_Msg [[10]] s;
     s \<leftarrow> read_rBuf (EE_INPUT_NAME1 + n * 0x20) 30 s;
     v \<leftarrow> c_str (rBuf s);
     s \<leftarrow> cat_Msg [v, [10], str '' ALARM  '' @ [13]] s;
     s \<leftarrow> read_rBuf EE_INPUT_WAPP1 5 s;
     Some (mark_receivers 0 s) }"

text \<open>The receivers of an SMS are the five flags at \<open>a\<close>.\<close>

definition sms_receivers :: "nat \<Rightarrow> sys \<Rightarrow> sys option" where
  "sms_receivers a s = do {
     s \<leftarrow> read_rBuf a 5 s;
     Some (send_infobip (rBuf s ! 0 \<noteq> 0) (rBuf s ! 1 \<noteq> 0) (rBuf s ! 2 \<noteq> 0) (rBuf s ! 3 \<noteq> 0) (rBuf s ! 4 \<noteq> 0) s) }"

text \<open>
  \<open>cnt\<close> is \<open>broj_senzora - 1\<close>, eight bits wide and taken before \<open>broj_senzora\<close> is incremented:
  for the first sensor it is 255, outside \<open>senzor\<close>.
\<close>

definition SendSMS :: "(nat \<Rightarrow> u32 \<Rightarrow> bytes) \<Rightarrow> nat \<Rightarrow> nat \<Rightarrow> sys \<Rightarrow> sys option" where
  "SendSMS ftoa broj_senzora tipalarma s =
     (let cnt = unat (of_nat broj_senzora - 1 :: byte)
      in if tipalarma = 1 then do {
           s \<leftarrow> read_rBuf (0x100 * (broj_senzora + 1) + EE_SENSOR_NAME) 16 s;
           let TAlarm = temp s ! broj_senzora;
           x \<leftarrow> peek (senzor s) cnt;
           v \<leftarrow> c_str (rBuf s);
           s \<leftarrow> copy_poruka v s;
           s \<leftarrow> cat_poruka [[13, 10]] s;
           s \<leftarrow> (if alarm_type TAlarm x = ALARM_HI then do {
                   t \<leftarrow> temp_to_ascii ftoa TAlarm;
                   cat_poruka [str '' ALARM VISOKE TEMPERATURE '', t, str '' C'' @ [13, 10]] s }
                 else if alarm_type TAlarm x = ALARM_LOW then do {
                   t \<leftarrow> temp_to_ascii ftoa TAlarm;
                   cat_poruka [str '' ALARM NISKE TEMPERATURE '' @ [13, 10], t, str '' C'' @ [13, 10]] s }
                 else Some s);
           sms_receivers (0x100 * (broj_senzora + 1) + EE_SMS1) s }
         else if tipalarma = 2 then do {
           s \<leftarrow> read_rBuf (EE_INPUT_NAME1 + broj_senzora * 0x20) 30 s;
           v \<leftarrow> c_str (rBuf s);
           s \<leftarrow> copy_poruka v s;
           s \<leftarrow> cat_poruka [[13, 10], str '' ALARM '', [13, 10]] s;
           sms_receivers EE_INPUT_SMS1 s }
         else Some s)"

text \<open>
  \<open>SendSMSStatus\<close>: the name comes from what \<open>rBuf\<close> holds at \<open>0x20\<close> (the read of the sensor's page
  is commented out), cut to eight characters; \<open>flags\<close> are \<open>sms1\<close> to \<open>sms5\<close>.
\<close>

fun sms_status_lines :: "(nat \<Rightarrow> u32 \<Rightarrow> bytes) \<Rightarrow> nat list \<Rightarrow> bool list \<Rightarrow> sys \<Rightarrow> (bool list \<times> sys) option" where
  "sms_status_lines ftoa [] flags s = Some (flags, s)"
| "sms_status_lines ftoa (k # ks) flags s =
     (if ENBLE (senzor s ! k) \<noteq> 0 then do {
        v \<leftarrow> c_str (drop 0x20 (rBuf s));
        t \<leftarrow> temp_to_ascii ftoa (temp s ! k);
        line \<leftarrow> (if length v < 32 then Some (take 8 v @ str '' '' @ t @ str '' C'' @ [13, 10]) else None);
        s \<leftarrow> cat_poruka [line] s;
        sms_status_lines ftoa ks (map (\<lambda>i. flags ! i \<or> rBuf s ! (0x63 + i) = 1) [0..<5]) s }
      else sms_status_lines ftoa ks flags s)"

definition SendSMSStatus :: "(nat \<Rightarrow> u32 \<Rightarrow> bytes) \<Rightarrow> sys \<Rightarrow> sys option" where
  "SendSMSStatus ftoa s = do {
     (f, s) \<leftarrow> sms_status_lines ftoa [0..<8] (replicate 5 False) (s\<lparr>infobip_poruka := (infobip_poruka s)[0 := 0]\<rparr>);
     Some (send_infobip (f ! 0) (f ! 1) (f ! 2) (f ! 3) (f ! 4) s) }"

subsection \<open>Texts in an array\<close>

text \<open>A copy that is followed by further texts leaves all of them, one after the other.\<close>

lemma strcat_to_text:
  assumes "c_str b = Some u" and "0 \<notin> set v" and "length u + length v < length b"
  shows "\<exists>b'. strcat_to b v = Some b' \<and> c_str b' = Some (u @ v) \<and> length b' = length b"
proof -
  have u: "0 \<notin> set u" and b: "take (length u) b = u" using c_str_SomeD [OF assms(1)] by auto
  have "strcat_to b v = Some (u @ v @ [0] @ drop (length u + length v + 1) b)"
    using assms b by (simp add: strcat_to_def poke_def)
  moreover have "c_str ((u @ v) @ 0 # drop (length u + length v + 1) b) = Some (u @ v)"
    using u assms(2) by (intro c_str_append) auto
  ultimately show ?thesis using assms(3) by auto
qed

lemma strcats_text:
  assumes "c_str b = Some u" and "\<forall>v \<in> set vs. 0 \<notin> set v" and "length u + length (concat vs) < length b"
  shows "\<exists>b'. strcats b vs = Some b' \<and> c_str b' = Some (u @ concat vs) \<and> length b' = length b"
  using assms
proof (induction vs arbitrary: b u)
  case (Cons v vs)
  from strcat_to_text [of b u v] Cons.prems obtain b' where
    b': "strcat_to b v = Some b'" "c_str b' = Some (u @ v)" "length b' = length b" by auto
  from Cons.IH [of b' "u @ v"] b' Cons.prems show ?case by auto
qed simp

lemma strcpy_to_text:
  assumes "0 \<notin> set v" and "length v < length b"
  shows "\<exists>b'. strcpy_to b v = Some b' \<and> c_str b' = Some v \<and> length b' = length b"
proof -
  have "strcpy_to b v = Some (v @ 0 # drop (length v + 1) b)" using assms(2) by (simp add: strcpy_to_def poke_def)
  then show ?thesis using assms by auto
qed

lemma c_str_prefix: "c_str m = Some v \<Longrightarrow> c_str (m @ x) = Some v"
  using c_str_SomeD [of m v] by auto

lemma read_rBuf_eq:
  assumes "sys_ok s" and "n \<le> 1024"
  shows "read_rBuf a n s = Some (s\<lparr>rBuf := eeRd a n (ee s) @ drop n (rBuf s)\<rparr>)"
  using assms by (simp add: read_rBuf_def store_def sys_ok_def)

lemma set_Msg_text:
  assumes "length (Msg (wapp s)) = 128" and "0 \<notin> set v" and "length v < 128"
  shows "\<exists>b. set_Msg v s = Some (s\<lparr>wapp := (wapp s)\<lparr>Msg := b\<rparr>\<rparr>) \<and> c_str b = Some v \<and> length b = 128"
  using strcpy_to_text [of v "Msg (wapp s)"] assms by (auto simp: set_Msg_def)

lemma cat_Msg_text:
  assumes "length (Msg (wapp s)) = 128" and "c_str (Msg (wapp s)) = Some u"
    and "\<forall>v \<in> set vs. 0 \<notin> set v" and "length u + length (concat vs) < 128"
  shows "\<exists>b. cat_Msg vs s = Some (s\<lparr>wapp := (wapp s)\<lparr>Msg := b\<rparr>\<rparr>) \<and> c_str b = Some (u @ concat vs) \<and> length b = 128"
  using strcats_text [of "Msg (wapp s)" u vs] assms by (auto simp: cat_Msg_def)

text \<open>The line about the limit that a temperature is outside of.\<close>

definition alarm_text :: "(nat \<Rightarrow> u32 \<Rightarrow> bytes) \<Rightarrow> u32 \<Rightarrow> byte \<Rightarrow> bytes" where
  "alarm_text ftoa t type =
     (if type = ALARM_HI then HI_LINE @ ftoa 2 t @ C_LINE
      else if type = ALARM_LOW then LOW_LINE @ ftoa 2 t @ C_LINE
      else [])"

lemma alarm_lines: "0 \<notin> set HI_LINE" "0 \<notin> set LOW_LINE" "0 \<notin> set C_LINE" "length HI_LINE = 27" "length LOW_LINE = 26" "length C_LINE = 3"
  by (simp_all add: HI_LINE_def LOW_LINE_def C_LINE_def asc_def)

lemma SendWApp_text:
  assumes s: "sys_ok s" and "n < 8"
    and o: "c_str (eeRd EE_OBJECT_NAME 64 (ee s)) = Some oname"
    and w: "c_str (eeRd ((n + 1) * 0x100 + EE_SENSOR_NAME) 192 (ee s)) = Some sname"
    and f: "length (ftoa 2 (temp s ! n)) < 10" "0 \<notin> set (ftoa 2 (temp s ! n))"
    and l: "length oname + length sname \<le> 85"
  defines "en \<equiv> map (\<lambda>k. eeRd8 ((n + 1) * 0x100 + EE_WAPP1_ON + k) (ee s) \<noteq> 0) [0..<5]"
  shows "\<exists>b r. SendWApp ftoa n s = Some (s\<lparr>rBuf := r,
           wapp := \<lparr>Msg = b, wenable = map (\<lambda>x. if x then 1 else 0) en\<rparr>, wAppflag := (if True \<in> set en then 1 else 0)\<rparr>)
     \<and> length r = 1024 \<and> length b = 128
     \<and> c_str b = Some (oname @ [10] @ sname @ [10] @ alarm_text ftoa (temp s ! n) (alarm_type (temp s ! n) (senzor s ! n)))"
proof -
  let ?T = "temp s ! n" and ?ty = "alarm_type (temp s ! n) (senzor s ! n)"
  define r1 where "r1 = eeRd EE_OBJECT_NAME 64 (ee s) @ drop 64 (rBuf s)"
  define r2 where "r2 = eeRd ((n + 1) * 0x100) 256 (ee s) @ drop 256 r1"
  have no: "0 \<notin> set oname" "0 \<notin> set sname" using c_str_SomeD [OF o] c_str_SomeD [OF w] by auto
  have l128: "length (Msg (wapp s)) = 128" and l1: "length r1 = 1024" and l2: "length r2 = 1024"
    using s by (auto simp: sys_ok_def r1_def r2_def)
  have c1: "c_str r1 = Some oname" using o unfolding r1_def by (rule c_str_prefix)
  have "drop 0x40 (eeRd ((n + 1) * 0x100) 256 (ee s)) = eeRd ((n + 1) * 0x100 + 0x40) 192 (ee s)"
    by (rule nth_equalityI) (simp_all add: nth_eeRd add.assoc)
  then have c2: "c_str (drop 0x40 r2) = Some sname" using c_str_prefix [OF w] by (simp add: r2_def)
  have e1: "read_rBuf EE_OBJECT_NAME 64 s = Some (s\<lparr>rBuf := r1\<rparr>)" by (simp add: read_rBuf_eq [OF s] r1_def)
  obtain b1 where b1: "set_Msg oname (s\<lparr>rBuf := r1\<rparr>) = Some (s\<lparr>rBuf := r1, wapp := (wapp s)\<lparr>Msg := b1\<rparr>\<rparr>)"
      "c_str b1 = Some oname" "length b1 = 128"
    using set_Msg_text [of "s\<lparr>rBuf := r1\<rparr>" oname] no l l128 by auto
  obtain b2 where b2: "cat_Msg [[10]] (s\<lparr>rBuf := r1, wapp := (wapp s)\<lparr>Msg := b1\<rparr>\<rparr>)
      = Some (s\<lparr>rBuf := r1, wapp := (wapp s)\<lparr>Msg := b2\<rparr>\<rparr>)" "c_str b2 = Some (oname @ [10])" "length b2 = 128"
    using cat_Msg_text [of "s\<lparr>rBuf := r1, wapp := (wapp s)\<lparr>Msg := b1\<rparr>\<rparr>" oname "[[10]]"] b1 l by auto
  obtain b3 where b3: "cat_Msg [sname, [10]] (s\<lparr>rBuf := r2, wapp := (wapp s)\<lparr>Msg := b2\<rparr>\<rparr>)
      = Some (s\<lparr>rBuf := r2, wapp := (wapp s)\<lparr>Msg := b3\<rparr>\<rparr>)" "c_str b3 = Some (oname @ [10] @ sname @ [10])" "length b3 = 128"
    using cat_Msg_text [of "s\<lparr>rBuf := r2, wapp := (wapp s)\<lparr>Msg := b2\<rparr>\<rparr>" "oname @ [10]" "[sname, [10]]"] b2 no l by auto
  have tt: "temp_to_ascii ftoa ?T = Some (ftoa 2 ?T)" using f by (simp add: temp_to_ascii_def)
  let ?p = "oname @ [10] @ sname @ [10]" and ?s3 = "s\<lparr>rBuf := r2, wapp := (wapp s)\<lparr>Msg := b3\<rparr>\<rparr>"
  obtain b4 where b4: "(if ?ty = ALARM_HI then do {
             t \<leftarrow> temp_to_ascii ftoa ?T;
             cat_Msg [HI_LINE, t, C_LINE] ?s3 }
           else if ?ty = ALARM_LOW then do {
             t \<leftarrow> temp_to_ascii ftoa ?T;
             cat_Msg [LOW_LINE, t, C_LINE] ?s3 }
           else Some ?s3) = Some (s\<lparr>rBuf := r2, wapp := (wapp s)\<lparr>Msg := b4\<rparr>\<rparr>)"
      "c_str b4 = Some (?p @ alarm_text ftoa ?T ?ty)" "length b4 = 128"
  proof (cases "?ty = ALARM_HI \<or> ?ty = ALARM_LOW")
    case True
    let ?vs = "[if ?ty = ALARM_HI then HI_LINE else LOW_LINE, ftoa 2 ?T, C_LINE]"
    have "\<forall>v \<in> set ?vs. 0 \<notin> set v" using f(2) alarm_lines by auto
    then show ?thesis using cat_Msg_text [of ?s3 ?p ?vs] b3 f l True that by (auto simp: tt alarm_text_def alarm_lines)
  next
    case False
    then show ?thesis using b3 that by (auto simp: alarm_text_def)
  qed
  have en: "map (\<lambda>k. r2 ! (EE_WAPP1_ON + k) \<noteq> 0) [0..<5] = en"
    unfolding en_def r2_def by (rule map_cong [OF refl]) (simp add: nth_append nth_eeRd eeRd8_def add.assoc)
  have ok1: "sys_ok (s\<lparr>rBuf := r1, wapp := (wapp s)\<lparr>Msg := b2\<rparr>\<rparr>)" using s l1 b2(3) by (simp add: sys_ok_def)
  have e2: "read_rBuf ((n + 1) * 0x100) 256 (s\<lparr>rBuf := r1, wapp := (wapp s)\<lparr>Msg := b2\<rparr>\<rparr>)
      = Some (s\<lparr>rBuf := r2, wapp := (wapp s)\<lparr>Msg := b2\<rparr>\<rparr>)"
    by (simp add: read_rBuf_eq [OF ok1] r2_def)
  have f1: "rBuf (s\<lparr>rBuf := r1\<rparr>) = r1" "rBuf (s\<lparr>rBuf := r2, wapp := W\<rparr>) = r2" for W by simp_all
  have "SendWApp ftoa n s = Some (mark_receivers EE_WAPP1_ON (s\<lparr>rBuf := r2, wapp := (wapp s)\<lparr>Msg := b4\<rparr>\<rparr>))"
    unfolding SendWApp_def Let_def
    by (simp only: e1 e2 b1(1) b2(1) b3(1) b4(1) c1 c2 Option.bind.simps f1)
  then show ?thesis using b4 l2 en by (intro exI [of _ b4] exI [of _ r2]) (simp add: mark_receivers_def Let_def)
qed

lemma SendSMS_first_sensor:
  assumes "sys_ok s"
  shows "SendSMS ftoa 0 1 s = None"
proof -
  have "unat (of_nat 0 - 1 :: byte) = 255" by (simp add: unsigned_minus_1_eq_mask mask_eq_exp_minus_1)
  moreover have "peek (senzor s) 255 = None" using assms by (simp add: peek_def sys_ok_def)
  ultimately show ?thesis unfolding SendSMS_def Let_def by (simp add: read_rBuf_eq [OF assms])
qed

end
