(* ===== verification/Logger.thy ===== *)
theory Logger
  imports Xml_Tags Messages
begin

section \<open>Log files (\<open>logger.c\<close>, \<open>lfs_tools.c\<close>)\<close>

text \<open>
  Once per sampling period \<open>SaveTemp\<close> writes a line with the mean temperatures to the file of the
  month, \<open>SaveHaccp\<close> does the same five times a day, and \<open>SaveAlarm\<close> adds a line to the
  file of the alarms. A file system is a list of names with their contents; the calls of the
  vendored littleFS behave as documented: a file that is not there cannot be opened for reading, a write
  at the end extends the file.

  Parameters: \<open>ftoa\<close> as before; \<open>mkt\<close> is the mean kinetic temperature of a list of samples, which the
  code computes in \<open>double\<close> with \<open>exp\<close> and \<open>log\<close>; \<open>a8\<close> and \<open>a12\<close> are what the processor reads at the
  addresses 8 and 12, to which the code takes \<open>nvSumSen1\<close> and \<open>nvCountSen1\<close>.
\<close>

subsection \<open>Files\<close>

type_synonym logfs = "(bytes \<times> bytes) list"

definition lfs_create :: "bytes \<Rightarrow> bytes \<Rightarrow> logfs \<Rightarrow> logfs" where
  "lfs_create fl ibuf fs = (if map_of fs fl = None then fs @ [(fl, ibuf)] else fs)"

definition lfs_append :: "bytes \<Rightarrow> bytes \<Rightarrow> nat \<Rightarrow> logfs \<Rightarrow> logfs" where
  "lfs_append fl ibuf len fs =
     map (\<lambda>(n, c). if n = fl then (n, c @ take len ibuf) else (n, c)) fs"

definition lfs_read :: "bytes \<Rightarrow> nat \<Rightarrow> nat \<Rightarrow> logfs \<Rightarrow> bytes" where
  "lfs_read fl startpos len fs =
     (case map_of fs fl of None \<Rightarrow> [] | Some c \<Rightarrow> take len (drop startpos c))"

text \<open>Names: a letter, the month in two digits, the year as \<open>"%d"\<close> writes it.\<close>

definition log_name :: "char \<Rightarrow> byte \<Rightarrow> byte \<Rightarrow> bytes" where
  "log_name c god mjes =
     asc c # (if mjes < 10 then [asc CHR ''0'', mjes + 0x30] else [asc CHR ''1'', mjes + 0x26])
       @ decb god @ str ''.CSV''"

definition sensor_columns :: bytes where
  "sensor_columns = [13, 10] @ str ''DATUM;VRIJEME;SENZOR1;SENZOR2;SENZOR3;SENZOR4;SENZOR5;SENZOR6;SENZOR7;SENZOR8'' @ [13, 10]"

definition month_header :: "byte \<Rightarrow> byte \<Rightarrow> bytes" where
  "month_header god mjes = str ''MJESEC;'' @ decb mjes @ str '';GODINA;'' @ dec (unat god + 2000) @ str '';''"

text \<open>\<open>tBuf\<close> has 128 bytes, the local one of the alarm files 120.\<close>

definition CreateDatName :: "byte \<Rightarrow> byte \<Rightarrow> logfs \<Rightarrow> (bytes \<times> logfs) option" where
  "CreateDatName god mjes fs =
     (let h = month_header god mjes @ str '';'' @ sensor_columns; n = log_name CHR ''T'' god mjes
      in if length h < 128 then Some (n, lfs_create n h fs) else None)"

definition CreateHaccpName :: "byte \<Rightarrow> byte \<Rightarrow> logfs \<Rightarrow> (bytes \<times> logfs) option" where
  "CreateHaccpName god mjes fs =
     (let h = month_header god mjes @ str '';'' @ sensor_columns; n = log_name CHR ''H'' god mjes
      in if length h < 128 then Some (n, lfs_create n h fs) else None)"

definition CreateAlarmName :: "byte \<Rightarrow> byte \<Rightarrow> logfs \<Rightarrow> (bytes \<times> logfs) option" where
  "CreateAlarmName god mjes fs =
     (let h = month_header god mjes @ [13, 10] @ str ''DATUM;VRIJEME;SENZOR;TEMPERATURA;TIP'' @ [13, 10];
          n = log_name CHR ''A'' god mjes
      in if length h < 120 then Some (n, lfs_create n h fs) else None)"

definition CreateDigitalAlarmName :: "byte \<Rightarrow> byte \<Rightarrow> logfs \<Rightarrow> (bytes \<times> logfs) option" where
  "CreateDigitalAlarmName god mjes fs =
     (let h = month_header god mjes @ [13, 10] @ str ''DATUM;VRIJEME;INPUT'' @ [13, 10];
          n = log_name CHR ''A'' god mjes
      in if length h < 120 then Some (n, lfs_create n h fs) else None)"

subsection \<open>The line of a sample\<close>

definition stamp :: "sys \<Rightarrow> bytes" where
  "stamp s = decb (datum s) @ str '';'' @ decb (sat s) @ str '':'' @ decb (minuta s) @ str '':'' @ decb (sekunda s) @ str '';''"

text \<open>\<open>CalculateMKT\<close> counts the samples with eight bits.\<close>

definition CalculateMKT :: "(u32 list \<Rightarrow> u32) \<Rightarrow> nat \<Rightarrow> nat \<Rightarrow> bytes \<Rightarrow> u32 option" where
  "CalculateMKT mkt mktlog count_adr m =
     (let n = unat (NVRAM_Read32 count_adr m)
      in if n < 256 then Some (mkt (map (\<lambda>i. NVRAM_ReadFloat (mktlog + i * 4) m) [0..<n])) else None)"

definition set_temp :: "nat \<Rightarrow> u32 \<Rightarrow> sys \<Rightarrow> sys" where
  "set_temp k t s = s\<lparr>temp := (temp s)[k := t]\<rparr>"

text \<open>The mean of the samples since the last line; the sum and the count start again at zero.\<close>

definition take_mean :: "nat \<Rightarrow> sys \<Rightarrow> sys" where
  "take_mean cnt s =
     (let f = f32_div (NVRAM_ReadFloat (NV_SUM_SEN1 + cnt * 8) (nv s))
                (f32_of_int (uint (NVRAM_Read32 (NV_COUNT_SEN1 + cnt * 8) (nv s))));
          m = NVRAM_Write32 (NV_COUNT_SEN1 + cnt * 8) 0 (NVRAM_WriteFloat (NV_SUM_SEN1 + cnt * 8) 0 (nv s))
      in set_temp cnt f (s\<lparr>nv := m\<rparr>))"

definition mkt_value :: "(u32 list \<Rightarrow> u32) \<Rightarrow> nat \<Rightarrow> sys \<Rightarrow> sys option" where
  "mkt_value mkt cnt s =
     (if eeRd8 (0x100 * (cnt + 1) + EE_MEASURE_TYPE) (ee s) = 1
      then do { t \<leftarrow> CalculateMKT mkt (NV_MKT_SEN1 + 80 * cnt) (NV_MKT_COUNT_SEN1 + cnt * 4) (nv s); Some (set_temp cnt t s) }
      else Some s)"

text \<open>One pass of the loop; \<open>upd\<close> is whether the sample also goes to the MKT log. \<open>dsave\<close> has 120 bytes.\<close>

definition sample_column :: "(nat \<Rightarrow> u32 \<Rightarrow> bytes) \<Rightarrow> (u32 list \<Rightarrow> u32) \<Rightarrow> bool \<Rightarrow> nat \<Rightarrow> bytes \<times> sys \<Rightarrow> (bytes \<times> sys) option" where
  "sample_column ftoa mkt upd cnt = (\<lambda>(dsave, s).
     if ENBLE (senzor s ! cnt) = 1 then do {
       s \<leftarrow> (if NVRAM_Read32 (NV_COUNT_SEN1 + cnt * 8) (nv s) \<noteq> 0
             then (let s = take_mean cnt s;
                       s = (if upd then s\<lparr>nv := UpdateMKT (NV_MKT_SEN1 + 80 * cnt) (NV_MKT_COUNT_SEN1 + cnt * 4) (temp s ! cnt) (nv s)\<rparr> else s)
                   in mkt_value mkt cnt s)
             else Some s);
       t \<leftarrow> temp_to_ascii ftoa (temp s ! cnt);
       (if length (dsave @ t @ str '';'') < 120 then Some (dsave @ t @ str '';'', s) else None) }
     else if length (dsave @ str '';'') < 120 then Some (dsave @ str '';'', s) else None)"

fun sample_columns :: "(nat \<Rightarrow> u32 \<Rightarrow> bytes) \<Rightarrow> (u32 list \<Rightarrow> u32) \<Rightarrow> bool \<Rightarrow> nat list \<Rightarrow> bytes \<times> sys \<Rightarrow> (bytes \<times> sys) option" where
  "sample_columns ftoa mkt upd [] ds = Some ds"
| "sample_columns ftoa mkt upd (cnt # cnts) ds = do {
     ds \<leftarrow> sample_column ftoa mkt upd cnt ds; sample_columns ftoa mkt upd cnts ds }"

definition SaveTemp :: "(nat \<Rightarrow> u32 \<Rightarrow> bytes) \<Rightarrow> (u32 list \<Rightarrow> u32) \<Rightarrow> u32 \<Rightarrow> u32 \<Rightarrow> sys \<times> logfs \<Rightarrow> (sys \<times> logfs) option" where
  "SaveTemp ftoa mkt a8 a12 = (\<lambda>(s, fs). do {
     let s = getDate (getTime s);
     (datname, fs) \<leftarrow> CreateDatName (godina s) (mjesec s) fs;
     let dsave = stamp s;
     let s = set_temp 0 (f32_div a8 (f32_of_int (uint a12))) s;
     (dsave, s) \<leftarrow> sample_columns ftoa mkt True [0..<8] (dsave, s);
     (if length dsave + 2 < 120 then Some (s, lfs_append datname (dsave @ [13, 10]) (length dsave + 2) fs) else None) })"

definition SaveHaccp :: "(nat \<Rightarrow> u32 \<Rightarrow> bytes) \<Rightarrow> (u32 list \<Rightarrow> u32) \<Rightarrow> u32 \<Rightarrow> u32 \<Rightarrow> sys \<times> logfs \<Rightarrow> (sys \<times> logfs) option" where
  "SaveHaccp ftoa mkt a8 a12 = (\<lambda>(s, fs). do {
     let s = getDate (getTime s);
     (datname, fs) \<leftarrow> CreateHaccpName (godina s) (mjesec s) fs;
     let dsave = stamp s;
     let s = set_temp 0 (f32_div a8 (f32_of_int (uint a12))) s;
     (dsave, s) \<leftarrow> sample_columns ftoa mkt False [0..<8] (dsave, s);
     (if length dsave + 2 < 120 then Some (s, lfs_append datname (dsave @ [13, 10]) (length dsave + 2) fs) else None) })"

text \<open>\<open>SaveAlarm\<close> and \<open>SaveDigitalAlarm\<close>; \<open>dsave\<close> has 100 bytes.\<close>

definition SaveAlarm :: "(nat \<Rightarrow> u32 \<Rightarrow> bytes) \<Rightarrow> u32 \<Rightarrow> nat \<Rightarrow> byte \<Rightarrow> sys \<times> logfs \<Rightarrow> (sys \<times> logfs) option" where
  "SaveAlarm ftoa TAlarm sensor_num type = (\<lambda>(s, fs). do {
     let s = getDate (getTime s);
     (datname, fs) \<leftarrow> CreateAlarmName (godina s) (mjesec s) fs;
     s \<leftarrow> read_rBuf ((sensor_num + 1) * 0x100 + EE_SENSOR_NAME) 30 s;
     v \<leftarrow> c_str (rBuf s);
     t \<leftarrow> temp_to_ascii ftoa TAlarm;
     let dsave = stamp s @ v @ str '';'' @ t @ str '';''
           @ (if type = 1 then str ''VISOKA TEMPERATURA;'' else if type = 2 then str ''NISKA TEMPERATURA;'' else []) @ [13, 10];
     (if length dsave < 100 then Some (s, lfs_append datname dsave (length dsave) fs) else None) })"

definition SaveDigitalAlarm :: "nat \<Rightarrow> sys \<times> logfs \<Rightarrow> (sys \<times> logfs) option" where
  "SaveDigitalAlarm sensor_num = (\<lambda>(s, fs). do {
     let s = getDate (getTime s);
     (datname, fs) \<leftarrow> CreateAlarmName (godina s) (mjesec s) fs;
     s \<leftarrow> read_rBuf ((sensor_num + 1) * 0x100 + EE_INPUT_NAME1) 30 s;
     v \<leftarrow> c_str (rBuf s);
     let dsave = stamp s @ v @ str '';'' @ [13, 10];
     (if length dsave < 100 then Some (s, lfs_append datname dsave (length dsave) fs) else None) })"

subsection \<open>The file system\<close>

text \<open>Creating and appending, as the callers use them: the line ends the file, the others are untouched.\<close>

lemma map_of_append_line:
  "map_of (lfs_append n l k fs) x = (case map_of fs x of None \<Rightarrow> None | Some c \<Rightarrow> Some (if x = n then c @ take k l else c))"
  by (induction fs) (auto simp: lfs_append_def)

lemma map_of_create: "map_of (lfs_create n h fs) x = (if x = n \<and> map_of fs n = None then Some h else map_of fs x)"
  by (auto simp: lfs_create_def map_add_def split: option.split)

lemma create_append:
  "map_of (lfs_append n l (length l) (lfs_create n h fs)) =
     (map_of fs)(n \<mapsto> (case map_of fs n of None \<Rightarrow> h | Some c \<Rightarrow> c) @ l)"
  by (rule ext) (auto simp: map_of_append_line map_of_create split: option.split)


subsection \<open>What a sample is\<close>

text \<open>The abstract account of one sensor: the mean of its samples, the value that is written, its column.\<close>

definition sensor_mean :: "nat \<Rightarrow> sys \<Rightarrow> u32" where
  "sensor_mean k s = f32_div (NVRAM_Read32 (NV_SUM_SEN1 + k * 8) (nv s)) (f32_of_int (uint (NVRAM_Read32 (NV_COUNT_SEN1 + k * 8) (nv s))))"

definition has_samples :: "nat \<Rightarrow> sys \<Rightarrow> bool" where
  "has_samples k s \<longleftrightarrow> ENBLE (senzor s ! k) = 1 \<and> NVRAM_Read32 (NV_COUNT_SEN1 + k * 8) (nv s) \<noteq> 0"

definition sample_log :: "bool \<Rightarrow> nat \<Rightarrow> sys \<Rightarrow> u32 list" where
  "sample_log upd k s = (if upd \<and> has_samples k s then log_append 20 (sensor_mean k s) (mkt_log (nv s) k) else mkt_log (nv s) k)"

definition sample_value :: "(u32 list \<Rightarrow> u32) \<Rightarrow> bool \<Rightarrow> nat \<Rightarrow> sys \<Rightarrow> u32" where
  "sample_value mkt upd k s =
     (if \<not> has_samples k s then temp s ! k
      else if eeRd8 (0x100 * (k + 1) + EE_MEASURE_TYPE) (ee s) = 1 then mkt (sample_log upd k s)
      else sensor_mean k s)"

definition column :: "(nat \<Rightarrow> u32 \<Rightarrow> bytes) \<Rightarrow> (u32 list \<Rightarrow> u32) \<Rightarrow> bool \<Rightarrow> sys \<Rightarrow> nat \<Rightarrow> bytes" where
  "column ftoa mkt upd s k = (if ENBLE (senzor s ! k) = 1 then ftoa 2 (sample_value mkt upd k s) else []) @ str '';''"

text \<open>Two states that agree on what belongs to a sensor.\<close>

definition same_sensor :: "nat \<Rightarrow> sys \<Rightarrow> sys \<Rightarrow> bool" where
  "same_sensor k s s' \<longleftrightarrow> senzor s' = senzor s \<and> ee s' = ee s \<and> temp s' ! k = temp s ! k
     \<and> NVRAM_Read32 (NV_SUM_SEN1 + k * 8) (nv s') = NVRAM_Read32 (NV_SUM_SEN1 + k * 8) (nv s)
     \<and> NVRAM_Read32 (NV_COUNT_SEN1 + k * 8) (nv s') = NVRAM_Read32 (NV_COUNT_SEN1 + k * 8) (nv s)
     \<and> mkt_log (nv s') k = mkt_log (nv s) k"

lemma column_same: "same_sensor k s s' \<Longrightarrow> column ftoa mkt upd s' k = column ftoa mkt upd s k"
  and value_same: "same_sensor k s s' \<Longrightarrow> sample_value mkt upd k s' = sample_value mkt upd k s"
  and has_samples_same: "same_sensor k s s' \<Longrightarrow> has_samples k s' = has_samples k s"
  by (simp_all add: same_sensor_def column_def sample_value_def sample_log_def has_samples_def sensor_mean_def)

text \<open>Writing the sum and the count of a sensor leaves everything at or above \<open>0x48\<close> as it was.\<close>

lemma mkt_kept:
  assumes "mkt_ok m" and "length m' = NV_SIZE"
    and "\<And>b. 0x48 \<le> b \<Longrightarrow> b + 4 \<le> NV_SIZE \<Longrightarrow> NVRAM_Read32 b m' = NVRAM_Read32 b m"
  shows "mkt_ok m'" and "k < 8 \<Longrightarrow> mkt_log m' k = mkt_log m k"
proof -
  have c: "NVRAM_Read32 (mkt_count_at i) m' = NVRAM_Read32 (mkt_count_at i) m" if "i < 8" for i
    using that by (intro assms(3)) (auto simp: mkt_count_at_def NV_SIZE_def)
  show "mkt_ok m'" using assms(1,2) c by (simp add: mkt_ok_def list_all_iff)
  show "mkt_log m' k = mkt_log m k" if k: "k < 8"
  proof -
    have "unat (NVRAM_Read32 (mkt_count_at k) m) \<le> 20" using assms(1) k by (auto simp: mkt_ok_def list_all_iff)
    then show ?thesis unfolding mkt_log_def c [OF k] using k
      by (intro mkt_samples_cong assms(3)) (auto simp: mkt_at_def NV_SIZE_def)
  qed
qed

definition clear_mean :: "nat \<Rightarrow> bytes \<Rightarrow> bytes" where
  "clear_mean k m = NVRAM_Write32 (NV_COUNT_SEN1 + k * 8) 0 (NVRAM_WriteFloat (NV_SUM_SEN1 + k * 8) 0 m)"

lemma clear_mean_other:
  assumes "length m = NV_SIZE" and "k < 8" and "b + 4 \<le> NV_SIZE" and "b + 4 \<le> 8 + k * 8 \<or> 16 + k * 8 \<le> b"
  shows "NVRAM_Read32 b (clear_mean k m) = NVRAM_Read32 b m"
proof -
  have n: "8 + k * 8 + 4 \<le> NV_SIZE" "0xC + k * 8 + 4 \<le> NV_SIZE" using assms(2) by (auto simp: NV_SIZE_def)
  have "NVRAM_Read32 b (NVRAM_Write32 (0xC + k * 8) 0 (NVRAM_Write32 (8 + k * 8) 0 m)) = NVRAM_Read32 b (NVRAM_Write32 (8 + k * 8) 0 m)"
    using assms n by (intro NVRAM_other) auto
  also have "\<dots> = NVRAM_Read32 b m" using assms n by (intro NVRAM_other) auto
  finally show ?thesis by (simp add: clear_mean_def NVRAM_WriteFloat_def)
qed

lemma clear_mean_count:
  assumes "length m = NV_SIZE" and "k < 8"
  shows "NVRAM_Read32 (NV_COUNT_SEN1 + k * 8) (clear_mean k m) = 0"
  unfolding clear_mean_def using assms by (intro NVRAM_same) (auto simp: NVRAM_WriteFloat_def NV_SIZE_def)

lemma clear_mean_mkt:
  assumes "mkt_ok m" and "i < 8"
  shows "mkt_ok (clear_mean i m)" and "k < 8 \<Longrightarrow> mkt_log (clear_mean i m) k = mkt_log m k"
  and "length (clear_mean i m) = NV_SIZE"
proof -
  have l: "length m = NV_SIZE" using assms(1) by (simp add: mkt_ok_def)
  then show l': "length (clear_mean i m) = NV_SIZE" by (simp add: clear_mean_def NVRAM_WriteFloat_def)
  have "NVRAM_Read32 b (clear_mean i m) = NVRAM_Read32 b m" if "0x48 \<le> b" "b + 4 \<le> NV_SIZE" for b
    using that assms(2) by (intro clear_mean_other l) auto
  note k = mkt_kept [OF assms(1) l' this]
  show "mkt_ok (clear_mean i m)" "k < 8 \<Longrightarrow> mkt_log (clear_mean i m) k = mkt_log m k" using k by auto
qed

lemma mkt_count_le: "mkt_ok m \<Longrightarrow> k < 8 \<Longrightarrow> unat (NVRAM_Read32 (mkt_count_at k) m) \<le> 20"
  by (auto simp: mkt_ok_def list_all_iff)

lemma CalculateMKT_log:
  assumes "mkt_ok m" and "k < 8"
  shows "CalculateMKT mkt (mkt_at k) (mkt_count_at k) m = Some (mkt (mkt_log m k))"
  using mkt_count_le [OF assms] by (simp add: CalculateMKT_def Let_def mkt_log_def mkt_samples_def)

lemma UpdateMKT_below:
  assumes "mkt_ok m" and "k < 8" and "b + 4 \<le> 0x4C"
  shows "NVRAM_Read32 b (UpdateMKT (mkt_at k) (mkt_count_at k) x m) = NVRAM_Read32 b m"
  using assms mkt_count_le [OF assms(1,2)]
  by (intro UpdateMKT_other) (auto simp: mkt_ok_def mkt_at_def mkt_count_at_def NV_SIZE_def)

lemma UpdateMKT_log:
  assumes "mkt_ok m" and "i < 8" and "k < 8"
  shows "mkt_log (UpdateMKT (mkt_at i) (mkt_count_at i) x m) k = (if k = i then log_append 20 x (mkt_log m i) else mkt_log m k)"
proof -
  have "map (mkt_log (UpdateMKT (mkt_at i) (mkt_count_at i) x m)) [0..<8] ! k = (map (mkt_log m) [0..<8])[i := log_append 20 x (mkt_log m i)] ! k"
    using UpdateMKT_logs [OF assms(1,2)] by simp
  moreover have "map f [0..<8] ! k = f k" for f :: "nat \<Rightarrow> u32 list" using assms(3) by (subst nth_map) simp_all
  ultimately show ?thesis using assms by (simp add: nth_list_update)
qed

text \<open>What the loop does to the memory at sensor \<open>k\<close>.\<close>

definition sampled_nv :: "bool \<Rightarrow> nat \<Rightarrow> sys \<Rightarrow> bytes" where
  "sampled_nv upd k s =
     (if \<not> has_samples k s then nv s
      else if upd then UpdateMKT (mkt_at k) (mkt_count_at k) (sensor_mean k s) (clear_mean k (nv s))
      else clear_mean k (nv s))"

lemma sampled_nv_mkt:
  assumes "mkt_ok (nv s)" and "i < 8"
  shows "mkt_ok (sampled_nv upd i s)"
    and "k < 8 \<Longrightarrow> mkt_log (sampled_nv upd i s) k = (if k = i then sample_log upd i s else mkt_log (nv s) k)"
    and "b + 4 \<le> 0x48 \<Longrightarrow> b + 4 \<le> 8 + i * 8 \<or> 16 + i * 8 \<le> b \<Longrightarrow> NVRAM_Read32 b (sampled_nv upd i s) = NVRAM_Read32 b (nv s)"
    and "NVRAM_Read32 (NV_COUNT_SEN1 + i * 8) (sampled_nv upd i s) = (if has_samples i s then 0 else NVRAM_Read32 (NV_COUNT_SEN1 + i * 8) (nv s))"
proof -
  have l: "length (nv s) = NV_SIZE" using assms(1) by (simp add: mkt_ok_def)
  note C = clear_mean_mkt [OF assms]
  note U = UpdateMKT_logs [OF C(1) assms(2)] and L = UpdateMKT_log [OF C(1) assms(2)] and B = UpdateMKT_below [OF C(1) assms(2)]
  show "mkt_ok (sampled_nv upd i s)" using assms C U by (simp add: sampled_nv_def)
  show "mkt_log (sampled_nv upd i s) k = (if k = i then sample_log upd i s else mkt_log (nv s) k)" if "k < 8"
    using that assms C(2) L by (simp add: sampled_nv_def sample_log_def)
  show "NVRAM_Read32 b (sampled_nv upd i s) = NVRAM_Read32 b (nv s)"
    if b: "b + 4 \<le> 0x48" "b + 4 \<le> 8 + i * 8 \<or> 16 + i * 8 \<le> b"
  proof -
    have n: "b + 4 \<le> NV_SIZE" "b + 4 \<le> 0x4C" using b(1) by (auto simp: NV_SIZE_def)
    show ?thesis using clear_mean_other [OF l assms(2) n(1) b(2)] B [OF n(2)] by (simp add: sampled_nv_def)
  qed
  have "0xC + i * 8 + 4 \<le> 0x4C" using assms(2) by simp
  from B [OF this] show "NVRAM_Read32 (NV_COUNT_SEN1 + i * 8) (sampled_nv upd i s) = (if has_samples i s then 0 else NVRAM_Read32 (NV_COUNT_SEN1 + i * 8) (nv s))"
    using clear_mean_count [OF l assms(2)] by (simp add: sampled_nv_def)
qed

lemma sample_column_step:
  assumes "mkt_ok (nv s)" and "k < 8" and "length (temp s) = 8" and "length d + 10 < 120"
    and f: "length (ftoa 2 (sample_value mkt upd k s)) < 10"
  shows "sample_column ftoa mkt upd k (d, s) =
     Some (d @ column ftoa mkt upd s k, s\<lparr>temp := (temp s)[k := sample_value mkt upd k s], nv := sampled_nv upd k s\<rparr>)"
proof -
  note C = clear_mean_mkt [OF assms(1,2)]
  have at: "NV_MKT_SEN1 + 80 * k = mkt_at k" "NV_MKT_COUNT_SEN1 + k * 4 = mkt_count_at k" by (simp_all add: mkt_at_def mkt_count_at_def)
  have same: "s\<lparr>temp := (temp s)[k := temp s ! k], nv := nv s\<rparr> = s" by (cases s) simp
  have tm: "take_mean k s = s\<lparr>temp := (temp s)[k := sensor_mean k s], nv := clear_mean k (nv s)\<rparr>"
    by (simp add: take_mean_def Let_def set_temp_def clear_mean_def sensor_mean_def NVRAM_ReadFloat_def)
  show ?thesis
  proof (cases "has_samples k s")
    case False
    then have v: "sample_value mkt upd k s = temp s ! k" "sampled_nv upd k s = nv s" by (simp_all add: sample_value_def sampled_nv_def)
    show ?thesis using False assms unfolding v same
      by (auto simp: sample_column_def has_samples_def column_def temp_to_ascii_def v)
  next
    case True
    then have e: "ENBLE (senzor s ! k) = 1" and c: "NVRAM_Read32 (NV_COUNT_SEN1 + k * 8) (nv s) \<noteq> 0" by (auto simp: has_samples_def)
    let ?s1 = "s\<lparr>temp := (temp s)[k := sensor_mean k s], nv := sampled_nv upd k s\<rparr>"
    have u: "(let s = take_mean k s;
                 s = (if upd then s\<lparr>nv := UpdateMKT (mkt_at k) (mkt_count_at k) (temp s ! k) (nv s)\<rparr> else s)
             in mkt_value mkt k s) = mkt_value mkt k ?s1"
      using assms(2,3) True by (simp add: tm Let_def sampled_nv_def)
    have m: "mkt_value mkt k ?s1 = Some (s\<lparr>temp := (temp s)[k := sample_value mkt upd k s], nv := sampled_nv upd k s\<rparr>)"
      using CalculateMKT_log [OF sampled_nv_mkt(1) [OF assms(1,2), of upd] assms(2), of mkt] sampled_nv_mkt(2) [OF assms(1,2,2), of upd] True
      unfolding mkt_value_def at by (simp add: set_temp_def sample_value_def)
    show ?thesis using c e f assms(2-4) unfolding sample_column_def at case_prod_conv u m
      by (simp add: column_def temp_to_ascii_def)
  qed
qed

definition only_samples :: "sys \<Rightarrow> sys \<Rightarrow> bool" where
  "only_samples s s' \<longleftrightarrow> (\<exists>T m. s' = s\<lparr>temp := T, nv := m\<rparr>)"

lemma only_samples_trans: "only_samples s s' \<Longrightarrow> only_samples s' s'' \<Longrightarrow> only_samples s s''"
  unfolding only_samples_def by force

lemma only_samples_refl [simp]: "only_samples s s"
proof -
  have "s = s\<lparr>temp := temp s, nv := nv s\<rparr>" by simp
  then show ?thesis unfolding only_samples_def by blast
qed

lemma only_samples_upd [simp]: "only_samples s (s\<lparr>temp := T, nv := m\<rparr>)"
  unfolding only_samples_def by blast

text \<open>The sensors from \<open>lo\<close> to \<open>hi\<close> have been sampled, the others are as they were.\<close>

definition after_samples :: "(u32 list \<Rightarrow> u32) \<Rightarrow> bool \<Rightarrow> nat \<Rightarrow> nat \<Rightarrow> sys \<Rightarrow> sys \<Rightarrow> bool" where
  "after_samples mkt upd lo hi s s' \<longleftrightarrow> only_samples s s' \<and> length (temp s') = 8 \<and> mkt_ok (nv s')
     \<and> (\<forall>k < 8. if lo \<le> k \<and> k < hi
          then temp s' ! k = sample_value mkt upd k s \<and> mkt_log (nv s') k = sample_log upd k s
               \<and> (has_samples k s \<longrightarrow> NVRAM_Read32 (NV_COUNT_SEN1 + k * 8) (nv s') = 0)
          else same_sensor k s s')"

lemma after_samples_one:
  assumes "mkt_ok (nv s)" and "i < 8" and "length (temp s) = 8"
  shows "after_samples mkt upd i (Suc i) s (s\<lparr>temp := (temp s)[i := sample_value mkt upd i s], nv := sampled_nv upd i s\<rparr>)"
proof -
  note N = sampled_nv_mkt [OF assms(1,2), where upd = upd]
  have "NVRAM_Read32 (8 + k * 8) (sampled_nv upd i s) = NVRAM_Read32 (8 + k * 8) (nv s)"
    and "NVRAM_Read32 (0xC + k * 8) (sampled_nv upd i s) = NVRAM_Read32 (0xC + k * 8) (nv s)" if "k < 8" "k \<noteq> i" for k
    using that assms(2) by (cases "k < i"; intro N(3); auto)+
  then show ?thesis using assms N(1,2,4)
    by (auto simp: after_samples_def same_sensor_def nth_list_update less_Suc_eq_le)
qed

lemma after_samples_trans:
  assumes "after_samples mkt upd lo mid s s'" and "after_samples mkt upd mid hi s' s''" and "lo \<le> mid" and "mid \<le> hi"
  shows "after_samples mkt upd lo hi s s''"
  unfolding after_samples_def
proof (intro conjI allI impI)
  show "only_samples s s''" using assms only_samples_trans by (auto simp: after_samples_def)
  show "length (temp s'') = 8" "mkt_ok (nv s'')" using assms by (auto simp: after_samples_def)
  fix k :: nat assume k: "k < 8"
  let ?P = "\<lambda>s s'. temp s' ! k = sample_value mkt upd k s \<and> mkt_log (nv s') k = sample_log upd k s
     \<and> (has_samples k s \<longrightarrow> NVRAM_Read32 (NV_COUNT_SEN1 + k * 8) (nv s') = 0)"
  have a: "if lo \<le> k \<and> k < mid then ?P s s' else same_sensor k s s'"
    and b: "if mid \<le> k \<and> k < hi then ?P s' s'' else same_sensor k s' s''"
    using assms(1,2) k by (auto simp: after_samples_def)
  consider "lo \<le> k \<and> k < mid" | "mid \<le> k \<and> k < hi" | "k < lo \<or> hi \<le> k" by force
  then show "if lo \<le> k \<and> k < hi then ?P s s'' else same_sensor k s s''"
  proof cases
    case 1
    then show ?thesis using a b assms(4) by (auto simp: same_sensor_def)
  next
    case 2
    then have "same_sensor k s s'" using a by auto
    then show ?thesis using 2 b assms(3)
      by (simp add: value_same has_samples_same) (simp add: sample_log_def same_sensor_def has_samples_def sensor_mean_def)
  next
    case 3
    then show ?thesis using a b assms(3,4) by (auto simp: same_sensor_def)
  qed
qed

lemma sample_columns_result:
  assumes "mkt_ok (nv s)" and "length (temp s) = 8" and "a + n \<le> 8" and "length d + 10 * n < 120"
    and f: "\<And>x. length (ftoa 2 x) < 10"
  shows "\<exists>s'. sample_columns ftoa mkt upd [a..<a + n] (d, s) = Some (d @ concat (map (column ftoa mkt upd s) [a..<a + n]), s')
     \<and> after_samples mkt upd a (a + n) s s'"
  using assms(1-4)
proof (induction n arbitrary: a d s)
  case 0
  then show ?case by (auto simp: after_samples_def same_sensor_def)
next
  case (Suc n)
  let ?s = "s\<lparr>temp := (temp s)[a := sample_value mkt upd a s], nv := sampled_nv upd a s\<rparr>"
  let ?d = "d @ column ftoa mkt upd s a"
  have a: "a < 8" using Suc.prems by simp
  have up: "[a..<a + Suc n] = a # [Suc a..<Suc a + n]" by (simp add: upt_conv_Cons)
  have st: "sample_column ftoa mkt upd a (d, s) = Some (?d, ?s)"
    using Suc.prems a f by (intro sample_column_step) auto
  have one: "after_samples mkt upd a (Suc a) s ?s" using Suc.prems a by (intro after_samples_one) auto
  have "length (column ftoa mkt upd s a) \<le> 10" using f [of "sample_value mkt upd a s"] by (simp add: column_def)
  then have "length ?d + 10 * n < 120" using Suc.prems(4) by simp
  then obtain s' where s': "sample_columns ftoa mkt upd [Suc a..<Suc a + n] (?d, ?s)
        = Some (?d @ concat (map (column ftoa mkt upd ?s) [Suc a..<Suc a + n]), s')"
      "after_samples mkt upd (Suc a) (Suc a + n) ?s s'"
    using Suc.IH [of ?s "Suc a" ?d] one Suc.prems by (auto simp: after_samples_def)
  have "map (column ftoa mkt upd ?s) [Suc a..<Suc a + n] = map (column ftoa mkt upd s) [Suc a..<Suc a + n]"
    using one Suc.prems(3) by (intro map_cong refl column_same) (auto simp: after_samples_def)
  then have "sample_columns ftoa mkt upd [a..<a + Suc n] (d, s) = Some (d @ concat (map (column ftoa mkt upd s) [a..<a + Suc n]), s')"
    by (simp only: up sample_columns.simps st s'(1) Option.bind.simps list.map concat.simps append_assoc)
  then show ?case using after_samples_trans [OF one s'(2)] by (intro exI [of _ s']) simp
qed

subsection \<open>The files\<close>

lemma length_dec4: "length (dec (unat (b :: byte) + 2000)) \<le> 4"
  using length_dec [of 4 "unat b + 2000"] unat_byte_less [of b] by simp

lemma length_decb: "length (decb b) \<le> 3"
  using length_dec [of 3 "unat b"] unat_byte_less [of b] by (simp add: decb_def)

lemma length_stamp: "length (stamp s) \<le> 16"
  using length_decb [of "datum s"] length_decb [of "sat s"] length_decb [of "minuta s"] length_decb [of "sekunda s"]
  by (simp add: stamp_def)

lemma length_month_header: "length (month_header g m) \<le> 23"
  using length_decb [of m] length_dec4 [of g] by (simp add: month_header_def)

definition temp_header :: "byte \<Rightarrow> byte \<Rightarrow> bytes" where
  "temp_header g m = month_header g m @ str '';'' @ sensor_columns"

definition alarm_header :: "byte \<Rightarrow> byte \<Rightarrow> bytes" where
  "alarm_header g m = month_header g m @ [13, 10] @ str ''DATUM;VRIJEME;SENZOR;TEMPERATURA;TIP'' @ [13, 10]"

lemma CreateDatName_eq: "CreateDatName g m fs = Some (log_name CHR ''T'' g m, lfs_create (log_name CHR ''T'' g m) (temp_header g m) fs)"
  using length_month_header [of g m] by (simp add: CreateDatName_def Let_def sensor_columns_def temp_header_def)

lemma CreateHaccpName_eq: "CreateHaccpName g m fs = Some (log_name CHR ''H'' g m, lfs_create (log_name CHR ''H'' g m) (temp_header g m) fs)"
  using length_month_header [of g m] by (simp add: CreateHaccpName_def Let_def sensor_columns_def temp_header_def)

lemma CreateAlarmName_eq: "CreateAlarmName g m fs = Some (log_name CHR ''A'' g m, lfs_create (log_name CHR ''A'' g m) (alarm_header g m) fs)"
  using length_month_header [of g m] by (simp add: CreateAlarmName_def Let_def alarm_header_def)

text \<open>The file of a name, with the line \<open>l\<close> at its end; a new file starts with its header.\<close>

definition with_line :: "bytes \<Rightarrow> bytes \<Rightarrow> bytes \<Rightarrow> logfs \<Rightarrow> bytes \<Rightarrow> bytes option" where
  "with_line n h l fs = (map_of fs)(n \<mapsto> (case map_of fs n of None \<Rightarrow> h | Some c \<Rightarrow> c) @ l)"

lemma append_with_line: "map_of (lfs_append n l (length l) (lfs_create n h fs)) = with_line n h l fs"
  unfolding with_line_def by (rule create_append)

text \<open>The state in which the loop starts: the clock is read and the first temperature overwritten.\<close>

definition sample_start :: "u32 \<Rightarrow> u32 \<Rightarrow> sys \<Rightarrow> sys" where
  "sample_start a8 a12 s = set_temp 0 (f32_div a8 (f32_of_int (uint a12))) (getDate (getTime s))"

definition sample_line :: "(nat \<Rightarrow> u32 \<Rightarrow> bytes) \<Rightarrow> (u32 list \<Rightarrow> u32) \<Rightarrow> bool \<Rightarrow> sys \<Rightarrow> bytes" where
  "sample_line ftoa mkt upd s = stamp s @ concat (map (column ftoa mkt upd s) [0..<8]) @ [13, 10]"

lemma sample_start_ok:
  assumes "sys_ok s" and "mkt_ok (nv s)"
  shows "mkt_ok (nv (sample_start a8 a12 s))" "length (temp (sample_start a8 a12 s)) = 8"
    "stamp (sample_start a8 a12 s) = stamp (getDate (getTime s))"
  using assms by (simp_all add: sample_start_def set_temp_def getDate_def getTime_def sys_ok_def stamp_def)

lemma sample_rows:
  assumes "sys_ok s" and "mkt_ok (nv s)" and f: "\<And>x. length (ftoa 2 x) < 10"
  shows "\<exists>d s'. sample_columns ftoa mkt upd [0..<8] (stamp (getDate (getTime s)), sample_start a8 a12 s) = Some (d, s')
     \<and> after_samples mkt upd 0 8 (sample_start a8 a12 s) s' \<and> d @ [13, 10] = sample_line ftoa mkt upd (sample_start a8 a12 s)
     \<and> length d + 2 < 120"
proof -
  let ?s = "sample_start a8 a12 s"
  let ?c = "concat (map (column ftoa mkt upd ?s) [0..<8])"
  obtain s' where s': "sample_columns ftoa mkt upd [0..<0 + 8] (stamp ?s, ?s) = Some (stamp ?s @ ?c, s')"
      "after_samples mkt upd 0 (0 + 8) ?s s'"
    using sample_columns_result [where ftoa = ftoa and mkt = mkt and upd = upd, OF sample_start_ok(1,2) [OF assms(1,2)], of 0 8 "stamp ?s" a8 a12] length_stamp [of ?s] f by auto
  have c: "length (column ftoa mkt upd ?s k) \<le> 10" for k
    using f [of "sample_value mkt upd k ?s"] by (simp add: column_def)
  have "length (concat (map (column ftoa mkt upd ?s) ks)) \<le> 10 * length ks" for ks
  proof (induction ks)
    case (Cons k ks)
    then show ?case using c [of k] by simp
  qed simp
  from this [of "[0..<8]"] have "length ?c \<le> 80" by simp
  then show ?thesis using s' length_stamp [of ?s] sample_start_ok(3) [OF assms(1,2)] by (auto simp: sample_line_def)
qed

lemma SaveTemp_writes:
  fixes a8 a12 :: u32
  assumes "sys_ok s" and "mkt_ok (nv s)" and f: "\<And>x. length (ftoa 2 x) < 10"
  defines "g \<equiv> RTC_Year (rtc s)" and "m \<equiv> RTC_Month (rtc s)" and "s0 \<equiv> sample_start a8 a12 s"
  shows "\<exists>s' fs'. SaveTemp ftoa mkt a8 a12 (s, fs) = Some (s', fs') \<and> after_samples mkt True 0 8 s0 s'
     \<and> map_of fs' = with_line (log_name CHR ''T'' g m) (temp_header g m) (sample_line ftoa mkt True s0) fs"
proof -
  have gm: "godina (getDate (getTime s)) = g" "mjesec (getDate (getTime s)) = m" by (simp_all add: getDate_def g_def m_def getTime_def)
  from sample_rows [where ftoa = ftoa, OF assms(1,2) f] obtain d s' where
    d: "sample_columns ftoa mkt True [0..<8] (stamp (getDate (getTime s)), s0) = Some (d, s')"
      "after_samples mkt True 0 8 s0 s'" "d @ [13, 10] = sample_line ftoa mkt True s0" "length d + 2 < 120"
    unfolding s0_def by blast
  let ?n = "log_name CHR ''T'' g m"
  have "SaveTemp ftoa mkt a8 a12 (s, fs) = Some (s', lfs_append ?n (d @ [13, 10]) (length (d @ [13, 10])) (lfs_create ?n (temp_header g m) fs))"
    using d(1,4) by (simp add: SaveTemp_def Let_def CreateDatName_eq gm s0_def sample_start_def)
  then show ?thesis using d(2,3) append_with_line by auto
qed

lemma SaveHaccp_writes:
  fixes a8 a12 :: u32
  assumes "sys_ok s" and "mkt_ok (nv s)" and f: "\<And>x. length (ftoa 2 x) < 10"
  defines "g \<equiv> RTC_Year (rtc s)" and "m \<equiv> RTC_Month (rtc s)" and "s0 \<equiv> sample_start a8 a12 s"
  shows "\<exists>s' fs'. SaveHaccp ftoa mkt a8 a12 (s, fs) = Some (s', fs') \<and> after_samples mkt False 0 8 s0 s'
     \<and> map_of fs' = with_line (log_name CHR ''H'' g m) (temp_header g m) (sample_line ftoa mkt False s0) fs"
proof -
  have gm: "godina (getDate (getTime s)) = g" "mjesec (getDate (getTime s)) = m" by (simp_all add: getDate_def g_def m_def getTime_def)
  from sample_rows [where ftoa = ftoa, OF assms(1,2) f] obtain d s' where
    d: "sample_columns ftoa mkt False [0..<8] (stamp (getDate (getTime s)), s0) = Some (d, s')"
      "after_samples mkt False 0 8 s0 s'" "d @ [13, 10] = sample_line ftoa mkt False s0" "length d + 2 < 120"
    unfolding s0_def by blast
  let ?n = "log_name CHR ''H'' g m"
  have "SaveHaccp ftoa mkt a8 a12 (s, fs) = Some (s', lfs_append ?n (d @ [13, 10]) (length (d @ [13, 10])) (lfs_create ?n (temp_header g m) fs))"
    using d(1,4) by (simp add: SaveHaccp_def Let_def CreateHaccpName_eq gm s0_def sample_start_def)
  then show ?thesis using d(2,3) append_with_line by auto
qed

text \<open>The line of an alarm.\<close>

definition alarm_kind :: "byte \<Rightarrow> bytes" where
  "alarm_kind type = (if type = 1 then str ''VISOKA TEMPERATURA;'' else if type = 2 then str ''NISKA TEMPERATURA;'' else [])"

definition alarm_line :: "(nat \<Rightarrow> u32 \<Rightarrow> bytes) \<Rightarrow> u32 \<Rightarrow> bytes \<Rightarrow> byte \<Rightarrow> sys \<Rightarrow> bytes" where
  "alarm_line ftoa t nm type s = stamp s @ nm @ str '';'' @ ftoa 2 t @ str '';'' @ alarm_kind type @ [13, 10]"

lemma SaveAlarm_writes:
  assumes "sys_ok s" and "c_str (eeRd ((k + 1) * 0x100 + EE_SENSOR_NAME) 30 (ee s)) = Some nm" and f: "length (ftoa 2 t) < 10"
  defines "g \<equiv> RTC_Year (rtc s)" and "m \<equiv> RTC_Month (rtc s)"
  shows "\<exists>s' fs' r. SaveAlarm ftoa t k type (s, fs) = Some (s', fs') \<and> s' = (getDate (getTime s))\<lparr>rBuf := r\<rparr> \<and> length r = 1024
     \<and> map_of fs' = with_line (log_name CHR ''A'' g m) (alarm_header g m) (alarm_line ftoa t nm type (getDate (getTime s))) fs"
proof -
  let ?s = "getDate (getTime s)"
  have gm: "godina ?s = g" "mjesec ?s = m" "ee ?s = ee s" "rBuf ?s = rBuf s" by (simp_all add: getDate_def g_def m_def getTime_def)
  have ok: "sys_ok ?s" using assms(1) by (simp add: getDate_def getTime_def sys_ok_def)
  define r where "r = eeRd ((k + 1) * 0x100 + EE_SENSOR_NAME) 30 (ee s) @ drop 30 (rBuf s)"
  have rd: "read_rBuf ((k + 1) * 0x100 + EE_SENSOR_NAME) 30 ?s = Some (?s\<lparr>rBuf := r\<rparr>)"
    using read_rBuf_eq [OF ok, of 30] by (simp add: r_def gm)
  have c: "c_str r = Some nm" unfolding r_def by (rule c_str_prefix [OF assms(2)])
  have l: "length r = 1024" using assms(1) by (simp add: r_def sys_ok_def)
  obtain z where "eeRd ((k + 1) * 0x100 + EE_SENSOR_NAME) 30 (ee s) = nm @ 0 # z" using c_str_SomeD [OF assms(2)] by blast
  from arg_cong [OF this, of length] have "length nm \<le> 30" by simp
  then have len: "length (alarm_line ftoa t nm type ?s) < 100"
    using f length_stamp [of ?s] by (simp add: alarm_line_def alarm_kind_def)
  have st: "stamp (?s\<lparr>rBuf := r\<rparr>) = stamp ?s" by (simp add: stamp_def)
  let ?n = "log_name CHR ''A'' g m" and ?l = "alarm_line ftoa t nm type ?s"
  have "SaveAlarm ftoa t k type (s, fs) = Some (?s\<lparr>rBuf := r\<rparr>, lfs_append ?n ?l (length ?l) (lfs_create ?n (alarm_header g m) fs))"
    using rd c f len unfolding SaveAlarm_def
    by (simp add: CreateAlarmName_eq gm st temp_to_ascii_def Let_def alarm_line_def alarm_kind_def)
  then show ?thesis using append_with_line l by auto
qed

end
