(* ===== verification/One_Wire.thy ===== *)
theory One_Wire
  imports Timer
begin

section \<open>The one wire bus (\<open>drajveri.c\<close>)\<close>

text \<open>
  The sensors hang on four DS2482 chips, which the firmware drives over I2C. Each driver function is a
  sequence of operations of the I2C peripheral with a wait for an event after most of them; a wait gives
  up when \<open>I2CTimer\<close>, which the millisecond interrupt advances, has passed \<open>IC_TIMEOUT_MS\<close>, and the
  function then returns at once. A function is the list of its steps; a step returns the value of an early
  return, or \<open>None\<close> to go on.

  The peripheral and what is connected to it are a parameter \<open>B\<close>, in whatever state \<open>'d\<close>. The lemmas show
  that every function returns within a bound whatever the bus does, and what happens on a bus that does not answer.
\<close>

subsection \<open>The peripheral\<close>

datatype i2c_event = MASTER_MODE_SELECT | MASTER_TRANSMITTER_MODE_SELECTED | MASTER_RECEIVER_MODE_SELECTED
  | MASTER_BYTE_TRANSMITTED | MASTER_BYTE_RECEIVED

text \<open>\<open>i_tick\<close> is a millisecond that passes; the address is written with the direction, \<open>True\<close> to receive.\<close>

record 'd i2c =
  i_busy :: "'d \<Rightarrow> bool"
  i_event :: "i2c_event \<Rightarrow> 'd \<Rightarrow> bool"
  i_tick :: "'d \<Rightarrow> 'd"
  i_start :: "'d \<Rightarrow> 'd"
  i_stop :: "'d \<Rightarrow> 'd"
  i_addr :: "byte \<Rightarrow> bool \<Rightarrow> 'd \<Rightarrow> 'd"
  i_send :: "byte \<Rightarrow> 'd \<Rightarrow> 'd"
  i_recv :: "'d \<Rightarrow> byte \<times> 'd"
  i_ack :: "bool \<Rightarrow> 'd \<Rightarrow> 'd"

record 'd ow =
  ow_dev :: 'd
  ow_clk :: clock
  delay_count :: u16
  I2C_error :: byte
  ow_status :: byte

type_synonym 'd ow_step = "'d ow \<Rightarrow> byte option \<times> 'd ow"

definition IC_TIMEOUT_MS :: u32 where "IC_TIMEOUT_MS = 50"
definition I2C_TIMEOUT_ERR :: byte where "I2C_TIMEOUT_ERR = 23"
definition DELAY_COUNT_NUM :: u16 where "DELAY_COUNT_NUM = 100 * 5"
definition STATUS_1WB :: byte where "STATUS_1WB = 0x01"
definition CMD_DRST :: byte where "CMD_DRST = 0xF0"
definition CMD_WCFG :: byte where "CMD_WCFG = 0xD2"
definition CMD_1WRS :: byte where "CMD_1WRS = 0xB4"
definition CMD_1WRB :: byte where "CMD_1WRB = 0x96"
definition CMD_1WWB :: byte where "CMD_1WWB = 0xA5"
definition CMD_SRP :: byte where "CMD_SRP = 0xE1"
definition DS2482 :: byte where "DS2482 = 0x30"

text \<open>For a channel outside 1 to 4 the local \<open>adrs\<close> is not set.\<close>

definition DS2482_channel_select :: "byte \<Rightarrow> byte option" where
  "DS2482_channel_select chnl =
     (let chnl = (if chnl = 1 then 4 else if chnl = 2 then 3 else if chnl = 3 then 2 else if chnl = 4 then 1 else chnl)
      in if chnl = 1 then Some DS2482
         else if chnl = 2 then Some (DS2482 + 4)
         else if chnl = 3 then Some (DS2482 + 2)
         else if chnl = 4 then Some (DS2482 + 6)
         else None)"

definition on_dev :: "('d \<Rightarrow> 'd) \<Rightarrow> 'd ow_step" where
  "on_dev f w = (None, w\<lparr>ow_dev := f (ow_dev w)\<rparr>)"

definition RECEIVE :: "'d i2c \<Rightarrow> 'd ow_step" where
  "RECEIVE B w = (let (b, d) = i_recv B (ow_dev w) in (None, w\<lparr>ow_dev := d, ow_status := b\<rparr>))"

definition set_I2CTimer :: "u32 \<Rightarrow> 'd ow \<Rightarrow> 'd ow" where
  "set_I2CTimer n w = w\<lparr>ow_clk := (ow_clk w)\<lparr>I2CTimer := n\<rparr>\<rparr>"

definition pass_ms :: "'d i2c \<Rightarrow> 'd ow \<Rightarrow> 'd ow" where
  "pass_ms B w = w\<lparr>ow_dev := i_tick B (ow_dev w), ow_clk := IncrementTimer (ow_clk w)\<rparr>"

text \<open>
  One wait. \<open>n\<close> is the value of \<open>I2CTimer\<close> (lemma \<open>wait_from_timer\<close>); the rounds of the loop inside one
  millisecond see the same peripheral and are one round here. \<open>stop\<close> says whether the time-out branch
  generates a STOP, which the waits for a free bus do not, except in \<open>OWreset\<close>.
\<close>

function wait_from :: "nat \<Rightarrow> 'd i2c \<Rightarrow> bool \<Rightarrow> ('d \<Rightarrow> bool) \<Rightarrow> 'd ow_step" where
  "wait_from n B stop p w =
     (if p (ow_dev w) then (None, w)
      else if n > unat IC_TIMEOUT_MS
      then (Some I2C_TIMEOUT_ERR, set_I2CTimer 0 (if stop then w\<lparr>ow_dev := i_stop B (ow_dev w)\<rparr> else w))
      else wait_from (Suc n) B stop p (pass_ms B w))"
  by auto
termination by (relation "measure (\<lambda>(n, B, stop, p, w). Suc (unat IC_TIMEOUT_MS) - n)") auto

declare wait_from.simps [simp del]

definition wait_event :: "'d i2c \<Rightarrow> i2c_event \<Rightarrow> 'd ow_step" where
  "wait_event B ev w = wait_from 1 B True (i_event B ev) (set_I2CTimer 1 w)"

definition wait_free :: "'d i2c \<Rightarrow> bool \<Rightarrow> 'd ow_step" where
  "wait_free B stop w = wait_from 1 B stop (\<lambda>d. \<not> i_busy B d) (set_I2CTimer 1 w)"

fun steps :: "'d ow_step list \<Rightarrow> 'd ow_step" where
  "steps [] w = (None, w)"
| "steps (f # fs) w = (case f w of (None, w) \<Rightarrow> steps fs w | (Some e, w) \<Rightarrow> (Some e, w))"

text \<open>START, address and data, each with the wait for its event.\<close>

definition START :: "'d i2c \<Rightarrow> 'd ow_step" where
  "START B = steps [on_dev (i_start B), wait_event B MASTER_MODE_SELECT]"

definition ADDRESS :: "'d i2c \<Rightarrow> byte \<Rightarrow> bool \<Rightarrow> 'd ow_step" where
  "ADDRESS B chipAdr receiver = steps [on_dev (i_addr B chipAdr receiver),
     wait_event B (if receiver then MASTER_RECEIVER_MODE_SELECTED else MASTER_TRANSMITTER_MODE_SELECTED)]"

definition SEND :: "'d i2c \<Rightarrow> byte \<Rightarrow> 'd ow_step" where
  "SEND B b = steps [on_dev (i_send B b), wait_event B MASTER_BYTE_TRANSMITTED]"

text \<open>The loop that reads the status until the one wire bus is free.\<close>

definition poll_once :: "'d i2c \<Rightarrow> 'd ow_step" where
  "poll_once B = steps [wait_event B MASTER_BYTE_RECEIVED, RECEIVE B,
     (\<lambda>w. (None, w\<lparr>delay_count := delay_count w + 1\<rparr>)),
     (\<lambda>w. if delay_count w > DELAY_COUNT_NUM then (Some (ow_status w), w\<lparr>I2C_error := 1\<rparr>) else (None, w))]"

lemma wait_from_count [simp]: "delay_count (snd (wait_from n B stop p w)) = delay_count w"
proof (induction n B stop p w rule: wait_from.induct)
  case (1 n B stop p w)
  then show ?case by (subst wait_from.simps) (simp add: pass_ms_def set_I2CTimer_def)
qed

lemma poll_once_count:
  assumes "poll_once B w = (None, w')"
  shows "delay_count w' = delay_count w + 1 \<and> delay_count w' \<le> 500"
proof -
  obtain r w1 where r: "wait_event B MASTER_BYTE_RECEIVED w = (r, w1)" by fastforce
  have "delay_count (snd (wait_event B MASTER_BYTE_RECEIVED w)) = delay_count w"
    by (simp add: wait_event_def set_I2CTimer_def)
  then show ?thesis using assms r
    by (auto simp: poll_once_def RECEIVE_def DELAY_COUNT_NUM_def split: prod.splits option.splits if_splits)
qed

function poll_status :: "'d i2c \<Rightarrow> 'd ow_step" where
  "poll_status B w =
     (case poll_once B w of
        (Some e, w) \<Rightarrow> (Some e, w)
      | (None, w) \<Rightarrow> if ow_status w AND STATUS_1WB \<noteq> 0 then poll_status B w else (None, w))"
  by auto
termination
proof (relation "measure (\<lambda>(B, w). if delay_count w \<le> 500 then 501 - unat (delay_count w) else 1000)", goal_cases)
  case (2 B w x w1)
  have "delay_count w1 = delay_count w + 1" "delay_count w1 \<le> 500" using poll_once_count [of B w w1] 2 by auto
  then show ?case
    by (auto simp: word_le_nat_alt unat_word_ariths split: if_splits)
qed simp

declare poll_status.simps [simp del]

definition clear_count :: "'d ow_step" where
  "clear_count w = (None, w\<lparr>delay_count := 0\<rparr>)"

subsection \<open>The driver\<close>

text \<open>The returned value is that of an early return, or \<open>r\<close> at the end of the function.\<close>

definition run :: "'d ow_step list \<Rightarrow> ('d ow \<Rightarrow> byte) \<Rightarrow> 'd ow \<Rightarrow> byte \<times> 'd ow" where
  "run fs r w = (case steps fs w of (Some e, w) \<Rightarrow> (e, w) | (None, w) \<Rightarrow> (r w, w))"

definition OWreset :: "'d i2c \<Rightarrow> byte \<Rightarrow> 'd ow \<Rightarrow> (byte \<times> 'd ow) option" where
  "OWreset B channel w = do {
     chipAdr \<leftarrow> DS2482_channel_select channel;
     Some (run [wait_free B True, START B, ADDRESS B chipAdr False, SEND B CMD_1WRS,
       START B, ADDRESS B chipAdr True, on_dev (i_ack B True),
       wait_event B MASTER_BYTE_RECEIVED, RECEIVE B, clear_count, poll_status B,
       wait_event B MASTER_BYTE_RECEIVED, on_dev (i_ack B False), RECEIVE B, on_dev (i_ack B False), RECEIVE B,
       on_dev (i_stop B)] (\<lambda>_. 0) w) }"

definition OWWriteByte :: "'d i2c \<Rightarrow> byte \<Rightarrow> byte \<Rightarrow> 'd ow \<Rightarrow> (byte \<times> 'd ow) option" where
  "OWWriteByte B channel dta w = do {
     chipAdr \<leftarrow> DS2482_channel_select channel;
     Some (run [wait_free B False, START B, ADDRESS B chipAdr False, SEND B CMD_1WWB, SEND B dta,
       START B, ADDRESS B chipAdr True, on_dev (i_ack B True),
       wait_event B MASTER_BYTE_RECEIVED, RECEIVE B, clear_count, poll_status B,
       wait_event B MASTER_BYTE_RECEIVED, on_dev (i_ack B False), RECEIVE B,
       on_dev (i_stop B)] (\<lambda>_. 0) w) }"

text \<open>The steps of \<open>OWReadByte\<close> before it stores the byte, of which the second half reads the data register.\<close>

definition read_command :: "'d i2c \<Rightarrow> byte \<Rightarrow> 'd ow_step list" where
  "read_command B chipAdr =
     [wait_free B False, START B, ADDRESS B chipAdr False, SEND B CMD_1WRB,
      START B, ADDRESS B chipAdr True, on_dev (i_ack B True),
      wait_event B MASTER_BYTE_RECEIVED, RECEIVE B, clear_count, poll_status B,
      wait_event B MASTER_BYTE_RECEIVED, on_dev (i_ack B False), RECEIVE B,
      wait_event B MASTER_BYTE_RECEIVED]"

definition read_data :: "'d i2c \<Rightarrow> byte \<Rightarrow> 'd ow_step list" where
  "read_data B chipAdr =
     [on_dev (i_ack B True), START B, ADDRESS B chipAdr False, SEND B CMD_SRP, SEND B 0xE1,
      START B, ADDRESS B chipAdr True, on_dev (i_ack B False), wait_event B MASTER_BYTE_RECEIVED]"

text \<open>\<open>dta\<close> is the byte the pointer refers to: the old value goes in, the new one comes out.\<close>

definition OWReadByte :: "'d i2c \<Rightarrow> byte \<Rightarrow> byte \<Rightarrow> 'd ow \<Rightarrow> (byte \<times> byte \<times> 'd ow) option" where
  "OWReadByte B channel dta w = do {
     chipAdr \<leftarrow> DS2482_channel_select channel;
     Some (case steps (read_command B chipAdr @ read_data B chipAdr) w of
         (Some e, w) \<Rightarrow> (e, dta, w)
       | (None, w) \<Rightarrow> (let (b, d) = i_recv B (ow_dev w) in (0, b, w\<lparr>ow_dev := i_stop B d\<rparr>))) }"

definition DS2482_reset :: "'d i2c \<Rightarrow> byte \<Rightarrow> 'd ow \<Rightarrow> (byte \<times> 'd ow) option" where
  "DS2482_reset B channel w = do {
     chipAdr \<leftarrow> DS2482_channel_select channel;
     Some (run [wait_free B False, START B, ADDRESS B chipAdr False, SEND B CMD_DRST,
       START B, ADDRESS B chipAdr True, on_dev (i_ack B False),
       wait_event B MASTER_BYTE_RECEIVED, RECEIVE B, on_dev (i_stop B)]
       (\<lambda>w. if ow_status w AND 0xF7 = 0x10 then 1 else 0) w) }"

definition DS2482_init :: "'d i2c \<Rightarrow> byte \<Rightarrow> 'd ow \<Rightarrow> (byte \<times> 'd ow) option" where
  "DS2482_init B channel w = do {
     chipAdr \<leftarrow> DS2482_channel_select channel;
     Some (run [wait_free B False, START B, ADDRESS B chipAdr False, SEND B CMD_WCFG, SEND B 0xA5,
       START B, ADDRESS B chipAdr True, on_dev (i_ack B False),
       wait_event B MASTER_BYTE_RECEIVED, RECEIVE B, on_dev (i_stop B)]
       (\<lambda>w. if ow_status w AND 0xF7 = 0x10 then 1 else 0) w) }"

subsection \<open>Time\<close>

text \<open>At most \<open>n\<close> milliseconds pass between two states, by the tick counter.\<close>

definition took :: "nat \<Rightarrow> 'd ow \<Rightarrow> 'd ow \<Rightarrow> bool" where
  "took n w w' \<longleftrightarrow> (\<exists>k \<le> n. sysTyck (ow_clk w') = sysTyck (ow_clk w) + of_nat k)"

lemma took_refl [simp]: "took n w w"
  unfolding took_def by (intro exI [of _ 0]) simp

lemma took_trans: "took m w w' \<Longrightarrow> took n w' w'' \<Longrightarrow> took (m + n) w w''"
  unfolding took_def by (metis (no_types, lifting) add.assoc add_mono of_nat_add)

lemma took_mono: "took m w w' \<Longrightarrow> m \<le> n \<Longrightarrow> took n w w'"
  unfolding took_def by (meson le_trans)

lemma took_clk: "sysTyck (ow_clk w') = sysTyck (ow_clk w) \<Longrightarrow> took n w w'"
  unfolding took_def by (intro exI [of _ 0]) simp

lemma wait_from_timer:
  assumes "I2CTimer (ow_clk w) = of_nat n" and "0 < n" and "n \<le> 51"
  shows "wait_from n B stop p w =
     (if p (ow_dev w) then (None, w)
      else if I2CTimer (ow_clk w) > IC_TIMEOUT_MS
      then (Some I2C_TIMEOUT_ERR, set_I2CTimer 0 (if stop then w\<lparr>ow_dev := i_stop B (ow_dev w)\<rparr> else w))
      else wait_from (Suc n) B stop p (pass_ms B w))
   \<and> (I2CTimer (ow_clk w) \<le> IC_TIMEOUT_MS \<longrightarrow> I2CTimer (ow_clk (pass_ms B w)) = of_nat (Suc n))"
proof -
  have n: "unat (of_nat n :: u32) = n" using assms(3) by (simp add: unat_of_nat)
  then have "(of_nat n :: u32) \<noteq> 0" using assms(2) by (metis less_irrefl unat_0)
  moreover have "IC_TIMEOUT_MS < I2CTimer (ow_clk w) \<longleftrightarrow> unat IC_TIMEOUT_MS < n"
    unfolding assms(1) word_less_nat_alt n ..
  ultimately show ?thesis using assms(1)
    by (subst wait_from.simps) (simp add: pass_ms_def IncrementTimer_def add.commute)
qed

lemma wait_from_time: "took (51 - n) w (snd (wait_from n B stop p w))"
proof (induction n B stop p w rule: wait_from.induct)
  case (1 n B stop p w)
  have ms: "took 1 w (pass_ms B w)"
    unfolding took_def by (intro exI [of _ 1]) (simp add: pass_ms_def IncrementTimer_def)
  show ?case
  proof (cases "p (ow_dev w) \<or> n > unat IC_TIMEOUT_MS")
    case True
    then show ?thesis by (subst wait_from.simps) (auto simp: set_I2CTimer_def intro: took_clk)
  next
    case False
    then have t: "took (51 - Suc n) (pass_ms B w) (snd (wait_from n B stop p w))" and n: "n \<le> 50"
      using 1 by (simp_all add: wait_from.simps [of n] IC_TIMEOUT_MS_def)
    have "1 + (51 - Suc n) = 51 - n" using n by simp
    then show ?thesis using took_trans [OF ms t] by metis
  qed
qed

text \<open>A step that takes at most \<open>n\<close> milliseconds from every state.\<close>

definition within :: "nat \<Rightarrow> 'd ow_step \<Rightarrow> bool" where
  "within n f \<longleftrightarrow> (\<forall>w. took n w (snd (f w)))"

lemma within_wait [simp]: "within 50 (wait_event B ev)" "within 50 (wait_free B stop)"
proof -
  have "took 50 w (snd (wait_from 1 B stop p (set_I2CTimer 1 w)))" for stop p w
    using took_trans [of 0 w "set_I2CTimer 1 w" 50] wait_from_time [of 1 "set_I2CTimer 1 w" B stop p]
    by (simp add: took_clk set_I2CTimer_def)
  then show "within 50 (wait_event B ev)" "within 50 (wait_free B stop)"
    by (simp_all add: within_def wait_event_def wait_free_def)
qed

lemma within_ops [simp]: "within 0 (on_dev f)" "within 0 (RECEIVE B)" "within 0 clear_count"
  by (auto simp: within_def on_dev_def RECEIVE_def clear_count_def Let_def split: prod.split intro: took_clk)

lemma within_steps: "list_all2 within ns fs \<Longrightarrow> within (sum_list ns) (steps fs)"
proof (induction ns fs rule: list_all2_induct)
  case Nil
  then show ?case by (simp add: within_def)
next
  case (Cons n ns f fs)
  have "took (n + sum_list ns) w (snd (steps (f # fs) w))" for w
  proof -
    obtain r w1 where f: "f w = (r, w1)" by fastforce
    then have t: "took n w w1" using Cons(1) by (metis within_def snd_conv)
    show ?thesis
    proof (cases r)
      case None
      then show ?thesis using f t took_trans [of n w w1 "sum_list ns" "snd (steps fs w1)"] Cons.IH by (simp add: within_def)
    next
      case (Some e)
      then show ?thesis using f took_mono [OF t] by simp
    qed
  qed
  then show ?case by (simp add: within_def)
qed

lemma within_transfers [simp]: "within 50 (START B)" "within 50 (ADDRESS B a r)" "within 50 (SEND B b)"
  using within_steps [of "[0, 50]" "[on_dev f, wait_event B ev]" for f ev]
  by (simp_all add: START_def ADDRESS_def SEND_def)

lemma within_poll_once: "within 50 (poll_once B)"
proof -
  have "list_all2 within [50, 0, 0, 0] [wait_event B MASTER_BYTE_RECEIVED, RECEIVE B,
     (\<lambda>w. (None, w\<lparr>delay_count := delay_count w + 1\<rparr>)),
     (\<lambda>w. if delay_count w > DELAY_COUNT_NUM then (Some (ow_status w), w\<lparr>I2C_error := 1\<rparr>) else (None, w))]"
    by simp (auto simp: within_def intro: took_clk)
  from within_steps [OF this] show ?thesis by (simp add: poll_once_def)
qed

lemma poll_status_time: "delay_count w \<le> 500 \<Longrightarrow> took (50 * (501 - unat (delay_count w))) w (snd (poll_status B w))"
proof (induction B w rule: poll_status.induct)
  case (1 B w)
  obtain r w1 where p: "poll_once B w = (r, w1)" by fastforce
  then have t: "took 50 w w1" using within_poll_once [of B] by (metis within_def snd_conv)
  have n: "unat (delay_count w) \<le> 500" using 1(2) by (simp add: word_le_nat_alt)
  show ?case
  proof (cases "r = None \<and> ow_status w1 AND STATUS_1WB \<noteq> 0")
    case False
    have "took (50 * (501 - unat (delay_count w))) w w1" using n by (intro took_mono [OF t]) simp
    then show ?thesis using p False by (subst poll_status.simps) (auto split: option.splits)
  next
    case True
    then have c: "delay_count w1 = delay_count w + 1" "delay_count w1 \<le> 500"
      using poll_once_count [of B w w1] p by auto
    then have u: "unat (delay_count w1) = unat (delay_count w) + 1" using n by (simp add: unat_word_ariths)
    have "took (50 * (501 - unat (delay_count w1))) w1 (snd (poll_status B w1))"
      using p True c(2) by (intro 1(1)) auto
    from took_trans [OF t this] show ?thesis
      using p True u n by (subst poll_status.simps) (simp add: algebra_simps)
  qed
qed

lemma within_poll [simp]: "within 25100 (poll_status B)"
proof -
  have "took 25100 w (snd (poll_status B w))" for w
  proof (cases "delay_count w \<le> 500")
    case True
    then show ?thesis by (intro took_mono [OF poll_status_time]) simp_all
  next
    case False
    obtain r w1 where p: "poll_once B w = (r, w1)" by fastforce
    then have t: "took 50 w w1" using within_poll_once [of B] by (metis within_def snd_conv)
    show ?thesis
    proof (cases r)
      case None
      then have "delay_count w1 \<le> 500" using poll_once_count [of B w w1] p by blast
      then have "took 25050 w1 (snd (poll_status B w1))" by (intro took_mono [OF poll_status_time]) simp_all
      from took_trans [OF t this] show ?thesis
        using p None took_mono [OF t, of 25100] by (subst poll_status.simps) simp
    next
      case (Some e)
      then show ?thesis using p took_mono [OF t, of 25100] by (subst poll_status.simps) simp
    qed
  qed
  then show ?thesis by (simp add: within_def)
qed

lemma within_run: "list_all2 within ns fs \<Longrightarrow> took (sum_list ns) w (snd (run fs r w))"
  using within_steps [of ns fs] by (auto simp: run_def within_def split: prod.splits option.splits) (metis snd_conv)+

text \<open>The four channels, and the bound of every driver function.\<close>

lemma channel_cases:
  assumes "1 \<le> channel" and "channel \<le> 4"
  obtains "channel = 1" | "channel = 2" | "channel = 3" | "channel = (4 :: byte)"
proof -
  have "unat channel = 1 \<or> unat channel = 2 \<or> unat channel = 3 \<or> unat channel = 4"
    using assms by (auto simp: word_le_nat_alt)
  then show ?thesis using that by (auto simp: word_unat_eq_iff)
qed

lemma channel_selected:
  assumes "1 \<le> channel" and "channel \<le> 4"
  shows "\<exists>a. DS2482_channel_select channel = Some a"
  using channel_cases [OF assms] by cases (simp_all add: DS2482_channel_select_def)

lemma run_time:
  assumes "list_all2 within ns fs" and "sum_list ns = n"
  shows "\<exists>e w'. Some (run fs r w) = Some (e, w') \<and> took n w w'"
  using within_run [OF assms(1), of w r] assms(2) by (metis prod.collapse)

lemma OWreset_time:
  assumes "1 \<le> channel" and "channel \<le> 4"
  shows "\<exists>r w'. OWreset B channel w = Some (r, w') \<and> took 25500 w w'"
proof -
  obtain a where a: "DS2482_channel_select channel = Some a" using channel_selected [OF assms] by blast
  show ?thesis unfolding OWreset_def a Option.bind.simps
    by (rule run_time [of "[50, 50, 50, 50, 50, 50, 0, 50, 0, 0, 25100, 50, 0, 0, 0, 0, 0]"]) simp_all
qed

lemma OWWriteByte_time:
  assumes "1 \<le> channel" and "channel \<le> 4"
  shows "\<exists>r w'. OWWriteByte B channel dta w = Some (r, w') \<and> took 25550 w w'"
proof -
  obtain a where a: "DS2482_channel_select channel = Some a" using channel_selected [OF assms] by blast
  show ?thesis unfolding OWWriteByte_def a Option.bind.simps
    by (rule run_time [of "[50, 50, 50, 50, 50, 50, 50, 0, 50, 0, 0, 25100, 50, 0, 0, 0]"]) simp_all
qed

lemma OWReadByte_time:
  assumes "1 \<le> channel" and "channel \<le> 4"
  shows "\<exists>r b w'. OWReadByte B channel dta w = Some (r, b, w') \<and> took 25900 w w'"
proof -
  obtain a where a: "DS2482_channel_select channel = Some a" using channel_selected [OF assms] by blast
  have "within (sum_list [50, 50, 50, 50, 50, 50, 0, 50, 0, 0, 25100, 50, 0, 0, 50, 0, 50, 50, 50, 50, 50, 50, 0, 50])
      (steps (read_command B a @ read_data B a))"
    by (rule within_steps) (simp add: read_command_def read_data_def)
  then have t: "took 25900 w (snd (steps (read_command B a @ read_data B a) w))" by (simp add: within_def)
  obtain r w1 where s: "steps (read_command B a @ read_data B a) w = (r, w1)" by fastforce
  then have "took 25900 w w1" using t by simp
  then show ?thesis unfolding OWReadByte_def a Option.bind.simps s
    by (cases r) (auto simp: took_def split: prod.split)
qed

lemma DS2482_time:
  assumes "1 \<le> channel" and "channel \<le> 4"
  shows "\<exists>r w'. DS2482_reset B channel w = Some (r, w') \<and> took 350 w w'"
    and "\<exists>r w'. DS2482_init B channel w = Some (r, w') \<and> took 400 w w'"
proof -
  obtain a where a: "DS2482_channel_select channel = Some a" using channel_selected [OF assms] by blast
  show "\<exists>r w'. DS2482_reset B channel w = Some (r, w') \<and> took 350 w w'" unfolding DS2482_reset_def a Option.bind.simps
    by (rule run_time [of "[50, 50, 50, 50, 50, 50, 0, 50, 0, 0]"]) simp_all
  show "\<exists>r w'. DS2482_init B channel w = Some (r, w') \<and> took 400 w w'" unfolding DS2482_init_def a Option.bind.simps
    by (rule run_time [of "[50, 50, 50, 50, 50, 50, 50, 0, 50, 0, 0]"]) simp_all
qed

subsection \<open>A bus that does not answer\<close>

text \<open>No START condition ever succeeds.\<close>

definition dead :: "'d i2c \<Rightarrow> bool" where
  "dead B \<longleftrightarrow> (\<forall>d. \<not> i_event B MASTER_MODE_SELECT d)"

lemma wait_from_fails: "(\<And>d. \<not> p d) \<Longrightarrow> \<exists>w'. wait_from n B stop p w = (Some I2C_TIMEOUT_ERR, w')"
  by (induction n B stop p w rule: wait_from.induct) (subst wait_from.simps, simp)

lemma wait_event_dead:
  assumes "\<And>d. \<not> i_event B ev d"
  shows "\<exists>w'. wait_event B ev w = (Some I2C_TIMEOUT_ERR, w')"
  unfolding wait_event_def using assms by (rule wait_from_fails)

lemma START_dead:
  assumes "dead B"
  shows "\<exists>w'. START B w = (Some I2C_TIMEOUT_ERR, w')"
proof -
  obtain w' where "wait_event B MASTER_MODE_SELECT (w\<lparr>ow_dev := i_start B (ow_dev w)\<rparr>) = (Some I2C_TIMEOUT_ERR, w')"
    using wait_event_dead [of B MASTER_MODE_SELECT] assms by (auto simp: dead_def)
  then show ?thesis by (simp add: START_def on_dev_def)
qed

lemma wait_from_result: "\<exists>w'. wait_from n B stop p w = (None, w') \<or> wait_from n B stop p w = (Some I2C_TIMEOUT_ERR, w')"
  by (induction n B stop p w rule: wait_from.induct) (subst (1 2) wait_from.simps, simp)

lemma steps_dead:
  assumes "dead B"
  shows "\<exists>w'. steps (wait_free B stop # START B # fs) w = (Some I2C_TIMEOUT_ERR, w')"
proof -
  obtain w1 where "wait_free B stop w = (None, w1) \<or> wait_free B stop w = (Some I2C_TIMEOUT_ERR, w1)"
    unfolding wait_free_def using wait_from_result by blast
  moreover obtain w2 where "START B w1 = (Some I2C_TIMEOUT_ERR, w2)" using START_dead [OF assms] by blast
  ultimately show ?thesis by auto
qed

lemma dead_bus:
  fixes w :: "'a ow"
  assumes "dead B" and "1 \<le> channel" and "channel \<le> 4"
  shows "\<exists>w'. OWreset B channel w = Some (I2C_TIMEOUT_ERR, w')"
    and "\<exists>w'. OWWriteByte B channel x w = Some (I2C_TIMEOUT_ERR, w')"
    and "\<exists>w'. OWReadByte B channel dta w = Some (I2C_TIMEOUT_ERR, dta, w')"
proof -
  obtain a where a: "DS2482_channel_select channel = Some a" using channel_selected [OF assms(2,3)] by blast
  have s: "\<exists>w'. run (wait_free B stop # START B # fs) r w = (I2C_TIMEOUT_ERR, w')" for stop fs and r :: "'a ow \<Rightarrow> byte"
    using steps_dead [OF assms(1), of stop fs w] by (auto simp del: steps.simps simp: run_def)
  show "\<exists>w'. OWreset B channel w = Some (I2C_TIMEOUT_ERR, w')"
    using s unfolding OWreset_def a Option.bind.simps by simp
  show "\<exists>w'. OWWriteByte B channel x w = Some (I2C_TIMEOUT_ERR, w')"
    using s unfolding OWWriteByte_def a Option.bind.simps by simp
  obtain w' where "steps (read_command B a @ read_data B a) w = (Some I2C_TIMEOUT_ERR, w')"
    using steps_dead [OF assms(1)] unfolding read_command_def append_Cons by blast
  then show "\<exists>w'. OWReadByte B channel dta w = Some (I2C_TIMEOUT_ERR, dta, w')"
    unfolding OWReadByte_def a Option.bind.simps by simp
qed

end
