(* ===== verification/Sensors.thy ===== *)
theory Sensors
  imports Logger One_Wire Crc
begin

section \<open>Measuring (\<open>1wire.c\<close>)\<close>

text \<open>
  \<open>ptReadTemp\<close> is a protothread that starts a conversion on each enabled sensor in turn, waits a second,
  reads the scratchpad, and after the last sensor compares the temperatures with the limits. Its state is
  the line it resumes at, the static \<open>k\<close> and \<open>channel\<close>, the buffer \<open>dsBuf\<close> and the bus. The results of the
  bus functions are not looked at, as in the source.

  The lemmas show how a scratchpad becomes a temperature, that a scratchpad with a wrong checksum changes
  no temperature, what the hysteresis of \<open>test_alarm\<close> promises, and what the thread makes of a bus that does
  not answer.
\<close>

subsection \<open>The limits\<close>

abbreviation (input) NO_ALARM :: byte where "NO_ALARM \<equiv> 0"
abbreviation (input) ALARM_ERR :: byte where "ALARM_ERR \<equiv> 3"

text \<open>Limits and hysteresis are converted to \<open>float\<close>; the last part of the function only sets a local variable.\<close>

definition test_alarm :: "u32 \<Rightarrow> byte \<Rightarrow> byte \<Rightarrow> byte \<Rightarrow> byte \<Rightarrow> nat \<Rightarrow> bytes \<Rightarrow> u16 \<times> byte \<times> bytes" where
  "test_alarm fTemp highlimit lowlimit hist st snum m =
     (let fHlimit = f32_of_int (sint highlimit); fLlimit = f32_of_int (sint lowlimit); h = f32_of_int (uint hist)
      in if st = NO_ALARM
         then if f32_le (f32_add fHlimit h) fTemp then (1, ALARM_HI, m)
              else if f32_le fTemp (f32_sub fLlimit h) then (2, ALARM_LOW, m)
              else (0, st, m)
         else if st = ALARM_HI
         then if f32_le fTemp (f32_sub fHlimit h) then (0, NO_ALARM, NVRAM_Write32 (NV_DELAY_SEN1 + snum * 4) 0 m) else (0, st, m)
         else if st = ALARM_LOW
         then if f32_le (f32_add fLlimit h) fTemp then (0, NO_ALARM, NVRAM_Write32 (NV_DELAY_SEN1 + snum * 4) 0 m) else (0, st, m)
         else (0, st, m))"

definition ONEWIRE_ERROR_COUNT :: byte where "ONEWIRE_ERROR_COUNT = 5"

text \<open>The second loop of \<open>ptReadTemp\<close>; \<open>alarm\<close> has eight bits.\<close>

definition check_sensor :: "(nat \<Rightarrow> u32 \<Rightarrow> bytes) \<Rightarrow> nat \<Rightarrow> sys \<times> logfs \<Rightarrow> (sys \<times> logfs) option" where
  "check_sensor ftoa k = (\<lambda>(s, fs).
     let x = senzor s ! k
     in if ENBLE x \<noteq> 0
        then (let (al, s) =
                (if error_counter x = 0
                 then (let (r, st, m) = test_alarm (temp s ! k) (HIGHLIMIT x) (LOWLIMIT x) (HIS x) (STATE x) k (nv s)
                       in (ucast r :: byte, upd_sensor k (STATE_update (\<lambda>_. st)) (s\<lparr>nv := m\<rparr>)))
                 else if error_counter x = ONEWIRE_ERROR_COUNT
                 then (ALARM_ERR, upd_sensor k (error_counter_update (\<lambda>e. e + 2)) s)
                 else (0, s))
              in if al \<noteq> 0
                 then SaveAlarm ftoa (temp s ! k) k al (s\<lparr>nv := NVRAM_Write32 (NV_DELAY_SEN1 + k * 4) 1 (nv s)\<rparr>, fs)
                 else Some (s, fs))
        else Some (s, fs))"

fun check_sensors :: "(nat \<Rightarrow> u32 \<Rightarrow> bytes) \<Rightarrow> nat list \<Rightarrow> sys \<times> logfs \<Rightarrow> (sys \<times> logfs) option" where
  "check_sensors ftoa [] sf = Some sf"
| "check_sensors ftoa (k # ks) sf = do { sf \<leftarrow> check_sensor ftoa k sf; check_sensors ftoa ks sf }"

subsection \<open>A scratchpad\<close>

text \<open>The checksum, spoiled on purpose for the value the sensor has after a reset (85 degrees).\<close>

definition scratchpad_sum :: "bytes \<Rightarrow> byte option" where
  "scratchpad_sum buf = do {
     chk_sum \<leftarrow> calc_crc buf 8;
     Some (if buf ! 0 = 0x50 \<and> buf ! 1 = 0x05 then chk_sum + 1 else chk_sum) }"

text \<open>\<open>6 * readtemp\<close> and \<open>readtemp / 4\<close> are computed in \<open>int\<close>, their sum and the division by 100 in \<open>float\<close>.\<close>

definition reading_value :: "byte \<Rightarrow> byte \<Rightarrow> u32" where
  "reading_value low high =
     (let readtemp = of_nat (unat high * 256 + unat low) :: u16;
          SignBit = readtemp AND 0x8000;
          readtemp = (if SignBit \<noteq> 0 then (readtemp XOR 0xFFFF) + 1 else readtemp);
          fTemp = f32_add (f32_of_int (6 * uint readtemp)) (f32_of_int (uint readtemp div 4));
          fTemp = f32_div fTemp (f32_of_int 100)
      in if SignBit \<noteq> 0 then f32_sub 0 fTemp else fTemp)"

definition OK :: byte where "OK = 1"
definition KO :: byte where "KO = 0"

definition good_reading :: "nat \<Rightarrow> bytes \<Rightarrow> sys \<Rightarrow> sys" where
  "good_reading k buf s =
     (let t = f32_add (reading_value (buf ! 0) (buf ! 1)) (kalibracija (senzor s ! k));
          m = NVRAM_WriteFloat (NV_SUM_SEN1 + k * 8) (f32_add (NVRAM_ReadFloat (NV_SUM_SEN1 + k * 8) (nv s)) t) (nv s);
          m = NVRAM_Write32 (NV_COUNT_SEN1 + k * 8) (NVRAM_Read32 (NV_COUNT_SEN1 + k * 8) m + 1) m
      in upd_sensor k (error_counter_update (\<lambda>_. 0)) (s\<lparr>temp := (temp s)[k := t], nv := m, state := (state s)[k := OK]\<rparr>))"

definition bad_reading :: "nat \<Rightarrow> sys \<Rightarrow> sys" where
  "bad_reading k s =
     (let s = (if error_counter (senzor s ! k) < ONEWIRE_ERROR_COUNT then upd_sensor k (error_counter_update (\<lambda>e. e + 1)) s else s)
      in s\<lparr>state := (state s)[k := KO]\<rparr>)"

definition process_reading :: "nat \<Rightarrow> bytes \<Rightarrow> sys \<Rightarrow> sys option" where
  "process_reading k buf s = do {
     chk_sum \<leftarrow> scratchpad_sum buf;
     Some (if chk_sum = buf ! 8 then good_reading k buf s else bad_reading k s) }"

subsection \<open>The thread\<close>

fun write_bytes :: "'d i2c \<Rightarrow> byte \<Rightarrow> bytes \<Rightarrow> 'd ow \<Rightarrow> 'd ow option" where
  "write_bytes B channel [] w = Some w"
| "write_bytes B channel (b # bs) w = do { (r, w) \<leftarrow> OWWriteByte B channel b w; write_bytes B channel bs w }"

fun read_bytes :: "'d i2c \<Rightarrow> byte \<Rightarrow> nat list \<Rightarrow> bytes \<times> 'd ow \<Rightarrow> (bytes \<times> 'd ow) option" where
  "read_bytes B channel [] bw = Some bw"
| "read_bytes B channel (cnt # cnts) bw = (case bw of (buf, w) \<Rightarrow> do {
     (r, b, w) \<leftarrow> OWReadByte B channel (buf ! cnt) w;
     read_bytes B channel cnts (buf[cnt := b], w) })"

text \<open>\<open>OWreset\<close>, MATCH ROM with the identifier of the sensor, and a command.\<close>

definition address_sensor :: "'d i2c \<Rightarrow> byte \<Rightarrow> bytes \<Rightarrow> byte \<Rightarrow> 'd ow \<Rightarrow> 'd ow option" where
  "address_sensor B channel rom cmd w = do {
     (r, w) \<leftarrow> OWreset B channel w;
     write_bytes B channel ([0x55] @ take 8 rom @ [cmd]) w }"

definition DS18B20Code :: "'d i2c \<Rightarrow> bytes \<Rightarrow> 'd ow \<Rightarrow> (byte \<times> bytes \<times> 'd ow) option" where
  "DS18B20Code B buf w = do {
     (r, w) \<leftarrow> OWreset B 1 w;
     (r, w) \<leftarrow> OWWriteByte B 1 0x33 w;
     (buf, w) \<leftarrow> read_bytes B 1 [0..<8] (buf, w);
     res \<leftarrow> OWI_CheckRomCRC buf;
     Some (res, buf, w) }"

record 'd meter =
  m_sys :: sys
  m_logs :: logfs
  m_ow :: "'d ow"
  m_lc :: nat
  m_k :: nat
  m_channel :: byte
  ReadTimer :: timer
  dsBuf :: bytes

definition DSREAD_TIME :: u32 where "DSREAD_TIME = 1000"

definition start_conversion :: "'d i2c \<Rightarrow> nat \<Rightarrow> 'd meter \<Rightarrow> 'd meter option" where
  "start_conversion B k m = do {
     let x = senzor (m_sys m) ! k;
     w \<leftarrow> address_sensor B (KANAL x) (CODE x) 0x44 (m_ow m);
     Some (m\<lparr>m_ow := w, m_channel := KANAL x, ReadTimer := timer_set (ow_clk w) DSREAD_TIME\<rparr>) }"

definition read_sensor :: "'d i2c \<Rightarrow> 'd meter \<Rightarrow> 'd meter option" where
  "read_sensor B m = do {
     w \<leftarrow> address_sensor B (m_channel m) (CODE (senzor (m_sys m) ! m_k m)) 0xBE (m_ow m);
     (buf, w) \<leftarrow> read_bytes B (m_channel m) [0..<9] (dsBuf m, w);
     s \<leftarrow> process_reading (m_k m) buf (m_sys m);
     Some (m\<lparr>m_ow := w, dsBuf := buf, m_sys := s\<rparr>) }"

text \<open>
  The first loop from \<open>k\<close> on, up to the wait of the next enabled sensor, whose timer has just been set and
  has not expired, or to the end of the thread.
\<close>

function next_sensor :: "'d i2c \<Rightarrow> (nat \<Rightarrow> u32 \<Rightarrow> bytes) \<Rightarrow> nat \<Rightarrow> 'd meter \<Rightarrow> 'd meter option" where
  "next_sensor B ftoa k m =
     (if k < 8
      then if ENBLE (senzor (m_sys m) ! k) \<noteq> 0
           then do { m \<leftarrow> start_conversion B k m; Some (m\<lparr>m_k := k, m_lc := 290\<rparr>) }
           else next_sensor B ftoa (Suc k) (m\<lparr>m_sys := (m_sys m)\<lparr>state := (state (m_sys m))[k := 0]\<rparr>\<rparr>)
      else do {
        (s, fs) \<leftarrow> check_sensors ftoa [0..<8] (m_sys m, m_logs m);
        Some (m\<lparr>m_sys := s, m_logs := fs, m_k := 8, m_lc := 0\<rparr>) })"
  by auto
termination by (relation "measure (\<lambda>(B, ftoa, k, m). 8 - k)") auto

declare next_sensor.simps [simp del]

definition ptReadTemp :: "'d i2c \<Rightarrow> (nat \<Rightarrow> u32 \<Rightarrow> bytes) \<Rightarrow> 'd meter \<Rightarrow> 'd meter option" where
  "ptReadTemp B ftoa m =
     (if m_lc m = 0 then Some (m\<lparr>m_lc := 278\<rparr>)
      else if m_lc m = 278 then next_sensor B ftoa 0 m
      else if m_lc m = 290
      then (if timer_expired (ow_clk (m_ow m)) (ReadTimer m)
            then do { m \<leftarrow> read_sensor B m; next_sensor B ftoa (Suc (m_k m)) m }
            else Some m)
      else Some (m\<lparr>m_lc := 0\<rparr>))"

subsection \<open>The value of a reading\<close>

text \<open>The register holds sixteenths of a degree in two's complement; the hundredths are cut off.\<close>

definition raw_reading :: "byte \<Rightarrow> byte \<Rightarrow> int" where
  "raw_reading low high = sint (of_nat (unat high * 256 + unat low) :: u16)"

lemma sint_u16: "sint (of_int i :: u16) = (i + 32768) mod 65536 - 32768"
  by (simp add: signed_of_int signed_take_bit_eq_take_bit_shift take_bit_eq_mod)

lemma sign_bit16: "(w :: u16) AND 0x8000 \<noteq> 0 \<longleftrightarrow> sint w < 0"
proof -
  have "(0x8000 :: u16) = 2 ^ 15" by simp
  then have "w AND 0x8000 \<noteq> 0 \<longleftrightarrow> bit w 15" by (metis and_exp_eq_0_iff_not_bit)
  then show ?thesis using bit_last_iff [of w] by simp
qed

lemma xor_all_ones: "(w :: u16) XOR 0xFFFF = NOT w"
proof -
  have m: "(0xFFFF :: u16) = - 1" by simp
  show ?thesis unfolding m by (rule bit_word_eqI) (simp add: bit_simps)
qed

lemma sint_u16_cases: "sint (w :: u16) = (if uint w < 32768 then uint w else uint w - 65536)"
proof -
  have s: "sint w = (uint w + 32768) mod 65536 - 32768" using sint_u16 [of "uint w"] by simp
  have u: "0 \<le> uint w" "uint w < 65536" using unsigned_less [of w] by (simp_all add: uint_bounded)
  show ?thesis
  proof (cases "uint w < 32768")
    case True
    then show ?thesis using s u by (simp add: mod_pos_pos_trivial)
  next
    case False
    have "(uint w + 32768) mod 65536 = (uint w - 32768 + 65536) mod 65536" by (simp add: add.commute)
    also have "\<dots> = uint w - 32768" using False u by (simp only: mod_add_self2) (simp add: mod_pos_pos_trivial)
    finally show ?thesis using False s by simp
  qed
qed

lemma magnitude16:
  fixes w :: u16
  shows "uint (if w AND 0x8000 \<noteq> 0 then (w XOR 0xFFFF) + 1 else w) = \<bar>sint w\<bar>"
proof -
  have u: "0 \<le> uint w" "uint w < 65536" using unsigned_less [of w] by (simp_all add: uint_bounded)
  have n: "(w XOR 0xFFFF) + 1 = - w" by (simp add: xor_all_ones minus_eq_not_plus_1)
  have "(- uint w) mod 65536 = 65536 - uint w" if "0 < uint w"
    using that u by (subst zmod_zminus1_eq_if) (simp add: mod_pos_pos_trivial)
  then have "uint (- w) = 65536 - uint w" if "0 < uint w" using that by (simp add: uint_word_ariths)
  then show ?thesis using u unfolding sign_bit16 n by (auto simp: sint_u16_cases)
qed

lemma sint_u16_bound: "\<bar>sint (w :: u16)\<bar> \<le> 32768"
  using unsigned_less [of w, where 'a = int] by (auto simp: sint_u16_cases)

text \<open>The hundredths of a degree, towards zero.\<close>

definition hundredths :: "int \<Rightarrow> int" where
  "hundredths r = 25 * \<bar>r\<bar> div 4"

definition degrees :: "int \<Rightarrow> u32" where
  "degrees r = (let t = f32_div (f32_of_int (hundredths r)) (f32_of_int 100) in if r < 0 then f32_sub 0 t else t)"

lemma hundredths_sum:
  assumes "\<bar>r\<bar> \<le> 32768"
  shows "f32_add (f32_of_int (6 * \<bar>r\<bar>)) (f32_of_int (\<bar>r\<bar> div 4)) = f32_of_int (hundredths r)"
proof -
  define a where "a = \<bar>r\<bar>"
  have a: "0 \<le> a" "a \<le> 32768" using assms by (simp_all add: a_def)
  have d: "0 \<le> a div 4" "a div 4 \<le> 8192" using a by presburger+
  have "25 * a = a + 4 * (6 * a)" by simp
  then have "25 * a div 4 = 6 * a + a div 4" by (simp only: div_mult_self2)
  then have h: "6 * a + a div 4 = hundredths r" by (simp add: hundredths_def a_def)
  have p: "(2 :: int) ^ 24 = 16777216" by simp
  have "f32_add (f32_of_int (6 * a)) (f32_of_int (a div 4)) = f32_of_int (6 * a + a div 4)"
    using a d by (intro f32_add_int; unfold p; linarith)
  then show ?thesis unfolding h unfolding a_def .
qed

lemma reading_value_degrees: "reading_value low high = degrees (raw_reading low high)"
  unfolding reading_value_def Let_def magnitude16 hundredths_sum [OF sint_u16_bound]
  unfolding degrees_def raw_reading_def Let_def sign_bit16 ..

subsection \<open>Good and bad scratchpads\<close>

definition after_reset :: "bytes \<Rightarrow> bool" where
  "after_reset buf \<longleftrightarrow> buf ! 0 = 0x50 \<and> buf ! 1 = 0x05"

lemma scratchpad_sum_eq:
  "8 \<le> length buf \<Longrightarrow> scratchpad_sum buf = Some (crc8 (take 8 buf) + (if after_reset buf then 1 else 0))"
  by (simp add: scratchpad_sum_def calc_crc_eq after_reset_def)

lemma reading_accepted:
  assumes "length buf = 10" and "crc8 (take 8 buf) = buf ! 8" and "\<not> after_reset buf"
  shows "process_reading k buf s = Some (good_reading k buf s)"
  using assms by (simp add: process_reading_def scratchpad_sum_eq)

lemma reading_refused:
  assumes "length buf = 10" and "crc8 (take 8 buf) = buf ! 8 \<longleftrightarrow> after_reset buf"
  shows "process_reading k buf s = Some (bad_reading k s) \<or> after_reset buf \<and> crc8 (take 8 buf) + 1 = buf ! 8"
  using assms by (auto simp: process_reading_def scratchpad_sum_eq)

lemma good_reading_fields:
  fixes buf :: bytes
  assumes "sys_ok s" and "k < 8"
  defines "t \<equiv> f32_add (degrees (raw_reading (buf ! 0) (buf ! 1))) (kalibracija (senzor s ! k))"
  defines "s' \<equiv> good_reading k buf s"
  shows "temp s' = (temp s)[k := t]" and "error_counter (senzor s' ! k) = 0" and "state s' ! k = 1"
    and "NVRAM_Read32 (NV_SUM_SEN1 + k * 8) (nv s') = f32_add (NVRAM_Read32 (NV_SUM_SEN1 + k * 8) (nv s)) t"
    and "NVRAM_Read32 (NV_COUNT_SEN1 + k * 8) (nv s') = NVRAM_Read32 (NV_COUNT_SEN1 + k * 8) (nv s) + 1"
    and "ee s' = ee s"
proof -
  have len: "length (nv s) = NV_SIZE" "length (senzor s) = 8" "length (state s) = 8" using assms(1) by (auto simp: sys_ok_def)
  have b: "8 + k * 8 + 4 \<le> NV_SIZE" "12 + k * 8 + 4 \<le> NV_SIZE" using assms(2) by (auto simp: NV_SIZE_def)
  let ?f = "f32_add (NVRAM_Read32 (NV_SUM_SEN1 + k * 8) (nv s)) t"
  let ?m = "NVRAM_Write32 (NV_SUM_SEN1 + k * 8) ?f (nv s)"
  let ?c = "NVRAM_Read32 (NV_COUNT_SEN1 + k * 8) ?m + 1"
  have n: "nv s' = NVRAM_Write32 (NV_COUNT_SEN1 + k * 8) ?c ?m"
    by (simp add: s'_def good_reading_def Let_def upd_sensor_def reading_value_degrees t_def NVRAM_ReadFloat_def NVRAM_WriteFloat_def)
  have c: "NVRAM_Read32 (NV_COUNT_SEN1 + k * 8) ?m = NVRAM_Read32 (NV_COUNT_SEN1 + k * 8) (nv s)"
    using len b by (intro NVRAM_other) auto
  show "NVRAM_Read32 (NV_COUNT_SEN1 + k * 8) (nv s') = NVRAM_Read32 (NV_COUNT_SEN1 + k * 8) (nv s) + 1"
    unfolding n using len b c by (subst NVRAM_same) auto
  have "NVRAM_Read32 (NV_SUM_SEN1 + k * 8) (nv s') = NVRAM_Read32 (NV_SUM_SEN1 + k * 8) ?m"
    unfolding n using len b by (intro NVRAM_other) auto
  also have "\<dots> = ?f" using len b by (intro NVRAM_same) auto
  finally show "NVRAM_Read32 (NV_SUM_SEN1 + k * 8) (nv s') = ?f" .
  show "temp s' = (temp s)[k := t]" "error_counter (senzor s' ! k) = 0" "state s' ! k = 1" "ee s' = ee s"
    using len assms(2) by (simp_all add: s'_def good_reading_def Let_def upd_sensor_def reading_value_degrees t_def OK_def)
qed

text \<open>What a refused scratchpad leaves alone.\<close>

lemma bad_reading_fields:
  assumes "sys_ok s" and "k < 8"
  defines "s' \<equiv> bad_reading k s"
  shows "temp s' = temp s" and "nv s' = nv s" and "ee s' = ee s" and "state s' ! k = 0"
    and "error_counter (senzor s' ! k) = (if error_counter (senzor s ! k) < 5 then error_counter (senzor s ! k) + 1 else error_counter (senzor s ! k))"
  using assms by (simp_all add: bad_reading_def Let_def upd_sensor_def KO_def sys_ok_def ONEWIRE_ERROR_COUNT_def)

lemma damaged_scratchpad:
  assumes "length buf = 10" and "crc8 (take 8 buf) = buf ! 8" and "i < 9" and "x \<noteq> buf ! i" and "\<not> after_reset (buf[i := x])"
  shows "process_reading k (buf[i := x]) s = Some (bad_reading k s)"
proof -
  have "crc8 (take 8 (buf[i := x])) \<noteq> buf[i := x] ! 8"
  proof (cases "i = 8")
    case True
    then show ?thesis using assms by simp
  next
    case False
    then have "crc8 (take 8 (buf[i := x])) \<noteq> crc8 (take 8 buf)"
      using assms crc8_damaged [of i "take 8 buf" x] by (simp add: take_update_swap)
    then show ?thesis using assms False by simp
  qed
  then show ?thesis using assms by (simp add: process_reading_def scratchpad_sum_eq)
qed

subsection \<open>A bus that does not answer\<close>

lemma dead_write_bytes:
  "dead B \<Longrightarrow> 1 \<le> channel \<Longrightarrow> channel \<le> 4 \<Longrightarrow> \<exists>w'. write_bytes B channel bs w = Some w'"
proof (induction bs arbitrary: w)
  case (Cons b bs)
  obtain w1 where "OWWriteByte B channel b w = Some (I2C_TIMEOUT_ERR, w1)" using dead_bus(2) [OF Cons.prems] by blast
  then show ?case using Cons.IH [OF Cons.prems, of w1] by simp
qed simp

lemma dead_read_bytes:
  "dead B \<Longrightarrow> 1 \<le> channel \<Longrightarrow> channel \<le> 4 \<Longrightarrow> \<exists>w'. read_bytes B channel cnts (buf, w) = Some (buf, w')"
proof (induction cnts arbitrary: w)
  case (Cons c cnts)
  obtain w1 where "OWReadByte B channel (buf ! c) w = Some (I2C_TIMEOUT_ERR, buf ! c, w1)" using dead_bus(3) [OF Cons.prems] by blast
  then show ?case using Cons.IH [OF Cons.prems, of w1] by simp
qed simp

lemma dead_address_sensor:
  assumes "dead B" and "1 \<le> channel" and "channel \<le> 4"
  shows "\<exists>w'. address_sensor B channel rom cmd w = Some w'"
proof -
  obtain w1 where "OWreset B channel w = Some (I2C_TIMEOUT_ERR, w1)" using dead_bus(1) [OF assms] by blast
  then show ?thesis using dead_write_bytes [OF assms, of "[0x55] @ take 8 rom @ [cmd]" w1] by (simp add: address_sensor_def)
qed

text \<open>The buffer is read as it was left: the last good scratchpad of another sensor counts as this one's.\<close>

lemma dead_bus_keeps_reading:
  assumes "dead B" and "1 \<le> m_channel m" and "m_channel m \<le> 4"
    and "length (dsBuf m) = 10" and "crc8 (take 8 (dsBuf m)) = dsBuf m ! 8" and "\<not> after_reset (dsBuf m)"
  shows "\<exists>m'. read_sensor B m = Some m' \<and> dsBuf m' = dsBuf m \<and> m_sys m' = good_reading (m_k m) (dsBuf m) (m_sys m)"
proof -
  obtain w1 where w1: "address_sensor B (m_channel m) (CODE (senzor (m_sys m) ! m_k m)) 0xBE (m_ow m) = Some w1"
    using dead_address_sensor [OF assms(1-3)] by blast
  obtain w2 where "read_bytes B (m_channel m) [0..<9] (dsBuf m, w1) = Some (dsBuf m, w2)"
    using dead_read_bytes [OF assms(1-3)] by blast
  then show ?thesis using w1 reading_accepted [OF assms(4-6)] by (simp add: read_sensor_def del: upt_Suc)
qed

lemma crc8_zeros: "crc8 (replicate n 0) = 0"
proof (induction n)
  case (Suc n)
  have "crc8 (replicate n 0 @ [0]) = 0" using Suc by (simp add: crc8_residue)
  then show ?case by (simp add: replicate_append_same)
qed (simp add: crc8_def)

subsection \<open>Hysteresis\<close>

lemma f32_le_int: "\<bar>i\<bar> < 2 ^ 24 \<Longrightarrow> \<bar>j\<bar> < 2 ^ 24 \<Longrightarrow> f32_le (f32_of_int i) (f32_of_int j) \<longleftrightarrow> i \<le> j"
  using f32_less_int [of j i] by (auto simp: f32_le_def f32_less_def f32_of_int_fields)

definition over :: "byte \<Rightarrow> byte \<Rightarrow> u32 \<Rightarrow> bool" where
  "over limit h t \<longleftrightarrow> f32_le (f32_of_int (sint limit + uint h)) t"

definition under :: "byte \<Rightarrow> byte \<Rightarrow> u32 \<Rightarrow> bool" where
  "under limit h t \<longleftrightarrow> f32_le t (f32_of_int (sint limit - uint h))"

lemma byte_bounds: "- 128 \<le> sint (b :: byte)" "sint (b :: byte) < 128" "uint (b :: byte) < 256"
  using sint_greater_eq [of b] sint_less [of b] unsigned_less [of b, where 'a = int] by simp_all

lemma limits_int:
  "f32_add (f32_of_int (sint (l :: byte))) (f32_of_int (uint (h :: byte))) = f32_of_int (sint l + uint h)"
  "f32_sub (f32_of_int (sint l)) (f32_of_int (uint h)) = f32_of_int (sint l - uint h)"
  using byte_bounds [of l] byte_bounds(3) [of h] uint_ge_0 [of h]
  by (intro f32_add_int f32_sub_int; simp add: abs_if; linarith)+

lemma test_alarm_eq:
  "test_alarm t hl ll h st k m =
     (if st = 0 then (if over hl h t then (1, 1, m) else if under ll h t then (2, 2, m) else (0, 0, m))
      else if st = 1 \<and> under hl h t \<or> st = 2 \<and> over ll h t then (0, 0, NVRAM_Write32 (NV_DELAY_SEN1 + k * 4) 0 m)
      else (0, st, m))"
  by (auto simp: test_alarm_def Let_def limits_int over_def under_def)

text \<open>A sequence of readings of one sensor; the results are the alarms it raises.\<close>

fun alarms :: "byte \<Rightarrow> byte \<Rightarrow> byte \<Rightarrow> nat \<Rightarrow> u32 list \<Rightarrow> byte \<times> bytes \<Rightarrow> u16 list" where
  "alarms hl ll h k [] sm = []"
| "alarms hl ll h k (t # ts) sm =
     (let (r, sm) = test_alarm t hl ll h (fst sm) k (snd sm) in r # alarms hl ll h k ts sm)"

definition recovered :: "byte \<Rightarrow> byte \<Rightarrow> byte \<Rightarrow> u16 \<Rightarrow> u32 \<Rightarrow> bool" where
  "recovered hl ll h r t \<longleftrightarrow> (if r = 1 then under hl h t else over ll h t)"

lemma length_alarms [simp]: "length (alarms hl ll h k ts sm) = length ts"
  by (induction ts arbitrary: sm) (simp_all add: Let_def split: prod.split)

lemma alarms_in_alarm:
  assumes "j < length ts" and "alarms hl ll h k ts (of_nat r, m) ! j \<noteq> 0" and "r = 1 \<or> r = 2"
  shows "\<exists>i < j. recovered hl ll h (of_nat r) (ts ! i)"
  using assms
proof (induction ts arbitrary: j m)
  case (Cons t ts)
  have z: "fst (test_alarm t hl ll h (of_nat r) k m) = 0" using Cons.prems(3) by (auto simp: test_alarm_eq)
  show ?case
  proof (cases j)
    case 0
    then show ?thesis using Cons.prems(2) z by (simp add: Let_def split: prod.splits)
  next
    case (Suc j')
    show ?thesis
    proof (cases "recovered hl ll h (of_nat r) t")
      case True
      then show ?thesis using Suc by (intro exI [of _ 0]) simp
    next
      case False
      then have "test_alarm t hl ll h (of_nat r) k m = (0, of_nat r, m)"
        using Cons.prems(3) by (auto simp: test_alarm_eq recovered_def)
      then have "\<exists>i < j'. recovered hl ll h (of_nat r) (ts ! i)"
        using Cons.prems Suc by (intro Cons.IH [of j' m]) auto
      then show ?thesis using Suc by auto
    qed
  qed
qed simp

lemma alarm_not_repeated:
  assumes "i < j" and "j < length ts"
    and "alarms hl ll h k ts (st, m) ! i = r" and "r \<noteq> 0" and "alarms hl ll h k ts (st, m) ! j \<noteq> 0"
  shows "\<exists>l. i < l \<and> l < j \<and> recovered hl ll h r (ts ! l)"
  using assms
proof (induction ts arbitrary: i j st m)
  case (Cons t ts)
  obtain r1 st1 m1 where t: "test_alarm t hl ll h st k m = (r1, st1, m1)" by (metis prod_cases3)
  obtain j' where j: "j = Suc j'" using Cons.prems(1) by (cases j) auto
  show ?case
  proof (cases i)
    case 0
    then have r: "r1 = r" "r1 \<noteq> 0" using Cons.prems t by auto
    then have "\<exists>n. (n = 1 \<or> n = 2) \<and> st1 = of_nat n \<and> r = of_nat n" using t by (auto simp: test_alarm_eq split: if_splits)
    then obtain n where n: "n = 1 \<or> n = 2" "st1 = of_nat n" "r = of_nat n" by blast
    have "\<exists>l < j'. recovered hl ll h (of_nat n) (ts ! l)"
      using Cons.prems t j n by (intro alarms_in_alarm [of j' ts hl ll h k n m1]) auto
    then show ?thesis using 0 j n(3) by (metis Suc_less_eq nth_Cons_Suc zero_less_Suc)
  next
    case (Suc i')
    then have "\<exists>l. i' < l \<and> l < j' \<and> recovered hl ll h r (ts ! l)"
      using Cons.prems t j by (intro Cons.IH [of i' j' st1 m1]) auto
    then show ?thesis using Suc j by (metis Suc_less_eq nth_Cons_Suc)
  qed
qed simp

end
