(* ===== verification/Main_Loop.thy ===== *)
theory Main_Loop
  imports Sensors
begin

section \<open>The tasks of the main loop (\<open>main.c\<close>, \<open>1wire.c\<close>, \<open>logger.c\<close>)\<close>

text \<open>
  \<open>main\<close> calls its tasks in turn without end. Those that test the clock keep the minute they saw last
  and act once when it changes; those that wait are protothreads. The state holds the device, its log files
  and the variables of these tasks. Parameters are those of theory \<open>Logger\<close>.

  The lemmas show at which minutes a sample is taken, that an alarm is reported when its delay is over and
  not before, and that the queued WhatsApp message goes to each receiver once.
\<close>

subsection \<open>Clock tasks\<close>

record tasks =
  t_sys :: sys
  t_logs :: logfs
  hr :: byte
  mn :: byte
  sc :: byte
  oldmin :: byte
  old_haccp_min :: u32
  old_reset_min :: u32
  sntpoldhr :: byte
  scanflag :: byte
  sms_old_min :: u32
  sms_status :: byte

definition read_clock :: "tasks \<Rightarrow> tasks" where
  "read_clock t = t\<lparr>hr := RTC_Hours (rtc (t_sys t)), mn := RTC_Minutes (rtc (t_sys t)), sc := RTC_Seconds (rtc (t_sys t))\<rparr>"

text \<open>The cases of the switch in \<open>CheckScanTime\<close>; case 15 has no \<open>break\<close> and goes on with case 30.\<close>

definition scan_due :: "u16 \<Rightarrow> byte \<Rightarrow> byte \<Rightarrow> byte \<Rightarrow> bool" where
  "scan_due setup h m old =
     (if setup = 5
      then (m = 1 \<or> m = 6 \<or> m = 11 \<or> m = 16 \<or> m = 21 \<or> m = 26 \<or> m = 31 \<or> m = 36 \<or> m = 41 \<or> m = 46 \<or> m = 51 \<or> m = 56) \<and> old \<noteq> m
      else if setup = 10
      then (m = 1 \<or> m = 11 \<or> m = 21 \<or> m = 31 \<or> m = 41 \<or> m = 51) \<and> old \<noteq> m
      else if setup = 15
      then (m = 1 \<or> m = 16 \<or> m = 31 \<or> m = 46) \<and> old \<noteq> m \<or> (m = 1 \<or> m = 31) \<and> old \<noteq> m
      else if setup = 30
      then (m = 1 \<or> m = 31) \<and> old \<noteq> m
      else if setup = 60
      then old = 0 \<and> m = 1
      else if setup = 120
      then (h = 0 \<or> h = 2 \<or> h = 4 \<or> h = 6 \<or> h = 8 \<or> h = 10 \<or> h = 12 \<or> h = 14 \<or> h = 16 \<or> h = 18 \<or> h = 20 \<or> h = 22) \<and> old = 0 \<and> m = 1
      else if setup = 240
      then (h = 0 \<or> h = 4 \<or> h = 8 \<or> h = 12 \<or> h = 16 \<or> h = 20) \<and> old = 0 \<and> m = 1
      else if setup = 360
      then (h = 0 \<or> h = 6 \<or> h = 12 \<or> h = 18) \<and> old = 0 \<and> m = 1
      else False)"

text \<open>\<open>stk\<close> is the local \<open>sms_setup_min\<close>, which is never set.\<close>

definition CheckScanTime :: "(nat \<Rightarrow> u32 \<Rightarrow> bytes) \<Rightarrow> u16 \<Rightarrow> tasks \<Rightarrow> tasks option" where
  "CheckScanTime ftoa stk t = do {
     let t = read_clock (t\<lparr>t_sys := getDate (t_sys t)\<rparr>);
     let sms_min = (of_nat (unat (hr t) * 60 + unat (mn t)) :: u16);
     let t = (if scan_due (scansetup (t_sys t)) (hr t) (mn t) (oldmin t) then t\<lparr>scanflag := 1\<rparr> else t);
     t \<leftarrow> (if sms_status t \<noteq> 0 \<and> sms_min = stk \<and> sms_old_min t \<noteq> ucast sms_min
           then do { s \<leftarrow> SendSMSStatus ftoa (t_sys t); Some (t\<lparr>t_sys := s\<rparr>) }
           else Some t);
     Some (t\<lparr>sms_old_min := ucast sms_min, oldmin := mn t\<rparr>) }"

definition CheckHaccpScan :: "(nat \<Rightarrow> u32 \<Rightarrow> bytes) \<Rightarrow> (u32 list \<Rightarrow> u32) \<Rightarrow> u32 \<Rightarrow> u32 \<Rightarrow> tasks \<Rightarrow> tasks option" where
  "CheckHaccpScan ftoa mkt a8 a12 t = do {
     let t = read_clock t;
     t \<leftarrow> (if mn t = 0 \<and> old_haccp_min t \<noteq> ucast (mn t)
             \<and> (hr t = 6 \<or> hr t = 10 \<or> hr t = 14 \<or> hr t = 18 \<or> hr t = 22)
           then do { (s, fs) \<leftarrow> SaveHaccp ftoa mkt a8 a12 (t_sys t, t_logs t); Some (t\<lparr>t_sys := s, t_logs := fs\<rparr>) }
           else Some t);
     Some (t\<lparr>old_haccp_min := ucast (mn t)\<rparr>) }"

definition CheckSNTPScan :: "tasks \<Rightarrow> tasks" where
  "CheckSNTPScan t =
     (let t = read_clock t;
          t = (if sntpoldhr t \<noteq> hr t \<and> sntpon (sntp (t_sys t)) = 1
               then t\<lparr>t_sys := (t_sys t)\<lparr>sntp_scan_flag := True\<rparr>\<rparr> else t)
      in t\<lparr>sntpoldhr := hr t\<rparr>)"

text \<open>\<open>True\<close> when the endless loop is entered, from which the watchdog resets the device.\<close>

definition Check4hour :: "tasks \<Rightarrow> bool \<times> tasks" where
  "Check4hour t =
     (let t = read_clock t
      in if mn t = 59 \<and> old_reset_min t \<noteq> ucast (mn t)
           \<and> (hr t = 1 \<or> hr t = 5 \<or> hr t = 9 \<or> hr t = 13 \<or> hr t = 17 \<or> hr t = 21)
         then (True, t)
         else (False, t\<lparr>old_reset_min := ucast (mn t)\<rparr>))"

text \<open>\<open>ptSaveTemp\<close>, with the line it waits at.\<close>

definition ptSaveTemp :: "(nat \<Rightarrow> u32 \<Rightarrow> bytes) \<Rightarrow> (u32 list \<Rightarrow> u32) \<Rightarrow> u32 \<Rightarrow> u32 \<Rightarrow> nat \<times> tasks \<Rightarrow> (nat \<times> tasks) option" where
  "ptSaveTemp ftoa mkt a8 a12 = (\<lambda>(l, t).
     if l = 0 then Some (375, t)
     else if l = 375 \<or> l = 376
     then (if scanflag t = 1
           then do {
             (s, fs) \<leftarrow> SaveTemp ftoa mkt a8 a12 (t_sys t, t_logs t);
             Some (0, t\<lparr>scanflag := 0, t_sys := s, t_logs := fs\<rparr>) }
           else Some (376, t))
     else Some (0, t))"

subsection \<open>Alarm delays\<close>

text \<open>The counter is 0 when nothing is pending and starts at 1.\<close>

definition count_up :: "u32 \<Rightarrow> u32" where
  "count_up c = (if c \<noteq> 0 then c + 1 else c)"

definition delay_sensor :: "(nat \<Rightarrow> u32 \<Rightarrow> bytes) \<Rightarrow> nat \<Rightarrow> sys \<Rightarrow> sys option" where
  "delay_sensor ftoa cnt s =
     (let delaytimer = count_up (NVRAM_Read32 (NV_DELAY_SEN1 + cnt * 4) (nv s))
      in if delaytimer > ucast (DELAY (senzor s ! cnt))
         then do {
           s \<leftarrow> SendWApp ftoa cnt (s\<lparr>nv := NVRAM_Write32 (NV_DELAY_SEN1 + cnt * 4) 0 (nv s)\<rparr>);
           SendSMS ftoa cnt 1 s }
         else Some (s\<lparr>nv := NVRAM_Write32 (NV_DELAY_SEN1 + cnt * 4) delaytimer (nv s)\<rparr>))"

definition delay_input :: "(nat \<Rightarrow> u32 \<Rightarrow> bytes) \<Rightarrow> nat \<Rightarrow> sys \<Rightarrow> sys option" where
  "delay_input ftoa cnt s =
     (let delaytimer = count_up (NVRAM_Read32 (NV_DELAY_IN1 + cnt * 4) (nv s))
      in if delaytimer > ucast (d_DELAY (dinput s ! cnt))
         then do {
           s \<leftarrow> SendWAppInput cnt (s\<lparr>nv := NVRAM_Write32 (NV_DELAY_IN1 + cnt * 4) 0 (nv s)\<rparr>);
           SendSMS ftoa cnt 2 s }
         else Some (s\<lparr>nv := NVRAM_Write32 (NV_DELAY_IN1 + cnt * 4) delaytimer (nv s)\<rparr>))"

fun delays :: "(nat \<Rightarrow> sys \<Rightarrow> sys option) \<Rightarrow> nat list \<Rightarrow> sys \<Rightarrow> sys option" where
  "delays f [] s = Some s"
| "delays f (cnt # cnts) s = do { s \<leftarrow> f cnt s; delays f cnts s }"

definition alarm_delays :: "(nat \<Rightarrow> u32 \<Rightarrow> bytes) \<Rightarrow> sys \<Rightarrow> sys option" where
  "alarm_delays ftoa s = do { s \<leftarrow> delays (delay_sensor ftoa) [0..<8] s; delays (delay_input ftoa) [0..<3] s }"

text \<open>The thread has no \<open>PT_YIELD\<close>: it arms its timer when it starts and waits at line 875.\<close>

definition ptAlarmDelay :: "(nat \<Rightarrow> u32 \<Rightarrow> bytes) \<Rightarrow> clock \<Rightarrow> nat \<times> timer \<times> sys \<Rightarrow> (nat \<times> timer \<times> sys) option" where
  "ptAlarmDelay ftoa c = (\<lambda>(l, delayTimer, s).
     let delayTimer = (if l = 0 then timer_set c 1000 else delayTimer)
     in if l = 0 \<or> l = 875
        then (if timer_expired c delayTimer then do { s \<leftarrow> alarm_delays ftoa s; Some (0, delayTimer, s) }
              else Some (875, delayTimer, s))
        else Some (0, delayTimer, s))"

subsection \<open>Sending\<close>

definition WAPP_FREE :: byte where "WAPP_FREE = 0"
definition WAPP_BUSY :: byte where "WAPP_BUSY = 1"

text \<open>
  \<open>ptWapp\<close>: \<open>WAPP_BUSY\<close> lasts until the HTTP client calls \<open>wappReceive\<close>. \<open>sent\<close> lists the receivers for which
  \<open>send_whatsapp_message\<close> was called, with the message. The lines are those of the waits.
\<close>

record sender_task =
  w_sys :: sys
  w_lc :: nat
  wAppStatus :: byte
  sent :: "(nat \<times> bytes) list"

definition wait_line :: "nat \<Rightarrow> nat" where
  "wait_line i = 577 + 7 * i"

text \<open>From receiver \<open>i\<close> (counted from 0) on, with the status free; after a message the next wait does not pass.\<close>

function send_from :: "nat \<Rightarrow> sender_task \<Rightarrow> sender_task" where
  "send_from i d =
     (if i < 5
      then if wenable (wapp (w_sys d)) ! i \<noteq> 0
           then d\<lparr>wAppStatus := WAPP_BUSY, sent := sent d @ [(i + 1, Msg (wapp (w_sys d)))], w_lc := wait_line (i + 1)\<rparr>
           else send_from (i + 1) d
      else d\<lparr>w_sys := (w_sys d)\<lparr>wAppflag := 0\<rparr>, w_lc := 0\<rparr>)"
  by auto
termination by (relation "measure (\<lambda>(i, d). 5 - i)") auto

declare send_from.simps [simp del]

definition ptWapp :: "sender_task \<Rightarrow> sender_task" where
  "ptWapp d =
     (if w_lc d = 0 then d\<lparr>w_lc := 573\<rparr>
      else if w_lc d = 573 then (if wAppStatus d \<noteq> WAPP_FREE then d\<lparr>w_lc := wait_line 0\<rparr> else send_from 0 d)
      else if \<exists>i < 6. w_lc d = wait_line i
      then (if wAppStatus d \<noteq> WAPP_FREE then d else send_from ((w_lc d - 577) div 7) d)
      else d\<lparr>w_lc := 0\<rparr>)"

definition logger_alarm_poll :: "sender_task \<Rightarrow> sender_task" where
  "logger_alarm_poll d = (if wAppflag (w_sys d) = 1 then ptWapp d else d)"

definition wappReceive :: "sender_task \<Rightarrow> sender_task" where
  "wappReceive d = d\<lparr>wAppStatus := WAPP_FREE\<rparr>"

subsection \<open>When a sample is taken\<close>

definition minute_of_day :: "byte \<Rightarrow> byte \<Rightarrow> nat" where
  "minute_of_day h m = unat h * 60 + unat m"

definition sample_periods :: "u16 set" where
  "sample_periods = {5, 10, 15, 30, 60, 120, 240, 360}"

text \<open>Two successive looks at the clock, at the same minute or the next one.\<close>

lemma mod_60_parts:
  fixes a b p :: nat
  assumes "p dvd 60"
  shows "(a * 60 + b) mod p = b mod p"
proof -
  obtain q where "60 = p * q" using assms by (rule dvdE)
  then have "a * 60 + b = b + p * (q * a)" by simp
  then show ?thesis by (simp only: mod_mult_self2)
qed

lemma mod_hours_parts:
  fixes a b q :: nat
  assumes "b < 60" and "0 < q"
  shows "(a * 60 + b) mod (q * 60) = 1 \<longleftrightarrow> a mod q = 0 \<and> b = 1"
proof -
  have "(a * 60 + b) mod (60 * q) = 60 * ((a * 60 + b) div 60 mod q) + (a * 60 + b) mod 60" by (rule mod_mult2_eq)
  also have "\<dots> = 60 * (a mod q) + b" using assms(1) by simp
  finally have "(a * 60 + b) mod (q * 60) = 60 * (a mod q) + b" by (simp add: mult.commute)
  then show ?thesis using assms(1) by (cases "a mod q = 0") auto
qed

lemma minutes_at:
  "list_all (\<lambda>b :: nat. (b mod 5 = 1 \<longleftrightarrow> b \<in> {1, 6, 11, 16, 21, 26, 31, 36, 41, 46, 51, 56})
     \<and> (b mod 10 = 1 \<longleftrightarrow> b \<in> {1, 11, 21, 31, 41, 51}) \<and> (b mod 15 = 1 \<longleftrightarrow> b \<in> {1, 16, 31, 46})
     \<and> (b mod 30 = 1 \<longleftrightarrow> b \<in> {1, 31})) [0..<60]"
  by (simp add: upt_rec)

lemma hours_at:
  "list_all (\<lambda>a :: nat. (a mod 2 = 0 \<longleftrightarrow> a \<in> {0, 2, 4, 6, 8, 10, 12, 14, 16, 18, 20, 22})
     \<and> (a mod 4 = 0 \<longleftrightarrow> a \<in> {0, 4, 8, 12, 16, 20}) \<and> (a mod 6 = 0 \<longleftrightarrow> a \<in> {0, 6, 12, 18})) [0..<24]"
  by (simp add: upt_rec)

lemma word8_eq: "(w :: byte) = numeral n \<longleftrightarrow> unat w = unat (numeral n :: byte)" "w = 0 \<longleftrightarrow> unat w = 0" "w = 1 \<longleftrightarrow> unat w = 1"
  by (simp_all add: word_unat_eq_iff)

text \<open>The condition on the numbers of the minutes and hours.\<close>

lemma minute_changes:
  fixes a b c t t0 :: nat
  assumes "b < 60" and "a * 60 + b = t" and "t = t0 \<or> t = (t0 + 1) mod 1440" and "c = t0 mod 60" and "t0 < 1440"
  shows "c \<noteq> b \<longleftrightarrow> t = (t0 + 1) mod 1440"
    and "b = 1 \<Longrightarrow> c = 0 \<longleftrightarrow> t = (t0 + 1) mod 1440"
proof -
  have b: "b = t mod 60" unfolding assms(2) [symmetric] using assms(1) by simp
  have n: "(t0 + 1) mod 1440 = (if t0 = 1439 then 0 else Suc t0)"
  proof (cases "t0 = 1439")
    case False
    then have "Suc t0 < 1440" using assms(5) by simp
    then show ?thesis using False by simp
  qed simp
  have s: "Suc t0 mod 60 = (if Suc (t0 mod 60) = 60 then 0 else Suc (t0 mod 60))" by (rule mod_Suc)
  have e: "t0 = 1439 \<Longrightarrow> t0 mod 60 = 59" by simp
  consider "t = t0" | "t0 = 1439" "t = 0" | "t0 \<noteq> 1439" "t = Suc t0" using assms(3) n by (metis (full_types))
  then show "c \<noteq> b \<longleftrightarrow> t = (t0 + 1) mod 1440" and "b = 1 \<Longrightarrow> c = 0 \<longleftrightarrow> t = (t0 + 1) mod 1440"
    unfolding n b assms(4) by (cases; use s e in \<open>simp split: if_splits\<close>)+
qed

lemma scan_due_iff:
  assumes p: "setup \<in> sample_periods" and "unat h < 24" and "unat m < 60"
    and t: "minute_of_day h m = t" "t = t0 \<or> t = (t0 + 1) mod 1440" "unat old = t0 mod 60" "t0 < 1440"
  shows "scan_due setup h m old \<longleftrightarrow> t = (t0 + 1) mod 1440 \<and> t mod unat setup = 1"
proof -
  let ?a = "unat h" and ?b = "unat m"
  have t': "?a * 60 + ?b = t" using t(1) by (simp add: minute_of_day_def)
  note ch = minute_changes [OF assms(3) t' t(2-4)]
  have M: "?b mod 5 = 1 \<longleftrightarrow> ?b \<in> {1, 6, 11, 16, 21, 26, 31, 36, 41, 46, 51, 56}" "?b mod 10 = 1 \<longleftrightarrow> ?b \<in> {1, 11, 21, 31, 41, 51}"
    "?b mod 15 = 1 \<longleftrightarrow> ?b \<in> {1, 16, 31, 46}" "?b mod 30 = 1 \<longleftrightarrow> ?b \<in> {1, 31}"
    using minutes_at assms(3) unfolding list_all_iff by simp_all
  have H: "?a mod 2 = 0 \<longleftrightarrow> ?a \<in> {0, 2, 4, 6, 8, 10, 12, 14, 16, 18, 20, 22}" "?a mod 4 = 0 \<longleftrightarrow> ?a \<in> {0, 4, 8, 12, 16, 20}"
    "?a mod 6 = 0 \<longleftrightarrow> ?a \<in> {0, 6, 12, 18}"
    using hours_at assms(2) unfolding list_all_iff by simp_all
  have S: "t mod 5 = ?b mod 5" "t mod 10 = ?b mod 10" "t mod 15 = ?b mod 15" "t mod 30 = ?b mod 30"
    unfolding t' [symmetric] by (rule mod_60_parts; simp)+
  have L: "t mod (q * 60) = 1 \<longleftrightarrow> ?a mod q = 0 \<and> ?b = 1" if "0 < q" for q
    unfolding t' [symmetric] by (rule mod_hours_parts [OF assms(3) that])
  have L': "t mod 60 = 1 \<longleftrightarrow> ?b = 1" "t mod 120 = 1 \<longleftrightarrow> ?a mod 2 = 0 \<and> ?b = 1"
    "t mod 240 = 1 \<longleftrightarrow> ?a mod 4 = 0 \<and> ?b = 1" "t mod 360 = 1 \<longleftrightarrow> ?a mod 6 = 0 \<and> ?b = 1"
    using L [of 1] L [of 2] L [of 4] L [of 6] by simp_all
  have o: "old \<noteq> m \<longleftrightarrow> t = (t0 + 1) mod 1440" using ch(1) t(3) by (simp add: word_unat_eq_iff)
  have z: "?b = 1 \<Longrightarrow> old = 0 \<longleftrightarrow> t = (t0 + 1) mod 1440" using ch(2) t(3) by (simp add: word_unat_eq_iff)
  consider "setup = 5" | "setup = 10" | "setup = 15" | "setup = 30" | "setup = 60" | "setup = 120" | "setup = 240" | "setup = 360"
    using p by (auto simp: sample_periods_def)
  then show ?thesis
  proof cases
    case 1
    then show ?thesis unfolding o [symmetric] by (auto simp: scan_due_def S M [unfolded One_nat_def] word_unat_eq_iff)
  next
    case 2
    then show ?thesis unfolding o [symmetric] by (auto simp: scan_due_def S M [unfolded One_nat_def] word_unat_eq_iff)
  next
    case 3
    then show ?thesis unfolding o [symmetric] by (auto simp: scan_due_def S M [unfolded One_nat_def] word_unat_eq_iff)
  next
    case 4
    then show ?thesis unfolding o [symmetric] by (auto simp: scan_due_def S M [unfolded One_nat_def] word_unat_eq_iff)
  next
    case 5
    then show ?thesis using z by (auto simp: scan_due_def L' [unfolded One_nat_def] word_unat_eq_iff)
  next
    case 6
    then show ?thesis using z by (auto simp: scan_due_def L' [unfolded One_nat_def] H word_unat_eq_iff)
  next
    case 7
    then show ?thesis using z by (auto simp: scan_due_def L' [unfolded One_nat_def] H word_unat_eq_iff)
  next
    case 8
    then show ?thesis using z by (auto simp: scan_due_def L' [unfolded One_nat_def] H word_unat_eq_iff)
  qed
qed

lemma CheckScanTime_raises:
  assumes "scansetup (t_sys t) \<in> sample_periods" and "sms_status t = 0" and "t0 < 1440"
    and "unat (RTC_Hours (rtc (t_sys t))) < 24" and "unat (RTC_Minutes (rtc (t_sys t))) < 60"
    and "now = minute_of_day (RTC_Hours (rtc (t_sys t))) (RTC_Minutes (rtc (t_sys t)))"
    and "now = t0 \<or> now = (t0 + 1) mod 1440" and "unat (oldmin t) = t0 mod 60"
  shows "\<exists>t'. CheckScanTime ftoa stk t = Some t' \<and> unat (oldmin t') = now mod 60
     \<and> scanflag t' = (if now = (t0 + 1) mod 1440 \<and> now mod unat (scansetup (t_sys t)) = 1 then 1 else scanflag t)"
proof -
  note due = scan_due_iff [OF assms(1,4,5) assms(6) [symmetric] assms(7,8,3)]
  have "now mod 60 = unat (RTC_Minutes (rtc (t_sys t)))" using assms(5,6) by (simp add: minute_of_day_def)
  then show ?thesis using assms(2)
    by (auto simp: CheckScanTime_def Let_def read_clock_def getDate_def due)
qed

subsection \<open>When an alarm is reported\<close>

fun delay_run :: "(nat \<Rightarrow> u32 \<Rightarrow> bytes) \<Rightarrow> nat \<Rightarrow> nat \<Rightarrow> sys \<Rightarrow> sys option" where
  "delay_run ftoa cnt 0 s = Some s"
| "delay_run ftoa cnt (Suc n) s = do { s \<leftarrow> delay_run ftoa cnt n s; delay_sensor ftoa cnt s }"

definition delay_at :: "nat \<Rightarrow> nat" where "delay_at cnt = NV_DELAY_SEN1 + cnt * 4"

text \<open>Only the counter of the sensor differs, and it is \<open>c\<close>.\<close>

definition counts :: "nat \<Rightarrow> u32 \<Rightarrow> sys \<Rightarrow> bytes \<Rightarrow> bool" where
  "counts cnt c s m \<longleftrightarrow> length m = NV_SIZE \<and> NVRAM_Read32 (delay_at cnt) m = c
     \<and> (\<forall>b. b + 4 \<le> NV_SIZE \<longrightarrow> b + 4 \<le> delay_at cnt \<or> delay_at cnt + 4 \<le> b \<longrightarrow> NVRAM_Read32 b m = NVRAM_Read32 b (nv s))"

lemma counts_write:
  assumes "counts cnt c s m" and "cnt < 8"
  shows "counts cnt c' s (NVRAM_Write32 (delay_at cnt) c' m)"
proof -
  have b: "delay_at cnt + 4 \<le> NV_SIZE" using assms(2) by (simp add: delay_at_def NV_SIZE_def)
  have l: "length m = NV_SIZE" using assms(1) by (simp add: counts_def)
  show ?thesis unfolding counts_def
  proof (intro conjI allI impI)
    show "length (NVRAM_Write32 (delay_at cnt) c' m) = NV_SIZE" using l by simp
    show "NVRAM_Read32 (delay_at cnt) (NVRAM_Write32 (delay_at cnt) c' m) = c'" by (rule NVRAM_same [OF l b])
    fix a assume a: "a + 4 \<le> NV_SIZE" "a + 4 \<le> delay_at cnt \<or> delay_at cnt + 4 \<le> a"
    then have "NVRAM_Read32 a (NVRAM_Write32 (delay_at cnt) c' m) = NVRAM_Read32 a m"
      by (intro NVRAM_other [OF l b]) auto
    then show "NVRAM_Read32 a (NVRAM_Write32 (delay_at cnt) c' m) = NVRAM_Read32 a (nv s)"
      using a assms(1) by (auto simp: counts_def)
  qed
qed

lemma delay_sensor_step:
  assumes "counts cnt c s m" and "cnt < 8"
  shows "delay_sensor ftoa cnt (s\<lparr>nv := m\<rparr>) =
     (if count_up c > ucast (DELAY (senzor s ! cnt))
      then do { s \<leftarrow> SendWApp ftoa cnt (s\<lparr>nv := NVRAM_Write32 (delay_at cnt) 0 m\<rparr>); SendSMS ftoa cnt 1 s }
      else Some (s\<lparr>nv := NVRAM_Write32 (delay_at cnt) (count_up c) m\<rparr>))"
  using assms(1) by (simp add: delay_sensor_def Let_def counts_def delay_at_def)

lemma u32_small: "k < 2 ^ 32 \<Longrightarrow> unat (of_nat k :: u32) = k"
  by (simp only: unat_of_nat) simp

lemma u16_bound: "unat (D :: u16) < 65536"
  using unsigned_less [of D, where 'a = nat] by simp

lemma u16_in_u32: "unat (ucast (D :: u16) :: u32) = unat D"
proof -
  have "unat D < 2 ^ 32" using u16_bound [of D] by simp
  then show ?thesis by (simp add: unsigned_ucast_eq take_bit_nat_eq_self)
qed

lemma count_up_of_nat:
  assumes "0 < k" and "k < 2 ^ 32"
  shows "count_up (of_nat k) = of_nat (Suc k)"
proof -
  have "(of_nat k :: u32) \<noteq> 0" using u32_small [OF assms(2)] assms(1) by (metis less_irrefl unat_0)
  then show ?thesis by (simp add: count_up_def add.commute)
qed

lemma delay_passed:
  assumes "k < 65537"
  shows "(of_nat k :: u32) > ucast (D :: u16) \<longleftrightarrow> unat D < k"
proof -
  have "k < 2 ^ 32" using assms by simp
  then show ?thesis unfolding word_less_nat_alt u16_in_u32 by (simp only: u32_small)
qed

lemma delay_pending:
  assumes "counts cnt 1 s (nv s)" and "cnt < 8" and "n < max 1 (unat (DELAY (senzor s ! cnt)))"
  shows "\<exists>m. delay_run ftoa cnt n s = Some (s\<lparr>nv := m\<rparr>) \<and> counts cnt (of_nat (n + 1)) s m"
  using assms(3)
proof (induction n)
  case 0
  then show ?case using assms(1) by (intro exI [of _ "nv s"]) simp
next
  case (Suc n)
  then have "n < max 1 (unat (DELAY (senzor s ! cnt)))" by simp
  from Suc.IH [OF this] obtain m where
    m: "delay_run ftoa cnt n s = Some (s\<lparr>nv := m\<rparr>)" "counts cnt (of_nat (n + 1)) s m" by blast
  let ?D = "DELAY (senzor s ! cnt)"
  have n: "n + 2 \<le> unat ?D" "n + 2 < 65537" using Suc.prems u16_bound [of ?D] by (simp_all add: max_def split: if_splits)
  have c: "count_up (of_nat (n + 1)) = of_nat (n + 2)" using count_up_of_nat [of "n + 1"] n(2) by simp
  have "\<not> count_up (of_nat (n + 1)) > ucast ?D" unfolding c delay_passed [OF n(2)] using n(1) by simp
  then have "delay_run ftoa cnt (Suc n) s = Some (s\<lparr>nv := NVRAM_Write32 (delay_at cnt) (of_nat (n + 2)) m\<rparr>)"
    using m delay_sensor_step [OF m(2) assms(2), of ftoa] c by simp
  then show ?case using counts_write [OF m(2) assms(2), of "of_nat (n + 2)"] by auto
qed

lemma delay_over:
  assumes "counts cnt 1 s (nv s)" and "cnt < 8" and "n = max 1 (unat (DELAY (senzor s ! cnt)))"
  shows "\<exists>m. counts cnt 0 s m \<and> delay_run ftoa cnt n s =
     do { s \<leftarrow> SendWApp ftoa cnt (s\<lparr>nv := m\<rparr>); SendSMS ftoa cnt 1 s }"
proof -
  let ?D = "DELAY (senzor s ! cnt)"
  have "0 < n" using assms(3) by simp
  then obtain k where k: "n = Suc k" using gr0_implies_Suc by blast
  obtain m where m: "delay_run ftoa cnt k s = Some (s\<lparr>nv := m\<rparr>)" "counts cnt (of_nat (k + 1)) s m"
    using delay_pending [OF assms(1,2), of k] assms(3) k by auto
  have n: "k + 2 < 65537" using assms(3) k u16_bound [of ?D] by (simp add: max_def split: if_splits)
  have c: "count_up (of_nat (k + 1)) = of_nat (k + 2)" using count_up_of_nat [of "k + 1"] n by simp
  have "unat ?D < k + 2" using assms(3) k by (simp add: max_def split: if_splits)
  then have "count_up (of_nat (k + 1)) > ucast ?D" unfolding c delay_passed [OF n] .
  then have "delay_run ftoa cnt n s =
     do { s \<leftarrow> SendWApp ftoa cnt (s\<lparr>nv := NVRAM_Write32 (delay_at cnt) 0 m\<rparr>); SendSMS ftoa cnt 1 s }"
    using m delay_sensor_step [OF m(2) assms(2), of ftoa] k by simp
  then show ?thesis using counts_write [OF m(2) assms(2), of 0] by blast
qed

subsection \<open>Who gets the message\<close>

definition queued :: "nat \<Rightarrow> sender_task \<Rightarrow> (nat \<times> bytes) list" where
  "queued j d = map (\<lambda>i. (i + 1, Msg (wapp (w_sys d)))) (filter (\<lambda>i. wenable (wapp (w_sys d)) ! i \<noteq> 0) [j..<5])"

definition all_sent :: "nat \<Rightarrow> sender_task \<Rightarrow> sender_task" where
  "all_sent j d = d\<lparr>w_sys := (w_sys d)\<lparr>wAppflag := 0\<rparr>, w_lc := 0, wAppStatus := WAPP_FREE, sent := sent d @ queued j d\<rparr>"

text \<open>The client finishes a request between two polls.\<close>

definition poll_round :: "sender_task \<Rightarrow> sender_task" where
  "poll_round d = logger_alarm_poll (wappReceive d)"

lemma poll_round_done: "poll_round (all_sent j d) = all_sent j d"
  by (simp add: poll_round_def logger_alarm_poll_def wappReceive_def all_sent_def)

lemma poll_rounds_done: "(poll_round ^^ n) (all_sent j d) = all_sent j d"
  by (induction n) (simp_all add: poll_round_done)

lemma send_from_cases:
  assumes "j \<le> 5"
  shows "(queued j d = [] \<and> send_from j d = d\<lparr>w_sys := (w_sys d)\<lparr>wAppflag := 0\<rparr>, w_lc := 0\<rparr>)
     \<or> (\<exists>i. j \<le> i \<and> i < 5 \<and> queued j d = (i + 1, Msg (wapp (w_sys d))) # queued (i + 1) d
          \<and> send_from j d = d\<lparr>wAppStatus := WAPP_BUSY, sent := sent d @ [(i + 1, Msg (wapp (w_sys d)))], w_lc := wait_line (i + 1)\<rparr>)"
  using assms
proof (induction j rule: inc_induct)
  case base
  then show ?case by (simp add: queued_def send_from.simps [of 5])
next
  case (step j)
  have up: "[j..<5] = j # [Suc j..<5]" using step.hyps by (simp add: upt_conv_Cons)
  show ?case
  proof (cases "wenable (wapp (w_sys d)) ! j = 0")
    case True
    then have "queued j d = queued (Suc j) d" "send_from j d = send_from (Suc j) d"
      using step.hyps by (simp_all add: queued_def up send_from.simps [of j])
    then show ?thesis using step.IH by (auto intro: Suc_leD)
  next
    case False
    then show ?thesis using step.hyps
      by (intro disjI2 exI [of _ j]) (simp add: queued_def up send_from.simps [of j])
  qed
qed

lemma rounds_finish:
  assumes "j \<le> 5" and "w_lc d = wait_line j \<or> w_lc d = 573 \<and> j = 0" and "wAppflag (w_sys d) = 1"
  shows "\<exists>n \<le> 6 - j. (poll_round ^^ n) d = all_sent j d"
  using assms
proof (induction "5 - j" arbitrary: j d rule: less_induct)
  case less
  have "(wait_line j - 577) div 7 = j" "wait_line j \<noteq> 0" "wait_line j \<noteq> 573" by (simp_all add: wait_line_def)
  then have r: "poll_round d = send_from j (d\<lparr>wAppStatus := WAPP_FREE\<rparr>)"
    using less.prems by (auto simp: poll_round_def logger_alarm_poll_def wappReceive_def ptWapp_def intro!: exI [of _ j])
  have q: "queued j (d\<lparr>wAppStatus := WAPP_FREE\<rparr>) = queued j d" for j by (simp add: queued_def)
  from send_from_cases [OF less.prems(1), of "d\<lparr>wAppStatus := WAPP_FREE\<rparr>"]
  consider "queued j d = []" "poll_round d = all_sent j d"
    | i where "j \<le> i" "i < 5" "queued j d = (i + 1, Msg (wapp (w_sys d))) # queued (i + 1) d"
        "poll_round d = d\<lparr>wAppStatus := WAPP_BUSY, sent := sent d @ [(i + 1, Msg (wapp (w_sys d)))], w_lc := wait_line (i + 1)\<rparr>"
    unfolding r q by (auto simp: all_sent_def)
  then show ?case
  proof cases
    case 1
    then show ?thesis using less.prems(1) by (intro exI [of _ 1]) simp
  next
    case 2
    let ?d = "poll_round d"
    have "\<exists>n \<le> 6 - (i + 1). (poll_round ^^ n) ?d = all_sent (i + 1) ?d"
      using 2 less.prems by (intro less.hyps) auto
    then obtain n where n: "n \<le> 6 - (i + 1)" "(poll_round ^^ n) ?d = all_sent (i + 1) ?d" by blast
    have "all_sent (i + 1) ?d = all_sent j d" unfolding 2(4) by (simp add: all_sent_def queued_def) (use 2(3) in \<open>simp add: queued_def\<close>)
    then have "(poll_round ^^ Suc n) d = all_sent j d" using n by (simp add: funpow_swap1)
    then show ?thesis using n(1) 2(1,2) by (intro exI [of _ "Suc n"]) auto
  qed
qed

lemma message_delivered:
  assumes "w_lc d = 0" and "wAppflag (w_sys d) = 1" and "7 \<le> n"
  shows "(poll_round ^^ n) d = all_sent 0 d"
proof -
  let ?d = "poll_round d"
  have d: "?d = d\<lparr>wAppStatus := WAPP_FREE, w_lc := 573\<rparr>"
    using assms by (simp add: poll_round_def logger_alarm_poll_def wappReceive_def ptWapp_def)
  have "\<exists>n \<le> 6 - 0. (poll_round ^^ n) ?d = all_sent 0 ?d"
    using assms(2) by (intro rounds_finish) (simp_all add: d)
  then obtain k where k: "k \<le> 6" "(poll_round ^^ k) ?d = all_sent 0 ?d" by auto
  have "all_sent 0 ?d = all_sent 0 d" by (simp add: d all_sent_def queued_def)
  then have "(poll_round ^^ Suc k) d = all_sent 0 d" using k(2) by (simp add: funpow_swap1)
  moreover have "n = (n - Suc k) + Suc k" using assms(3) k(1) by simp
  ultimately show ?thesis by (metis funpow_add comp_apply poll_rounds_done)
qed

end
