(* ===== verification/Gsm.thy ===== *)
theory Gsm
  imports Pages Url Messages Timer Sync
begin

section \<open>The SMS gateway client (\<open>infobip.c\<close>)\<close>

text \<open>
  \<open>send_infobip\<close> (theory \<open>Sva_Tags\<close>) only sets flags; \<open>wcl_poll\<close> runs the client from the main loop:
  \<open>ptWCL\<close> builds the message as an XML document, encodes it for a form, and sends it over one TCP connection,
  \<open>ptWCLcredit\<close> asks for the credit. The calls of the vendored stack are collected in \<open>calls\<close>; its callbacks
  are the operations \<open>wclConnected\<close>, \<open>wclRecv\<close>, \<open>wclStatusConnected\<close> and \<open>wclCreditRecv\<close>, which may come
  between two polls. A protothread is the line it waits at, as in theory \<open>Inputs\<close>.

  The lemmas show what is sent, when it fits the buffer, and that both clients end whatever the network does.
\<close>

subsection \<open>The message\<close>

definition CRLF :: bytes where "CRLF = [13, 10]"

definition ENCODE_BUF_LEN :: nat where "ENCODE_BUF_LEN = 1024"

definition OpenLine :: "string \<Rightarrow> sys \<Rightarrow> sys option" where
  "OpenLine pTag s = do { s \<leftarrow> OpenTag pTag s; strcat_XML CRLF s }"

definition CloseLine :: "string \<Rightarrow> sys \<Rightarrow> sys option" where
  "CloseLine pTag s = do { s \<leftarrow> CloseTag pTag s; strcat_XML CRLF s }"

text \<open>A string of the EEPROM, read into \<open>rBuf\<close>, as a tag.\<close>

definition AddLine :: "string \<Rightarrow> nat \<Rightarrow> nat \<Rightarrow> sys \<Rightarrow> sys option" where
  "AddLine pTag a n s = do { s \<leftarrow> EE_rBuf a n s; s \<leftarrow> AddBuf pTag rBuf s; strcat_XML CRLF s }"

definition AddRecipient :: "nat \<Rightarrow> sys \<Rightarrow> sys option" where
  "AddRecipient i s = (if gsm_enable (sms s) ! i \<noteq> 0 then AddLine ''gsm'' (EE_GSM1_NUM + i * 0x20) 32 s else Some s)"

definition gsm_document :: "sys \<Rightarrow> sys option" where
  "gsm_document s = do {
     s \<leftarrow> OpenLine ''SMS'' s;
     s \<leftarrow> OpenLine ''authentification'' s;
     s \<leftarrow> AddLine ''username'' EE_GSM_UNAME 16 s; s \<leftarrow> strcat_XML CRLF s;
     s \<leftarrow> AddLine ''password'' EE_GSM_PASS 16 s;  s \<leftarrow> strcat_XML CRLF s;
     s \<leftarrow> CloseLine ''authentification'' s;
     s \<leftarrow> OpenLine ''message'' s;
     s \<leftarrow> AddLine ''sender'' EE_OBJECT_NAME 32 s;
     s \<leftarrow> AddBuf ''text'' infobip_poruka s; s \<leftarrow> strcat_XML CRLF s;
     s \<leftarrow> CloseLine ''message'' s;
     s \<leftarrow> OpenLine ''recipients'' s;
     s \<leftarrow> AddRecipient 0 s;
     s \<leftarrow> AddRecipient 1 s;
     s \<leftarrow> AddRecipient 2 s;
     s \<leftarrow> AddRecipient 3 s;
     s \<leftarrow> AddRecipient 4 s;
     s \<leftarrow> CloseLine ''recipients'' s;
     CloseTag ''SMS'' s }"

text \<open>The result is the length of the text that is left in the array \<open>infobip\<close>; the bound that is passed is that of the whole array.\<close>

definition CrateInfobipXMLString :: "bytes \<Rightarrow> sys \<Rightarrow> (nat \<times> bytes \<times> sys) option" where
  "CrateInfobipXMLString b s = do {
     b \<leftarrow> strcpy_to b (str ''XML='');
     s \<leftarrow> gsm_document (s\<lparr>XMLBuf := []\<rparr>);
     e \<leftarrow> rfc1738_escape (XMLBuf s @ [0]) (drop 4 b) ENCODE_BUF_LEN;
     let b = take 4 b @ e;
     v \<leftarrow> c_str b;
     Some (length v, b, s) }"

subsection \<open>The client\<close>

datatype net_call = New | Connect u32 u16 | Write bytes | Output | Close

record gsm_client =
  g_sys :: sys
  g_clk :: clock
  calls :: "net_call list"
  infobip :: bytes
  ibipretbuf :: bytes
  wtxBuf :: bytes
  CRBuf :: bytes
  ptr :: nat
  wcl_lc :: nat
  gsmState :: byte
  WCLTimer :: timer
  credit_lc :: nat
  gsmCreditState :: byte
  WCLCreditTimer :: timer

definition WCL_WAIT_TIME :: u32 where "WCL_WAIT_TIME = 10000"
definition WCL_CONNECTED :: byte where "WCL_CONNECTED = 1"
definition WCL_ANSWER :: byte where "WCL_ANSWER = 4"

definition call :: "net_call list \<Rightarrow> gsm_client \<Rightarrow> gsm_client" where
  "call cs d = d\<lparr>calls := calls d @ cs\<rparr>"

definition wcl__close :: "gsm_client \<Rightarrow> gsm_client" where
  "wcl__close d = (call [Close] d)\<lparr>g_sys := (g_sys d)\<lparr>wcl_active := False\<rparr>\<rparr>"

definition wcl_status_close :: "gsm_client \<Rightarrow> gsm_client" where
  "wcl_status_close d = (call [Close] d)\<lparr>g_sys := (g_sys d)\<lparr>wcl_credit_active := False\<rparr>\<rparr>"

text \<open>The callbacks; \<open>err\<close> is whether it is \<open>ERR_OK\<close>.\<close>

definition wclConnected :: "bool \<Rightarrow> gsm_client \<Rightarrow> gsm_client" where
  "wclConnected err d = (if err then d\<lparr>gsmState := WCL_CONNECTED\<rparr> else d)"

definition wclStatusConnected :: "bool \<Rightarrow> gsm_client \<Rightarrow> gsm_client" where
  "wclStatusConnected err d = (if err then d\<lparr>gsmCreditState := WCL_CONNECTED\<rparr> else d)"

text \<open>
  The payloads of the chain go to \<open>ibipretbuf\<close>. Behind the loop \<open>p\<close> is \<open>NULL\<close>: \<open>p->len\<close> is what the
  processor reads at the address 10, the parameter \<open>a10\<close>.
  Both receive callbacks do nothing when the stack reports an error or the end of the connection.
\<close>

fun copy_chain :: "bytes list \<Rightarrow> nat \<times> bytes \<Rightarrow> (nat \<times> bytes) option" where
  "copy_chain [] st = Some st"
| "copy_chain (pc # p) st = (case st of (k, buf) \<Rightarrow> do {
     buf \<leftarrow> poke k pc buf;
     copy_chain p (k + length pc, buf) })"

definition wclRecv :: "u16 \<Rightarrow> bytes list \<Rightarrow> gsm_client \<Rightarrow> gsm_client option" where
  "wclRecv a10 p d = do {
     (k, buf) \<leftarrow> copy_chain p (ptr d, ibipretbuf d);
     let d = d\<lparr>ptr := k, ibipretbuf := buf, gsmState := WCL_ANSWER\<rparr>;
     (v, status) \<leftarrow> XMLParser (str ''<status>'') buf a10 (infobip_status (g_sys d));
     (v, credit) \<leftarrow> XMLParser (str ''<credits>'') buf a10 (infobip_credit (g_sys d));
     Some (d\<lparr>g_sys := (g_sys d)\<lparr>infobip_status := status, infobip_credit := credit\<rparr>\<rparr>) }"

text \<open>The position of the last LF, from \<open>i\<close> down, or 0.\<close>

fun last_LF :: "nat \<Rightarrow> bytes \<Rightarrow> nat" where
  "last_LF 0 buf = 0"
| "last_LF (Suc i) buf = (if buf ! Suc i = 0x0A then Suc i else last_LF i buf)"

text \<open>\<open>tot_len\<close> bytes are copied from the payload of the first \<open>pbuf\<close>.\<close>

definition wclCreditRecv :: "bytes \<Rightarrow> nat \<Rightarrow> gsm_client \<Rightarrow> gsm_client option" where
  "wclCreditRecv payload reclen d = do {
     (if reclen \<le> length payload then Some () else None);
     buf \<leftarrow> poke 0 (take reclen payload @ [0]) (ibipretbuf d);
     v \<leftarrow> c_str (drop (last_LF reclen buf + 1) buf);
     credit \<leftarrow> strcpy_to (infobip_credit (g_sys d)) v;
     Some (d\<lparr>ibipretbuf := buf, gsmCreditState := WCL_ANSWER, g_sys := (g_sys d)\<lparr>infobip_credit := credit\<rparr>\<rparr>) }"

text \<open>The address goes from the byte order of the EEPROM to that of the network.\<close>

definition network_order :: "u32 \<Rightarrow> u32" where
  "network_order w =
     (drop_bit 24 w AND 0xFF) OR (push_bit 8 w AND 0xFF0000) OR (drop_bit 8 w AND 0xFF00) OR (push_bit 24 w AND 0xFF000000)"

definition post_header :: "nat \<Rightarrow> bytes" where
  "post_header len =
     str ''POST /api/sendsms/xml HTTP/1.1'' @ CRLF @ str ''Host: api2.infobip.com'' @ CRLF @ str ''Accept: */*'' @ CRLF
     @ str ''Content-length: '' @ dec len @ CRLF @ str ''Content-Type: application/x-www-form-urlencoded'' @ CRLF @ CRLF"

definition connect_to :: "bytes \<Rightarrow> net_call list" where
  "connect_to m = [New, Connect (network_order (eeRd32 EE_GSM_IP m)) (eeRd16 EE_GSM_PORT m)]"

text \<open>\<open>ptWCL\<close>, one definition for the code from each wait on; the condition of the next wait is tested at once.\<close>

definition wcl_exit :: "gsm_client \<Rightarrow> gsm_client" where
  "wcl_exit d = (wcl__close d)\<lparr>wcl_lc := 0\<rparr>"

definition wcl_answer :: "gsm_client \<Rightarrow> gsm_client" where
  "wcl_answer d =
     (if timer_expired (g_clk d) (WCLTimer d) \<or> gsmState d = WCL_ANSWER then wcl_exit d else d\<lparr>wcl_lc := 338\<rparr>)"

definition wcl_body :: "gsm_client \<Rightarrow> gsm_client option" where
  "wcl_body d =
     (if timer_expired (g_clk d) (WCLTimer d)
      then do {
        b \<leftarrow> c_str (infobip d);
        Some (wcl_answer ((call [Write b, Output] d)\<lparr>WCLTimer := timer_set (g_clk d) WCL_WAIT_TIME\<rparr>)) }
      else Some (d\<lparr>wcl_lc := 334\<rparr>))"

definition wcl_connected :: "gsm_client \<Rightarrow> gsm_client option" where
  "wcl_connected d =
     (if timer_expired (g_clk d) (WCLTimer d) then Some (wcl_exit d)
      else if gsmState d = WCL_CONNECTED
      then do {
        h \<leftarrow> c_str (wtxBuf d);
        wcl_body ((call [Write h, Output] d)\<lparr>gsmState := 0, ptr := 0, WCLTimer := timer_set (g_clk d) 50\<rparr>) }
      else Some (d\<lparr>wcl_lc := 321\<rparr>))"

definition wcl_start :: "gsm_client \<Rightarrow> gsm_client option" where
  "wcl_start d = do {
     (infobiplen, b, s) \<leftarrow> CrateInfobipXMLString (infobip d) (g_sys d);
     s \<leftarrow> strcat_XML (post_header infobiplen) (s\<lparr>XMLBuf := []\<rparr>);
     w \<leftarrow> strcpy_to (wtxBuf d) (XMLBuf s);
     wcl_connected ((call (connect_to (ee s)) d)\<lparr>g_sys := s, infobip := b, wtxBuf := w,
       WCLTimer := timer_set (g_clk d) WCL_WAIT_TIME, gsmState := 0, ptr := 0\<rparr>) }"

definition ptWCL :: "gsm_client \<Rightarrow> gsm_client option" where
  "ptWCL d =
     (if wcl_lc d = 0 then Some (d\<lparr>wcl_lc := 291\<rparr>)
      else if wcl_lc d = 291 then wcl_start d
      else if wcl_lc d = 321 then wcl_connected d
      else if wcl_lc d = 334 then wcl_body d
      else if wcl_lc d = 338 then Some (wcl_answer d)
      else Some (d\<lparr>wcl_lc := 0\<rparr>))"

text \<open>\<open>ptWCLcredit\<close>. It builds the message, which it does not send, and adds a tag to it first.\<close>

definition credit_request :: "bytes \<Rightarrow> bytes \<Rightarrow> bytes" where
  "credit_request un pw =
     str ''GET /api/command?username='' @ un @ str ''&password='' @ pw @ str ''&cmd=CREDITS HTTP/1.1'' @ CRLF
     @ str ''Host: api.infobip.com'' @ CRLF @ str ''Connection: keep-alive'' @ CRLF @ str ''Cache-Control: no-cache'' @ CRLF
     @ str ''User-Agent: Larus web server'' @ CRLF
     @ str ''Accept: text/html,application/xhtml+xml,application/xml;q=0.9,*/*;q=0.8'' @ CRLF
     @ str ''Accept-Encoding: gzip,deflate'' @ CRLF @ str ''Accept-Language: hr-HR,hr;q=0.8,en-US;q=0.6,en;q=0.4'' @ CRLF
     @ str ''Accept-Charset: windows-1250,utf-8;q=0.7,*;q=0.3'' @ CRLF @ CRLF"

definition set_credit :: "string \<Rightarrow> gsm_client \<Rightarrow> gsm_client option" where
  "set_credit t d = do {
     b \<leftarrow> strcpy_to (infobip_credit (g_sys d)) (str t);
     Some (d\<lparr>g_sys := (g_sys d)\<lparr>infobip_credit := b\<rparr>\<rparr>) }"

definition credit_exit :: "gsm_client \<Rightarrow> gsm_client option" where
  "credit_exit d = do { d \<leftarrow> set_credit ''TIMEOUT'' (wcl_status_close d); Some (d\<lparr>credit_lc := 0\<rparr>) }"

definition credit_answer :: "gsm_client \<Rightarrow> gsm_client option" where
  "credit_answer d =
     (if timer_expired (g_clk d) (WCLCreditTimer d) then credit_exit d
      else if gsmCreditState d = WCL_ANSWER then Some ((wcl_status_close d)\<lparr>credit_lc := 0\<rparr>)
      else Some (d\<lparr>credit_lc := 409\<rparr>))"

definition credit_connected :: "gsm_client \<Rightarrow> gsm_client option" where
  "credit_connected d =
     (if timer_expired (g_clk d) (WCLCreditTimer d) then credit_exit d
      else if gsmCreditState d = WCL_CONNECTED
      then do {
        h \<leftarrow> c_str (CRBuf d);
        credit_answer ((call [Write h, Output] d)\<lparr>gsmCreditState := 0, ptr := 0,
          WCLCreditTimer := timer_set (g_clk d) WCL_WAIT_TIME\<rparr>) }
      else Some (d\<lparr>credit_lc := 396\<rparr>))"

definition credit_start :: "gsm_client \<Rightarrow> gsm_client option" where
  "credit_start d = do {
     (infobiplen, b, s) \<leftarrow> CrateInfobipXMLString (infobip d) (g_sys d);
     s \<leftarrow> AddBuf ''PASS'' tbuf s;
     s \<leftarrow> EE_rBuf EE_GSM_UNAME 16 s; un \<leftarrow> c_str (rBuf s);
     s \<leftarrow> EE_rBuf EE_GSM_PASS 16 s;  pw \<leftarrow> c_str (rBuf s);
     r \<leftarrow> strcpy_to (CRBuf d) (credit_request un pw);
     d \<leftarrow> set_credit ''WAIT'' (d\<lparr>g_sys := s, infobip := b, CRBuf := r\<rparr>);
     credit_connected ((call (connect_to (ee s)) d)\<lparr>gsmCreditState := 0, ptr := 0,
       WCLCreditTimer := timer_set (g_clk d) WCL_WAIT_TIME\<rparr>) }"

definition ptWCLcredit :: "gsm_client \<Rightarrow> gsm_client option" where
  "ptWCLcredit d =
     (if credit_lc d = 0 then Some (d\<lparr>credit_lc := 356\<rparr>)
      else if credit_lc d = 356 then credit_start d
      else if credit_lc d = 396 then credit_connected d
      else if credit_lc d = 409 then credit_answer d
      else Some (d\<lparr>credit_lc := 0\<rparr>))"

definition wcl_poll :: "gsm_client \<Rightarrow> gsm_client option" where
  "wcl_poll d = do {
     d \<leftarrow> (if wcl_active (g_sys d) then ptWCL d else Some d);
     (if wcl_credit_active (g_sys d) then ptWCLcredit d else Some d) }"


subsection \<open>What the message says\<close>

definition line :: "string \<Rightarrow> bytes \<Rightarrow> bytes" where
  "line tag v = elem tag v @ CRLF"

definition open_line :: "string \<Rightarrow> bytes" where
  "open_line tag = str (''<'' @ tag @ ''>'') @ CRLF"

definition close_line :: "string \<Rightarrow> bytes" where
  "close_line tag = str (''</'' @ tag @ ''>'') @ CRLF"

definition gsm_xml :: "bytes \<Rightarrow> bytes \<Rightarrow> bytes \<Rightarrow> bytes \<Rightarrow> bytes list \<Rightarrow> bytes" where
  "gsm_xml un pw oname msg nums =
     open_line ''SMS'' @ open_line ''authentification'' @ line ''username'' un @ CRLF @ line ''password'' pw @ CRLF
     @ close_line ''authentification'' @ open_line ''message'' @ line ''sender'' oname @ line ''text'' msg
     @ close_line ''message'' @ open_line ''recipients'' @ concat (map (line ''gsm'') nums)
     @ close_line ''recipients'' @ str ''</SMS>''"

text \<open>The numbers of the receivers that are enabled.\<close>

definition receivers :: "bytes list \<Rightarrow> byte list \<Rightarrow> bytes list" where
  "receivers nums en = map (\<lambda>i. nums ! i) (filter (\<lambda>i. en ! i \<noteq> 0) [0..<5])"

lemma bufs_keep_sms:
  assumes "bufs s s'"
  shows "sms s' = sms s" "infobip_poruka s' = infobip_poruka s"
  using assms by (cases s; cases s'; simp add: bufs_def plain_def)+

lemma page_OpenLine: "page_step s0 (OpenLine tag) (open_line tag)"
  unfolding OpenLine_def [abs_def] open_line_def by (intro page_bind page_OpenTag page_strcat)

lemma page_CloseLine: "page_step s0 (CloseLine tag) (close_line tag)"
  unfolding CloseLine_def [abs_def] close_line_def by (intro page_bind page_CloseTag page_strcat)

lemma page_AddLine:
  assumes "c_str (eeRd a n (ee s0)) = Some v" and "n \<le> 1024"
  shows "page_step s0 (AddLine tag a n) (line tag v)"
proof -
  from eeRd_c_str [OF assms(1)] obtain r
    where r: "eeRd a n (ee s0) = v @ 0 # r" "0 \<notin> set v" "n = length v + 1 + length r" by blast
  show ?thesis unfolding line_def
    by (rule page_via [where u = "\<lambda>s. s\<lparr>rBuf := eeRd a n (ee s0) @ drop n (rBuf s)\<rparr>",
          OF _ page_bind [OF page_AddTag page_strcat]])
       (use assms(2) r in \<open>simp add: AddLine_def EE_rBuf_def poke_def AddBuf_def sys_ok_def bufs_upd bufs_keep\<close>)
qed

lemma page_poruka:
  assumes "c_str (infobip_poruka s0) = Some v"
  shows "page_step s0 (AddBuf tag infobip_poruka) (elem tag v)"
  by (rule page_via [where u = "\<lambda>s. s", OF _ page_AddTag])
     (use assms in \<open>simp add: AddBuf_def bufs_keep_sms\<close>)

lemma page_AddRecipient:
  assumes "gsm_enable (sms s0) ! i \<noteq> 0 \<Longrightarrow> c_str (eeRd (EE_GSM1_NUM + i * 0x20) 32 (ee s0)) = Some v"
  shows "page_step s0 (AddRecipient i) (if gsm_enable (sms s0) ! i \<noteq> 0 then line ''gsm'' v else [])"
proof (cases "gsm_enable (sms s0) ! i \<noteq> 0")
  case True
  with assms show ?thesis
    by (auto intro!: page_via [where u = "\<lambda>s. s", OF _ page_AddLine] simp: AddRecipient_def bufs_keep_sms)
next
  case False
  then show ?thesis by (auto simp: AddRecipient_def page_def bufs_keep_sms)
qed

text \<open>What the memory has to hold: strings that end in their fields.\<close>

definition gsm_settings :: "bytes \<Rightarrow> bytes \<Rightarrow> bytes \<Rightarrow> bytes \<Rightarrow> bytes list \<Rightarrow> sys \<Rightarrow> bool" where
  "gsm_settings un pw oname msg nums s \<longleftrightarrow>
     c_str (eeRd EE_GSM_UNAME 16 (ee s)) = Some un \<and> c_str (eeRd EE_GSM_PASS 16 (ee s)) = Some pw
   \<and> c_str (eeRd EE_OBJECT_NAME 32 (ee s)) = Some oname \<and> c_str (infobip_poruka s) = Some msg
   \<and> length nums = 5
   \<and> (\<forall>i < 5. gsm_enable (sms s) ! i \<noteq> 0 \<longrightarrow> c_str (eeRd (EE_GSM1_NUM + i * 0x20) 32 (ee s)) = Some (nums ! i))"

lemma concat_receivers:
  "concat (map f (receivers nums en)) =
     (if en ! 0 \<noteq> 0 then f (nums ! 0) else []) @ (if en ! 1 \<noteq> 0 then f (nums ! 1) else [])
     @ (if en ! 2 \<noteq> 0 then f (nums ! 2) else []) @ (if en ! 3 \<noteq> 0 then f (nums ! 3) else [])
     @ (if en ! 4 \<noteq> 0 then f (nums ! 4) else [])"
proof -
  have "[0..<5] = [0, 1, 2, 3, 4 :: nat]" by (simp add: upt_rec)
  then show ?thesis by (simp add: receivers_def)
qed

lemma gsm_document_text:
  assumes "gsm_settings un pw oname msg nums s0"
  shows "page_step s0 gsm_document (gsm_xml un pw oname msg (receivers nums (gsm_enable (sms s0))))"
proof -
  have r: "page_step s0 (AddRecipient i) (if gsm_enable (sms s0) ! i \<noteq> 0 then line ''gsm'' (nums ! i) else [])" if "i < 5" for i
    using assms that by (intro page_AddRecipient) (simp add: gsm_settings_def)
  have c: "page_step s0 (CloseTag ''SMS'') (str ''</SMS>'')" using page_CloseTag [of s0 "''SMS''"] by simp
  have l: "line ''text'' msg = elem ''text'' msg @ CRLF" by (simp add: line_def)
  show ?thesis
    unfolding gsm_document_def [abs_def] gsm_xml_def concat_receivers append_assoc l One_nat_def [symmetric]
    using assms unfolding gsm_settings_def
    by (intro page_bind page_OpenLine page_CloseLine page_AddLine page_strcat page_poruka c
        r [of 0] r [of 1] r [of 2] r [of 3] r [of 4]) auto
qed


text \<open>The text of the message comes out encoded if it fits the array behind its first four bytes; otherwise the encoder leaves the array.\<close>

lemma escape_loop_overflow:
  assumes "0 \<notin> set url" and "length buf \<le> q + length (esc do_escape url)" and "q \<le> length buf" and "length buf + 2 \<le> sz"
  shows "escape_loop (url @ 0 # r) q sz buf = None"
  using assms
proof (induction url arbitrary: q buf)
  case Nil
  then show ?case by (simp add: poke_def)
next
  case (Cons c url)
  have q: "q + 1 < sz" using Cons.prems by auto
  show ?case
  proof (cases "do_escape c")
    case True
    then show ?thesis using Cons q by (cases "q + 4 \<le> length buf") (auto simp: poke_def intro!: Cons.IH)
  next
    case False
    then show ?thesis using Cons q by (cases "q + 1 \<le> length buf") (auto simp: poke_def intro!: Cons.IH)
  qed
qed

lemma rfc1738_escape_overflow:
  assumes "0 \<notin> set url" and "length buf \<le> length (esc do_escape url)" and "length buf + 2 \<le> sz"
  shows "rfc1738_escape (url @ 0 # r) buf sz = None"
  using escape_loop_overflow [of url buf 0 sz r] assms by (simp add: rfc1738_escape_def)

lemma no_zero_line: "0 \<notin> set (str t) \<Longrightarrow> 0 \<notin> set v \<Longrightarrow> 0 \<notin> set (line t v)"
  by (auto simp: line_def elem_def CRLF_def asc_def)


lemma no_zero_lines: "0 \<notin> set (str t) \<Longrightarrow> 0 \<notin> set (open_line t)" "0 \<notin> set (str t) \<Longrightarrow> 0 \<notin> set (close_line t)"
  by (auto simp: open_line_def close_line_def CRLF_def asc_def)

lemma no_zero_gsm_xml:
  assumes "0 \<notin> set un" and "0 \<notin> set pw" and "0 \<notin> set oname" and "0 \<notin> set msg" and "\<forall>n \<in> set nums. 0 \<notin> set n"
  shows "0 \<notin> set (gsm_xml un pw oname msg nums)"
proof -
  have "0 \<notin> set (concat (map (line ''gsm'') nums))"
    using assms(5) no_zero_line [of "''gsm''"] by (auto simp: asc_def)
  moreover have "0 \<notin> set (line t v)" "0 \<notin> set (open_line t)" "0 \<notin> set (close_line t)"
    if "0 \<notin> set (str t)" "0 \<notin> set v" for t v using that no_zero_line no_zero_lines by auto
  ultimately show ?thesis using assms unfolding gsm_xml_def by (simp add: asc_def CRLF_def)
qed

lemma gsm_document_run:
  assumes "sys_ok s" and "gsm_settings un pw oname msg nums s"
    and "length (gsm_xml un pw oname msg (receivers nums (gsm_enable (sms s)))) < XMLBUF_SIZE"
  shows "\<exists>s'. gsm_document (s\<lparr>XMLBuf := []\<rparr>) = Some s' \<and> sys_ok s' \<and> bufs s s'
     \<and> XMLBuf s' = gsm_xml un pw oname msg (receivers nums (gsm_enable (sms s)))"
proof -
  have b: "bufs s (s\<lparr>XMLBuf := []\<rparr>)" "sys_ok (s\<lparr>XMLBuf := []\<rparr>)"
    using assms(1) by (simp_all add: bufs_upd sys_ok_def XMLBUF_SIZE_def)
  from page_D [OF gsm_document_text [OF assms(2)] b(2,1)] assms(3) show ?thesis by auto
qed

lemma no_zero_escaped: "0 \<notin> set (percent c)" "0 \<notin> set v \<Longrightarrow> 0 \<notin> set (esc f v)"
proof -
  have p: "0 \<notin> set (percent c)" for c
    using hexc_props [OF drop_4_less [of c]] hexc_props [OF nibble_bounds(1) [of c]] by (simp add: percent_def asc_def)
  then show "0 \<notin> set (percent c)" .
  show "0 \<notin> set v \<Longrightarrow> 0 \<notin> set (esc f v)" using p by (induction v) auto
qed

lemma CrateInfobipXMLString_text:
  assumes s: "sys_ok s" and b: "length b = 1024" and g: "gsm_settings un pw oname msg nums s"
  defines "xml \<equiv> gsm_xml un pw oname msg (receivers nums (gsm_enable (sms s)))"
  assumes l: "length xml < XMLBUF_SIZE"
  shows "length (esc do_escape xml) < 1020 \<Longrightarrow> \<exists>b' s'. CrateInfobipXMLString b s = Some (4 + length (esc do_escape xml), b', s')
       \<and> c_str b' = Some (str ''XML='' @ esc do_escape xml) \<and> length b' = 1024 \<and> sys_ok s' \<and> bufs s s'"
    and "1020 \<le> length (esc do_escape xml) \<Longrightarrow> CrateInfobipXMLString b s = None"
proof -
  obtain s' where d: "gsm_document (s\<lparr>XMLBuf := []\<rparr>) = Some s'" "sys_ok s'" "bufs s s'" "XMLBuf s' = xml"
    using gsm_document_run [OF s g] l unfolding xml_def by blast
  have n: "\<forall>n \<in> set (receivers nums (gsm_enable (sms s))). 0 \<notin> set n"
  proof
    fix n assume "n \<in> set (receivers nums (gsm_enable (sms s)))"
    then obtain i where i: "i < 5" "gsm_enable (sms s) ! i \<noteq> 0" "n = nums ! i" by (auto simp: receivers_def)
    then have "c_str (eeRd (EE_GSM1_NUM + i * 0x20) 32 (ee s)) = Some n" using g by (simp add: gsm_settings_def)
    from c_str_SomeD [OF this] show "0 \<notin> set n" by blast
  qed
  have "0 \<notin> set un" "0 \<notin> set pw" "0 \<notin> set oname" "0 \<notin> set msg"
    using g c_str_SomeD unfolding gsm_settings_def by blast+
  then have z: "0 \<notin> set xml" using n unfolding xml_def by (intro no_zero_gsm_xml)
  let ?b = "str ''XML='' @ 0 # drop 5 b"
  have f: "Suc (Suc (Suc (Suc (Suc 0)))) = 5" by simp
  have p: "strcpy_to b (str ''XML='') = Some ?b" using b by (simp add: strcpy_to_def f)
  have t: "take 4 ?b = str ''XML=''" "length (drop 4 ?b) = 1020" using b by simp_all
  show "CrateInfobipXMLString b s = None" if "1020 \<le> length (esc do_escape xml)"
    using rfc1738_escape_overflow [OF z, of "drop 4 ?b" 1024 "[]"] that t
    by (simp add: CrateInfobipXMLString_def p d ENCODE_BUF_LEN_def del: str_Cons)
  assume e: "length (esc do_escape xml) < 1020"
  let ?e = "esc do_escape xml"
  let ?r = "?e @ 0 # drop (length ?e + 1) (drop 4 ?b)"
  have r: "rfc1738_escape (xml @ [0]) (drop 4 ?b) 1024 = Some ?r"
    using rfc1738_escape_result [OF z, of 1024 "drop 4 ?b" "[]"] e t by simp
  have ze: "0 \<notin> set (str ''XML='' @ ?e)" using no_zero_escaped(2) [OF z] by (simp add: asc_def)
  have c: "c_str (str ''XML='' @ ?r) = Some (str ''XML='' @ ?e)" using c_str_append [OF ze] by simp
  have "CrateInfobipXMLString b s = Some (length (str ''XML='' @ ?e), str ''XML='' @ ?r, s')"
    unfolding CrateInfobipXMLString_def ENCODE_BUF_LEN_def
    by (simp only: p d(1) Option.bind.simps d(4) r t(1) c Let_def)
  moreover have "length (str ''XML='' @ ?r) = 1024" using e b by simp
  ultimately show "\<exists>b' s'. CrateInfobipXMLString b s = Some (4 + length ?e, b', s')
       \<and> c_str b' = Some (str ''XML='' @ ?e) \<and> length b' = 1024 \<and> sys_ok s' \<and> bufs s s'"
    using c d by (intro exI [of _ "str ''XML='' @ ?r"] exI [of _ s']) simp
qed


subsection \<open>What the clients leave alone\<close>

definition frames :: "(sys \<Rightarrow> sys option) \<Rightarrow> bool" where
  "frames f \<longleftrightarrow> (\<forall>s s'. f s = Some s' \<longrightarrow> bufs s s')"

lemma framesI: "(\<And>s s'. f s = Some s' \<Longrightarrow> bufs s s') \<Longrightarrow> frames f"
  and framesD: "frames f \<Longrightarrow> f s = Some s' \<Longrightarrow> bufs s s'"
  by (auto simp: frames_def)

lemma frames_bind: "frames f \<Longrightarrow> frames g \<Longrightarrow> frames (\<lambda>s. f s \<bind> g)"
  by (rule framesI) (auto simp: bind_eq_Some_conv bufs_def dest!: framesD)

lemma frames_strcat: "frames (strcat_XML t)"
  by (rule framesI) (auto simp: strcat_XML_def bufs_upd split: if_splits)

lemma frames_OpenTag: "frames (OpenTag t)"
  and frames_CloseTag: "frames (CloseTag t)"
  and frames_AddTag: "frames (AddTag t v)"
  unfolding OpenTag_def [abs_def] CloseTag_def [abs_def] AddTag_def [abs_def]
  by (intro frames_bind frames_strcat)+

lemma frames_AddBuf: "frames (AddBuf t f)"
  by (rule framesI) (auto simp: AddBuf_def bind_eq_Some_conv dest: framesD [OF frames_AddTag])

lemma frames_EE_rBuf: "frames (EE_rBuf a n)"
  by (rule framesI) (auto simp: EE_rBuf_def bind_eq_Some_conv bufs_upd)

lemma frames_AddRecipient: "frames (AddRecipient i)"
proof (rule framesI)
  have l: "frames (AddLine t a n)" for t a n
    unfolding AddLine_def [abs_def] by (intro frames_bind frames_EE_rBuf frames_AddBuf frames_strcat)
  fix s s' assume "AddRecipient i s = Some s'"
  then show "bufs s s'" using framesD [OF l] by (auto simp: AddRecipient_def split: if_splits)
qed

lemma frames_gsm_document: "frames gsm_document"
  unfolding gsm_document_def [abs_def] OpenLine_def [abs_def] CloseLine_def [abs_def] AddLine_def [abs_def]
  by (intro frames_bind frames_EE_rBuf frames_AddBuf frames_strcat frames_OpenTag frames_CloseTag frames_AddRecipient)

lemma bufs_active: "bufs s s' \<Longrightarrow> wcl_active s' = wcl_active s \<and> wcl_credit_active s' = wcl_credit_active s"
  by (cases s; cases s') (simp add: bufs_def plain_def)

lemma CrateInfobipXMLString_frame:
  assumes "CrateInfobipXMLString b s = Some (n, b', s')"
  shows "wcl_active s' = wcl_active s" "wcl_credit_active s' = wcl_credit_active s" "c_str b' \<noteq> None" "length b' = length b"
    "n < length b"
proof -
  from assms obtain b1 s1 e v where c: "strcpy_to b (str ''XML='') = Some b1" "gsm_document (s\<lparr>XMLBuf := []\<rparr>) = Some s1"
      "rfc1738_escape (XMLBuf s1 @ [0]) (drop 4 b1) ENCODE_BUF_LEN = Some e" "b' = take 4 b1 @ e" "c_str b' = Some v"
      "s' = s1" "n = length v"
    by (auto simp: CrateInfobipXMLString_def bind_eq_Some_conv Let_def)
  from framesD [OF frames_gsm_document c(2)] show "wcl_active s' = wcl_active s" "wcl_credit_active s' = wcl_credit_active s"
    unfolding c(6) by (auto dest: bufs_active)
  have e: "length out = length buf" if "escape_loop u q sz buf = Some out" for u q sz buf out
    using that by (induction u q sz buf rule: escape_loop.induct)
      (auto simp: bind_eq_Some_conv length_poke split: if_splits)
  have "length e = length (drop 4 b1)" using c(3) unfolding rfc1738_escape_def by (rule e)
  moreover have "length b1 = length b" using c(1) by (simp add: strcpy_to_def length_poke)
  ultimately show l: "length b' = length b" by (simp add: c(4))
  show "c_str b' \<noteq> None" using c(5) by simp
  show "n < length b" using c_str_length [OF c(5)] l c(7) by simp
qed


subsection \<open>The client ends\<close>

text \<open>What the network may do between two polls, and a sequence of polls, each some milliseconds after the one before.\<close>

datatype gsm_event = Connected bool | Received "bytes list" | Credit_connected bool | Credit_received bytes nat

fun deliver :: "u16 \<Rightarrow> gsm_event \<Rightarrow> gsm_client \<Rightarrow> gsm_client option" where
  "deliver a10 (Connected err) d = Some (wclConnected err d)"
| "deliver a10 (Received p) d = wclRecv a10 p d"
| "deliver a10 (Credit_connected err) d = Some (wclStatusConnected err d)"
| "deliver a10 (Credit_received p n) d = wclCreditRecv p n d"

fun deliver_all :: "u16 \<Rightarrow> gsm_event list \<Rightarrow> gsm_client \<Rightarrow> gsm_client option" where
  "deliver_all a10 [] d = Some d"
| "deliver_all a10 (e # es) d = do { d \<leftarrow> deliver a10 e d; deliver_all a10 es d }"

fun gsm_polls :: "u16 \<Rightarrow> (nat \<times> gsm_event list) list \<Rightarrow> gsm_client \<Rightarrow> gsm_client option" where
  "gsm_polls a10 [] d = Some d"
| "gsm_polls a10 ((n, es) # cs) d = do {
     d \<leftarrow> deliver_all a10 es d;
     d \<leftarrow> wcl_poll (d\<lparr>g_clk := elapse n (g_clk d)\<rparr>);
     gsm_polls a10 cs d }"

definition same_client :: "gsm_client \<Rightarrow> gsm_client \<Rightarrow> bool" where
  "same_client d d' \<longleftrightarrow> wcl_lc d' = wcl_lc d \<and> WCLTimer d' = WCLTimer d \<and> g_clk d' = g_clk d
     \<and> wcl_active (g_sys d') = wcl_active (g_sys d)"

lemma same_client_trans: "same_client d d' \<Longrightarrow> same_client d' d'' \<Longrightarrow> same_client d d''"
  by (simp add: same_client_def)

lemma deliver_same: "deliver a10 e d = Some d' \<Longrightarrow> same_client d d'"
  by (cases e) (auto simp: same_client_def wclConnected_def wclStatusConnected_def wclRecv_def wclCreditRecv_def
      bind_eq_Some_conv Let_def split: if_splits)

lemma deliver_all_same: "deliver_all a10 es d = Some d' \<Longrightarrow> same_client d d'"
proof (induction es arbitrary: d)
  case Nil
  then show ?case by (simp add: same_client_def)
next
  case (Cons e es)
  then show ?case by (auto simp: bind_eq_Some_conv intro: same_client_trans deliver_same)
qed

text \<open>The credit client has its own line, timer and flag.\<close>

lemma set_credit_same: "set_credit t d = Some d' \<Longrightarrow> same_client d d'"
  by (auto simp: set_credit_def bind_eq_Some_conv same_client_def)

lemma credit_exit_same: "credit_exit d = Some d' \<Longrightarrow> same_client d d'"
  by (auto simp: credit_exit_def bind_eq_Some_conv wcl_status_close_def call_def same_client_def dest!: set_credit_same)

lemma credit_answer_same: "credit_answer d = Some d' \<Longrightarrow> same_client d d'"
  by (auto simp: credit_answer_def wcl_status_close_def call_def same_client_def dest: credit_exit_same [unfolded same_client_def]
      split: if_splits)

lemma credit_connected_same: "credit_connected d = Some d' \<Longrightarrow> same_client d d'"
  by (auto simp: credit_connected_def call_def same_client_def bind_eq_Some_conv
      dest: credit_exit_same [unfolded same_client_def] credit_answer_same [unfolded same_client_def] split: if_splits)

lemma credit_start_same:
  assumes "credit_start d = Some d'"
  shows "same_client d d'"
proof -
  obtain n b s s1 s2 un s3 pw r d1 where c: "CrateInfobipXMLString (infobip d) (g_sys d) = Some (n, b, s)"
      "AddBuf ''PASS'' tbuf s = Some s1" "EE_rBuf EE_GSM_UNAME 16 s1 = Some s2" "EE_rBuf EE_GSM_PASS 16 s2 = Some s3"
      "set_credit ''WAIT'' (d\<lparr>g_sys := s3, infobip := b, CRBuf := r\<rparr>) = Some d1"
      "credit_connected ((call (connect_to (ee s3)) d1)\<lparr>gsmCreditState := 0, ptr := 0,
       WCLCreditTimer := timer_set (g_clk d1) WCL_WAIT_TIME\<rparr>) = Some d'"
    using assms by (auto simp: credit_start_def bind_eq_Some_conv)
  have "wcl_active s3 = wcl_active (g_sys d)"
    using CrateInfobipXMLString_frame(1) [OF c(1)] framesD [OF frames_AddBuf c(2)] framesD [OF frames_EE_rBuf c(3)]
      framesD [OF frames_EE_rBuf c(4)] by (auto dest!: bufs_active)
  then show ?thesis using set_credit_same [OF c(5)] credit_connected_same [OF c(6)] by (simp add: same_client_def call_def)
qed

lemma ptWCLcredit_same: "ptWCLcredit d = Some d' \<Longrightarrow> same_client d d'"
  by (auto simp: ptWCLcredit_def dest: credit_start_same credit_connected_same credit_answer_same split: if_splits)
     (auto simp: same_client_def)


text \<open>
  What is left of the waits: \<open>bounded g d N\<close> says that the client ends within \<open>N\<close> milliseconds if it is polled
  at least every \<open>g\<close>.
\<close>

definition waiting :: "u32 \<Rightarrow> nat \<Rightarrow> gsm_client \<Rightarrow> bool" where
  "waiting i m d \<longleftrightarrow> (\<exists>c. WCLTimer d = timer_set c i \<and> g_clk d = elapse m c)"

definition bounded :: "nat \<Rightarrow> gsm_client \<Rightarrow> nat \<Rightarrow> bool" where
  "bounded g d N \<longleftrightarrow> (wcl_active (g_sys d) \<longrightarrow>
     wcl_lc d = 0 \<and> 20050 + 5 * g \<le> N \<or> wcl_lc d = 291 \<and> 20050 + 4 * g \<le> N
   \<or> wcl_lc d = 321 \<and> (\<exists>m < 10000. waiting 10000 m d \<and> 20050 + 3 * g \<le> N + m)
   \<or> wcl_lc d = 334 \<and> (\<exists>m < 50. waiting 50 m d \<and> 10050 + 2 * g \<le> N + m)
   \<or> wcl_lc d = 338 \<and> (\<exists>m < 10000. waiting 10000 m d \<and> 10000 + g \<le> N + m))"

lemma bounded_positive: "bounded g d N \<Longrightarrow> wcl_active (g_sys d) \<Longrightarrow> g < N"
  by (auto simp: bounded_def)

lemma bounded_same: "same_client d d' \<Longrightarrow> bounded g d N \<Longrightarrow> bounded g d' N"
  by (auto simp: same_client_def bounded_def waiting_def)

lemma waiting_expired:
  assumes "waiting i m d" and "unat i < 2 ^ 31" and "m < 2 ^ 31"
  shows "timer_expired (g_clk d) (WCLTimer d) \<longleftrightarrow> unat i \<le> m"
  using assms timer_set_expired by (auto simp: waiting_def)

lemma waiting_elapse: "waiting i m d \<Longrightarrow> waiting i (n + m) (d\<lparr>g_clk := elapse n (g_clk d)\<rparr>)"
  by (auto simp: waiting_def elapse_add)

lemma just_armed: "waiting i 0 (d\<lparr>WCLTimer := timer_set (g_clk d) i\<rparr>)"
  by (auto simp: waiting_def intro: exI [of _ "g_clk d"])

lemma wcl_exit_bounded [simp]: "bounded g (wcl_exit d) N"
  by (simp add: bounded_def wcl_exit_def wcl__close_def call_def)

lemma fresh_timer: "0 < unat i \<Longrightarrow> unat i < 2 ^ 31 \<Longrightarrow> \<not> timer_expired c (timer_set c i)"
  using timer_set_expired [of i 0 c] by simp

lemma waiting_line [simp]: "waiting i m (d\<lparr>wcl_lc := l\<rparr>) = waiting i m d"
  by (simp add: waiting_def)

lemma bounded_at:
  "waiting 10000 m d \<Longrightarrow> m < 10000 \<Longrightarrow> 20050 + 3 * g \<le> N + m \<Longrightarrow> bounded g (d\<lparr>wcl_lc := 321\<rparr>) N"
  "waiting 50 m d \<Longrightarrow> m < 50 \<Longrightarrow> 10050 + 2 * g \<le> N + m \<Longrightarrow> bounded g (d\<lparr>wcl_lc := 334\<rparr>) N"
  "waiting 10000 m d \<Longrightarrow> m < 10000 \<Longrightarrow> 10000 + g \<le> N + m \<Longrightarrow> bounded g (d\<lparr>wcl_lc := 338\<rparr>) N"
  by (auto simp: bounded_def)

lemma wcl_answer_bounded:
  assumes "waiting 10000 m d" and "m < 2 ^ 31" and "m < 10000 \<Longrightarrow> 10000 + g \<le> N + m"
  shows "bounded g (wcl_answer d) N"
proof (cases "timer_expired (g_clk d) (WCLTimer d)")
  case True
  then show ?thesis by (simp add: wcl_answer_def)
next
  case False
  then have "m < 10000" using assms(1,2) waiting_expired [of 10000 m  d] by simp
  then show ?thesis using assms bounded_at(3) by (simp add: wcl_answer_def)
qed

lemma wcl_body_bounded:
  assumes "waiting 50 m d" and "m < 2 ^ 31" and "m < 50 \<Longrightarrow> 10050 + 2 * g \<le> N + m" and "10000 + g \<le> N"
    and "wcl_body d = Some d'"
  shows "bounded g d' N"
proof (cases "timer_expired (g_clk d) (WCLTimer d)")
  case True
  let ?d = "\<lambda>b. (call [Write b, Output] d)\<lparr>WCLTimer := timer_set (g_clk d) WCL_WAIT_TIME\<rparr>"
  have "waiting 10000 0 (?d b)" for b
    using just_armed [of 10000 "call [Write b, Output] d"] by (simp add: WCL_WAIT_TIME_def call_def)
  then have "bounded g (wcl_answer (?d b)) N" for b using assms(4) by (intro wcl_answer_bounded) auto
  then show ?thesis using True assms(5) by (auto simp: wcl_body_def bind_eq_Some_conv)
next
  case False
  then have "m < 50" using assms(1,2) waiting_expired [of 50 m  d] by simp
  then have "bounded g (d\<lparr>wcl_lc := 334\<rparr>) N" using assms bounded_at(2) by simp
  then show ?thesis using False assms(5) by (auto simp: wcl_body_def)
qed

lemma wcl_connected_bounded:
  assumes "waiting 10000 m d" and "m < 2 ^ 31" and "m < 10000 \<Longrightarrow> 20050 + 3 * g \<le> N + m"
    and "wcl_connected d = Some d'"
  shows "bounded g d' N"
proof (cases "timer_expired (g_clk d) (WCLTimer d)")
  case True
  then show ?thesis using assms(4) by (auto simp: wcl_connected_def)
next
  case False
  then have m: "m < 10000" using assms(1,2) waiting_expired [of 10000 m  d] by simp
  show ?thesis
  proof (cases "gsmState d = WCL_CONNECTED")
    case True
    let ?d = "\<lambda>h. (call [Write h, Output] d)\<lparr>gsmState := 0, ptr := 0, WCLTimer := timer_set (g_clk d) 50\<rparr>"
    have w: "waiting 50 0 (?d h)" for h by (auto simp: waiting_def call_def intro: exI [of _ "g_clk d"])
    have N: "10050 + 2 * g \<le> N" using assms(3) m by simp
    from True False assms(4) obtain h where "wcl_body (?d h) = Some d'" by (auto simp: wcl_connected_def bind_eq_Some_conv)
    from wcl_body_bounded [OF w _ _ _ this, of g N] N show ?thesis by simp
  next
    case f: False
    have "bounded g (d\<lparr>wcl_lc := 321\<rparr>) N" using assms m bounded_at(1) by simp
    then show ?thesis using f False assms(4) by (auto simp: wcl_connected_def)
  qed
qed

lemma wcl_start_bounded:
  assumes "20050 + 3 * g \<le> N" and "wcl_start d = Some d'"
  shows "bounded g d' N"
proof -
  from assms(2) obtain s b w where "wcl_connected ((call (connect_to (ee s)) d)\<lparr>g_sys := s, infobip := b, wtxBuf := w,
       WCLTimer := timer_set (g_clk d) WCL_WAIT_TIME, gsmState := 0, ptr := 0\<rparr>) = Some d'" (is "wcl_connected ?d = _")
    by (auto simp: wcl_start_def bind_eq_Some_conv)
  moreover have "waiting 10000 0 ?d" by (auto simp: waiting_def call_def WCL_WAIT_TIME_def intro: exI [of _ "g_clk d"])
  ultimately show ?thesis using assms(1) by (intro wcl_connected_bounded) auto
qed

lemma wcl_poll_bounded:
  assumes b: "bounded g d N" and "n \<le> g" and "g < 2 ^ 30" and p: "wcl_poll (d\<lparr>g_clk := elapse n (g_clk d)\<rparr>) = Some d'"
  shows "bounded g d' (N - n)"
proof -
  let ?d = "d\<lparr>g_clk := elapse n (g_clk d)\<rparr>"
  from p obtain d1 where 1: "(if wcl_active (g_sys ?d) then ptWCL ?d else Some ?d) = Some d1"
    and 2: "(if wcl_credit_active (g_sys d1) then ptWCLcredit d1 else Some d1) = Some d'"
    by (auto simp: wcl_poll_def bind_eq_Some_conv split: if_splits)
  have "bounded g d1 (N - n)"
  proof (cases "wcl_active (g_sys d)")
    case False
    then have "d1 = ?d" using 1 by simp
    then show ?thesis using False by (simp add: bounded_def)
  next
    case True
    then have P: "ptWCL ?d = Some d1" using 1 by simp
    have n: "n < 2 ^ 30" "n < N" using assms(2,3) bounded_positive [OF b True] by simp_all
    note w = waiting_elapse [of _ _ d n]
    consider "wcl_lc d = 0" "20050 + 5 * g \<le> N" | "wcl_lc d = 291" "20050 + 4 * g \<le> N"
      | m where "wcl_lc d = 321" "m < 10000" "waiting 10000 m d" "20050 + 3 * g \<le> N + m"
      | m where "wcl_lc d = 334" "m < 50" "waiting 50 m d" "10050 + 2 * g \<le> N + m"
      | m where "wcl_lc d = 338" "m < 10000" "waiting 10000 m d" "10000 + g \<le> N + m"
      using b True unfolding bounded_def by (elim impE disjE conjE exE) assumption+
    then show ?thesis
    proof cases
      case 1
      then have "d1 = ?d\<lparr>wcl_lc := 291\<rparr>" using P by (simp add: ptWCL_def)
      moreover have "20050 + 4 * g \<le> N - n" using 1(2) assms(2) by linarith
      ultimately show ?thesis by (simp add: bounded_def)
    next
      case 2
      then have "20050 + 3 * g \<le> N - n" using assms(2) by linarith
      then show ?thesis using 2 P by (intro wcl_start_bounded) (simp_all add: ptWCL_def)
    next
      case 3
      then have "wcl_connected ?d = Some d1" using P by (simp add: ptWCL_def)
      then show ?thesis using 3 n w [OF 3(3)] by (intro wcl_connected_bounded [of "n + m" ?d]) simp_all
    next
      case 4
      then have "wcl_body ?d = Some d1" using P by (simp add: ptWCL_def)
      moreover have "10000 + g \<le> N - n" using 4 assms(2) by linarith
      ultimately show ?thesis using 4 n w [OF 4(3)] by (intro wcl_body_bounded [of "n + m" ?d]) simp_all
    next
      case 5
      then have "bounded g (wcl_answer ?d) (N - n)" using n w [OF 5(3)] by (intro wcl_answer_bounded [of "n + m"]) simp_all
      then show ?thesis using P 5(1) by (simp add: ptWCL_def)
    qed
  qed
  moreover have "same_client d1 d'" using 2 by (auto simp: same_client_def dest: ptWCLcredit_same [unfolded same_client_def] split: if_splits)
  ultimately show ?thesis by (rule bounded_same [rotated])
qed

lemma gsm_polls_bounded:
  assumes "bounded g d N" and "\<forall>c \<in> set cs. fst c \<le> g" and "g < 2 ^ 30" and "gsm_polls a10 cs d = Some d'"
  shows "bounded g d' (N - sum_list (map fst cs))"
  using assms
proof (induction cs arbitrary: d N)
  case (Cons c cs)
  obtain n es where c: "c = (n, es)" by (cases c)
  with Cons.prems(4) obtain d1 d2 where d: "deliver_all a10 es d = Some d1"
      "wcl_poll (d1\<lparr>g_clk := elapse n (g_clk d1)\<rparr>) = Some d2" "gsm_polls a10 cs d2 = Some d'"
    by (auto simp: bind_eq_Some_conv)
  have "bounded g d1 N" using Cons.prems(1) deliver_all_same [OF d(1)] by (blast intro: bounded_same)
  then have "bounded g d2 (N - n)" using Cons.prems(2,3) c d(2) by (intro wcl_poll_bounded) auto
  then have "bounded g d' (N - n - sum_list (map fst cs))" using Cons.prems d(3) by (intro Cons.IH) auto
  then show ?case by (simp add: c diff_diff_left)
qed simp

lemma gsm_client_ends:
  assumes "wcl_lc d = 0" and "\<forall>c \<in> set cs. fst c \<le> g" and "g < 2 ^ 30" and "20050 + 5 * g \<le> sum_list (map fst cs)"
    and "gsm_polls a10 cs d = Some d'"
  shows "\<not> wcl_active (g_sys d')"
proof
  assume "wcl_active (g_sys d')"
  moreover have "bounded g d (20050 + 5 * g)" using assms(1) by (simp add: bounded_def)
  ultimately show False using bounded_positive gsm_polls_bounded [OF _ assms(2,3,5)] assms(4) by fastforce
qed


text \<open>With no reply and no request for the credit nothing can go wrong either, once the message fits.\<close>

definition connects :: "gsm_event list \<Rightarrow> bool" where
  "connects es \<longleftrightarrow> (\<forall>e \<in> set es. \<exists>err. e = Connected err)"

definition sound :: "bytes \<Rightarrow> sys \<Rightarrow> gsm_client \<Rightarrow> bool" where
  "sound b0 s0 d \<longleftrightarrow> \<not> wcl_credit_active (g_sys d) \<and> length (wtxBuf d) = 1024
     \<and> (wcl_active (g_sys d) \<longrightarrow>
        (wcl_lc d = 0 \<or> wcl_lc d = 291) \<and> g_sys d = s0 \<and> infobip d = b0
      \<or> wcl_lc d = 321 \<and> c_str (wtxBuf d) \<noteq> None \<and> c_str (infobip d) \<noteq> None
      \<or> wcl_lc d = 334 \<and> c_str (infobip d) \<noteq> None \<or> wcl_lc d = 338)"

lemma post_header_text: "n < 1024 \<Longrightarrow> 0 \<notin> set (post_header n) \<and> length (post_header n) < 200"
  using dec_text [of n 4] by (auto simp: post_header_def CRLF_def asc_def)

lemma connects_sound: "connects es \<Longrightarrow> sound b0 s0 d \<Longrightarrow> \<exists>d'. deliver_all a10 es d = Some d' \<and> sound b0 s0 d'"
  by (induction es arbitrary: d) (auto simp: connects_def wclConnected_def sound_def)

lemma wcl_exit_sound: "\<not> wcl_credit_active (g_sys d) \<Longrightarrow> length (wtxBuf d) = 1024 \<Longrightarrow> sound b0 s0 (wcl_exit d)"
  by (simp add: sound_def wcl_exit_def wcl__close_def call_def)

lemma wcl_answer_sound: "\<not> wcl_credit_active (g_sys d) \<Longrightarrow> length (wtxBuf d) = 1024 \<Longrightarrow> sound b0 s0 (wcl_answer d)"
  using wcl_exit_sound by (simp add: wcl_answer_def) (simp add: sound_def)

lemma wcl_body_sound:
  assumes "\<not> wcl_credit_active (g_sys d)" and "length (wtxBuf d) = 1024" and "c_str (infobip d) \<noteq> None"
  shows "\<exists>d'. wcl_body d = Some d' \<and> sound b0 s0 d'"
proof (cases "timer_expired (g_clk d) (WCLTimer d)")
  case True
  then show ?thesis using assms by (auto simp: wcl_body_def call_def intro!: wcl_answer_sound)
next
  case False
  then show ?thesis using assms by (auto simp: wcl_body_def sound_def)
qed

lemma wcl_connected_sound:
  assumes "\<not> wcl_credit_active (g_sys d)" and "length (wtxBuf d) = 1024" and "c_str (infobip d) \<noteq> None" and "c_str (wtxBuf d) \<noteq> None"
  shows "\<exists>d'. wcl_connected d = Some d' \<and> sound b0 s0 d'"
proof -
  obtain h where h: "c_str (wtxBuf d) = Some h" using assms(4) by blast
  let ?d = "(call [Write h, Output] d)\<lparr>gsmState := 0, ptr := 0, WCLTimer := timer_set (g_clk d) 50\<rparr>"
  have "\<exists>d'. wcl_body ?d = Some d' \<and> sound b0 s0 d'" using assms(1-3) by (intro wcl_body_sound) (simp_all add: call_def)
  moreover have "sound b0 s0 (d\<lparr>wcl_lc := 321\<rparr>)" using assms by (simp add: sound_def)
  ultimately show ?thesis using h wcl_exit_sound [OF assms(1,2)] by (auto simp: wcl_connected_def)
qed

lemma wcl_start_sound:
  assumes "\<not> wcl_credit_active (g_sys d)" and "length (wtxBuf d) = 1024" and "length (infobip d) = 1024"
    and c: "CrateInfobipXMLString (infobip d) (g_sys d) = Some (n, b, s)"
  shows "\<exists>d'. wcl_start d = Some d' \<and> sound b0 s0 d'"
proof -
  note f = CrateInfobipXMLString_frame [OF c]
  have h: "0 \<notin> set (post_header n)" "length (post_header n) < 200" using post_header_text [of n] f(5) assms(3) by auto
  let ?s = "s\<lparr>XMLBuf := post_header n\<rparr>"
  have x: "strcat_XML (post_header n) (s\<lparr>XMLBuf := []\<rparr>) = Some ?s" using h(2) by (simp add: strcat_XML_def XMLBUF_SIZE_def)
  obtain w where w: "strcpy_to (wtxBuf d) (post_header n) = Some w" "c_str w = Some (post_header n)" "length w = 1024"
    using strcpy_to_text [OF h(1), of "wtxBuf d"] h(2) assms(2) by auto
  let ?d = "(call (connect_to (ee ?s)) d)\<lparr>g_sys := ?s, infobip := b, wtxBuf := w,
       WCLTimer := timer_set (g_clk d) WCL_WAIT_TIME, gsmState := 0, ptr := 0\<rparr>"
  have "\<exists>d'. wcl_connected ?d = Some d' \<and> sound b0 s0 d'"
    using assms(1) f(2,3) w(2,3) by (intro wcl_connected_sound) simp_all
  then show ?thesis using c x w(1) by (simp add: wcl_start_def)
qed

lemma wcl_poll_sound:
  assumes "sound b0 s0 d" and "length b0 = 1024" and "CrateInfobipXMLString b0 s0 = Some (n, b, s)"
  shows "\<exists>d'. wcl_poll (d\<lparr>g_clk := c\<rparr>) = Some d' \<and> sound b0 s0 d'"
proof -
  let ?d = "d\<lparr>g_clk := c\<rparr>"
  have d: "sound b0 s0 ?d" "\<not> wcl_credit_active (g_sys ?d)" "length (wtxBuf ?d) = 1024" using assms(1) by (simp_all add: sound_def)
  have "\<exists>d1. (if wcl_active (g_sys ?d) then ptWCL ?d else Some ?d) = Some d1 \<and> sound b0 s0 d1"
  proof (cases "wcl_active (g_sys ?d)")
    case True
    consider "wcl_lc ?d = 0" | "wcl_lc ?d = 291" "g_sys ?d = s0" "infobip ?d = b0"
      | "wcl_lc ?d = 321" "c_str (wtxBuf ?d) \<noteq> None" "c_str (infobip ?d) \<noteq> None"
      | "wcl_lc ?d = 334" "c_str (infobip ?d) \<noteq> None" | "wcl_lc ?d = 338"
      using d(1) True unfolding sound_def by (metis (no_types))
    then show ?thesis
    proof cases
      case 1
      then have "sound b0 s0 (?d\<lparr>wcl_lc := 291\<rparr>)" using d(1) True by (auto simp: sound_def)
      then show ?thesis using 1 True by (simp add: ptWCL_def)
    next
      case 2
      then have "\<exists>d'. wcl_start ?d = Some d' \<and> sound b0 s0 d'" using d assms(2,3) by (intro wcl_start_sound) simp_all
      then show ?thesis using 2 True by (simp add: ptWCL_def)
    next
      case 3
      then have "\<exists>d'. wcl_connected ?d = Some d' \<and> sound b0 s0 d'" using d by (intro wcl_connected_sound)
      then show ?thesis using 3 True by (simp add: ptWCL_def)
    next
      case 4
      then have "\<exists>d'. wcl_body ?d = Some d' \<and> sound b0 s0 d'" using d by (intro wcl_body_sound)
      then show ?thesis using 4 True by (simp add: ptWCL_def)
    next
      case 5
      then show ?thesis using d True wcl_answer_sound by (simp add: ptWCL_def)
    qed
  qed (use d in simp)
  then obtain d1 where 1: "(if wcl_active (g_sys ?d) then ptWCL ?d else Some ?d) = Some d1" "sound b0 s0 d1" by blast
  then have "\<not> wcl_credit_active (g_sys d1)" by (simp add: sound_def)
  then show ?thesis unfolding wcl_poll_def 1(1) using 1(2) by simp
qed

lemma gsm_polls_return:
  assumes "sound b0 s0 d" and "length b0 = 1024" and "CrateInfobipXMLString b0 s0 = Some (n, b, s)" and "\<forall>c \<in> set cs. connects (snd c)"
  shows "\<exists>d'. gsm_polls a10 cs d = Some d'"
  using assms(1,4)
proof (induction cs arbitrary: d)
  case (Cons c cs)
  obtain k es where c: "c = (k, es)" by (cases c)
  obtain d1 where d1: "deliver_all a10 es d = Some d1" "sound b0 s0 d1"
    using connects_sound [of es b0 s0 d a10] Cons.prems c by auto
  obtain d2 where "wcl_poll (d1\<lparr>g_clk := elapse k (g_clk d1)\<rparr>) = Some d2" "sound b0 s0 d2"
    using wcl_poll_sound [OF d1(2) assms(2,3)] by blast
  then show ?case using Cons.IH [of d2] Cons.prems(2) d1(1) c by auto
qed simp

lemma gsm_client_returns:
  assumes "wcl_lc d = 0" and "\<not> wcl_credit_active (g_sys d)" and "length (wtxBuf d) = 1024" and "length (infobip d) = 1024"
    and "CrateInfobipXMLString (infobip d) (g_sys d) \<noteq> None" and "\<forall>c \<in> set cs. connects (snd c)"
  shows "\<exists>d'. gsm_polls a10 cs d = Some d'"
proof -
  obtain r where r: "CrateInfobipXMLString (infobip d) (g_sys d) = Some r" using assms(5) by blast
  obtain n b s where "r = (n, b, s)" by (metis prod_cases3)
  with r have "CrateInfobipXMLString (infobip d) (g_sys d) = Some (n, b, s)" by simp
  moreover have "sound (infobip d) (g_sys d) d" using assms by (simp add: sound_def)
  ultimately show ?thesis using assms(4,6) by (blast intro: gsm_polls_return)
qed


subsection \<open>What is sent\<close>

lemma length_lines: "length (line t v) = 2 * length t + 7 + length v" "length (open_line t) = length t + 4"
  "length (close_line t) = length t + 5" "length CRLF = 2"
  by (simp_all add: line_def open_line_def close_line_def CRLF_def)

lemma length_concat_lines: "(\<And>n. n \<in> set ns \<Longrightarrow> length n < 32) \<Longrightarrow> length (concat (map (line ''gsm'') ns)) \<le> 45 * length ns"
proof (induction ns)
  case (Cons n ns)
  then have "length n < 32" "length (concat (map (line ''gsm'') ns)) \<le> 45 * length ns" by simp_all
  then show ?case by (simp add: length_lines)
qed simp

lemma gsm_xml_short:
  assumes "sys_ok s" and g: "gsm_settings un pw oname msg nums s"
  shows "length (gsm_xml un pw oname msg (receivers nums (gsm_enable (sms s)))) < XMLBUF_SIZE"
proof -
  have l: "length un < 16" "length pw < 16" "length oname < 32" "length msg < 160"
    using g c_str_length [of "eeRd EE_GSM_UNAME 16 (ee s)"] c_str_length [of "eeRd EE_GSM_PASS 16 (ee s)"]
      c_str_length [of "eeRd EE_OBJECT_NAME 32 (ee s)"] c_str_length [of "infobip_poruka s"] assms(1)
    by (simp_all add: gsm_settings_def sys_ok_def)
  let ?ns = "receivers nums (gsm_enable (sms s))"
  have n: "length n < 32" if "n \<in> set ?ns" for n
  proof -
    from that obtain i where "i < 5" "gsm_enable (sms s) ! i \<noteq> 0" "n = nums ! i" by (auto simp: receivers_def)
    then have "c_str (eeRd (EE_GSM1_NUM + i * 0x20) 32 (ee s)) = Some n" using g by (simp add: gsm_settings_def)
    from c_str_length [OF this] show ?thesis by simp
  qed
  have "length ?ns \<le> 5"
    using length_filter_le [of "\<lambda>i. gsm_enable (sms s) ! i \<noteq> 0" "[0..<5]"] unfolding receivers_def by simp
  then have "length (concat (map (line ''gsm'') ?ns)) \<le> 225" using length_concat_lines [of ?ns, OF n] by simp
  then show ?thesis using l by (simp add: gsm_xml_def length_lines XMLBUF_SIZE_def)
qed

lemmas message_text = CrateInfobipXMLString_text [OF _ _ _ gsm_xml_short]

text \<open>A connection that is made in time carries the header, and after 50 ms the body it announces.\<close>

lemma wcl_poll_alone:
  assumes "\<not> wcl_credit_active (g_sys d)" and "wcl_active (g_sys d)" and "ptWCL d = Some d'" and "\<not> wcl_credit_active (g_sys d')"
  shows "wcl_poll d = Some d'"
  using assms by (simp add: wcl_poll_def)

lemma wcl_start_calls:
  assumes "CrateInfobipXMLString (infobip d) (g_sys d) = Some (n, b, s)" and "length (infobip d) = 1024" and "length (wtxBuf d) = 1024"
  shows "\<exists>w x. wcl_start d = Some (d\<lparr>g_sys := s\<lparr>XMLBuf := x\<rparr>, infobip := b, wtxBuf := w, WCLTimer := timer_set (g_clk d) 10000,
           gsmState := 0, ptr := 0, calls := calls d @ connect_to (ee s), wcl_lc := 321\<rparr>)
     \<and> c_str w = Some (post_header n) \<and> length w = 1024"
proof -
  note f = CrateInfobipXMLString_frame [OF assms(1)]
  have h: "0 \<notin> set (post_header n)" "length (post_header n) < 200" using post_header_text [of n] f(5) assms(2) by auto
  have x: "strcat_XML (post_header n) (s\<lparr>XMLBuf := []\<rparr>) = Some (s\<lparr>XMLBuf := post_header n\<rparr>)"
    using h(2) by (simp add: strcat_XML_def XMLBUF_SIZE_def)
  obtain w where w: "strcpy_to (wtxBuf d) (post_header n) = Some w" "c_str w = Some (post_header n)" "length w = 1024"
    using strcpy_to_text [OF h(1), of "wtxBuf d"] h(2) assms(3) by auto
  have "\<not> timer_expired (g_clk d) (timer_set (g_clk d) 10000)" by (rule fresh_timer) simp_all
  then show ?thesis using assms(1) x w
    by (intro exI [of _ w] exI [of _ "post_header n"]) (simp add: wcl_start_def wcl_connected_def call_def WCL_WAIT_TIME_def WCL_CONNECTED_def)
qed

lemma timer_at: "unat i < 2 ^ 31 \<Longrightarrow> n < 2 ^ 31 \<Longrightarrow> timer_expired (elapse n c) (timer_set c i) \<longleftrightarrow> unat i \<le> n"
  by (rule timer_set_expired)

lemma gsm_request:
  assumes "wcl_lc d = 0" and "wcl_active (g_sys d)" and "\<not> wcl_credit_active (g_sys d)"
    and "length (wtxBuf d) = 1024" and "length (infobip d) = 1024"
    and c: "CrateInfobipXMLString (infobip d) (g_sys d) = Some (n, b, s)" "c_str b = Some body" "ee s = ee (g_sys d)"
    and "n2 < 10000" and "50 \<le> n3" and "n3 < 2 ^ 31"
  shows "\<exists>d'. gsm_polls a10 [(n0, []), (n1, []), (n2, [Connected True]), (n3, [])] d = Some d'
     \<and> calls d' = calls d @ connect_to (ee (g_sys d)) @ [Write (post_header n), Output, Write body, Output]"
proof -
  note f = CrateInfobipXMLString_frame [OF c(1)]
  let ?d0 = "d\<lparr>g_clk := elapse n0 (g_clk d), wcl_lc := 291\<rparr>"
  have p0: "wcl_poll (d\<lparr>g_clk := elapse n0 (g_clk d)\<rparr>) = Some ?d0"
    using assms(1-3) by (intro wcl_poll_alone) (simp_all add: ptWCL_def)
  let ?d = "?d0\<lparr>g_clk := elapse n1 (g_clk ?d0)\<rparr>"
  obtain w x where w: "wcl_start ?d = Some (?d\<lparr>g_sys := s\<lparr>XMLBuf := x\<rparr>, infobip := b, wtxBuf := w, WCLTimer := timer_set (g_clk ?d) 10000,
           gsmState := 0, ptr := 0, calls := calls ?d @ connect_to (ee s), wcl_lc := 321\<rparr>)" (is "_ = Some ?d1")
    "c_str w = Some (post_header n)" "length w = 1024"
    using wcl_start_calls [of ?d n b s] c(1) assms(4,5) by auto
  have p1: "wcl_poll ?d = Some ?d1"
    using assms(1-3) f(2) w(1) by (intro wcl_poll_alone) (simp_all add: ptWCL_def)
  let ?e = "(?d1\<lparr>gsmState := WCL_CONNECTED\<rparr>)\<lparr>g_clk := elapse n2 (g_clk ?d1)\<rparr>"
  let ?d2 = "(call [Write (post_header n), Output] ?e)\<lparr>gsmState := 0, ptr := 0, WCLTimer := timer_set (g_clk ?e) 50, wcl_lc := 334\<rparr>"
  have t: "\<not> timer_expired (elapse n2 (elapse n1 (elapse n0 (g_clk d)))) (timer_set (elapse n1 (elapse n0 (g_clk d))) 10000)"
    using timer_at [of 10000 n2] assms(9) by simp
  have t': "\<not> timer_expired (elapse n2 (elapse n1 (elapse n0 (g_clk d)))) (timer_set (elapse n2 (elapse n1 (elapse n0 (g_clk d)))) 50)"
    by (rule fresh_timer) simp_all
  have p2: "wcl_poll ?e = Some ?d2"
    using assms(2,3) f(1,2) t t' w(2) by (intro wcl_poll_alone) (simp_all add: ptWCL_def wcl_connected_def wcl_body_def call_def)
  let ?g = "?d2\<lparr>g_clk := elapse n3 (g_clk ?d2)\<rparr>"
  let ?h = "wcl_answer ((call [Write body, Output] ?g)\<lparr>WCLTimer := timer_set (g_clk ?g) WCL_WAIT_TIME\<rparr>)"
  have t3: "timer_expired (elapse n3 (elapse n2 (elapse n1 (elapse n0 (g_clk d))))) (timer_set (elapse n2 (elapse n1 (elapse n0 (g_clk d)))) 50)"
    using timer_at [of 50 n3] assms(10,11) by simp
  have t4: "\<not> timer_expired (g_clk ?g) (timer_set (g_clk ?g) WCL_WAIT_TIME)"
    by (rule fresh_timer) (simp_all add: WCL_WAIT_TIME_def)
  have h: "?h = ((call [Write body, Output] ?g)\<lparr>WCLTimer := timer_set (g_clk ?g) WCL_WAIT_TIME\<rparr>)\<lparr>wcl_lc := 338\<rparr>"
    using t4 by (simp add: wcl_answer_def call_def WCL_ANSWER_def)
  have "ptWCL ?g = Some ?h" using t3 c(2) by (simp add: ptWCL_def wcl_body_def call_def)
  then have p3: "wcl_poll ?g = Some ?h"
    using assms(2,3) f(1,2) unfolding h by (intro wcl_poll_alone) (simp_all add: call_def)
  have "gsm_polls a10 [(n0, []), (n1, []), (n2, [Connected True]), (n3, [])] d = Some ?h"
    using p0 p1 p2 p3 by (simp add: wclConnected_def)
  moreover have "calls ?h = calls d @ connect_to (ee (g_sys d)) @ [Write (post_header n), Output, Write body, Output]"
    unfolding h by (simp add: call_def c(3))
  ultimately show ?thesis by blast
qed

end
