(* ===== verification/Task_Frames.thy ===== *)
theory Task_Frames
  imports Main_Loop Gsm Inputs Requests Calendar
begin

section \<open>What the tasks of the main loop may change\<close>

text \<open>
  The tasks read the settings and write measured values, messages and the NVRAM: they keep the sizes of the
  arrays and the agreement of theory \<open>Sync\<close>, as the requests do.
\<close>

subsection \<open>Updates of the shared state\<close>

lemma well_task_fields:
  "length m = NV_SIZE \<Longrightarrow> well s \<Longrightarrow> well (s\<lparr>nv := m\<rparr>)"
  "length t = 8 \<Longrightarrow> well s \<Longrightarrow> well (s\<lparr>temp := t\<rparr>)"
  "length st = 8 \<Longrightarrow> well s \<Longrightarrow> well (s\<lparr>state := st\<rparr>)"
  "length p = 3 \<Longrightarrow> well s \<Longrightarrow> well (s\<lparr>pins := p\<rparr>)"
  "well s \<Longrightarrow> well (s\<lparr>wAppflag := w\<rparr>)"
  "length (Msg w') = 128 \<Longrightarrow> length (wenable w') = 5 \<Longrightarrow> well s \<Longrightarrow> well (s\<lparr>wapp := w'\<rparr>)"
  "length b = 160 \<Longrightarrow> well s \<Longrightarrow> well (s\<lparr>infobip_poruka := b\<rparr>)"
  "length b' = 32 \<Longrightarrow> well s \<Longrightarrow> well (s\<lparr>infobip_status := b'\<rparr>)"
  "well s \<Longrightarrow> well (s\<lparr>wcl_active := a\<rparr>)" "well s \<Longrightarrow> well (s\<lparr>wcl_credit_active := a\<rparr>)"
  "length bx < XMLBUF_SIZE \<Longrightarrow> well s \<Longrightarrow> well (s\<lparr>XMLBuf := bx\<rparr>)"
  by (simp_all add: well_def sys_ok_def synced_def)

lemma well_sizes:
  assumes "well s"
  shows "length (nv s) = NV_SIZE" "length (temp s) = 8" "length (state s) = 8" "length (pins s) = 3"
    "length (Msg (wapp s)) = 128" "length (wenable (wapp s)) = 5" "length (infobip_poruka s) = 160"
    "length (infobip_status s) = 32" "length (infobip_credit s) = 16" "length (senzor s) = 8" "length (dinput s) = 3"
  using assms by (simp_all add: well_def sys_ok_def)

text \<open>An update of the run-time part of a sensor.\<close>

lemma well_upd_sensor:
  assumes "well s" and "\<And>i x m. agree i (f x) m = agree i x m" and "\<And>x. CODE (f x) = CODE x"
  shows "well (upd_sensor k f s)"
proof -
  have "agree i ((senzor s)[k := f (senzor s ! k)] ! i) (ee s)" if "i < 8" for i
  proof -
    have "agree i (senzor s ! i) (ee s)" "length (senzor s) = 8" using assms(1) that by (simp_all add: well_def synced_def sys_ok_def)
    then show ?thesis using assms(2) that by (cases "i = k") auto
  qed
  moreover have "\<forall>x \<in> set ((senzor s)[k := f (senzor s ! k)]). length (CODE x) = 8"
  proof (cases "k < length (senzor s)")
    case True
    then have "length (CODE (senzor s ! k)) = 8" using assms(1) by (simp add: well_def sys_ok_def)
    then show ?thesis using assms(1,3) True set_update_subset_insert [of "senzor s" k "f (senzor s ! k)"]
      by (auto simp: well_def sys_ok_def)
  next
    case False
    then have "(senzor s)[k := f (senzor s ! k)] = senzor s" by (intro list_update_beyond) simp
    then show ?thesis using assms(1) by (simp add: well_def sys_ok_def)
  qed
  ultimately show ?thesis using assms(1) by (simp add: well_def sys_ok_def synced_def upd_sensor_def)
qed

lemma well_run_time:
  "well s \<Longrightarrow> well (upd_sensor k (STATE_update (\<lambda>_. st)) s)" "well s \<Longrightarrow> well (upd_sensor k (error_counter_update g) s)"
  by (rule well_upd_sensor; simp add: agree_def)+

lemma length_NVRAM_Write [simp]: "length (NVRAM_WriteFloat a w m) = length m"
  by (simp add: NVRAM_WriteFloat_def)

subsection \<open>Messages\<close>

lemma strcat_to_length: "strcat_to b v = Some b' \<Longrightarrow> length b' = length b"
  by (auto simp: strcat_to_def bind_eq_Some_conv length_poke)

lemma strcats_length: "strcats b vs = Some b' \<Longrightarrow> length b' = length b"
  by (induction vs arbitrary: b) (auto simp: bind_eq_Some_conv strcat_to_length)

lemma keeps_cat_Msg: "keeps (cat_Msg vs)" and keeps_set_Msg: "keeps (set_Msg v)"
  and keeps_cat_poruka: "keeps (cat_poruka vs)" and keeps_copy_poruka: "keeps (copy_poruka v)"
  and keeps_read_rBuf: "keeps (read_rBuf a n)"
proof -
  show "keeps (cat_Msg vs)" "keeps (set_Msg v)" "keeps (cat_poruka vs)" "keeps (copy_poruka v)"
    by (rule keepsI; auto simp: cat_Msg_def set_Msg_def cat_poruka_def copy_poruka_def strcpy_to_def bind_eq_Some_conv
      intro!: well_task_fields dest!: strcats_length length_poke simp: well_sizes)+
  show "keeps (read_rBuf a n)"
    unfolding read_rBuf_def [abs_def] by (rule keeps_store_at)
qed

lemma well_mark_receivers: "well s \<Longrightarrow> well (mark_receivers i s)"
proof -
  assume s: "well s"
  have "well ((s\<lparr>wapp := (wapp s)\<lparr>wenable := map (\<lambda>b. if b then 1 else 0) (map (\<lambda>k. rBuf s ! (i + k) \<noteq> 0) [0..<5])\<rparr>\<rparr>)
      \<lparr>wAppflag := w\<rparr>)" for w
    using s by (intro well_task_fields) (simp_all add: well_sizes)
  then show ?thesis by (simp add: mark_receivers_def Let_def del: upt_Suc)
qed


lemmas message_steps = keepsD [OF keeps_cat_Msg] keepsD [OF keeps_set_Msg] keepsD [OF keeps_cat_poruka]
  keepsD [OF keeps_copy_poruka] keepsD [OF keeps_read_rBuf]

lemma keeps_SendWApp: "keeps (SendWApp ftoa n)"
  by (rule keepsI) (auto simp: SendWApp_def Let_def bind_eq_Some_conv intro!: well_mark_receivers
      split: if_splits; ((drule (1) message_steps)+, assumption))

lemma keeps_SendWAppInput: "keeps (SendWAppInput n)"
  by (rule keepsI) (auto simp: SendWAppInput_def Let_def bind_eq_Some_conv intro!: well_mark_receivers; ((drule (1) message_steps)+, assumption))

lemma keeps_sms_receivers: "keeps (sms_receivers a)"
  by (rule keepsI) (auto simp: sms_receivers_def bind_eq_Some_conv intro!: well_send_infobip intro: message_steps)

lemma keeps_SendSMS: "keeps (SendSMS ftoa n t)"
  by (rule keepsI) (auto simp: SendSMS_def Let_def bind_eq_Some_conv
      split: if_splits; ((drule (1) message_steps keepsD [OF keeps_sms_receivers])+, assumption))

lemma sms_status_lines_well: "sms_status_lines ftoa ks fl s = Some (fl', s') \<Longrightarrow> well s \<Longrightarrow> well s'"
  by (induction ks arbitrary: fl s) (auto simp: bind_eq_Some_conv intro: message_steps split: if_splits)

lemma keeps_SendSMSStatus: "keeps (SendSMSStatus ftoa)"
proof (rule keepsI)
  fix s s' assume s: "well s" and "SendSMSStatus ftoa s = Some s'"
  then obtain fl s1 where "sms_status_lines ftoa [0..<8] (replicate 5 False) (s\<lparr>infobip_poruka := (infobip_poruka s)[0 := 0]\<rparr>) = Some (fl, s1)"
    "s' = send_infobip (fl ! 0) (fl ! 1) (fl ! 2) (fl ! 3) (fl ! 4) s1"
    by (auto simp: SendSMSStatus_def bind_eq_Some_conv)
  moreover have "well (s\<lparr>infobip_poruka := (infobip_poruka s)[0 := 0]\<rparr>)" using s by (intro well_task_fields) (simp_all add: well_sizes)
  ultimately show "well s'" by (auto intro!: well_send_infobip intro: sms_status_lines_well)
qed

subsection \<open>Delays and log files\<close>

lemma well_NVRAM_Write32: "well s \<Longrightarrow> well (s\<lparr>nv := NVRAM_Write32 a w (nv s)\<rparr>)"
  by (intro well_task_fields) (simp_all add: well_sizes)

lemma keeps_delay_sensor: "keeps (delay_sensor ftoa n)"
  and keeps_delay_input: "keeps (delay_input ftoa n)"
  by (rule keepsI; auto simp: delay_sensor_def delay_input_def Let_def bind_eq_Some_conv intro!: well_NVRAM_Write32 split: if_splits;
      ((drule keepsD [OF keeps_SendWApp] keepsD [OF keeps_SendWAppInput], erule well_NVRAM_Write32, drule (1) keepsD [OF keeps_SendSMS], assumption)))+

lemma keeps_delays: "(\<And>n. keeps (f n)) \<Longrightarrow> keeps (delays f ns)"
  by (rule keepsI, induction ns) (auto simp: bind_eq_Some_conv dest: keepsD)

lemma keeps_alarm_delays: "keeps (alarm_delays ftoa)"
  unfolding alarm_delays_def [abs_def]
  by (intro keeps_bind keeps_delays keeps_delay_sensor keeps_delay_input)

lemma length_UpdateMKT: "length (UpdateMKT a c x m) = length m"
proof -
  have "length (mkt_shift a is m) = length m" for "is" m by (induction "is" arbitrary: m) simp_all
  then show ?thesis by (simp add: UpdateMKT_def Let_def)
qed

lemma well_set_temp: "well s \<Longrightarrow> well (set_temp k t s)"
  unfolding set_temp_def by (intro well_task_fields) (simp_all add: well_sizes)

lemma well_take_mean: "well s \<Longrightarrow> well (take_mean k s)"
  unfolding take_mean_def Let_def by (intro well_set_temp well_task_fields) (simp_all add: well_sizes)

lemma mkt_value_well: "mkt_value mkt k s = Some s' \<Longrightarrow> well s \<Longrightarrow> well s'"
  by (auto simp: mkt_value_def bind_eq_Some_conv intro!: well_set_temp split: if_splits)

lemma sample_column_well:
  assumes "sample_column ftoa mkt upd k (d, s) = Some (d', s')" and "well s"
  shows "well s'"
proof -
  have u: "well (s1\<lparr>nv := UpdateMKT a c x (nv s1)\<rparr>)" if "well s1" for s1 a c x
    using that by (intro well_task_fields) (simp_all add: well_sizes length_UpdateMKT)
  show ?thesis using assms
    by (auto simp: sample_column_def Let_def bind_eq_Some_conv split: if_splits;
        blast intro: u well_take_mean mkt_value_well)
qed

lemma sample_columns_well: "sample_columns ftoa mkt upd ks (d, s) = Some (d', s') \<Longrightarrow> well s \<Longrightarrow> well s'"
proof (induction ks arbitrary: d s)
  case (Cons k ks)
  then obtain d1 s1 where "sample_column ftoa mkt upd k (d, s) = Some (d1, s1)" "sample_columns ftoa mkt upd ks (d1, s1) = Some (d', s')"
    by (auto simp: bind_eq_Some_conv)
  then show ?case using Cons.IH Cons.prems(2) sample_column_well by blast
qed simp

lemma SaveTemp_well: "SaveTemp ftoa mkt a8 a12 (s, fs) = Some (s', fs') \<Longrightarrow> well s \<Longrightarrow> well s'"
  and SaveHaccp_well: "SaveHaccp ftoa mkt a8 a12 (s, fs) = Some (s', fs') \<Longrightarrow> well s \<Longrightarrow> well s'"
  by (auto simp: SaveTemp_def SaveHaccp_def bind_eq_Some_conv Let_def split: if_splits)
     (drule sample_columns_well; simp add: well_set_temp)+

lemma SaveAlarm_well: "SaveAlarm ftoa t k ty (s, fs) = Some (s', fs') \<Longrightarrow> well s \<Longrightarrow> well s'"
  by (auto simp: SaveAlarm_def Let_def bind_eq_Some_conv split: if_splits)
     (drule keepsD [OF keeps_read_rBuf]; simp)+

subsection \<open>Sensors and inputs\<close>

lemma check_sensor_well:
  assumes "check_sensor ftoa k (s, fs) = Some (s', fs')" and "well s"
  shows "well s'"
proof -
  obtain r st m where t: "test_alarm (temp s ! k) (HIGHLIMIT (senzor s ! k)) (LOWLIMIT (senzor s ! k)) (HIS (senzor s ! k))
      (STATE (senzor s ! k)) k (nv s) = (r, st, m)" by (metis prod_cases3)
  have m: "length m = NV_SIZE" using t assms(2) by (auto simp: test_alarm_def Let_def well_sizes split: if_splits)
  let ?a = "upd_sensor k (STATE_update (\<lambda>_. st)) (s\<lparr>nv := m\<rparr>)"
  let ?b = "upd_sensor k (error_counter_update (\<lambda>e. e + 2)) s"
  have w: "well ?a" "well ?b" using m assms(2) by (simp_all add: well_run_time well_task_fields)
  have "\<exists>s1. well s1 \<and> (check_sensor ftoa k (s, fs) = Some (s1, fs)
      \<or> (\<exists>x al. check_sensor ftoa k (s, fs) = SaveAlarm ftoa x k al (s1\<lparr>nv := NVRAM_Write32 (NV_DELAY_SEN1 + k * 4) 1 (nv s1)\<rparr>, fs)))"
  proof -
    consider "ENBLE (senzor s ! k) = 0" | "ENBLE (senzor s ! k) \<noteq> 0" "error_counter (senzor s ! k) = 0"
      | "ENBLE (senzor s ! k) \<noteq> 0" "error_counter (senzor s ! k) = ONEWIRE_ERROR_COUNT" "error_counter (senzor s ! k) \<noteq> 0"
      | "ENBLE (senzor s ! k) \<noteq> 0" "error_counter (senzor s ! k) \<noteq> ONEWIRE_ERROR_COUNT" "error_counter (senzor s ! k) \<noteq> 0"
      by blast
    then show ?thesis
    proof cases
      case 2
      then show ?thesis using w(1) by (intro exI [of _ ?a]) (auto simp: check_sensor_def Let_def t)
    next
      case 3
      then show ?thesis using w(2) by (intro exI [of _ ?b]) (auto simp: check_sensor_def Let_def)
    qed (use assms(2) in \<open>auto simp: check_sensor_def Let_def\<close>)
  qed
  then obtain s1 where "well s1" and c: "check_sensor ftoa k (s, fs) = Some (s1, fs)
      \<or> (\<exists>x al. check_sensor ftoa k (s, fs) = SaveAlarm ftoa x k al (s1\<lparr>nv := NVRAM_Write32 (NV_DELAY_SEN1 + k * 4) 1 (nv s1)\<rparr>, fs))"
    by blast
  from c show ?thesis
  proof
    assume "check_sensor ftoa k (s, fs) = Some (s1, fs)"
    then show ?thesis using assms(1) \<open>well s1\<close> by simp
  next
    assume "\<exists>x al. check_sensor ftoa k (s, fs) = SaveAlarm ftoa x k al (s1\<lparr>nv := NVRAM_Write32 (NV_DELAY_SEN1 + k * 4) 1 (nv s1)\<rparr>, fs)"
    then obtain x al where "SaveAlarm ftoa x k al (s1\<lparr>nv := NVRAM_Write32 (NV_DELAY_SEN1 + k * 4) 1 (nv s1)\<rparr>, fs) = Some (s', fs')"
      using assms(1) by metis
    then show ?thesis using well_NVRAM_Write32 [OF \<open>well s1\<close>] by (rule SaveAlarm_well)
  qed
qed

lemma check_sensors_well: "check_sensors ftoa ks (s, fs) = Some (s', fs') \<Longrightarrow> well s \<Longrightarrow> well s'"
proof (induction ks arbitrary: s fs)
  case (Cons k ks)
  then obtain s1 fs1 where "check_sensor ftoa k (s, fs) = Some (s1, fs1)" "check_sensors ftoa ks (s1, fs1) = Some (s', fs')"
    by (auto simp: bind_eq_Some_conv)
  then show ?case using Cons.IH Cons.prems(2) check_sensor_well by blast
qed simp

lemma process_reading_well:
  assumes "process_reading k buf s = Some s'" and "well s"
  shows "well s'"
proof -
  have g: "well (good_reading k buf s)"
    unfolding good_reading_def Let_def using assms(2)
    by (intro well_run_time) (simp add: well_task_fields well_sizes)
  have "well (bad_reading k s)"
    unfolding bad_reading_def Let_def using assms(2)
    by (auto intro!: well_task_fields well_run_time simp: well_sizes well_run_time)
  then show ?thesis using g assms(1) by (auto simp: process_reading_def bind_eq_Some_conv split: if_splits)
qed


lemma well_upd_pins: "length p = 3 \<Longrightarrow> well (s\<lparr>pins := p\<rparr>) = well s" if "length (pins s) = 3"
  using that by (simp add: well_def sys_ok_def synced_def)

lemma well_input_alarm: "well (isys d) \<Longrightarrow> well (isys (input_alarm v d))"
  unfolding input_alarm_def Let_def by (simp add: well_task_fields well_upd_input well_sizes)

lemma pt_input_well: "well (isys d) \<Longrightarrow> well (isys (pt_input on l0 l1 l2 l3 l4 d))"
  by (auto simp: pt_input_def wait1_def wait2_def wait3_def wait4_def well_input_alarm)

lemma ScanInputs_well: "well (isys d) \<Longrightarrow> well (isys (ScanInputs d))"
  by (simp add: ScanInputs_def Let_def ptInput1NC_def ptInput1NO_def pt_input_well well_upd_input)

subsection \<open>Sending\<close>

lemma send_from_well: "well (w_sys d) \<Longrightarrow> well (w_sys (send_from i d))"
proof (induction i d rule: send_from.induct)
  case (1 i d)
  then show ?case by (subst send_from.simps) (auto simp: well_task_fields)
qed

lemma logger_alarm_poll_well: "well (w_sys d) \<Longrightarrow> well (w_sys (logger_alarm_poll d))"
  by (simp add: logger_alarm_poll_def ptWapp_def send_from_well)

lemma EE_rBuf_well: "EE_rBuf a n s = Some s' \<Longrightarrow> well s \<Longrightarrow> well s'"
  by (auto simp: EE_rBuf_def bind_eq_Some_conv well_lengths length_poke intro!: well_text_buffers)

lemma keeps_EE_rBuf: "keeps (EE_rBuf a n)"
  by (rule keepsI) (rule EE_rBuf_well)

lemma keeps_AddRecipient: "keeps (AddRecipient i)"
proof (rule keepsI)
  have l: "keeps (AddLine t a n)" for t a n
    unfolding AddLine_def [abs_def] by (intro keeps_bind keeps_EE_rBuf keeps_AddBuf keeps_strcat_XML)
  fix s s' assume "well s" "AddRecipient i s = Some s'"
  then show "well s'" using keepsD [OF l] by (auto simp: AddRecipient_def split: if_splits)
qed

lemma keeps_gsm_document: "keeps gsm_document"
  unfolding gsm_document_def [abs_def] OpenLine_def [abs_def] CloseLine_def [abs_def] AddLine_def [abs_def]
  by (intro keeps_bind keeps_EE_rBuf keeps_AddBuf keeps_strcat_XML keeps_OpenTag keeps_CloseTag keeps_AddRecipient)

lemma CrateInfobipXMLString_well: "CrateInfobipXMLString b s = Some (n, b', s') \<Longrightarrow> well s \<Longrightarrow> well s'"
  by (auto simp: CrateInfobipXMLString_def bind_eq_Some_conv Let_def)
     (erule keepsD [OF keeps_gsm_document], simp add: well_task_fields XMLBUF_SIZE_def)

text \<open>The arrays of the client keep their sizes too.\<close>

definition gsm_ok :: "gsm_client \<Rightarrow> bool" where
  "gsm_ok d \<longleftrightarrow> well (g_sys d) \<and> length (infobip d) = 1024 \<and> length (ibipretbuf d) = 1024 \<and> length (wtxBuf d) = 1024
     \<and> length (CRBuf d) = 1024 \<and> wcl_lc d \<in> {0, 291, 321, 334, 338} \<and> credit_lc d \<in> {0, 356, 396, 409}"

lemma gsm_ok_upd [simp]:
  "gsm_ok (call cs d) = gsm_ok d" "gsm_ok (d\<lparr>g_clk := c\<rparr>) = gsm_ok d" "gsm_ok (d\<lparr>WCLTimer := t\<rparr>) = gsm_ok d"
  "gsm_ok (d\<lparr>WCLCreditTimer := t\<rparr>) = gsm_ok d" "gsm_ok (d\<lparr>gsmState := v\<rparr>) = gsm_ok d"
  "gsm_ok (d\<lparr>gsmCreditState := v\<rparr>) = gsm_ok d" "gsm_ok (d\<lparr>ptr := k\<rparr>) = gsm_ok d"
  by (simp_all add: gsm_ok_def call_def)

lemma gsm_ok_set:
  "gsm_ok d \<Longrightarrow> well s \<Longrightarrow> gsm_ok (d\<lparr>g_sys := s\<rparr>)" "gsm_ok d \<Longrightarrow> l \<in> {0, 291, 321, 334, 338} \<Longrightarrow> gsm_ok (d\<lparr>wcl_lc := l\<rparr>)"
  "gsm_ok d \<Longrightarrow> l \<in> {0, 356, 396, 409} \<Longrightarrow> gsm_ok (d\<lparr>credit_lc := l\<rparr>)"
  "gsm_ok d \<Longrightarrow> length b = 1024 \<Longrightarrow> gsm_ok (d\<lparr>infobip := b\<rparr>)" "gsm_ok d \<Longrightarrow> length b = 1024 \<Longrightarrow> gsm_ok (d\<lparr>ibipretbuf := b\<rparr>)"
  "gsm_ok d \<Longrightarrow> length b = 1024 \<Longrightarrow> gsm_ok (d\<lparr>wtxBuf := b\<rparr>)" "gsm_ok d \<Longrightarrow> length b = 1024 \<Longrightarrow> gsm_ok (d\<lparr>CRBuf := b\<rparr>)"
  by (simp_all add: gsm_ok_def)

lemma gsm_ok_well: "gsm_ok d \<Longrightarrow> well (g_sys d)"
  by (simp add: gsm_ok_def)

lemma wcl_exit_ok: "gsm_ok d \<Longrightarrow> gsm_ok (wcl_exit d)"
  by (simp add: wcl_exit_def wcl__close_def gsm_ok_set gsm_ok_well well_task_fields)

lemma wcl_answer_ok: "gsm_ok d \<Longrightarrow> gsm_ok (wcl_answer d)"
  by (simp add: wcl_answer_def wcl_exit_ok gsm_ok_set)

lemma wcl_body_ok: "wcl_body d = Some d' \<Longrightarrow> gsm_ok d \<Longrightarrow> gsm_ok d'"
  by (auto simp: wcl_body_def bind_eq_Some_conv wcl_answer_ok gsm_ok_set split: if_splits)

lemma wcl_connected_ok: "wcl_connected d = Some d' \<Longrightarrow> gsm_ok d \<Longrightarrow> gsm_ok d'"
  by (auto simp: wcl_connected_def bind_eq_Some_conv wcl_exit_ok gsm_ok_set dest: wcl_body_ok split: if_splits)

lemma wcl_start_ok:
  assumes "wcl_start d = Some d'" and "gsm_ok d"
  shows "gsm_ok d'"
proof -
  from assms(1) obtain n b s s1 w where c: "CrateInfobipXMLString (infobip d) (g_sys d) = Some (n, b, s)"
      "strcat_XML (post_header n) (s\<lparr>XMLBuf := []\<rparr>) = Some s1" "strcpy_to (wtxBuf d) (XMLBuf s1) = Some w"
      "wcl_connected ((call (connect_to (ee s1)) d)\<lparr>g_sys := s1, infobip := b, wtxBuf := w,
       WCLTimer := timer_set (g_clk d) WCL_WAIT_TIME, gsmState := 0, ptr := 0\<rparr>) = Some d'" (is "wcl_connected ?d = _")
    by (auto simp: wcl_start_def bind_eq_Some_conv)
  have "well s" using c(1) assms(2) by (blast intro: CrateInfobipXMLString_well gsm_ok_well)
  then have "well (s\<lparr>XMLBuf := []\<rparr>)" by (simp add: well_task_fields XMLBUF_SIZE_def)
  then have "well s1" by (rule keepsD [OF keeps_strcat_XML c(2)])
  moreover have "length w = 1024" using c(3) assms(2) by (auto simp: strcpy_to_def gsm_ok_def dest: length_poke)
  moreover have "length b = 1024" using CrateInfobipXMLString_frame(4) [OF c(1)] assms(2) by (simp add: gsm_ok_def)
  ultimately have "gsm_ok ?d" using assms(2) by (simp add: gsm_ok_def call_def)
  with c(4) show ?thesis by (rule wcl_connected_ok)
qed

lemma ptWCL_ok: "ptWCL d = Some d' \<Longrightarrow> gsm_ok d \<Longrightarrow> gsm_ok d'"
  by (auto simp: ptWCL_def gsm_ok_set wcl_answer_ok dest: wcl_start_ok wcl_connected_ok wcl_body_ok split: if_splits)

lemma set_credit_ok: "set_credit t d = Some d' \<Longrightarrow> gsm_ok d \<Longrightarrow> gsm_ok d'"
  by (auto simp: set_credit_def bind_eq_Some_conv strcpy_to_def length_poke well_sizes [OF gsm_ok_well] gsm_ok_well
      intro!: gsm_ok_set well_text_buffers)

lemma wcl_status_close_ok: "gsm_ok d \<Longrightarrow> gsm_ok (wcl_status_close d)"
  by (simp add: wcl_status_close_def gsm_ok_set gsm_ok_well well_task_fields)

lemma credit_exit_ok: "credit_exit d = Some d' \<Longrightarrow> gsm_ok d \<Longrightarrow> gsm_ok d'"
  by (auto simp: credit_exit_def bind_eq_Some_conv intro!: gsm_ok_set dest: set_credit_ok [OF _ wcl_status_close_ok])

lemma credit_answer_ok: "credit_answer d = Some d' \<Longrightarrow> gsm_ok d \<Longrightarrow> gsm_ok d'"
  by (auto simp: credit_answer_def gsm_ok_set wcl_status_close_ok dest: credit_exit_ok split: if_splits)

lemma credit_connected_ok: "credit_connected d = Some d' \<Longrightarrow> gsm_ok d \<Longrightarrow> gsm_ok d'"
  by (auto simp: credit_connected_def bind_eq_Some_conv gsm_ok_set dest: credit_exit_ok credit_answer_ok split: if_splits)

lemma credit_start_ok:
  assumes "credit_start d = Some d'" and "gsm_ok d"
  shows "gsm_ok d'"
proof -
  obtain n b s s1 s2 un s3 pw r d1 where c: "CrateInfobipXMLString (infobip d) (g_sys d) = Some (n, b, s)"
      "AddBuf ''PASS'' tbuf s = Some s1" "EE_rBuf EE_GSM_UNAME 16 s1 = Some s2" "EE_rBuf EE_GSM_PASS 16 s2 = Some s3"
      "strcpy_to (CRBuf d) (credit_request un pw) = Some r"
      "set_credit ''WAIT'' (d\<lparr>g_sys := s3, infobip := b, CRBuf := r\<rparr>) = Some d1"
      "credit_connected ((call (connect_to (ee s3)) d1)\<lparr>gsmCreditState := 0, ptr := 0,
       WCLCreditTimer := timer_set (g_clk d1) WCL_WAIT_TIME\<rparr>) = Some d'"
    using assms(1) by (auto simp: credit_start_def bind_eq_Some_conv)
  have "well s3" using c(1-4) assms(2) by (blast intro: CrateInfobipXMLString_well gsm_ok_well EE_rBuf_well keepsD [OF keeps_AddBuf])
  moreover have "length r = 1024" using c(5) assms(2) by (auto simp: strcpy_to_def gsm_ok_def dest: length_poke)
  moreover have "length b = 1024" using CrateInfobipXMLString_frame(4) [OF c(1)] assms(2) by (simp add: gsm_ok_def)
  ultimately have "gsm_ok (d\<lparr>g_sys := s3, infobip := b, CRBuf := r\<rparr>)" using assms(2) by (intro gsm_ok_set)
  then have "gsm_ok d1" by (rule set_credit_ok [OF c(6)])
  with c(7) show ?thesis by (auto intro: credit_connected_ok)
qed

lemma wcl_poll_ok: "wcl_poll d = Some d' \<Longrightarrow> gsm_ok d \<Longrightarrow> gsm_ok d'"
proof -
  have "ptWCLcredit d = Some d' \<Longrightarrow> gsm_ok d \<Longrightarrow> gsm_ok d'" for d d'
    by (auto simp: ptWCLcredit_def gsm_ok_set dest: credit_start_ok credit_connected_ok credit_answer_ok split: if_splits)
  then show "wcl_poll d = Some d' \<Longrightarrow> gsm_ok d \<Longrightarrow> gsm_ok d'"
    by (auto simp: wcl_poll_def bind_eq_Some_conv dest: ptWCL_ok split: if_splits)
qed


subsection \<open>Callbacks\<close>

lemma XMLParser_length: "XMLParser tag msg len dest = Some (v, dest') \<Longrightarrow> length dest' = length dest"
  by (auto simp: XMLParser_def bind_eq_Some_conv length_poke split: if_splits)

lemma copy_chain_length: "copy_chain p (k, buf) = Some (k', buf') \<Longrightarrow> length buf' = length buf"
  by (induction p arbitrary: k buf) (auto simp: bind_eq_Some_conv length_poke)

lemma wclRecv_ok:
  assumes "wclRecv a10 p d = Some d'" and "gsm_ok d"
  shows "gsm_ok d'"
proof -
  obtain k buf v st w cr where c: "copy_chain p (ptr d, ibipretbuf d) = Some (k, buf)"
      "XMLParser (str ''<status>'') buf a10 (infobip_status (g_sys d)) = Some (v, st)"
      "XMLParser (str ''<credits>'') buf a10 (infobip_credit (g_sys d)) = Some (w, cr)"
      "d' = d\<lparr>ptr := k, ibipretbuf := buf, gsmState := WCL_ANSWER, g_sys := (g_sys d)\<lparr>infobip_status := st, infobip_credit := cr\<rparr>\<rparr>"
    using assms(1) by (auto simp: wclRecv_def Let_def bind_eq_Some_conv)
  have s: "well (g_sys d)" using assms(2) by (rule gsm_ok_well)
  have "well ((g_sys d)\<lparr>infobip_status := st, infobip_credit := cr\<rparr>)"
    using s XMLParser_length [OF c(2)] XMLParser_length [OF c(3)]
    by (intro well_text_buffers well_task_fields) (simp_all add: well_sizes)
  then show ?thesis using assms(2) copy_chain_length [OF c(1)] unfolding c(4) by (simp add: gsm_ok_def)
qed

lemma wclCreditRecv_ok:
  assumes "wclCreditRecv p n d = Some d'" and "gsm_ok d"
  shows "gsm_ok d'"
proof -
  obtain buf v cr where c: "poke 0 (take n p @ [0]) (ibipretbuf d) = Some buf" "strcpy_to (infobip_credit (g_sys d)) v = Some cr"
      "d' = d\<lparr>ibipretbuf := buf, gsmCreditState := WCL_ANSWER, g_sys := (g_sys d)\<lparr>infobip_credit := cr\<rparr>\<rparr>"
    using assms(1) by (auto simp: wclCreditRecv_def bind_eq_Some_conv split: if_splits)
  have s: "well (g_sys d)" using assms(2) by (rule gsm_ok_well)
  have "well ((g_sys d)\<lparr>infobip_credit := cr\<rparr>)"
    using s c(2) by (intro well_text_buffers) (auto simp: strcpy_to_def well_sizes dest: length_poke)
  then show ?thesis using assms(2) length_poke [OF c(1)] unfolding c(3) by (simp add: gsm_ok_def)
qed

lemma deliver_ok: "deliver a10 e d = Some d' \<Longrightarrow> gsm_ok d \<Longrightarrow> gsm_ok d'"
  by (cases e) (auto simp: wclConnected_def wclStatusConnected_def dest: wclRecv_ok wclCreditRecv_ok)

lemma sntp_set_system_time_well:
  assumes "sntp_set_system_time n s = Some s'" and "well s"
  shows "well s'"
proof -
  have f: "well (s\<lparr>ee := eeWr EE_DST_ACTIVETIME [v] (ee s)\<rparr>)" for v
    using well_foreign [of EE_DST_ACTIVETIME s "[v]"] assms(2) by (simp add: foreign_simps EE_write_def)
  show ?thesis using assms
    by (auto simp: sntp_set_system_time_def Let_def bind_eq_Some_conv adjustDST_def f well_other_fields split: if_splits simp del: eeWr.simps)
qed

end
