(* ===== verification/Blank.thy ===== *)
theory Blank
  imports Serving Timer
begin

section \<open>A device with cleared memories\<close>

text \<open>
  Concrete states: the state of a device whose memories hold zeros and whose arrays have their
  sizes, in front of which the examples of the root theory run.
\<close>

definition blank_sensor :: sensor where
  "blank_sensor = \<lparr>CODE = [0, 0, 0, 0, 0, 0, 0, 0], LOWLIMIT = 0, HIGHLIMIT = 0, HIS = 0, ENBLE = 0, STATE = 0, KANAL = 0,
     STATUS = 0, error_counter = 0, DELAY = 0, kalibracija = 0\<rparr>"

definition blank_sys :: sys where
  "blank_sys = \<lparr>ee = replicate EE_SIZE 0, nv = replicate NV_SIZE 0,
     rtc = \<lparr>RTC_Hours = 12, RTC_Minutes = 30, RTC_Seconds = 5, RTC_Year = 24, RTC_Month = 2, RTC_Date = 29, RTC_WeekDay = 4\<rparr>,
     files = [], used_blocks = 0, block_count = 0, pins = [False, False, False], mac_addr = [2, 0, 0, 0, 0, 1],
     senzor = replicate 8 blank_sensor, temp = replicate 8 0, state = replicate 8 0,
     dinput = replicate 3 \<lparr>d_enable = 0, d_type = 0, d_state = 0, d_alarm = 0, d_DELAY = 0\<rparr>,
     sms = \<lparr>sender = [], uname = [], sms_password = [], gsm = replicate 5 [], gsm_enable = replicate 5 0\<rparr>,
     wapp = \<lparr>Msg = replicate 128 0, wenable = replicate 5 0\<rparr>, wAppflag = 0, sntp = \<lparr>sntpon = 0, dston = 0\<rparr>,
     scansetup = 0, backup_scan_flag = False, sntp_scan_flag = False, wcl_active = False, wcl_credit_active = False,
     infobip_poruka = replicate 160 0, infobip_status = replicate 32 0, infobip_credit = replicate 16 0,
     sat = 0, minuta = 0, sekunda = 0, dan = 0, mjesec = 0, godina = 0, datum = 0,
     user_name = str ''admin'' @ replicate 20 0, pass_word = str ''secret'' @ replicate 19 0,
     tb = replicate 130 0, pb = replicate 40 0, iBuf = 0, rBuf = replicate 1024 0, tbuf = replicate 80 0,
     tmpBuf = replicate 80 0, lstr = replicate 50 0, twi_buf = replicate 256 0, XMLBuf = []\<rparr>"

definition blank_http :: http where
  "blank_http = \<lparr>post_buf_write_pos = 0, post_buffer = replicate 4096 0, post_funkcija = replicate 64 0,
     authen_uri = replicate 100 0, dev = blank_sys\<rparr>"

definition blank_env :: env where
  "blank_env = \<lparr>e_atof = \<lambda>_. 0, e_ftoa = \<lambda>_ _. str ''0.0'', e_remove = \<lambda>_ fs. (0, fs), e_dir = 0, e_bcode = [],
     e_loc = replicate 10 0, e_stk32 = replicate 32 0, e_stk64 = replicate 64 0, e_stk80 = replicate 80 0, e_cnt = 0\<rparr>"

lemma blank_sys_ok [simp]: "sys_ok blank_sys"
  by (simp add: sys_ok_def blank_sys_def blank_sensor_def XMLBUF_SIZE_def)

lemma blank_http_ok [simp]: "http_ok blank_http"
  by (simp add: http_ok_def blank_http_def)

lemma blank_ee: "a < EE_SIZE \<Longrightarrow> eeRd8 a (ee blank_sys) = 0"
  by (simp add: eeRd8_def blank_sys_def)

lemma blank_synced: "synced blank_sys"
  unfolding synced_def
proof (intro allI impI)
  fix i :: nat assume i: "i < 8"
  then have z: "eeRd8 (sensor_base i + c) (ee blank_sys) = 0" if "c < 64" for c
    using that by (intro blank_ee) (simp add: sensor_base_def EE_SIZE_def)
  have "senzor blank_sys ! i = blank_sensor" using i by (simp add: blank_sys_def)
  then show "agree i (senzor blank_sys ! i) (ee blank_sys)"
    using z [of 0] z [of 1] z [of 2] z
    by (simp add: agree_iff blank_sensor_def be16_def be32_def)
qed

lemma blank_http_inv [simp]: "http_inv blank_http"
  by (simp add: http_inv_def blank_synced) (simp add: blank_http_def blank_synced)

text \<open>The same device with the mark of an initialised EEPROM.\<close>

definition marked_http :: http where
  "marked_http = blank_http\<lparr>dev := EE_write EE_INIT (split16 0x55AA) blank_sys\<rparr>"

lemma marked_http_inv [simp]: "http_inv marked_http"
proof -
  have "foreign EE_INIT" by (simp add: foreign_simps)
  then show ?thesis
    by (simp add: http_inv_iff http_ok_def marked_http_def well_def synced_foreign blank_synced) (simp add: blank_http_def)
qed

lemma marked_http_ok [simp]: "http_ok marked_http"
  using marked_http_inv by (simp add: http_inv_def)

lemma marked_http_mark: "eeRd16 EE_INIT (ee (dev marked_http)) = 0x55AA"
  by (simp add: marked_http_def EE_write_def eeRd16_eeWr ee_fits_def EE_SIZE_def EE_PAGE_def blank_sys_def)

lemma blank_nv:
  assumes "a + 4 \<le> NV_SIZE"
  shows "NVRAM_Read32 a (nv blank_sys) = 0"
proof -
  have r: "replicate 4 (0 :: byte) = [0, 0, 0, 0]" by (simp add: numeral_eq_Suc)
  have "nvRd a 4 (nv blank_sys) = replicate 4 0" using assms by (simp add: nvRd_def blank_sys_def min_def)
  then show ?thesis unfolding r by (simp add: NVRAM_Read32_def le32_def)
qed

lemma blank_mkt_ok: "mkt_ok (nv blank_sys)"
proof -
  have "NVRAM_Read32 (mkt_count_at i) (nv blank_sys) = 0" if "i < 8" for i
    using that by (intro blank_nv) (simp add: mkt_count_at_def NV_SIZE_def)
  then show ?thesis by (simp add: mkt_ok_def list_all_iff) (simp add: blank_sys_def)
qed

end
