(* ===== verification/Device.thy ===== *)
theory Device
  imports Task_Frames Blank
begin

section \<open>The whole device (\<open>main.c\<close>)\<close>

text \<open>
  One pass of the loop of \<open>main\<close> calls every task once. Here the states of the components are put together:
  the shared variables are \<open>dev (web d)\<close>, the log files \<open>logs\<close> and the counters \<open>ow_clk\<close> of the bus; a component's
  record gets them before its task runs and gives them back after it. The packet of a pass is the list of the
  callbacks that the vendored stack makes for it. Not in the loop here: \<open>mqtt_scan\<close> and the callbacks of the timers
  of the stack.

  The lemmas show that the loop keeps every array at its size, every thread at a line it has, and the
  settings of the sensors equal to their copy in the EEPROM, whatever arrives and whatever the bus does.
\<close>

subsection \<open>Door contacts (\<open>drajveri.c\<close>)\<close>

text \<open>\<open>cur\<close>, \<open>old\<close> and \<open>contact\<close> are \<open>in1State\<close>, \<open>in1OldState\<close> and \<open>input1\<close>. The pin is read once in a pass.\<close>

record door =
  cur :: byte
  old :: byte
  contact :: byte
  door_lc :: nat
  INTimer :: timer

definition DOOR_OPEN :: byte where "DOOR_OPEN = 0"
definition DOOR_CLOSE :: byte where "DOOR_CLOSE = 1"

definition door_settled :: "nat \<Rightarrow> clock \<Rightarrow> byte \<Rightarrow> door \<Rightarrow> door" where
  "door_settled l2 c pin d =
     (if timer_expired c (INTimer d)
      then (if pin = cur d then d\<lparr>contact := (if cur d = 0 then DOOR_OPEN else DOOR_CLOSE), door_lc := 0\<rparr> else d\<lparr>door_lc := 0\<rparr>)
      else d\<lparr>door_lc := l2\<rparr>)"

definition door_changed :: "nat \<Rightarrow> nat \<Rightarrow> clock \<Rightarrow> byte \<Rightarrow> door \<Rightarrow> door" where
  "door_changed l1 l2 c pin d =
     (if cur d \<noteq> old d then door_settled l2 c pin (d\<lparr>INTimer := timer_set c 50\<rparr>) else d\<lparr>door_lc := l1\<rparr>)"

definition pt_door :: "nat \<Rightarrow> nat \<Rightarrow> nat \<Rightarrow> clock \<Rightarrow> byte \<Rightarrow> door \<Rightarrow> door" where
  "pt_door l0 l1 l2 c pin d =
     (if door_lc d = 0 then d\<lparr>door_lc := l0\<rparr>
      else if door_lc d = l0 \<or> door_lc d = l1 then door_changed l1 l2 c pin d
      else if door_lc d = l2 then door_settled l2 c pin d
      else d\<lparr>door_lc := 0\<rparr>)"

definition ptIN1 :: "clock \<Rightarrow> byte \<Rightarrow> door \<Rightarrow> door" where "ptIN1 = pt_door 1250 1251 1253"
definition ptIN2 :: "clock \<Rightarrow> byte \<Rightarrow> door \<Rightarrow> door" where "ptIN2 = pt_door 1281 1282 1284"
definition ptIN3 :: "clock \<Rightarrow> byte \<Rightarrow> door \<Rightarrow> door" where "ptIN3 = pt_door 1312 1313 1315"

definition poll_door :: "(clock \<Rightarrow> byte \<Rightarrow> door \<Rightarrow> door) \<Rightarrow> clock \<Rightarrow> byte \<Rightarrow> door \<Rightarrow> door" where
  "poll_door pt c pin d = (let d = pt c pin (d\<lparr>cur := pin\<rparr>) in d\<lparr>old := cur d\<rparr>)"

definition input_poll :: "clock \<Rightarrow> sys \<Rightarrow> door \<times> door \<times> door \<Rightarrow> door \<times> door \<times> door" where
  "input_poll c s = (\<lambda>(d1, d2, d3).
     (poll_door ptIN1 c (DigitalInput 0 s) d1, poll_door ptIN2 c (DigitalInput 1 s) d2, poll_door ptIN3 c (DigitalInput 2 s) d3))"

subsection \<open>LED, announcements and link\<close>

record panel =
  led :: bool
  led_lc :: nat
  ledTimer :: timer
  announced :: nat
  arp_lc :: nat
  arpTimer :: timer
  link_up :: bool
  link_lc :: nat
  linkTimer :: timer

definition led_off :: "clock \<Rightarrow> panel \<Rightarrow> panel" where
  "led_off c p = (if timer_expired c (ledTimer p) then p\<lparr>led := False, led_lc := 0\<rparr> else p\<lparr>led_lc := 862\<rparr>)"

definition led_on :: "clock \<Rightarrow> panel \<Rightarrow> panel" where
  "led_on c p =
     (if timer_expired c (ledTimer p) then led_off c (p\<lparr>led := True, ledTimer := timer_set c 1000\<rparr>) else p\<lparr>led_lc := 859\<rparr>)"

definition ptToggleLed :: "clock \<Rightarrow> panel \<Rightarrow> panel" where
  "ptToggleLed c p =
     (if led_lc p = 0 then led_on c (p\<lparr>ledTimer := timer_set c 1000\<rparr>)
      else if led_lc p = 859 then led_on c p
      else if led_lc p = 862 then led_off c p
      else p\<lparr>led_lc := 0\<rparr>)"

text \<open>Each wait of \<open>ptArpGratuitous\<close> is the line, the length of the next wait, and whether the address is announced after it.\<close>

definition arp_wait :: "nat \<Rightarrow> (panel \<Rightarrow> panel) \<Rightarrow> clock \<Rightarrow> panel \<Rightarrow> panel" where
  "arp_wait l next c p = (if timer_expired c (arpTimer p) then next p else p\<lparr>arp_lc := l\<rparr>)"

definition send_myIP :: "panel \<Rightarrow> panel" where
  "send_myIP p = p\<lparr>announced := announced p + 1\<rparr>"

definition arp_4 :: "clock \<Rightarrow> panel \<Rightarrow> panel" where
  "arp_4 c = arp_wait 926 (\<lambda>p. (send_myIP p)\<lparr>arp_lc := 0\<rparr>) c"

definition arp_3 :: "clock \<Rightarrow> panel \<Rightarrow> panel" where
  "arp_3 c = arp_wait 923 (\<lambda>p. arp_4 c ((send_myIP p)\<lparr>arpTimer := timer_set c 50\<rparr>)) c"

definition arp_2 :: "clock \<Rightarrow> panel \<Rightarrow> panel" where
  "arp_2 c = arp_wait 920 (\<lambda>p. arp_3 c ((send_myIP p)\<lparr>arpTimer := timer_set c 50\<rparr>)) c"

definition arp_1 :: "clock \<Rightarrow> panel \<Rightarrow> panel" where
  "arp_1 c = arp_wait 918 (\<lambda>p. arp_2 c (p\<lparr>arpTimer := timer_set c 30000\<rparr>)) c"

definition ptArpGratuitous :: "clock \<Rightarrow> panel \<Rightarrow> panel" where
  "ptArpGratuitous c p =
     (if arp_lc p = 0 then p\<lparr>arp_lc := 916\<rparr>
      else if arp_lc p = 916 then arp_1 c (p\<lparr>arpTimer := timer_set c 30000\<rparr>)
      else if arp_lc p = 918 then arp_1 c p
      else if arp_lc p = 920 then arp_2 c p
      else if arp_lc p = 923 then arp_3 c p
      else if arp_lc p = 926 then arp_4 c p
      else p\<lparr>arp_lc := 0\<rparr>)"

text \<open>\<open>linkstatus\<close> is the result of \<open>enc424j600MACIsLinked\<close>.\<close>

definition test_link :: "clock \<Rightarrow> byte \<Rightarrow> panel \<Rightarrow> panel" where
  "test_link c linkstatus p =
     (if timer_expired c (linkTimer p) then p\<lparr>link_up := (linkstatus = 1), link_lc := 0\<rparr> else p\<lparr>link_lc := 942\<rparr>)"

definition ptTestLink :: "clock \<Rightarrow> byte \<Rightarrow> panel \<Rightarrow> panel" where
  "ptTestLink c linkstatus p =
     (if link_lc p = 0 then p\<lparr>link_lc := 940\<rparr>
      else if link_lc p = 940 then test_link c linkstatus (p\<lparr>linkTimer := timer_set c 500\<rparr>)
      else if link_lc p = 942 then test_link c linkstatus p
      else p\<lparr>link_lc := 0\<rparr>)"

subsection \<open>The components together\<close>

record 'd device =
  web :: http
  logs :: logfs
  tk :: tasks
  met :: "'d meter"
  save_lc :: nat
  delay_lc :: nat
  delayTimer :: timer
  inp :: indev
  contacts :: "door \<times> door \<times> door"
  wsend :: sender_task
  client :: gsm_client
  stack :: periodic
  panel :: panel

text \<open>What the tasks take from outside, as in the theories of the components.\<close>

record 'd world =
  bus :: "'d i2c"
  env :: env
  mkt :: "u32 list \<Rightarrow> u32"
  a8 :: u32
  a10 :: u16
  a12 :: u32
  stk :: u16

definition shared :: "'d device \<Rightarrow> sys" where "shared d = dev (web d)"

definition share :: "sys \<Rightarrow> 'd device \<Rightarrow> 'd device" where
  "share s d = d\<lparr>web := (web d)\<lparr>dev := s\<rparr>\<rparr>"

definition clk :: "'d device \<Rightarrow> clock" where "clk d = ow_clk (m_ow (met d))"

definition on_tasks :: "(tasks \<Rightarrow> tasks option) \<Rightarrow> 'd device \<Rightarrow> 'd device option" where
  "on_tasks f d = do {
     t \<leftarrow> f ((tk d)\<lparr>t_sys := shared d, t_logs := logs d\<rparr>);
     Some (share (t_sys t) (d\<lparr>tk := t, logs := t_logs t\<rparr>)) }"

definition on_meter :: "('d meter \<Rightarrow> 'd meter option) \<Rightarrow> 'd device \<Rightarrow> 'd device option" where
  "on_meter f d = do {
     m \<leftarrow> f ((met d)\<lparr>m_sys := shared d, m_logs := logs d\<rparr>);
     Some (share (m_sys m) (d\<lparr>met := m, logs := m_logs m\<rparr>)) }"

definition on_client :: "(gsm_client \<Rightarrow> gsm_client option) \<Rightarrow> 'd device \<Rightarrow> 'd device option" where
  "on_client f d = do {
     g \<leftarrow> f ((client d)\<lparr>g_sys := shared d, g_clk := clk d\<rparr>);
     Some (share (g_sys g) (d\<lparr>client := g\<rparr>)) }"

definition on_inputs :: "(indev \<Rightarrow> indev) \<Rightarrow> 'd device \<Rightarrow> 'd device" where
  "on_inputs f d =
     (let i = f ((inp d)\<lparr>isys := shared d, iclk := clk d\<rparr>) in share (isys i) (d\<lparr>inp := i\<rparr>))"

definition on_sender :: "(sender_task \<Rightarrow> sender_task) \<Rightarrow> 'd device \<Rightarrow> 'd device" where
  "on_sender f d = (let w = f ((wsend d)\<lparr>w_sys := shared d\<rparr>) in share (w_sys w) (d\<lparr>wsend := w\<rparr>))"

definition on_shared :: "(sys \<Rightarrow> sys option) \<Rightarrow> 'd device \<Rightarrow> 'd device option" where
  "on_shared f d = do { s \<leftarrow> f (shared d); Some (share s d) }"

subsection \<open>Packets\<close>

datatype callback = Post_begin bytes | Post_data bytes | Post_finished | Get bytes
  | Gateway gsm_event | Wapp_reply | Time nat

text \<open>The ends of the loop: \<open>/reset.sva\<close>, \<open>/boot.sva\<close>, and \<open>Check4hour\<close>, which starves the watchdog.\<close>

datatype stop = Reset_request | Boot_request | Starved

definition on_web :: "(http \<Rightarrow> http option) \<Rightarrow> 'd device \<Rightarrow> (stop + 'd device) option" where
  "on_web f d = do { h \<leftarrow> f (web d); Some (Inr (d\<lparr>web := h\<rparr>)) }"

fun handle :: "'d world \<Rightarrow> callback \<Rightarrow> 'd device \<Rightarrow> (stop + 'd device) option" where
  "handle W (Post_begin uri) d = on_web (httpd_post_begin uri) d"
| "handle W (Post_data data) d = on_web (httpd_post_receive_data data) d"
| "handle W Post_finished d = do {
     r \<leftarrow> httpd_post_finished (env W) (web d);
     Some (case r of Running h \<Rightarrow> Inr (d\<lparr>web := h\<rparr>) | Restart \<Rightarrow> Inl Reset_request | Bootloader \<Rightarrow> Inl Boot_request) }"
| "handle W (Get uri) d = on_web (\<lambda>h. map_option snd (http_find_file (env W) uri h)) d"
| "handle W (Gateway e) d = map_option Inr (on_client (deliver (a10 W) e) d)"
| "handle W Wapp_reply d = Some (Inr (on_sender wappReceive d))"
| "handle W (Time n) d = map_option Inr (on_shared (sntp_set_system_time n) d)"

fun LwIP_Pkt_Handle :: "'d world \<Rightarrow> callback list \<Rightarrow> 'd device \<Rightarrow> (stop + 'd device) option" where
  "LwIP_Pkt_Handle W [] d = Some (Inr d)"
| "LwIP_Pkt_Handle W (e # es) d = do {
     r \<leftarrow> handle W e d;
     (case r of Inl x \<Rightarrow> Some (Inl x) | Inr d \<Rightarrow> LwIP_Pkt_Handle W es d) }"

subsection \<open>One pass\<close>

definition run_alarm_delay :: "'d world \<Rightarrow> 'd device \<Rightarrow> 'd device option" where
  "run_alarm_delay W d = do {
     (l, t, s) \<leftarrow> ptAlarmDelay (e_ftoa (env W)) (clk d) (delay_lc d, delayTimer d, shared d);
     Some (share s (d\<lparr>delay_lc := l, delayTimer := t\<rparr>)) }"

definition run_save_temp :: "'d world \<Rightarrow> 'd device \<Rightarrow> 'd device option" where
  "run_save_temp W d = do {
     (l, t) \<leftarrow> ptSaveTemp (e_ftoa (env W)) (mkt W) (a8 W) (a12 W) (save_lc d, (tk d)\<lparr>t_sys := shared d, t_logs := logs d\<rparr>);
     Some (share (t_sys t) (d\<lparr>save_lc := l, tk := t, logs := t_logs t\<rparr>)) }"

definition ReadTemperature :: "'d world \<Rightarrow> 'd device \<Rightarrow> 'd device option" where
  "ReadTemperature W d = do { d \<leftarrow> on_meter (ptReadTemp (bus W) (e_ftoa (env W))) d; run_save_temp W d }"

definition CheckSNTP :: "sys \<Rightarrow> sys" where
  "CheckSNTP s = (if sntp_scan_flag s then s\<lparr>sntp_scan_flag := False\<rparr> else s)"

text \<open>The second half of the pass, behind \<open>LwIP_Pkt_Handle\<close>.\<close>

definition after_packet :: "'d world \<Rightarrow> byte \<Rightarrow> 'd device \<Rightarrow> 'd device option" where
  "after_packet W linkstatus d = do {
     let d = d\<lparr>panel := ptToggleLed (clk d) (panel d)\<rparr>;
     d \<leftarrow> run_alarm_delay W d;
     let d = d\<lparr>stack := LwIP_Periodic_Handle (LocalTime (clk d)) (stack d)\<rparr>;
     d \<leftarrow> ReadTemperature W d;
     let d = share (CheckSNTP (shared d)) d;
     let d = on_inputs ScanInputs d;
     d \<leftarrow> on_client wcl_poll d;
     let d = d\<lparr>contacts := input_poll (clk d) (shared d) (contacts d)\<rparr>;
     let d = on_sender logger_alarm_poll d;
     let d = d\<lparr>panel := ptArpGratuitous (clk d) (panel d)\<rparr>;
     Some (d\<lparr>panel := ptTestLink (clk d) linkstatus (panel d)\<rparr>) }"

definition main_pass :: "'d world \<Rightarrow> callback list \<Rightarrow> byte \<Rightarrow> 'd device \<Rightarrow> (stop + 'd device) option" where
  "main_pass W packet linkstatus d = do {
     d \<leftarrow> on_tasks (CheckScanTime (e_ftoa (env W)) (stk W)) d;
     let (starved, t) = Check4hour ((tk d)\<lparr>t_sys := shared d, t_logs := logs d\<rparr>);
     (if starved then Some (Inl Starved) else do {
        d \<leftarrow> on_tasks (CheckHaccpScan (e_ftoa (env W)) (mkt W) (a8 W) (a12 W)) (d\<lparr>tk := t\<rparr>);
        r \<leftarrow> LwIP_Pkt_Handle W packet d;
        (case r of Inl x \<Rightarrow> Some (Inl x) | Inr d \<Rightarrow> map_option Inr (after_packet W linkstatus d)) }) }"

text \<open>Between two passes time goes on: \<open>n\<close> milliseconds, a new reading of the real time clock, new levels of the pins.\<close>

definition time_passes :: "'d world \<Rightarrow> nat \<Rightarrow> rtc \<Rightarrow> bool list \<Rightarrow> 'd device \<Rightarrow> 'd device" where
  "time_passes W n r p d =
     (let w = m_ow (met d); w = w\<lparr>ow_dev := (i_tick (bus W) ^^ n) (ow_dev w), ow_clk := elapse n (ow_clk w)\<rparr>
      in share ((shared d)\<lparr>rtc := r, pins := p\<rparr>) (d\<lparr>met := (met d)\<lparr>m_ow := w\<rparr>\<rparr>))"


subsection \<open>What the loop keeps\<close>

definition contact_lines :: "door \<times> door \<times> door \<Rightarrow> bool" where
  "contact_lines = (\<lambda>(d1, d2, d3). door_lc d1 \<in> {0, 1250, 1251, 1253} \<and> door_lc d2 \<in> {0, 1281, 1282, 1284}
     \<and> door_lc d3 \<in> {0, 1312, 1313, 1315})"

definition panel_lines :: "panel \<Rightarrow> bool" where
  "panel_lines p \<longleftrightarrow> led_lc p \<in> {0, 859, 862} \<and> arp_lc p \<in> {0, 916, 918, 920, 923, 926} \<and> link_lc p \<in> {0, 940, 942}"

definition meter_ok :: "'d meter \<Rightarrow> bool" where
  "meter_ok m \<longleftrightarrow> length (dsBuf m) = 10 \<and> m_lc m \<in> {0, 278, 290} \<and> (m_lc m = 290 \<longrightarrow> m_k m < 8)"

definition input_lines :: "nat set" where
  "input_lines = {0, 53, 54, 57, 66, 68, 83, 84, 86, 95, 97}"

definition sender_lines :: "nat set" where
  "sender_lines = {0, 573} \<union> wait_line ` {..5}"

text \<open>Everything has its type: the arrays their sizes, the threads a line of theirs, the sensor being measured its place in the table.\<close>

definition device_ok :: "'d device \<Rightarrow> bool" where
  "device_ok d \<longleftrightarrow> http_inv (web d) \<and> gsm_ok ((client d)\<lparr>g_sys := shared d\<rparr>) \<and> meter_ok (met d)
     \<and> save_lc d \<in> {0, 375, 376} \<and> delay_lc d \<in> {0, 875} \<and> lc (inp d) \<in> input_lines \<and> w_lc (wsend d) \<in> sender_lines
     \<and> contact_lines (contacts d) \<and> panel_lines (panel d)"

lemma gsm_ok_sys: "gsm_ok g \<Longrightarrow> well s \<Longrightarrow> gsm_ok (g\<lparr>g_sys := s\<rparr>)"
  by (simp add: gsm_ok_def)

lemma device_ok_well: "device_ok d \<Longrightarrow> well (shared d)"
  by (simp add: device_ok_def http_inv_iff shared_def)

lemma shared_share [simp]: "shared (share s d) = s"
  and share_fields [simp]: "client (share s d) = client d" "met (share s d) = met d" "save_lc (share s d) = save_lc d"
    "delay_lc (share s d) = delay_lc d" "inp (share s d) = inp d" "wsend (share s d) = wsend d" "contacts (share s d) = contacts d"
    "panel (share s d) = panel d"
  by (simp_all add: shared_def share_def)

lemma http_inv_share: "http_inv (web d) \<Longrightarrow> well s \<Longrightarrow> http_inv (web (share s d))"
  by (simp add: share_def http_inv_iff http_ok_def well_def)

lemma device_ok_share:
  assumes "device_ok d" and "well s"
  shows "device_ok (share s d)"
proof -
  have "gsm_ok ((client d)\<lparr>g_sys := s\<rparr>)" using assms gsm_ok_sys by (force simp: device_ok_def)
  then show ?thesis using assms by (simp add: device_ok_def http_inv_share)
qed

lemma device_ok_upd:
  "device_ok d \<Longrightarrow> device_ok (d\<lparr>tk := t\<rparr>)" "device_ok d \<Longrightarrow> device_ok (d\<lparr>logs := fs\<rparr>)" "device_ok d \<Longrightarrow> device_ok (d\<lparr>stack := p\<rparr>)"
  "device_ok d \<Longrightarrow> device_ok (d\<lparr>delayTimer := dt\<rparr>)"
  "device_ok d \<Longrightarrow> meter_ok m \<Longrightarrow> device_ok (d\<lparr>met := m\<rparr>)"
  "device_ok d \<Longrightarrow> l \<in> {0, 375, 376} \<Longrightarrow> device_ok (d\<lparr>save_lc := l\<rparr>)"
  "device_ok d \<Longrightarrow> l \<in> {0, 875} \<Longrightarrow> device_ok (d\<lparr>delay_lc := l\<rparr>)"
  "device_ok d \<Longrightarrow> contact_lines cs \<Longrightarrow> device_ok (d\<lparr>contacts := cs\<rparr>)"
  "device_ok d \<Longrightarrow> panel_lines pl \<Longrightarrow> device_ok (d\<lparr>panel := pl\<rparr>)"
  "device_ok d \<Longrightarrow> lc i \<in> input_lines \<Longrightarrow> device_ok (d\<lparr>inp := i\<rparr>)"
  "device_ok d \<Longrightarrow> w_lc w \<in> sender_lines \<Longrightarrow> device_ok (d\<lparr>wsend := w\<rparr>)"
  by (auto simp: device_ok_def shared_def)

lemma on_tasks_ok:
  assumes "on_tasks f d = Some d'" and "device_ok d" and "\<And>t t'. f t = Some t' \<Longrightarrow> well (t_sys t) \<Longrightarrow> well (t_sys t')"
  shows "device_ok d'"
  using assms by (auto simp: on_tasks_def bind_eq_Some_conv device_ok_well intro!: device_ok_share device_ok_upd)

lemma CheckScanTime_well: "CheckScanTime ftoa x t = Some t' \<Longrightarrow> well (t_sys t) \<Longrightarrow> well (t_sys t')"
  by (auto simp: CheckScanTime_def Let_def bind_eq_Some_conv read_clock_def split: if_splits)
     (drule keepsD [OF keeps_SendSMSStatus]; simp)+

lemma CheckHaccpScan_well: "CheckHaccpScan ftoa mk x y t = Some t' \<Longrightarrow> well (t_sys t) \<Longrightarrow> well (t_sys t')"
  by (auto simp: CheckHaccpScan_def Let_def bind_eq_Some_conv read_clock_def dest: SaveHaccp_well split: if_splits)

lemma run_save_temp_ok:
  assumes "run_save_temp W d = Some d'" and "device_ok d"
  shows "device_ok d'"
proof -
  let ?t = "(tk d)\<lparr>t_sys := shared d, t_logs := logs d\<rparr>"
  obtain l t where p: "ptSaveTemp (e_ftoa (env W)) (mkt W) (a8 W) (a12 W) (save_lc d, ?t) = Some (l, t)"
    and d': "d' = share (t_sys t) (d\<lparr>save_lc := l, tk := t, logs := t_logs t\<rparr>)"
    using assms(1) by (auto simp: run_save_temp_def bind_eq_Some_conv)
  have "l \<in> {0, 375, 376} \<and> well (t_sys t)"
    using p device_ok_well [OF assms(2)]
    by (auto simp: ptSaveTemp_def bind_eq_Some_conv dest: SaveTemp_well split: if_splits)
  then show ?thesis unfolding d' using assms(2) by (intro device_ok_share device_ok_upd) auto
qed

lemma run_alarm_delay_ok:
  assumes "run_alarm_delay W d = Some d'" and "device_ok d"
  shows "device_ok d'"
proof -
  obtain l t s where p: "ptAlarmDelay (e_ftoa (env W)) (clk d) (delay_lc d, delayTimer d, shared d) = Some (l, t, s)"
    and d': "d' = share s (d\<lparr>delay_lc := l, delayTimer := t\<rparr>)"
    using assms(1) by (auto simp: run_alarm_delay_def bind_eq_Some_conv)
  have "l \<in> {0, 875} \<and> well s"
    using p device_ok_well [OF assms(2)]
    by (auto simp: ptAlarmDelay_def Let_def bind_eq_Some_conv dest: keepsD [OF keeps_alarm_delays] split: if_splits)
  then show ?thesis unfolding d' using assms(2) by (intro device_ok_share device_ok_upd) auto
qed

lemma read_bytes_length: "read_bytes B ch cs (buf, w) = Some (buf', w') \<Longrightarrow> length buf' = length buf"
proof (induction cs arbitrary: buf w)
  case (Cons c cs)
  then show ?case by (auto simp: bind_eq_Some_conv dest!: Cons.IH)
qed simp

definition measuring :: "'d meter \<Rightarrow> bool" where
  "measuring m \<longleftrightarrow> meter_ok m \<and> well (m_sys m)"

lemma next_sensor_ok: "next_sensor B ftoa k m = Some m' \<Longrightarrow> length (dsBuf m) = 10 \<Longrightarrow> well (m_sys m) \<Longrightarrow> measuring m'"
proof (induction B ftoa k m rule: next_sensor.induct)
  case (1 B ftoa k m)
  show ?case
  proof (cases "k < 8 \<and> ENBLE (senzor (m_sys m) ! k) = 0")
    case True
    have "well ((m_sys m)\<lparr>state := (state (m_sys m))[k := 0]\<rparr>)" using "1.prems"(3) by (intro well_task_fields) (simp_all add: well_sizes)
    then show ?thesis using 1 True by (simp add: next_sensor.simps [of B ftoa k m])
  next
    case False
    then show ?thesis using "1.prems"
      by (auto simp: next_sensor.simps [of B ftoa k m] bind_eq_Some_conv start_conversion_def Let_def measuring_def meter_ok_def
          dest: check_sensors_well split: if_splits)
  qed
qed

lemma ptReadTemp_ok: "ptReadTemp B ftoa m = Some m' \<Longrightarrow> measuring m \<Longrightarrow> measuring m'"
proof -
  assume p: "ptReadTemp B ftoa m = Some m'" and m: "measuring m"
  have r: "length (dsBuf m1) = 10 \<and> well (m_sys m1)" if "read_sensor B m = Some m1" for m1
    using that m by (auto simp: read_sensor_def bind_eq_Some_conv measuring_def meter_ok_def dest: read_bytes_length process_reading_well)
  show "measuring m'"
  proof (cases "m_lc m = 278 \<or> m_lc m = 290 \<and> timer_expired (ow_clk (m_ow m)) (ReadTimer m)")
    case True
    then obtain k m1 where "next_sensor B ftoa k m1 = Some m'" "length (dsBuf m1) = 10" "well (m_sys m1)"
      using p m r by (auto simp: ptReadTemp_def bind_eq_Some_conv measuring_def meter_ok_def)
    then show ?thesis by (rule next_sensor_ok)
  next
    case False
    then show ?thesis using p m by (auto simp: ptReadTemp_def measuring_def meter_ok_def split: if_splits)
  qed
qed


lemma on_meter_ok:
  assumes "on_meter (ptReadTemp B ftoa) d = Some d'" and "device_ok d"
  shows "device_ok d'"
proof -
  obtain m where m: "ptReadTemp B ftoa ((met d)\<lparr>m_sys := shared d, m_logs := logs d\<rparr>) = Some m"
    and d': "d' = share (m_sys m) (d\<lparr>met := m, logs := m_logs m\<rparr>)"
    using assms(1) by (auto simp: on_meter_def bind_eq_Some_conv)
  have "measuring ((met d)\<lparr>m_sys := shared d, m_logs := logs d\<rparr>)"
    using assms(2) device_ok_well [OF assms(2)] by (simp add: measuring_def meter_ok_def device_ok_def)
  then have "measuring m" by (rule ptReadTemp_ok [OF m])
  then show ?thesis unfolding d' using assms(2) by (intro device_ok_share device_ok_upd) (simp_all add: measuring_def)
qed

lemma on_client_ok:
  assumes "on_client f d = Some d'" and "device_ok d" and "\<And>g g'. f g = Some g' \<Longrightarrow> gsm_ok g \<Longrightarrow> gsm_ok g'"
  shows "device_ok d'"
proof -
  obtain g where g: "f ((client d)\<lparr>g_sys := shared d, g_clk := clk d\<rparr>) = Some g" and d': "d' = share (g_sys g) (d\<lparr>client := g\<rparr>)"
    using assms(1) by (auto simp: on_client_def bind_eq_Some_conv)
  have "gsm_ok ((client d)\<lparr>g_sys := shared d, g_clk := clk d\<rparr>)" using assms(2) by (simp add: device_ok_def)
  then have "gsm_ok g" by (rule assms(3) [OF g])
  then have "http_inv (web d')" "gsm_ok g" using assms(2) gsm_ok_well [of g]
    by (simp_all add: d' device_ok_def http_inv_share)
  then show ?thesis using assms(2) unfolding d' device_ok_def by simp
qed

lemma ScanInputs_lines: "lc i \<in> input_lines \<Longrightarrow> lc (ScanInputs i) \<in> input_lines"
proof -
  have p: "lc (pt_input on l0 l1 l2 l3 l4 j) \<in> {0, l0, l1, l2, l3, l4}" for on l0 l1 l2 l3 l4 j
    by (auto simp: pt_input_def wait1_def wait2_def wait3_def wait4_def)
  have n: "lc (ptInput1NO j) \<in> input_lines" "lc (ptInput1NC j) \<in> input_lines" for j
    unfolding ptInput1NO_def ptInput1NC_def by (rule subsetD [OF _ p], simp add: input_lines_def)+
  show "lc i \<in> input_lines \<Longrightarrow> lc (ScanInputs i) \<in> input_lines" by (auto simp: ScanInputs_def Let_def n)
qed

lemma on_inputs_ok: "device_ok d \<Longrightarrow> device_ok (on_inputs ScanInputs d)"
proof -
  assume d: "device_ok d"
  let ?i = "(inp d)\<lparr>isys := shared d, iclk := clk d\<rparr>"
  have "lc ?i \<in> input_lines" "well (isys ?i)" using d device_ok_well [OF d] by (simp_all add: device_ok_def)
  then show "device_ok (on_inputs ScanInputs d)"
    unfolding on_inputs_def Let_def using d by (intro device_ok_share device_ok_upd ScanInputs_well ScanInputs_lines)
qed

lemma send_from_lines: "w_lc (send_from i w) \<in> sender_lines"
proof (induction i w rule: send_from.induct)
  case (1 i w)
  have "i < 5 \<Longrightarrow> wait_line (i + 1) \<in> sender_lines" unfolding sender_lines_def by (intro UnI2 imageI) simp
  then show ?case using 1 by (subst send_from.simps) (auto simp: sender_lines_def)
qed

lemma logger_alarm_poll_lines: "w_lc w \<in> sender_lines \<Longrightarrow> w_lc (logger_alarm_poll w) \<in> sender_lines"
  using send_from_lines [of _ w] by (auto simp: logger_alarm_poll_def ptWapp_def) (auto simp: sender_lines_def)

lemma on_sender_ok:
  assumes "device_ok d" and "\<And>w. well (w_sys w) \<Longrightarrow> well (w_sys (f w))" and "\<And>w. w_lc w \<in> sender_lines \<Longrightarrow> w_lc (f w) \<in> sender_lines"
  shows "device_ok (on_sender f d)"
  unfolding on_sender_def Let_def using assms(1) device_ok_well [OF assms(1)]
  by (intro device_ok_share device_ok_upd assms(2,3)) (simp_all add: device_ok_def)

lemma on_shared_ok: "on_shared f d = Some d' \<Longrightarrow> device_ok d \<Longrightarrow> (\<And>s s'. f s = Some s' \<Longrightarrow> well s \<Longrightarrow> well s') \<Longrightarrow> device_ok d'"
  by (auto simp: on_shared_def bind_eq_Some_conv intro!: device_ok_share dest: device_ok_well)

lemma panel_lines_upd [simp]:
  "panel_lines (p\<lparr>arpTimer := t\<rparr>) = panel_lines p" "panel_lines (send_myIP p) = panel_lines p"
  "panel_lines p \<Longrightarrow> panel_lines (p\<lparr>arp_lc := l\<rparr>) \<longleftrightarrow> l \<in> {0, 916, 918, 920, 923, 926}"
  by (simp_all add: panel_lines_def send_myIP_def)

lemma arp_lines:
  assumes "panel_lines p"
  shows "panel_lines (arp_4 c p)" "panel_lines (arp_3 c p)" "panel_lines (arp_2 c p)" "panel_lines (arp_1 c p)"
proof -
  have w: "panel_lines (arp_wait l next c p)" if "panel_lines p" "\<And>p. panel_lines p \<Longrightarrow> panel_lines (next p)" "l \<in> {918, 920, 923, 926}" for l "next" p
    using that by (auto simp: arp_wait_def)
  have 4: "panel_lines p \<Longrightarrow> panel_lines (arp_4 c p)" for p unfolding arp_4_def by (rule w) simp_all
  then have 3: "panel_lines p \<Longrightarrow> panel_lines (arp_3 c p)" for p unfolding arp_3_def by (intro w) simp_all
  then have 2: "panel_lines p \<Longrightarrow> panel_lines (arp_2 c p)" for p unfolding arp_2_def by (intro w) simp_all
  then have 1: "panel_lines p \<Longrightarrow> panel_lines (arp_1 c p)" for p unfolding arp_1_def by (intro w) simp_all
  show "panel_lines (arp_4 c p)" "panel_lines (arp_3 c p)" "panel_lines (arp_2 c p)" "panel_lines (arp_1 c p)"
    using 1 2 3 4 assms by blast+
qed

lemma panel_threads:
  assumes "panel_lines p"
  shows "panel_lines (ptToggleLed c p)" "panel_lines (ptArpGratuitous c p)" "panel_lines (ptTestLink c ls p)"
proof -
  show "panel_lines (ptToggleLed c p)" "panel_lines (ptTestLink c ls p)"
    using assms by (auto simp: panel_lines_def ptToggleLed_def led_on_def led_off_def ptTestLink_def test_link_def)
  show "panel_lines (ptArpGratuitous c p)" using assms arp_lines by (simp add: ptArpGratuitous_def)
qed

lemma input_poll_lines: "contact_lines ds \<Longrightarrow> contact_lines (input_poll c s ds)"
proof -
  have "door_lc (pt_door l0 l1 l2 c pin d) \<in> {0, l0, l1, l2}" for l0 l1 l2 c pin d
    by (auto simp: pt_door_def door_changed_def door_settled_def)
  then show "contact_lines ds \<Longrightarrow> contact_lines (input_poll c s ds)"
    by (auto simp: contact_lines_def input_poll_def poll_door_def Let_def ptIN1_def ptIN2_def ptIN3_def split: prod.splits)
qed


lemma on_web_ok:
  assumes "on_web f d = Some (Inr d')" and "device_ok d" and "\<And>h h'. f h = Some h' \<Longrightarrow> http_inv h \<Longrightarrow> http_inv h'"
  shows "device_ok d'"
proof -
  obtain h where h: "f (web d) = Some h" and d': "d' = d\<lparr>web := h\<rparr>" using assms(1) by (auto simp: on_web_def bind_eq_Some_conv)
  have i: "http_inv h" using assms(2,3) h by (simp add: device_ok_def)
  then have "well (dev h)" by (simp add: http_inv_iff)
  then have "gsm_ok ((client d)\<lparr>g_sys := dev h\<rparr>)" using assms(2) gsm_ok_sys by (force simp: device_ok_def)
  then show ?thesis using assms(2) i unfolding d' by (simp add: device_ok_def shared_def)
qed

lemma httpd_post_begin_inv: "httpd_post_begin uri h = Some h' \<Longrightarrow> http_inv h \<Longrightarrow> http_inv h'"
  by (auto simp: httpd_post_begin_def Let_def bind_eq_Some_conv http_inv_def http_ok_def length_poke)

lemma handle_ok:
  assumes "handle W e d = Some (Inr d')" and d: "device_ok d"
  shows "device_ok d'"
proof (cases e)
  case (Post_begin uri)
  then show ?thesis using assms by (auto intro: on_web_ok httpd_post_begin_inv)
next
  case (Post_data data)
  then show ?thesis using assms by (auto intro: on_web_ok httpd_post_receive_data_inv)
next
  case Post_finished
  then obtain r where r: "httpd_post_finished (env W) (web d) = Some r"
    "(case r of Running h \<Rightarrow> Inr (d\<lparr>web := h\<rparr>) | Restart \<Rightarrow> Inl Reset_request | Bootloader \<Rightarrow> Inl Boot_request) = Inr d'"
    using assms(1) by (auto simp: bind_eq_Some_conv)
  then obtain h where "httpd_post_finished (env W) (web d) = Some (Running h)" "d' = d\<lparr>web := h\<rparr>" by (cases r) auto
  then have "on_web (\<lambda>h. Some h') d = Some (Inr d') \<and> http_inv h'" if "h' = h" for h'
    using that d httpd_post_finished_inv by (auto simp: on_web_def device_ok_def)
  then show ?thesis using d by (auto intro: on_web_ok)
next
  case (Get uri)
  then show ?thesis using assms by (auto intro!: on_web_ok [OF _ d] intro: http_find_file_inv)
next
  case (Gateway g)
  then show ?thesis using assms by (auto intro!: on_client_ok [OF _ d] intro: deliver_ok)
next
  case Wapp_reply
  then show ?thesis using assms by (auto intro!: on_sender_ok simp: wappReceive_def)
next
  case (Time n)
  then show ?thesis using assms by (auto intro!: on_shared_ok [OF _ d] intro: sntp_set_system_time_well)
qed

lemma LwIP_Pkt_Handle_ok: "LwIP_Pkt_Handle W es d = Some (Inr d') \<Longrightarrow> device_ok d \<Longrightarrow> device_ok d'"
proof (induction es arbitrary: d)
  case (Cons e es)
  then obtain r where r: "handle W e d = Some r" "(case r of Inl x \<Rightarrow> Some (Inl x) | Inr d \<Rightarrow> LwIP_Pkt_Handle W es d) = Some (Inr d')"
    by (auto simp: bind_eq_Some_conv)
  then obtain b where b: "handle W e d = Some (Inr b)" "LwIP_Pkt_Handle W es b = Some (Inr d')" by (cases r) auto
  from handle_ok [OF b(1) Cons.prems(2)] show ?case by (rule Cons.IH [OF b(2)])
qed simp

lemma after_packet_ok:
  assumes "after_packet W ls d = Some d'" and "device_ok d"
  shows "device_ok d'"
proof -
  let ?d = "d\<lparr>panel := ptToggleLed (clk d) (panel d)\<rparr>"
  from assms(1) obtain d1 d2 d3 d4 where
    1: "run_alarm_delay W ?d = Some d1" and
    2: "on_meter (ptReadTemp (bus W) (e_ftoa (env W))) (d1\<lparr>stack := LwIP_Periodic_Handle (LocalTime (clk d1)) (stack d1)\<rparr>) = Some d2" and
    3: "run_save_temp W d2 = Some d3" and
    4: "on_client wcl_poll (on_inputs ScanInputs (share (CheckSNTP (shared d3)) d3)) = Some d4" and
    5: "d' = (let d = d4\<lparr>contacts := input_poll (clk d4) (shared d4) (contacts d4)\<rparr>; d = on_sender logger_alarm_poll d;
          d = d\<lparr>panel := ptArpGratuitous (clk d) (panel d)\<rparr> in d\<lparr>panel := ptTestLink (clk d) ls (panel d)\<rparr>)"
    by (auto simp: after_packet_def ReadTemperature_def Let_def bind_eq_Some_conv)
  note P = panel_threads
  have "device_ok ?d" using assms(2) P(1) by (intro device_ok_upd) (simp_all add: device_ok_def)
  then have "device_ok d1" by (rule run_alarm_delay_ok [OF 1])
  then have "device_ok d2" by (intro on_meter_ok [OF 2] device_ok_upd)
  then have d3: "device_ok d3" by (rule run_save_temp_ok [OF 3])
  then have "well (CheckSNTP (shared d3))" using device_ok_well [OF d3] by (simp add: CheckSNTP_def well_other_fields)
  then have "device_ok d4" using d3 by (intro on_client_ok [OF 4 _ wcl_poll_ok] on_inputs_ok device_ok_share)
  then have "device_ok (d4\<lparr>contacts := input_poll (clk d4) (shared d4) (contacts d4)\<rparr>)" (is "device_ok ?e")
    by (intro device_ok_upd input_poll_lines) (simp_all add: device_ok_def)
  then have f: "device_ok (on_sender logger_alarm_poll ?e)" (is "device_ok ?f")
    by (intro on_sender_ok logger_alarm_poll_well logger_alarm_poll_lines)
  let ?g = "?f\<lparr>panel := ptArpGratuitous (clk ?f) (panel ?f)\<rparr>"
  have g: "device_ok ?g" using f P(2) by (intro device_ok_upd) (simp_all add: device_ok_def)
  have "device_ok (?g\<lparr>panel := ptTestLink (clk ?g) ls (panel ?g)\<rparr>)" using g P(3) by (intro device_ok_upd g) (simp add: device_ok_def)
  then show ?thesis unfolding 5 Let_def .
qed

lemma main_pass_ok:
  assumes "main_pass W packet ls d = Some (Inr d')" and "device_ok d"
  shows "device_ok d'"
proof -
  obtain d1 where 1: "on_tasks (CheckScanTime (e_ftoa (env W)) (stk W)) d = Some d1" using assms(1) by (auto simp: main_pass_def bind_eq_Some_conv)
  obtain b t where c: "Check4hour ((tk d1)\<lparr>t_sys := shared d1, t_logs := logs d1\<rparr>) = (b, t)" by (cases "Check4hour ((tk d1)\<lparr>t_sys := shared d1, t_logs := logs d1\<rparr>)")
  obtain d2 r where
    2: "on_tasks (CheckHaccpScan (e_ftoa (env W)) (mkt W) (a8 W) (a12 W)) (d1\<lparr>tk := t\<rparr>) = Some d2" and
    r: "LwIP_Pkt_Handle W packet d2 = Some r"
      "(case r of Inl x \<Rightarrow> Some (Inl x) | Inr d \<Rightarrow> map_option Inr (after_packet W ls d)) = Some (Inr d')"
    using assms(1) by (auto simp: main_pass_def 1 c Let_def bind_eq_Some_conv split: if_splits)
  obtain d3 where 3: "LwIP_Pkt_Handle W packet d2 = Some (Inr d3)" and 4: "after_packet W ls d3 = Some d'"
    using r by (cases r) auto
  have "device_ok d1" by (rule on_tasks_ok [OF 1 assms(2) CheckScanTime_well])
  then have "device_ok (d1\<lparr>tk := t\<rparr>)" by (rule device_ok_upd)
  then have "device_ok d2" by (rule on_tasks_ok [OF 2 _ CheckHaccpScan_well])
  then have "device_ok d3" by (rule LwIP_Pkt_Handle_ok [OF 3])
  then show ?thesis by (rule after_packet_ok [OF 4])
qed

lemma time_passes_ok: "device_ok d \<Longrightarrow> length p = 3 \<Longrightarrow> device_ok (time_passes W n r p d)"
  unfolding time_passes_def Let_def using device_ok_well [of d]
  by (intro device_ok_share device_ok_upd) (simp_all add: device_ok_def meter_ok_def well_task_fields well_other_fields)


subsection \<open>From start to start\<close>

text \<open>
  What \<open>main\<close> does before the loop. The RAM has been cleared, so that every thread is at its first line; which
  contents the arrays have does not matter.
\<close>

definition fresh :: "'d device \<Rightarrow> bool" where
  "fresh d \<longleftrightarrow> http_ok (web d) \<and> length (infobip (client d)) = 1024 \<and> length (ibipretbuf (client d)) = 1024
     \<and> length (wtxBuf (client d)) = 1024 \<and> length (CRBuf (client d)) = 1024 \<and> length (dsBuf (met d)) = 10
     \<and> wcl_lc (client d) = 0 \<and> credit_lc (client d) = 0 \<and> m_lc (met d) = 0 \<and> save_lc d = 0 \<and> delay_lc d = 0
     \<and> lc (inp d) = 0 \<and> w_lc (wsend d) = 0 \<and> led_lc (panel d) = 0 \<and> arp_lc (panel d) = 0 \<and> link_lc (panel d) = 0
     \<and> (case contacts d of (d1, d2, d3) \<Rightarrow> door_lc d1 = 0 \<and> door_lc d2 = 0 \<and> door_lc d3 = 0)"

definition start_door :: "byte \<Rightarrow> door \<Rightarrow> door" where
  "start_door pin d = d\<lparr>cur := pin, old := pin\<rparr>"

definition main_start :: "bool \<Rightarrow> 'd device \<Rightarrow> 'd device option" where
  "main_start jumper d = do {
     s \<leftarrow> InitParam jumper ((shared d)\<lparr>temp := replicate 8 0\<rparr>);
     let s = s\<lparr>nv := InitNV (nv s)\<rparr>;
     let t = read_clock ((tk d)\<lparr>t_sys := s\<rparr>);
     let t = t\<lparr>oldmin := mn t, old_reset_min := ucast (mn t), old_haccp_min := ucast (mn t), scanflag := 0, sntpoldhr := hr t\<rparr>;
     let c = (case contacts d of (d1, d2, d3) \<Rightarrow>
       (start_door (DigitalInput 0 s) d1, start_door (DigitalInput 1 s) d2, start_door (DigitalInput 2 s) d3));
     let s = (if eeRd8 EE_MQTT_ENABLE (ee s) > 1 then EE_write EE_MQTT_ENABLE [0] s else s);
     Some (share s (d\<lparr>tk := t, contacts := c\<rparr>)) }"

text \<open>One step of the life of an initialised device: time and a pass of the loop, or a new start with the memories as they were.\<close>

inductive life :: "'d world \<Rightarrow> 'd device \<Rightarrow> 'd device \<Rightarrow> bool" for W where
  passed: "\<lbrakk>length p = 3; main_pass W packet ls (time_passes W n r p d) = Some (Inr d')\<rbrakk> \<Longrightarrow> life W d d'"
| started: "\<lbrakk>fresh d0; ee (shared d0) = ee (shared d); nv (shared d0) = nv (shared d);
     eeRd16 EE_INIT (ee (shared d)) = 0x55AA; main_start jumper d0 = Some d'\<rbrakk> \<Longrightarrow> life W d d'"

inductive lives :: "'d world \<Rightarrow> 'd device \<Rightarrow> 'd device \<Rightarrow> bool" for W d where
  here: "lives W d d"
| there: "lives W d d1 \<Longrightarrow> life W d1 d2 \<Longrightarrow> lives W d d2"

lemma length_InitNV [simp]: "length (InitNV m) = length m"
proof -
  have "length (fold (\<lambda>c. NVRAM_Write32 (f c) 0) cs m) = length m" for f :: "nat \<Rightarrow> nat" and cs m
    by (induction cs arbitrary: m) simp_all
  then show ?thesis by (simp add: InitNV_def Let_def del: upt_Suc)
qed

lemma main_start_ok:
  assumes "fresh d" and "eeRd16 EE_INIT (ee (shared d)) = 0x55AA" and "main_start jumper d = Some d'"
  shows "device_ok d'"
proof -
  let ?s0 = "(shared d)\<lparr>temp := replicate 8 0\<rparr>"
  obtain s where s: "InitParam jumper ?s0 = Some s" using assms(3) by (auto simp: main_start_def bind_eq_Some_conv)
  have "sys_ok ?s0" using assms(1) by (simp add: fresh_def http_ok_def shared_def sys_ok_def)
  moreover have "load_params jumper ?s0 = Some s" using s assms(2) by (simp add: InitParam_def)
  ultimately have "well s" by (rule load_params_well)
  then have n: "well (s\<lparr>nv := InitNV (nv s)\<rparr>)" by (intro well_task_fields) (simp_all add: well_sizes)
  define s1 where "s1 = s\<lparr>nv := InitNV (nv s)\<rparr>"
  define s2 where "s2 = (if eeRd8 EE_MQTT_ENABLE (ee s1) > 1 then EE_write EE_MQTT_ENABLE [0] s1 else s1)"
  have "foreign EE_MQTT_ENABLE" by (simp add: foreign_simps)
  then have w: "well s2" using n unfolding s2_def s1_def by (auto intro: well_foreign)
  obtain x y z where xyz: "contacts d = (x, y, z)" by (metis prod_cases3)
  have c0: "contact_lines (start_door a x, start_door b y, start_door e z)" for a b e
    using assms(1) by (simp add: fresh_def xyz contact_lines_def start_door_def)
  have "\<exists>t c. d' = share s2 (d\<lparr>tk := t, contacts := c\<rparr>) \<and> contact_lines c"
    using assms(3) c0 unfolding main_start_def s Option.bind.simps Let_def xyz prod.case s1_def [symmetric] s2_def [symmetric]
    by blast
  then obtain t c where d': "d' = share s2 (d\<lparr>tk := t, contacts := c\<rparr>)" and c: "contact_lines c" by blast
  have "http_ok (web (share s2 d))" using assms(1) w by (simp add: fresh_def share_def http_ok_def well_def)
  then have "http_inv (web (share s2 d))" using w by (simp add: http_inv_iff share_def)
  moreover have "gsm_ok ((client d)\<lparr>g_sys := s2\<rparr>)" using assms(1) w by (simp add: fresh_def gsm_ok_def)
  ultimately show ?thesis using assms(1) c unfolding d'
    by (simp add: device_ok_def fresh_def meter_ok_def input_lines_def sender_lines_def panel_lines_def) (simp add: share_def)
qed

lemma life_ok: "life W d d' \<Longrightarrow> device_ok d \<Longrightarrow> device_ok d'"
proof (induction rule: life.induct)
  case (passed p packet ls n r d d')
  then show ?case using main_pass_ok [OF passed(2)] time_passes_ok by blast
next
  case (started d0 d jumper d')
  then show ?case using main_start_ok [of d0 jumper d'] by simp
qed

lemma lives_ok: "lives W d d' \<Longrightarrow> device_ok d \<Longrightarrow> device_ok d'"
  by (induction rule: lives.induct) (auto intro: life_ok)


subsection \<open>Only packets change the EEPROM\<close>

lemma message_ee:
  "cat_Msg vs s = Some s' \<Longrightarrow> ee s' = ee s" "set_Msg v s = Some s' \<Longrightarrow> ee s' = ee s"
  "cat_poruka vs s = Some s' \<Longrightarrow> ee s' = ee s" "copy_poruka v s = Some s' \<Longrightarrow> ee s' = ee s"
  "read_rBuf a n s = Some s' \<Longrightarrow> ee s' = ee s"
  by (auto simp: cat_Msg_def set_Msg_def cat_poruka_def copy_poruka_def bind_eq_Some_conv)
     (auto simp: read_rBuf_def parses_keep dest!: store_parses)

lemma send_infobip_ee [simp]: "ee (send_infobip a b c d e s) = ee s"
  and mark_receivers_ee [simp]: "ee (mark_receivers i s) = ee s"
  by (simp_all add: send_infobip_def mark_receivers_def Let_def del: upt_Suc)

lemma send_ee:
  "SendWApp ftoa n s = Some s' \<Longrightarrow> ee s' = ee s" "SendWAppInput n s = Some s' \<Longrightarrow> ee s' = ee s"
  "SendSMS ftoa n t s = Some s' \<Longrightarrow> ee s' = ee s"
  by (auto simp: SendWApp_def SendWAppInput_def SendSMS_def sms_receivers_def Let_def bind_eq_Some_conv
      dest!: message_ee split: if_splits)

lemma sms_status_lines_ee: "sms_status_lines ftoa ks fl s = Some (fl', s') \<Longrightarrow> ee s' = ee s"
  by (induction ks arbitrary: fl s) (auto simp: bind_eq_Some_conv dest!: message_ee split: if_splits)

lemma SendSMSStatus_ee: "SendSMSStatus ftoa s = Some s' \<Longrightarrow> ee s' = ee s"
  by (auto simp: SendSMSStatus_def bind_eq_Some_conv dest!: sms_status_lines_ee)

lemma delays_ee: "delays f ks s = Some s' \<Longrightarrow> (\<And>k s s'. f k s = Some s' \<Longrightarrow> ee s' = ee s) \<Longrightarrow> ee s' = ee s"
  by (induction ks arbitrary: s) (auto simp: bind_eq_Some_conv)

lemma alarm_delays_ee: "alarm_delays ftoa s = Some s' \<Longrightarrow> ee s' = ee s"
proof -
  have "ee s' = ee s" if "delay_sensor ftoa k s = Some s'" for k s s'
    using that by (auto simp: delay_sensor_def Let_def bind_eq_Some_conv dest!: send_ee split: if_splits)
  moreover have "ee s' = ee s" if "delay_input ftoa k s = Some s'" for k s s'
    using that by (auto simp: delay_input_def Let_def bind_eq_Some_conv dest!: send_ee split: if_splits)
  ultimately show "alarm_delays ftoa s = Some s' \<Longrightarrow> ee s' = ee s"
    by (auto simp: alarm_delays_def bind_eq_Some_conv dest!: delays_ee simp del: upt_Suc)
qed

lemma sample_columns_ee: "sample_columns ftoa mk upd ks ds = Some ds' \<Longrightarrow> ee (snd ds') = ee (snd ds)"
proof (induction ks arbitrary: ds)
  case (Cons k ks)
  then obtain ds1 where 1: "sample_column ftoa mk upd k ds = Some ds1" "sample_columns ftoa mk upd ks ds1 = Some ds'"
    by (auto simp: bind_eq_Some_conv)
  have "ee (snd ds1) = ee (snd ds)"
    using 1(1) by (cases ds) (auto simp: sample_column_def mkt_value_def take_mean_def set_temp_def Let_def bind_eq_Some_conv split: if_splits)
  then show ?case using Cons.IH [OF 1(2)] by simp
qed simp

lemma log_ee:
  "SaveTemp ftoa mk x y (s, fs) = Some (s', fs') \<Longrightarrow> ee s' = ee s" "SaveHaccp ftoa mk x y (s, fs) = Some (s', fs') \<Longrightarrow> ee s' = ee s"
  "SaveAlarm ftoa t k ty (s, fs) = Some (s', fs') \<Longrightarrow> ee s' = ee s"
  by (auto simp: SaveTemp_def SaveHaccp_def SaveAlarm_def Let_def bind_eq_Some_conv set_temp_def getDate_def getTime_def
      dest!: sample_columns_ee message_ee split: if_splits)

lemma upd_sensor_ee [simp]: "ee (upd_sensor k f s) = ee s"
  by (simp add: upd_sensor_def)

lemma check_sensors_ee: "check_sensors ftoa ks (s, fs) = Some (s', fs') \<Longrightarrow> ee s' = ee s"
proof (induction ks arbitrary: s fs)
  case (Cons k ks)
  then obtain s1 fs1 where 1: "check_sensor ftoa k (s, fs) = Some (s1, fs1)" "check_sensors ftoa ks (s1, fs1) = Some (s', fs')"
    by (auto simp: bind_eq_Some_conv)
  have "ee s1 = ee s"
    using 1(1) by (auto simp: check_sensor_def Let_def split: if_splits prod.splits dest!: log_ee)
  then show ?case using Cons.IH [OF 1(2)] by simp
qed simp

lemma next_sensor_ee: "next_sensor B ftoa k m = Some m' \<Longrightarrow> ee (m_sys m') = ee (m_sys m)"
proof (induction B ftoa k m rule: next_sensor.induct)
  case (1 B ftoa k m)
  show ?case
  proof (cases "k < 8 \<and> ENBLE (senzor (m_sys m) ! k) = 0")
    case True
    then show ?thesis using 1 by (simp add: next_sensor.simps [of B ftoa k m])
  next
    case False
    then show ?thesis using "1.prems"
      by (auto simp: next_sensor.simps [of B ftoa k m] bind_eq_Some_conv start_conversion_def Let_def
          dest!: check_sensors_ee split: if_splits)
  qed
qed

lemma process_reading_ee: "process_reading k buf s = Some s' \<Longrightarrow> ee s' = ee s"
  by (auto simp: process_reading_def good_reading_def bad_reading_def Let_def bind_eq_Some_conv split: if_splits)

lemma ptReadTemp_ee: "ptReadTemp B ftoa m = Some m' \<Longrightarrow> ee (m_sys m') = ee (m_sys m)"
  by (auto simp: ptReadTemp_def read_sensor_def bind_eq_Some_conv dest!: next_sensor_ee process_reading_ee split: if_splits)

lemma pt_input_ee: "ee (isys (pt_input on l0 l1 l2 l3 l4 d)) = ee (isys d)"
  by (simp add: pt_input_def wait1_def wait2_def wait3_def wait4_def input_alarm_def Let_def upd_input_def)

lemma ScanInputs_ee: "ee (isys (ScanInputs d)) = ee (isys d)"
  by (simp add: ScanInputs_def Let_def ptInput1NO_def ptInput1NC_def pt_input_ee) (simp add: upd_input_def)

lemma send_from_ee: "ee (w_sys (send_from i d)) = ee (w_sys d)"
proof (induction i d rule: send_from.induct)
  case (1 i d)
  then show ?case by (subst send_from.simps) auto
qed

lemma logger_alarm_poll_ee: "ee (w_sys (logger_alarm_poll d)) = ee (w_sys d)"
  by (simp add: logger_alarm_poll_def ptWapp_def send_from_ee)


lemma CrateInfobipXMLString_ee: "CrateInfobipXMLString b s = Some (n, b', s') \<Longrightarrow> ee s' = ee s"
  by (auto simp: CrateInfobipXMLString_def bind_eq_Some_conv Let_def dest!: framesD [OF frames_gsm_document] bufs_keep(1))

lemma wcl_ee:
  "wcl_connected g = Some g' \<Longrightarrow> ee (g_sys g') = ee (g_sys g)" "wcl_body g = Some g' \<Longrightarrow> ee (g_sys g') = ee (g_sys g)"
  "ee (g_sys (wcl_answer g)) = ee (g_sys g)"
proof -
  have e: "ee (g_sys (wcl_exit g)) = ee (g_sys g)" for g by (simp add: wcl_exit_def wcl__close_def call_def)
  have a: "ee (g_sys (wcl_answer g)) = ee (g_sys g)" for g by (simp add: wcl_answer_def e)
  have b: "wcl_body g = Some g' \<Longrightarrow> ee (g_sys g') = ee (g_sys g)" for g g'
    by (auto simp: wcl_body_def bind_eq_Some_conv a call_def split: if_splits)
  show "wcl_connected g = Some g' \<Longrightarrow> ee (g_sys g') = ee (g_sys g)" "wcl_body g = Some g' \<Longrightarrow> ee (g_sys g') = ee (g_sys g)"
    "ee (g_sys (wcl_answer g)) = ee (g_sys g)"
    by (auto simp: wcl_connected_def bind_eq_Some_conv e a call_def dest!: b split: if_splits)
qed

lemma wcl_start_ee: "wcl_start g = Some g' \<Longrightarrow> ee (g_sys g') = ee (g_sys g)"
  by (auto simp: wcl_start_def bind_eq_Some_conv dest!: wcl_ee(1) CrateInfobipXMLString_ee framesD [OF frames_strcat] bufs_keep(1))

lemma credit_ee:
  "credit_connected g = Some g' \<Longrightarrow> ee (g_sys g') = ee (g_sys g)" "credit_answer g = Some g' \<Longrightarrow> ee (g_sys g') = ee (g_sys g)"
proof -
  have e: "credit_exit g = Some g' \<Longrightarrow> ee (g_sys g') = ee (g_sys g)" for g g'
    by (auto simp: credit_exit_def set_credit_def wcl_status_close_def call_def bind_eq_Some_conv)
  have a: "credit_answer g = Some g' \<Longrightarrow> ee (g_sys g') = ee (g_sys g)" for g g'
    by (auto simp: credit_answer_def wcl_status_close_def call_def dest!: e split: if_splits)
  show "credit_connected g = Some g' \<Longrightarrow> ee (g_sys g') = ee (g_sys g)" "credit_answer g = Some g' \<Longrightarrow> ee (g_sys g') = ee (g_sys g)"
    by (auto simp: credit_connected_def bind_eq_Some_conv call_def dest!: e a split: if_splits)
qed

lemma credit_start_ee: "credit_start g = Some g' \<Longrightarrow> ee (g_sys g') = ee (g_sys g)"
  by (auto simp: credit_start_def set_credit_def bind_eq_Some_conv call_def
      dest!: credit_ee(1) CrateInfobipXMLString_ee framesD [OF frames_AddBuf] framesD [OF frames_EE_rBuf] bufs_keep(1))

lemma wcl_poll_ee: "wcl_poll g = Some g' \<Longrightarrow> ee (g_sys g') = ee (g_sys g)"
proof -
  have p: "ptWCL g = Some g' \<Longrightarrow> ee (g_sys g') = ee (g_sys g)" for g g'
    by (auto simp: ptWCL_def wcl_ee(3) dest!: wcl_start_ee wcl_ee(1,2) split: if_splits)
  have q: "ptWCLcredit g = Some g' \<Longrightarrow> ee (g_sys g') = ee (g_sys g)" for g g'
    by (auto simp: ptWCLcredit_def dest!: credit_start_ee credit_ee split: if_splits)
  show "wcl_poll g = Some g' \<Longrightarrow> ee (g_sys g') = ee (g_sys g)"
    by (auto simp: wcl_poll_def bind_eq_Some_conv dest!: p q split: if_splits)
qed

lemma on_ee:
  "on_tasks f d = Some d' \<Longrightarrow> (\<And>t t'. f t = Some t' \<Longrightarrow> ee (t_sys t') = ee (t_sys t)) \<Longrightarrow> ee (shared d') = ee (shared d)"
  "on_meter h d = Some d' \<Longrightarrow> (\<And>m m'. h m = Some m' \<Longrightarrow> ee (m_sys m') = ee (m_sys m)) \<Longrightarrow> ee (shared d') = ee (shared d)"
  "on_client k d = Some d' \<Longrightarrow> (\<And>g g'. k g = Some g' \<Longrightarrow> ee (g_sys g') = ee (g_sys g)) \<Longrightarrow> ee (shared d') = ee (shared d)"
  "(\<And>i. ee (isys (j i)) = ee (isys i)) \<Longrightarrow> ee (shared (on_inputs j d)) = ee (shared d)"
  "(\<And>w. ee (w_sys (l w)) = ee (w_sys w)) \<Longrightarrow> ee (shared (on_sender l d)) = ee (shared d)"
  by (auto simp: on_tasks_def on_meter_def on_client_def on_inputs_def on_sender_def Let_def bind_eq_Some_conv)

lemma shared_upd [simp]:
  "shared (d\<lparr>tk := t\<rparr>) = shared d" "shared (d\<lparr>panel := p\<rparr>) = shared d" "shared (d\<lparr>stack := q\<rparr>) = shared d"
  "shared (d\<lparr>contacts := c\<rparr>) = shared d"
  by (simp_all add: shared_def)

lemma CheckScanTime_ee: "CheckScanTime ftoa x t = Some t' \<Longrightarrow> ee (t_sys t') = ee (t_sys t)"
  by (auto simp: CheckScanTime_def Let_def bind_eq_Some_conv read_clock_def getDate_def dest!: SendSMSStatus_ee split: if_splits)

lemma CheckHaccpScan_ee: "CheckHaccpScan ftoa mk x y t = Some t' \<Longrightarrow> ee (t_sys t') = ee (t_sys t)"
  by (auto simp: CheckHaccpScan_def Let_def bind_eq_Some_conv read_clock_def dest!: log_ee split: if_splits)

lemma after_packet_ee:
  assumes "after_packet W ls d = Some d'"
  shows "ee (shared d') = ee (shared d)"
proof -
  let ?d = "d\<lparr>panel := ptToggleLed (clk d) (panel d)\<rparr>"
  from assms obtain d1 d2 d3 d4 where
    1: "run_alarm_delay W ?d = Some d1" and
    2: "on_meter (ptReadTemp (bus W) (e_ftoa (env W))) (d1\<lparr>stack := LwIP_Periodic_Handle (LocalTime (clk d1)) (stack d1)\<rparr>) = Some d2" and
    3: "run_save_temp W d2 = Some d3" and
    4: "on_client wcl_poll (on_inputs ScanInputs (share (CheckSNTP (shared d3)) d3)) = Some d4" and
    5: "d' = (let d = d4\<lparr>contacts := input_poll (clk d4) (shared d4) (contacts d4)\<rparr>; d = on_sender logger_alarm_poll d;
          d = d\<lparr>panel := ptArpGratuitous (clk d) (panel d)\<rparr> in d\<lparr>panel := ptTestLink (clk d) ls (panel d)\<rparr>)"
    by (auto simp: after_packet_def ReadTemperature_def Let_def bind_eq_Some_conv)
  have "ee (shared d1) = ee (shared d)"
    using 1 by (auto simp: run_alarm_delay_def ptAlarmDelay_def Let_def bind_eq_Some_conv dest!: alarm_delays_ee split: if_splits)
  moreover have "ee (shared d2) = ee (shared d1)" using on_ee(2) [OF 2 ptReadTemp_ee] by simp
  moreover have "ee (shared d3) = ee (shared d2)"
    using 3 by (auto simp: run_save_temp_def ptSaveTemp_def bind_eq_Some_conv dest!: log_ee split: if_splits)
  moreover have "ee (shared d4) = ee (shared d3)"
    using on_ee(3) [OF 4 wcl_poll_ee] by (simp add: on_ee(4) [OF ScanInputs_ee] CheckSNTP_def)
  ultimately show ?thesis unfolding 5 Let_def by (simp add: on_ee(5) [OF logger_alarm_poll_ee])
qed

lemma main_pass_ee:
  assumes "main_pass W [] ls d = Some (Inr d')"
  shows "ee (shared d') = ee (shared d)"
proof -
  obtain d1 where 1: "on_tasks (CheckScanTime (e_ftoa (env W)) (stk W)) d = Some d1" using assms by (auto simp: main_pass_def bind_eq_Some_conv)
  obtain b t where c: "Check4hour ((tk d1)\<lparr>t_sys := shared d1, t_logs := logs d1\<rparr>) = (b, t)" by (cases "Check4hour ((tk d1)\<lparr>t_sys := shared d1, t_logs := logs d1\<rparr>)")
  obtain d2 where
    2: "on_tasks (CheckHaccpScan (e_ftoa (env W)) (mkt W) (a8 W) (a12 W)) (d1\<lparr>tk := t\<rparr>) = Some d2" and 3: "after_packet W ls d2 = Some d'"
    using assms by (auto simp: main_pass_def 1 c Let_def bind_eq_Some_conv split: if_splits)
  show ?thesis
    using on_ee(1) [OF 1 CheckScanTime_ee] on_ee(1) [OF 2 CheckHaccpScan_ee] after_packet_ee [OF 3] by simp
qed

text \<open>Passes without a packet; each comes with the time since the one before, the clock, the pins and the link.\<close>

fun idle_passes :: "'d world \<Rightarrow> (nat \<times> rtc \<times> bool list \<times> byte) list \<Rightarrow> 'd device \<Rightarrow> (stop + 'd device) option" where
  "idle_passes W [] d = Some (Inr d)"
| "idle_passes W ((n, r, p, ls) # ps) d = do {
     x \<leftarrow> main_pass W [] ls (time_passes W n r p d);
     (case x of Inl x \<Rightarrow> Some (Inl x) | Inr d \<Rightarrow> idle_passes W ps d) }"

lemma idle_passes_keep:
  assumes "idle_passes W ps d = Some (Inr d')" and "device_ok d" and "\<forall>(n, r, p, ls) \<in> set ps. length p = 3"
  shows "device_ok d' \<and> ee (shared d') = ee (shared d)"
  using assms
proof (induction ps arbitrary: d)
  case (Cons q ps)
  obtain n r p ls where q: "q = (n, r, p, ls)" by (metis prod_cases4)
  let ?d = "time_passes W n r p d"
  obtain x where x: "main_pass W [] ls ?d = Some x" "(case x of Inl x \<Rightarrow> Some (Inl x) | Inr d \<Rightarrow> idle_passes W ps d) = Some (Inr d')"
    using Cons.prems(1) by (auto simp: q bind_eq_Some_conv)
  then obtain d1 where d1: "main_pass W [] ls ?d = Some (Inr d1)" "idle_passes W ps d1 = Some (Inr d')" by (cases x) auto
  have "device_ok ?d" using Cons.prems(2,3) q by (intro time_passes_ok) auto
  then have "device_ok d1" by (rule main_pass_ok [OF d1(1)])
  then have "device_ok d' \<and> ee (shared d') = ee (shared d1)" using Cons.IH [OF d1(2)] Cons.prems(3) by simp
  moreover have "ee (shared ?d) = ee (shared d)" by (simp add: time_passes_def Let_def)
  ultimately show ?case using main_pass_ee [OF d1(1)] by simp
qed simp

lemma idle_settings:
  assumes "idle_passes W ps d = Some (Inr d')" and "device_ok d" and "\<forall>(n, r, p, ls) \<in> set ps. length p = 3"
  shows "ee (shared d') = ee (shared d) \<and> map settings (senzor (shared d')) = map settings (senzor (shared d))"
proof -
  note k = idle_passes_keep [OF assms]
  then have w: "well (shared d')" "well (shared d)" using assms(2) device_ok_well by blast+
  have "map settings (senzor (shared d')) = map settings (senzor (shared d))"
  proof (rule nth_equalityI)
    show "length (map settings (senzor (shared d'))) = length (map settings (senzor (shared d)))" using w by (simp add: well_sizes)
  next
    fix i assume "i < length (map settings (senzor (shared d')))"
    then have i: "i < 8" using w by (simp add: well_sizes)
    then have "agree i (senzor (shared d') ! i) (ee (shared d))" "agree i (senzor (shared d) ! i) (ee (shared d))"
      using w k by (auto simp: well_def synced_def)
    then have "settings (senzor (shared d') ! i) = settings (senzor (shared d) ! i)" by (rule agree_settings)
    then show "map settings (senzor (shared d')) ! i = map settings (senzor (shared d)) ! i"
      using i w by (simp add: well_sizes)
  qed
  then show ?thesis using k by simp
qed

end
