(* ===== verification/Flash.thy ===== *)
theory Flash
  imports Eeprom
begin

section \<open>The flash driver (\<open>LittleFS/W25Q256.c\<close>, \<open>LittleFS/lfs_plat.c\<close>)\<close>

text \<open>
  The file system lies on a serial flash of 32 MB. \<open>flash\<close> is the environment: the part of the chip that the bus
  sees. While it is selected it collects the bytes of a command; it answers with the status or with the memory, and
  carries the command out when it is deselected. Programming only clears bits and stays inside the page of 256
  bytes; after it, and after an erase, the chip is busy for \<open>f_cycle\<close> status reads and takes no other command.

  \<open>block_device\<close> is the interface that littleFS asks for in \<open>lfs.h\<close>; the callbacks of \<open>lfs_plat.c\<close> are an
  interpretation, so that what littleFS programs into an erased block is what it reads.
\<close>

subsection \<open>The chip\<close>

definition FL_SIZE :: nat where "FL_SIZE = 2 ^ 25"
definition FL_PAGE :: nat where "FL_PAGE = 256"
definition FL_SECTOR :: nat where "FL_SECTOR = 4096"

definition FLASH_CMD_WREN :: byte where "FLASH_CMD_WREN = 0x06"
definition FLASH_CMD_RDSR :: byte where "FLASH_CMD_RDSR = 0x05"
definition FLASH_CMD_READ :: byte where "FLASH_CMD_READ = 0x13"
definition FLASH_CMD_PP :: byte where "FLASH_CMD_PP = 0x12"
definition FLASH_CMD_SE :: byte where "FLASH_CMD_SE = 0x21"
definition FLASH_CMD_CE :: byte where "FLASH_CMD_CE = 0x60"
definition FLASH_WIP_MASK :: byte where "FLASH_WIP_MASK = 0x01"

lemmas flash_codes = FLASH_CMD_WREN_def FLASH_CMD_RDSR_def FLASH_CMD_READ_def FLASH_CMD_PP_def FLASH_CMD_SE_def FLASH_CMD_CE_def

record flash =
  f_mem :: "nat \<Rightarrow> byte"
  f_cmd :: "bytes option"
  f_wel :: bool
  f_busy :: nat
  f_cycle :: nat

definition fl_next :: "nat \<Rightarrow> nat" where
  "fl_next a = a div FL_PAGE * FL_PAGE + (a + 1) mod FL_PAGE"

fun program_from :: "nat \<Rightarrow> bytes \<Rightarrow> (nat \<Rightarrow> byte) \<Rightarrow> nat \<Rightarrow> byte" where
  "program_from a [] m = m"
| "program_from a (b # bs) m = program_from (fl_next a) bs (m(a := m a AND b))"

text \<open>Of more than a page the chip takes the last 256 bytes.\<close>

definition page_program :: "nat \<Rightarrow> bytes \<Rightarrow> (nat \<Rightarrow> byte) \<Rightarrow> nat \<Rightarrow> byte" where
  "page_program a bs = (let k = length bs - FL_PAGE in program_from ((fl_next ^^ k) a) (drop k bs))"

definition sector_erase :: "nat \<Rightarrow> (nat \<Rightarrow> byte) \<Rightarrow> nat \<Rightarrow> byte" where
  "sector_erase a m = (\<lambda>i. if i div FL_SECTOR = a div FL_SECTOR then 0xFF else m i)"

definition cell :: "bytes \<Rightarrow> nat" where
  "cell cs = unat (be32 (cs ! 1) (cs ! 2) (cs ! 3) (cs ! 4)) mod FL_SIZE"

definition reply :: "bytes \<Rightarrow> flash \<Rightarrow> byte" where
  "reply cs d =
     (if cs = [] then 0xFF
      else if hd cs = FLASH_CMD_RDSR then (if f_busy d > 0 then 1 else 0) + (if f_wel d then 2 else 0)
      else if hd cs = FLASH_CMD_READ \<and> length cs \<ge> 5 \<and> f_busy d = 0 then f_mem d ((cell cs + (length cs - 5)) mod FL_SIZE)
      else 0xFF)"

definition carry_out :: "bytes \<Rightarrow> flash \<Rightarrow> flash" where
  "carry_out cs d =
     (if cs = [] \<or> f_busy d > 0 then d
      else if hd cs = FLASH_CMD_WREN then d\<lparr>f_wel := True\<rparr>
      else if \<not> f_wel d then d
      else if hd cs = FLASH_CMD_PP \<and> length cs > 5
      then d\<lparr>f_mem := page_program (cell cs) (drop 5 cs) (f_mem d), f_wel := False, f_busy := f_cycle d\<rparr>
      else if hd cs = FLASH_CMD_SE \<and> length cs = 5
      then d\<lparr>f_mem := sector_erase (cell cs) (f_mem d), f_wel := False, f_busy := f_cycle d\<rparr>
      else if hd cs = FLASH_CMD_CE then d\<lparr>f_mem := (\<lambda>_. 0xFF), f_wel := False, f_busy := f_cycle d\<rparr>
      else d)"

definition MX25_CS_LOW :: "flash \<Rightarrow> flash" where
  "MX25_CS_LOW d = d\<lparr>f_cmd := Some []\<rparr>"

definition MX25_CS_HIGH :: "flash \<Rightarrow> flash" where
  "MX25_CS_HIGH d = (case f_cmd d of None \<Rightarrow> d | Some cs \<Rightarrow> carry_out cs (d\<lparr>f_cmd := None\<rparr>))"

text \<open>A byte each way.\<close>

definition MX_SIO :: "byte \<Rightarrow> flash \<Rightarrow> byte \<times> flash" where
  "MX_SIO sdata d =
     (case f_cmd d of
        None \<Rightarrow> (0xFF, d)
      | Some cs \<Rightarrow> (reply cs d, d\<lparr>f_cmd := Some (cs @ [sdata]),
          f_busy := (if cs \<noteq> [] \<and> hd cs = FLASH_CMD_RDSR then f_busy d - 1 else f_busy d)\<rparr>))"

subsection \<open>The driver\<close>

datatype ReturnMsg = FlashOperationSuccess | FlashWriteRegFailed | FlashTimeOut | FlashIsBusy | FlashQuadNotEnable | FlashAddressInvalid

definition CMD_RDSR :: "flash \<Rightarrow> byte \<times> flash" where
  "CMD_RDSR d =
     (let (_, d) = MX_SIO FLASH_CMD_RDSR (MX25_CS_LOW d); (retval, d) = MX_SIO 0 d in (retval, MX25_CS_HIGH d))"

lemma CMD_RDSR_result:
  "CMD_RDSR d = ((if f_busy d > 0 then 1 else 0) + (if f_wel d then 2 else 0), d\<lparr>f_cmd := None, f_busy := f_busy d - 1\<rparr>)"
  by (simp add: CMD_RDSR_def MX_SIO_def MX25_CS_LOW_def MX25_CS_HIGH_def reply_def carry_out_def flash_codes)

lemma wip_bit: "((if b then 1 else 0) + (if w then 2 else 0)) AND FLASH_WIP_MASK = (FLASH_WIP_MASK :: byte) \<longleftrightarrow> b"
  by (simp add: FLASH_WIP_MASK_def)

text \<open>The loop reads the status with the calls of \<open>CMD_RDSR\<close>; it ends when the write cycle does.\<close>

function IsReady :: "flash \<Rightarrow> bool \<times> flash" where
  "IsReady d = (let (dummy, d1) = CMD_RDSR d in if dummy AND FLASH_WIP_MASK = FLASH_WIP_MASK then IsReady d1 else (True, d1))"
  by pat_completeness auto
termination
proof (relation "measure f_busy", goal_cases)
  case (2 d x dummy d1)
  then show ?case using wip_bit [of "f_busy d > 0" "f_wel d"] by (auto simp: CMD_RDSR_result)
qed simp

declare IsReady.simps [simp del]

definition idle :: "flash \<Rightarrow> flash" where
  "idle d = d\<lparr>f_cmd := None, f_busy := 0\<rparr>"

lemma IsReady_idle: "IsReady d = (True, idle d)"
proof (induction d rule: IsReady.induct)
  case (1 d)
  show ?case
  proof (cases "f_busy d > 0")
    case True
    then show ?thesis using "1.IH" [OF refl] wip_bit [of True "f_wel d"]
      by (subst IsReady.simps) (simp add: CMD_RDSR_result idle_def)
  next
    case False
    then show ?thesis using wip_bit [of False "f_wel d"] by (subst IsReady.simps) (simp add: CMD_RDSR_result idle_def)
  qed
qed

function WaitFlashReady_from :: "u32 \<Rightarrow> u32 \<Rightarrow> flash \<Rightarrow> bool \<times> flash" where
  "WaitFlashReady_from temp ExpectTime d =
     (let (ready, d1) = IsReady d
      in if ready then (True, d1)
         else if temp > ExpectTime then (False, d1)
         else WaitFlashReady_from (temp + 1) ExpectTime d1)"
  by pat_completeness auto
termination by (relation "{}") (simp_all add: IsReady_idle)

definition WaitFlashReady :: "u32 \<Rightarrow> flash \<Rightarrow> bool \<times> flash" where
  "WaitFlashReady ExpectTime d = WaitFlashReady_from 0 ExpectTime d"

declare WaitFlashReady_from.simps [simp del]

definition CMD_WREN :: "flash \<Rightarrow> flash" where
  "CMD_WREN d = MX25_CS_HIGH (snd (MX_SIO FLASH_CMD_WREN (MX25_CS_LOW d)))"

fun send_bytes :: "bytes \<Rightarrow> flash \<Rightarrow> flash" where
  "send_bytes [] d = d"
| "send_bytes (b # bs) d = send_bytes bs (snd (MX_SIO b d))"

text \<open>The command byte and the four bytes of the address.\<close>

definition send_command :: "byte \<Rightarrow> u32 \<Rightarrow> flash \<Rightarrow> flash" where
  "send_command cmd flash_address d =
     send_bytes [cmd, ucast (drop_bit 24 flash_address), ucast (drop_bit 16 flash_address), ucast (drop_bit 8 flash_address),
       ucast flash_address] (MX25_CS_LOW d)"

function wait_done :: "flash \<Rightarrow> flash" where
  "wait_done d = (let (status, d1) = IsReady d in if status then d1 else wait_done d1)"
  by pat_completeness auto
termination by (relation "{}") (simp_all add: IsReady_idle)

declare wait_done.simps [simp del]

definition CMD_PP :: "u32 \<Rightarrow> bytes \<Rightarrow> flash \<Rightarrow> ReturnMsg \<times> flash" where
  "CMD_PP flash_address source d =
     (let (ready, d) = IsReady d
      in if \<not> ready then (FlashIsBusy, d)
         else let d = send_bytes source (send_command FLASH_CMD_PP flash_address (CMD_WREN d))
              in (FlashOperationSuccess, wait_done (MX25_CS_HIGH d)))"

definition SectorEraseCycleTime :: u32 where "SectorEraseCycleTime = 1000"

definition CMD_SE :: "u32 \<Rightarrow> flash \<Rightarrow> ReturnMsg \<times> flash" where
  "CMD_SE flash_address d =
     (let (ready, d) = IsReady d
      in if \<not> ready then (FlashIsBusy, d)
         else let (ready, d) = WaitFlashReady SectorEraseCycleTime (MX25_CS_HIGH (send_command FLASH_CMD_SE flash_address (CMD_WREN d)))
              in (if ready then FlashOperationSuccess else FlashTimeOut, d))"

definition CMD_CE :: "flash \<Rightarrow> ReturnMsg \<times> flash" where
  "CMD_CE d =
     (let (ready, d) = IsReady d
      in if \<not> ready then (FlashIsBusy, d)
         else let (ready, d) = WaitFlashReady SectorEraseCycleTime (MX25_CS_HIGH (snd (MX_SIO FLASH_CMD_CE (MX25_CS_LOW (CMD_WREN d)))))
              in (if ready then FlashOperationSuccess else FlashTimeOut, d))"

definition ChipErase :: "flash \<Rightarrow> flash" where
  "ChipErase d = snd (CMD_CE d)"

fun receive_bytes :: "nat \<Rightarrow> flash \<Rightarrow> bytes \<times> flash" where
  "receive_bytes 0 d = ([], d)"
| "receive_bytes (Suc n) d =
     (let (b, d) = MX_SIO 0 d; (bs, d) = receive_bytes n d in (b # bs, d))"

text \<open>It does not wait until the chip is ready.\<close>

definition CMD_READ :: "u32 \<Rightarrow> nat \<Rightarrow> flash \<Rightarrow> bytes \<times> flash" where
  "CMD_READ flash_address byte_length d =
     (let (bs, d) = receive_bytes byte_length (send_command FLASH_CMD_READ flash_address d) in (bs, MX25_CS_HIGH d))"

subsection \<open>What the commands do to the memory\<close>

definition flash_ready :: "flash \<Rightarrow> bool" where
  "flash_ready d \<longleftrightarrow> f_cmd d = None \<and> f_busy d = 0"

lemma waits [simp]:
  "IsReady d = (True, idle d)" "WaitFlashReady t d = (True, idle d)" "wait_done d = idle d"
  by (simp_all add: IsReady_idle WaitFlashReady_def WaitFlashReady_from.simps wait_done.simps)

lemma CMD_WREN_result: "CMD_WREN (idle d) = (idle d)\<lparr>f_wel := True\<rparr>"
  by (simp add: CMD_WREN_def MX_SIO_def MX25_CS_LOW_def MX25_CS_HIGH_def carry_out_def flash_codes idle_def)

lemma send_bytes_cmd:
  assumes "f_cmd d = Some cs" and "cs \<noteq> []" and "hd cs \<noteq> FLASH_CMD_RDSR"
  shows "send_bytes bs d = d\<lparr>f_cmd := Some (cs @ bs)\<rparr>"
  using assms
proof (induction bs arbitrary: d cs)
  case Nil
  then show ?case by simp
next
  case (Cons b bs)
  then show ?case using Cons.IH [of "d\<lparr>f_cmd := Some (cs @ [b])\<rparr>" "cs @ [b]"] by (simp add: MX_SIO_def)
qed

lemma send_command_cmd: "c \<noteq> FLASH_CMD_RDSR \<Longrightarrow> send_command c a d = d\<lparr>f_cmd := Some (c # split32 a)\<rparr>"
  using send_bytes_cmd [of "d\<lparr>f_cmd := Some [c]\<rparr>" "[c]" "split32 a"]
  by (simp add: send_command_def MX25_CS_LOW_def MX_SIO_def split32_def)

lemma cell_address: "cell (c # split32 a @ bs) = unat a mod FL_SIZE"
  by (simp add: cell_def split32_def be32_split32)

lemma length_split32: "length (split32 a) = 4"
  by (simp add: split32_def)

text \<open>The three commands on the memory alone.\<close>

lemma CMD_PP_result:
  "bs \<noteq> [] \<Longrightarrow> CMD_PP a bs d
     = (FlashOperationSuccess, (idle d)\<lparr>f_mem := page_program (unat a mod FL_SIZE) bs (f_mem d), f_wel := False\<rparr>)"
proof -
  assume b: "bs \<noteq> []"
  have s: "send_bytes bs (send_command FLASH_CMD_PP a (CMD_WREN (idle d)))
      = (idle d)\<lparr>f_wel := True, f_cmd := Some (FLASH_CMD_PP # split32 a @ bs)\<rparr>"
    by (simp add: CMD_WREN_result send_command_cmd send_bytes_cmd flash_codes)
  have "drop 4 (split32 a @ bs) = bs" by (simp add: length_split32)
  then show ?thesis using b
    by (simp add: CMD_PP_def s MX25_CS_HIGH_def carry_out_def cell_address) (simp add: flash_codes idle_def length_split32)
qed

lemma CMD_SE_result:
  "CMD_SE a d = (FlashOperationSuccess, (idle d)\<lparr>f_mem := sector_erase (unat a mod FL_SIZE) (f_mem d), f_wel := False\<rparr>)"
  using cell_address [of FLASH_CMD_SE a "[]"]
  by (simp add: CMD_SE_def CMD_WREN_result send_command_cmd MX25_CS_HIGH_def carry_out_def flash_codes length_split32)
     (simp add: idle_def)

lemma CMD_CE_result: "CMD_CE d = (FlashOperationSuccess, (idle d)\<lparr>f_mem := (\<lambda>_. 0xFF), f_wel := False\<rparr>)"
  by (simp add: CMD_CE_def CMD_WREN_result MX25_CS_LOW_def MX_SIO_def MX25_CS_HIGH_def carry_out_def flash_codes) (simp add: idle_def)

lemma receive_read:
  assumes "f_cmd d = Some (FLASH_CMD_READ # split32 a @ zs)" and "f_busy d = 0"
  shows "receive_bytes n d = (map (\<lambda>i. f_mem d ((unat a + length zs + i) mod FL_SIZE)) [0..<n],
    d\<lparr>f_cmd := Some (FLASH_CMD_READ # split32 a @ zs @ replicate n 0)\<rparr>)"
  using assms
proof (induction n arbitrary: d zs)
  case 0
  then show ?case by simp
next
  case (Suc n)
  let ?d = "d\<lparr>f_cmd := Some (FLASH_CMD_READ # split32 a @ zs @ [0])\<rparr>"
  have "MX_SIO 0 d = (f_mem d ((unat a + length zs) mod FL_SIZE), ?d)"
    using Suc.prems by (simp add: MX_SIO_def reply_def cell_address length_split32 mod_add_left_eq)
      (simp add: flash_codes)
  moreover have "receive_bytes n ?d = (map (\<lambda>i. f_mem d ((unat a + length (zs @ [0 :: byte]) + i) mod FL_SIZE)) [0..<n],
      ?d\<lparr>f_cmd := Some (FLASH_CMD_READ # split32 a @ (zs @ [0]) @ replicate n 0)\<rparr>)"
    using Suc.IH [of ?d "zs @ [0]"] Suc.prems by simp
  ultimately show ?case by (simp add: upt_conv_Cons map_Suc_upt [symmetric] del: upt_Suc)
qed

lemma CMD_READ_result:
  assumes "flash_ready d"
  shows "CMD_READ a n d = (map (\<lambda>i. f_mem d ((unat a + i) mod FL_SIZE)) [0..<n], d)"
  using assms receive_read [of "d\<lparr>f_cmd := Some (FLASH_CMD_READ # split32 a)\<rparr>" a "[]" n]
  by (simp add: flash_ready_def CMD_READ_def send_command_cmd MX25_CS_HIGH_def carry_out_def flash_codes)


lemma fl_next_Suc: "a mod FL_PAGE + 1 < FL_PAGE \<Longrightarrow> fl_next a = Suc a \<and> Suc a mod FL_PAGE = Suc (a mod FL_PAGE)"
proof -
  assume "a mod FL_PAGE + 1 < FL_PAGE"
  then have "Suc a mod FL_PAGE = Suc (a mod FL_PAGE)" by (simp add: mod_Suc)
  then show ?thesis by (simp add: fl_next_def)
qed

lemma program_from_page:
  assumes "a mod FL_PAGE + length bs \<le> FL_PAGE"
  shows "program_from a bs m = (\<lambda>i. if a \<le> i \<and> i < a + length bs then m i AND bs ! (i - a) else m i)"
  using assms
proof (induction bs arbitrary: a m)
  case (Cons b bs)
  show ?case
  proof (cases "bs = []")
    case True
    then show ?thesis by (auto simp: fun_eq_iff)
  next
    case False
    then have "a mod FL_PAGE + 1 < FL_PAGE" using Cons.prems by (cases bs) auto
    note n = fl_next_Suc [OF this]
    then have "program_from (Suc a) bs (m(a := m a AND b))
        = (\<lambda>i. if Suc a \<le> i \<and> i < Suc a + length bs then (m(a := m a AND b)) i AND bs ! (i - Suc a) else (m(a := m a AND b)) i)"
      using Cons.prems by (intro Cons.IH) simp
    then show ?thesis using n by (auto simp: fun_eq_iff nth_Cons' )
  qed
qed (auto simp: fun_eq_iff)

lemma page_program_page:
  "a mod FL_PAGE + length bs \<le> FL_PAGE \<Longrightarrow>
     page_program a bs m = (\<lambda>i. if a \<le> i \<and> i < a + length bs then m i AND bs ! (i - a) else m i)"
  using program_from_page [of a bs m] by (simp add: page_program_def)

subsection \<open>The block device of the file system\<close>

text \<open>The interface of littleFS: pages of \<open>psize\<close> bytes in blocks that are erased before their pages are programmed.\<close>

locale block_device =
  fixes ok :: "'s \<Rightarrow> bool"
    and rd :: "nat \<Rightarrow> nat \<Rightarrow> 's \<Rightarrow> bytes"
    and pg :: "nat \<Rightarrow> nat \<Rightarrow> bytes \<Rightarrow> 's \<Rightarrow> 's"
    and er :: "nat \<Rightarrow> 's \<Rightarrow> 's"
    and psize pages blocks :: nat
  assumes er_ok: "ok d \<Longrightarrow> ok (er b d)"
    and pg_ok: "ok d \<Longrightarrow> ok (pg b p x d)"
    and er_same: "ok d \<Longrightarrow> b < blocks \<Longrightarrow> p < pages \<Longrightarrow> rd b p (er b d) = replicate psize 0xFF"
    and er_other: "ok d \<Longrightarrow> b < blocks \<Longrightarrow> b' < blocks \<Longrightarrow> b' \<noteq> b \<Longrightarrow> p < pages \<Longrightarrow> rd b' p (er b d) = rd b' p d"
    and pg_same: "ok d \<Longrightarrow> b < blocks \<Longrightarrow> p < pages \<Longrightarrow> length x = psize \<Longrightarrow> rd b p d = replicate psize 0xFF \<Longrightarrow> rd b p (pg b p x d) = x"
    and pg_other: "ok d \<Longrightarrow> b < blocks \<Longrightarrow> b' < blocks \<Longrightarrow> p < pages \<Longrightarrow> p' < pages \<Longrightarrow> length x = psize \<Longrightarrow>
          b' \<noteq> b \<or> p' \<noteq> p \<Longrightarrow> rd b' p' (pg b p x d) = rd b' p' d"
begin

lemma program_pages:
  assumes "ok d" and "b < blocks" and "distinct (map fst ps)" and "\<forall>(p, x) \<in> set ps. p < pages \<and> length x = psize"
    and "\<forall>(p, x) \<in> set ps. rd b p d = replicate psize 0xFF" and "b' < blocks" and "q < pages"
  shows "ok (fold (\<lambda>(p, x). pg b p x) ps d)
     \<and> rd b' q (fold (\<lambda>(p, x). pg b p x) ps d) = (if b' = b then case map_of ps q of Some x \<Rightarrow> x | None \<Rightarrow> rd b q d else rd b' q d)"
  using assms
proof (induction ps arbitrary: d)
  case (Cons px ps)
  obtain p x where px: "px = (p, x)" by (cases px)
  let ?d = "pg b p x d"
  have p: "p < pages" "length x = psize" "rd b p d = replicate psize 0xFF" "p \<notin> fst ` set ps" using Cons.prems px by auto
  have "rd b p' ?d = rd b p' d" if "(p', y) \<in> set ps" for p' y
    using that p Cons.prems px by (intro pg_other) force+
  then have blank: "\<forall>(p', y) \<in> set ps. rd b p' ?d = replicate psize 0xFF" using Cons.prems(5) by force
  have "ok (fold (\<lambda>(p, x). pg b p x) ps ?d)
     \<and> rd b' q (fold (\<lambda>(p, x). pg b p x) ps ?d) = (if b' = b then case map_of ps q of Some x \<Rightarrow> x | None \<Rightarrow> rd b q ?d else rd b' q ?d)"
    using Cons.prems px blank by (intro Cons.IH) (auto intro: pg_ok)
  moreover have "rd b q ?d = (if q = p then x else rd b q d)" "b' \<noteq> b \<Longrightarrow> rd b' q ?d = rd b' q d"
    using pg_same [OF Cons.prems(1,2) p(1-3)] pg_other [OF Cons.prems(1,2) _ p(1) _ p(2)] Cons.prems(2,6,7) by auto
  moreover have "map_of ps p = None" using p(4) by (simp add: map_of_eq_None_iff)
  ultimately show ?case using px by (auto split: option.splits)
qed simp

lemma write_block:
  assumes "ok d" and "b < blocks" and "distinct (map fst ps)" and "\<forall>(p, x) \<in> set ps. p < pages \<and> length x = psize"
    and "b' < blocks" and "q < pages"
  shows "ok (fold (\<lambda>(p, x). pg b p x) ps (er b d)) \<and> rd b' q (fold (\<lambda>(p, x). pg b p x) ps (er b d))
     = (if b' = b then case map_of ps q of Some x \<Rightarrow> x | None \<Rightarrow> replicate psize 0xFF else rd b' q d)"
proof -
  have "\<forall>(p, x) \<in> set ps. rd b p (er b d) = replicate psize 0xFF" using assms(1,2,4) by (auto intro: er_same)
  from program_pages [OF er_ok [OF assms(1)] assms(2-4) this assms(5,6)] show ?thesis
    using er_same [OF assms(1,2,6)] er_other [OF assms(1,2,5) _ assms(6)] by (auto split: option.splits)
qed

end

record lfs_config =
  read_size :: u32
  prog_size :: u32
  block_size :: u32
  block_count :: u32
  lookahead_size :: u32
  cache_size :: u32
  block_cycles :: u32

definition LFS_BLOCK_SIZE :: u32 where "LFS_BLOCK_SIZE = 4096"
definition LFS_BLOCKS_NUM :: u32 where "LFS_BLOCKS_NUM = 0x2000000 div 4096"

definition LFS_Config :: lfs_config where
  "LFS_Config = \<lparr>read_size = 256, prog_size = 256, block_size = LFS_BLOCK_SIZE, block_count = LFS_BLOCKS_NUM,
     lookahead_size = 256, cache_size = 256, block_cycles = 1000\<rparr>"

text \<open>They ignore the results of the commands and return 0.\<close>

definition block_device_read :: "lfs_config \<Rightarrow> u32 \<Rightarrow> u32 \<Rightarrow> nat \<Rightarrow> flash \<Rightarrow> int \<times> bytes \<times> flash" where
  "block_device_read c block off sz d = (0, CMD_READ (block * block_size c + off) sz d)"

definition block_device_prog :: "lfs_config \<Rightarrow> u32 \<Rightarrow> u32 \<Rightarrow> bytes \<Rightarrow> flash \<Rightarrow> int \<times> flash" where
  "block_device_prog c block off buffer d = (0, snd (CMD_PP (block * block_size c + off) buffer d))"

definition block_device_erase :: "lfs_config \<Rightarrow> u32 \<Rightarrow> flash \<Rightarrow> int \<times> flash" where
  "block_device_erase c block d = (0, snd (CMD_SE (block * block_size c) d))"

definition block_device_sync :: "lfs_config \<Rightarrow> flash \<Rightarrow> int \<times> flash" where
  "block_device_sync c d = (0, d)"

definition page_read :: "nat \<Rightarrow> nat \<Rightarrow> flash \<Rightarrow> bytes" where
  "page_read b p d = fst (snd (block_device_read LFS_Config (of_nat b) (of_nat (FL_PAGE * p)) FL_PAGE d))"

definition page_prog :: "nat \<Rightarrow> nat \<Rightarrow> bytes \<Rightarrow> flash \<Rightarrow> flash" where
  "page_prog b p x d = snd (block_device_prog LFS_Config (of_nat b) (of_nat (FL_PAGE * p)) x d)"

definition block_erase :: "nat \<Rightarrow> flash \<Rightarrow> flash" where
  "block_erase b d = snd (block_device_erase LFS_Config (of_nat b) d)"

lemma page_address:
  assumes "b < 8192" and "p < 16"
  shows "unat (of_nat b * block_size LFS_Config + of_nat (FL_PAGE * p) :: u32) = 4096 * b + 256 * p"
proof -
  have "4096 * b + 256 * p < 2 ^ 25" using assms by simp
  then have "unat (of_nat (4096 * b + 256 * p) :: u32) = 4096 * b + 256 * p"
    using of_nat_inverse [of "4096 * b + 256 * p", where ?'a = 32] by simp
  moreover have "(of_nat (4096 * b + 256 * p) :: u32) = of_nat b * block_size LFS_Config + of_nat (FL_PAGE * p)"
    by (simp add: LFS_Config_def LFS_BLOCK_SIZE_def FL_PAGE_def)
  ultimately show ?thesis by simp
qed

lemma flash_ready_idle: "flash_ready d \<Longrightarrow> idle d = d"
  by (simp add: flash_ready_def idle_def)

lemma page_read_eq:
  assumes "flash_ready d" and "b < 8192" and "p < 16"
  shows "page_read b p d = map (\<lambda>i. f_mem d (4096 * b + 256 * p + i)) [0..<256]"
proof -
  have "(4096 * b + 256 * p + i) mod FL_SIZE = 4096 * b + 256 * p + i" if "i < 256" for i
    using assms(2,3) that by (simp add: FL_SIZE_def)
  then show ?thesis unfolding page_read_def block_device_read_def CMD_READ_result [OF assms(1)] page_address [OF assms(2,3)]
    by (simp add: FL_PAGE_def)
qed

lemma page_prog_eq:
  assumes "flash_ready d" and "b < 8192" and "p < 16" and "length x = 256"
  shows "page_prog b p x d = d\<lparr>f_mem := (\<lambda>i. if 4096 * b + 256 * p \<le> i \<and> i < 4096 * b + 256 * p + 256
     then f_mem d i AND x ! (i - (4096 * b + 256 * p)) else f_mem d i), f_wel := False\<rparr>"
proof -
  let ?a = "4096 * b + 256 * p"
  have a: "?a mod FL_SIZE = ?a" using assms(2,3) by (simp add: FL_SIZE_def)
  have "?a mod FL_PAGE = 0" by (simp add: FL_PAGE_def mod_add_eq [symmetric] mult.commute)
  then have "page_program ?a x (f_mem d) = (\<lambda>i. if ?a \<le> i \<and> i < ?a + length x then f_mem d i AND x ! (i - ?a) else f_mem d i)"
    using assms(4) by (intro page_program_page) (simp add: FL_PAGE_def)
  moreover have "x \<noteq> []" using assms(4) by auto
  ultimately show ?thesis
    unfolding page_prog_def block_device_prog_def snd_conv
    by (subst CMD_PP_result) (simp_all only: page_address [OF assms(2,3)] a flash_ready_idle [OF assms(1)] assms(4) snd_conv simp_thms)
qed

lemma block_erase_eq:
  assumes "flash_ready d" and "b < 8192"
  shows "block_erase b d = d\<lparr>f_mem := (\<lambda>i. if i div 4096 = b then 0xFF else f_mem d i), f_wel := False\<rparr>"
  using page_address [OF assms(2), of 0] assms(2) flash_ready_idle [OF assms(1)]
  by (simp add: block_erase_def block_device_erase_def CMD_SE_result sector_erase_def FL_SIZE_def FL_SECTOR_def)

lemma page_prog_ready: "flash_ready d \<Longrightarrow> flash_ready (page_prog b p x d)"
proof (cases "x = []")
  case True
  then show ?thesis
    by (simp add: page_prog_def block_device_prog_def CMD_PP_def flash_ready_def idle_def)
next
  case False
  then show ?thesis by (simp add: page_prog_def block_device_prog_def CMD_PP_result flash_ready_def idle_def)
qed

lemma and_erased: "255 AND b = (b :: byte)"
proof -
  have "mask 8 AND b = b" using take_bit_word_eq_self [of 8 b] by (simp add: take_bit_eq_mask and.commute)
  moreover have "mask 8 = (255 :: byte)" by (simp add: mask_eq_exp_minus_1)
  ultimately show ?thesis by simp
qed

interpretation fb: block_device flash_ready page_read page_prog block_erase 256 16 8192
proof unfold_locales
  show "flash_ready d \<Longrightarrow> flash_ready (block_erase b d)" for d b
    by (simp add: block_erase_def block_device_erase_def CMD_SE_result flash_ready_def idle_def)
  show "flash_ready d \<Longrightarrow> flash_ready (page_prog b p x d)" for d b p x by (rule page_prog_ready)
next
  fix d b p
  assume d: "flash_ready d" "b < (8192 :: nat)" "p < (16 :: nat)"
  have e: "flash_ready (block_erase b d)" using d by (simp add: block_erase_def block_device_erase_def CMD_SE_result flash_ready_def idle_def)
  have v: "(4096 * b + 256 * p + i) div 4096 = b" if "i < 256" for i using d(3) that by (intro div_nat_eqI) simp_all
  show "page_read b p (block_erase b d) = replicate 256 0xFF"
    unfolding page_read_eq [OF e d(2,3)] unfolding block_erase_eq [OF d(1,2)]
    using v by (intro nth_equalityI) simp_all
next
  fix d b b' p
  assume d: "flash_ready d" "b < (8192 :: nat)" "b' < (8192 :: nat)" "b' \<noteq> b" "p < (16 :: nat)"
  have e: "flash_ready (block_erase b d)" using d by (simp add: block_erase_def block_device_erase_def CMD_SE_result flash_ready_def idle_def)
  have v: "(4096 * b' + 256 * p + i) div 4096 = b'" if "i < 256" for i using d(5) that by (intro div_nat_eqI) simp_all
  show "page_read b' p (block_erase b d) = page_read b' p d"
    unfolding page_read_eq [OF e d(3,5)] page_read_eq [OF d(1,3,5)] unfolding block_erase_eq [OF d(1,2)] using d(4) v by simp
next
  fix d b p and x :: bytes
  assume d: "flash_ready d" "b < 8192" "p < (16 :: nat)" "length x = 256" "page_read b p d = replicate 256 0xFF"
  have "f_mem d (4096 * b + 256 * p + i) = 0xFF" if "i < 256" for i
    using arg_cong [OF d(5), of "\<lambda>l. l ! i"] that unfolding page_read_eq [OF d(1-3)] by simp
  then show "page_read b p (page_prog b p x d) = x"
    unfolding page_read_eq [OF page_prog_ready [OF d(1)] d(2,3)] unfolding page_prog_eq [OF d(1-4)] using d(4)
    by (intro nth_equalityI) (simp_all add: and_erased)
next
  fix d b b' p p' and x :: bytes
  assume d: "flash_ready d" "b < (8192 :: nat)" "b' < (8192 :: nat)" "p < (16 :: nat)" "p' < 16" "length x = 256" "b' \<noteq> b \<or> p' \<noteq> p"
  have "\<not> (4096 * b + 256 * p \<le> 4096 * b' + 256 * p' + i \<and> 4096 * b' + 256 * p' + i < 4096 * b + 256 * p + 256)" if "i < 256" for i
  proof
    assume "4096 * b + 256 * p \<le> 4096 * b' + 256 * p' + i \<and> 4096 * b' + 256 * p' + i < 4096 * b + 256 * p + 256"
    then have "256 * (16 * b + p) < 256 * (16 * b' + p' + 1)" "256 * (16 * b' + p') < 256 * (16 * b + p + 1)"
      using that unfolding distrib_left by linarith+
    then have "16 * b + p = 16 * b' + p'" unfolding mult_less_cancel1 by linarith
    moreover from this have "b = b'" using d(4,5) by linarith
    ultimately show False using d(7) by simp
  qed
  then show "page_read b' p' (page_prog b p x d) = page_read b' p' d"
    unfolding page_read_eq [OF page_prog_ready [OF d(1)] d(3,5)] page_read_eq [OF d(1,3,5)] unfolding page_prog_eq [OF d(1,2,4,6)] by (auto simp del: de_Morgan_conj)
qed

end
