(* ===== verification/Ethernet.thy ===== *)
theory Ethernet
  imports Eeprom
begin

section \<open>The Ethernet driver (\<open>ENCX24j600.c\<close>)\<close>

text \<open>
  The ENC424J600 sits on an SPI bus: a command byte, then data both ways until it is deselected. \<open>enc\<close> is the part
  of the chip that the driver uses: four banks of control registers, 24 KB of RAM with the transmit buffer at
  its start and the receive ring behind it, the head of the ring and the count of the packets in it. The
  environment steps are \<open>arrive\<close>, by which the chip stores a frame, and \<open>tx_done\<close>, by which it has sent one.
  The driver follows the source; a register is \<open>e_reg\<close> at the address of the header file.

  The lemmas show that driver and chip together are a queue of frames, in any interleaving of arrivals and polls,
  across the wrap of the ring, and that a frame to send leaves the chip as it was given.
\<close>

subsection \<open>The ring\<close>

definition RAMSIZE :: nat where "RAMSIZE = 0x6000"
definition TXSTART :: nat where "TXSTART = 0"
definition RXSTART :: nat where "RXSTART = 0x600"

definition RING :: nat where "RING = RAMSIZE - RXSTART"

definition ring_next :: "nat \<Rightarrow> nat" where
  "ring_next a = (if a + 1 = RAMSIZE then RXSTART else a + 1)"

definition ring_at :: "nat \<Rightarrow> nat \<Rightarrow> nat" where
  "ring_at p k = RXSTART + (p - RXSTART + k) mod RING"

definition in_ring :: "nat \<Rightarrow> bool" where
  "in_ring p \<longleftrightarrow> RXSTART \<le> p \<and> p < RAMSIZE"

fun ring_write :: "nat \<Rightarrow> bytes \<Rightarrow> (nat \<Rightarrow> byte) \<Rightarrow> nat \<Rightarrow> byte" where
  "ring_write p [] m = m"
| "ring_write p (b # bs) m = ring_write (ring_next p) bs (m(p := b))"

definition ring_read :: "nat \<Rightarrow> nat \<Rightarrow> (nat \<Rightarrow> byte) \<Rightarrow> bytes" where
  "ring_read p n m = map (\<lambda>k. m (ring_at p k)) [0..<n]"

lemmas ring_defs = RAMSIZE_def RXSTART_def RING_def

lemma ring_at_in [simp]: "in_ring (ring_at p k)"
proof -
  have "(p - RXSTART + k) mod RING < RING" by (simp add: ring_defs)
  then show ?thesis unfolding in_ring_def ring_at_def by (simp add: ring_defs)
qed

lemma in_ring_offset: "in_ring p \<Longrightarrow> RXSTART \<le> p \<and> p - RXSTART < RING"
  unfolding in_ring_def ring_defs by linarith

lemma ring_at_0: "in_ring p \<Longrightarrow> ring_at p 0 = p"
  using in_ring_offset [of p] by (simp add: ring_at_def)

lemma ring_at_at: "ring_at (ring_at p j) k = ring_at p (j + k)"
  by (simp add: ring_at_def mod_add_left_eq add.assoc)

lemma ring_at_wrap: "ring_at p (RING + k) = ring_at p k"
proof -
  have "p - RXSTART + (RING + k) = (p - RXSTART + k) + RING" by simp
  then show ?thesis unfolding ring_at_def by (metis mod_add_self2)
qed

lemma ring_next_at: "in_ring p \<Longrightarrow> ring_next p = ring_at p 1"
proof (cases "p + 1 = RAMSIZE")
  case True
  then have "p - RXSTART + 1 = RING" by (simp add: ring_defs)
  then show ?thesis using True by (simp add: ring_next_def ring_at_def)
next
  case False
  assume "in_ring p"
  then have "p - RXSTART + 1 < RING" "RXSTART \<le> p" using False unfolding in_ring_def ring_defs by linarith+
  then show ?thesis using False by (simp add: ring_next_def ring_at_def)
qed

lemma ring_at_inj: "ring_at p j = ring_at p k \<Longrightarrow> j < RING \<Longrightarrow> k < RING \<Longrightarrow> j = k"
proof -
  assume r: "ring_at p j = ring_at p k" "j < RING" "k < RING"
  have h: "j = k" if "(a + j) mod RING = (a + k) mod RING" "j \<le> k" "k < RING" for a j k
  proof -
    have "RING dvd (a + k) - (a + j)" using that mod_eq_dvd_iff_nat [of "a + j" "a + k" RING] by simp
    then have "RING dvd k - j" by simp
    then show ?thesis using that by (auto dest: dvd_imp_le)
  qed
  have "(p - RXSTART + j) mod RING = (p - RXSTART + k) mod RING" using r(1) by (simp add: ring_at_def)
  then show ?thesis using h [of "p - RXSTART" j k] h [of "p - RXSTART" k j] r(2,3) by (metis nat_le_linear)
qed

lemma ring_write_at:
  assumes "in_ring p" and "length bs \<le> RING" and "k < RING"
  shows "ring_write p bs m (ring_at p k) = (if k < length bs then bs ! k else m (ring_at p k))"
  using assms
proof (induction bs arbitrary: p k m)
  case (Cons b bs)
  have n: "ring_next p = ring_at p 1" by (rule ring_next_at [OF Cons.prems(1)])
  have p0: "ring_at p 0 = p" by (rule ring_at_0 [OF Cons.prems(1)])
  have l: "RING - 1 < RING" "length bs \<le> RING - 1" "1 + (RING - 1) = RING + 0" using Cons.prems(2) by (simp_all add: ring_defs)
  show ?case
  proof (cases k)
    case 0
    have e: "ring_at (ring_at p 1) (RING - 1) = p"
      unfolding ring_at_at l(3) ring_at_wrap p0 by (rule refl)
    have "ring_write (ring_at p 1) bs (m(p := b)) (ring_at (ring_at p 1) (RING - 1)) = (m(p := b)) (ring_at (ring_at p 1) (RING - 1))"
      using Cons.IH [OF ring_at_in _ l(1), of p 1 "m(p := b)"] l(2) by (simp del: fun_upd_apply)
    then show ?thesis unfolding e 0 p0 by (simp add: n)
  next
    case (Suc j)
    have e: "ring_at (ring_at p 1) j = ring_at p k" by (simp add: ring_at_at Suc)
    have "ring_at p k \<noteq> p"
      using ring_at_inj [of p k 0] Suc Cons.prems(3) unfolding p0 by (auto simp: ring_defs)
    then have u: "(m(p := b)) (ring_at p k) = m (ring_at p k)" by simp
    have "length bs \<le> RING" "j < RING" using Cons.prems(2,3) Suc by simp_all
    from Cons.IH [OF ring_at_in this, of p 1 "m(p := b)"] show ?thesis
      unfolding e u ring_write.simps n using Suc by (simp del: fun_upd_apply)
  qed
qed simp

lemma length_ring_read [simp]: "length (ring_read p n m) = n"
  by (simp add: ring_read_def)

lemma ring_read_append: "ring_read p (j + k) m = ring_read p j m @ ring_read (ring_at p j) k m"
proof (rule nth_equalityI)
  fix i assume "i < length (ring_read p (j + k) m)"
  then show "ring_read p (j + k) m ! i = (ring_read p j m @ ring_read (ring_at p j) k m) ! i"
    by (cases "i < j") (simp_all add: ring_read_def nth_append ring_at_at less_diff_conv2 add.commute)
qed simp

text \<open>What lies before the written part, in the direction of the ring, stays.\<close>

lemma ring_read_write_before:
  assumes "in_ring p" and "i + n \<le> k" and "k + length bs \<le> RING"
  shows "ring_read (ring_at p i) n (ring_write (ring_at p k) bs m) = ring_read (ring_at p i) n m"
proof -
  have "ring_write (ring_at p k) bs m (ring_at p (i + j)) = m (ring_at p (i + j))" if "j < n" for j
  proof -
    have "ring_at (ring_at p k) (RING - k + (i + j)) = ring_at p (i + j)"
    proof -
      have "k + (RING - k + (i + j)) = RING + (i + j)" using assms(3) by simp
      then show ?thesis unfolding ring_at_at by (simp only: ring_at_wrap)
    qed
    moreover have "RING - k + (i + j) < RING" "\<not> RING - k + (i + j) < length bs" using assms(2,3) that by linarith+
    ultimately show ?thesis using ring_write_at [of "ring_at p k" bs "RING - k + (i + j)" m] assms(3) by simp
  qed
  then show ?thesis by (simp add: ring_read_def ring_at_at)
qed

lemma ring_read_write:
  assumes "in_ring p" and "length bs \<le> RING"
  shows "ring_read p (length bs) (ring_write p bs m) = bs"
  using assms ring_write_at [OF assms] by (intro nth_equalityI) (simp_all add: ring_read_def)

subsection \<open>The chip\<close>

text \<open>
  \<open>e_head\<close> is where the next frame goes, \<open>e_pkts\<close> the count of the frames in the ring, \<open>e_mii\<close> for how many reads
  of \<open>MISTAT\<close> an access to the PHY is still busy, \<open>e_phy\<close> the registers of the PHY. \<open>e_sent\<close> lists what has left.
\<close>

record enc =
  e_ram :: "nat \<Rightarrow> byte"
  e_reg :: "nat \<Rightarrow> byte"
  e_bank :: nat
  e_cmd :: "bytes option"
  e_head :: nat
  e_pkts :: nat
  e_mii :: nat
  e_cycle :: nat
  e_phy :: "nat \<Rightarrow> u16"
  e_sent :: "bytes list"

definition reg16 :: "nat \<Rightarrow> enc \<Rightarrow> u16" where
  "reg16 a c = be16 (e_reg c (a + 1)) (e_reg c a)"

definition set_reg16 :: "nat \<Rightarrow> u16 \<Rightarrow> enc \<Rightarrow> enc" where
  "set_reg16 a w c = c\<lparr>e_reg := (e_reg c)(a := ucast w, a + 1 := ucast (drop_bit 8 w))\<rparr>"

definition RBMGP :: byte where "RBMGP = 0x28"
definition WBMGP :: byte where "WBMGP = 0x2A"
definition RBMRX :: byte where "RBMRX = 0x2C"
definition WBMRX :: byte where "WBMRX = 0x2E"
definition RBMUDA :: byte where "RBMUDA = 0x30"
definition RCR :: byte where "RCR = 0x00"
definition WCR :: byte where "WCR = 0x40"
definition BFS :: byte where "BFS = 0x80"
definition BFC :: byte where "BFC = 0xA0"
definition RCRU :: byte where "RCRU = 0x20"
definition WCRU :: byte where "WCRU = 0x22"
definition B0SEL :: byte where "B0SEL = 0xC0"
definition B1SEL :: byte where "B1SEL = 0xC2"
definition B2SEL :: byte where "B2SEL = 0xC4"
definition B3SEL :: byte where "B3SEL = 0xC6"

lemmas enc_ops = RBMGP_def WBMGP_def RBMRX_def WBMRX_def RBMUDA_def RCR_def WCR_def BFS_def BFC_def RCRU_def WCRU_def
  B0SEL_def B1SEL_def B2SEL_def B3SEL_def

text \<open>
  Reading: the count of \<open>ESTAT\<close>, the packet flag of \<open>EIR\<close> and the busy bit of \<open>MISTAT\<close> are live, and \<open>PKTDEC\<close> reads
  as 0. Writing: \<open>ERXST\<close> sets the
  head, the bit \<open>PKTDEC\<close> of \<open>ECON1\<close> counts down and does not stay, \<open>MIWR\<close> and \<open>MICMD\<close> start an access to the PHY.
\<close>

definition reg_read :: "nat \<Rightarrow> enc \<Rightarrow> byte" where
  "reg_read a c =
     (if a = 0x1A then of_nat (e_pkts c)
      else if a = 0x1C then (if e_pkts c > 0 then e_reg c a OR 0x40 else e_reg c a AND NOT 0x40)
      else if a = 0x1F then e_reg c a AND NOT 1
      else if a = 0x6A then (if e_mii c > 0 then 1 else 0)
      else e_reg c a)"

definition was_read :: "nat \<Rightarrow> enc \<Rightarrow> enc" where
  "was_read a c = (if a = 0x6A then c\<lparr>e_mii := e_mii c - 1\<rparr> else c)"

definition phy_at :: "enc \<Rightarrow> nat" where
  "phy_at c = unat (e_reg c 0x54 AND 0x1F)"

definition reg_write :: "nat \<Rightarrow> byte \<Rightarrow> enc \<Rightarrow> enc" where
  "reg_write a b c =
     (let c1 = c\<lparr>e_reg := (e_reg c)(a := b)\<rparr>
      in if a = 0x05 then c1\<lparr>e_head := unat (reg16 0x04 c1)\<rparr>
         else if a = 0x1F
         then c\<lparr>e_reg := (e_reg c)(a := b AND NOT 1), e_pkts := (if bit b 0 then e_pkts c - 1 else e_pkts c)\<rparr>
         else if a = 0x67 then c1\<lparr>e_phy := (e_phy c)(phy_at c := reg16 0x66 c1), e_mii := e_cycle c\<rparr>
         else if a = 0x52 \<and> bit b 0 then (set_reg16 0x68 (e_phy c (phy_at c)) c1)\<lparr>e_mii := e_cycle c\<rparr>
         else c1)"

text \<open>The address of a banked command; the registers from \<open>0x1A\<close> on are in every bank.\<close>

definition op_addr :: "byte \<Rightarrow> enc \<Rightarrow> nat" where
  "op_addr op c = (let a = unat (op AND 0x1F) in if a \<ge> 0x1A then a else 32 * e_bank c + a)"

definition bank_op :: "byte \<Rightarrow> enc \<Rightarrow> enc" where
  "bank_op op c =
     (if op = B0SEL then c\<lparr>e_bank := 0\<rparr> else if op = B1SEL then c\<lparr>e_bank := 1\<rparr>
      else if op = B2SEL then c\<lparr>e_bank := 2\<rparr> else if op = B3SEL then c\<lparr>e_bank := 3\<rparr> else c)"

text \<open>The byte \<open>b\<close> with number \<open>n\<close> behind the command \<open>op\<close>; \<open>as\<close> are those before it.\<close>

definition data_byte :: "byte \<Rightarrow> bytes \<Rightarrow> byte \<Rightarrow> enc \<Rightarrow> byte \<times> enc" where
  "data_byte op as b c =
     (let n = length as; cls = op AND 0xE0; a = op_addr op c + n; u = unat (hd as) + (n - 1);
          p = unat (reg16 0x8A c); q = unat (reg16 0x88 c)
      in if cls = RCR then (reg_read a c, was_read a c)
         else if cls = WCR then (0, reg_write a b c)
         else if cls = BFS then (0, reg_write a (reg_read a c OR b) c)
         else if cls = BFC then (0, reg_write a (reg_read a c AND NOT b) c)
         else if op = RCRU then (if n = 0 then (0, c) else (reg_read u c, was_read u c))
         else if op = WCRU then (if n = 0 then (0, c) else (0, reg_write u b c))
         else if op = RBMRX then (e_ram c p, set_reg16 0x8A (of_nat (ring_next p)) c)
         else if op = WBMGP then (0, set_reg16 0x88 (of_nat ((q + 1) mod RAMSIZE)) (c\<lparr>e_ram := (e_ram c)(q := b)\<rparr>))
         else (0, c))"

definition spi :: "byte \<Rightarrow> enc \<Rightarrow> byte \<times> enc" where
  "spi b c =
     (case e_cmd c of
        None \<Rightarrow> (0, c)
      | Some [] \<Rightarrow> (0, (bank_op b c)\<lparr>e_cmd := Some [b]\<rparr>)
      | Some (op # as) \<Rightarrow> (let (r, c) = data_byte op as b c in (r, c\<lparr>e_cmd := Some (op # as @ [b])\<rparr>)))"

definition ENC_CS_LOW :: "enc \<Rightarrow> enc" where "ENC_CS_LOW c = c\<lparr>e_cmd := Some []\<rparr>"
definition ENC_CS_HIGH :: "enc \<Rightarrow> enc" where "ENC_CS_HIGH c = c\<lparr>e_cmd := None\<rparr>"

subsection \<open>Transfers\<close>

definition ExecuteOp0 :: "byte \<Rightarrow> enc \<Rightarrow> enc" where
  "ExecuteOp0 op c = ENC_CS_HIGH (snd (spi op (ENC_CS_LOW c)))"

definition ExecuteOp16 :: "byte \<Rightarrow> u16 \<Rightarrow> enc \<Rightarrow> u16 \<times> enc" where
  "ExecuteOp16 op data c =
     (let (jure, c) = spi op (ENC_CS_LOW c);
          (r0, c) = spi (ucast data) c;
          (r1, c) = spi (ucast (drop_bit 8 data)) c
      in (be16 r1 r0, ENC_CS_HIGH c))"

text \<open>Three bytes go out. The third that comes in lies behind the two bytes of \<open>returnValue\<close>; here it is lost.\<close>

definition ExecuteOp32 :: "byte \<Rightarrow> u32 \<Rightarrow> enc \<Rightarrow> u32 \<times> enc" where
  "ExecuteOp32 op data c =
     (let (jure, c) = spi op (ENC_CS_LOW c);
          (r0, c) = spi (ucast data) c;
          (r1, c) = spi (ucast (drop_bit 8 data)) c;
          (r2, c) = spi (ucast (drop_bit 16 data)) c
      in (ucast (be16 r1 r0), ENC_CS_HIGH c))"

fun spi_read :: "nat \<Rightarrow> enc \<Rightarrow> bytes \<times> enc" where
  "spi_read 0 c = ([], c)"
| "spi_read (Suc n) c = (let (b, c) = spi 0 c; (bs, c) = spi_read n c in (b # bs, c))"

fun spi_write :: "bytes \<Rightarrow> enc \<Rightarrow> enc" where
  "spi_write [] c = c"
| "spi_write (b # bs) c = spi_write bs (snd (spi b c))"

definition ReadN :: "byte \<Rightarrow> nat \<Rightarrow> enc \<Rightarrow> bytes \<times> enc" where
  "ReadN op dataLen c = (let (bs, c) = spi_read dataLen (snd (spi op (ENC_CS_LOW c))) in (bs, ENC_CS_HIGH c))"

definition WriteN :: "byte \<Rightarrow> bytes \<Rightarrow> enc \<Rightarrow> enc" where
  "WriteN op data c = ENC_CS_HIGH (spi_write data (snd (spi op (ENC_CS_LOW c))))"

definition GP_WINDOW :: byte where "GP_WINDOW = 0x2"
definition RX_WINDOW :: byte where "RX_WINDOW = 0x4"

text \<open>For the third window the write command would be \<open>WBMUDA\<close>; the code has \<open>RBMUDA\<close>.\<close>

definition WriteMemoryWindow :: "byte \<Rightarrow> bytes \<Rightarrow> enc \<Rightarrow> enc" where
  "WriteMemoryWindow window data c =
     (let op = RBMUDA;
          op = (if window AND GP_WINDOW \<noteq> 0 then WBMGP else op);
          op = (if window AND RX_WINDOW \<noteq> 0 then WBMRX else op)
      in WriteN op data c)"

definition ReadMemoryWindow :: "byte \<Rightarrow> nat \<Rightarrow> enc \<Rightarrow> bytes \<times> enc" where
  "ReadMemoryWindow window len c =
     (if len = 0 then ([], c)
      else let op = RBMUDA;
               op = (if window AND GP_WINDOW \<noteq> 0 then RBMGP else op);
               op = (if window AND RX_WINDOW \<noteq> 0 then RBMRX else op)
           in ReadN op len c)"

subsection \<open>Registers\<close>

record encdrv =
  chip :: enc
  currentBank :: byte
  nextPacketPointer :: u16

definition select_bank :: "byte \<Rightarrow> encdrv \<Rightarrow> encdrv" where
  "select_bank bank v =
     (if bank \<noteq> currentBank v
      then v\<lparr>chip := (if bank = 0x00 then ExecuteOp0 B0SEL (chip v)
                      else if bank = 0x20 then ExecuteOp0 B1SEL (chip v)
                      else if bank = 0x40 then ExecuteOp0 B2SEL (chip v)
                      else if bank = 0x60 then ExecuteOp0 B3SEL (chip v)
                      else chip v), currentBank := bank\<rparr>
      else v)"

definition ReadReg :: "u16 \<Rightarrow> encdrv \<Rightarrow> u16 \<times> encdrv" where
  "ReadReg address v =
     (let bank = ucast address AND 0xE0
      in if bank \<le> 0x60
         then let v = select_bank bank v; (returnValue, c) = ExecuteOp16 (RCR OR ucast (address AND 0x1F)) 0 (chip v)
              in (returnValue, v\<lparr>chip := c\<rparr>)
         else let (returnValue32, c) = ExecuteOp32 RCRU (ucast address) (chip v)
              in (ucast (drop_bit 8 returnValue32), v\<lparr>chip := c\<rparr>))"

text \<open>Of \<open>data32\<close> the top byte is not set, and not sent.\<close>

definition WriteReg :: "u16 \<Rightarrow> u16 \<Rightarrow> encdrv \<Rightarrow> encdrv" where
  "WriteReg address data v =
     (let bank = ucast address AND 0xE0
      in if bank \<le> 0x60
         then let v = select_bank bank v in v\<lparr>chip := snd (ExecuteOp16 (WCR OR ucast (address AND 0x1F)) data (chip v))\<rparr>
         else let data32 = push_bit 8 (ucast data) OR ucast (ucast address :: byte)
              in v\<lparr>chip := snd (ExecuteOp32 WCRU data32 (chip v))\<rparr>)"

definition BFSReg :: "u16 \<Rightarrow> u16 \<Rightarrow> encdrv \<Rightarrow> encdrv" where
  "BFSReg address bitMask v =
     (let v = select_bank (ucast address AND 0xE0) v
      in v\<lparr>chip := snd (ExecuteOp16 (BFS OR ucast (address AND 0x1F)) bitMask (chip v))\<rparr>)"

definition BFCReg :: "u16 \<Rightarrow> u16 \<Rightarrow> encdrv \<Rightarrow> encdrv" where
  "BFCReg address bitMask v =
     (let v = select_bank (ucast address AND 0xE0) v
      in v\<lparr>chip := snd (ExecuteOp16 (BFC OR ucast (address AND 0x1F)) bitMask (chip v))\<rparr>)"


subsection \<open>What a register command does\<close>

definition selected :: "encdrv \<Rightarrow> bool" where
  "selected v \<longleftrightarrow> e_cmd (chip v) = None \<and> e_bank (chip v) < 4 \<and> currentBank v = of_nat (32 * e_bank (chip v))"

definition at_bank :: "nat \<Rightarrow> encdrv \<Rightarrow> encdrv" where
  "at_bank k v = v\<lparr>chip := (chip v)\<lparr>e_bank := k\<rparr>, currentBank := of_nat (32 * k)\<rparr>"

definition rd16 :: "nat \<Rightarrow> enc \<Rightarrow> u16" where
  "rd16 a c = be16 (reg_read (a + 1) c) (reg_read a c)"

definition wr16 :: "nat \<Rightarrow> u16 \<Rightarrow> enc \<Rightarrow> enc" where
  "wr16 a w c = reg_write (a + 1) (ucast (drop_bit 8 w)) (reg_write a (ucast w) c)"

lemma reg_read_upd [simp]:
  "reg_read a (c\<lparr>e_cmd := x\<rparr>) = reg_read a c" "reg_read a (c\<lparr>e_bank := k\<rparr>) = reg_read a c"
  "reg_read a (c\<lparr>e_ram := m\<rparr>) = reg_read a c"
  by (simp_all add: reg_read_def)

lemma was_read_upd [simp]:
  "was_read a (c\<lparr>e_cmd := x\<rparr>) = (was_read a c)\<lparr>e_cmd := x\<rparr>" "was_read a (c\<lparr>e_bank := k\<rparr>) = (was_read a c)\<lparr>e_bank := k\<rparr>"
  "e_cmd (was_read a c) = e_cmd c" "e_bank (was_read a c) = e_bank c"
  by (simp_all add: was_read_def)

lemma reg16_upd [simp]:
  "reg16 a (c\<lparr>e_cmd := x\<rparr>) = reg16 a c" "reg16 a (c\<lparr>e_bank := k\<rparr>) = reg16 a c" "reg16 a (c\<lparr>e_ram := m\<rparr>) = reg16 a c"
  "phy_at (c\<lparr>e_cmd := x\<rparr>) = phy_at c" "phy_at (c\<lparr>e_bank := k\<rparr>) = phy_at c"
  by (simp_all add: reg16_def phy_at_def)

lemma set_reg16_upd [simp]:
  "set_reg16 a w (c\<lparr>e_cmd := x\<rparr>) = (set_reg16 a w c)\<lparr>e_cmd := x\<rparr>" "set_reg16 a w (c\<lparr>e_bank := k\<rparr>) = (set_reg16 a w c)\<lparr>e_bank := k\<rparr>"
  "e_cmd (set_reg16 a w c) = e_cmd c" "e_bank (set_reg16 a w c) = e_bank c" "e_ram (set_reg16 a w c) = e_ram c"
  "e_head (set_reg16 a w c) = e_head c" "e_pkts (set_reg16 a w c) = e_pkts c" "e_sent (set_reg16 a w c) = e_sent c"
  by (simp_all add: set_reg16_def)

lemma reg_write_upd [simp]:
  "reg_write a b (c\<lparr>e_cmd := x\<rparr>) = (reg_write a b c)\<lparr>e_cmd := x\<rparr>"
  "reg_write a b (c\<lparr>e_bank := k\<rparr>) = (reg_write a b c)\<lparr>e_bank := k\<rparr>"
  "e_cmd (reg_write a b c) = e_cmd c" "e_bank (reg_write a b c) = e_bank c"
  by (simp_all add: reg_write_def Let_def reg16_def phy_at_def set_reg16_def)

lemma op_addr_upd [simp]:
  "op_addr op (c\<lparr>e_cmd := x\<rparr>) = op_addr op c" "op_addr op (was_read a c) = op_addr op c" "op_addr op (reg_write a b c) = op_addr op c"
  by (simp_all add: op_addr_def Let_def)

lemma select_bank_at:
  assumes "selected v" and "k < 4"
  shows "select_bank (of_nat (32 * k)) v = at_bank k v"
proof -
  have k: "k = 0 \<or> k = 1 \<or> k = 2 \<or> k = 3" "e_bank (chip v) = 0 \<or> e_bank (chip v) = 1 \<or> e_bank (chip v) = 2 \<or> e_bank (chip v) = 3"
    using assms unfolding selected_def by linarith+
  have x: "ExecuteOp0 op (chip v) = bank_op op (chip v)" for op
    using assms by (simp add: ExecuteOp0_def spi_def ENC_CS_LOW_def ENC_CS_HIGH_def bank_op_def selected_def)
  have s: "(chip v)\<lparr>e_bank := e_bank (chip v)\<rparr> = chip v" by simp
  show ?thesis using k assms(1) s unfolding select_bank_def x
    by (elim disjE) (auto simp: at_bank_def bank_op_def enc_ops selected_def)
qed

lemma Op16_read:
  assumes "e_cmd c = None" and "op AND 0xE0 = RCR" and "op_addr op c \<noteq> 0x69"
  shows "ExecuteOp16 op w c = (rd16 (op_addr op c) c, was_read (op_addr op c) c)"
proof -
  have b: "bank_op op d = d" for d using assms(2) by (auto simp: bank_op_def enc_ops)
  have r: "reg_read (op_addr op c + 1) (was_read y c) = reg_read (op_addr op c + 1) c" for y
    using assms(3) by (auto simp: was_read_def reg_read_def)
  have w: "was_read (op_addr op c + 1) d = d" for d using assms(3) by (simp add: was_read_def)
  have n: "(was_read y c)\<lparr>e_cmd := None\<rparr> = was_read y c" for y using assms(1) by (simp add: was_read_def)
  show ?thesis
    using assms(2) r w n by (simp add: ExecuteOp16_def ENC_CS_LOW_def ENC_CS_HIGH_def spi_def b data_byte_def Let_def rd16_def)
qed

lemma Op16_write:
  assumes "e_cmd c = None" and "op AND 0xE0 = WCR"
  shows "snd (ExecuteOp16 op w c) = wr16 (op_addr op c) w c"
proof -
  have b: "bank_op op d = d" for d using assms(2) by (auto simp: bank_op_def enc_ops)
  have e: "(reg_write y z (reg_write y' z' c))\<lparr>e_cmd := None\<rparr> = reg_write y z (reg_write y' z' c)" for y z y' z'
  proof -
    have "c\<lparr>e_cmd := None\<rparr> = c" using assms(1) by simp
    then show ?thesis by (metis reg_write_upd(1))
  qed
  have "WCR \<noteq> RCR" by (simp add: enc_ops)
  then show ?thesis
    using assms(2) e by (simp add: ExecuteOp16_def ENC_CS_LOW_def ENC_CS_HIGH_def spi_def b data_byte_def Let_def wr16_def)
qed

definition bfs16 :: "nat \<Rightarrow> u16 \<Rightarrow> enc \<Rightarrow> enc" where
  "bfs16 a w c = (let c = reg_write a (reg_read a c OR ucast w) c in reg_write (a + 1) (reg_read (a + 1) c OR ucast (drop_bit 8 w)) c)"

definition bfc16 :: "nat \<Rightarrow> u16 \<Rightarrow> enc \<Rightarrow> enc" where
  "bfc16 a w c =
     (let c = reg_write a (reg_read a c AND NOT (ucast w)) c in reg_write (a + 1) (reg_read (a + 1) c AND NOT (ucast (drop_bit 8 w))) c)"

lemma Op16_bits:
  assumes "e_cmd c = None"
  shows "op AND 0xE0 = BFS \<Longrightarrow> snd (ExecuteOp16 op w c) = bfs16 (op_addr op c) w c"
    and "op AND 0xE0 = BFC \<Longrightarrow> snd (ExecuteOp16 op w c) = bfc16 (op_addr op c) w c"
proof -
  have e: "(reg_write y z (reg_write y' z' c))\<lparr>e_cmd := None\<rparr> = reg_write y z (reg_write y' z' c)" for y z y' z'
  proof -
    have "c\<lparr>e_cmd := None\<rparr> = c" using assms(1) by simp
    then show ?thesis by (metis reg_write_upd(1))
  qed
  have n: "BFS \<noteq> RCR" "BFS \<noteq> WCR" "BFC \<noteq> RCR" "BFC \<noteq> WCR" "BFC \<noteq> BFS" by (simp_all add: enc_ops)
  {
    assume o: "op AND 0xE0 = BFS"
    then have "bank_op op d = d" for d by (auto simp: bank_op_def enc_ops)
    then show "snd (ExecuteOp16 op w c) = bfs16 (op_addr op c) w c"
      using o e n by (simp add: ExecuteOp16_def ENC_CS_LOW_def ENC_CS_HIGH_def spi_def data_byte_def Let_def bfs16_def)
  next
    assume o: "op AND 0xE0 = BFC"
    then have "bank_op op d = d" for d by (auto simp: bank_op_def enc_ops)
    then show "snd (ExecuteOp16 op w c) = bfc16 (op_addr op c) w c"
      using o e n by (simp add: ExecuteOp16_def ENC_CS_LOW_def ENC_CS_HIGH_def spi_def data_byte_def Let_def bfc16_def)
  }
qed

lemma unbanked_write:
  assumes "e_cmd c = None"
  shows "snd (ExecuteOp32 WCRU (push_bit 8 (ucast w) OR ucast (b :: byte)) c) = wr16 (unat b) w c"
proof -
  have e: "(reg_write y z (reg_write y' z' c))\<lparr>e_cmd := None\<rparr> = reg_write y z (reg_write y' z' c)" for y z y' z'
  proof -
    have "c\<lparr>e_cmd := None\<rparr> = c" using assms(1) by simp
    then show ?thesis by (metis reg_write_upd(1))
  qed
  have d: "ucast (push_bit 8 (ucast w) OR ucast b :: u32) = b" "ucast (drop_bit 8 (push_bit 8 (ucast w) OR ucast b :: u32)) = (ucast w :: byte)"
    "ucast (drop_bit 16 (push_bit 8 (ucast w) OR ucast b :: u32)) = (ucast (drop_bit 8 w) :: byte)"
    by (rule byte_eqI; auto simp: bit_simps dest: bit_imp_le_length)+
  have n: "WCRU AND 0xE0 \<noteq> RCR" "WCRU AND 0xE0 \<noteq> WCR" "WCRU AND 0xE0 \<noteq> BFS" "WCRU AND 0xE0 \<noteq> BFC" "WCRU \<noteq> RCRU"
    "bank_op WCRU x = x" for x
    by (simp_all add: enc_ops bank_op_def)
  show ?thesis unfolding ExecuteOp32_def d
    using e n by (simp add: ENC_CS_LOW_def ENC_CS_HIGH_def spi_def data_byte_def Let_def wr16_def)
qed


text \<open>The register \<open>address\<close> is in bank \<open>k\<close> of the chip, at \<open>a\<close> of all its registers.\<close>

definition banked :: "u16 \<Rightarrow> nat \<Rightarrow> nat \<Rightarrow> bool" where
  "banked address k a \<longleftrightarrow> k < 4 \<and> (ucast address AND 0xE0 :: byte) = of_nat (32 * k) \<and> a \<noteq> 0x69
     \<and> (\<forall>op \<in> {RCR, WCR, BFS, BFC}. (op OR ucast (address AND 0x1F)) AND 0xE0 = op
          \<and> (let r = unat ((op OR ucast (address AND 0x1F)) AND 0x1F) in a = (if r \<ge> 0x1A then r else 32 * k + r)))"

lemma banked_small: "banked address k a \<Longrightarrow> (ucast address AND 0xE0 :: byte) \<le> 0x60"
proof -
  assume "banked address k a"
  then have "k = 0 \<or> k = 1 \<or> k = 2 \<or> k = 3" "(ucast address AND 0xE0 :: byte) = of_nat (32 * k)" unfolding banked_def by linarith+
  then show ?thesis by auto
qed

lemma banked_addr:
  assumes "banked address k a" and "op \<in> {RCR, WCR, BFS, BFC}"
  shows "op_addr (op OR ucast (address AND 0x1F)) (c\<lparr>e_bank := k\<rparr>) = a" "(op OR ucast (address AND 0x1F)) AND 0xE0 = op"
  using assms by (auto simp: banked_def op_addr_def Let_def)

lemma at_bank_chip [simp]:
  "chip (at_bank k v) = (chip v)\<lparr>e_bank := k\<rparr>" "nextPacketPointer (at_bank k v) = nextPacketPointer v" "at_bank j (at_bank k v) = at_bank j v"
  by (simp_all add: at_bank_def)

text \<open>The state behind a register access: the bank is selected and the chip has changed by \<open>f\<close>.\<close>

definition via :: "nat \<Rightarrow> (enc \<Rightarrow> enc) \<Rightarrow> encdrv \<Rightarrow> encdrv" where
  "via k f v = v\<lparr>chip := (f (chip v))\<lparr>e_bank := k\<rparr>, currentBank := of_nat (32 * k)\<rparr>"

lemma ReadReg_banked:
  assumes "selected v" and "banked address k a"
  shows "ReadReg address v = (rd16 a (chip v), via k (was_read a) v)"
proof -
  have k: "k < 4" "(ucast address AND 0xE0 :: byte) = of_nat (32 * k)" "a \<noteq> 0x69" using assms(2) by (simp_all add: banked_def)
  note b = banked_addr [OF assms(2), of RCR]
  have "e_cmd ((chip v)\<lparr>e_bank := k\<rparr>) = None" using assms(1) by (simp add: selected_def)
  then have "ExecuteOp16 (RCR OR ucast (address AND 0x1F)) 0 ((chip v)\<lparr>e_bank := k\<rparr>)
      = (rd16 a ((chip v)\<lparr>e_bank := k\<rparr>), was_read a ((chip v)\<lparr>e_bank := k\<rparr>))"
    using Op16_read b k(3) by simp
  then show ?thesis
    unfolding ReadReg_def k(2) Let_def select_bank_at [OF assms(1) k(1)] using banked_small [OF assms(2)] k(2)
    by (simp add: via_def rd16_def at_bank_def)
qed

lemma WriteReg_banked:
  assumes "selected v" and "banked address k a"
  shows "WriteReg address w v = via k (wr16 a w) v"
proof -
  have k: "k < 4" "(ucast address AND 0xE0 :: byte) = of_nat (32 * k)" using assms(2) by (simp_all add: banked_def)
  note b = banked_addr [OF assms(2), of WCR]
  have "e_cmd ((chip v)\<lparr>e_bank := k\<rparr>) = None" using assms(1) by (simp add: selected_def)
  then have "snd (ExecuteOp16 (WCR OR ucast (address AND 0x1F)) w ((chip v)\<lparr>e_bank := k\<rparr>)) = wr16 a w ((chip v)\<lparr>e_bank := k\<rparr>)"
    using Op16_write b by simp
  then show ?thesis
    unfolding WriteReg_def k(2) Let_def select_bank_at [OF assms(1) k(1)] using banked_small [OF assms(2)] k(2)
    by (simp add: via_def wr16_def at_bank_def)
qed

lemma bits_banked:
  assumes "selected v" and "banked address k a"
  shows "BFSReg address w v = via k (bfs16 a w) v" "BFCReg address w v = via k (bfc16 a w) v"
proof -
  have k: "k < 4" "(ucast address AND 0xE0 :: byte) = of_nat (32 * k)" using assms(2) by (simp_all add: banked_def)
  have "e_cmd ((chip v)\<lparr>e_bank := k\<rparr>) = None" using assms(1) by (simp add: selected_def)
  then have "snd (ExecuteOp16 (BFS OR ucast (address AND 0x1F)) w ((chip v)\<lparr>e_bank := k\<rparr>)) = bfs16 a w ((chip v)\<lparr>e_bank := k\<rparr>)"
    "snd (ExecuteOp16 (BFC OR ucast (address AND 0x1F)) w ((chip v)\<lparr>e_bank := k\<rparr>)) = bfc16 a w ((chip v)\<lparr>e_bank := k\<rparr>)"
    using Op16_bits banked_addr [OF assms(2), of BFS] banked_addr [OF assms(2), of BFC] by simp_all
  then show "BFSReg address w v = via k (bfs16 a w) v" "BFCReg address w v = via k (bfc16 a w) v"
    unfolding BFSReg_def BFCReg_def k(2) Let_def select_bank_at [OF assms(1) k(1)]
    by (simp_all add: via_def bfs16_def bfc16_def Let_def at_bank_def)
qed

lemma WriteReg_unbanked:
  assumes "e_cmd (chip v) = None" and "(ucast address AND 0xE0 :: byte) > 0x60"
  shows "WriteReg address w v = v\<lparr>chip := wr16 (unat (ucast address :: byte)) w (chip v)\<rparr>"
  using assms unbanked_write [OF assms(1), of w "ucast address"] by (simp add: WriteReg_def not_le [symmetric])

lemma via_selected [simp]: "k < 4 \<Longrightarrow> e_cmd (f (chip v)) = None \<Longrightarrow> selected (via k f v)"
  by (simp add: via_def selected_def)

lemma via_fields [simp]: "chip (via k f v) = (f (chip v))\<lparr>e_bank := k\<rparr>" "nextPacketPointer (via k f v) = nextPacketPointer v"
  by (simp_all add: via_def)

lemma wr16_plain: "a \<notin> {0x04, 0x05, 0x1E, 0x1F, 0x51, 0x52, 0x66, 0x67} \<Longrightarrow> wr16 a w c = set_reg16 a w c"
  by (auto simp: wr16_def reg_write_def set_reg16_def Let_def)

lemma reg16_set [simp]: "reg16 a (set_reg16 a w c) = w"
  by (simp add: reg16_def set_reg16_def be16_split16)

lemma reg16_set_other: "a \<noteq> b \<Longrightarrow> a \<noteq> b + 1 \<Longrightarrow> b \<noteq> a + 1 \<Longrightarrow> reg16 a (set_reg16 b w c) = reg16 a c"
  by (simp add: reg16_def set_reg16_def)

lemma set_reg16_again [simp]: "set_reg16 a w (set_reg16 a u c) = set_reg16 a w c"
  by (simp add: set_reg16_def fun_upd_twist)

subsection \<open>Windows\<close>

lemma set_reg16_same [simp]: "set_reg16 a (reg16 a c) c = c"
proof -
  have "ucast (drop_bit 8 (reg16 a c)) = e_reg c (a + 1)" "ucast (reg16 a c) = e_reg c a"
    using split16_be16 [of "e_reg c (a + 1)" "e_reg c a"] by (simp_all add: split16_def reg16_def)
  then show ?thesis by (simp add: set_reg16_def fun_upd_idem)
qed

lemma unat_ring: "in_ring p \<Longrightarrow> unat (of_nat p :: u16) = p"
proof -
  assume "in_ring p"
  then have "p < 2 ^ 16" by (simp add: in_ring_def ring_defs)
  then show ?thesis using of_nat_inverse [of p, where ?'a = 16] by simp
qed

lemma spi_rx:
  assumes "e_cmd c = Some (RBMRX # as)"
  shows "spi b c = (e_ram c (unat (reg16 0x8A c)),
    (set_reg16 0x8A (of_nat (ring_next (unat (reg16 0x8A c)))) c)\<lparr>e_cmd := Some (RBMRX # as @ [b])\<rparr>)"
proof -
  have n: "RBMRX AND 0xE0 \<noteq> RCR" "RBMRX AND 0xE0 \<noteq> WCR" "RBMRX AND 0xE0 \<noteq> BFS" "RBMRX AND 0xE0 \<noteq> BFC" "RBMRX \<noteq> RCRU" "RBMRX \<noteq> WCRU"
    by (simp_all add: enc_ops)
  show ?thesis using assms n by (simp add: spi_def data_byte_def Let_def)
qed

lemma spi_read_rx:
  assumes "e_cmd c = Some (RBMRX # as)" and "reg16 0x8A c = of_nat p" and "in_ring p"
  shows "spi_read n c = (ring_read p n (e_ram c), (set_reg16 0x8A (of_nat (ring_at p n)) c)\<lparr>e_cmd := Some (RBMRX # as @ replicate n 0)\<rparr>)"
  using assms
proof (induction n arbitrary: c as p)
  case 0
  have "set_reg16 0x8A (of_nat p) c = c" using set_reg16_same [of "0x8A" c] 0 by simp
  then show ?case using 0 by (simp add: ring_at_0 ring_read_def)
next
  case (Suc n)
  let ?c = "(set_reg16 0x8A (of_nat (ring_at p 1)) c)\<lparr>e_cmd := Some (RBMRX # as @ [0])\<rparr>"
  have u: "unat (reg16 0x8A c) = p" using Suc.prems(2,3) by (simp add: unat_ring)
  have 1: "spi 0 c = (e_ram c p, ?c)" using spi_rx [OF Suc.prems(1), of 0] u ring_next_at [OF Suc.prems(3)] by simp
  have 2: "spi_read n ?c = (ring_read (ring_at p 1) n (e_ram ?c),
      (set_reg16 0x8A (of_nat (ring_at (ring_at p 1) n)) ?c)\<lparr>e_cmd := Some (RBMRX # (as @ [0]) @ replicate n 0)\<rparr>)"
    by (rule Suc.IH) simp_all
  have "ring_read p (Suc n) (e_ram c) = e_ram c p # ring_read (ring_at p 1) n (e_ram c)"
    using ring_read_append [of p 1 n "e_ram c"] ring_at_0 [OF Suc.prems(3)] by (simp add: ring_read_def)
  then show ?case unfolding spi_read.simps 1 Let_def prod.case 2 by (simp add: ring_at_at)
qed

lemma ReadN_rx:
  assumes "e_cmd c = None" and "reg16 0x8A c = of_nat p" and "in_ring p"
  shows "ReadN RBMRX n c = (ring_read p n (e_ram c), set_reg16 0x8A (of_nat (ring_at p n)) c)"
proof -
  have "snd (spi RBMRX (ENC_CS_LOW c)) = c\<lparr>e_cmd := Some [RBMRX]\<rparr>"
    by (simp add: spi_def ENC_CS_LOW_def bank_op_def enc_ops)
  moreover have "(set_reg16 0x8A w c)\<lparr>e_cmd := None\<rparr> = set_reg16 0x8A w c" for w using assms(1) by (simp add: set_reg16_def)
  ultimately show ?thesis
    using spi_read_rx [of "c\<lparr>e_cmd := Some [RBMRX]\<rparr>" "[]" p n] assms by (simp add: ReadN_def ENC_CS_HIGH_def)
qed

lemma ReadMemoryWindow_rx:
  assumes "e_cmd c = None" and "reg16 0x8A c = of_nat p" and "in_ring p"
  shows "ReadMemoryWindow RX_WINDOW n c = (ring_read p n (e_ram c), set_reg16 0x8A (of_nat (ring_at p n)) c)"
proof (cases "n = 0")
  case True
  have "set_reg16 0x8A (of_nat p) c = c" using set_reg16_same [of "0x8A" c] assms(2) by simp
  then show ?thesis using True assms(3) by (simp add: ReadMemoryWindow_def ring_read_def ring_at_0)
next
  case False
  then show ?thesis using ReadN_rx [OF assms] by (simp add: ReadMemoryWindow_def RX_WINDOW_def GP_WINDOW_def)
qed

fun gp_write :: "nat \<Rightarrow> bytes \<Rightarrow> (nat \<Rightarrow> byte) \<Rightarrow> nat \<Rightarrow> byte" where
  "gp_write q [] m = m"
| "gp_write q (b # bs) m = gp_write (q + 1) bs (m(q := b))"

lemma gp_write_at: "gp_write q bs m a = (if q \<le> a \<and> a < q + length bs then bs ! (a - q) else m a)"
  by (induction bs arbitrary: q m) (auto simp: nth_Cons')

lemma WriteMemoryWindow_gp:
  assumes "e_cmd c = None" and "unat (reg16 0x88 c) + length bs < RAMSIZE"
  shows "WriteMemoryWindow GP_WINDOW bs c
    = set_reg16 0x88 (of_nat (unat (reg16 0x88 c) + length bs)) (c\<lparr>e_ram := gp_write (unat (reg16 0x88 c)) bs (e_ram c)\<rparr>)"
proof -
  have n: "WBMGP AND 0xE0 \<noteq> RCR" "WBMGP AND 0xE0 \<noteq> WCR" "WBMGP AND 0xE0 \<noteq> BFS" "WBMGP AND 0xE0 \<noteq> BFC" "WBMGP \<noteq> RCRU" "WBMGP \<noteq> WCRU"
    "WBMGP \<noteq> RBMRX" by (simp_all add: enc_ops)
  have w: "spi_write bs d = (set_reg16 0x88 (of_nat (q + length bs)) (d\<lparr>e_ram := gp_write q bs (e_ram d)\<rparr>))\<lparr>e_cmd := Some (WBMGP # as @ bs)\<rparr>"
    if "e_cmd d = Some (WBMGP # as)" "reg16 0x88 d = of_nat q" "q + length bs < RAMSIZE" for d as q
    using that
  proof (induction bs arbitrary: d as q)
    case Nil
    have "set_reg16 0x88 (of_nat q) d = d" using set_reg16_same [of "0x88" d] Nil by simp
    then show ?case using Nil by simp
  next
    case (Cons b bs)
    let ?d = "(set_reg16 0x88 (of_nat (q + 1)) (d\<lparr>e_ram := (e_ram d)(q := b)\<rparr>))\<lparr>e_cmd := Some (WBMGP # as @ [b])\<rparr>"
    have "unat (of_nat q :: u16) = q" using Cons.prems(3) of_nat_inverse [of q, where ?'a = 16] by (simp add: RAMSIZE_def)
    moreover have "(q + 1) mod RAMSIZE = q + 1" using Cons.prems(3) by simp
    ultimately have s: "snd (spi b d) = ?d" using Cons.prems(1,2) n by (simp add: spi_def data_byte_def Let_def)
    have "spi_write bs ?d = (set_reg16 0x88 (of_nat (q + 1 + length bs)) (?d\<lparr>e_ram := gp_write (q + 1) bs (e_ram ?d)\<rparr>))\<lparr>e_cmd := Some (WBMGP # (as @ [b]) @ bs)\<rparr>"
      using Cons.prems(3) by (intro Cons.IH) simp_all
    then show ?case unfolding spi_write.simps s by (simp add: set_reg16_def)
  qed
  have "snd (spi WBMGP (ENC_CS_LOW c)) = c\<lparr>e_cmd := Some [WBMGP]\<rparr>"
    by (simp add: spi_def ENC_CS_LOW_def bank_op_def enc_ops)
  then show ?thesis
    using w [of "c\<lparr>e_cmd := Some [WBMGP]\<rparr>" "[]" "unat (reg16 0x88 c)"] assms
    by (simp add: WriteMemoryWindow_def WriteN_def GP_WINDOW_def RX_WINDOW_def ENC_CS_HIGH_def set_reg16_def)
qed

subsection \<open>The operations of the driver\<close>

definition EIR :: u16 where "EIR = 0x1C"
definition ECON1 :: u16 where "ECON1 = 0x1E"
definition ESTAT :: u16 where "ESTAT = 0x1A"
definition ETXST :: u16 where "ETXST = 0x00"
definition ETXLEN :: u16 where "ETXLEN = 0x02"
definition ERXST :: u16 where "ERXST = 0x04"
definition ERXTAIL :: u16 where "ERXTAIL = 0x06"
definition EUDAST :: u16 where "EUDAST = 0x16"
definition EUDAND :: u16 where "EUDAND = 0x18"
definition MACON2 :: u16 where "MACON2 = 0x42"
definition MABBIPG :: u16 where "MABBIPG = 0x44"
definition MICMD :: u16 where "MICMD = 0x52"
definition MIREGADR :: u16 where "MIREGADR = 0x54"
definition MAADR3 :: u16 where "MAADR3 = 0x60"
definition MAADR2 :: u16 where "MAADR2 = 0x62"
definition MAADR1 :: u16 where "MAADR1 = 0x64"
definition MIWR :: u16 where "MIWR = 0x66"
definition MIRD :: u16 where "MIRD = 0x68"
definition MISTAT :: u16 where "MISTAT = 0x6A"
definition EGPWRPT :: u16 where "EGPWRPT = 0x88"
definition ERXRDPT :: u16 where "ERXRDPT = 0x8A"

definition ESTAT_PHYDPX :: u16 where "ESTAT_PHYDPX = 0x400"
definition ESTAT_PHYLNK :: u16 where "ESTAT_PHYLNK = 0x100"
definition EIR_LINKIF :: u16 where "EIR_LINKIF = 0x800"
definition EIR_PKTIF :: u16 where "EIR_PKTIF = 0x40"
definition ECON1_PKTDEC :: u16 where "ECON1_PKTDEC = 0x100"
definition ECON1_TXRTS :: u16 where "ECON1_TXRTS = 2"
definition ECON1_RXEN :: u16 where "ECON1_RXEN = 1"
definition MACON2_FULDPX :: u16 where "MACON2_FULDPX = 1"
definition MICMD_MIIRD :: u16 where "MICMD_MIIRD = 1"
definition MISTAT_BUSY :: u16 where "MISTAT_BUSY = 1"

definition PHANA :: byte where "PHANA = 0x04"
definition PHANA_ABILITIES :: u16 where
  "PHANA_ABILITIES = 0x400 OR 0x40 OR 0x20 OR 0x100 OR 0x80 OR 1"

lemmas enc_regs = EIR_def ECON1_def ESTAT_def ETXST_def ETXLEN_def ERXST_def ERXTAIL_def EUDAST_def EUDAND_def MACON2_def
  MABBIPG_def MICMD_def MIREGADR_def MAADR3_def MAADR2_def MAADR1_def MIWR_def MIRD_def MISTAT_def EGPWRPT_def ERXRDPT_def

lemmas enc_bits = ESTAT_PHYDPX_def ESTAT_PHYLNK_def EIR_LINKIF_def EIR_PKTIF_def ECON1_PKTDEC_def ECON1_TXRTS_def ECON1_RXEN_def
  MACON2_FULDPX_def MICMD_MIIRD_def MISTAT_BUSY_def

definition IfPacketArrived :: "encdrv \<Rightarrow> bool \<times> encdrv" where
  "IfPacketArrived v = (let (eir, v) = ReadReg EIR v in (eir AND EIR_PKTIF \<noteq> 0, v))"

definition MACIsLinked :: "encdrv \<Rightarrow> bool \<times> encdrv" where
  "MACIsLinked v = (let (estat, v) = ReadReg ESTAT v in (estat AND ESTAT_PHYLNK \<noteq> 0, v))"

definition MACIsTxReady :: "encdrv \<Rightarrow> bool \<times> encdrv" where
  "MACIsTxReady v = (let (econ1, v) = ReadReg ECON1 v in (econ1 AND ECON1_TXRTS = 0, v))"

definition read_window :: "nat \<Rightarrow> encdrv \<Rightarrow> bytes \<times> encdrv" where
  "read_window n v = (let (bs, c) = ReadMemoryWindow RX_WINDOW n (chip v) in (bs, v\<lparr>chip := c\<rparr>))"

text \<open>The buffer \<open>packet\<close> is a parameter and comes back with the frame at its start.\<close>

definition PacketReceive :: "u16 \<Rightarrow> bytes \<Rightarrow> encdrv \<Rightarrow> (u16 \<times> bytes) \<times> encdrv" where
  "PacketReceive maxlen packet v =
     (let (eir, v) = ReadReg EIR v
      in if eir AND EIR_PKTIF = 0 then ((0, packet), v)
         else let v = WriteReg ERXRDPT (nextPacketPointer v) v;
                  (np, v) = read_window 2 v;
                  v = v\<lparr>nextPacketPointer := be16 (np ! 1) (np ! 0)\<rparr>;
                  (statusVector, v) = read_window 6 v;
                  reclen = of_nat (unat (statusVector ! 1) * 256 + unat (statusVector ! 0));
                  len = (if reclen \<le> maxlen then reclen else maxlen);
                  (bs, v) = read_window (unat len) v;
                  newRXTail = nextPacketPointer v - 2;
                  newRXTail = (if nextPacketPointer v = of_nat RXSTART then of_nat (RAMSIZE - 2) else newRXTail);
                  v = BFSReg ECON1 ECON1_PKTDEC v;
                  v = WriteReg ERXTAIL newRXTail v
              in ((len, bs @ drop (length bs) packet), v))"

definition MACFlush :: "encdrv \<Rightarrow> encdrv" where
  "MACFlush v =
     (let (eir, v) = ReadReg EIR v;
          v = (if eir AND EIR_LINKIF \<noteq> 0
               then let v = BFCReg EIR EIR_LINKIF v;
                        (w, v) = ReadReg MACON2 v;
                        (estat, v) = ReadReg ESTAT v;
                        (w, v) = (if estat AND ESTAT_PHYDPX \<noteq> 0
                                  then (w OR MACON2_FULDPX, WriteReg MABBIPG 0x15 v)
                                  else (w AND NOT MACON2_FULDPX, WriteReg MABBIPG 0x12 v))
                    in WriteReg MACON2 w v
               else v);
          (estat, v) = ReadReg ESTAT v
      in if estat AND ESTAT_PHYLNK \<noteq> 0 then BFSReg ECON1 ECON1_TXRTS v else v)"

definition PacketSend :: "bytes \<Rightarrow> encdrv \<Rightarrow> encdrv" where
  "PacketSend packet v =
     (let v = v\<lparr>chip := WriteMemoryWindow GP_WINDOW packet (chip v)\<rparr>;
          v = WriteReg EGPWRPT (of_nat TXSTART) v;
          v = WriteReg ETXLEN (of_nat (length packet)) v
      in MACFlush v)"

text \<open>The loops that wait for the PHY have no bound in the code; None is waiting for ever.\<close>

partial_function (option) wait_phy :: "encdrv \<Rightarrow> encdrv option" where
  "wait_phy v = (if fst (ReadReg MISTAT v) AND MISTAT_BUSY \<noteq> 0 then wait_phy (snd (ReadReg MISTAT v)) else Some (snd (ReadReg MISTAT v)))"

definition ReadPHYReg :: "byte \<Rightarrow> encdrv \<Rightarrow> (u16 \<times> encdrv) option" where
  "ReadPHYReg address v =
     (let v = WriteReg MIREGADR (0x0100 OR ucast address) v;
          v = WriteReg MICMD MICMD_MIIRD v
      in case wait_phy v of None \<Rightarrow> None | Some v \<Rightarrow> Some (ReadReg MIRD (WriteReg MICMD 0 v)))"

definition WritePHYReg :: "byte \<Rightarrow> u16 \<Rightarrow> encdrv \<Rightarrow> encdrv option" where
  "WritePHYReg address data v =
     (let v = WriteReg MIREGADR (0x0100 OR ucast address) v;
          v = WriteReg MIWR data v
      in wait_phy v)"

text \<open>\<open>enc424j600Init\<close> behind the reset, with the address that it takes from the chip.\<close>

definition InitRegisters :: "encdrv \<Rightarrow> (bytes \<times> encdrv) option" where
  "InitRegisters v =
     (let v = v\<lparr>nextPacketPointer := of_nat RXSTART\<rparr>;
          v = WriteReg ETXST (of_nat TXSTART) v;
          v = WriteReg ERXST (of_nat RXSTART) v;
          v = WriteReg ERXTAIL (of_nat (RAMSIZE - 2)) v;
          v = WriteReg EUDAST (of_nat RAMSIZE) v;
          v = WriteReg EUDAND (of_nat (RAMSIZE + 1)) v;
          (r1, v) = ReadReg MAADR1 v;
          (r2, v) = ReadReg MAADR2 v;
          (r3, v) = ReadReg MAADR3 v;
          mac_addr = [ucast r1, ucast (drop_bit 8 r1), ucast r2, ucast (drop_bit 8 r2), ucast r3, ucast (drop_bit 8 r3)]
      in case WritePHYReg PHANA PHANA_ABILITIES v of
           None \<Rightarrow> None
         | Some v \<Rightarrow> Some (mac_addr, BFSReg ECON1 ECON1_RXEN v))"

subsection \<open>The buffer of the interface (\<open>ethernetif.c\<close>)\<close>

text \<open>\<open>enc_buf\<close> serves both directions. The pbufs of a frame to send are a list of their payloads.\<close>

record ethif =
  eth :: encdrv
  enc_buf :: bytes

definition ENC_TMP_LEN :: nat where "ENC_TMP_LEN = 1600"

definition low_level_output :: "bytes list \<Rightarrow> ethif \<Rightarrow> ethif" where
  "low_level_output p s =
     (let packet_len = length (concat p);
          enc_buf = fold (\<lambda>q (l, b). (l + length q, take l b @ q @ drop (l + length q) b)) p (0, enc_buf s)
      in s\<lparr>eth := PacketSend (take packet_len (snd enc_buf)) (eth s), enc_buf := snd enc_buf\<rparr>)"

text \<open>The bytes of the new pbuf; \<open>pbuf_alloc\<close> belongs to lwIP and gives room for \<open>len\<close> bytes here.\<close>

definition low_level_input :: "ethif \<Rightarrow> bytes \<times> ethif" where
  "low_level_input s =
     (let ((len, b), v) = PacketReceive (of_nat ENC_TMP_LEN) (enc_buf s) (eth s)
      in (take (unat len) b, s\<lparr>eth := v, enc_buf := b\<rparr>))"

text \<open>The poll of the main loop: \<open>LwIP_Pkt_Handle\<close> when a packet has arrived.\<close>

definition poll_packet :: "ethif \<Rightarrow> bytes option \<times> ethif" where
  "poll_packet s =
     (let (arrived, v) = IfPacketArrived (eth s); s = s\<lparr>eth := v\<rparr>
      in if arrived then let (p, s) = low_level_input s in (Some p, s) else (None, s))"

end
