(* ===== verification/Packets.thy ===== *)
theory Packets
  imports Ethernet
begin

section \<open>Frames through the Ethernet driver\<close>

text \<open>
  What happens between the driver and the wire. \<open>arrive\<close> is the chip storing a frame that has passed its filters: a
  pointer to the next one, the length, four bytes of status, the frame. \<open>tx_done\<close> is the end of a transmission and
  \<open>phy_event\<close> a change of the link. The locale \<open>frame_queue\<close> states what the main loop relies on: an arrival
  adds to the end of what is queued, a poll takes from its front, and whatever else happens leaves it alone; its
  lemma is that nothing is lost, doubled or reordered. It is interpreted on the driver with the chip.
\<close>

subsection \<open>The wire\<close>

definition rec_len :: "bytes \<Rightarrow> nat" where
  "rec_len f = (length f + 9) div 2 * 2"

definition le_bytes :: "nat \<Rightarrow> bytes" where
  "le_bytes n = [of_nat (n mod 256), of_nat (n div 256)]"

lemma length_le_bytes [simp]: "length (le_bytes n) = 2"
  by (simp add: le_bytes_def)

lemma le_bytes_values: "n < 2 ^ 16 \<Longrightarrow> unat (le_bytes n ! 1) = n div 256 \<and> unat (le_bytes n ! 0) = n mod 256"
  by (simp add: le_bytes_def unsigned_of_nat take_bit_eq_mod)

lemma be16_le_bytes: "n < 2 ^ 16 \<Longrightarrow> be16 (le_bytes n ! 1) (le_bytes n ! 0) = of_nat n"
proof -
  assume "n < 2 ^ 16"
  then have "ucast (le_bytes n ! 1) = (of_nat (n div 256) :: u16)" "ucast (le_bytes n ! 0) = (of_nat (n mod 256) :: u16)"
    by (simp_all add: le_bytes_def unsigned_of_nat take_bit_eq_mod)
  then have "be16 (le_bytes n ! 1) (le_bytes n ! 0) = of_nat (256 * (n div 256) + n mod 256)"
    by (simp only: be16_def push_bit_eq_mult of_nat_add of_nat_mult) simp
  then show ?thesis by simp
qed

definition room :: "enc \<Rightarrow> nat" where
  "room c = (unat (reg16 0x06 c) + RING - e_head c) mod RING"

definition receiving :: "enc \<Rightarrow> bool" where
  "receiving c \<longleftrightarrow> bit (e_reg c 0x1E) 0"

definition frame_ok :: "bytes \<Rightarrow> bool" where
  "frame_ok f \<longleftrightarrow> 64 \<le> length f \<and> length f \<le> 1518"

definition accepts :: "bytes \<times> bytes \<Rightarrow> enc \<Rightarrow> bool" where
  "accepts = (\<lambda>(st, f) c. receiving c \<and> e_pkts c < 255 \<and> length st = 4 \<and> frame_ok f \<and> rec_len f \<le> room c)"

definition arrive :: "bytes \<times> bytes \<Rightarrow> enc \<Rightarrow> enc" where
  "arrive = (\<lambda>(st, f) c.
     if accepts (st, f) c
     then let next = ring_at (e_head c) (rec_len f)
          in c\<lparr>e_ram := ring_write (e_head c) (le_bytes next @ le_bytes (length f) @ st @ f) (e_ram c), e_head := next,
               e_pkts := e_pkts c + 1\<rparr>
     else c)"

definition tx_done :: "enc \<Rightarrow> enc" where
  "tx_done c =
     (if bit (e_reg c 0x1E) 1
      then let a = unat (reg16 0x00 c)
           in c\<lparr>e_sent := e_sent c @ [map (e_ram c) [a ..< a + unat (reg16 0x02 c)]], e_reg := (e_reg c)(0x1E := e_reg c 0x1E AND NOT 2)\<rparr>
      else c)"

definition phy_event :: "bool \<Rightarrow> bool \<Rightarrow> enc \<Rightarrow> enc" where
  "phy_event linked full c =
     c\<lparr>e_reg := (e_reg c)(0x1B := (if linked then 1 else 0) OR (if full then 4 else 0), 0x1D := e_reg c 0x1D OR 8)\<rparr>"

subsection \<open>Queues of frames\<close>

datatype ('x, 'o) wire_event = Arrival 'x | Poll | Other 'o

text \<open>A run gives the frames that were accepted, those that were received, both in their order, and the last state.\<close>

fun wire_run :: "('x \<Rightarrow> 's \<Rightarrow> bool) \<Rightarrow> ('x \<Rightarrow> 's \<Rightarrow> 's) \<Rightarrow> ('s \<Rightarrow> 'f option \<times> 's) \<Rightarrow> ('o \<Rightarrow> 's \<Rightarrow> 's) \<Rightarrow> ('x \<Rightarrow> 'f)
    \<Rightarrow> ('x, 'o) wire_event list \<Rightarrow> 's \<Rightarrow> 'f list \<times> 'f list \<times> 's" where
  "wire_run takes arr rcv oth fr [] s = ([], [], s)"
| "wire_run takes arr rcv oth fr (Arrival x # es) s =
     (let (acc, got, s') = wire_run takes arr rcv oth fr es (arr x s) in ((if takes x s then fr x # acc else acc), got, s'))"
| "wire_run takes arr rcv oth fr (Poll # es) s =
     (let (acc, got, s') = wire_run takes arr rcv oth fr es (snd (rcv s))
      in (acc, (case fst (rcv s) of None \<Rightarrow> got | Some f \<Rightarrow> f # got), s'))"
| "wire_run takes arr rcv oth fr (Other o1 # es) s = wire_run takes arr rcv oth fr es (oth o1 s)"

locale frame_queue =
  fixes inv :: "'f list \<Rightarrow> 's \<Rightarrow> bool"
    and takes :: "'x \<Rightarrow> 's \<Rightarrow> bool"
    and arr :: "'x \<Rightarrow> 's \<Rightarrow> 's"
    and rcv :: "'s \<Rightarrow> 'f option \<times> 's"
    and oth :: "'o \<Rightarrow> 's \<Rightarrow> 's"
    and fr :: "'x \<Rightarrow> 'f"
    and allowed :: "'o \<Rightarrow> bool"
  assumes arrives: "inv fs s \<Longrightarrow> inv (if takes x s then fs @ [fr x] else fs) (arr x s)"
    and poll_empty: "inv [] s \<Longrightarrow> fst (rcv s) = None \<and> inv [] (snd (rcv s))"
    and poll_front: "inv (f # fs) s \<Longrightarrow> fst (rcv s) = Some f \<and> inv fs (snd (rcv s))"
    and others: "inv fs s \<Longrightarrow> allowed o1 \<Longrightarrow> inv fs (oth o1 s)"
begin

lemma in_order:
  assumes "inv fs s" and "\<forall>o1. Other o1 \<in> set es \<longrightarrow> allowed o1"
    and "wire_run takes arr rcv oth fr es s = (acc, got, s')"
  shows "\<exists>rest. fs @ acc = got @ rest \<and> inv rest s'"
  using assms
proof (induction es arbitrary: fs s acc got s')
  case (Cons e es)
  show ?case
  proof (cases e)
    case (Arrival x)
    obtain a g t where r: "wire_run takes arr rcv oth fr es (arr x s) = (a, g, t)" by (rule prod_cases3)
    then show ?thesis
      using Cons.IH [OF arrives [OF Cons.prems(1)] _ r] Cons.prems(2,3) Arrival by (auto split: if_splits)
  next
    case Poll
    obtain a g t where r: "wire_run takes arr rcv oth fr es (snd (rcv s)) = (a, g, t)" by (rule prod_cases3)
    show ?thesis
    proof (cases fs)
      case Nil
      then have "fst (rcv s) = None" "inv [] (snd (rcv s))" using poll_empty Cons.prems(1) by blast+
      then show ?thesis using Cons.IH [OF _ _ r, of "[]"] Cons.prems(2,3) Poll r Nil by auto
    next
      case (Cons f gs)
      then show ?thesis using poll_front Cons.IH [OF _ _ r] Cons.prems Poll r by fastforce
    qed
  next
    case (Other o1)
    then have "inv fs (oth o1 s)" using others [OF Cons.prems(1)] Cons.prems(2) by simp
    then show ?thesis using Cons.IH [of fs "oth o1 s"] Cons.prems(2,3) Other by simp
  qed
qed simp

text \<open>As many polls as there are frames, and nothing is left.\<close>

lemma drained:
  assumes "inv fs s"
  shows "\<exists>s'. wire_run takes arr rcv oth fr (replicate (length fs) Poll) s = ([], fs, s') \<and> inv [] s'"
  using assms
proof (induction fs arbitrary: s)
  case (Cons f fs)
  note p = poll_front [OF Cons.prems]
  then obtain s' where "wire_run takes arr rcv oth fr (replicate (length fs) Poll) (snd (rcv s)) = ([], fs, s')" "inv [] s'"
    using Cons.IH by blast
  then show ?case using p by simp
qed simp

end

subsection \<open>The driver as a queue\<close>

primrec holds :: "nat \<Rightarrow> bytes list \<Rightarrow> (nat \<Rightarrow> byte) \<Rightarrow> bool" where
  "holds p [] m \<longleftrightarrow> True"
| "holds p (f # fs) m \<longleftrightarrow> ring_read p 4 m = le_bytes (ring_at p (rec_len f)) @ le_bytes (length f)
     \<and> ring_read (ring_at p 8) (length f) m = f \<and> holds (ring_at p (rec_len f)) fs m"

definition used :: "bytes list \<Rightarrow> nat" where
  "used fs = sum_list (map rec_len fs)"

definition queue_inv :: "bytes list \<Rightarrow> encdrv \<Rightarrow> bool" where
  "queue_inv fs v \<longleftrightarrow>
     (let p = unat (nextPacketPointer v); c = chip v
      in selected v \<and> in_ring p \<and> even p \<and> holds p fs (e_ram c) \<and> used fs \<le> RING - 2 \<and> e_head c = ring_at p (used fs)
         \<and> reg16 0x06 c = of_nat (ring_at p (RING - 2)) \<and> e_pkts c = length fs \<and> length fs \<le> 255 \<and> list_all frame_ok fs
         \<and> receiving c \<and> reg16 0x88 c = 0 \<and> reg16 0x00 c = 0)"

lemma rec_len_bounds: "length f + 8 \<le> rec_len f" "rec_len f \<le> length f + 9" "even (rec_len f)"
  by (simp_all add: rec_len_def)

lemma used_simps [simp]: "used [] = 0" "used (f # fs) = rec_len f + used fs" "used (fs @ gs) = used fs + used gs"
  by (simp_all add: used_def)

lemma holds_append: "holds p (fs @ gs) m \<longleftrightarrow> holds p fs m \<and> holds (ring_at p (used fs)) gs m" if "in_ring p"
  using that by (induction fs arbitrary: p) (simp_all add: ring_at_at ring_at_0)

lemma holds_write:
  assumes "in_ring p" and "i + used fs \<le> k" and "k + length bs \<le> RING"
  shows "holds (ring_at p i) fs (ring_write (ring_at p k) bs m) = holds (ring_at p i) fs m"
  using assms(2)
proof (induction fs arbitrary: i)
  case (Cons f fs)
  note b = rec_len_bounds [of f]
  have "ring_read (ring_at p i) 4 (ring_write (ring_at p k) bs m) = ring_read (ring_at p i) 4 m"
    "ring_read (ring_at p (i + 8)) (length f) (ring_write (ring_at p k) bs m) = ring_read (ring_at p (i + 8)) (length f) m"
    using Cons.prems b assms by (intro ring_read_write_before; simp)+
  then show ?case using Cons.IH [of "i + rec_len f"] Cons.prems by (simp add: ring_at_at)
qed simp

lemma holds_same:
  assumes "\<And>a. RXSTART \<le> a \<Longrightarrow> m a = m' a"
  shows "holds p fs m = holds p fs m'"
proof -
  have "ring_read q n m = ring_read q n m'" for q n using assms by (simp add: ring_read_def ring_at_def)
  then show ?thesis by (induction fs arbitrary: p) simp_all
qed

lemma even_ring_at: "even p \<Longrightarrow> in_ring p \<Longrightarrow> even (ring_at p k) = even k"
proof -
  assume e: "even p" "in_ring p"
  then have "even (p - RXSTART)" by (auto simp: in_ring_def ring_defs)
  then have "even ((p - RXSTART + k) mod RING) = even k" using dvd_mod_iff [of 2 RING "p - RXSTART + k"] by (simp add: ring_defs)
  then show ?thesis by (simp add: ring_at_def RXSTART_def)
qed


lemma enc_banks:
  "banked EIR 0 0x1C" "banked ECON1 0 0x1E" "banked ESTAT 0 0x1A" "banked ETXST 0 0x00" "banked ETXLEN 0 0x02" "banked ERXST 0 0x04"
  "banked ERXTAIL 0 0x06" "banked EUDAST 0 0x16" "banked EUDAND 0 0x18" "banked MACON2 2 0x42" "banked MABBIPG 2 0x44"
  "banked MICMD 2 0x52" "banked MIREGADR 2 0x54" "banked MAADR3 3 0x60" "banked MAADR2 3 0x62" "banked MAADR1 3 0x64"
  "banked MIWR 3 0x66" "banked MIRD 3 0x68" "banked MISTAT 3 0x6A"
  by (simp_all add: banked_def enc_regs enc_ops)

lemma in_ring_u16: "in_ring p \<Longrightarrow> p < 2 ^ 16"
  by (simp add: in_ring_def ring_defs)

lemma WriteReg_ERXRDPT: "e_cmd (chip v) = None \<Longrightarrow> WriteReg ERXRDPT w v = v\<lparr>chip := set_reg16 0x8A w (chip v)\<rparr>"
  by (simp add: WriteReg_unbanked ERXRDPT_def wr16_plain)

lemma read_window_rx:
  assumes "e_cmd (chip v) = None" and "reg16 0x8A (chip v) = of_nat p" and "in_ring p"
  shows "read_window n v = (ring_read p n (e_ram (chip v)), v\<lparr>chip := set_reg16 0x8A (of_nat (ring_at p n)) (chip v)\<rparr>)"
  using ReadMemoryWindow_rx [OF assms] by (simp add: read_window_def)

lemma was_read_plain [simp]: "a \<noteq> 0x6A \<Longrightarrow> was_read a c = c"
  by (simp add: was_read_def)

lemma bit_be16: "bit (be16 b1 b2) n \<longleftrightarrow> (if n < 8 then bit b2 n else n < 16 \<and> bit b1 (n - 8))"
proof -
  have "be16 b1 b2 = push_bit 8 (ucast b1) OR ucast b2" unfolding be16_def
    by (rule disjunctive_add_eq_or, rule bit_word_eqI) (auto simp: bit_simps dest: bit_imp_le_length)
  then show ?thesis by (auto simp: bit_simps dest: bit_imp_le_length)
qed

lemma pktif: "rd16 0x1C c AND EIR_PKTIF = 0 \<longleftrightarrow> e_pkts c = 0"
proof -
  have "bit (rd16 0x1C c) 6 \<longleftrightarrow> e_pkts c > 0"
    by (simp add: rd16_def bit_be16 reg_read_def bit_simps)
  moreover have "rd16 0x1C c AND EIR_PKTIF = 0 \<longleftrightarrow> \<not> bit (rd16 0x1C c) 6"
    using and_exp_eq_0_iff_not_bit [of "rd16 0x1C c" 6] by (simp add: EIR_PKTIF_def)
  ultimately show ?thesis by simp
qed

lemma IfPacketArrived_result:
  assumes "selected v"
  shows "IfPacketArrived v = (e_pkts (chip v) > 0, via 0 id v)"
  using ReadReg_banked [OF assms enc_banks(1)] pktif [of "chip v"]
  by (simp add: IfPacketArrived_def via_def)


lemma set_reg16_updates [simp]:
  "reg_read 0x1E (set_reg16 0x8A w c) = reg_read 0x1E c" "reg_read 0x1F (set_reg16 0x8A w c) = reg_read 0x1F c"
  by (simp_all add: set_reg16_def reg_read_def)

lemma bfs_pktdec:
  "bfs16 0x1E ECON1_PKTDEC c = c\<lparr>e_reg := (e_reg c)(0x1F := e_reg c 0x1F AND NOT 1), e_pkts := e_pkts c - 1\<rparr>"
proof -
  have "((e_reg c 0x1F AND NOT 1) OR 1) AND NOT 1 = e_reg c 0x1F AND NOT 1" by (rule byte_eqI) (auto simp: bit_simps)
  moreover have "ucast ECON1_PKTDEC = (0 :: byte)" unfolding ECON1_PKTDEC_def by transfer simp
  moreover have "ucast (drop_bit 8 ECON1_PKTDEC) = (1 :: byte)" by (simp add: ECON1_PKTDEC_def)
  ultimately show ?thesis
    by (simp add: bfs16_def Let_def reg_read_def reg_write_def bit_simps fun_upd_idem)
qed

lemma tail_behind:
  assumes "in_ring q" and "even q"
  shows "(if of_nat q = (of_nat RXSTART :: u16) then of_nat (RAMSIZE - 2) else of_nat q - 2) = (of_nat (ring_at q (RING - 2)) :: u16)"
proof (cases "q = RXSTART")
  case True
  then show ?thesis by (simp add: ring_at_def ring_defs)
next
  case False
  have q: "RXSTART + 2 \<le> q" "q < RAMSIZE" using assms False by (auto simp: in_ring_def ring_defs elim!: evenE)
  have "unat (of_nat q :: u16) = q" by (rule unat_ring [OF assms(1)])
  then have ne: "(of_nat q :: u16) \<noteq> of_nat RXSTART" using False by (auto simp: RXSTART_def)
  have "q - RXSTART + (RING - 2) = (q - RXSTART - 2) + RING" using q by (simp add: ring_defs)
  moreover have "q - RXSTART - 2 < RING" using q by (simp add: ring_defs)
  ultimately have "(q - RXSTART + (RING - 2)) mod RING = q - RXSTART - 2" by (metis mod_add_self2 mod_less)
  then have "ring_at q (RING - 2) = q - 2" using q unfolding ring_at_def by linarith
  then show ?thesis using ne q by (simp add: of_nat_diff RXSTART_def)
qed


text \<open>A poll of a queue with frames, step by step.\<close>

lemma PacketReceive_front:
  assumes i: "queue_inv (f # fs) v" and l: "length f \<le> unat maxlen"
  defines "p \<equiv> unat (nextPacketPointer v)"
  defines "q \<equiv> ring_at p (rec_len f)"
  shows "PacketReceive maxlen packet v =
    ((of_nat (length f), f @ drop (length f) packet),
     v\<lparr>chip := set_reg16 0x06 (of_nat (ring_at q (RING - 2)))
         (bfs16 0x1E ECON1_PKTDEC (set_reg16 0x8A (of_nat (ring_at p (8 + length f))) ((chip v)\<lparr>e_bank := 0\<rparr>))),
       currentBank := 0, nextPacketPointer := of_nat q\<rparr>)"
proof -
  define c where "c = (chip v)\<lparr>e_bank := 0\<rparr>"
  define w where "w x np = v\<lparr>chip := set_reg16 0x8A (of_nat (ring_at p x)) c, currentBank := 0, nextPacketPointer := np\<rparr>" for x np
  have inv: "selected v" "in_ring p" "even p" "holds p (f # fs) (e_ram c)" "e_pkts c = length (f # fs)" "frame_ok f"
    using i by (simp_all add: queue_inv_def Let_def p_def c_def)
  have h: "ring_read p 2 (e_ram c) = le_bytes q" "ring_read (ring_at p 2) 6 (e_ram c) = le_bytes (length f) @ ring_read (ring_at p 4) 4 (e_ram c)"
    "ring_read (ring_at p 8) (length f) (e_ram c) = f"
  proof -
    have "ring_read p 2 (e_ram c) @ ring_read (ring_at p 2) 2 (e_ram c) = le_bytes q @ le_bytes (length f)"
      using inv(4) ring_read_append [of p 2 2 "e_ram c"] by (simp add: q_def)
    then have "ring_read p 2 (e_ram c) = le_bytes q" "ring_read (ring_at p 2) 2 (e_ram c) = le_bytes (length f)"
      using append_eq_append_conv [of "ring_read p 2 (e_ram c)" "le_bytes q"] by simp_all
    then show "ring_read p 2 (e_ram c) = le_bytes q" "ring_read (ring_at p 2) 6 (e_ram c) = le_bytes (length f) @ ring_read (ring_at p 4) 4 (e_ram c)"
      using ring_read_append [of "ring_at p 2" 2 4 "e_ram c"] by (simp_all add: ring_at_at)
  qed (use inv(4) in simp)
  have cmd: "e_cmd c = None" using inv(1) by (simp add: selected_def c_def)
  have sel: "selected (w x np)" for x np using cmd by (simp add: selected_def w_def c_def)
  have q: "in_ring q" "even q" using inv(2,3) rec_len_bounds(3) by (simp_all add: q_def even_ring_at)
  have r: "read_window n (w x np) = (ring_read (ring_at p x) n (e_ram c), w (x + n) np)" for n x np
    using read_window_rx [of "w x np" "ring_at p x" n] cmd by (simp add: w_def ring_at_at)
  have r0: "read_window 2 (w 0 np) = (le_bytes q, w 2 np)"
    and r2: "read_window 6 (w 2 np) = (le_bytes (length f) @ ring_read (ring_at p 4) 4 (e_ram c), w 8 np)"
    and r8: "read_window (length f) (w 8 np) = (f, w (8 + length f) np)" for np
    using h inv(2) by (simp_all add: r ring_at_0 del: add_2_eq_Suc add_2_eq_Suc')
  have np: "be16 (le_bytes q ! 1) (le_bytes q ! 0) = of_nat q" by (rule be16_le_bytes [OF in_ring_u16 [OF q(1)]])
  have ln: "of_nat (unat ((le_bytes (length f) @ s) ! 1) * 256 + unat ((le_bytes (length f) @ s) ! 0)) = (of_nat (length f) :: u16)" for s
    using le_bytes_values [of "length f"] inv(6) by (simp add: nth_append frame_ok_def)
  have lu: "unat (of_nat (length f) :: u16) = length f"
    using inv(6) of_nat_inverse [of "length f", where ?'a = 16] by (simp add: frame_ok_def)
  then have le: "(of_nat (length f) :: u16) \<le> maxlen" using l by (simp add: word_le_nat_alt)
  have w0: "WriteReg ERXRDPT (nextPacketPointer (via 0 id v)) (via 0 id v) = w 0 (nextPacketPointer v)"
    using cmd inv(2) by (simp add: WriteReg_ERXRDPT via_def c_def w_def ring_at_0 p_def)
  have e: "ReadReg EIR v = (rd16 0x1C c, via 0 id v)" "rd16 0x1C c AND EIR_PKTIF \<noteq> 0"
    using ReadReg_banked [OF inv(1) enc_banks(1)] pktif [of c] inv(5) by (simp_all add: via_def c_def rd16_def)
  have nextw: "nextPacketPointer (w x np) = np" for x np by (simp add: w_def)
  have u: "w x np\<lparr>nextPacketPointer := np'\<rparr> = w x np'" for x np np' by (simp add: w_def)
  have f: "WriteReg ERXTAIL (of_nat (ring_at q (RING - 2))) (BFSReg ECON1 ECON1_PKTDEC (w (8 + length f) (of_nat q)))
    = v\<lparr>chip := set_reg16 0x06 (of_nat (ring_at q (RING - 2))) (bfs16 0x1E ECON1_PKTDEC (set_reg16 0x8A (of_nat (ring_at p (8 + length f))) c)),
         currentBank := 0, nextPacketPointer := of_nat q\<rparr>"
  proof -
    note b = bits_banked(1) [OF sel enc_banks(2), of ECON1_PKTDEC]
    have s: "selected (via 0 (bfs16 0x1E ECON1_PKTDEC) (w (8 + length f) (of_nat q)))"
      using cmd by (simp add: bfs_pktdec w_def)
    show ?thesis unfolding b WriteReg_banked [OF s enc_banks(7)]
      by (simp add: via_def w_def wr16_plain bfs_pktdec c_def set_reg16_def)
  qed
  show ?thesis unfolding PacketReceive_def e(1) Let_def prod.case if_not_P [OF e(2)] w0
      r0 u np r2 ln if_P [OF le] lu r8 nextw tail_behind [OF q] f by (simp add: c_def)
qed


lemma receive_keeps:
  assumes i: "queue_inv (f # fs) v" and l: "length f \<le> unat maxlen"
  shows "queue_inv fs (snd (PacketReceive maxlen packet v))"
proof -
  define p where "p = unat (nextPacketPointer v)"
  define q where "q = ring_at p (rec_len f)"
  have inv: "selected v" "in_ring p" "even p" "holds q fs (e_ram (chip v))" "e_pkts (chip v) = Suc (length fs)"
    "rec_len f + used fs \<le> RING - 2" "e_head (chip v) = ring_at p (rec_len f + used fs)" "length fs \<le> 255" "list_all frame_ok fs"
    "receiving (chip v)" "reg16 0x88 (chip v) = 0" "reg16 0x00 (chip v) = 0"
    using i by (simp_all add: queue_inv_def Let_def p_def q_def)
  have q: "in_ring q" "even q" using inv(2,3) rec_len_bounds(3) by (simp_all add: q_def even_ring_at)
  have u: "unat (of_nat q :: u16) = q" by (rule unat_ring [OF q(1)])
  show ?thesis
    unfolding PacketReceive_front [OF i l] snd_conv p_def [symmetric] q_def [symmetric]
    using inv q u
    by (simp add: queue_inv_def Let_def selected_def bfs_pktdec receiving_def reg16_def set_reg16_def q_def ring_at_at be16_split16)
qed

lemma receive_nothing:
  assumes "queue_inv [] v"
  shows "PacketReceive maxlen packet v = ((0, packet), via 0 id v)"
proof -
  have "selected v" "e_pkts (chip v) = 0" using assms by (simp_all add: queue_inv_def Let_def)
  then show ?thesis using ReadReg_banked [OF _ enc_banks(1)] pktif [of "chip v"]
    by (simp add: PacketReceive_def via_def)
qed

lemma queue_inv_bank: "queue_inv fs v \<Longrightarrow> k < 4 \<Longrightarrow> queue_inv fs (via k id v)"
  by (simp add: queue_inv_def Let_def via_def selected_def receiving_def)

lemma ring_distance: "u \<le> k \<Longrightarrow> k < RING \<Longrightarrow> (ring_at p k + RING - ring_at p u) mod RING = k - u"
proof -
  assume u: "u \<le> k" "k < RING"
  define y where "y = (p - RXSTART + u) mod RING"
  have y: "y < RING" by (simp add: y_def ring_defs)
  have p: "ring_at p u = RXSTART + y" by (simp add: ring_at_def y_def)
  have "ring_at p k = ring_at (ring_at p u) (k - u)" using u by (simp add: ring_at_at)
  then have k: "ring_at p k = RXSTART + (y + (k - u)) mod RING" unfolding p by (simp add: ring_at_def)
  show ?thesis
  proof (cases "y + (k - u) < RING")
    case True
    have "RXSTART + (y + (k - u)) + RING - (RXSTART + y) = (k - u) + RING" by simp
    then show ?thesis using True u unfolding k p by (metis mod_add_self2 mod_less less_imp_diff_less)
  next
    case False
    then have "(y + (k - u)) mod RING = y + (k - u) - RING" using y u by (simp add: mod_if)
    moreover have "RXSTART + (y + (k - u) - RING) + RING - (RXSTART + y) = k - u" using False by simp
    ultimately show ?thesis using u unfolding k p by simp
  qed
qed

lemma arrive_keeps:
  assumes i: "queue_inv fs v"
  shows "queue_inv (if accepts (st, f) (chip v) then fs @ [f] else fs) (v\<lparr>chip := arrive (st, f) (chip v)\<rparr>)"
proof (cases "accepts (st, f) (chip v)")
  case True
  define p where "p = unat (nextPacketPointer v)"
  define h where "h = ring_at p (used fs)"
  have inv: "selected v" "in_ring p" "even p" "holds p fs (e_ram (chip v))" "used fs \<le> RING - 2" "e_head (chip v) = h"
    "reg16 0x06 (chip v) = of_nat (ring_at p (RING - 2))" "e_pkts (chip v) = length fs"
    "list_all frame_ok fs" "receiving (chip v)" "reg16 0x88 (chip v) = 0" "reg16 0x00 (chip v) = 0"
    using i by (simp_all add: queue_inv_def Let_def p_def h_def)
  have a: "length fs < 255" "length st = 4" "frame_ok f" "rec_len f \<le> room (chip v)"
    using True inv(8) by (simp_all add: accepts_def)
  have "room (chip v) = RING - 2 - used fs"
    using ring_distance [of "used fs" "RING - 2" p] inv(5-7) by (simp add: room_def h_def unat_ring ring_defs)
  then have rm: "used fs + rec_len f \<le> RING - 2" using a(4) inv(5) by simp
  let ?bs = "le_bytes (ring_at h (rec_len f)) @ le_bytes (length f) @ st @ f"
  have len: "length ?bs \<le> rec_len f" "length ?bs \<le> RING" "used fs + length ?bs \<le> RING"
    using a(2) rec_len_bounds(1) [of f] rm by (simp_all add: RING_def)
  let ?m = "ring_write h ?bs (e_ram (chip v))"
  have old: "holds p fs ?m" using holds_write [OF inv(2), of 0 fs "used fs" ?bs "e_ram (chip v)"] inv(2,4) len(3) by (simp add: h_def ring_at_0)
  have new: "holds h [f] ?m"
  proof -
    have e: "4 + (4 + length f) = length ?bs" using a(2) by simp
    have "ring_read h (4 + (4 + length f)) ?m = ?bs" unfolding e using len(2) by (intro ring_read_write) (simp_all add: h_def)
    then have "ring_read h 4 ?m = le_bytes (ring_at h (rec_len f)) @ le_bytes (length f)
        \<and> ring_read (ring_at h 4) (4 + length f) ?m = st @ f"
      unfolding ring_read_append using append_eq_append_conv [of "ring_read h 4 ?m" "le_bytes (ring_at h (rec_len f)) @ le_bytes (length f)"] by simp
    moreover from this have "ring_read (ring_at h 8) (length f) ?m = f"
      unfolding ring_read_append using append_eq_append_conv [of "ring_read (ring_at h 4) 4 ?m" st] a(2) by (simp add: ring_at_at)
    ultimately show ?thesis by simp
  qed
  have "holds p (fs @ [f]) ?m" using old new inv(2) by (simp add: holds_append h_def)
  then show ?thesis using True inv a rm
    by (simp add: queue_inv_def Let_def arrive_def selected_def p_def [symmetric] receiving_def ring_at_at h_def reg16_def)
next
  case False
  then show ?thesis using i by (simp add: arrive_def)
qed


subsection \<open>Sending\<close>

definition link_full :: "enc \<Rightarrow> bool" where "link_full c \<longleftrightarrow> bit (e_reg c 0x1B) 2"
definition link_up :: "enc \<Rightarrow> bool" where "link_up c \<longleftrightarrow> bit (e_reg c 0x1B) 0"
definition link_changed :: "enc \<Rightarrow> bool" where "link_changed c \<longleftrightarrow> bit (e_reg c 0x1D) 3"

definition match_duplex :: "enc \<Rightarrow> enc" where
  "match_duplex c =
     (if link_changed c
      then set_reg16 0x42 (if link_full c then reg16 0x42 c OR MACON2_FULDPX else reg16 0x42 c AND NOT MACON2_FULDPX)
             (set_reg16 0x44 (if link_full c then 0x15 else 0x12) (bfc16 0x1C EIR_LINKIF c))
      else c)"

definition start_tx :: "enc \<Rightarrow> enc" where
  "start_tx c = (if link_up c then bfs16 0x1E ECON1_TXRTS c else c)"

lemma test_bit16: "w AND 2 ^ n = (0 :: u16) \<longleftrightarrow> \<not> bit w n" if "n < 16"
  using that by (rule_tac and_exp_eq_0_iff_not_bit)

lemma flag_tests:
  "rd16 0x1C c AND EIR_LINKIF = 0 \<longleftrightarrow> \<not> link_changed c" "rd16 0x1A c AND ESTAT_PHYDPX = 0 \<longleftrightarrow> \<not> link_full c"
  "rd16 0x1A c AND ESTAT_PHYLNK = 0 \<longleftrightarrow> \<not> link_up c"
  using test_bit16 [of 11 "rd16 0x1C c"] test_bit16 [of 10 "rd16 0x1A c"] test_bit16 [of 8 "rd16 0x1A c"]
  by (simp_all add: enc_bits link_changed_def link_full_def link_up_def rd16_def bit_be16 reg_read_def)

lemma bfc_linkif:
  "bfc16 0x1C EIR_LINKIF c = c\<lparr>e_reg := (e_reg c)(0x1C := reg_read 0x1C c, 0x1D := e_reg c 0x1D AND NOT 8)\<rparr>"
proof -
  have "ucast EIR_LINKIF = (0 :: byte)" unfolding EIR_LINKIF_def by transfer simp
  moreover have "ucast (drop_bit 8 EIR_LINKIF) = (8 :: byte)" by (simp add: EIR_LINKIF_def)
  ultimately show ?thesis by (simp add: bfc16_def Let_def reg_write_def) (simp add: reg_read_def)
qed

lemma bfs_txrts:
  "bfs16 0x1E ECON1_TXRTS c = c\<lparr>e_reg := (e_reg c)(0x1E := e_reg c 0x1E OR 2, 0x1F := e_reg c 0x1F AND NOT 1)\<rparr>"
proof -
  have "e_reg c 0x1F AND NOT 1 AND NOT 1 = e_reg c 0x1F AND NOT 1" by (simp add: and.assoc)
  then show ?thesis by (simp add: bfs16_def Let_def ECON1_TXRTS_def reg_read_def reg_write_def bit_simps)
qed

lemma rd16_macon [simp]: "rd16 0x42 c = reg16 0x42 c"
  by (simp add: rd16_def reg16_def reg_read_def)

definition drv_at :: "nat \<Rightarrow> enc \<Rightarrow> encdrv \<Rightarrow> encdrv" where
  "drv_at k c v = v\<lparr>chip := c\<lparr>e_bank := k\<rparr>, currentBank := of_nat (32 * k)\<rparr>"

lemma drv_at_ops:
  assumes "banked address k a" and "e_cmd c = None" and "j < 4"
  shows "a \<noteq> 0x6A \<Longrightarrow> ReadReg address (drv_at j c v) = (rd16 a c, drv_at k c v)"
    and "WriteReg address w (drv_at j c v) = drv_at k (wr16 a w c) v"
    and "BFSReg address w (drv_at j c v) = drv_at k (bfs16 a w c) v" "BFCReg address w (drv_at j c v) = drv_at k (bfc16 a w c) v"
proof -
  have s: "selected (drv_at j c v)" using assms(2,3) by (simp add: drv_at_def selected_def)
  show "a \<noteq> 0x6A \<Longrightarrow> ReadReg address (drv_at j c v) = (rd16 a c, drv_at k c v)"
    using ReadReg_banked [OF s assms(1)] by (simp add: drv_at_def via_def rd16_def)
  show "WriteReg address w (drv_at j c v) = drv_at k (wr16 a w c) v"
    using WriteReg_banked [OF s assms(1)] by (simp add: drv_at_def via_def wr16_def)
  show "BFSReg address w (drv_at j c v) = drv_at k (bfs16 a w c) v" "BFCReg address w (drv_at j c v) = drv_at k (bfc16 a w c) v"
    using bits_banked [OF s assms(1)] by (simp_all add: drv_at_def via_def bfs16_def bfc16_def Let_def)
qed

lemma MACFlush_effect:
  assumes "selected v"
  shows "MACFlush v = via 0 (\<lambda>c. start_tx (match_duplex c)) v"
proof -
  have c: "e_cmd (chip v) = None" "e_bank (chip v) < 4" and v: "v = drv_at (e_bank (chip v)) (chip v) v"
    using assms by (simp_all add: selected_def drv_at_def)
  have g: "MACFlush (drv_at j c v) = drv_at 0 (start_tx (match_duplex c)) v" if "e_cmd c = None" "j < 4" for c j
  proof -
    have b: "e_cmd (bfc16 0x1C EIR_LINKIF c) = None" using that by (simp add: bfc_linkif)
    have w: "wr16 0x44 x d = set_reg16 0x44 x d" "wr16 0x42 x d = set_reg16 0x42 x d" for x d by (simp_all add: wr16_plain)
    have k: "rd16 0x1A (bfc16 0x1C EIR_LINKIF c) = rd16 0x1A c" "reg16 0x42 (bfc16 0x1C EIR_LINKIF c) = reg16 0x42 c"
      "rd16 0x1A (set_reg16 0x42 x (set_reg16 0x44 y (bfc16 0x1C EIR_LINKIF c))) = rd16 0x1A c" for x y
      by (simp_all add: bfc_linkif rd16_def reg_read_def set_reg16_def reg16_def)
    have u: "link_up (match_duplex c) = link_up c" by (simp add: match_duplex_def link_up_def bfc_linkif set_reg16_def)
    show ?thesis
      unfolding MACFlush_def using that b
      by (simp add: drv_at_ops [OF enc_banks(1)] drv_at_ops [OF enc_banks(2)] drv_at_ops [OF enc_banks(3)] drv_at_ops [OF enc_banks(10)] drv_at_ops [OF enc_banks(11)]
          flag_tests w k start_tx_def u) (simp add: match_duplex_def)
  qed
  show ?thesis using g [OF c] v by (simp add: via_def drv_at_def)
qed


definition loaded :: "bytes \<Rightarrow> enc \<Rightarrow> enc" where
  "loaded packet c = set_reg16 0x02 (of_nat (length packet)) (set_reg16 0x88 0 (c\<lparr>e_ram := gp_write 0 packet (e_ram c)\<rparr>))"

lemma PacketSend_effect:
  assumes "selected v" and "reg16 0x88 (chip v) = 0" and "length packet \<le> RXSTART"
  shows "PacketSend packet v = via 0 (\<lambda>c. start_tx (match_duplex (loaded packet c))) v"
proof -
  have c: "e_cmd (chip v) = None" "e_bank (chip v) < 4" using assms(1) by (simp_all add: selected_def)
  have "unat (reg16 0x88 (chip v)) + length packet < RAMSIZE" using assms(2,3) by (simp add: ring_defs)
  from WriteMemoryWindow_gp [OF c(1) this]
  have w: "WriteReg EGPWRPT (of_nat TXSTART) (v\<lparr>chip := WriteMemoryWindow GP_WINDOW packet (chip v)\<rparr>)
      = v\<lparr>chip := set_reg16 0x88 0 ((chip v)\<lparr>e_ram := gp_write 0 packet (e_ram (chip v))\<rparr>)\<rparr>" (is "?l = ?v")
    using assms(2) c(1) by (simp add: WriteReg_unbanked EGPWRPT_def TXSTART_def wr16_plain)
  have s: "selected ?v" using assms(1) by (simp add: selected_def)
  have "selected (via 0 (wr16 0x02 (of_nat (length packet))) ?v)" using c(1) by (simp add: wr16_plain)
  from MACFlush_effect [OF this] show ?thesis
    unfolding PacketSend_def w Let_def WriteReg_banked [OF s enc_banks(5)]
    by (simp add: via_def loaded_def wr16_plain)
       (simp add: match_duplex_def start_tx_def bfc_linkif bfs_txrts link_changed_def link_full_def link_up_def set_reg16_def reg16_def reg_read_def)
qed

text \<open>What sending leaves as it was for the receiver.\<close>

lemma sending_state:
  fixes c :: enc
  assumes "length packet \<le> RXSTART"
  defines "d \<equiv> start_tx (match_duplex (loaded packet c))"
  shows "e_cmd d = e_cmd c" "e_head d = e_head c" "e_pkts d = e_pkts c" "e_sent d = e_sent c" "reg16 0x06 d = reg16 0x06 c" "reg16 0x88 d = 0"
    "reg16 0x00 d = reg16 0x00 c" "reg16 0x02 d = of_nat (length packet)" "receiving d = receiving c" "e_ram d = gp_write 0 packet (e_ram c)"
    "link_up d = link_up c" "bit (e_reg d 0x1E) 1 \<longleftrightarrow> link_up c \<or> bit (e_reg c 0x1E) 1"
  by (simp_all add: d_def start_tx_def match_duplex_def loaded_def bfc_linkif bfs_txrts be16_split16 [of 0, simplified] reg16_def set_reg16_def receiving_def link_up_def
      be16_split16 bit_simps split: if_splits)

lemma send_keeps:
  assumes i: "queue_inv fs v" and l: "length packet \<le> RXSTART"
  shows "queue_inv fs (PacketSend packet v)"
proof -
  have s: "selected v" "reg16 0x88 (chip v) = 0" using i by (simp_all add: queue_inv_def Let_def)
  have "holds q fs (gp_write 0 packet m) = holds q fs m" for q m using l by (intro holds_same) (simp add: gp_write_at)
  then show ?thesis
    using i sending_state [OF l, of "chip v"] unfolding PacketSend_effect [OF s l]
    by (simp add: queue_inv_def Let_def via_def selected_def receiving_def)
qed

lemma sent_frame:
  assumes i: "queue_inv fs v" and l: "length packet \<le> RXSTART" and u: "link_up (chip v)"
  shows "e_sent (tx_done (chip (PacketSend packet v))) = e_sent (chip v) @ [packet]"
proof -
  have s: "selected v" "reg16 0x88 (chip v) = 0" "reg16 0x00 (chip v) = 0" using i by (simp_all add: queue_inv_def Let_def)
  have n: "unat (of_nat (length packet) :: u16) = length packet"
    using l of_nat_inverse [of "length packet", where ?'a = 16] by (simp add: RXSTART_def)
  have "map (gp_write 0 packet m) [0 ..< length packet] = packet" for m by (rule nth_equalityI) (simp_all add: gp_write_at)
  then show ?thesis
    using sending_state [OF l, of "chip v"] s(3) u n unfolding PacketSend_effect [OF s(1,2) l] by (simp add: tx_done_def)
qed

lemma tx_done_keeps: "queue_inv fs v \<Longrightarrow> queue_inv fs (v\<lparr>chip := tx_done (chip v)\<rparr>)"
  by (simp add: tx_done_def queue_inv_def Let_def selected_def receiving_def reg16_def bit_simps)

lemma phy_event_keeps: "queue_inv fs v \<Longrightarrow> queue_inv fs (v\<lparr>chip := phy_event linked full (chip v)\<rparr>)"
  by (simp add: phy_event_def queue_inv_def Let_def selected_def receiving_def reg16_def)

lemma gathered:
  "snd (fold (\<lambda>q (l, b). (l + length q, take l b @ q @ drop (l + length q) b)) p (k, pre @ b)) = pre @ concat p @ drop (length (concat p)) b"
  if "length pre = k" and "length (concat p) \<le> length b"
  using that
proof (induction p arbitrary: k pre b)
  case (Cons a p)
  have "snd (fold (\<lambda>q (l, b). (l + length q, take l b @ q @ drop (l + length q) b)) p (k + length a, (pre @ a) @ drop (length a) b))
      = (pre @ a) @ concat p @ drop (length (concat p)) (drop (length a) b)"
    using Cons.prems by (intro Cons.IH) simp_all
  then show ?case using Cons.prems by (simp add: add.commute)
qed simp

lemma low_level_output_eq:
  assumes "length (concat p) \<le> length (enc_buf s)"
  shows "low_level_output p s = s\<lparr>eth := PacketSend (concat p) (eth s), enc_buf := concat p @ drop (length (concat p)) (enc_buf s)\<rparr>"
  using gathered [of "[]" 0 p "enc_buf s"] assms by (simp add: low_level_output_def Let_def)


subsection \<open>The queue of the interface\<close>

definition eth_inv :: "bytes list \<Rightarrow> ethif \<Rightarrow> bool" where
  "eth_inv fs s \<longleftrightarrow> queue_inv fs (eth s) \<and> length (enc_buf s) = ENC_TMP_LEN"

definition wire_takes :: "bytes \<times> bytes \<Rightarrow> ethif \<Rightarrow> bool" where
  "wire_takes x s = accepts x (chip (eth s))"

definition wire_arrive :: "bytes \<times> bytes \<Rightarrow> ethif \<Rightarrow> ethif" where
  "wire_arrive x s = s\<lparr>eth := (eth s)\<lparr>chip := arrive x (chip (eth s))\<rparr>\<rparr>"

datatype wire_other = Frame_out "bytes list" | Transmitted | Link_change bool bool

fun other_step :: "wire_other \<Rightarrow> ethif \<Rightarrow> ethif" where
  "other_step (Frame_out p) s = low_level_output p s"
| "other_step Transmitted s = s\<lparr>eth := (eth s)\<lparr>chip := tx_done (chip (eth s))\<rparr>\<rparr>"
| "other_step (Link_change linked full) s = s\<lparr>eth := (eth s)\<lparr>chip := phy_event linked full (chip (eth s))\<rparr>\<rparr>"

fun fits_buffer :: "wire_other \<Rightarrow> bool" where
  "fits_buffer (Frame_out p) \<longleftrightarrow> length (concat p) \<le> RXSTART"
| "fits_buffer _ \<longleftrightarrow> True"

lemma poll_packet_empty:
  assumes "eth_inv [] s"
  shows "fst (poll_packet s) = None \<and> eth_inv [] (snd (poll_packet s))"
proof -
  have q: "queue_inv [] (eth s)" "selected (eth s)" "e_pkts (chip (eth s)) = 0"
    using assms by (simp_all add: eth_inv_def queue_inv_def Let_def)
  then show ?thesis using assms IfPacketArrived_result [OF q(2)] queue_inv_bank [OF q(1), of 0]
    by (simp add: poll_packet_def eth_inv_def)
qed

lemma poll_packet_front:
  assumes "eth_inv (f # fs) s"
  shows "fst (poll_packet s) = Some f \<and> eth_inv fs (snd (poll_packet s))"
proof -
  have q: "queue_inv (f # fs) (eth s)" "selected (eth s)" "e_pkts (chip (eth s)) > 0" "frame_ok f" "length (enc_buf s) = 1600"
    using assms by (simp_all add: eth_inv_def queue_inv_def Let_def ENC_TMP_LEN_def)
  define v where "v = via 0 id (eth s)"
  have i: "queue_inv (f # fs) v" using queue_inv_bank [OF q(1), of 0] by (simp add: v_def)
  have l: "length f \<le> unat (of_nat ENC_TMP_LEN :: u16)" using q(4) by (simp add: frame_ok_def ENC_TMP_LEN_def)
  have n: "unat (of_nat (length f) :: u16) = length f"
    using q(4) of_nat_inverse [of "length f", where ?'a = 16] by (simp add: frame_ok_def)
  obtain r v' where r: "PacketReceive (of_nat ENC_TMP_LEN) (enc_buf s) v = (r, v')" by (cases "PacketReceive (of_nat ENC_TMP_LEN) (enc_buf s) v")
  then have "r = (of_nat (length f), f @ drop (length f) (enc_buf s))" "queue_inv fs v'"
    using PacketReceive_front [OF i l, of "enc_buf s"] receive_keeps [OF i l, of "enc_buf s"] by simp_all
  then show ?thesis
    using r q(3-5) IfPacketArrived_result [OF q(2)] n
    by (simp add: poll_packet_def low_level_input_def v_def [symmetric] Let_def eth_inv_def frame_ok_def ENC_TMP_LEN_def)
qed

interpretation wire: frame_queue eth_inv wire_takes wire_arrive poll_packet other_step snd fits_buffer
proof unfold_locales
  fix fs :: "bytes list" and s :: ethif and x :: "bytes \<times> bytes"
  assume "eth_inv fs s"
  then show "eth_inv (if wire_takes x s then fs @ [snd x] else fs) (wire_arrive x s)"
    using arrive_keeps [of fs "eth s" "fst x" "snd x"] by (simp add: eth_inv_def wire_takes_def wire_arrive_def split: if_splits)
next
  fix fs :: "bytes list" and s :: ethif and o1 :: wire_other
  assume i: "eth_inv fs s" "fits_buffer o1"
  show "eth_inv fs (other_step o1 s)"
  proof (cases o1)
    case (Frame_out p)
    then have "length (concat p) \<le> RXSTART" "length (concat p) \<le> length (enc_buf s)"
      using i by (simp_all add: eth_inv_def RXSTART_def ENC_TMP_LEN_def)
    then show ?thesis using low_level_output_eq [of p s] send_keeps [of fs "eth s" "concat p"] i Frame_out by (simp add: eth_inv_def)
  qed (use i tx_done_keeps phy_event_keeps in \<open>simp_all add: eth_inv_def\<close>)
qed (use poll_packet_empty poll_packet_front in blast)+

lemma empty_ring_accepts:
  assumes "eth_inv [] s" and "frame_ok f" and "length st4 = 4"
  shows "wire_takes (st4, f) s"
proof -
  have q: "in_ring (unat (nextPacketPointer (eth s)))" "reg16 0x06 (chip (eth s)) = of_nat (ring_at (unat (nextPacketPointer (eth s))) (RING - 2))"
    "e_head (chip (eth s)) = ring_at (unat (nextPacketPointer (eth s))) 0" "e_pkts (chip (eth s)) = 0" "receiving (chip (eth s))"
    using assms(1) by (simp_all add: eth_inv_def queue_inv_def Let_def)
  have "room (chip (eth s)) = RING - 2"
    using ring_distance [of 0 "RING - 2" "unat (nextPacketPointer (eth s))"] q(2,3) by (simp add: room_def unat_ring ring_defs)
  moreover have "rec_len f \<le> RING - 2" using rec_len_bounds(2) [of f] assms(2) by (simp add: frame_ok_def ring_defs)
  ultimately show ?thesis using assms(2,3) q(4,5) by (simp add: wire_takes_def accepts_def)
qed


subsection \<open>The PHY and the initialisation\<close>

lemma wait_phy_done:
  assumes "e_cmd c = None" and "j < 4"
  shows "wait_phy (drv_at j c v) = Some (drv_at 3 (c\<lparr>e_mii := 0\<rparr>) v)"
  using assms
proof (induction "e_mii c" arbitrary: c j)
  case 0
  have "selected (drv_at j c v)" using 0 by (simp add: drv_at_def selected_def)
  then have r: "ReadReg MISTAT (drv_at j c v) = (rd16 0x6A c, drv_at 3 c v)"
    using ReadReg_banked [OF _ enc_banks(19)] 0 by (simp add: drv_at_def via_def rd16_def was_read_def)
  have "\<not> bit (rd16 0x6A c) 0" using 0 by (simp add: rd16_def bit_be16 reg_read_def)
  then have "rd16 0x6A c AND MISTAT_BUSY = 0" using test_bit16 [of 0 "rd16 0x6A c"] by (simp add: MISTAT_BUSY_def)
  then have "wait_phy (drv_at j c v) = Some (drv_at 3 c v)" by (subst wait_phy.simps) (simp add: r)
  moreover have z: "c\<lparr>e_mii := 0\<rparr> = c" unfolding 0(1) by simp
  ultimately show ?case unfolding z by simp
next
  case (Suc n)
  have "selected (drv_at j c v)" using Suc by (simp add: drv_at_def selected_def)
  then have r: "ReadReg MISTAT (drv_at j c v) = (rd16 0x6A c, drv_at 3 (c\<lparr>e_mii := n\<rparr>) v)"
    using ReadReg_banked [OF _ enc_banks(19)] Suc(2) by (simp add: drv_at_def via_def rd16_def was_read_def)
  have "bit (rd16 0x6A c) 0" using Suc(2) by (simp add: rd16_def bit_be16 reg_read_def)
  then have "rd16 0x6A c AND MISTAT_BUSY \<noteq> 0" using test_bit16 [of 0 "rd16 0x6A c"] by (simp add: MISTAT_BUSY_def)
  then show ?case using Suc.hyps(1) [of "c\<lparr>e_mii := n\<rparr>" 3] Suc.prems by (subst wait_phy.simps) (simp add: r)
qed

definition phy_written :: "byte \<Rightarrow> u16 \<Rightarrow> enc \<Rightarrow> enc" where
  "phy_written address data c =
     (set_reg16 0x66 data (set_reg16 0x54 (0x0100 OR ucast address) c))\<lparr>e_phy := (e_phy c)(unat (address AND 0x1F) := data), e_mii := 0\<rparr>"

lemma phy_address: "phy_at (set_reg16 0x54 (0x0100 OR ucast (address :: byte)) c) = unat (address AND 0x1F)"
proof -
  have "(ucast (0x0100 OR ucast address :: u16) :: byte) = address"
  proof (rule byte_eqI)
    fix n :: nat assume n: "n < 8"
    have "bit (0x0100 :: u16) n \<longleftrightarrow> bit (2 ^ 8 :: u16) n" by simp
    also have "\<dots> \<longleftrightarrow> n = 8" by (simp only: bit_exp_iff) auto
    finally have "\<not> bit (0x0100 :: u16) n" using n by simp
    then show "bit (ucast (0x0100 OR ucast address :: u16) :: byte) n = bit address n"
      using n by (simp only: bit_unsigned_iff bit_or_iff) simp
  qed
  then show ?thesis by (simp add: phy_at_def set_reg16_def)
qed

lemma wr16_cmd [simp]: "e_cmd (wr16 a w c) = e_cmd c"
  by (simp add: wr16_def)

lemma WritePHYReg_effect:
  assumes "e_cmd c = None" and "j < 4"
  shows "WritePHYReg address data (drv_at j c v) = Some (drv_at 3 (phy_written address data c) v)"
proof -
  have w: "wr16 0x54 x c = set_reg16 0x54 x c" for x by (simp add: wr16_plain)
  have e: "(wr16 0x66 data (set_reg16 0x54 (0x0100 OR ucast address) c))\<lparr>e_mii := 0\<rparr> = phy_written address data c"
    using phy_address [of address c]
    by (simp add: wr16_def reg_write_def phy_written_def Let_def reg16_def set_reg16_def phy_at_def be16_split16)
  show ?thesis
    using assms e by (simp add: WritePHYReg_def drv_at_ops [OF enc_banks(13)] drv_at_ops [OF enc_banks(17)] w wait_phy_done wr16_cmd)
qed


lemma ReadPHYReg_effect:
  assumes "e_cmd c = None" and "j < 4"
  shows "\<exists>d. ReadPHYReg address (drv_at j c v) = Some (e_phy c (unat (address AND 0x1F)), drv_at 3 d v) \<and> e_cmd d = None"
proof -
  let ?c = "set_reg16 0x54 (0x0100 OR ucast address) c"
  have w: "wr16 0x54 x c = set_reg16 0x54 x c" for x by (simp add: wr16_plain)
  have a: "e_phy ?c (phy_at ?c) = e_phy c (unat (address AND 0x1F))" unfolding phy_address by (simp add: set_reg16_def)
  have m: "wr16 0x52 1 d = (set_reg16 0x68 (e_phy d (phy_at d)) (set_reg16 0x52 1 d))\<lparr>e_mii := e_cycle d\<rparr>" for d
    by (simp add: wr16_def reg_write_def Let_def) (simp add: phy_at_def set_reg16_def fun_upd_twist)
  have z: "wr16 0x52 0 d = set_reg16 0x52 0 d" for d
    by (simp add: wr16_def reg_write_def Let_def set_reg16_def)
  have r: "rd16 0x68 (wr16 0x52 0 ((wr16 0x52 1 ?c)\<lparr>e_mii := 0\<rparr>)) = e_phy ?c (phy_at ?c)" unfolding m z
    by (simp add: rd16_def reg_read_def) (simp add: set_reg16_def be16_split16)
  let ?d = "wr16 0x52 0 ((wr16 0x52 1 ?c)\<lparr>e_mii := 0\<rparr>)"
  have "ReadPHYReg address (drv_at j c v) = Some (rd16 0x68 ?d, drv_at 3 ?d v)"
    using assms by (simp add: ReadPHYReg_def MICMD_MIIRD_def drv_at_ops [OF enc_banks(12)] drv_at_ops [OF enc_banks(13)] drv_at_ops [OF enc_banks(18)] w wait_phy_done)
  moreover have "e_cmd ?d = None" using assms(1) by simp
  ultimately show ?thesis unfolding r a by blast
qed

lemma phy_read_back:
  assumes "selected v"
  shows "\<exists>v1 v2. WritePHYReg address data v = Some v1 \<and> ReadPHYReg address v1 = Some (data, v2)"
proof -
  have c: "e_cmd (chip v) = None" "e_bank (chip v) < 4" and v: "v = drv_at (e_bank (chip v)) (chip v) v"
    using assms by (simp_all add: selected_def drv_at_def)
  have "e_cmd (phy_written address data (chip v)) = None" using c(1) by (simp add: phy_written_def)
  from ReadPHYReg_effect [OF this, of 3 address v] WritePHYReg_effect [OF c, of address data v] v
  show ?thesis by (auto simp: phy_written_def)
qed

lemma bfs_rxen:
  "bfs16 0x1E ECON1_RXEN c = c\<lparr>e_reg := (e_reg c)(0x1E := e_reg c 0x1E OR 1, 0x1F := e_reg c 0x1F AND NOT 1)\<rparr>"
proof -
  have "e_reg c 0x1F AND NOT 1 AND NOT 1 = e_reg c 0x1F AND NOT 1" by (simp add: and.assoc)
  then show ?thesis by (simp add: bfs16_def Let_def ECON1_RXEN_def reg_read_def reg_write_def bit_simps)
qed

lemma wr16_erxst: "wr16 0x04 w c = (set_reg16 0x04 w c)\<lparr>e_head := unat w\<rparr>"
  by (simp add: wr16_def reg_write_def set_reg16_def reg16_def Let_def be16_split16)

text \<open>The chip behind its reset, before the initialisation.\<close>

definition enc_reset :: "encdrv \<Rightarrow> bool" where
  "enc_reset v \<longleftrightarrow> e_cmd (chip v) = None \<and> e_bank (chip v) = 0 \<and> currentBank v = 0 \<and> e_pkts (chip v) = 0 \<and> reg16 0x88 (chip v) = 0"

definition mac_bytes :: "enc \<Rightarrow> bytes" where
  "mac_bytes c = map (e_reg c) [0x64, 0x65, 0x62, 0x63, 0x60, 0x61]"

lemma split_reg16: "ucast (reg16 a c) = e_reg c a" "ucast (drop_bit 8 (reg16 a c)) = e_reg c (a + 1)"
  using split16_be16 [of "e_reg c (a + 1)" "e_reg c a"] by (simp_all add: split16_def reg16_def)

lemma InitRegisters_ready:
  assumes "enc_reset v"
  shows "\<exists>v'. InitRegisters v = Some (mac_bytes (chip v), v') \<and> queue_inv [] v' \<and> e_phy (chip v') 4 = PHANA_ABILITIES"
proof -
  define v0 where "v0 = v\<lparr>nextPacketPointer := of_nat RXSTART\<rparr>"
  define c where "c = chip v"
  define d where "d = set_reg16 0x18 (of_nat (RAMSIZE + 1)) (set_reg16 0x16 (of_nat RAMSIZE) (set_reg16 0x06 (of_nat (RAMSIZE - 2))
      (wr16 0x04 (of_nat RXSTART) (set_reg16 0x00 (of_nat TXSTART) c))))"
  define e where "e = bfs16 0x1E ECON1_RXEN (phy_written PHANA PHANA_ABILITIES d)"
  have c: "e_cmd c = None" "e_bank c = 0" "e_pkts c = 0" "reg16 0x88 c = 0" "currentBank v = 0"
    and s: "v0 = drv_at 0 c v0"
    using assms by (simp_all add: enc_reset_def c_def drv_at_def v0_def)
  have d1: "e_cmd d = None" using c(1) by (simp add: d_def)
  have m: "rd16 0x64 d = reg16 0x64 c" "rd16 0x62 d = reg16 0x62 c" "rd16 0x60 d = reg16 0x60 c"
    by (simp_all add: d_def wr16_erxst rd16_def reg16_def reg_read_def set_reg16_def)
  have w: "WriteReg EUDAND (of_nat (RAMSIZE + 1)) (WriteReg EUDAST (of_nat RAMSIZE) (WriteReg ERXTAIL (of_nat (RAMSIZE - 2))
      (WriteReg ERXST (of_nat RXSTART) (WriteReg ETXST (of_nat TXSTART) (drv_at 0 c v0))))) = drv_at 0 d v0"
    using c(1) by (simp add: drv_at_ops [OF enc_banks(4)] drv_at_ops [OF enc_banks(6)] drv_at_ops [OF enc_banks(7)] drv_at_ops [OF enc_banks(8)]
        drv_at_ops [OF enc_banks(9)] wr16_plain d_def)
  have p: "e_cmd (phy_written PHANA PHANA_ABILITIES d) = None" using d1 by (simp add: phy_written_def)
  have "InitRegisters v = Some (mac_bytes c, drv_at 0 e v0)"
    unfolding InitRegisters_def Let_def v0_def [symmetric] w [folded s]
    using d1 p by (simp add: drv_at_ops [OF enc_banks(14)] drv_at_ops [OF enc_banks(15)] drv_at_ops [OF enc_banks(16)] WritePHYReg_effect
        drv_at_ops [OF enc_banks(2)] m split_reg16 mac_bytes_def e_def)
  moreover have "queue_inv [] (drv_at 0 e v0)"
  proof -
    have "unat (of_nat RXSTART :: u16) = RXSTART" "ring_at RXSTART 0 = RXSTART" "ring_at RXSTART (RING - 2) = RAMSIZE - 2"
      by (simp_all add: ring_at_def ring_defs)
    moreover have "in_ring RXSTART" "even RXSTART" by (simp_all add: in_ring_def ring_defs)
    moreover have "e_head e = RXSTART" "e_pkts e = 0" "e_cmd e = None" "reg16 0x06 e = of_nat (RAMSIZE - 2)" "reg16 0x88 e = 0" "reg16 0x00 e = 0"
      "receiving e"
      using c d1 by (simp_all add: e_def bfs_rxen phy_written_def d_def wr16_erxst receiving_def reg16_set_other bit_simps TXSTART_def RXSTART_def)
        (simp_all add: reg16_def set_reg16_def be16_split16 be16_split16 [of 0, simplified])
    ultimately show ?thesis by (simp add: queue_inv_def Let_def drv_at_def selected_def v0_def receiving_def)
  qed
  moreover have "e_phy (chip (drv_at 0 e v0)) 4 = PHANA_ABILITIES"
    by (simp add: drv_at_def e_def bfs_rxen phy_written_def PHANA_def)
  ultimately show ?thesis unfolding c_def by blast
qed

end
