(* ===== verification/Connection.thy ===== *)
theory Connection
  imports Requests
begin

section \<open>The connections of the HTTP server (\<open>httpd.c\<close>, \<open>fs.c\<close>)\<close>

text \<open>
  The server between TCP and the callbacks of theory \<open>Http\<close>: it collects the segments of a request, parses it, hands
  the body of a POST over, and sends the answer as the send buffer of the connection allows. A chain of pbufs is the list
  of their payloads. \<open>hstate\<close> is \<open>struct http_state\<close>; the two dozen options of the server are those of the build: POST,
  headers at run time, files read in blocks, no SSI, no CGI, no persistent connections.

  The stack below is the environment: \<open>tcp\<close> is what the server sees of it in one callback, the room in the send buffer, the
  segment size, which writes find memory, and it records what was written, with the bytes that a block has when it is
  written. The files of \<open>fsdata.c\<close> and of
  littleFS are parameters, the content of a name.
\<close>

subsection \<open>Files\<close>

record site =
  built_in :: "bytes \<Rightarrow> (bytes \<times> bool) option"
  stored :: "bytes \<Rightarrow> bytes option"

text \<open>Where \<open>data\<close> and the first unsent byte are: in the array \<open>XMLBuf\<close>, or somewhere else that does not change.\<close>

datatype place_of = In_XMLBuf nat | At bytes

record fs_file =
  ff_data :: place_of
  ff_len :: nat
  ff_index :: nat
  fname :: bytes
  http_header_included :: bool
  is_custom_file :: bool

text \<open>
  The lookup behind \<open>fs_open\<close>. \<open>strcpy(file->fname, name)\<close> has room for 32 bytes. The result ERR_VAL is \<open>False\<close>; an XML
  document leaves the fields that it does not set.
\<close>

definition fs_found :: "site \<Rightarrow> served \<Rightarrow> fs_file \<Rightarrow> (bool \<times> fs_file) option" where
  "fs_found S x f =
     (case x of
        Document len \<Rightarrow> Some (True, f\<lparr>ff_data := In_XMLBuf 0, ff_len := unat len, ff_index := unat len\<rparr>)
      | Other_file name \<Rightarrow>
          if length name \<ge> 32 then None
          else let f = f\<lparr>fname := name\<rparr>
               in case stored S name of
                    Some content \<Rightarrow> Some (True, f\<lparr>is_custom_file := True, ff_data := At [], ff_len := length content, ff_index := 0\<rparr>)
                  | None \<Rightarrow> (let f = f\<lparr>is_custom_file := False\<rparr>
                            in case built_in S name of
                                 Some (data, hdr) \<Rightarrow> Some (True, f\<lparr>ff_data := At data, ff_len := length data, ff_index := length data,
                                   http_header_included := hdr\<rparr>)
                               | None \<Rightarrow> Some (False, f)))"

definition fs_bytes_left :: "fs_file \<Rightarrow> int" where
  "fs_bytes_left f = int (ff_len f) - int (ff_index f)"

text \<open>None is \<open>FS_READ_EOF\<close>. A stored file is read from littleFS under its name.\<close>

definition fs_read_custom :: "site \<Rightarrow> nat \<Rightarrow> fs_file \<Rightarrow> (bytes \<times> fs_file) option" where
  "fs_read_custom S count f =
     (if ff_index f < ff_len f
      then let n = min (ff_len f - ff_index f) count; content = (case stored S (fname f) of Some c \<Rightarrow> c | None \<Rightarrow> [])
           in Some (take n (drop (ff_index f) content), f\<lparr>ff_index := ff_index f + n\<rparr>)
      else None)"

definition fs_read :: "site \<Rightarrow> nat \<Rightarrow> fs_file \<Rightarrow> (bytes \<times> fs_file) option" where
  "fs_read S count f =
     (if ff_index f = ff_len f then None
      else if is_custom_file f then fs_read_custom S count f
      else let n = min (ff_len f - ff_index f) count; data = (case ff_data f of At d \<Rightarrow> d | In_XMLBuf k \<Rightarrow> [])
           in Some (take n (drop (ff_index f) data), f\<lparr>ff_index := ff_index f + n\<rparr>))"

subsection \<open>The state of a connection\<close>

record hstate =
  file_handle :: fs_file
  hs_handle :: bool
  hs_file :: "place_of option"
  hs_req :: "bytes list"
  hs_buf :: "nat option"
  hs_left :: nat
  hs_retries :: nat
  hs_hdrs :: "bytes list"
  hdr_pos :: nat
  hdr_index :: nat
  post_content_len_left :: nat

definition NUM_FILE_HDR_STRINGS :: nat where "NUM_FILE_HDR_STRINGS = 3"

definition http_state_init :: hstate where
  "http_state_init =
     \<lparr>file_handle = \<lparr>ff_data = At [], ff_len = 0, ff_index = 0, fname = [], http_header_included = False, is_custom_file = False\<rparr>,
      hs_handle = False, hs_file = None, hs_req = [], hs_buf = None, hs_left = 0, hs_retries = 0, hs_hdrs = replicate 3 [], hdr_pos = 0,
      hdr_index = NUM_FILE_HDR_STRINGS, post_content_len_left = 0\<rparr>"

record tcp =
  sndbuf :: nat
  tcp_mss :: nat
  queue_full :: bool
  has_memory :: "nat \<Rightarrow> nat \<Rightarrow> bool"
  can_alloc :: "nat \<Rightarrow> bool"
  written :: bytes

text \<open>A connection whose state is gone is \<open>None\<close>; \<open>Gone\<close> is a restart in the middle of a request.\<close>

datatype server = Conn "hstate option" tcp http | Gone outcome

subsection \<open>Finding the answer\<close>

fun strnstr :: "bytes \<Rightarrow> bytes \<Rightarrow> nat \<Rightarrow> nat option" where
  "strnstr buffer [] n = Some 0"
| "strnstr [] (t # token) n = None"
| "strnstr (b # bs) (t # token) n =
     (if b = 0 \<or> length (t # token) > n then None
      else if take (length (t # token)) (b # bs) = t # token then Some 0
      else map_option Suc (strnstr bs (t # token) (n - 1)))"

definition CR_LF :: bytes where "CR_LF = [13, 10]"

lemma length_CR_LF [simp]: "length CR_LF = 2"
  by (simp add: CR_LF_def)

definition HTTP_HDR_OK :: bytes where "HTTP_HDR_OK = str ''HTTP/1.0 200 OK'' @ CR_LF"
definition HTTP_HDR_NOT_FOUND :: bytes where "HTTP_HDR_NOT_FOUND = str ''HTTP/1.0 404 File not found'' @ CR_LF"
definition HTTP_HDR_BAD_REQUEST :: bytes where "HTTP_HDR_BAD_REQUEST = str ''HTTP/1.0 400 Bad Request'' @ CR_LF"
definition HTTP_HDR_NOT_IMPL :: bytes where "HTTP_HDR_NOT_IMPL = str ''HTTP/1.0 501 Not Implemented'' @ CR_LF"
definition HTTP_HDR_SERVER :: bytes where "HTTP_HDR_SERVER = str ''Server: LARUS v1.0 (http:www.larus.com.hr)'' @ CR_LF"
definition DEFAULT_404_HTML :: bytes where
  "DEFAULT_404_HTML = CR_LF @ str ''<html><body><h2>404: The requested file cannot be found.</h2></body></html>'' @ CR_LF"

definition content_type :: "string \<Rightarrow> bytes" where
  "content_type t = str ''Content-type: '' @ str t @ CR_LF @ CR_LF"

definition HTTP_HDR_SSI :: bytes where
  "HTTP_HDR_SSI = str ''Content-type: text/html'' @ CR_LF @ str ''Expires: Fri, 10 Apr 2008 14:00:00 GMT'' @ CR_LF @ str ''Pragma: no-cache'' @ CR_LF @ CR_LF"

definition gzipped :: "bytes \<Rightarrow> bytes" where
  "gzipped t = str ''Content-encoding: gzip'' @ CR_LF @ t"

definition g_psHTTPHeaders :: "(bytes \<times> bytes) list" where
  "g_psHTTPHeaders = [(str ''html'', content_type ''text/html''), (str ''htm'', content_type ''text/html''), (str ''shtml'', HTTP_HDR_SSI),
     (str ''shtm'', HTTP_HDR_SSI), (str ''ssi'', HTTP_HDR_SSI), (str ''gif'', content_type ''image/gif''), (str ''png'', content_type ''image/png''),
     (str ''jpg'', content_type ''image/jpeg''), (str ''bmp'', content_type ''image/bmp''), (str ''ico'', content_type ''image/x-icon''),
     (str ''class'', content_type ''application/octet-stream''), (str ''cls'', content_type ''application/octet-stream''),
     (str ''js'', gzipped (content_type ''application/x-javascript'')), (str ''ram'', content_type ''application/x-javascript''),
     (str ''css'', gzipped (content_type ''text/css'')), (str ''swf'', content_type ''application/x-shockwave-flash''),
     (str ''xml'', content_type ''text/xml''), (str ''xsl'', content_type ''text/xml'')]"

definition strstr :: "bytes \<Rightarrow> string \<Rightarrow> bool" where
  "strstr s t \<longleftrightarrow> find_from (str t) s 0 \<noteq> None"

text \<open>The text behind the last point, of the name without its parameters.\<close>

definition last_extension :: "bytes \<Rightarrow> bytes option" where
  "last_extension uri =
     (let name = takeWhile (\<lambda>c. c \<noteq> asc CHR ''?'') uri
      in if asc CHR ''.'' \<in> set name then Some (rev (takeWhile (\<lambda>c. c \<noteq> asc CHR ''.'') (rev name))) else None)"

definition get_http_headers :: "bytes option \<Rightarrow> hstate \<Rightarrow> hstate" where
  "get_http_headers uri hs =
     (case uri of
        None \<Rightarrow> hs\<lparr>hs_hdrs := [HTTP_HDR_NOT_FOUND, HTTP_HDR_SERVER, DEFAULT_404_HTML], hdr_index := 0, hdr_pos := 0\<rparr>
      | Some u \<Rightarrow>
          let first = (if strstr u ''404'' then HTTP_HDR_NOT_FOUND else if strstr u ''400'' then HTTP_HDR_BAD_REQUEST
                       else if strstr u ''501'' then HTTP_HDR_NOT_IMPL else HTTP_HDR_OK)
          in case last_extension u of
               None \<Rightarrow> hs\<lparr>hs_hdrs := [first, HTTP_HDR_SERVER, hs_hdrs hs ! 2], hdr_index := NUM_FILE_HDR_STRINGS\<rparr>
             | Some e \<Rightarrow> hs\<lparr>hs_hdrs := [first, HTTP_HDR_SERVER, case map_of g_psHTTPHeaders e of Some t \<Rightarrow> t | None \<Rightarrow> content_type ''text/plain''],
                 hdr_index := 0, hdr_pos := 0\<rparr>)"

definition at_place :: "place_of \<Rightarrow> http \<Rightarrow> bytes" where
  "at_place p h = (case p of In_XMLBuf k \<Rightarrow> drop k (XMLBuf (dev h)) | At d \<Rightarrow> d)"

definition advance :: "nat \<Rightarrow> place_of \<Rightarrow> place_of" where
  "advance n p = (case p of In_XMLBuf k \<Rightarrow> In_XMLBuf (k + n) | At d \<Rightarrow> At (drop n d))"

text \<open>\<open>file\<close> is the handle of the connection or not there. A request of HTTP/0.9 gets no headers from the file.\<close>

definition http_init_file :: "bool \<Rightarrow> bool \<Rightarrow> bytes option \<Rightarrow> http \<Rightarrow> hstate \<Rightarrow> hstate" where
  "http_init_file file is_09 uri h hs =
     (let hs = (if file
                then let f = file_handle hs;
                         hs = hs\<lparr>hs_handle := True, hs_file := Some (ff_data f), hs_left := (if is_custom_file f then 0 else ff_len f), hs_retries := 0\<rparr>
                     in if http_header_included f \<and> is_09
                        then case strnstr (at_place (ff_data f) h) (CR_LF @ CR_LF) (hs_left hs) of
                               Some p \<Rightarrow> hs\<lparr>hs_file := Some (advance (p + 4) (ff_data f)), hs_left := hs_left hs - (p + 4)\<rparr>
                             | None \<Rightarrow> hs
                        else hs
                else hs\<lparr>hs_handle := False, hs_file := None, hs_left := 0, hs_retries := 0\<rparr>)
      in if \<not> hs_handle hs \<or> \<not> http_header_included (file_handle hs) then get_http_headers uri hs else hs)"

text \<open>
  The page for a name that is not found. \<open>fs_open\<close> asks for authentication here too, and writes the name of the
  login page over the constant \<open>"/404.html"\<close> when that fails.
\<close>

definition open_constant :: "env \<Rightarrow> site \<Rightarrow> string \<Rightarrow> http \<Rightarrow> fs_file \<Rightarrow> (bool \<times> fs_file) option" where
  "open_constant E S name h f = do {
     n \<leftarrow> gate (e_stk80 E) h (str name @ [0]);
     (if n = str name then fs_found S (Other_file n) f else None) }"

definition http_get_404_file :: "env \<Rightarrow> site \<Rightarrow> http \<Rightarrow> fs_file \<Rightarrow> (bytes option \<times> fs_file) option" where
  "http_get_404_file E S h f = do {
     (ok, f) \<leftarrow> open_constant E S ''/404.html'' h f;
     (if ok then Some (Some (str ''/404.html''), f)
      else do {
        (ok, f) \<leftarrow> open_constant E S ''/404.htm'' h f;
        (if ok then Some (Some (str ''/404.htm''), f)
         else do {
           (ok, f) \<leftarrow> open_constant E S ''/404.shtml'' h f;
           Some (if ok then Some (str ''/404.shtml'') else None, f) }) }) }"

text \<open>\<open>fs_open\<close> may have written the name of the login page over the name that it was given.\<close>

definition find_file :: "env \<Rightarrow> site \<Rightarrow> bytes \<Rightarrow> bool \<Rightarrow> hstate \<Rightarrow> http \<Rightarrow> (hstate \<times> http) option" where
  "find_file E S uri is_09 hs h = do {
     (x, h) \<leftarrow> http_find_file E uri h;
     let name = (case x of Other_file n \<Rightarrow> n | Document len \<Rightarrow> takeWhile (\<lambda>c. c \<noteq> asc CHR ''?'') uri);
     (ok, f) \<leftarrow> fs_found S x (file_handle hs);
     (if ok then Some (http_init_file True is_09 (Some name) h (hs\<lparr>file_handle := f\<rparr>), h)
      else do {
        (u, f) \<leftarrow> http_get_404_file E S h f;
        Some (http_init_file (u \<noteq> None) is_09 u h (hs\<lparr>file_handle := f\<rparr>), h) }) }"

subsection \<open>Sending\<close>

text \<open>
  \<open>tcp_write\<close> takes all of its bytes or none: none when memory is short for that many behind what it has taken. It fails with
  \<open>ERR_MEM\<close> only.
\<close>

definition tcp_write :: "bytes \<Rightarrow> tcp \<Rightarrow> bool \<times> tcp" where
  "tcp_write bs t =
     (if length bs \<le> sndbuf t \<and> has_memory t (length (written t)) (length bs)
      then (True, t\<lparr>sndbuf := sndbuf t - length bs, written := written t @ bs\<rparr>)
      else (False, t))"

text \<open>The loop of \<open>http_write\<close> with ever smaller lengths; the result is the length that was taken.\<close>

function write_less :: "bytes \<Rightarrow> nat \<Rightarrow> tcp \<Rightarrow> nat option \<times> tcp" where
  "write_less bs len t =
     (let (ok, t) = tcp_write (take len bs) t
      in if ok then (Some len, t)
         else let len' = (if sndbuf t = 0 \<or> queue_full t then 1 else len div 2)
              in if len' > 1 then write_less bs len' t else (None, t))"
  by pat_completeness auto
termination by (relation "measure (\<lambda>(bs, len, t). len)") (auto split: if_splits)

declare write_less.simps [simp del]

text \<open>Whether the result is \<open>ERR_OK\<close>, and \<open>*length\<close>.\<close>

definition http_write :: "bytes \<Rightarrow> tcp \<Rightarrow> bool \<times> nat \<times> tcp" where
  "http_write bs t =
     (if length bs = 0 then (True, 0, t)
      else let len = min (length bs) (sndbuf t); len = min len (2 * tcp_mss t)
           in case write_less bs len t of (Some n, t) \<Rightarrow> (True, n, t) | (None, t) \<Rightarrow> (False, 0, t))"

datatype more = HTTP_NO_DATA_TO_SEND | HTTP_DATA_TO_SEND_CONTINUE | HTTP_DATA_TO_SEND_BREAK

definition headers_left :: "hstate \<Rightarrow> bytes" where
  "headers_left hs = drop (hdr_pos hs) (concat (drop (hdr_index hs) (take NUM_FILE_HDR_STRINGS (hs_hdrs hs))))"

text \<open>\<open>len\<close> counts down from the send buffer at the start; the third result is \<open>data_to_send\<close>.\<close>

function headers_from :: "nat \<Rightarrow> hstate \<Rightarrow> tcp \<Rightarrow> bool \<Rightarrow> hstate \<times> tcp \<times> bool" where
  "headers_from len hs t data =
     (if len = 0 \<or> \<not> hdr_index hs < NUM_FILE_HDR_STRINGS then (hs, t, data)
      else let hdr = hs_hdrs hs ! hdr_index hs;
               sendlen = min len (length hdr - hdr_pos hs);
               (ok, n, t) = http_write (take sendlen (drop (hdr_pos hs) hdr)) t;
               data = (if ok \<and> sendlen \<noteq> n then True else data);
               hs = hs\<lparr>hdr_pos := hdr_pos hs + n\<rparr>;
               hs = (if hdr_pos hs = length hdr then hs\<lparr>hdr_index := hdr_index hs + 1, hdr_pos := 0\<rparr> else hs)
           in if n = 0 then (hs, t, data) else headers_from (len - n) hs t data)"
  by pat_completeness auto
termination by (relation "measure (\<lambda>(len, hs, t, data). len)") auto

declare headers_from.simps [simp del]

definition http_send_headers :: "hstate \<Rightarrow> tcp \<Rightarrow> more \<times> hstate \<times> tcp" where
  "http_send_headers hs t =
     (let (hs, t, data) = headers_from (sndbuf t) hs t False
      in (if hdr_index hs < NUM_FILE_HDR_STRINGS \<or> hs_file hs = None then HTTP_DATA_TO_SEND_BREAK
          else if data then HTTP_DATA_TO_SEND_CONTINUE else HTTP_NO_DATA_TO_SEND, hs, t))"

text \<open>The block buffer: twice the segment size, or as much of it as there is memory for.\<close>

function alloc_block :: "nat \<Rightarrow> tcp \<Rightarrow> nat option" where
  "alloc_block count t =
     (if can_alloc t count then Some count
      else if count div 2 > 100 then alloc_block (count div 2) t else None)"
  by pat_completeness auto
termination by (relation "measure fst") auto

declare alloc_block.simps [simp del]

datatype eof_check = At_end | Wait hstate | Block hstate

definition http_check_eof :: "site \<Rightarrow> hstate \<Rightarrow> tcp \<Rightarrow> eof_check" where
  "http_check_eof S hs t =
     (if \<not> hs_handle hs \<or> fs_bytes_left (file_handle hs) \<le> 0 then At_end
      else case (case hs_buf hs of Some n \<Rightarrow> Some n | None \<Rightarrow> alloc_block (2 * tcp_mss t) t) of
             None \<Rightarrow> Wait hs
           | Some count \<Rightarrow>
               (case fs_read S count (file_handle hs) of
                  None \<Rightarrow> At_end
                | Some (bs, f) \<Rightarrow> Block (hs\<lparr>hs_buf := Some count, file_handle := f, hs_left := length bs, hs_file := Some (At bs)\<rparr>)))"

text \<open>Reading \<open>XMLBuf\<close> behind its text is outside the model.\<close>

definition http_send_data_nonssi :: "hstate \<Rightarrow> tcp \<Rightarrow> http \<Rightarrow> (bool \<times> hstate \<times> tcp) option" where
  "http_send_data_nonssi hs t h =
     (let len = min (hs_left hs) 0xFFFF; p = the (hs_file hs); bs = take len (at_place p h)
      in if length bs < len then None
         else let (ok, n, t) = http_write bs t
              in Some (if ok then (True, hs\<lparr>hs_file := Some (advance n p), hs_left := hs_left hs - n\<rparr>, t) else (False, hs, t)))"

subsection \<open>The callbacks of the connection\<close>

text \<open>A connection that is closed in the middle of a body hands over what has come of it.\<close>

definition http_close_conn :: "env \<Rightarrow> hstate option \<Rightarrow> tcp \<Rightarrow> http \<Rightarrow> server option" where
  "http_close_conn E hs t h =
     (case hs of
        Some c \<Rightarrow>
          (if post_content_len_left c \<noteq> 0
           then (case httpd_post_finished E h of
                   None \<Rightarrow> None
                 | Some (Running h) \<Rightarrow> Some (Conn None t h)
                 | Some r \<Rightarrow> Some (Gone r))
           else Some (Conn None t h))
      | None \<Rightarrow> Some (Conn None t h))"

text \<open>The part of \<open>http_send\<close> behind the headers.\<close>

definition send_rest :: "env \<Rightarrow> site \<Rightarrow> hstate \<Rightarrow> tcp \<Rightarrow> http \<Rightarrow> server option" where
  "send_rest E S hs t h =
     (case (if hs_left hs = 0 then http_check_eof S hs t else Block hs) of
        At_end \<Rightarrow> http_close_conn E (Some hs) t h
      | Wait hs \<Rightarrow> Some (Conn (Some hs) t h)
      | Block hs \<Rightarrow> do {
          (sent, hs, t) \<leftarrow> http_send_data_nonssi hs t h;
          (if hs_left hs = 0 \<and> fs_bytes_left (file_handle hs) \<le> 0 then http_close_conn E (Some hs) t h
           else Some (Conn (Some hs) t h)) })"

definition http_send :: "env \<Rightarrow> site \<Rightarrow> hstate \<Rightarrow> tcp \<Rightarrow> http \<Rightarrow> server option" where
  "http_send E S hs t h =
     (let (go, hs, t) = (if hdr_index hs < NUM_FILE_HDR_STRINGS then http_send_headers hs t else (HTTP_DATA_TO_SEND_CONTINUE, hs, t))
      in if go \<noteq> HTTP_DATA_TO_SEND_CONTINUE then Some (Conn (Some hs) t h) else send_rest E S hs t h)"

definition http_sent :: "env \<Rightarrow> site \<Rightarrow> hstate option \<Rightarrow> tcp \<Rightarrow> http \<Rightarrow> server option" where
  "http_sent E S hs t h =
     (case hs of None \<Rightarrow> Some (Conn None t h) | Some c \<Rightarrow> http_send E S (c\<lparr>hs_retries := 0\<rparr>) t h)"

definition HTTPD_MAX_RETRIES :: nat where "HTTPD_MAX_RETRIES = 8"

definition http_poll :: "env \<Rightarrow> site \<Rightarrow> hstate option \<Rightarrow> tcp \<Rightarrow> http \<Rightarrow> server option" where
  "http_poll E S hs t h =
     (case hs of
        None \<Rightarrow> http_close_conn E None t h
      | Some c \<Rightarrow>
          let c = c\<lparr>hs_retries := hs_retries c + 1\<rparr>
          in if hs_retries c = HTTPD_MAX_RETRIES then http_close_conn E (Some c) t h
             else if hs_handle c then http_send E S c t h
             else Some (Conn (Some c) t h))"

definition http_err :: "http \<Rightarrow> tcp \<Rightarrow> server" where
  "http_err h t = Conn None t h"

definition http_accept :: "tcp \<Rightarrow> http \<Rightarrow> server" where
  "http_accept t h = Conn (Some http_state_init) t h"

subsection \<open>Requests\<close>

datatype err = ERR_OK | ERR_INPROGRESS | ERR_ARG | ERR_USE | ERR_ABRT

datatype parsed = Parsed err hstate http | Stopped outcome

definition http_handle_post_finished :: "env \<Rightarrow> site \<Rightarrow> hstate \<Rightarrow> http \<Rightarrow> parsed option" where
  "http_handle_post_finished E S hs h =
     (case httpd_post_finished E h of
        None \<Rightarrow> None
      | Some (Running h) \<Rightarrow> do { (hs, h) \<leftarrow> find_file E S (str ''/ok.xml'') False hs h; Some (Parsed ERR_OK hs h) }
      | Some r \<Rightarrow> Some (Stopped r))"

text \<open>The whole chain counts as received; \<open>httpd_post_receive_data\<close> takes its first pbuf.\<close>

definition http_post_rxpbuf :: "env \<Rightarrow> site \<Rightarrow> bytes list \<Rightarrow> hstate \<Rightarrow> http \<Rightarrow> parsed option" where
  "http_post_rxpbuf E S p hs h =
     (let tot_len = length (concat p);
          hs = hs\<lparr>post_content_len_left := (if post_content_len_left hs < tot_len then 0 else post_content_len_left hs - tot_len)\<rparr>
      in do {
        h \<leftarrow> httpd_post_receive_data (hd p) h;
        (if post_content_len_left hs = 0 then http_handle_post_finished E S hs h else Some (Parsed ERR_OK hs h)) })"

fun skip_pbufs :: "bytes list \<Rightarrow> nat \<Rightarrow> bytes list \<times> nat" where
  "skip_pbufs [] off = ([], off)"
| "skip_pbufs (q # qs) off = (if length q \<le> off then skip_pbufs qs (off - length q) else (q # qs, off))"

definition HTTP_HDR_CONTENT_LEN :: bytes where "HTTP_HDR_CONTENT_LEN = str ''Content-Length: ''"

text \<open>\<open>uri_end\<close> is an index into \<open>data\<close>; the chain \<open>*inp\<close> is \<open>hs->req\<close>.\<close>

definition http_post_request :: "env \<Rightarrow> site \<Rightarrow> bytes \<Rightarrow> bytes \<Rightarrow> nat \<Rightarrow> hstate \<Rightarrow> http \<Rightarrow> parsed option" where
  "http_post_request E S data uri uri_end hs h =
     (let d = drop (uri_end + 1) data
      in case strnstr d (CR_LF @ CR_LF) (length data - (uri_end + 1)) of
           None \<Rightarrow> Some (Parsed ERR_INPROGRESS hs h)
         | Some crlfcrlf \<Rightarrow>
             (case strnstr d HTTP_HDR_CONTENT_LEN crlfcrlf of
                None \<Rightarrow> Some (Parsed ERR_ARG hs h)
              | Some scontent_len \<Rightarrow>
                  (let num = drop (scontent_len + 16) d
                   in if strnstr num CR_LF 10 = None then Some (Parsed ERR_ARG hs h)
                      else let content_len = atoi num
                           in if content_len > 0
                              then let hdr_len = min (length data) (uri_end + 1 + crlfcrlf + 4)
                                   in do {
                                     h \<leftarrow> httpd_post_begin uri h;
                                     let hs = hs\<lparr>post_content_len_left := nat content_len\<rparr>;
                                     (case skip_pbufs (hs_req hs) hdr_len of
                                        ([], off) \<Rightarrow> Some (Parsed ERR_OK (hs\<lparr>hs_req := []\<rparr>) h)
                                      | (q # qs, off) \<Rightarrow> http_post_rxpbuf E S (drop off q # qs) (hs\<lparr>hs_req := []\<rparr>) h) }
                              else Some (Parsed ERR_ARG hs h))))"

definition LWIP_HTTPD_MAX_REQ_LENGTH :: nat where "LWIP_HTTPD_MAX_REQ_LENGTH = 1023"
definition LWIP_HTTPD_REQ_QUEUELEN :: nat where "LWIP_HTTPD_REQ_QUEUELEN = 5"
definition MIN_REQ_LEN :: nat where "MIN_REQ_LEN = 7"

text \<open>Without error pages \<open>http_find_error_file\<close> is ERR_ARG. The method and the URI are closed by NULs for the call only.\<close>

definition not_complete :: "hstate \<Rightarrow> http \<Rightarrow> parsed option" where
  "not_complete hs h =
     Some (Parsed (if length (concat (hs_req hs)) \<le> LWIP_HTTPD_MAX_REQ_LENGTH \<and> length (hs_req hs) \<le> LWIP_HTTPD_REQ_QUEUELEN
                   then ERR_INPROGRESS else ERR_ARG) hs h)"

definition request_line :: "env \<Rightarrow> site \<Rightarrow> bytes \<Rightarrow> bool \<Rightarrow> nat \<Rightarrow> hstate \<Rightarrow> http \<Rightarrow> parsed option" where
  "request_line E S data is_post sp1 hs h =
     (let d = drop (sp1 + 1) data; left_len = length data - (sp1 + 1);
          (is_09, sp2) = (case strnstr d (str '' '') left_len of Some u \<Rightarrow> (False, Some u) | None \<Rightarrow> (True, strnstr d CR_LF left_len))
      in if is_09 \<and> is_post then Some (Parsed ERR_ARG hs h)
         else case sp2 of
                None \<Rightarrow> not_complete hs h
              | Some uri_len \<Rightarrow>
                  if strnstr data (CR_LF @ CR_LF) (length data) = None then not_complete hs h
                  else if is_post then http_post_request E S data (take uri_len d) (sp1 + 1 + uri_len) hs h
                  else do { (hs, h) \<leftarrow> find_file E S (take uri_len d) is_09 hs h; Some (Parsed ERR_OK hs h) })"

definition http_parse_request :: "env \<Rightarrow> site \<Rightarrow> bytes list \<Rightarrow> hstate \<Rightarrow> http \<Rightarrow> parsed option" where
  "http_parse_request E S p hs h =
     (if hs_handle hs \<or> hs_file hs \<noteq> None then Some (Parsed ERR_USE hs h)
      else let hs = hs\<lparr>hs_req := hs_req hs @ p\<rparr>;
               data = (if length (hs_req hs) > 1 then take LWIP_HTTPD_MAX_REQ_LENGTH (concat (hs_req hs)) else hd (hs_req hs))
           in if length data \<ge> MIN_REQ_LEN \<and> strnstr data CR_LF (length data) \<noteq> None
              then if take 4 data = str ''GET '' then request_line E S data False 3 hs h
                   else if take 5 data = str ''POST '' then request_line E S data True 4 hs h
                   else Some (Parsed ERR_ARG hs h)
              else not_complete hs h)"

text \<open>\<open>None\<close> for \<open>p\<close> is the end of the stream.\<close>

definition http_recv :: "env \<Rightarrow> site \<Rightarrow> bytes list option \<Rightarrow> hstate option \<Rightarrow> tcp \<Rightarrow> http \<Rightarrow> server option" where
  "http_recv E S p hs t h =
     (case (p, hs) of
        (Some p, Some hs) \<Rightarrow>
          if post_content_len_left hs > 0
          then do {
            r \<leftarrow> http_post_rxpbuf E S p (hs\<lparr>hs_retries := 0\<rparr>) h;
            (case r of
               Stopped r \<Rightarrow> Some (Gone r)
             | Parsed e hs h \<Rightarrow> if post_content_len_left hs = 0 then http_send E S hs t h else Some (Conn (Some hs) t h)) }
          else do {
            r \<leftarrow> (if \<not> hs_handle hs then http_parse_request E S p hs h else Some (Parsed ERR_ABRT hs h));
            (case r of
               Stopped r \<Rightarrow> Some (Gone r)
             | Parsed e hs h \<Rightarrow>
                 let hs = (if e \<noteq> ERR_INPROGRESS then hs\<lparr>hs_req := []\<rparr> else hs)
                 in if e = ERR_OK then (if post_content_len_left hs = 0 then http_send E S hs t h else Some (Conn (Some hs) t h))
                    else if e = ERR_ARG then http_close_conn E (Some hs) t h
                    else Some (Conn (Some hs) t h)) }
      | _ \<Rightarrow> http_close_conn E hs t h)"

end
