(* ===== verification/Segments.thy ===== *)
theory Segments
  imports Connection
begin

section \<open>A request in segments\<close>

text \<open>
  The request side of the server: a POST that TCP cuts into segments in any way has the effect of the POST in one piece
  (\<open>segmented_post\<close>), and what a connection that breaks off in the middle of the body has (\<open>broken_off\<close>).
\<close>

lemma strnstr_extend: "strnstr x tok k = Some p \<Longrightarrow> k \<le> m \<Longrightarrow> k \<le> length x \<Longrightarrow> strnstr (x @ z) tok m = Some p"
proof (induction x tok k arbitrary: p m rule: strnstr.induct)
  case (3 b bs t token n)
  show ?case
  proof (cases "take (length (t # token)) (b # bs) = t # token")
    case True
    then have "length token \<le> length bs" by (metis length_Cons length_take min.absorb_iff2 min.commute Suc_le_mono)
    then show ?thesis using True 3 by (auto split: if_splits)
  next
    case False
    then have g: "b \<noteq> 0" "length (t # token) \<le> n" and r: "map_option Suc (strnstr bs (t # token) (n - 1)) = Some p"
      using "3.prems"(1) by (auto split: if_splits)
    have l: "length token \<le> length bs" using g(2) "3.prems"(3) by simp
    obtain q where q: "strnstr bs (t # token) (n - 1) = Some q" "p = Suc q" using r by auto
    have "strnstr (bs @ z) (t # token) (m - 1) = Some q"
      using "3.IH" [of q "m - 1"] g False q(1) "3.prems"(2,3) by simp
    moreover have "take (length (t # token)) (b # bs @ z) \<noteq> t # token" using False l by simp
    ultimately show ?thesis using g q(2) "3.prems"(2) by simp
  qed
qed auto

lemma strnstr_None_find: "0 \<notin> set x \<Longrightarrow> strnstr x (t # token) (length x) = None \<longleftrightarrow> find_from (t # token) x p = None"
proof (induction x arbitrary: p)
  case (Cons b bs)
  have s: "length (b # bs) < length (t # token) \<Longrightarrow> find_from (t # token) (b # bs) p = None" by (rule find_from_short)
  show ?case
  proof (cases "length (b # bs) < length (t # token)")
    case True
    then show ?thesis using s by simp
  next
    case False
    then show ?thesis using Cons.IH [of "Suc p"] Cons.prems by simp
  qed
qed simp

lemma strnstr_none_before: "t \<notin> set x \<Longrightarrow> strnstr x (t # token) n = None"
  by (induction x arbitrary: n) auto

lemma strnstr_skip:
  "t \<notin> set x \<Longrightarrow> 0 \<notin> set x \<Longrightarrow> t \<noteq> 0 \<Longrightarrow> length x + length (t # token) \<le> n \<Longrightarrow>
     strnstr (x @ t # token @ z) (t # token) n = Some (length x)"
  by (induction x arbitrary: n) auto

lemma strnstr_pass:
  "t \<notin> set x \<Longrightarrow> 0 \<notin> set x \<Longrightarrow> strnstr (x @ y) (t # token) (length x + n) = map_option ((+) (length x)) (strnstr y (t # token) n)"
proof (induction x)
  case Nil
  then show ?case by (cases "strnstr y (t # token) n") simp_all
next
  case (Cons b x)
  have s: "strnstr y (t # token) n = None" if "length (t # token) > n" using that by (cases y) simp_all
  show ?case
  proof (cases "length (t # token) > length (b # x) + n")
    case True
    then show ?thesis using s by simp
  next
    case False
    then show ?thesis using Cons by (auto simp: option.map_comp comp_def)
  qed
qed

text \<open>A prefix of a text in which the token does not occur earlier.\<close>

lemma strnstr_prefix_None:
  "strnstr x tok (length x) = Some p \<Longrightarrow> 0 \<notin> set x \<Longrightarrow> m < p + length tok \<Longrightarrow> m \<le> length x \<Longrightarrow> strnstr (take m x) tok m = None"
proof (induction x arbitrary: p m)
  case Nil
  then show ?case by (cases tok) auto
next
  case (Cons b bs)
  obtain t token where tok: "tok = t # token" using Cons.prems by (cases tok) auto
  show ?case
  proof (cases m)
    case (Suc k)
    show ?thesis
    proof (cases "take (length tok) (b # bs) = tok")
      case True
      then show ?thesis using Cons.prems Suc tok by (auto split: if_splits)
    next
      case False
      then obtain q where q: "strnstr bs tok (length bs) = Some q" "p = Suc q" using Cons.prems(1,2) tok by (auto split: if_splits)
      have "strnstr (take k bs) tok k = None" using Cons.IH [OF q(1)] Cons.prems q(2) Suc by simp
      moreover have "length tok \<le> Suc k \<Longrightarrow> take (length tok) (b # take k bs) \<noteq> tok"
        using False tok by (simp add: min_def)
      ultimately show ?thesis using Suc tok False by auto
    qed
  qed (simp add: tok)
qed


text \<open>
  The head of a POST for \<open>n\<close> bytes of body: the request line, \<open>hd\<close> from its protocol version on to the empty line, in which
  the length is given as a decimal number.
\<close>

definition header_ok :: "bytes \<Rightarrow> nat \<Rightarrow> bool" where
  "header_ok hdr n \<longleftrightarrow> 0 \<notin> set hdr \<and> strnstr hdr (CR_LF @ CR_LF) (length hdr) = Some (length hdr - 4)
     \<and> (case strnstr hdr HTTP_HDR_CONTENT_LEN (length hdr - 4) of
          Some k \<Rightarrow> take (length (dec n) + 2) (drop (k + 16) hdr) = dec n @ CR_LF
        | None \<Rightarrow> False)"

definition uri_ok :: "bytes \<Rightarrow> bool" where
  "uri_ok uri \<longleftrightarrow> 0 \<notin> set uri \<and> 13 \<notin> set uri \<and> 32 \<notin> set uri \<and> length uri < 64"

definition post_start :: "bytes \<Rightarrow> bytes" where
  "post_start uri = str ''POST '' @ uri @ [32]"

definition post_head :: "bytes \<Rightarrow> bytes \<Rightarrow> bytes" where
  "post_head uri hdr = post_start uri @ hdr"

lemma post_word: "str ''POST '' = [80, 79, 83, 84, 32]" "str '' '' = [32]" "str ''GET '' = [71, 69, 84, 32]"
  by (simp_all add: asc_def)

lemma post_start_facts:
  "length (post_start uri) = 6 + length uri" "take 4 (post_start uri @ x) \<noteq> str ''GET ''" "take 5 (post_start uri @ x) = str ''POST ''"
  "drop 5 (post_start uri @ x) = uri @ 32 # x" "uri_ok uri \<Longrightarrow> 13 \<notin> set (post_start uri) \<and> 0 \<notin> set (post_start uri)"
  by (simp_all add: post_start_def post_word uri_ok_def del: str_Cons)

lemma length_post_head: "length (post_head uri hdr) = 6 + length uri + length hdr"
  by (simp add: post_head_def post_start_facts)

lemma header_end:
  assumes "header_ok hdr n"
  shows "drop (length hdr - 4) hdr = CR_LF @ CR_LF" "4 \<le> length hdr"
proof -
  have s: "strnstr hdr (CR_LF @ CR_LF) (length hdr) = Some (length hdr - 4)" "0 \<notin> set hdr" using assms by (simp_all add: header_ok_def)
  have f: "p + length tok \<le> length x \<and> take (length tok) (drop p x) = tok" if "strnstr x tok (length x) = Some p" "tok \<noteq> []" for x tok p
    using that
  proof (induction x arbitrary: p)
    case (Cons b bs)
    obtain t token where tok: "tok = t # token" using Cons.prems by (cases tok) auto
    show ?case
    proof (cases "take (length tok) (b # bs) = tok")
      case True
      then show ?thesis using Cons.prems tok by (auto split: if_splits)
    next
      case False
      then obtain q where "strnstr bs tok (length bs) = Some q" "p = Suc q" using Cons.prems(1) tok by (auto split: if_splits)
      then show ?thesis using Cons.IH Cons.prems(2) by auto
    qed
  qed (cases tok, auto)
  have t: "CR_LF @ CR_LF \<noteq> []" "length (CR_LF @ CR_LF) = 4" by (simp_all add: CR_LF_def)
  note e = f [OF s(1) t(1), unfolded t(2)]
  from e show "4 \<le> length hdr" by linarith
  have "take 4 (drop (length hdr - 4) hdr) = drop (length hdr - 4) hdr" by simp
  then show "drop (length hdr - 4) hdr = CR_LF @ CR_LF" using e by metis
qed

lemma parse_data:
  assumes "(if length (r @ [p]) > 1 then take 1023 (concat (r @ [p])) else hd (r @ [p])) = D"
  shows "http_parse_request E S [p] (http_state_init\<lparr>hs_req := r\<rparr>) hh
    = (let hs = http_state_init\<lparr>hs_req := r @ [p]\<rparr>
       in if length D \<ge> 7 \<and> strnstr D CR_LF (length D) \<noteq> None
          then if take 4 D = str ''GET '' then request_line E S D False 3 hs hh
               else if take 5 D = str ''POST '' then request_line E S D True 4 hs hh
               else Some (Parsed ERR_ARG hs hh)
          else not_complete hs hh)"
proof -
  have i: "hs_handle (http_state_init\<lparr>hs_req := r\<rparr>) = False" "hs_file (http_state_init\<lparr>hs_req := r\<rparr>) = None"
    "hs_req (http_state_init\<lparr>hs_req := r\<rparr>) = r" "http_state_init\<lparr>hs_req := r, hs_req := q\<rparr> = http_state_init\<lparr>hs_req := q\<rparr>" for q
    by (simp_all add: http_state_init_def)
  have j: "hs_req (http_state_init\<lparr>hs_req := r @ [p]\<rparr>) = r @ [p]" by simp
  show ?thesis unfolding http_parse_request_def i Let_def j LWIP_HTTPD_MAX_REQ_LENGTH_def MIN_REQ_LEN_def assms by simp
qed

text \<open>Before the head is complete the segments are collected.\<close>

lemma head_incomplete:
  assumes h: "header_ok hdr n" and u: "uri_ok uri" and m: "m < length (post_head uri hdr)" and l: "length (post_head uri hdr) \<le> 1023"
    and d: "concat (r @ [p]) = take m (post_head uri hdr)" and k: "length (r @ [p]) \<le> 5"
  shows "http_parse_request E S [p] (http_state_init\<lparr>hs_req := r\<rparr>) hh
    = Some (Parsed ERR_INPROGRESS (http_state_init\<lparr>hs_req := r @ [p]\<rparr>) hh)"
proof -
  let ?D = "take m (post_head uri hdr)" and ?hs = "http_state_init\<lparr>hs_req := r @ [p]\<rparr>"
  have lD: "length ?D = m" using m by simp
  have data: "(if length (r @ [p]) > 1 then take 1023 (concat (r @ [p])) else hd (r @ [p])) = ?D"
  proof (cases r)
    case Nil
    then show ?thesis using d by simp
  next
    case (Cons q qs)
    then have "length (r @ [p]) > 1" by simp
    then show ?thesis unfolding d using lD m l by simp
  qed
  have nc: "not_complete ?hs hh = Some (Parsed ERR_INPROGRESS ?hs hh)"
    using d k lD m l by (simp add: not_complete_def LWIP_HTTPD_MAX_REQ_LENGTH_def LWIP_HTTPD_REQ_QUEUELEN_def)
  let ?A = "post_start uri"
  have A: "post_head uri hdr = ?A @ hdr" "length ?A = 6 + length uri" "13 \<notin> set ?A" "0 \<notin> set (post_head uri hdr)"
    using post_start_facts(5) [OF u] h by (simp_all add: post_head_def post_start_facts header_ok_def)
  have nohead: "strnstr ?D (CR_LF @ CR_LF) m = None"
  proof -
    have c1: "strnstr (post_head uri hdr) (CR_LF @ CR_LF) (length (post_head uri hdr)) = Some (length ?A + (length hdr - 4))"
    proof -
      have "strnstr (?A @ hdr) (13 # [10, 13, 10]) (length ?A + length hdr) = map_option ((+) (length ?A)) (strnstr hdr (13 # [10, 13, 10]) (length hdr))"
        using A(3,4) unfolding A(1) by (intro strnstr_pass) auto
      then show ?thesis using h unfolding A(1) by (simp add: header_ok_def CR_LF_def del: str_Cons)
    qed
    have "m < length ?A + (length hdr - 4) + length (CR_LF @ CR_LF)" using m A header_end(2) [OF h] by (simp add: CR_LF_def)
    from strnstr_prefix_None [OF c1 A(4) this] show ?thesis using m by simp
  qed
  show ?thesis
  proof (cases "m \<ge> 7 \<and> strnstr ?D CR_LF m \<noteq> None")
    case False
    then show ?thesis using nc unfolding parse_data [OF data] lD Let_def by metis
  next
    case True
    have "6 + length uri \<le> m"
    proof (rule ccontr)
      assume "\<not> 6 + length uri \<le> m"
      then have "?D = take m ?A" unfolding A(1) using A(2) by simp
      then have "13 \<notin> set ?D" using A(3) by (metis in_set_takeD)
      then show False using True strnstr_none_before [of 13 ?D "[10]" m] by (simp add: CR_LF_def)
    qed
    then have D: "?D = ?A @ take (m - (6 + length uri)) hdr" unfolding A(1) using A(2) by simp
    have c: "take 4 ?D \<noteq> str ''GET ''" "take 5 ?D = str ''POST ''" "drop 5 ?D = uri @ 32 # take (m - (6 + length uri)) hdr"
      unfolding D by (rule post_start_facts)+
    have sp: "strnstr (drop 5 ?D) [32] (m - 5) = Some (length uri)"
      unfolding c(3) using u \<open>6 + length uri \<le> m\<close> strnstr_skip [of 32 uri "[]" "m - 5" "take (m - (6 + length uri)) hdr"]
      by (simp add: uri_ok_def)
    have "request_line E S ?D True 4 ?hs hh = not_complete ?hs hh"
      using sp nohead lD by (simp add: request_line_def Let_def post_word del: str_Cons)
    moreover have "length ?D \<ge> 7 \<and> strnstr ?D CR_LF (length ?D) \<noteq> None" unfolding lD using True by simp
    ultimately show ?thesis using nc c(1,2) unfolding parse_data [OF data] Let_def by metis
  qed
qed


lemma skip_pbufs_chain:
  "length (concat r) \<le> off \<Longrightarrow> skip_pbufs (r @ [p]) off = (if length p \<le> off - length (concat r) then [] else [p], 
     off - length (concat r) - (if length p \<le> off - length (concat r) then length p else 0))"
  by (induction r arbitrary: off) auto

lemma head_complete:
  assumes h: "header_ok hdr n" and u: "uri_ok uri" and l: "length (post_head uri hdr) \<le> 1023" and n: "0 < n" "n < 10 ^ 8"
    and d: "concat (r @ [p]) = post_head uri hdr @ z" and k: "length (concat r) < length (post_head uri hdr)"
  shows "http_parse_request E S [p] (http_state_init\<lparr>hs_req := r\<rparr>) hh
    = do { h \<leftarrow> httpd_post_begin uri hh;
           (if z = [] then Some (Parsed ERR_OK (http_state_init\<lparr>post_content_len_left := n\<rparr>) h)
            else http_post_rxpbuf E S [z] (http_state_init\<lparr>post_content_len_left := n\<rparr>) h) }"
proof -
  let ?hs = "http_state_init\<lparr>hs_req := r @ [p]\<rparr>" and ?H = "post_head uri hdr"
  let ?A = "post_start uri"
  have A: "?H = ?A @ hdr" "length ?A = 6 + length uri" "0 \<notin> set ?H"
    using post_start_facts(5) [OF u] h by (simp_all add: post_head_def post_start_facts header_ok_def)
  obtain y where data: "(if length (r @ [p]) > 1 then take 1023 (concat (r @ [p])) else hd (r @ [p])) = ?H @ y"
  proof (cases r)
    case Nil
    then show ?thesis using d that by simp
  next
    case (Cons q qs)
    then have "length (r @ [p]) > 1" by simp
    moreover have "take 1023 (?H @ z) = ?H @ take (1023 - length ?H) z" using l by simp
    ultimately show ?thesis using that [of "take (1023 - length ?H) z"] unfolding d by presburger
  qed
  let ?D = "?H @ y"
  have hl: "4 \<le> length hdr" "drop (length hdr - 4) hdr = CR_LF @ CR_LF" using header_end [OF h] by simp_all
  have c: "take 4 ?D \<noteq> str ''GET ''" "take 5 ?D = str ''POST ''" "drop 5 ?D = uri @ 32 # hdr @ y"
    unfolding A(1) append.assoc by (rule post_start_facts)+
  have c4: "drop (5 + length uri + 1) ?D = hdr @ y"
  proof -
    have "5 + length uri + 1 = length ?A" by (simp add: A(2))
    moreover have "?D = ?A @ (hdr @ y)" unfolding A(1) by simp
    ultimately show ?thesis by (metis append_eq_conv_conj)
  qed
  have sp: "strnstr (drop 5 ?D) [32] (length ?D - 5) = Some (length uri)"
    unfolding c(3) using u strnstr_skip [of 32 uri "[]" "length ?D - 5" "hdr @ y"] A by (simp add: uri_ok_def)
  have x1: "strnstr (hdr @ y) (CR_LF @ CR_LF) (length ?D - (5 + length uri + 1)) = Some (length hdr - 4)"
    using h A by (intro strnstr_extend [of hdr _ "length hdr"]) (simp_all add: header_ok_def del: str_Cons)
  obtain q where q: "strnstr hdr HTTP_HDR_CONTENT_LEN (length hdr - 4) = Some q" "take (length (dec n) + 2) (drop (q + 16) hdr) = dec n @ CR_LF"
    using h by (auto simp: header_ok_def split: option.splits)
  have x2: "strnstr (hdr @ y) HTTP_HDR_CONTENT_LEN (length hdr - 4) = Some q"
    using q(1) by (intro strnstr_extend [of hdr _ "length hdr - 4"]) simp_all
  have cr: "strnstr ?D (13 # tok) (length ?D) \<noteq> None" if c: "strnstr hdr (13 # tok) (length hdr) \<noteq> None" for tok
  proof -
    have "13 \<notin> set ?A" "0 \<notin> set ?A" using post_start_facts(5) [OF u] by simp_all
    then have "strnstr (?A @ hdr) (13 # tok) (length ?A + length hdr) = map_option ((+) (length ?A)) (strnstr hdr (13 # tok) (length hdr))"
      by (rule strnstr_pass)
    then obtain i where "strnstr ?H (13 # tok) (length ?H) = Some i" using c unfolding A(1) by auto
    then have "strnstr ?D (13 # tok) (length ?D) = Some i" by (rule strnstr_extend) simp_all
    then show ?thesis by simp
  qed
  have x3: "strnstr ?D (CR_LF @ CR_LF) (length ?D) \<noteq> None" using cr [of "[10, 13, 10]"] h by (simp add: header_ok_def CR_LF_def)
  have x4: "strnstr ?D CR_LF (length ?D) \<noteq> None"
  proof -
    have "13 # [10] = CR_LF" by (simp add: CR_LF_def)
    moreover have "strnstr hdr (13 # [10]) (length hdr) \<noteq> None"
    proof
      assume "strnstr hdr (13 # [10]) (length hdr) = None"
      then have f: "find_from CR_LF hdr 0 = None" using strnstr_None_find h by (simp add: header_ok_def CR_LF_def)
      have "take (length CR_LF) (drop (length hdr - 4) hdr) = CR_LF" unfolding hl(2) by simp
      then show False using find_from_NoneD [OF f, of "length hdr - 4"] by simp
    qed
    ultimately show ?thesis using cr [of "[10]"] by simp
  qed
  obtain w where w: "drop (q + 16) (hdr @ y) = dec n @ CR_LF @ w"
  proof -
    have "drop (q + 16) hdr = dec n @ CR_LF @ drop (length (dec n) + 2) (drop (q + 16) hdr)"
      using q(2) by (metis append.assoc append_take_drop_id)
    moreover from this have "q + 16 \<le> length hdr" by (metis append_is_Nil_conv dec_nonempty drop_all nat_le_linear)
    ultimately show ?thesis using that [of "drop (length (dec n) + 2) (drop (q + 16) hdr) @ y"] by simp
  qed
  have nd: "length (dec n) \<le> 8" using length_dec [of 8 n] n by simp
  have x5: "strnstr (drop (q + 16) (hdr @ y)) CR_LF 10 \<noteq> None"
  proof -
    have "13 \<notin> set (dec n)" using dec_digits [of 13 n] by (auto simp: isdigit_def)
    then show ?thesis unfolding w CR_LF_def using strnstr_skip [of 13 "dec n" "[10]" 10 w] nd by simp
  qed
  have x6: "atoi (drop (q + 16) (hdr @ y)) = int n"
    unfolding w using n by (intro atoi_dec) (simp_all add: CR_LF_def isdigit_def)
  have sk: "skip_pbufs (r @ [p]) (length ?H) = (if z = [] then ([], 0) else ([p], length ?H - length (concat r)))"
    and dz: "z \<noteq> [] \<Longrightarrow> drop (length ?H - length (concat r)) p = z"
  proof -
    have e: "concat r @ p = ?H @ z" using d by simp
    then have "length (concat r) + length p = length ?H + length z" by (metis length_append)
    then show "skip_pbufs (r @ [p]) (length ?H) = (if z = [] then ([], 0) else ([p], length ?H - length (concat r)))"
      using skip_pbufs_chain [of r "length ?H" p] k by (cases z) auto
    have "drop (length ?H) (concat r @ p) = z" unfolding e by simp
    then show "drop (length ?H - length (concat r)) p = z" using k by simp
  qed
  have "http_post_request E S ?D uri (5 + length uri) ?hs hh
    = do { h \<leftarrow> httpd_post_begin uri hh;
           (if z = [] then Some (Parsed ERR_OK (http_state_init\<lparr>post_content_len_left := n\<rparr>) h)
            else http_post_rxpbuf E S [z] (http_state_init\<lparr>post_content_len_left := n\<rparr>) h) }"
  proof -
    have f: "post_content_len_left (http_state_init\<lparr>hs_req := q\<rparr>) = 0" "hs_req (http_state_init\<lparr>hs_req := q, post_content_len_left := n\<rparr>) = q"
      "http_state_init\<lparr>hs_req := q, post_content_len_left := n, hs_req := []\<rparr> = http_state_init\<lparr>post_content_len_left := n\<rparr>" for q
      by (simp_all add: http_state_init_def)
    have m: "min (length ?D) (5 + length uri + 1 + (length hdr - 4) + 4) = length ?H" using A hl(1) by simp
    show ?thesis
      unfolding http_post_request_def Let_def c4 x1 option.case x2 if_not_P [OF x5] x6 m
      using n sk dz by (auto simp: f)
  qed
  moreover have "http_parse_request E S [p] (http_state_init\<lparr>hs_req := r\<rparr>) hh = http_post_request E S ?D uri (5 + length uri) ?hs hh"
  proof -
    obtain v where v: "strnstr ?D (CR_LF @ CR_LF) (length ?D) = Some v" using x3 by blast
    have e: "request_line E S ?D True 4 ?hs hh = http_post_request E S ?D uri (5 + length uri) ?hs hh"
      using sp v c(3) by (simp add: request_line_def Let_def post_word(2) del: str_Cons)
    have "length ?D \<ge> 7" using A hl(1) by simp
    then show ?thesis using c(1,2) x4 e unfolding parse_data [OF data] Let_def by metis
  qed
  ultimately show ?thesis by simp
qed


subsection \<open>From the first segment to the answer\<close>

text \<open>Each segment with the view of the stack in its callback.\<close>

fun take_in :: "env \<Rightarrow> site \<Rightarrow> (bytes \<times> tcp) list \<Rightarrow> hstate option \<Rightarrow> tcp \<Rightarrow> http \<Rightarrow> server option" where
  "take_in E S [] c t h = Some (Conn c t h)"
| "take_in E S ((p, t) # ps) c t0 h =
     (case http_recv E S (Some [p]) c t h of
        None \<Rightarrow> None
      | Some (Gone r) \<Rightarrow> Some (Gone r)
      | Some (Conn c t h) \<Rightarrow> take_in E S ps c t h)"

definition respond :: "env \<Rightarrow> site \<Rightarrow> tcp \<Rightarrow> outcome option \<Rightarrow> server option" where
  "respond E S t r =
     (case r of
        None \<Rightarrow> None
      | Some (Running h) \<Rightarrow> do { (hs, h) \<leftarrow> find_file E S (str ''/ok.xml'') False http_state_init h; http_send E S hs t h }
      | Some x \<Rightarrow> Some (Gone x))"

definition left_over :: "nat \<Rightarrow> hstate" where
  "left_over k = http_state_init\<lparr>post_content_len_left := k\<rparr>"

lemma left_over_facts [simp]:
  "post_content_len_left (left_over k) = k" "hs_req (left_over k) = []" "hs_handle (left_over k) = False" "hs_file (left_over k) = None"
  "(left_over k)\<lparr>hs_retries := 0\<rparr> = left_over k" "(left_over k)\<lparr>post_content_len_left := j\<rparr> = left_over j"
  "(left_over k)\<lparr>hs_req := []\<rparr> = left_over k" "left_over 0 = http_state_init"
  by (simp_all add: left_over_def http_state_init_def)

lemma get_http_headers_left [simp]: "post_content_len_left (get_http_headers u hs) = post_content_len_left hs"
  by (simp add: get_http_headers_def Let_def split: option.split)

lemma http_init_file_left [simp]: "post_content_len_left (http_init_file b i u h hs) = post_content_len_left hs"
  by (simp add: http_init_file_def Let_def split: option.split)

lemma find_file_left:
  "find_file E S uri b hs h = Some (hs', h') \<Longrightarrow> post_content_len_left hs' = post_content_len_left hs"
  by (auto simp: find_file_def split: bind_splits if_splits)

lemma body_piece:
  assumes "x \<noteq> []" and "length x \<le> k"
  shows "http_post_rxpbuf E S [x] (left_over k) h
    = do { h \<leftarrow> httpd_post_receive_data x h;
           (if length x = k then http_handle_post_finished E S http_state_init h
            else Some (Parsed ERR_OK (left_over (k - length x)) h)) }"
  using assms by (auto simp: http_post_rxpbuf_def Let_def intro!: Option.bind_cong)

text \<open>The rest of the body, when some of it is still missing.\<close>

lemma body_segments:
  assumes "ps \<noteq> []" and "[] \<notin> fst ` set ps" and "length (concat (map fst ps)) = k"
  shows "take_in E S ps (Some (left_over k)) t0 h
    = respond E S (snd (last ps)) (do { h \<leftarrow> receive_all (map fst ps) h; httpd_post_finished E h })"
  using assms
proof (induction ps arbitrary: k t0 h)
  case (Cons xt ps)
  obtain x t where xt: "xt = (x, t)" by (cases xt)
  have x: "x \<noteq> []" "length x \<le> k" "0 < k" using Cons.prems xt by auto
  show ?case
  proof (cases "httpd_post_receive_data x h")
    case None
    then show ?thesis using x xt by (simp add: http_recv_def body_piece respond_def)
  next
    case (Some h1)
    show ?thesis
    proof (cases "ps = []")
      case True
      then have "length x = k" using Cons.prems(3) xt by simp
      then show ?thesis using Some x xt True
        by (auto simp: http_recv_def body_piece respond_def http_handle_post_finished_def find_file_left http_state_init_def
            split: outcome.splits option.splits bind_splits server.splits)
    next
      case False
      have l: "length (concat (map fst ps)) = k - length x" using Cons.prems(3) xt by simp
      have "concat (map fst ps) \<noteq> []" using False Cons.prems(2) by (cases ps) auto
      then have ne: "length x \<noteq> k" using l by (metis diff_self_eq_0 length_0_conv)
      have "http_recv E S (Some [x]) (Some (left_over k)) t h = Some (Conn (Some (left_over (k - length x))) t h1)"
        using Some x ne by (simp add: http_recv_def body_piece)
      then show ?thesis using Cons.IH [OF False _ l, of t h1] Cons.prems(2) False xt Some by simp
    qed
  qed
qed simp


lemma get_http_headers_req [simp]: "hs_req (get_http_headers u hs) = hs_req hs"
  by (simp add: get_http_headers_def Let_def split: option.split)

lemma http_init_file_req [simp]: "hs_req (http_init_file b i u h hs) = hs_req hs"
  by (simp add: http_init_file_def Let_def split: option.split)

lemma find_file_req: "find_file E S uri b hs h = Some (hs', h') \<Longrightarrow> hs_req hs' = hs_req hs"
  by (auto simp: find_file_def split: bind_splits if_splits)

lemma recv_head:
  assumes "http_parse_request E S [p] (http_state_init\<lparr>hs_req := r\<rparr>) h = x"
  shows "http_recv E S (Some [p]) (Some (http_state_init\<lparr>hs_req := r\<rparr>)) t h = do {
     q \<leftarrow> x;
     (case q of
        Stopped r \<Rightarrow> Some (Gone r)
      | Parsed e hs h \<Rightarrow>
          let hs = (if e \<noteq> ERR_INPROGRESS then hs\<lparr>hs_req := []\<rparr> else hs)
          in if e = ERR_OK then (if post_content_len_left hs = 0 then http_send E S hs t h else Some (Conn (Some hs) t h))
             else if e = ERR_ARG then http_close_conn E (Some hs) t h
             else Some (Conn (Some hs) t h)) }"
  unfolding assms [symmetric] by (simp add: http_recv_def http_state_init_def)

lemma find_file_clean:
  assumes "find_file E S uri b http_state_init h = Some (hs, h')"
  shows "hs\<lparr>hs_req := []\<rparr> = hs" "post_content_len_left hs = 0"
proof -
  have "hs_req hs = []" using find_file_req [OF assms] left_over_facts(2) [of 0] by simp
  then show "hs\<lparr>hs_req := []\<rparr> = hs" by (cases hs) simp
  show "post_content_len_left hs = 0" using find_file_left [OF assms] left_over_facts(1) [of 0] by simp
qed

lemma answer:
  assumes "http_parse_request E S [p] (http_state_init\<lparr>hs_req := r\<rparr>) hh = http_handle_post_finished E S http_state_init h"
  shows "http_recv E S (Some [p]) (Some (http_state_init\<lparr>hs_req := r\<rparr>)) t hh = respond E S t (httpd_post_finished E h)"
proof (cases "\<exists>h2. httpd_post_finished E h = Some (Running h2)")
  case False
  then show ?thesis unfolding recv_head [OF assms] by (auto simp: http_handle_post_finished_def respond_def split: option.splits outcome.splits)
next
  case True
  then obtain h2 where h2: "httpd_post_finished E h = Some (Running h2)" by blast
  show ?thesis
  proof (cases "find_file E S (str ''/ok.xml'') False http_state_init h2")
    case None
    then show ?thesis unfolding recv_head [OF assms] by (simp add: http_handle_post_finished_def respond_def h2 del: str_Cons)
  next
    case (Some x)
    obtain hs h' where x: "x = (hs, h')" by (cases x)
    from find_file_clean [OF Some [unfolded x]] Some x show ?thesis
      unfolding recv_head [OF assms] by (simp add: http_handle_post_finished_def respond_def h2 del: str_Cons)
  qed
qed

lemma take_in_one: "take_in E S [(p, t)] c t0 h = http_recv E S (Some [p]) c t h"
  by (simp split: option.split server.split)

text \<open>The segment that completes the head, with the part \<open>z\<close> of the body behind it.\<close>

lemma last_of_head:
  assumes "http_parse_request E S [p] (http_state_init\<lparr>hs_req := r\<rparr>) hh
      = do { h \<leftarrow> httpd_post_begin uri hh;
             (if z = [] then Some (Parsed ERR_OK (left_over n) h) else http_post_rxpbuf E S [z] (left_over n) h) }"
    and "[] \<notin> fst ` set ps" and "length z + length (concat (map fst ps)) = n" and "0 < n"
  shows "take_in E S ((p, t) # ps) (Some (http_state_init\<lparr>hs_req := r\<rparr>)) t0 hh
    = respond E S (snd (last ((p, t) # ps))) (do { h \<leftarrow> httpd_post_begin uri hh;
        h \<leftarrow> receive_all ((if z = [] then [] else [z]) @ map fst ps) h; httpd_post_finished E h })"
proof (cases "httpd_post_begin uri hh")
  case None
  then show ?thesis using recv_head [OF assms(1)] by (simp add: respond_def)
next
  case (Some h)
  show ?thesis
  proof (cases "z = []")
    case True
    then have ps: "ps \<noteq> []" "length (concat (map fst ps)) = n" using assms(3,4) by auto
    have "http_recv E S (Some [p]) (Some (http_state_init\<lparr>hs_req := r\<rparr>)) t hh = Some (Conn (Some (left_over n)) t h)"
      using recv_head [OF assms(1), of t] Some True assms(4) by simp
    then show ?thesis using body_segments [OF ps(1) assms(2) ps(2)] Some True ps(1) by simp
  next
    case False
    have l: "length z \<le> n" using assms(3) by simp
    show ?thesis
    proof (cases "httpd_post_receive_data z h")
      case None
      then show ?thesis using recv_head [OF assms(1), of t] Some False l by (simp add: body_piece respond_def)
    next
      case h1: (Some h1)
      show ?thesis
      proof (cases "length z = n")
        case True
        then have "concat (map fst ps) = []" using assms(3) by simp
        then have ps: "ps = []" using assms(2) by (cases ps) auto
        have "http_parse_request E S [p] (http_state_init\<lparr>hs_req := r\<rparr>) hh = http_handle_post_finished E S http_state_init h1"
          using assms(1) Some False True h1 by (simp add: body_piece)
        from answer [OF this, of t] show ?thesis using Some False h1 ps by (simp only: take_in_one) simp
      next
        case ne: False
        then have ps: "ps \<noteq> []" "length (concat (map fst ps)) = n - length z" using assms(3) by auto
        have "http_recv E S (Some [p]) (Some (http_state_init\<lparr>hs_req := r\<rparr>)) t hh = Some (Conn (Some (left_over (n - length z))) t h1)"
          using recv_head [OF assms(1), of t] Some False ne h1 l by (simp add: body_piece)
        then show ?thesis using body_segments [OF ps(1) assms(2) ps(2)] Some False h1 ps(1) by simp
      qed
    qed
  qed
qed


text \<open>
  The segments of a whole request. A head of several segments is collected as long as the queue takes it: five
  pbufs.
\<close>

definition segments_fit :: "(bytes \<times> tcp) list \<Rightarrow> bytes list \<Rightarrow> nat \<Rightarrow> bool" where
  "segments_fit ps r n \<longleftrightarrow> (\<forall>k \<le> length ps. length (concat r) + length (concat (map fst (take k ps))) < n \<longrightarrow> length r + k \<le> 5)"

lemma segments_fit_step:
  assumes "segments_fit ((p, t) # ps) r n"
  shows "segments_fit ps (r @ [p]) n" "length (concat (r @ [p])) < n \<Longrightarrow> length (r @ [p]) \<le> 5"
proof -
  have *: "length (concat r) + length (concat (map fst (take (Suc k) ((p, t) # ps)))) < n \<longrightarrow> length r + Suc k \<le> 5" if "k \<le> length ps" for k
    using assms that unfolding segments_fit_def by (metis Suc_le_mono length_Cons)
  show "segments_fit ps (r @ [p]) n" using * by (simp add: segments_fit_def)
  show "length (concat (r @ [p])) < n \<Longrightarrow> length (r @ [p]) \<le> 5" using * [of 0] by simp
qed

lemma head_segments:
  assumes h: "header_ok hdr (length body)" and u: "uri_ok uri" and l: "length (post_head uri hdr) \<le> 1023"
    and b: "body \<noteq> []" "length body < 10 ^ 8"
  shows "[] \<notin> fst ` set ps \<Longrightarrow> concat r @ concat (map fst ps) = post_head uri hdr @ body \<Longrightarrow>
     length (concat r) < length (post_head uri hdr) \<Longrightarrow> segments_fit ps r (length (post_head uri hdr)) \<Longrightarrow>
     \<exists>ds. ds \<noteq> [] \<and> concat ds = body
       \<and> take_in E S ps (Some (http_state_init\<lparr>hs_req := r\<rparr>)) t0 hh = respond E S (snd (last ps)) (post E uri ds hh)"
proof (induction ps arbitrary: r t0)
  case Nil
  then have "length (concat r) = length (post_head uri hdr @ body)" by simp
  then show ?case using Nil by simp
next
  case (Cons pt ps)
  obtain p t where pt: "pt = (p, t)" by (cases pt)
  let ?H = "post_head uri hdr"
  have c: "concat (r @ [p]) @ concat (map fst ps) = ?H @ body" using Cons.prems(2) pt by simp
  note fit = segments_fit_step [OF Cons.prems(4) [unfolded pt]]
  show ?case
  proof (cases "length (concat (r @ [p])) < length ?H")
    case True
    have "concat (r @ [p]) = take (length (concat (r @ [p]))) (?H @ body)" unfolding c [symmetric] by simp
    then have "concat (r @ [p]) = take (length (concat (r @ [p]))) ?H" using True by simp
    from head_incomplete [OF h u True l this fit(2) [OF True], of E S hh]
    have "http_recv E S (Some [p]) (Some (http_state_init\<lparr>hs_req := r\<rparr>)) t hh = Some (Conn (Some (http_state_init\<lparr>hs_req := r @ [p]\<rparr>)) t hh)"
      by (simp add: recv_head)
    moreover have "ps \<noteq> []"
    proof
      assume "ps = []"
      then have "length (concat (r @ [p])) = length (?H @ body)" using c by (metis append_Nil2 concat.simps(1) list.simps(8))
      then show False using True by simp
    qed
    ultimately show ?thesis using Cons.IH [of "r @ [p]" t] Cons.prems(1) c True fit(1) pt by simp
  next
    case False
    define z where "z = drop (length ?H) (concat (r @ [p]))"
    have "take (length ?H) (concat (r @ [p])) = take (length ?H) (?H @ body)" using False unfolding c [symmetric] by simp
    then have z: "concat (r @ [p]) = ?H @ z" unfolding z_def by (metis append_eq_conv_conj append_take_drop_id)
    then have zb: "z @ concat (map fst ps) = body" using c by simp
    let ?ds = "(if z = [] then [] else [z]) @ map fst ps"
    have ds: "concat ?ds = body" using zb by (cases "z = []") simp_all
    have ln: "length z + length (concat (map fst ps)) = length body" using zb by (metis length_append)
    have "0 < length body" using b(1) by simp
    from last_of_head [OF head_complete [OF h u l this b(2) z Cons.prems(3), folded left_over_def] _ ln this]
    have "take_in E S ((p, t) # ps) (Some (http_state_init\<lparr>hs_req := r\<rparr>)) t0 hh
        = respond E S (snd (last ((p, t) # ps))) (post E uri ?ds hh)"
      using Cons.prems(1) by (simp add: post_def)
    then show ?thesis using ds b(1) pt by (metis concat.simps(1))
  qed
qed

lemma segmented_post:
  assumes "header_ok hdr (length body)" and "uri_ok uri" and "length (post_head uri hdr) \<le> 1023"
    and "body \<noteq> []" and "length body < 10 ^ 8" and "http_ok h"
    and "[] \<notin> fst ` set ps" and "concat (map fst ps) = post_head uri hdr @ body"
    and "segments_fit ps [] (length (post_head uri hdr))"
  shows "take_in E S ps (Some http_state_init) t0 h = respond E S (snd (last ps)) (post E uri [body] h)"
proof -
  have "http_state_init\<lparr>hs_req := []\<rparr> = http_state_init" by (simp add: http_state_init_def)
  moreover have "length (concat []) < length (post_head uri hdr)" by (simp add: length_post_head)
  moreover have "concat [] @ concat (map fst ps) = post_head uri hdr @ body" using assms(8) by simp
  ultimately obtain ds where ds: "ds \<noteq> []" "concat ds = body"
    "take_in E S ps (Some http_state_init) t0 h = respond E S (snd (last ps)) (post E uri ds h)"
    using head_segments [OF assms(1-5) assms(7), of "[]" E S t0 h] assms(9) by metis
  have "length uri < 64" using assms(2) by (simp add: uri_ok_def)
  then show ?thesis using ds post_pieces [OF assms(6), of uri ds E] post_pieces [OF assms(6), of uri "[body]" E] by simp
qed

subsection \<open>A connection that breaks off\<close>

definition closed_with :: "tcp \<Rightarrow> outcome option \<Rightarrow> server option" where
  "closed_with t r = (case r of None \<Rightarrow> None | Some (Running h) \<Rightarrow> Some (Conn None t h) | Some x \<Rightarrow> Some (Gone x))"

lemma broken_off:
  assumes h: "header_ok hdr n" and u: "uri_ok uri" and l: "length (post_head uri hdr) \<le> 1023" and n: "n < 10 ^ 8"
    and ok: "http_ok hh" and part: "part \<noteq> []" "length part < n" "length part < 4096"
  shows "\<exists>c h1. http_recv E S (Some [post_head uri hdr @ part]) (Some http_state_init) t hh = Some (Conn (Some c) t h1)
     \<and> http_recv E S None (Some c) t2 h1 = closed_with t2 (post E uri [part] hh)"
proof -
  have u64: "length uri < 64" using u by (simp add: uri_ok_def)
  have i: "http_state_init\<lparr>hs_req := []\<rparr> = http_state_init" by (simp add: http_state_init_def)
  let ?b = "begun uri hh"
  have b: "httpd_post_begin uri hh = Some ?b" using httpd_post_begin_eq [OF ok] u64 by simp
  have "length (post_buffer ?b) = 4096" "post_buf_write_pos ?b = 0" using ok by (simp_all add: begun_def http_ok_def)
  then obtain h1 where r: "httpd_post_receive_data part ?b = Some h1"
    using part(3) by (auto simp: httpd_post_receive_data_def poke_def)
  have "0 < n" using part(2) by simp
  have "concat ([] @ [post_head uri hdr @ part]) = post_head uri hdr @ part" by simp
  note c = head_complete [OF h u l \<open>0 < n\<close> n this, unfolded i, folded left_over_def]
  have "length (concat []) < length (post_head uri hdr)" by (simp add: length_post_head)
  note c = c [OF this, of E S hh]
  have "http_parse_request E S [post_head uri hdr @ part] http_state_init hh = Some (Parsed ERR_OK (left_over (n - length part)) h1)"
    unfolding c using b r part body_piece [of part n E S ?b] by simp
  then have "http_recv E S (Some [post_head uri hdr @ part]) (Some http_state_init) t hh = Some (Conn (Some (left_over (n - length part))) t h1)"
    using recv_head [of E S "post_head uri hdr @ part" "[]" hh _ t, unfolded i] part(2) by simp
  moreover have "http_recv E S None (Some (left_over (n - length part))) t2 h1 = closed_with t2 (post E uri [part] hh)"
    using part(2) b r by (simp add: http_recv_def http_close_conn_def closed_with_def post_def split: option.split outcome.split)
  ultimately show ?thesis by blast
qed

end
