(* ===== verification/Answers.thy ===== *)
theory Answers
  imports Segments Serving
begin

section \<open>The answer of the server\<close>

text \<open>
  The sending side of the server: over any sequence of callbacks the client gets the bytes of the answer in order, and all
  of them before the connection is closed (\<open>get_answered\<close>).
\<close>

text \<open>What is still to be sent: the rest of the headers, of the block in memory and of the stored file.\<close>

definition file_left :: "site \<Rightarrow> hstate \<Rightarrow> bytes" where
  "file_left S hs = (if hs_handle hs \<and> is_custom_file (file_handle hs)
     then drop (ff_index (file_handle hs)) (case stored S (fname (file_handle hs)) of Some c \<Rightarrow> c | None \<Rightarrow> []) else [])"

definition block_left :: "http \<Rightarrow> hstate \<Rightarrow> bytes" where
  "block_left h hs = (case hs_file hs of Some p \<Rightarrow> take (hs_left hs) (at_place p h) | None \<Rightarrow> [])"

definition to_send :: "site \<Rightarrow> http \<Rightarrow> hstate \<Rightarrow> bytes" where
  "to_send S h hs = headers_left hs @ block_left h hs @ file_left S hs"

definition headers_ok :: "hstate \<Rightarrow> bool" where
  "headers_ok hs \<longleftrightarrow> length (hs_hdrs hs) = 3 \<and> (\<forall>i. hdr_index hs \<le> i \<and> i < 3 \<longrightarrow> hs_hdrs hs ! i \<noteq> [])
     \<and> (hdr_index hs < 3 \<longrightarrow> hdr_pos hs < length (hs_hdrs hs ! hdr_index hs)) \<and> (\<not> hdr_index hs < 3 \<longrightarrow> hdr_pos hs = 0)"

definition sending :: "site \<Rightarrow> http \<Rightarrow> hstate \<Rightarrow> bool" where
  "sending S h hs \<longleftrightarrow> headers_ok hs \<and> post_content_len_left hs = 0 \<and> (hs_handle hs \<longleftrightarrow> hs_file hs \<noteq> None)
     \<and> (case hs_file hs of Some p \<Rightarrow> hs_left hs \<le> length (at_place p h) | None \<Rightarrow> hs_left hs = 0)
     \<and> (case hs_buf hs of Some n \<Rightarrow> 0 < n | None \<Rightarrow> True)
     \<and> (hs_handle hs \<longrightarrow> (if is_custom_file (file_handle hs)
          then ff_index (file_handle hs) \<le> ff_len (file_handle hs)
            \<and> (\<exists>c. stored S (fname (file_handle hs)) = Some c \<and> ff_len (file_handle hs) = length c)
          else ff_index (file_handle hs) = ff_len (file_handle hs)))"

lemma write_less_some:
  "write_less bs len t = (Some n, t') \<Longrightarrow> n \<le> len \<and> written t' = written t @ take n bs \<and> (0 < len \<longrightarrow> 0 < n)"
proof (induction bs len t rule: write_less.induct)
  case (1 bs len t)
  show ?case
  proof (cases "fst (tcp_write (take len bs) t)")
    case True
    then show ?thesis using "1.prems" unfolding write_less.simps [of bs len t]
      by (auto simp: tcp_write_def split: if_splits)
  next
    case False
    then have t: "tcp_write (take len bs) t = (False, t)" by (auto simp: tcp_write_def)
    then show ?thesis using "1.prems" "1.IH" [OF refl, of False t] unfolding write_less.simps [of bs len t]
      by (auto simp: Let_def split: if_splits)
  qed
qed

lemma write_less_none: "write_less bs len t = (None, t') \<Longrightarrow> t' = t"
proof (induction bs len t rule: write_less.induct)
  case (1 bs len t)
  show ?case
  proof (cases "fst (tcp_write (take len bs) t)")
    case True
    then show ?thesis using "1.prems" unfolding write_less.simps [of bs len t] by (auto split: prod.splits)
  next
    case False
    then have t: "tcp_write (take len bs) t = (False, t)" by (auto simp: tcp_write_def)
    then show ?thesis using "1.prems" "1.IH" [OF refl, of False t] unfolding write_less.simps [of bs len t]
      by (auto simp: Let_def split: if_splits)
  qed
qed

lemma http_write_effect:
  assumes "http_write bs t = (ok, n, t')"
  shows "n \<le> length bs" "written t' = written t @ take n bs" "\<not> ok \<Longrightarrow> n = 0 \<and> t' = t"
proof -
  let ?len = "min (min (length bs) (sndbuf t)) (2 * tcp_mss t)"
  have c: "n \<le> length bs \<and> written t' = written t @ take n bs \<and> (\<not> ok \<longrightarrow> n = 0 \<and> t' = t)"
  proof (cases "write_less bs ?len t")
    case (Pair w t1)
    show ?thesis
    proof (cases w)
      case None
      then show ?thesis using assms Pair write_less_none [of bs ?len t t1] by (auto simp: http_write_def Let_def split: if_splits)
    next
      case (Some k)
      then show ?thesis using assms Pair write_less_some [of bs ?len t k t1] by (auto simp: http_write_def Let_def split: if_splits)
    qed
  qed
  then show "n \<le> length bs" "written t' = written t @ take n bs" "\<not> ok \<Longrightarrow> n = 0 \<and> t' = t" by simp_all
qed

text \<open>A connection with room in its send buffer and memory for the write.\<close>

definition roomy :: "tcp \<Rightarrow> bool" where
  "roomy t \<longleftrightarrow> 0 < sndbuf t \<and> 0 < tcp_mss t \<and> (\<forall>k n. has_memory t k n) \<and> can_alloc t (2 * tcp_mss t)"

lemma http_write_some:
  assumes "roomy t" and "bs \<noteq> []"
  shows "0 < fst (snd (http_write bs t))"
proof -
  let ?len = "min (min (length bs) (sndbuf t)) (2 * tcp_mss t)"
  have "fst (write_less bs ?len t) = Some ?len"
  proof -
    have "length (take ?len bs) \<le> sndbuf t" by simp
    then show ?thesis using assms(1) by (simp add: write_less.simps [of bs ?len t] tcp_write_def roomy_def Let_def del: length_take)
  qed
  then show ?thesis using assms by (auto simp: http_write_def Let_def roomy_def split: prod.split)
qed


lemma NUM_FILE_HDR_STRINGS [simp]: "NUM_FILE_HDR_STRINGS = 3"
  by (simp add: NUM_FILE_HDR_STRINGS_def)

definition past :: "nat \<Rightarrow> hstate \<Rightarrow> hstate" where
  "past n hs = (let hs = hs\<lparr>hdr_pos := hdr_pos hs + n\<rparr>
     in if hdr_pos hs = length (hs_hdrs hs ! hdr_index hs) then hs\<lparr>hdr_index := hdr_index hs + 1, hdr_pos := 0\<rparr> else hs)"

lemma past_header:
  assumes "headers_ok hs" and "hdr_index hs < 3" and "n \<le> length (hs_hdrs hs ! hdr_index hs) - hdr_pos hs"
  shows "headers_ok (past n hs)"
    "headers_left hs = take n (drop (hdr_pos hs) (hs_hdrs hs ! hdr_index hs)) @ headers_left (past n hs)"
proof -
  let ?i = "hdr_index hs" and ?r = "concat (drop (Suc (hdr_index hs)) (hs_hdrs hs))"
  have g: "length (hs_hdrs hs) = 3" "hdr_pos hs < length (hs_hdrs hs ! ?i)" using assms by (simp_all add: headers_ok_def)
  have l: "concat (drop ?i (hs_hdrs hs)) = hs_hdrs hs ! ?i @ ?r"
    using g(1) assms(2) by (metis Cons_nth_drop_Suc concat.simps(2))
  show "headers_ok (past n hs)" using assms g by (auto simp: headers_ok_def past_def Let_def)
  show "headers_left hs = take n (drop (hdr_pos hs) (hs_hdrs hs ! ?i)) @ headers_left (past n hs)"
  proof (cases "hdr_pos hs + n = length (hs_hdrs hs ! ?i)")
    case True
    then show ?thesis using g l by (simp add: headers_left_def past_def)
  next
    case False
    then have "headers_left (past n hs) = drop (hdr_pos hs + n) (hs_hdrs hs ! ?i) @ ?r"
      using g l assms(3) by (simp add: headers_left_def past_def Let_def)
    moreover have "headers_left hs = drop (hdr_pos hs) (hs_hdrs hs ! ?i) @ ?r" using g l by (simp add: headers_left_def)
    moreover have "drop (hdr_pos hs) (hs_hdrs hs ! ?i) = take n (drop (hdr_pos hs) (hs_hdrs hs ! ?i)) @ drop (hdr_pos hs + n) (hs_hdrs hs ! ?i)"
      by (metis append_take_drop_id drop_drop add.commute)
    ultimately show ?thesis by simp
  qed
qed

text \<open>The fields that sending headers leaves alone.\<close>

definition same_file :: "hstate \<Rightarrow> hstate \<Rightarrow> bool" where
  "same_file hs hs' \<longleftrightarrow> file_handle hs' = file_handle hs \<and> hs_handle hs' = hs_handle hs \<and> hs_file hs' = hs_file hs
     \<and> hs_buf hs' = hs_buf hs \<and> hs_left hs' = hs_left hs \<and> post_content_len_left hs' = post_content_len_left hs"

lemma same_file_past: "same_file hs (past n hs)"
  by (simp add: same_file_def past_def Let_def)

lemma same_file_trans: "same_file a b \<Longrightarrow> same_file b c \<Longrightarrow> same_file a c"
  by (simp add: same_file_def)

lemma headers_from_step:
  assumes "0 < len" and "hdr_index hs < 3"
    and "http_write (take (min len (length (hs_hdrs hs ! hdr_index hs) - hdr_pos hs)) (drop (hdr_pos hs) (hs_hdrs hs ! hdr_index hs))) t = (ok, n, t')"
  shows "\<exists>data'. headers_from len hs t data = (if n = 0 then (past n hs, t', data') else headers_from (len - n) (past n hs) t' data')"
  using assms by (simp add: headers_from.simps [of len hs t data] past_def Let_def) metis

lemma headers_from_effect:
  "headers_ok hs \<Longrightarrow> headers_from len hs t data = (hs', t', data') \<Longrightarrow>
     headers_ok hs' \<and> same_file hs hs' \<and> (\<exists>w. written t' = written t @ w \<and> headers_left hs = w @ headers_left hs')"
proof (induction len arbitrary: hs t data rule: less_induct)
  case (less len)
  show ?case
  proof (cases "0 < len \<and> hdr_index hs < 3")
    case False
    then show ?thesis using less.prems by (auto simp: headers_from.simps [of len hs t data] same_file_def)
  next
    case True
    let ?hdr = "hs_hdrs hs ! hdr_index hs" and ?s = "min len (length (hs_hdrs hs ! hdr_index hs) - hdr_pos hs)"
    obtain ok n t1 where w: "http_write (take ?s (drop (hdr_pos hs) ?hdr)) t = (ok, n, t1)" by (cases "http_write (take ?s (drop (hdr_pos hs) ?hdr)) t")
    obtain d where d: "headers_from len hs t data = (if n = 0 then (past n hs, t1, d) else headers_from (len - n) (past n hs) t1 d)"
      using headers_from_step [OF _ _ w, of data] True by blast
    note e = http_write_effect [OF w]
    have n: "n \<le> length ?hdr - hdr_pos hs" using e(1) by simp
    have t1: "written t1 = written t @ take n (drop (hdr_pos hs) ?hdr)" using e(1,2) by (simp add: min_def split: if_splits)
    note p = past_header [OF less.prems(1) _ n]
    show ?thesis
    proof (cases "n = 0")
      case n0: True
      then show ?thesis using less.prems d t1 p True same_file_past by auto
    next
      case False
      then obtain w where "headers_ok hs'" "same_file (past n hs) hs'" "written t' = written t1 @ w" "headers_left (past n hs) = w @ headers_left hs'"
        using less.IH [of "len - n" "past n hs" t1 d] less.prems d p(1) True by auto
      then show ?thesis using t1 p(2) True same_file_trans [OF same_file_past] by auto
    qed
  qed
qed

text \<open>Something is sent where there is room.\<close>

lemma headers_from_some:
  assumes "headers_ok hs" and "headers_from len hs t data = (hs', t', data')" and "roomy t" and "0 < len" and "hdr_index hs < 3"
  shows "length (written t) < length (written t')"
proof -
  let ?hdr = "hs_hdrs hs ! hdr_index hs" and ?s = "min len (length (hs_hdrs hs ! hdr_index hs) - hdr_pos hs)"
  have pos: "hdr_pos hs < length ?hdr" using assms(1,5) by (simp add: headers_ok_def)
  obtain ok n t1 where w: "http_write (take ?s (drop (hdr_pos hs) ?hdr)) t = (ok, n, t1)" by (cases "http_write (take ?s (drop (hdr_pos hs) ?hdr)) t")
  obtain d where d: "headers_from len hs t data = (if n = 0 then (past n hs, t1, d) else headers_from (len - n) (past n hs) t1 d)"
    using headers_from_step [OF assms(4,5) w, of data] by blast
  have "take ?s (drop (hdr_pos hs) ?hdr) \<noteq> []" using pos assms(4) by simp
  from http_write_some [OF assms(3) this] have n: "0 < n" unfolding w by simp
  note e = http_write_effect [OF w]
  have "length (written t) < length (written t1)" using e(1,2) n by simp
  moreover have "headers_ok (past n hs)" using past_header(1) [OF assms(1,5), of n] e(1) by simp
  then obtain w where "written t' = written t1 @ w"
    using headers_from_effect [of "past n hs" "len - n" t1 d hs' t' data'] d n assms(2) by auto
  ultimately show ?thesis by simp
qed


definition goes_on :: "site \<Rightarrow> http \<Rightarrow> hstate \<Rightarrow> tcp \<Rightarrow> hstate \<Rightarrow> tcp \<Rightarrow> bool" where
  "goes_on S h hs t hs' t' \<longleftrightarrow> sending S h hs' \<and> (\<exists>w. written t' = written t @ w \<and> to_send S h hs = w @ to_send S h hs')"

lemma goes_on_refl: "sending S h hs \<Longrightarrow> goes_on S h hs t hs t"
  by (simp add: goes_on_def)

lemma goes_on_trans: "goes_on S h a t b u \<Longrightarrow> goes_on S h b u c v \<Longrightarrow> goes_on S h a t c v"
  by (auto simp: goes_on_def)

lemma sending_same_file:
  "same_file hs hs' \<Longrightarrow> sending S h hs \<Longrightarrow> headers_ok hs' \<Longrightarrow> sending S h hs'"
  "same_file hs hs' \<Longrightarrow> block_left h hs' = block_left h hs \<and> file_left S hs' = file_left S hs"
  by (cases "hs_file hs"; simp add: same_file_def sending_def block_left_def file_left_def)+

lemma http_send_headers_after:
  assumes "sending S h hs" and "http_send_headers hs t = (go, hs', t')"
  shows "goes_on S h hs t hs' t'" "go = HTTP_DATA_TO_SEND_BREAK \<longleftrightarrow> hdr_index hs' < 3 \<or> hs_file hs' = None"
    "hdr_index hs < 3 \<Longrightarrow> roomy t \<Longrightarrow> length (written t) < length (written t')"
proof -
  obtain data where f: "headers_from (sndbuf t) hs t False = (hs', t', data)"
    and go: "go = (if hdr_index hs' < 3 \<or> hs_file hs' = None then HTTP_DATA_TO_SEND_BREAK
          else if data then HTTP_DATA_TO_SEND_CONTINUE else HTTP_NO_DATA_TO_SEND)"
    using assms(2) by (auto simp: http_send_headers_def Let_def split: prod.splits)
  have ok: "headers_ok hs" using assms(1) by (simp add: sending_def)
  from headers_from_effect [OF ok f] sending_same_file [of hs hs'] assms(1)
  show "goes_on S h hs t hs' t'" by (auto simp: goes_on_def to_send_def)
  show "go = HTTP_DATA_TO_SEND_BREAK \<longleftrightarrow> hdr_index hs' < 3 \<or> hs_file hs' = None" by (simp add: go)
  show "length (written t) < length (written t')" if "hdr_index hs < 3" "roomy t"
  proof -
    have "0 < sndbuf t" using that(2) by (simp add: roomy_def)
    from headers_from_some [OF ok f that(2) this that(1)] show ?thesis .
  qed
qed

text \<open>A new block from the file.\<close>

lemma fs_bytes_left_sending:
  "sending S h hs \<Longrightarrow> hs_handle hs \<Longrightarrow> fs_bytes_left (file_handle hs) \<le> 0 \<longleftrightarrow> file_left S hs = []"
  by (auto simp: sending_def fs_bytes_left_def file_left_def split: if_splits)

lemma alloc_block_pos: "alloc_block n t = Some k \<Longrightarrow> 0 < n \<Longrightarrow> 0 < k"
  by (induction n t rule: alloc_block.induct) (auto simp: alloc_block.simps split: if_splits)

lemma http_check_eof_block:
  assumes "sending S h hs" and "hs_left hs = 0" and "0 < tcp_mss t"
  shows "case http_check_eof S hs t of
           At_end \<Rightarrow> block_left h hs = [] \<and> file_left S hs = []
         | Wait hs' \<Rightarrow> hs' = hs \<and> file_left S hs \<noteq> [] \<and> (roomy t \<longrightarrow> False)
         | Block hs' \<Rightarrow> goes_on S h hs t hs' t \<and> hs_left hs' \<noteq> 0 \<and> hdr_index hs' = hdr_index hs"
proof -
  have b: "block_left h hs = []" using assms(2) by (simp add: block_left_def split: option.split)
  show ?thesis
  proof (cases "\<not> hs_handle hs \<or> fs_bytes_left (file_handle hs) \<le> 0")
    case True
    then have "file_left S hs = []" using fs_bytes_left_sending [OF assms(1)] by (auto simp: file_left_def)
    then show ?thesis using True b by (simp add: http_check_eof_def)
  next
    case False
    then have c: "is_custom_file (file_handle hs)" "hs_handle hs" "file_left S hs \<noteq> []"
      using assms(1) fs_bytes_left_sending [OF assms(1)] by (auto simp: file_left_def split: if_splits)
    then obtain c0 where s: "stored S (fname (file_handle hs)) = Some c0" "ff_len (file_handle hs) = length c0"
      "ff_index (file_handle hs) < length c0"
      using assms(1) False by (auto simp: sending_def fs_bytes_left_def)
    let ?b = "(case hs_buf hs of Some n \<Rightarrow> Some n | None \<Rightarrow> alloc_block (2 * tcp_mss t) t)"
    show ?thesis
    proof (cases ?b)
      case None
      then have "\<not> roomy t" by (auto simp: roomy_def alloc_block.simps [of "2 * tcp_mss t"] split: option.splits)
      then show ?thesis using None False c by (simp add: http_check_eof_def)
    next
      case (Some n)
      let ?f = "file_handle hs"
      let ?n = "min (length c0 - ff_index ?f) n" and ?c = "case stored S (fname ?f) of Some c \<Rightarrow> c | None \<Rightarrow> []"
      have n: "0 < n" using Some assms(1,3) alloc_block_pos [of "2 * tcp_mss t" t n] by (auto simp: sending_def split: option.splits)
      let ?hs = "hs\<lparr>hs_buf := Some n, file_handle := ?f\<lparr>ff_index := ff_index ?f + ?n\<rparr>, hs_left := ?n, hs_file := Some (At (take ?n (drop (ff_index ?f) c0)))\<rparr>"
      have r: "http_check_eof S hs t = Block ?hs"
        using False Some c s by (simp add: http_check_eof_def fs_read_def fs_read_custom_def Let_def)
      have "sending S h ?hs" using assms(1) c s n by (simp add: sending_def headers_ok_def at_place_def)
      moreover have "to_send S h ?hs = to_send S h hs"
      proof -
        have "drop (ff_index ?f) c0 = take ?n (drop (ff_index ?f) c0) @ drop (ff_index ?f + ?n) c0"
          by (metis append_take_drop_id drop_drop add.commute)
        then show ?thesis using c s b by (simp add: to_send_def headers_left_def block_left_def file_left_def at_place_def)
      qed
      ultimately show ?thesis using r s n by (simp add: goes_on_def)
    qed
  qed
qed


lemma headers_left_done: "headers_ok hs \<Longrightarrow> \<not> hdr_index hs < 3 \<Longrightarrow> headers_left hs = []"
  by (simp add: headers_ok_def headers_left_def)

lemma http_send_data_after:
  assumes "sending S h hs" and "hs_left hs \<noteq> 0" and "\<not> hdr_index hs < 3"
  shows "\<exists>ok hs' t'. http_send_data_nonssi hs t h = Some (ok, hs', t') \<and> goes_on S h hs t hs' t' \<and> hdr_index hs' = hdr_index hs
           \<and> (roomy t \<longrightarrow> length (written t) < length (written t'))"
proof -
  obtain p where p: "hs_file hs = Some p" "hs_left hs \<le> length (at_place p h)"
    using assms by (auto simp: sending_def split: option.splits)
  let ?len = "min (hs_left hs) 0xFFFF"
  let ?bs = "take ?len (at_place p h)"
  have l: "length ?bs = ?len" using p(2) by simp
  obtain ok n t1 where w: "http_write ?bs t = (ok, n, t1)" by (cases "http_write ?bs t")
  note e = http_write_effect [OF w]
  have "n \<le> ?len" using e(1) unfolding l .
  then have n: "n \<le> hs_left hs" "n \<le> length (at_place p h)" "take n ?bs = take n (at_place p h)" using p(2) by simp_all
  let ?hs = "hs\<lparr>hs_file := Some (advance n p), hs_left := hs_left hs - n\<rparr>"
  have a: "at_place (advance n p) h = drop n (at_place p h)" by (simp add: at_place_def advance_def ac_simps split: place_of.split)
  have "sending S h ?hs" using assms(1) p n by (simp add: sending_def headers_ok_def a)
  moreover have "to_send S h hs = headers_left hs @ take n (at_place p h) @ block_left h ?hs @ file_left S ?hs"
  proof -
    have "take (hs_left hs) (at_place p h) = take n (at_place p h) @ take (hs_left hs - n) (drop n (at_place p h))"
      using n(1) by (metis le_add_diff_inverse take_add)
    then show ?thesis using p by (simp add: to_send_def block_left_def file_left_def a)
  qed
  moreover have "headers_left ?hs = []" "headers_left hs = []" using headers_left_done assms(1,3) by (simp_all add: sending_def headers_ok_def headers_left_def)
  ultimately have "goes_on S h hs t ?hs t1" using e(2) n(3) by (auto simp: goes_on_def to_send_def)
  moreover have "goes_on S h hs t hs t1 \<and> n = 0" if "\<not> ok" using e(3) [OF that] assms(1) by (simp add: goes_on_refl)
  moreover have "length (written t) < length (written t1)" if "roomy t"
  proof -
    have "?bs \<noteq> []" using l assms(2) by auto
    from http_write_some [OF that this] have "0 < n" unfolding w by simp
    then show ?thesis using e(1,2) by simp
  qed
  moreover have "http_send_data_nonssi hs t h = Some (if ok then (True, ?hs, t1) else (False, hs, t1))"
    using l w p(1) by (simp add: http_send_data_nonssi_def Let_def)
  ultimately show ?thesis by auto
qed


lemma http_close_sending: "sending S h hs \<Longrightarrow> http_close_conn E (Some hs) t h = Some (Conn None t h)"
  by (simp add: sending_def http_close_conn_def)

lemma nothing_left:
  assumes "sending S h hs" and "\<not> hdr_index hs < 3" and "block_left h hs = []" and "file_left S hs = []"
  shows "to_send S h hs = []"
  using assms headers_left_done [of hs] by (simp add: to_send_def sending_def)

text \<open>One turn of sending: everything that was written comes off what is to be sent, and the connection is closed when
  nothing is left.\<close>

definition turn :: "site \<Rightarrow> http \<Rightarrow> hstate \<Rightarrow> tcp \<Rightarrow> server option \<Rightarrow> bool" where
  "turn S h hs t r \<longleftrightarrow> (case r of
     Some (Conn (Some hs') t' h') \<Rightarrow> h' = h \<and> goes_on S h hs t hs' t' \<and> (roomy t \<longrightarrow> length (written t) < length (written t'))
   | Some (Conn None t' h') \<Rightarrow> h' = h \<and> written t' = written t @ to_send S h hs
   | _ \<Rightarrow> False)"

lemma turn_cases:
  assumes "turn S h hs t r"
  obtains (finished) t' where "r = Some (Conn None t' h)" "written t' = written t @ to_send S h hs"
  | (more) hs' t' where "r = Some (Conn (Some hs') t' h)" "goes_on S h hs t hs' t'" "roomy t \<longrightarrow> length (written t) < length (written t')"
proof (cases r)
  case (Some x)
  show thesis
  proof (cases x)
    case (Conn c t' h')
    then show thesis using assms Some finished more by (cases c) (simp_all add: turn_def)
  qed (use assms Some in \<open>simp add: turn_def\<close>)
qed (use assms in \<open>simp add: turn_def\<close>)

lemma turn_close: "sending S h hs' \<Longrightarrow> goes_on S h hs t hs' t' \<Longrightarrow> to_send S h hs' = [] \<Longrightarrow> turn S h hs t (http_close_conn E (Some hs') t' h)"
  by (auto simp: turn_def http_close_sending goes_on_def)

lemma send_block:
  assumes "goes_on S h hs0 t hs t" and "hs_left hs \<noteq> 0" and "\<not> hdr_index hs < 3"
  shows "turn S h hs0 t (do {
                  (sent, hs, t) \<leftarrow> http_send_data_nonssi hs t h;
                  (if hs_left hs = 0 \<and> fs_bytes_left (file_handle hs) \<le> 0 then http_close_conn E (Some hs) t h
                   else Some (Conn (Some hs) t h)) })"
proof -
  have s: "sending S h hs" using assms(1) by (simp add: goes_on_def)
  obtain ok hs' t' where d: "http_send_data_nonssi hs t h = Some (ok, hs', t')" "goes_on S h hs t hs' t'" "hdr_index hs' = hdr_index hs"
    "roomy t \<longrightarrow> length (written t) < length (written t')"
    using http_send_data_after [OF s assms(2,3)] by blast
  have a: "goes_on S h hs0 t hs' t'" using goes_on_trans [OF assms(1) d(2)] .
  have s': "sending S h hs'" using d(2) by (simp add: goes_on_def)
  show ?thesis
  proof (cases "hs_left hs' = 0 \<and> fs_bytes_left (file_handle hs') \<le> 0")
    case False
    then show ?thesis using d a by (auto simp: turn_def)
  next
    case True
    then have "file_left S hs' = []" using fs_bytes_left_sending [OF s'] by (cases "hs_handle hs'") (auto simp: file_left_def)
    moreover have "block_left h hs' = []" using True by (simp add: block_left_def split: option.split)
    ultimately have "to_send S h hs' = []" using nothing_left [OF s'] assms(3) d(3) by simp
    from turn_close [OF s' a this, of E] show ?thesis using True d(1) by simp
  qed
qed

lemma send_rest_turn:
  assumes "sending S h hs" and "\<not> hdr_index hs < 3" and "0 < tcp_mss t"
  shows "turn S h hs t (send_rest E S hs t h)"
proof (cases "hs_left hs = 0")
  case False
  then show ?thesis using send_block [OF goes_on_refl [OF assms(1)] False assms(2)] by (simp add: send_rest_def)
next
  case True
  note c = http_check_eof_block [OF assms(1) True assms(3)]
  show ?thesis
  proof (cases "http_check_eof S hs t")
    case At_end
    then have "to_send S h hs = []" using c nothing_left [OF assms(1,2)] by simp
    from turn_close [OF assms(1) goes_on_refl [OF assms(1)] this] show ?thesis using At_end True by (simp add: send_rest_def)
  next
    case (Wait hs')
    then show ?thesis using c True goes_on_refl [OF assms(1)] by (auto simp: send_rest_def turn_def)
  next
    case (Block hs')
    then show ?thesis using c True assms(2) send_block [of S h hs t hs' E] by (simp add: send_rest_def)
  qed
qed

lemma turn_trans:
  assumes "goes_on S h hs t hs' t'" and "turn S h hs' t' r" and "roomy t \<longrightarrow> length (written t) < length (written t')"
  shows "turn S h hs t r"
proof (cases r)
  case (Some x)
  show ?thesis
  proof (cases x)
    case (Conn c u k)
    show ?thesis
    proof (cases c)
      case None
      then show ?thesis using assms Some Conn by (auto simp: turn_def goes_on_def)
    next
      case s: (Some b)
      then have a: "k = h" "goes_on S h hs' t' b u" using assms(2) Some Conn by (auto simp: turn_def)
      have "length (written t') \<le> length (written u)" using a(2) by (auto simp: goes_on_def)
      then show ?thesis using goes_on_trans [OF assms(1) a(2)] a(1) assms(3) Some Conn s by (auto simp: turn_def)
    qed
  qed (use assms(2) Some in \<open>simp add: turn_def\<close>)
qed (use assms(2) in \<open>simp add: turn_def\<close>)

lemma write_less_mss: "write_less bs len t = (x, t') \<Longrightarrow> tcp_mss t' = tcp_mss t"
proof (induction bs len t rule: write_less.induct)
  case (1 bs len t)
  have w: "tcp_mss (snd (tcp_write b t)) = tcp_mss t" for b by (simp add: tcp_write_def)
  show ?case
    using "1.prems" "1.IH" [OF refl prod.collapse] w unfolding write_less.simps [of bs len t]
    by (auto simp: Let_def tcp_write_def split: if_splits)
qed

lemma http_write_mss: "http_write bs t = (ok, n, t') \<Longrightarrow> tcp_mss t' = tcp_mss t"
  by (auto simp: http_write_def Let_def dest: write_less_mss split: if_splits prod.splits option.splits)

lemma headers_from_mss: "headers_from len hs t data = (hs', t', data') \<Longrightarrow> tcp_mss t' = tcp_mss t"
proof (induction len arbitrary: hs t data rule: less_induct)
  case (less len)
  show ?case
  proof (cases "0 < len \<and> hdr_index hs < 3")
    case False
    then show ?thesis using less.prems by (auto simp: headers_from.simps [of len hs t data])
  next
    case True
    let ?hdr = "hs_hdrs hs ! hdr_index hs" and ?s = "min len (length (hs_hdrs hs ! hdr_index hs) - hdr_pos hs)"
    obtain ok n t1 where w: "http_write (take ?s (drop (hdr_pos hs) ?hdr)) t = (ok, n, t1)" by (cases "http_write (take ?s (drop (hdr_pos hs) ?hdr)) t")
    obtain d where d: "headers_from len hs t data = (if n = 0 then (past n hs, t1, d) else headers_from (len - n) (past n hs) t1 d)"
      using headers_from_step [OF _ _ w, of data] True by blast
    then show ?thesis using less.IH [of "len - n" "past n hs" t1 d] less.prems http_write_mss [OF w] True by (auto split: if_splits)
  qed
qed

lemma http_send_headers_mss: "http_send_headers hs t = (go, hs', t') \<Longrightarrow> tcp_mss t' = tcp_mss t"
  by (auto simp: http_send_headers_def Let_def dest: headers_from_mss split: prod.splits)

lemma http_send_turn:
  assumes "sending S h hs" and "0 < tcp_mss t"
  shows "turn S h hs t (http_send E S hs t h)"
proof (cases "hdr_index hs < 3")
  case False
  then show ?thesis using send_rest_turn [OF assms(1) False assms(2)] by (simp add: http_send_def)
next
  case True
  obtain go hs' t' where g: "http_send_headers hs t = (go, hs', t')" by (cases "http_send_headers hs t")
  note e = http_send_headers_after [OF assms(1) g]
  show ?thesis
  proof (cases "go = HTTP_DATA_TO_SEND_CONTINUE")
    case f: False
    then show ?thesis using True g e(1) e(3) by (auto simp: http_send_def turn_def)
  next
    case t: True
    have "\<not> hdr_index hs' < 3" using e(2) t by auto
    moreover have "sending S h hs'" using e(1) by (simp add: goes_on_def)
    moreover have "0 < tcp_mss t'" using assms(2) http_send_headers_mss [OF g] by simp
    ultimately have "turn S h hs' t' (send_rest E S hs' t' h)" by (simp add: send_rest_turn)
    from turn_trans [OF e(1) this] e(3) True show ?thesis using g t by (auto simp: http_send_def)
  qed
qed


text \<open>
  The callbacks of \<open>tcp_sent\<close> with the view of the stack in each. The result is what the client gets and whether the
  connection was closed.
\<close>

fun callbacks :: "env \<Rightarrow> site \<Rightarrow> tcp list \<Rightarrow> hstate \<Rightarrow> http \<Rightarrow> (bytes \<times> bool) option" where
  "callbacks E S [] hs h = Some ([], False)"
| "callbacks E S (t # ts) hs h =
     (case http_sent E S (Some hs) (t\<lparr>written := []\<rparr>) h of
        Some (Conn None t h) \<Rightarrow> Some (written t, True)
      | Some (Conn (Some hs) t h) \<Rightarrow> map_option (\<lambda>(bs, closed). (written t @ bs, closed)) (callbacks E S ts hs h)
      | _ \<Rightarrow> None)"

lemma callback_turn:
  assumes "sending S h hs" and "0 < tcp_mss t"
  shows "turn S h hs (t\<lparr>written := []\<rparr>) (http_sent E S (Some hs) (t\<lparr>written := []\<rparr>) h)"
proof -
  let ?hs = "hs\<lparr>hs_retries := 0\<rparr>" and ?t = "t\<lparr>written := []\<rparr>"
  have f: "same_file hs ?hs" by (simp add: same_file_def)
  have "headers_ok ?hs" using assms(1) by (simp add: sending_def headers_ok_def)
  then have s: "sending S h ?hs" using sending_same_file(1) [OF f] assms(1) by blast
  have "to_send S h ?hs = to_send S h hs" using sending_same_file(2) [OF f] by (simp add: to_send_def headers_left_def)
  then have "goes_on S h hs ?t ?hs ?t" using s by (simp add: goes_on_def)
  moreover have "turn S h ?hs ?t (http_send E S ?hs ?t h)" using http_send_turn [OF s, of ?t E] assms(2) by simp
  ultimately have "turn S h hs ?t (http_send E S ?hs ?t h)" unfolding turn_def goes_on_def by (auto split: option.splits server.splits)
  then show ?thesis by (simp add: http_sent_def)
qed


text \<open>The client got the beginning of \<open>a\<close>, and all of it when the connection was closed, which enough callbacks with room do.\<close>

definition delivers :: "bytes \<Rightarrow> tcp list \<Rightarrow> (bytes \<times> bool) option \<Rightarrow> bool" where
  "delivers a ts r \<longleftrightarrow> (\<exists>bs closed rest. r = Some (bs, closed) \<and> a = bs @ rest \<and> (closed \<longrightarrow> rest = [])
     \<and> ((\<forall>t \<in> set ts. roomy t) \<and> length a < length ts \<longrightarrow> closed))"

lemma delivers_all:
  assumes "delivers a ts r" and "\<forall>t \<in> set ts. roomy t" and "length a < length ts"
  shows "r = Some (a, True)"
proof -
  obtain bs closed rest where r: "r = Some (bs, closed)" "a = bs @ rest" "closed \<longrightarrow> rest = []"
    "(\<forall>t \<in> set ts. roomy t) \<and> length a < length ts \<longrightarrow> closed"
    using assms(1) unfolding delivers_def by (elim exE conjE) (rule that)
  then have "closed" using assms(2,3) by simp
  then show ?thesis using r by simp
qed

lemma turn_delivers:
  assumes "turn S h hs (t\<lparr>written := []\<rparr>) r"
    and "\<And>hs'. sending S h hs' \<Longrightarrow> delivers (to_send S h hs') ts (callbacks E S ts hs' h)"
  shows "delivers (to_send S h hs) (t # ts) (case r of
        Some (Conn None t h) \<Rightarrow> Some (written t, True)
      | Some (Conn (Some hs) t h) \<Rightarrow> map_option (\<lambda>(bs, closed). (written t @ bs, closed)) (callbacks E S ts hs h)
      | _ \<Rightarrow> None)"
  using assms(1)
proof (cases rule: turn_cases)
  case (finished t')
  then show ?thesis unfolding delivers_def by (intro exI [of _ "written t'"] exI [of _ True] exI [of _ "[]"]) simp
next
  case (more hs' t')
  have s': "sending S h hs'" "to_send S h hs = written t' @ to_send S h hs'" using more(2) by (auto simp: goes_on_def)
  have "roomy (t\<lparr>written := []\<rparr>) = roomy t" by (simp add: roomy_def)
  then have w: "roomy t \<longrightarrow> 0 < length (written t')" using more(3) by simp
  obtain bs closed rest where c: "callbacks E S ts hs' h = Some (bs, closed)" "to_send S h hs' = bs @ rest" "closed \<longrightarrow> rest = []"
    "(\<forall>t \<in> set ts. roomy t) \<and> length (to_send S h hs') < length ts \<longrightarrow> closed"
    using assms(2) [OF s'(1)] unfolding delivers_def by (elim exE conjE) (rule that)
  have "closed" if "\<forall>t \<in> set (t # ts). roomy t" "length (to_send S h hs) < length (t # ts)"
  proof -
    have "0 < length (written t')" using that(1) w by simp
    moreover have "length (to_send S h hs) = length (written t') + length (to_send S h hs')" unfolding s'(2) by simp
    ultimately have "length (to_send S h hs') < length ts" using that(2) by (simp del: length_greater_0_conv)
    then show ?thesis using that(1) c(4) by simp
  qed
  then show ?thesis using more(1) s'(2) c(1,2,3)
    unfolding delivers_def by (intro exI [of _ "written t' @ bs"] exI [of _ closed] exI [of _ rest]) simp
qed

lemma callbacks_in_order:
  assumes "sending S h hs" and "\<forall>t \<in> set ts. 0 < tcp_mss t"
  shows "delivers (to_send S h hs) ts (callbacks E S ts hs h)"
  using assms
proof (induction ts arbitrary: hs)
  case (Cons t ts)
  have "turn S h hs (t\<lparr>written := []\<rparr>) (http_sent E S (Some hs) (t\<lparr>written := []\<rparr>) h)"
    using callback_turn [OF Cons.prems(1)] Cons.prems(2) by simp
  from turn_delivers [OF this] Cons.IH Cons.prems(2) show ?case by simp
next
  case Nil
  show ?case unfolding delivers_def by (intro exI [of _ "[]"] exI [of _ False] exI [of _ "to_send S h hs"]) simp
qed

text \<open>The answer to a name: what the lookup finds, behind the headers that its extension and name ask for.\<close>

definition headers_of :: "bytes \<Rightarrow> bytes" where
  "headers_of u = headers_left (get_http_headers (Some u) http_state_init)"

definition answer_of :: "site \<Rightarrow> http \<Rightarrow> bytes \<Rightarrow> served \<Rightarrow> bytes option" where
  "answer_of S h u x = (case x of
     Document len \<Rightarrow> Some (headers_of u @ take (unat len) (XMLBuf (dev h)))
   | Other_file name \<Rightarrow>
       (case stored S name of
          Some content \<Rightarrow> Some (headers_of name @ content)
        | None \<Rightarrow> map_option (\<lambda>(data, hdr). if hdr then data else headers_of name @ data) (built_in S name)))"

lemma headers_strings: "HTTP_HDR_NOT_FOUND \<noteq> []" "HTTP_HDR_BAD_REQUEST \<noteq> []" "HTTP_HDR_NOT_IMPL \<noteq> []" "HTTP_HDR_OK \<noteq> []"
  "HTTP_HDR_SERVER \<noteq> []" "DEFAULT_404_HTML \<noteq> []" "content_type t \<noteq> []" "HTTP_HDR_SSI \<noteq> []" "gzipped b \<noteq> []"
  by (simp_all add: HTTP_HDR_NOT_FOUND_def HTTP_HDR_BAD_REQUEST_def HTTP_HDR_NOT_IMPL_def HTTP_HDR_OK_def HTTP_HDR_SERVER_def
      DEFAULT_404_HTML_def content_type_def HTTP_HDR_SSI_def gzipped_def CR_LF_def)

lemma g_psHTTPHeaders_nonempty:
  assumes "map_of g_psHTTPHeaders e = Some t"
  shows "t \<noteq> []"
proof -
  have "list_all (\<lambda>(e, t). t \<noteq> []) g_psHTTPHeaders" by (simp add: g_psHTTPHeaders_def headers_strings del: str_Cons)
  then show ?thesis using map_of_SomeD [OF assms] by (auto simp: list_all_iff)
qed

lemma get_http_headers_ok:
  assumes "length (hs_hdrs hs) = 3" and "hdr_pos hs = 0" and "\<not> hdr_index hs < 3"
  shows "headers_ok (get_http_headers u hs)" "same_file hs (get_http_headers u hs)"
proof -
  have l: "i < 3 \<Longrightarrow> i = 0 \<or> i = 1 \<or> i = 2" for i :: nat by auto
  show "headers_ok (get_http_headers u hs)"
    using assms(2) headers_strings by (auto simp: get_http_headers_def headers_ok_def Let_def dest!: l dest: g_psHTTPHeaders_nonempty split: option.split)
  show "same_file hs (get_http_headers u hs)"
    by (simp add: get_http_headers_def same_file_def Let_def split: option.split)
qed


definition stripped :: "bytes \<Rightarrow> bytes" where
  "stripped uri = takeWhile (\<lambda>c. c \<noteq> asc CHR ''?'') uri"

lemma init_file_from:
  assumes "hs = http_state_init\<lparr>hs_req := r, file_handle := f\<rparr>"
    and "if is_custom_file f then ff_index f = 0 \<and> (\<exists>c. stored S (fname f) = Some c \<and> ff_len f = length c)
         else ff_index f = ff_len f \<and> ff_len f \<le> length (at_place (ff_data f) h)"
  shows "sending S h (http_init_file True False (Some u) h hs)"
    "to_send S h (http_init_file True False (Some u) h hs)
       = (if http_header_included f then [] else headers_of u)
         @ (if is_custom_file f then the (stored S (fname f)) else take (ff_len f) (at_place (ff_data f) h))"
proof -
  let ?a = "hs\<lparr>hs_handle := True, hs_file := Some (ff_data f), hs_left := (if is_custom_file f then 0 else ff_len f), hs_retries := 0\<rparr>"
  let ?g = "get_http_headers (Some u) ?a"
  have f: "file_handle hs = f" "file_handle ?a = f" "hs_handle ?a" by (simp_all add: assms(1))
  have i: "http_init_file True False (Some u) h hs = (if http_header_included f then ?a else ?g)"
    by (simp add: http_init_file_def f Let_def)
  have p: "length (hs_hdrs ?a) = 3" "hdr_pos ?a = 0" "\<not> hdr_index ?a < 3" "headers_ok ?a" "headers_left ?a = []"
    by (simp_all add: assms(1) http_state_init_def headers_ok_def headers_left_def)
  have s: "sending S h ?a" using assms(2) p(4) by (auto simp: sending_def assms(1) http_state_init_def)
  have b: "block_left h ?a @ file_left S ?a = (if is_custom_file f then the (stored S (fname f)) else take (ff_len f) (at_place (ff_data f) h))"
    using assms(2) by (auto simp: assms(1) block_left_def file_left_def)
  note g = get_http_headers_ok [OF p(1-3), of "Some u"]
  have hl: "headers_left ?g = headers_of u"
    by (simp add: assms(1) headers_of_def headers_left_def get_http_headers_def Let_def http_state_init_def split: option.split)
  show "sending S h (http_init_file True False (Some u) h hs)" using s sending_same_file(1) [OF g(2) s g(1)] by (simp add: i)
  show "to_send S h (http_init_file True False (Some u) h hs)
       = (if http_header_included f then [] else headers_of u)
         @ (if is_custom_file f then the (stored S (fname f)) else take (ff_len f) (at_place (ff_data f) h))"
  proof -
    have bg: "block_left h ?g @ file_left S ?g = block_left h ?a @ file_left S ?a" using sending_same_file(2) [OF g(2), of h S] by metis
    have "to_send S h ?a = headers_left ?a @ block_left h ?a @ file_left S ?a" "to_send S h ?g = headers_left ?g @ block_left h ?g @ file_left S ?g"
      by (simp_all only: to_send_def)
    then show ?thesis unfolding i p(5) hl bg b by (simp only: if_distrib [of "to_send S h"] append_Nil split: if_split) blast
  qed
qed

lemma find_file_answer:
  assumes "http_find_file E uri h = Some (x, h')" and "answer_of S h' (stripped uri) x = Some a"
    and "case x of Document len \<Rightarrow> unat len \<le> length (XMLBuf (dev h')) | Other_file name \<Rightarrow> length name < 32"
  shows "\<exists>hs. find_file E S uri False (http_state_init\<lparr>hs_req := r\<rparr>) h = Some (hs, h') \<and> sending S h' hs \<and> to_send S h' hs = a"
proof -
  let ?f0 = "file_handle http_state_init"
  let ?name = "case x of Other_file n \<Rightarrow> n | Document len \<Rightarrow> stripped uri"
  have i: "http_header_included ?f0 = False" "is_custom_file ?f0 = False" "file_handle (http_state_init\<lparr>hs_req := r\<rparr>) = ?f0" by (simp_all add: http_state_init_def)
  obtain f where f: "fs_found S x ?f0 = Some (True, f)"
    "if is_custom_file f then ff_index f = 0 \<and> (\<exists>c. stored S (fname f) = Some c \<and> ff_len f = length c)
         else ff_index f = ff_len f \<and> ff_len f \<le> length (at_place (ff_data f) h')"
    "(if http_header_included f then [] else headers_of ?name)
         @ (if is_custom_file f then the (stored S (fname f)) else take (ff_len f) (at_place (ff_data f) h')) = a"
  proof (cases x)
    case (Document len)
    then show ?thesis using assms(2,3) i
      by (intro that [of "?f0\<lparr>ff_data := In_XMLBuf 0, ff_len := unat len, ff_index := unat len\<rparr>"])
         (auto simp: fs_found_def answer_of_def at_place_def)
  next
    case (Other_file n)
    show ?thesis
    proof (cases "stored S n")
      case (Some c)
      then show ?thesis using assms(2,3) i Other_file
        by (intro that [of "?f0\<lparr>fname := n, is_custom_file := True, ff_data := At [], ff_len := length c, ff_index := 0\<rparr>"])
           (auto simp: fs_found_def answer_of_def Let_def)
    next
      case None
      then obtain d hdr where d: "built_in S n = Some (d, hdr)" using assms(2) Other_file by (auto simp: answer_of_def)
      then show ?thesis using None assms(2,3) i Other_file
        by (intro that [of "?f0\<lparr>fname := n, is_custom_file := False, ff_data := At d, ff_len := length d, ff_index := length d,
                                   http_header_included := hdr\<rparr>"])
           (auto simp: fs_found_def answer_of_def Let_def at_place_def)
    qed
  qed
  let ?hs = "http_init_file True False (Some ?name) h' (http_state_init\<lparr>hs_req := r, file_handle := f\<rparr>)"
  have "find_file E S uri False (http_state_init\<lparr>hs_req := r\<rparr>) h = Some (?hs, h')"
    using assms(1) f(1) i(3) by (simp add: find_file_def [of E S uri, folded stripped_def] Let_def)
  then show ?thesis using init_file_from [OF refl f(2), of ?name] f(3) by auto
qed


subsection \<open>A GET\<close>

definition get_head :: "bytes \<Rightarrow> bytes \<Rightarrow> bytes" where
  "get_head uri hdr = str ''GET '' @ uri @ 32 # hdr"

definition get_ok :: "bytes \<Rightarrow> bytes \<Rightarrow> bool" where
  "get_ok uri hdr \<longleftrightarrow> 0 \<notin> set uri \<and> 13 \<notin> set uri \<and> 32 \<notin> set uri \<and> strnstr hdr (CR_LF @ CR_LF) (length hdr) \<noteq> None"

lemma strnstr_shorter: "strnstr x (t # a @ b) n \<noteq> None \<Longrightarrow> strnstr x (t # a) n \<noteq> None"
proof (induction x arbitrary: n)
  case (Cons c x)
  show ?case
  proof (cases "take (length a) x = a \<and> c = t")
    case False
    then have "\<not> take (length (a @ b)) x = a @ b \<or> c \<noteq> t" by (metis append_eq_conv_conj append_take_drop_id length_append take_take min.absorb1 le_add1)
    then show ?thesis using Cons by (auto split: if_splits)
  next
    case True
    then show ?thesis using Cons.prems by (auto split: if_splits)
  qed
qed simp

lemma strnstr_long: "strnstr x (t # token) n \<noteq> None \<Longrightarrow> Suc (length token) \<le> n"
  by (cases x) (auto split: if_splits)

lemma get_segment:
  assumes "get_ok uri hdr"
  shows "http_parse_request E S [get_head uri hdr] http_state_init h
    = do { (hs, h) \<leftarrow> find_file E S uri False (http_state_init\<lparr>hs_req := [get_head uri hdr]\<rparr>) h; Some (Parsed ERR_OK hs h) }"
proof -
  let ?D = "get_head uri hdr" and ?hs = "http_state_init\<lparr>hs_req := [get_head uri hdr]\<rparr>" and ?A = "str ''GET '' @ uri @ [32]"
  have g: "0 \<notin> set ?A" "13 \<notin> set ?A" "32 \<notin> set uri" "0 \<notin> set uri" using assms by (auto simp: get_ok_def asc_def)
  have D: "?D = ?A @ hdr" "take 4 ?D = str ''GET ''" "drop 4 ?D = uri @ 32 # hdr" by (simp_all add: get_head_def asc_def)
  have n: "strnstr hdr (13 # [10, 13, 10]) (length hdr) \<noteq> None" using assms by (simp add: get_ok_def CR_LF_def)
  have e: "strnstr ?D (CR_LF @ CR_LF) (length ?D) \<noteq> None" "strnstr ?D CR_LF (length ?D) \<noteq> None"
  proof -
    have "strnstr (?A @ hdr) (13 # tok) (length ?A + length hdr) = map_option ((+) (length ?A)) (strnstr hdr (13 # tok) (length hdr))" for tok
      using g(1,2) by (rule strnstr_pass [rotated])
    then have p: "strnstr ?D (13 # tok) (length ?D) \<noteq> None \<longleftrightarrow> strnstr hdr (13 # tok) (length hdr) \<noteq> None" for tok
      unfolding D(1) by simp
    show "strnstr ?D (CR_LF @ CR_LF) (length ?D) \<noteq> None" using p n by (simp add: CR_LF_def)
    have "strnstr hdr (13 # [10]) (length hdr) \<noteq> None" using n strnstr_shorter [of hdr 13 "[10]" "[13, 10]"] by simp
    then show "strnstr ?D CR_LF (length ?D) \<noteq> None" using p [of "[10]"] by (simp add: CR_LF_def)
  qed
  have l: "4 \<le> length hdr" using strnstr_long [OF n] by simp
  have lD: "length ?D = 5 + length uri + length hdr" by (simp add: get_head_def)
  have sp: "strnstr (drop 4 ?D) [32] (length ?D - 4) = Some (length uri)"
    unfolding D(3) using strnstr_skip [of 32 uri "[]" "length ?D - 4" hdr] g(3,4) lD by simp
  have r: "request_line E S ?D False 3 ?hs h = do { (hs, h) \<leftarrow> find_file E S uri False ?hs h; Some (Parsed ERR_OK hs h) }"
  proof -
    obtain v where "strnstr ?D (CR_LF @ CR_LF) (length ?D) = Some v" using e(1) by blast
    then show ?thesis using sp D(3) by (simp add: request_line_def Let_def post_word(2) del: str_Cons)
  qed
  have "http_state_init\<lparr>hs_req := []\<rparr> = http_state_init" by (simp add: http_state_init_def)
  then have "http_parse_request E S [?D] http_state_init h = request_line E S ?D False 3 ?hs h"
    using parse_data [of "[]" ?D ?D E S h] e(2) D(2) l lD by (simp add: Let_def del: str_Cons)
  then show ?thesis using r by simp
qed

lemma get_starts:
  assumes "get_ok uri hdr" and "http_find_file E uri h = Some (x, h')" and "answer_of S h' (stripped uri) x = Some a"
    and "case x of Document len \<Rightarrow> unat len \<le> length (XMLBuf (dev h')) | Other_file name \<Rightarrow> length name < 32"
  shows "\<exists>hs. http_recv E S (Some [get_head uri hdr]) (Some http_state_init) t h = http_send E S hs t h' \<and> sending S h' hs \<and> to_send S h' hs = a"
proof -
  obtain hs where hs: "find_file E S uri False (http_state_init\<lparr>hs_req := [get_head uri hdr]\<rparr>) h = Some (hs, h')" "sending S h' hs" "to_send S h' hs = a"
    using find_file_answer [OF assms(2-4), of "[get_head uri hdr]"] by blast
  let ?hs = "hs\<lparr>hs_req := []\<rparr>"
  have f: "same_file hs ?hs" by (simp add: same_file_def)
  have "headers_ok ?hs" using hs(2) by (simp add: sending_def headers_ok_def)
  then have s: "sending S h' ?hs" using sending_same_file(1) [OF f] hs(2) by blast
  have t: "to_send S h' ?hs = a" using sending_same_file(2) [OF f] hs(3) by (simp add: to_send_def headers_left_def)
  have i: "http_state_init\<lparr>hs_req := []\<rparr> = http_state_init" by (simp add: http_state_init_def)
  have p: "post_content_len_left ?hs = 0" using hs(2) by (simp add: sending_def)
  have "http_recv E S (Some [get_head uri hdr]) (Some http_state_init) t h = http_send E S ?hs t h'"
    using recv_head [of E S "get_head uri hdr" "[]" h _ t, unfolded i, OF get_segment [OF assms(1)]] hs(1) p by simp
  then show ?thesis using s t by blast
qed

text \<open>A connection from its GET on: the segment with the request, then the callbacks of \<open>tcp_sent\<close>.\<close>

definition conversation :: "env \<Rightarrow> site \<Rightarrow> bytes \<Rightarrow> tcp list \<Rightarrow> http \<Rightarrow> (bytes \<times> bool) option" where
  "conversation E S data ts h =
     (case http_recv E S (Some [data]) (Some http_state_init) ((hd ts)\<lparr>written := []\<rparr>) h of
        Some (Conn None t h) \<Rightarrow> Some (written t, True)
      | Some (Conn (Some hs) t h) \<Rightarrow> map_option (\<lambda>(bs, closed). (written t @ bs, closed)) (callbacks E S (tl ts) hs h)
      | _ \<Rightarrow> None)"

lemma get_answered:
  assumes "get_ok uri hdr" and "http_find_file E uri h = Some (x, h')" and "answer_of S h' (stripped uri) x = Some a"
    and "case x of Document len \<Rightarrow> unat len \<le> length (XMLBuf (dev h')) | Other_file name \<Rightarrow> length name < 32"
    and "ts \<noteq> []" and "\<forall>t \<in> set ts. 0 < tcp_mss t"
  shows "delivers a ts (conversation E S (get_head uri hdr) ts h)"
proof -
  obtain t us where ts: "ts = t # us" using assms(5) by (cases ts) auto
  obtain hs where hs: "http_recv E S (Some [get_head uri hdr]) (Some http_state_init) (t\<lparr>written := []\<rparr>) h = http_send E S hs (t\<lparr>written := []\<rparr>) h'"
    "sending S h' hs" "to_send S h' hs = a"
    using get_starts [OF assms(1-4)] by blast
  have "turn S h' hs (t\<lparr>written := []\<rparr>) (http_send E S hs (t\<lparr>written := []\<rparr>) h')"
    using http_send_turn [OF hs(2)] assms(6) ts by simp
  moreover have "\<And>hs'. sending S h' hs' \<Longrightarrow> delivers (to_send S h' hs') us (callbacks E S us hs' h')"
    using callbacks_in_order assms(6) ts by simp
  ultimately have d: "delivers (to_send S h' hs) (t # us) (case http_send E S hs (t\<lparr>written := []\<rparr>) h' of
        Some (Conn None t h) \<Rightarrow> Some (written t, True)
      | Some (Conn (Some hs) t h) \<Rightarrow> map_option (\<lambda>(bs, closed). (written t @ bs, closed)) (callbacks E S us hs h)
      | _ \<Rightarrow> None)"
    by (rule turn_delivers)
  show ?thesis using d unfolding conversation_def ts list.sel hs(1,3) .
qed

end
