(* ===== verification/Over_Tcp.thy ===== *)
theory Over_Tcp
  imports Answers
begin

section \<open>A form and its page over TCP\<close>

text \<open>
  The network form, posted in segments, and the network page, fetched over another connection afterwards: the composition
  of theories \<open>Serving\<close>, \<open>Segments\<close> and \<open>Answers\<close>.
\<close>

lemma XMLOk_shows:
  assumes "sys_ok s"
  shows "\<exists>s'. XMLOk s = Some (of_nat (length (XMLBuf s')), s') \<and> XMLBuf s' = xml_header @ str ''<STATE>'' @ elem ''OK'' (str ''ok'') @ str ''</STATE>''
           \<and> sys_ok s' \<and> ee s' = ee s \<and> mac_addr s' = mac_addr s"
proof -
  let ?s = "CreateXMLHeader s"
  have pg: "page_doc ?s (\<lambda>s. do {
     s \<leftarrow> OpenTag ''STATE'' s;
     s \<leftarrow> AddTag ''OK'' (str ''ok'') s;
     s \<leftarrow> CloseTag ''STATE'' s;
     finish s }) (str (''<'' @ ''STATE'' @ ''>'') @ elem ''OK'' (str ''ok'') @ str (''</'' @ ''STATE'' @ ''>'') @ [])" (is "page_doc ?s ?f ?t")
    by (intro page_bind page_OpenTag page_AddTag page_CloseTag page_finish)
  have h: "XMLBuf ?s = xml_header" "ee ?s = ee s" "mac_addr ?s = mac_addr s" by (simp_all add: CreateXMLHeader_def xml_header_def)
  have "length xml_header < 100" "length ?t < 100" by (simp_all add: xml_header_def elem_def)
  then have l: "length (XMLBuf ?s) + length ?t < XMLBUF_SIZE" "sys_ok ?s"
    using h(1) assms by (simp_all add: XMLBUF_SIZE_def sys_ok_def CreateXMLHeader_def)
  from page_D [OF pg l(2) bufs_refl l(1)] obtain r s' where
    "?f ?s = Some r" "is_length r s'" "sys_ok s'" "bufs ?s s'" "XMLBuf s' = xml_header @ ?t" using h(1) by auto
  then show ?thesis using h by (auto simp: XMLOk_def Let_def is_length_def bufs_keep simp del: str_Cons)
qed

lemma http_find_ok:
  assumes "http_ok h" and "XMLOk (dev h) = Some (len, s)" and "name = str ''/ok.xml''"
  shows "http_find_file E name h = Some (Document len, served_as name s h)"
  by (rule http_find_xml [where p = XMLOk]) (use assms in \<open>simp_all add: xml_page_def asc_def\<close>)

lemma unat_of_nat_le: "unat (of_nat k :: u16) \<le> k"
  by (simp add: unat_of_nat)

lemma document_answer:
  "answer_of S h u (Document len) = Some (headers_of u @ take (unat len) (XMLBuf (dev h)))"
  by (simp add: answer_of_def)

text \<open>The answer to a POST, \<open>/ok.xml\<close>.\<close>

lemma responded:
  assumes "http_ok h" and "0 < tcp_mss t"
  shows "\<exists>c t1 h1. respond E S t (Some (Running h)) = Some (Conn c t1 h1) \<and> http_ok h1 \<and> ee (dev h1) = ee (dev h)
           \<and> mac_addr (dev h1) = mac_addr (dev h)"
proof -
  let ?name = "str ''/ok.xml''"
  have "sys_ok (dev h)" using assms(1) by (simp add: http_ok_def)
  from XMLOk_shows [OF this] obtain s where s: "XMLOk (dev h) = Some (of_nat (length (XMLBuf s)), s)" "sys_ok s"
    "ee s = ee (dev h)" "mac_addr s = mac_addr (dev h)" by blast
  let ?h = "served_as ?name s h"
  have len: "length ?name = 7" by simp
  have d: "dev ?h = s" "http_ok ?h" using assms(1) s(2) by (simp_all add: served_as_def http_ok_def len del: str_Cons)
  have i: "http_state_init\<lparr>hs_req := []\<rparr> = http_state_init" by (simp add: http_state_init_def)
  have l: "case Document (of_nat (length (XMLBuf s))) of Document len \<Rightarrow> unat len \<le> length (XMLBuf (dev ?h)) | Other_file name \<Rightarrow> length name < 32"
    using d(1) unat_of_nat_le by simp
  from find_file_answer [OF http_find_ok [OF assms(1) s(1) refl] document_answer l, where r = "[]", unfolded i]
  obtain hs where hs: "find_file E S ?name False http_state_init h = Some (hs, ?h)" "sending S ?h hs" by blast
  have "respond E S t (Some (Running h)) = http_send E S hs t ?h" using hs(1) by (simp add: respond_def del: str_Cons)
  with http_send_turn [OF hs(2) assms(2), of E] obtain c t1 where "respond E S t (Some (Running h)) = Some (Conn c t1 ?h)"
    by (auto elim!: turn_cases)
  then show ?thesis using d s(3,4) by auto
qed

lemma netcfg_page_length:
  assumes "net_ok n" and "length mac = 6"
  shows "length (netcfg_page mac n) < 65536"
proof -
  have ip: "length (ip_str p) \<le> 15" if "ip_ok p" for p
    using ip_str_field [OF that] by simp
  have d: "length (dec k) \<le> 5" if "k < 65536" for k
    using dec_text [of k 5] that by simp
  have "length (mac_text mac) \<le> 18" using mac_text_text [of mac] assms(2) by simp
  then show ?thesis
    using assms(1) ip [of "n_ip n"] ip [of "n_sub n"] ip [of "n_rout n"] ip [of "n_dns n"] ip [of "n_aip n"] d [of "n_http n"] d [of "n_aport n"]
    by (simp add: netcfg_page_def net_ok_def xml_header_def)
qed

lemma form_then_page:
  assumes "http_ok h" and "net_ok n" and "header_ok hdr (length (form (net_form n)))" and "length (post_head (str ''/savenet.sva'') hdr) \<le> 1023"
    and "[] \<notin> fst ` set ps" and "concat (map fst ps) = post_head (str ''/savenet.sva'') hdr @ form (net_form n)"
    and "segments_fit ps [] (length (post_head (str ''/savenet.sva'') hdr))" and "0 < tcp_mss (snd (last ps))"
    and "get_ok (str ''/mreza.xml'') ghdr" and "\<forall>t \<in> set ts. roomy t"
    and "length (headers_of (str ''/mreza.xml'') @ netcfg_page (mac_addr (dev h)) n) < length ts"
  shows "\<exists>c t1 h1. take_in E S ps (Some http_state_init) t0 h = Some (Conn c t1 h1)
     \<and> ees.after (net_fields n) (ee (dev h)) (ee (dev h1))
     \<and> conversation E S (get_head (str ''/mreza.xml'') ghdr) ts h1
         = Some (headers_of (str ''/mreza.xml'') @ netcfg_page (mac_addr (dev h)) n, True)"
proof -
  let ?body = "form (net_form n)" and ?uri = "str ''/savenet.sva''" and ?name = "str ''/mreza.xml''"
  have u: "uri_ok ?uri" by (simp add: uri_ok_def asc_def)
  have b: "?body \<noteq> []" "length ?body < 10 ^ 8" using net_form_ok [OF assms(2)] by (auto simp: form_ok_def net_form_def form_simps elem_def simp del: str_Cons)
  from savenet_then_mreza [OF assms(1,2), of "[?body]" E] obtain h' where
    p: "post E ?uri [?body] h = Some (Running h')" "http_ok h'" "mac_addr (dev h') = mac_addr (dev h)"
      "ees.after (net_fields n) (ee (dev h)) (ee (dev h'))" by auto
  from responded [OF p(2) assms(8), of E S] obtain c t1 h1 where
    r: "respond E S (snd (last ps)) (Some (Running h')) = Some (Conn c t1 h1)" "http_ok h1" "ee (dev h1) = ee (dev h')"
      "mac_addr (dev h1) = mac_addr (dev h')" by blast
  have "take_in E S ps (Some http_state_init) t0 h = Some (Conn c t1 h1)"
    using segmented_post [OF assms(3) u assms(4) b assms(1,5-7)] p(1) r(1) by simp
  moreover have "ees.after (net_fields n) (ee (dev h)) (ee (dev h1))" using p(4) r(3) by simp
  moreover have "conversation E S (get_head ?name ghdr) ts h1 = Some (headers_of ?name @ netcfg_page (mac_addr (dev h)) n, True)"
  proof -
    have ok: "sys_ok (dev h1)" using r(2) by (simp add: http_ok_def)
    have "ees.after (net_fields n) (ee (dev h)) (ee (dev h1))" using p(4) r(3) by simp
    from net_fields_shown [OF net_request_form [OF assms(2)] ok this] obtain s where
      s: "XMLMreza (dev h1) = Some (of_nat (length (XMLBuf s)), s)" "XMLBuf s = netcfg_page (mac_addr (dev h)) n"
      using r(4) p(3) by auto
    let ?h = "served_as ?name s h1" and ?x = "Document (of_nat (length (XMLBuf s)))"
    have d: "dev ?h = s" by (simp add: served_as_def)
    have "length (mac_addr (dev h)) = 6" using assms(1) by (simp add: http_ok_def sys_ok_def)
    then have "unat (of_nat (length (XMLBuf s)) :: u16) = length (XMLBuf s)" using netcfg_page_length [OF assms(2)] s(2) by simp
    moreover have st: "stripped ?name = ?name" by (simp add: stripped_def asc_def)
    ultimately have a: "answer_of S ?h (stripped ?name) ?x = Some (headers_of ?name @ netcfg_page (mac_addr (dev h)) n)"
      using d s(2) by (simp add: document_answer del: str_Cons)
    have l: "case ?x of Document len \<Rightarrow> unat len \<le> length (XMLBuf (dev ?h)) | Other_file name \<Rightarrow> length name < 32"
      using d unat_of_nat_le by simp
    have "ts \<noteq> []" "\<forall>t \<in> set ts. 0 < tcp_mss t" using assms(10,11) by (auto simp: roomy_def)
    from get_answered [OF assms(9) http_find_mreza [OF r(2) s(1) refl] a l this, of E] assms(10,11)
    show ?thesis by (rule delivers_all)
  qed
  ultimately show ?thesis by blast
qed

end
