(* ===== verification/Spec2Isabelle.thy ===== *)
theory Spec2Isabelle
  imports Accounts Timer Calendar Crc Inputs Url Main_Loop Device Flash Packets Over_Tcp
begin

text \<open>
  A verification development for the firmware WEBTERMO8: a temperature logger for cold stores on
  an STM32F4 with eight one wire sensors, three digital inputs, a 24C128 EEPROM for its settings,
  battery backed SRAM for its logs, and a web server through which it is configured and read.

  \<^bold>\<open>The program and the model.\<close> The main loop polls the tasks: the network stack calls the HTTP
  application, which serves pages and takes configuration requests; the measuring tasks read the
  sensors, test the limits, and log; timers are counters that the millisecond interrupt advances.
  The model follows the C sources function by function. A C array is a list of its size and an
  access outside it is \<open>None\<close>; machine integers keep their width; \<open>char\<close> is unsigned, as on ARM.

  \<^bold>\<open>Theories and sources\<close> (under \<open>src/UserSources/USER/source\<close> unless said otherwise).
  \<^item> \<open>Prelude\<close>: bytes, C strings, decimal text (\<open>atoi\<close>, \<open>sprintf "%d"\<close>), bounded writes.
  \<^item> \<open>Timer\<close>: \<open>timer.c\<close> and the polling of \<open>netconf.c\<close>; locale \<open>soft_timer\<close>.
  \<^item> \<open>Sys_Text\<close>: \<open>system.c\<close>: \<open>bufsearch\<close>, hexadecimal, Base64, \<open>itoay\<close>, \<open>checkAuth\<close>.
  \<^item> \<open>Store\<close>: the locale \<open>field_store\<close>, the contract of both persistent memories;
    interpreted as \<open>ees\<close> in \<open>Eeprom\<close> and as \<open>nvs\<close> in \<open>Nvram\<close>.
  \<^item> \<open>Eeprom\<close>: \<open>24C128.c\<close> call by call over the chip as the bus sees it, and the proof
    that every driver function implements an operation on the memory image.
  \<^item> \<open>Nvram\<close>: the access macros of \<open>define.h\<close> and \<open>UpdateMKT\<close> of \<open>logger.c\<close>.
  \<^item> \<open>Firmware\<close>: the structures and globals of \<open>strukture.c\<close> and the memory maps of
    \<open>define.h\<close>; the state \<open>sys\<close> shared by all tasks.
  \<^item> \<open>Params\<close>: \<open>main.c\<close>: \<open>InitParam\<close>, \<open>InitNV\<close> and the factory settings.
  \<^item> \<open>Xml_Tags\<close>: \<open>XMLTagovi.c\<close>, every page the server serves.
  \<^item> \<open>Sva_Tags\<close>: \<open>SVATagovi.c\<close>, every configuration request.
  \<^item> \<open>Http\<close>: the application callbacks of \<open>BLACKDUCK/httpd.c\<close> and \<open>fs_open\<close> of
    \<open>BLACKDUCK/fs.c\<close>.
  \<^item> \<open>Connection\<close>: the server of \<open>BLACKDUCK/httpd.c\<close> between TCP and \<open>Http\<close>: the callbacks \<open>http_recv\<close>,
    \<open>http_sent\<close>, \<open>http_poll\<close>, the parsing of a request from segments, the headers and the sending of blocks.
  \<^item> \<open>Float32\<close>: the single precision arithmetic of the processor, on bit patterns.
  \<^item> \<open>Crc\<close>: the checksums of \<open>1wire.c\<close>, shown equal and able to detect a damaged byte.
  \<^item> \<open>Calendar\<close>: \<open>dst.c\<close>, the time from the network and the daylight saving rule, against the
    Gregorian calendar.
  \<^item> \<open>Inputs\<close>: \<open>inputs.c\<close>, the protothread that debounces the digital input, and its refinement of a
    debouncer with four waiting places.
  \<^item> \<open>Url\<close>: \<open>urlencode.c\<close> and the request text of \<open>WhatsApp.c\<close>.
  \<^item> \<open>Messages\<close>: the alarm messages of \<open>logger.c\<close>.
  \<^item> \<open>Logger\<close>: the log files of \<open>logger.c\<close> over \<open>LittleFS/lfs_tools.c\<close>.
  \<^item> \<open>One_Wire\<close>: the bus driver of \<open>drajveri.c\<close> over the I2C peripheral, whatever that does.
  \<^item> \<open>Sensors\<close>: \<open>1wire.c\<close>: the measuring thread, the decoding of a scratchpad, the limits with their
    hysteresis.
  \<^item> \<open>Main_Loop\<close>: the clock tasks and the alarm delays of \<open>main.c\<close>, the thread that saves a sample, and the
    sending thread of \<open>logger.c\<close>.
  \<^item> \<open>Gsm\<close>: \<open>infobip.c\<close>: the message as XML, and the two clients of the SMS gateway with the callbacks of
    the stack.
  \<^item> \<open>Device\<close>: the loop of \<open>main\<close>: the records of all components over one shared state, a pass of the
    loop with the callbacks that a packet makes, the start, and the threads of the door contacts, the LED, the
    announcements and the link.
  \<^item> \<open>Flash\<close>: \<open>LittleFS/W25Q256.c\<close> over the flash chip as the bus sees it, and the callbacks of \<open>lfs_plat.c\<close>;
    locale \<open>block_device\<close>, what littleFS asks of its memory, interpreted as \<open>fb\<close>.
  \<^item> \<open>Ethernet\<close>: \<open>ENCX24j600.c\<close> over the Ethernet chip as the bus sees it, and the frame buffer of \<open>ethernetif.c\<close>.
  \<^item> \<open>Packets\<close>: the wire on the other side of that chip; locale \<open>frame_queue\<close>, interpreted as \<open>wire\<close> on the driver
    with the chip.

  \<^bold>\<open>Lemma groups.\<close>
  \<^item> \<open>Frames\<close>, \<open>Page_Frames\<close>: what parsing and serving may change.
  \<^item> \<open>Sync\<close>: the sensor table in RAM equals its copy in the EEPROM, kept by every handler.
  \<^item> \<open>Pages\<close>: the documents as lists of elements.
  \<^item> \<open>Forms\<close>: a request body as a list of elements, and what the parser finds in it.
  \<^item> \<open>Config\<close>: what a request writes, as fields in the sense of \<open>ees.after\<close>.
  \<^item> \<open>Requests\<close>, \<open>Serving\<close>, \<open>Accounts\<close>: requests end to end; \<open>reachable\<close> is
    the closure of requests, pages and restarts.
  \<^item> \<open>Segments\<close>: a POST over TCP is the POST in one piece; \<open>Answers\<close>: an answer reaches the client in order and
    completely; \<open>Over_Tcp\<close>: the network form and its page over two connections.
  \<^item> \<open>Blank\<close>: concrete states for the examples.

  \<^item> \<open>Task_Frames\<close>: every task of the loop keeps the arrays and the agreement of the two sensor tables; in
    \<open>Device\<close> this becomes the invariant \<open>device_ok\<close> of \<open>lives\<close>, any passes and restarts.
  \<^item> \<open>Logger\<close>, \<open>Sensors\<close>, \<open>Main_Loop\<close>: what a sample, a reading and an alarm amount to, from the bus
    to the file and the message.

  \<^bold>\<open>Loops and fuel.\<close> Loops over arrays are structural recursion; the conversions of
  \<open>SVATagovi.c\<close> are \<open>function\<close>s with a measure (the distance of the pointer from its end).
  Only \<open>bufsearch\<close>, which jumps backwards, takes fuel: \<open>32 * (len + 2)\<close> steps, which is
  enough for every buffer since each restart moves the start of the match forward by one and a
  tag has at most thirty characters. In \<open>Eeprom\<close> a wait that
  the chip never answers is \<open>None\<close>, since the C loop has no time-out; in \<open>One_Wire\<close> the waits have one, and
  recursion follows the counter of the time-out.

  \<^bold>\<open>Parameters.\<close> \<open>env\<close> holds what the handlers take from outside: \<open>atof\<close>, the text
  of a \<open>float\<close> (\<open>my_ftoa\<close>, which works in \<open>double\<close>), the order in which the file
  system lists its files, and the stack cells that some handlers read before they are set.

  The I2C peripheral under the one wire driver, the two words at the addresses 8 and 12, and the formula
  of the mean kinetic temperature (\<open>exp\<close> and \<open>log\<close> in \<open>double\<close>) are parameters too.

  \<^bold>\<open>The stack under the server.\<close> In \<open>Connection\<close> TCP is what one callback sees of it, the room in the send buffer, the
  segment size and which allocations succeed, and the bytes written so far; a theorem about an answer holds for every
  sequence of such views. The bytes of a document count as they are when they are written: the code hands \<open>XMLBuf\<close> to the
  stack without a copy, and what a second page does to bytes still on their way is not part of the model. The
  files of \<open>fsdata.c\<close> and littleFS are the parameter \<open>site\<close>.

  \<^bold>\<open>Chips.\<close> The EEPROM, the flash and the Ethernet controller are state machines that take and give a byte at a
  time; the commands that the drivers use behave as documented by their makers, and how long the chip is busy after
  a command is a field of its state, so that the waits hold for every such time.

  \<^bold>\<open>Not modelled.\<close> The vendored libraries (lwIP, littleFS, CMSIS, the STM32 peripheral library),
  the generated web content, the options of the HTTP server that are not built (SSI, CGI, persistent connections), a
  failing allocation when it accepts a connection and a failing \<open>tcp_close\<close>, the reset of the Ethernet controller (\<open>enc424j600SendSystemReset\<close>, behind which
  \<open>InitRegisters\<close> starts), the self test of the flash, the driver of the real time clock
  (\<open>tm_stm32f4_rtc.c\<close>), the \<open>my_ftoa\<close> family of \<open>system.c\<close>, the clients of
  remote services as far as they only call the network stack (\<open>http_TZO_alarm.c\<close>, \<open>mqtt_example.c\<close>, and
  \<open>backup.c\<close>, which \<open>main\<close> has commented out), \<open>mqtt_scan\<close> in the pass of \<open>main\<close>, and the start of the
  peripherals. In a pass the milliseconds count while the bus is waited for and between passes, not inside the
  other tasks.
\<close>

section \<open>Inputs of the examples\<close>

definition demo_net :: netcfg where
  "demo_net = \<lparr>n_ip = (192, 168, 1, 20), n_sub = (255, 255, 255, 0), n_rout = (192, 168, 1, 1), n_dns = (8, 8, 8, 8),
     n_http = 8080, n_naziv = str ''Hladnjaca 3'', n_aport = 5000, n_aip = (10, 0, 0, 7)\<rparr>"

definition demo_sms :: "string \<Rightarrow> bytes" where
  "demo_sms tag = str ''webtermo''"

definition demo_chip :: eedev where
  "demo_chip = \<lparr>ee_mem = replicate EE_SIZE 0xFF, ee_ptr = 5, ee_busy = 3, ee_cycle = 4, ee_phase = Idle\<rparr>"

lemma demo_net_ok: "net_ok demo_net"
  by (simp add: demo_net_def net_ok_def ip_ok_def string_char_def char_class_defs asc_def)

lemma demo_sms_ok: "sms_ok (193, 105, 74, 59) 80 demo_sms"
  by (simp add: demo_sms_def sms_ok_def sms_tags_def ip_ok_def string_char_def char_class_defs asc_def)

lemma demo_chip_ready: "ee_ready demo_chip"
  by (simp add: ee_ready_def demo_chip_def)

definition demo_door :: indev where
  "demo_door = \<lparr>isys = upd_input 0 (\<lambda>i. i\<lparr>d_enable := 1, d_type := 2\<rparr>) blank_sys,
     iclk = \<lparr>Timex = 0xFFFFFFF0, LocalTime = 0, sysTyck = 0, I2CTimer = 0\<rparr>,
     DIN1 = 0, DIN2 = 0, DIN3 = 0, lc = 0, Input1Timer = \<lparr>start = 0, interval = 0\<rparr>\<rparr>"

lemma door_watched: "watches 2 demo_door" "lc demo_door = 0" "alarm_on demo_door = 0"
  by (simp_all add: demo_door_def watches_def alarm_on_def upd_input_def blank_sys_def numeral_eq_Suc)


definition silent :: "unit i2c" where
  "silent = \<lparr>i_busy = \<lambda>_. True, i_event = \<lambda>_ _. False, i_tick = id, i_start = id, i_stop = id, i_addr = \<lambda>_ _. id,
     i_send = \<lambda>_. id, i_recv = \<lambda>d. (0xFF, d), i_ack = \<lambda>_. id\<rparr>"

definition silent_ow :: "unit ow" where
  "silent_ow = \<lparr>ow_dev = (), ow_clk = \<lparr>Timex = 0, LocalTime = 0, sysTyck = 0xFFFFFFFF, I2CTimer = 0\<rparr>, delay_count = 7,
     I2C_error = 0, ow_status = 0\<rparr>"

definition minus_25 :: bytes where
  "minus_25 = [0x70, 0xFE, 0x4B, 0x46, 0x7F, 0xFF, 0x0C, 0x10]"

definition blank_clock :: clock where
  "blank_clock = \<lparr>Timex = 0xFFFFFFF0, LocalTime = 0, sysTyck = 0, I2CTimer = 0\<rparr>"

definition blank_timer :: timer where "blank_timer = \<lparr>start = 0, interval = 0\<rparr>"



definition blank_client :: gsm_client where
  "blank_client = \<lparr>g_sys = blank_sys, g_clk = blank_clock, calls = [], infobip = replicate 1024 0, ibipretbuf = replicate 1024 0,
     wtxBuf = replicate 1024 0, CRBuf = replicate 1024 0, ptr = 0, wcl_lc = 0, gsmState = 0, WCLTimer = blank_timer,
     credit_lc = 0, gsmCreditState = 0, WCLCreditTimer = blank_timer\<rparr>"










definition full_field :: "bytes \<Rightarrow> bytes" where
  "full_field v = v @ replicate (32 - length v) 0"

definition phone_book :: "bytes \<Rightarrow> bytes" where
  "phone_book v = map (\<lambda>a. if 0xC60 \<le> a \<and> a < 0xD00 then full_field v ! (a mod 32) else 0) [0..<EE_SIZE]"

definition pager :: "bytes \<Rightarrow> bytes \<Rightarrow> byte list \<Rightarrow> sys" where
  "pager v msg en = blank_sys\<lparr>ee := phone_book v, infobip_poruka := msg @ replicate (160 - length msg) 0,
     sms := (sms blank_sys)\<lparr>gsm_enable := en\<rparr>, wcl_active := True\<rparr>"

lemma pager_settings:
  assumes "length v < 32" and "0 \<notin> set v" and "length msg < 160" and "0 \<notin> set msg" and "length en = 5"
  shows "sys_ok (pager v msg en)" "gsm_settings [] [] [] msg (replicate 5 v) (pager v msg en)"
proof -
  have l: "length (full_field v) = 32" "length (phone_book v) = EE_SIZE"
    using assms(1) by (simp_all add: full_field_def phone_book_def)
  show "sys_ok (pager v msg en)" using blank_sys_ok assms(3,5) l(2) by (simp add: sys_ok_def pager_def)
  have f: "c_str (full_field v) = Some v" using assms(1,2) c_str_append [of v] by (cases "32 - length v") (simp_all add: full_field_def)
  have b: "a < EE_SIZE \<Longrightarrow> phone_book v ! a = (if 0xC60 \<le> a \<and> a < 0xD00 then full_field v ! (a mod 32) else 0)" for a
    by (simp add: phone_book_def)
  have n: "eeRd (0xC60 + i * 0x20) 32 (phone_book v) = full_field v" if "i < 5" for i
  proof (rule nth_equalityI)
    fix k assume "k < length (eeRd (0xC60 + i * 0x20) 32 (phone_book v))"
    then have k: "k < 32" by simp
    have "0xC60 + i * 0x20 + k = k + 32 * (99 + i)" by simp
    then have a: "(0xC60 + i * 0x20 + k) mod 32 = k" using k by (metis mod_less mod_mult_self2)
    have s: "0xC60 + i * 0x20 + k < 0xD00" using that k by linarith
    then have e: "0xC60 + i * 0x20 + k < EE_SIZE" by (simp add: EE_SIZE_def)
    show "eeRd (0xC60 + i * 0x20) 32 (phone_book v) ! k = full_field v ! k"
      unfolding nth_eeRd [OF k] mod_less [OF e] b [OF e] a using s by simp
  qed (simp add: l)
  have z: "eeRd a k (phone_book v) = replicate k 0" if "a + k \<le> 0xC60" for a k
    using that by (intro nth_equalityI) (auto simp: nth_eeRd b EE_SIZE_def)
  have r: "c_str (replicate k 0) = Some []" if "0 < k" for k using that by (cases k) simp_all
  have "c_str (msg @ replicate (160 - length msg) 0) = Some msg"
    using assms(3,4) c_str_append [of msg] by (cases "160 - length msg") simp_all
  then show "gsm_settings [] [] [] msg (replicate 5 v) (pager v msg en)"
    using n f z r by (simp add: gsm_settings_def pager_def)
qed

definition demo_pager :: gsm_client where
  "demo_pager = blank_client\<lparr>g_sys := pager (str ''38591123456'') (str ''Test'') [1, 0, 0, 0, 0]\<rparr>"

definition demo_body :: bytes where
  "demo_body = str ''XML='' @ esc do_escape (gsm_xml [] [] [] (str ''Test'') [str ''38591123456''])"

lemma demo_pager_facts:
  "sys_ok (g_sys demo_pager)" "gsm_settings [] [] [] (str ''Test'') (replicate 5 (str ''38591123456'')) (g_sys demo_pager)"
  "wcl_lc demo_pager = 0" "wcl_active (g_sys demo_pager)" "\<not> wcl_credit_active (g_sys demo_pager)"
  "length (wtxBuf demo_pager) = 1024" "length (infobip demo_pager) = 1024" "calls demo_pager = []"
  "receivers (replicate 5 (str ''38591123456'')) (gsm_enable (sms (g_sys demo_pager))) = [str ''38591123456'']"
  "length demo_body < 1024"
proof -
  show "sys_ok (g_sys demo_pager)" "gsm_settings [] [] [] (str ''Test'') (replicate 5 (str ''38591123456'')) (g_sys demo_pager)"
    by (simp_all add: demo_pager_def pager_settings asc_def)
  show "wcl_lc demo_pager = 0" "wcl_active (g_sys demo_pager)" "length (wtxBuf demo_pager) = 1024"
    "length (infobip demo_pager) = 1024" "calls demo_pager = []"
    by (simp_all add: demo_pager_def pager_def blank_client_def)
  show "\<not> wcl_credit_active (g_sys demo_pager)" by (simp add: demo_pager_def pager_def) (simp add: blank_sys_def)
  show "receivers (replicate 5 (str ''38591123456'')) (gsm_enable (sms (g_sys demo_pager))) = [str ''38591123456'']"
    by (simp add: demo_pager_def pager_def receivers_def upt_rec)
  show "length demo_body < 1024"
    using length_esc [of do_escape "gsm_xml [] [] [] (str ''Test'') [str ''38591123456'']"]
    by (simp add: demo_body_def gsm_xml_def length_lines)
qed

lemma esc_count: "length (esc f v) = length v + 2 * length (filter f v)"
  by (induction v) (auto simp: percent_def)

lemma filter_line: "length (filter f v) \<le> length (filter f (line t v))"
  by (simp add: line_def elem_def)

definition fresh_flash :: flash where
  "fresh_flash = \<lparr>f_mem = (\<lambda>i. of_nat i), f_cmd = None, f_wel = False, f_busy = 0, f_cycle = 7\<rparr>"

definition reset_enc :: encdrv where
  "reset_enc = \<lparr>chip = \<lparr>e_ram = (\<lambda>i. 0), e_reg = (\<lambda>i. 0)(0x64 := 0x54, 0x65 := 0x10), e_bank = 0, e_cmd = None, e_head = 0x5340,
     e_pkts = 0, e_mii = 0, e_cycle = 3, e_phy = (\<lambda>i. 0), e_sent = []\<rparr>, currentBank = 0, nextPacketPointer = 0\<rparr>"

definition ready_port :: ethif where
  "ready_port = \<lparr>eth = \<lparr>chip = \<lparr>e_ram = (\<lambda>i. 0), e_reg = (\<lambda>i. 0)(0x06 := 0xFE, 0x07 := 0x5F, 0x1E := 1, 0x1B := 1), e_bank = 0,
     e_cmd = None, e_head = 0x600, e_pkts = 0, e_mii = 0, e_cycle = 3, e_phy = (\<lambda>i. 0), e_sent = []\<rparr>, currentBank = 0,
     nextPacketPointer = 0x600\<rparr>, enc_buf = replicate 1600 0\<rparr>"

lemma ready_port_ok: "eth_inv [] ready_port"
  by (simp add: eth_inv_def ready_port_def queue_inv_def Let_def selected_def in_ring_def ring_defs ring_at_def reg16_def
      be16_def receiving_def ENC_TMP_LEN_def)

definition demo_site :: site where
  "demo_site = \<lparr>built_in = (\<lambda>name. None), stored = (\<lambda>name. if name = str ''/a.txt'' then Some [104, 105] else None)\<rparr>"

definition demo_tcp :: tcp where
  "demo_tcp = \<lparr>sndbuf = 1000, tcp_mss = 536, queue_full = False, has_memory = (\<lambda>k n. True), can_alloc = (\<lambda>n. True), written = []\<rparr>"

definition demo_header :: "string \<Rightarrow> bytes" where
  "demo_header len = str ''HTTP/1.0'' @ CR_LF @ str ''Content-Length: '' @ str len @ CR_LF @ CR_LF"

lemma demo_roomy: "roomy demo_tcp"
  by (simp add: roomy_def demo_tcp_def)

lemma demo_header_ok: "header_ok (demo_header ''3'') 3" "length (demo_header ''3'') = 31"
  by code_simp+

lemma demo_get_ok: "get_ok (str ''/a.txt'') (CR_LF @ CR_LF)" "get_ok (str ''/mreza.xml'') (CR_LF @ CR_LF)"
  by code_simp+

lemma demo_net_header: "length (form (net_form demo_net)) = 184" "header_ok (demo_header ''184'') 184" "length (demo_header ''184'') = 33"
  subgoal by (simp add: demo_net_def net_form_def form_simps ip_str_def ip_text_def dec.simps del: str_Cons)
  by code_simp+

lemma reset_restarts:
  assumes "http_ok h" and "length body < 4096"
  shows "post E (str ''/reset.sva'') [body] h = Some Restart"
proof -
  have z: "0 \<notin> set (str ''/reset.sva'')" by (simp add: asc_def)
  have "httpd_post_finished E (collected (str ''/reset.sva'') body h) = Some Restart"
    unfolding finished_simps collected_poked [OF assms] uri_is_post [OF z] by (simp del: str_Cons)
  then show ?thesis using post_dispatch [OF assms(1), of "str ''/reset.sva''" "[body]" E] assms(2) by (simp del: str_Cons)
qed

lemma a_txt_found: "\<exists>h'. http_find_file blank_env (str ''/a.txt'') blank_http = Some (Other_file (str ''/a.txt''), h')"
  by (simp add: http_find_file_def fs_open_def gate_def xml_page_def blank_http_def asc_def cut_def)

section \<open>The properties\<close>

text \<open>
  C1: The network form and the network page agree: a body posted to \<open>/savenet.sva\<close>
  that holds valid settings, cut into any pieces, is stored field by field in the EEPROM and
  nothing else is written there, and the page \<open>/mreza.xml\<close> served next shows exactly
  these settings and the MAC address.
\<close>

theorem network_form_shown:
  assumes "http_ok h" and "net_ok n" and "ds \<noteq> []" and "concat ds = form (net_form n)"
  shows "\<exists>h' h''. post E (str ''/savenet.sva'') ds h = Some (Running h')
           \<and> ees.after (net_fields n) (ee (dev h)) (ee (dev h'))
           \<and> http_find_file E (str ''/mreza.xml'') h' = Some (Document (of_nat (length (XMLBuf (dev h'')))), h'')
           \<and> XMLBuf (dev h'') = netcfg_page (mac_addr (dev h)) n"
  using savenet_then_mreza [OF assms, of E] by blast

theorem network_form_shown_witness:
  "\<exists>h' h''. post blank_env (str ''/savenet.sva'') [take 40 (form (net_form demo_net)), drop 40 (form (net_form demo_net))]
        blank_http = Some (Running h')
     \<and> ees.after (net_fields demo_net) (ee (dev blank_http)) (ee (dev h'))
     \<and> http_find_file blank_env (str ''/mreza.xml'') h' = Some (Document (of_nat (length (XMLBuf (dev h'')))), h'')
     \<and> XMLBuf (dev h'') = netcfg_page (mac_addr (dev blank_http)) demo_net"
  by (rule network_form_shown) (simp_all add: demo_net_ok)

text \<open>
  C2: A form and its page over TCP: the network form, posted in segments that cut the request anywhere, is answered and its settings
  are stored in the EEPROM, field by field and nothing else; a GET of the network page on another connection then brings the client the
  headers and the page with exactly these settings and the MAC address, to the last byte, before the connection is closed, however
  little the stack takes in each callback.
\<close>

theorem settings_over_tcp:
  assumes "http_ok h" and "net_ok n" and "header_ok hdr (length (form (net_form n)))" and "length (post_head (str ''/savenet.sva'') hdr) \<le> 1023"
    and "[] \<notin> fst ` set ps" and "concat (map fst ps) = post_head (str ''/savenet.sva'') hdr @ form (net_form n)"
    and "segments_fit ps [] (length (post_head (str ''/savenet.sva'') hdr))" and "0 < tcp_mss (snd (last ps))"
    and "get_ok (str ''/mreza.xml'') ghdr" and "\<forall>t \<in> set ts. roomy t"
    and "length (headers_of (str ''/mreza.xml'') @ netcfg_page (mac_addr (dev h)) n) < length ts"
  shows "\<exists>c t1 h1. take_in E S ps (Some http_state_init) t0 h = Some (Conn c t1 h1)
     \<and> ees.after (net_fields n) (ee (dev h)) (ee (dev h1))
     \<and> conversation E S (get_head (str ''/mreza.xml'') ghdr) ts h1
         = Some (headers_of (str ''/mreza.xml'') @ netcfg_page (mac_addr (dev h)) n, True)"
  by (rule form_then_page [OF assms])

theorem settings_over_tcp_witness:
  "\<exists>c t1 h1 m. take_in blank_env demo_site [(post_head (str ''/savenet.sva'') (demo_header ''184''), demo_tcp), (form (net_form demo_net), demo_tcp)]
        (Some http_state_init) demo_tcp blank_http = Some (Conn c t1 h1)
     \<and> ees.after (net_fields demo_net) (ee (dev blank_http)) (ee (dev h1))
     \<and> conversation blank_env demo_site (get_head (str ''/mreza.xml'') (CR_LF @ CR_LF)) (replicate m demo_tcp) h1
         = Some (headers_of (str ''/mreza.xml'') @ netcfg_page (mac_addr (dev blank_http)) demo_net, True)"
proof -
  let ?head = "post_head (str ''/savenet.sva'') (demo_header ''184'')" and ?body = "form (net_form demo_net)"
  let ?ps = "[(?head, demo_tcp), (?body, demo_tcp)]"
  let ?ts = "replicate (Suc (length (headers_of (str ''/mreza.xml'') @ netcfg_page (mac_addr (dev blank_http)) demo_net))) demo_tcp"
  have l: "length ?head \<le> 1023" "?head \<noteq> []" by (simp_all add: length_post_head demo_net_header flip: length_greater_0_conv del: str_Cons)
  have b: "?body \<noteq> []" using demo_net_header(1) by auto
  have hd: "header_ok (demo_header ''184'') (length ?body)" using demo_net_header by simp
  have s: "[] \<notin> fst ` set ?ps" "concat (map fst ?ps) = ?head @ ?body" "0 < tcp_mss (snd (last ?ps))"
    using l b by (simp_all add: demo_tcp_def)
  have f: "segments_fit ?ps [] (length ?head)" by (auto simp: segments_fit_def)
  have t: "\<forall>t \<in> set ?ts. roomy t" using demo_roomy by simp
  have "length (headers_of (str ''/mreza.xml'') @ netcfg_page (mac_addr (dev blank_http)) demo_net) < length ?ts" by simp
  from settings_over_tcp [OF blank_http_ok demo_net_ok hd l(1) s(1,2) f s(3) demo_get_ok(2) t this] show ?thesis by blast
qed











text \<open>
  C8: A request in segments: a POST whose head and body arrive in any number of segments, cut anywhere, the head in few enough
  for the queue of the connection, has the effect and the answer of \<open>httpd_post_begin\<close>,
  \<open>httpd_post_receive_data\<close> and \<open>httpd_post_finished\<close> called once with the URI and the whole body.
\<close>

theorem post_in_segments:
  assumes "header_ok hdr (length body)" and "uri_ok uri" and "length (post_head uri hdr) \<le> 1023"
    and "body \<noteq> []" and "length body < 10 ^ 8" and "http_ok h"
    and "[] \<notin> fst ` set ps" and "concat (map fst ps) = post_head uri hdr @ body"
    and "segments_fit ps [] (length (post_head uri hdr))"
  shows "take_in E S ps (Some http_state_init) t0 h = respond E S (snd (last ps)) (post E uri [body] h)"
  by (rule segmented_post [OF assms])

theorem post_in_segments_witness:
  "take_in blank_env demo_site [(take 9 (post_head (str ''/reset.sva'') (demo_header ''3'')), demo_tcp),
       (drop 9 (post_head (str ''/reset.sva'') (demo_header ''3'')) @ [1], demo_tcp), ([2, 3], demo_tcp)]
     (Some http_state_init) demo_tcp blank_http = Some (Gone Restart)"
proof -
  let ?u = "str ''/reset.sva''" and ?head = "post_head (str ''/reset.sva'') (demo_header ''3'')"
  let ?ps = "[(take 9 ?head, demo_tcp), (drop 9 ?head @ [1], demo_tcp), ([2, 3], demo_tcp)]"
  have u: "uri_ok ?u" by (simp add: uri_ok_def asc_def)
  have l: "length ?head \<le> 1023" "length ?head = 47" by (simp_all add: length_post_head demo_header_ok del: str_Cons)
  have s: "[] \<notin> fst ` set ?ps" "concat (map fst ?ps) = ?head @ [1, 2, 3]"
    using l(2) by (auto simp flip: length_greater_0_conv simp del: str_Cons)
  have f: "segments_fit ?ps [] (length ?head)" by (auto simp: segments_fit_def)
  have "post blank_env ?u [[1, 2, 3]] blank_http = Some Restart" by (rule reset_restarts) simp_all
  moreover have "header_ok (demo_header ''3'') (length [1, 2, 3 :: byte])" using demo_header_ok(1) by (simp add: numeral_3_eq_3)
  note post_in_segments [OF this u l(1) _ _ blank_http_ok s f, of blank_env demo_site demo_tcp]
  ultimately show ?thesis
    by (simp add: respond_def del: str_Cons take_in.simps)
qed

text \<open>
  C9: An answer in order: after the request line of a GET, whatever the send buffer, the segment size and the memory of the stack
  allow in each callback, the client gets a beginning of the answer (the headers for the name, then the XML document, the stored file or
  the built-in file), byte for byte, and all of it when the connection was closed; when each callback can send something, the answer is complete
  after one callback more than it has bytes.
\<close>

theorem get_delivered:
  assumes "get_ok uri hdr" and "http_find_file E uri h = Some (x, h')" and "answer_of S h' (stripped uri) x = Some a"
    and "case x of Document len \<Rightarrow> unat len \<le> length (XMLBuf (dev h')) | Other_file name \<Rightarrow> length name < 32"
    and "ts \<noteq> []" and "\<forall>t \<in> set ts. 0 < tcp_mss t"
  shows "\<exists>bs closed rest. conversation E S (get_head uri hdr) ts h = Some (bs, closed) \<and> a = bs @ rest \<and> (closed \<longrightarrow> rest = [])
     \<and> ((\<forall>t \<in> set ts. roomy t) \<and> length a < length ts \<longrightarrow> closed)"
  using get_answered [OF assms] by (simp only: delivers_def)

theorem get_delivered_witness:
  "\<exists>h' bs closed rest. http_find_file blank_env (str ''/a.txt'') blank_http = Some (Other_file (str ''/a.txt''), h')
     \<and> conversation blank_env demo_site (get_head (str ''/a.txt'') (CR_LF @ CR_LF)) [demo_tcp\<lparr>sndbuf := 90\<rparr>, demo_tcp] blank_http = Some (bs, closed)
     \<and> headers_of (str ''/a.txt'') @ [104, 105] = bs @ rest \<and> (closed \<longrightarrow> rest = [])"
proof -
  let ?u = "str ''/a.txt''" and ?ts = "[demo_tcp\<lparr>sndbuf := 90\<rparr>, demo_tcp]"
  obtain h' where f: "http_find_file blank_env ?u blank_http = Some (Other_file ?u, h')"
    using a_txt_found by blast
  have st: "stripped ?u = ?u" by (simp add: stripped_def asc_def)
  have a: "answer_of demo_site h' (stripped ?u) (Other_file ?u) = Some (headers_of ?u @ [104, 105])"
    by (simp add: answer_of_def demo_site_def del: str_Cons)
  have l: "case Other_file ?u of Document len \<Rightarrow> unat len \<le> length (XMLBuf (dev h')) | Other_file name \<Rightarrow> length name < 32" by simp
  have t: "?ts \<noteq> []" "\<forall>t \<in> set ?ts. 0 < tcp_mss t" by (simp_all add: demo_tcp_def)
  from get_delivered [OF demo_get_ok(1) f a l t] f show ?thesis by metis
qed

text \<open>
  C10: Frames reach the stack in order: over any sequence of arrivals, polls, transmissions and changes of the link, in which no
  frame to send is longer than the transmit buffer, the frames that the polls return are those that the chip took, in their order,
  up to some that are still in the ring; as many polls as these return them all, and then the ring takes any frame of legal size.
\<close>

theorem frames_in_order:
  assumes "eth_inv fs s" and "\<forall>o1. Other o1 \<in> set es \<longrightarrow> fits_buffer o1"
    and "wire_run wire_takes wire_arrive poll_packet other_step snd es s = (acc, got, s')"
  shows "\<exists>rest s2. fs @ acc = got @ rest
     \<and> wire_run wire_takes wire_arrive poll_packet other_step snd (replicate (length rest) Poll) s' = ([], rest, s2)
     \<and> (\<forall>st4 f. length st4 = 4 \<and> frame_ok f \<longrightarrow> wire_takes (st4, f) s2)"
proof -
  obtain rest where r: "fs @ acc = got @ rest" "eth_inv rest s'" using wire.in_order [OF assms] by blast
  obtain s2 where "wire_run wire_takes wire_arrive poll_packet other_step snd (replicate (length rest) Poll) s' = ([], rest, s2)" "eth_inv [] s2"
    using wire.drained [OF r(2)] by blast
  then show ?thesis using r(1) empty_ring_accepts by blast
qed

theorem frames_in_order_witness:
  "\<exists>acc got s' rest s2.
     wire_run wire_takes wire_arrive poll_packet other_step snd
       [Arrival (replicate 4 0, replicate 64 7), Other (Frame_out [[1, 2], [3]]), Poll, Arrival (replicate 4 0, replicate 65 9)] ready_port = (acc, got, s')
     \<and> acc = got @ rest
     \<and> wire_run wire_takes wire_arrive poll_packet other_step snd (replicate (length rest) Poll) s' = ([], rest, s2)"
proof -
  let ?es = "[Arrival (replicate 4 0, replicate 64 7), Other (Frame_out [[1, 2], [3]]), Poll, Arrival (replicate 4 0, replicate 65 9)]"
  obtain acc got s' where r: "wire_run wire_takes wire_arrive poll_packet other_step snd ?es ready_port = (acc, got, s')" by (rule prod_cases3)
  have o1: "\<forall>o1. Other o1 \<in> set ?es \<longrightarrow> fits_buffer o1" by (simp add: RXSTART_def)
  show ?thesis using frames_in_order [OF ready_port_ok o1 r] r by auto
qed





text \<open>
  C13: The SMS client ends: whatever the network and the credit client do, once the gaps between polls add up to
  20050 ms and five gaps more, a client that polls as long as it is active is no longer so; and when
  only the connection callback comes, no credit is asked for and the message fits, the polls all return.
\<close>

theorem gsm_client_terminates:
  assumes "wcl_lc d = 0" and "\<forall>c \<in> set cs. fst c \<le> g" and "g < 2 ^ 30" and "20050 + 5 * g \<le> sum_list (map fst cs)"
  shows "(gsm_polls x cs d = Some d' \<longrightarrow> \<not> wcl_active (g_sys d'))
     \<and> (sys_ok (g_sys d) \<and> gsm_settings un pw oname msg nums (g_sys d) \<and> length (wtxBuf d) = 1024 \<and> length (infobip d) = 1024
          \<and> length (esc do_escape (gsm_xml un pw oname msg (receivers nums (gsm_enable (sms (g_sys d)))))) < 1020
          \<and> \<not> wcl_credit_active (g_sys d) \<and> (\<forall>c \<in> set cs. connects (snd c))
        \<longrightarrow> (\<exists>d'. gsm_polls x cs d = Some d' \<and> \<not> wcl_active (g_sys d')))"
proof -
  have e: "\<not> wcl_active (g_sys d')" if "gsm_polls x cs d = Some d'" for d' by (rule gsm_client_ends [OF assms that])
  moreover have "\<exists>d'. gsm_polls x cs d = Some d'"
    if "sys_ok (g_sys d)" "gsm_settings un pw oname msg nums (g_sys d)" "length (wtxBuf d) = 1024" "length (infobip d) = 1024"
      "length (esc do_escape (gsm_xml un pw oname msg (receivers nums (gsm_enable (sms (g_sys d)))))) < 1020"
      "\<not> wcl_credit_active (g_sys d)" "\<forall>c \<in> set cs. connects (snd c)"
    using message_text(1) [OF that(1,4,2,1,2,5)] gsm_client_returns [OF assms(1) that(6,3,4) _ that(7)] by auto
  ultimately show ?thesis by blast
qed

theorem gsm_client_terminates_witness:
  "\<exists>d'. gsm_polls 0 (replicate 300 (100, [])) demo_pager = Some d' \<and> \<not> wcl_active (g_sys d')"
proof -
  have "length (esc do_escape (gsm_xml [] [] [] (str ''Test'') [str ''38591123456''])) < 1020"
    using demo_pager_facts(10) by (simp add: demo_body_def)
  then have l: "length (esc do_escape (gsm_xml [] [] [] (str ''Test'') (receivers (replicate 5 (str ''38591123456''))
      (gsm_enable (sms (g_sys demo_pager)))))) < 1020" unfolding demo_pager_facts(9) .
  have "\<forall>c \<in> set (replicate 300 (100 :: nat, [] :: gsm_event list)). fst c \<le> 100"
    "20050 + 5 * 100 \<le> sum_list (map fst (replicate 300 (100 :: nat, [] :: gsm_event list)))"
    "\<forall>c \<in> set (replicate 300 (100 :: nat, [])). connects (snd c)"
    by (simp_all add: connects_def sum_list_replicate)
  then show ?thesis
    using gsm_client_terminates [OF demo_pager_facts(3), of "replicate 300 (100, [])" 100 0 undefined "[]" "[]" "[]" "str ''Test''"
        "replicate 5 (str ''38591123456'')"] demo_pager_facts(1,2,5-7) l by simp
qed

text \<open>
  C14: One alarm per excursion: in any sequence of readings of a sensor, between two readings that raise an
  alarm there is one that is back inside the limit by the hysteresis.
\<close>

theorem alarm_once_per_excursion:
  assumes "i < j" and "j < length ts"
    and "alarms hl ll h k ts (st, m) ! i = r" and "r \<noteq> 0" and "alarms hl ll h k ts (st, m) ! j \<noteq> 0"
  shows "\<exists>l. i < l \<and> l < j \<and> recovered hl ll h r (ts ! l)"
  by (rule alarm_not_repeated [OF assms])

theorem alarm_once_per_excursion_witness:
  "\<exists>l. 0 < l \<and> l < 3 \<and> recovered 8 2 1 1 (map f32_of_int [10, 9, 6, 12] ! l)"
proof (rule alarm_once_per_excursion)
  show "(0 :: nat) < 3" "3 < length (map f32_of_int [10, 9, 6, 12])" "(1 :: u16) \<noteq> 0" by simp_all
  have e: "over l h (f32_of_int i) \<longleftrightarrow> sint l + uint h \<le> i" "under l h (f32_of_int i) \<longleftrightarrow> i \<le> sint l - uint h"
    if "\<bar>sint l + uint h\<bar> < 2 ^ 24" "\<bar>sint l - uint h\<bar> < 2 ^ 24" "\<bar>i\<bar> < 2 ^ 24" for l h :: byte and i
    using that by (simp_all add: over_def under_def f32_le_int)
  show "alarms 8 2 1 0 (map f32_of_int [10, 9, 6, 12]) (0, []) ! 0 = 1"
    "alarms 8 2 1 0 (map f32_of_int [10, 9, 6, 12]) (0, []) ! 3 \<noteq> 0"
    by (simp_all add: test_alarm_eq e)
qed



text \<open>
  C16: The battery backed logs: starting from memory without the mark, after \<open>InitNV\<close>
  and any sequence of samples each sensor's log holds the last twenty of its own samples in their
  order, and no sensor's log is disturbed by another's.
\<close>

theorem mkt_history:
  assumes "length m = NV_SIZE" and "NVRAM_Read32 NV_MKT_INIT m \<noteq> NV_MARK" and "\<forall>(i, x) \<in> set xs. i < 8"
  shows "map (mkt_log (log_samples xs (InitNV m))) [0..<8]
       = map (\<lambda>k. last_n 20 (map snd (filter (\<lambda>(i, x). i = k) xs))) [0..<8]"
  using InitNV_fresh [OF assms(1,2)] log_samples_history [of "InitNV m" xs] assms(3) by blast

theorem mkt_history_witness:
  "map (mkt_log (log_samples [(2, 7), (0, 5), (2, 9)] (InitNV (replicate NV_SIZE 0)))) [0..<8]
     = [[5], [], [7, 9], [], [], [], [], []]"
proof -
  have r: "replicate 4 (0 :: byte) = [0, 0, 0, 0]" by (simp add: numeral_eq_Suc)
  have u: "[0..<8] = [0, 1, 2, 3, 4, 5, 6, 7]" by (simp add: upt_rec)
  have "NVRAM_Read32 NV_MKT_INIT (replicate NV_SIZE 0) = 0"
    by (simp add: NVRAM_Read32_def nvRd_def NV_SIZE_def min_def r) (simp add: le32_def)
  then show ?thesis
    using mkt_history [of "replicate NV_SIZE 0" "[(2, 7), (0, 5), (2, 9)]"]
    unfolding u by (simp add: NV_MARK_def last_n_def)
qed

text \<open>
  C17: The flash under littleFS is a block device: after a block is erased and some of its pages are programmed, each once, these read
  back as programmed, the other pages of the block as erased, and every page of every other block as before.
\<close>

theorem flash_pages_read_back:
  assumes "flash_ready d" and "b < 8192" and "distinct (map fst ps)" and "\<forall>(p, x) \<in> set ps. p < 16 \<and> length x = 256"
    and "b' < 8192" and "q < 16"
  shows "page_read b' q (fold (\<lambda>(p, x). page_prog b p x) ps (block_erase b d))
     = (if b' = b then case map_of ps q of Some x \<Rightarrow> x | None \<Rightarrow> replicate 256 0xFF else page_read b' q d)"
  using fb.write_block [OF assms] by simp

theorem flash_pages_read_back_witness:
  "page_read 5 3 (fold (\<lambda>(p, x). page_prog 5 p x) [(3, replicate 256 0x41), (7, replicate 256 1)] (block_erase 5 fresh_flash)) = replicate 256 0x41"
  using flash_pages_read_back [of fresh_flash 5 "[(3, replicate 256 0x41), (7, replicate 256 1)]" 5 3]
  by (simp add: fresh_flash_def flash_ready_def)

text \<open>
  C18: The message form and the message page agree: a body posted to \<open>/savesms.sva\<close>
  that holds the gateway, the account and the five receivers is stored field by field, and the
  page \<open>/sms.xml\<close> served next shows exactly these values.
\<close>

theorem message_form_shown:
  assumes "http_ok h" and "sms_ok ip port val" and "ds \<noteq> []" and "concat ds = form (sms_form ip port val)"
  shows "\<exists>h' h''. post E (str ''/savesms.sva'') ds h = Some (Running h')
           \<and> ees.after (sms_fields ip port val) (ee (dev h)) (ee (dev h'))
           \<and> http_find_file E (str ''/sms.xml'') h' = Some (Document (of_nat (length (XMLBuf (dev h'')))), h'')
           \<and> XMLBuf (dev h'') = xml_header @ str ''<SMS>'' @ elem ''IP'' (ip_str ip) @ elem ''PORT'' (dec port)
               @ concat (map (\<lambda>(tag, a, n). elem tag (val tag)) sms_tags) @ str ''</SMS>''"
  using savesms_then_sms [OF assms, of E] by blast

theorem message_form_shown_witness:
  "\<exists>h' h''. post blank_env (str ''/savesms.sva'') [form (sms_form (193, 105, 74, 59) 80 demo_sms)] blank_http
        = Some (Running h')
     \<and> ees.after (sms_fields (193, 105, 74, 59) 80 demo_sms) (ee (dev blank_http)) (ee (dev h'))
     \<and> http_find_file blank_env (str ''/sms.xml'') h' = Some (Document (of_nat (length (XMLBuf (dev h'')))), h'')
     \<and> XMLBuf (dev h'') = xml_header @ str ''<SMS>'' @ elem ''IP'' (ip_str (193, 105, 74, 59)) @ elem ''PORT'' (dec 80)
         @ concat (map (\<lambda>(tag, a, n). elem tag (demo_sms tag)) sms_tags) @ str ''</SMS>''"
  by (rule message_form_shown) (simp_all add: demo_sms_ok)

text \<open>
  C19: A request that breaks off is carried out: a connection that the client closes before the body is complete hands the part
  that has arrived to \<open>httpd_post_finished\<close>, exactly as if it had been the whole body.
\<close>

theorem broken_post_applied:
  assumes "header_ok hdr n" and "uri_ok uri" and "length (post_head uri hdr) \<le> 1023" and "n < 10 ^ 8"
    and "http_ok h" and "part \<noteq> []" and "length part < n" and "length part < 4096"
  shows "\<exists>c h1. http_recv E S (Some [post_head uri hdr @ part]) (Some http_state_init) t1 h = Some (Conn (Some c) t1 h1)
     \<and> http_recv E S None (Some c) t2 h1 = closed_with t2 (post E uri [part] h)"
  by (rule broken_off [OF assms])

theorem broken_post_applied_witness:
  "\<exists>c h1. http_recv blank_env demo_site (Some [post_head (str ''/reset.sva'') (demo_header ''3'') @ [1]]) (Some http_state_init) demo_tcp blank_http
       = Some (Conn (Some c) demo_tcp h1)
     \<and> http_recv blank_env demo_site None (Some c) demo_tcp h1 = Some (Gone Restart)"
proof -
  let ?u = "str ''/reset.sva''"
  have u: "uri_ok ?u" by (simp add: uri_ok_def asc_def)
  have l: "length (post_head ?u (demo_header ''3'')) \<le> 1023" by (simp add: length_post_head demo_header_ok del: str_Cons)
  have "post blank_env ?u [[1]] blank_http = Some Restart" by (rule reset_restarts) simp_all
  then have "closed_with demo_tcp (post blank_env ?u [[1]] blank_http) = Some (Gone Restart)" by (simp add: closed_with_def)
  with broken_post_applied [OF demo_header_ok(1) u l _ blank_http_ok, of "[1]" blank_env demo_site demo_tcp demo_tcp]
  show ?thesis by (simp del: str_Cons)
qed

text \<open>
  C20: Posting a new account to \<open>/pass.sva\<close> takes effect at the next start: for texts
  of at most 15 characters whose length is no multiple of three, \<open>InitParam\<close> loads
  exactly the posted user name and password.
\<close>

theorem account_form_takes_effect:
  assumes "http_ok h" and "ds \<noteq> []" and "concat ds = form (account_form pw un)"
    and "account_ok pw" and "account_ok un" and "eeRd16 EE_INIT (ee (dev h)) = 0x55AA"
  shows "\<exists>h'. post E (str ''/pass.sva'') ds h = Some (Running h')
     \<and> (\<forall>h0. http_ok h0 \<longrightarrow> ee (dev h0) = ee (dev h') \<longrightarrow>
          (\<exists>s. InitParam True (dev h0) = Some s \<and> cut (user_name s) = un \<and> cut (pass_word s) = pw))"
  using posted_account [OF assms, of E] by blast

theorem account_form_takes_effect_witness:
  "\<exists>h'. post blank_env (str ''/pass.sva'') [form (account_form (str ''vrata'') (str ''ured'')) ] marked_http = Some (Running h')
     \<and> (\<forall>h0. http_ok h0 \<longrightarrow> ee (dev h0) = ee (dev h') \<longrightarrow>
          (\<exists>s. InitParam True (dev h0) = Some s \<and> cut (user_name s) = str ''ured'' \<and> cut (pass_word s) = str ''vrata''))"
  by (rule account_form_takes_effect) (simp_all add: account_ok_def asc_def marked_http_mark)

text \<open>
  C21: A reading in hundredths: a scratchpad with its checksum, other than that of a sensor just reset,
  sets the temperature to the register's sixteenths of a degree, cut off to hundredths towards zero, plus
  the calibration, adds it to the sum of the sensor and counts it.
\<close>

theorem reading_in_hundredths:
  assumes "sys_ok s" and "k < 8" and "length buf = 10" and "crc8 (take 8 buf) = buf ! 8" and "\<not> after_reset buf"
    and "t = f32_add (degrees (raw_reading (buf ! 0) (buf ! 1))) (kalibracija (senzor s ! k))"
  shows "\<exists>s'. process_reading k buf s = Some s' \<and> temp s' = (temp s)[k := t] \<and> error_counter (senzor s' ! k) = 0
     \<and> NVRAM_Read32 (NV_SUM_SEN1 + k * 8) (nv s') = f32_add (NVRAM_Read32 (NV_SUM_SEN1 + k * 8) (nv s)) t
     \<and> NVRAM_Read32 (NV_COUNT_SEN1 + k * 8) (nv s') = NVRAM_Read32 (NV_COUNT_SEN1 + k * 8) (nv s) + 1"
  using reading_accepted [OF assms(3-5), of k s] good_reading_fields [OF assms(1,2), of buf] unfolding assms(6) by blast

theorem reading_in_hundredths_witness:
  "\<exists>s'. process_reading 2 (minus_25 @ [crc8 minus_25, 0]) blank_sys = Some s'
     \<and> temp s' ! 2 = f32_add (degrees (- 400)) 0"
proof -
  have r: "raw_reading 0x70 0xFE = - 400" by (simp add: raw_reading_def sint_u16_cases)
  have b: "senzor blank_sys ! 2 = blank_sensor" "length (temp blank_sys) = 8" "kalibracija blank_sensor = 0"
    by (simp_all add: blank_sys_def blank_sensor_def)
  show ?thesis
    using reading_in_hundredths [of blank_sys 2 "minus_25 @ [crc8 minus_25, 0]"] r b
    by (auto simp: minus_25_def after_reset_def)
qed

text \<open>
  C22: A damaged scratchpad changes no temperature: when one of the nine bytes of a good scratchpad is
  replaced, unless the result shows the value of a sensor just reset, temperature, sum and count stay as
  they were and the sensor's error is counted.
\<close>

theorem damaged_scratchpad_refused:
  assumes "sys_ok s" and "k < 8" and "length buf = 10" and "crc8 (take 8 buf) = buf ! 8"
    and "i < 9" and "x \<noteq> buf ! i" and "\<not> after_reset (buf[i := x])"
  shows "\<exists>s'. process_reading k (buf[i := x]) s = Some s' \<and> temp s' = temp s \<and> nv s' = nv s \<and> state s' ! k = KO
     \<and> (error_counter (senzor s ! k) < 5 \<longrightarrow> error_counter (senzor s' ! k) = error_counter (senzor s ! k) + 1)"
  using damaged_scratchpad [OF assms(3-7)] bad_reading_fields [OF assms(1,2)] by (simp add: KO_def)

theorem damaged_scratchpad_refused_witness:
  "\<exists>s'. process_reading 2 ((minus_25 @ [crc8 minus_25, 0])[1 := 0]) blank_sys = Some s' \<and> temp s' = temp blank_sys
     \<and> error_counter (senzor s' ! 2) = 1"
proof -
  have b: "error_counter (senzor blank_sys ! 2) = 0" by (simp add: blank_sys_def blank_sensor_def)
  show ?thesis
    using damaged_scratchpad_refused [of blank_sys 2 "minus_25 @ [crc8 minus_25, 0]" 1 0] b
    by (auto simp: minus_25_def after_reset_def)
qed

text \<open>
  C23: A dead bus repeats the last reading: on a bus that never answers no error reaches
  \<open>ptReadTemp\<close>, and a sensor whose turn it is gets the scratchpad that another sensor, or the cleared
  memory at power on, left in the buffer as a good reading.
\<close>

theorem dead_bus_repeats_reading:
  assumes "dead B" and "1 \<le> m_channel m" and "m_channel m \<le> 4" and "m_k m < 8" and "sys_ok (m_sys m)"
    and "length (dsBuf m) = 10" and "crc8 (take 8 (dsBuf m)) = dsBuf m ! 8" and "\<not> after_reset (dsBuf m)"
  shows "\<exists>m'. read_sensor B m = Some m'
     \<and> temp (m_sys m') = (temp (m_sys m))[m_k m := f32_add (degrees (raw_reading (dsBuf m ! 0) (dsBuf m ! 1)))
                                                 (kalibracija (senzor (m_sys m) ! m_k m))]
     \<and> error_counter (senzor (m_sys m') ! m_k m) = 0 \<and> state (m_sys m') ! m_k m = OK"
  using dead_bus_keeps_reading [OF assms(1-3,6-8)] good_reading_fields [OF assms(5,4)] unfolding OK_def by metis

theorem dead_bus_repeats_reading_witness:
  "\<exists>m'. read_sensor silent \<lparr>m_sys = blank_sys, m_logs = [], m_ow = silent_ow, m_lc = 290, m_k = 5, m_channel = 2,
       ReadTimer = \<lparr>start = 0, interval = 0\<rparr>, dsBuf = replicate 10 0\<rparr> = Some m' \<and> state (m_sys m') ! 5 = OK"
  (is "\<exists>m'. read_sensor silent ?m = _ \<and> _")
proof -
  have "dead silent" by (simp add: dead_def silent_def)
  moreover have "crc8 (take 8 (dsBuf ?m)) = dsBuf ?m ! 8" by (simp add: crc8_zeros)
  ultimately show ?thesis using dead_bus_repeats_reading [of silent ?m] by (auto simp: after_reset_def)
qed

text \<open>
  C24: A frame leaves as it was given: with the link up, the frame that lwIP gives as a chain of pbufs, at most as long as the transmit
  buffer, is the next that the chip sends, byte for byte, whatever frames wait in the receive ring.
\<close>

theorem frame_sent:
  assumes "eth_inv fs s" and "length (concat p) \<le> RXSTART" and "link_up (chip (eth s))"
  shows "e_sent (chip (eth (other_step Transmitted (low_level_output p s)))) = e_sent (chip (eth s)) @ [concat p]"
proof -
  have "length (concat p) \<le> length (enc_buf s)" using assms(1,2) by (simp add: eth_inv_def RXSTART_def ENC_TMP_LEN_def)
  then show ?thesis using sent_frame [of fs "eth s" "concat p"] assms by (simp add: low_level_output_eq eth_inv_def)
qed

theorem frame_sent_witness:
  "e_sent (chip (eth (other_step Transmitted (low_level_output [[1, 2], [3]] ready_port)))) = [[1, 2, 3]]"
  using frame_sent [OF ready_port_ok, of "[[1, 2], [3]]"] by (simp add: RXSTART_def ready_port_def link_up_def)

text \<open>
  C25: The start of the Ethernet driver: on a chip that has been reset, however long its PHY is busy, the initialisation returns with
  the address that is stored in the chip, the abilities of the link are set, and the receive ring is empty and open.
\<close>

theorem init_empty_queue:
  assumes "enc_reset v"
  shows "\<exists>v'. InitRegisters v = Some (mac_bytes (chip v), v') \<and> queue_inv [] v' \<and> e_phy (chip v') (unat PHANA) = PHANA_ABILITIES"
  using InitRegisters_ready [OF assms] by (simp add: PHANA_def)

theorem init_empty_queue_witness:
  "\<exists>v'. InitRegisters reset_enc = Some ([0x54, 0x10, 0, 0, 0, 0], v') \<and> queue_inv [] v'"
proof -
  have "enc_reset reset_enc" "mac_bytes (chip reset_enc) = [0x54, 0x10, 0, 0, 0, 0]"
    by (simp_all add: enc_reset_def reset_enc_def reg16_def be16_def mac_bytes_def)
  then show ?thesis using init_empty_queue [of reset_enc] by auto
qed

text \<open>
  C26: The bus functions end: whatever the peripheral does and in whatever state it is, every
  function of the one wire driver returns, and the waits in it take no longer than the bound given.
\<close>

theorem bus_functions_end:
  assumes "1 \<le> channel" and "channel \<le> 4"
  shows "(\<exists>r w'. OWreset B channel w = Some (r, w') \<and> took 25500 w w')
     \<and> (\<exists>r w'. OWWriteByte B channel x w = Some (r, w') \<and> took 25550 w w')
     \<and> (\<exists>r b w'. OWReadByte B channel x w = Some (r, b, w') \<and> took 25900 w w')
     \<and> (\<exists>r w'. DS2482_reset B channel w = Some (r, w') \<and> took 350 w w')
     \<and> (\<exists>r w'. DS2482_init B channel w = Some (r, w') \<and> took 400 w w')"
  using OWreset_time [OF assms] OWWriteByte_time [OF assms] OWReadByte_time [OF assms] DS2482_time [OF assms] by blast

theorem bus_functions_end_witness:
  "\<exists>r b w'. OWReadByte silent 1 0x55 silent_ow = Some (r, b, w') \<and> took 25900 silent_ow w'"
  using bus_functions_end [where channel = 1 and B = silent and w = silent_ow and x = "0x55"] by simp

text \<open>
  C27: The sampling times: with a clock that is looked at in every minute, \<open>CheckScanTime\<close> raises
  the flag for each of the eight periods exactly when a minute begins whose number in the day leaves remainder one.
\<close>

theorem sampled_every_period:
  assumes "scansetup (t_sys t) \<in> sample_periods" and "sms_status t = 0" and "t0 < 1440"
    and "unat (RTC_Hours (rtc (t_sys t))) < 24" and "unat (RTC_Minutes (rtc (t_sys t))) < 60"
    and "now = minute_of_day (RTC_Hours (rtc (t_sys t))) (RTC_Minutes (rtc (t_sys t)))"
    and "now = t0 \<or> now = (t0 + 1) mod 1440" and "unat (oldmin t) = t0 mod 60"
  shows "\<exists>t'. CheckScanTime ftoa x t = Some t' \<and> unat (oldmin t') = now mod 60
     \<and> scanflag t' = (if now = (t0 + 1) mod 1440 \<and> now mod unat (scansetup (t_sys t)) = 1 then 1 else scanflag t)"
  by (rule CheckScanTime_raises [OF assms])

theorem sampled_every_period_witness:
  "\<exists>t'. CheckScanTime (\<lambda>_ _. []) 0 \<lparr>t_sys = blank_sys\<lparr>scansetup := 10, rtc := (rtc blank_sys)\<lparr>RTC_Minutes := 31\<rparr>\<rparr>, t_logs = [],
       hr = 0, mn = 0, sc = 0, oldmin = 30, old_haccp_min = 0, old_reset_min = 0, sntpoldhr = 0, scanflag = 0,
       sms_old_min = 0, sms_status = 0\<rparr> = Some t' \<and> scanflag t' = 1"
  (is "\<exists>t'. CheckScanTime ?f 0 ?t = Some t' \<and> _")
proof -
  have r: "RTC_Hours (rtc (t_sys ?t)) = 12" "RTC_Minutes (rtc (t_sys ?t)) = 31" by (simp_all add: blank_sys_def)
  show ?thesis
    using sampled_every_period [of ?t 750 751 ?f 0] r by (auto simp: sample_periods_def minute_of_day_def)
qed

text \<open>
  C28: The queued message reaches its receivers: once the flag is set, seven polls between which
  the client finishes its request send the message to each enabled receiver once, in order, and clear the
  flag; later polls send nothing.
\<close>

theorem message_sent_to_receivers:
  assumes "w_lc d = 0" and "wAppflag (w_sys d) = 1" and "7 \<le> n"
  shows "(poll_round ^^ n) d = d\<lparr>w_sys := (w_sys d)\<lparr>wAppflag := 0\<rparr>, w_lc := 0, wAppStatus := WAPP_FREE,
     sent := sent d @ map (\<lambda>i. (i + 1, Msg (wapp (w_sys d)))) (filter (\<lambda>i. wenable (wapp (w_sys d)) ! i \<noteq> 0) [0..<5])\<rparr>"
  using message_delivered [OF assms] by (simp only: all_sent_def queued_def)

theorem message_sent_to_receivers_witness:
  "sent ((poll_round ^^ 9) \<lparr>w_sys = blank_sys\<lparr>wAppflag := 1, wapp := \<lparr>Msg = [65, 0], wenable = [1, 0, 1, 0, 0]\<rparr>\<rparr>,
     w_lc = 0, wAppStatus = 0, sent = []\<rparr>) = [(1, [65, 0]), (3, [65, 0])]"
  by (subst message_sent_to_receivers) (simp_all add: upt_rec)

text \<open>
  C29: The WhatsApp message of an alarm: \<open>SendWApp\<close> stays inside its arrays, composes object name,
  sensor name and the line of the limit that is passed, and marks exactly the receivers that are
  enabled for the sensor; nothing else of the device changes but the read buffer.
\<close>

theorem alarm_message_composed:
  assumes "sys_ok s" and "n < 8"
    and "c_str (eeRd EE_OBJECT_NAME 64 (ee s)) = Some oname"
    and "c_str (eeRd ((n + 1) * 0x100 + EE_SENSOR_NAME) 192 (ee s)) = Some sname"
    and "length (ftoa 2 (temp s ! n)) < 10" "0 \<notin> set (ftoa 2 (temp s ! n))"
    and "length oname + length sname \<le> 85"
    and "en = map (\<lambda>k. eeRd8 ((n + 1) * 0x100 + EE_WAPP1_ON + k) (ee s) \<noteq> 0) [0..<5]"
  shows "\<exists>b r. SendWApp ftoa n s = Some (s\<lparr>rBuf := r,
           wapp := \<lparr>Msg = b, wenable = map (\<lambda>x. if x then 1 else 0) en\<rparr>, wAppflag := (if True \<in> set en then 1 else 0)\<rparr>)
     \<and> length r = 1024 \<and> length b = 128
     \<and> c_str b = Some (oname @ [10] @ sname @ [10] @ alarm_text ftoa (temp s ! n) (alarm_type (temp s ! n) (senzor s ! n)))"
  unfolding assms(8) by (rule SendWApp_text [where ftoa = ftoa and s = s and n = n, OF assms(1-7)])

theorem alarm_message_composed_witness:
  "\<exists>b r. SendWApp (\<lambda>_ _. str ''-18.50'') 0 blank_sys = Some (blank_sys\<lparr>rBuf := r,
       wapp := \<lparr>Msg = b, wenable = [0, 0, 0, 0, 0]\<rparr>, wAppflag := 0\<rparr>) \<and> length r = 1024 \<and> length b = 128
     \<and> c_str b = Some ([] @ [10] @ [] @ [10] @ alarm_text (\<lambda>_ _. str ''-18.50'') 0 (alarm_type 0 blank_sensor))"
proof -
  have e: "c_str (eeRd a n (ee blank_sys)) = Some []" if "a + n \<le> EE_SIZE" "0 < n" for a n
  proof -
    have "eeRd a n (ee blank_sys) = replicate n 0"
      using that by (intro nth_equalityI) (simp_all add: nth_eeRd blank_sys_def)
    then show ?thesis using that by (cases n) simp_all
  qed
  have z: "map (\<lambda>k. eeRd8 ((0 + 1) * 0x100 + EE_WAPP1_ON + k) (ee blank_sys) \<noteq> 0) [0..<5] = [False, False, False, False, False]"
    by (simp add: upt_rec blank_ee EE_SIZE_def)
  have t: "temp blank_sys ! 0 = 0" "senzor blank_sys ! 0 = blank_sensor" by (simp_all add: blank_sys_def)
  show ?thesis
    using alarm_message_composed [where ftoa = "\<lambda>_ _. str ''-18.50''" and s = blank_sys and n = 0,
        OF blank_sys_ok _ e e _ _ _ z [symmetric]] t
    by (simp add: EE_SIZE_def asc_def)
qed

text \<open>
  C30: No alarm from a short contact: over any sequence of polls of an idle first input without an alarm,
  an alarm that is found at the end was confirmed by two polls at least 100 ms apart that both saw the
  input active.
\<close>

theorem input_alarm_confirmed:
  assumes "watches t d" and "lc d = 0" and "t = 1 \<or> t = 2" and "span cs < 2 ^ 31"
    and "alarm_on d = 0" and "alarm_on (scans cs d) \<noteq> 0"
  shows "confirmed t cs"
  by (rule alarm_confirmed [OF assms])

theorem input_alarm_confirmed_witness:
  "confirmed 2 [(5, False), (5, True), (60, True), (60, True)]"
proof (rule input_alarm_confirmed [OF door_watched(1,2) _ _ door_watched(3)])
  show "alarm_on (scans [(5, False), (5, True), (60, True), (60, True)] demo_door) \<noteq> 0"
    using held_raises [OF door_watched(1,2), of "(5, False)" "(5, True)" "[(60, True), (60, True)]"]
    by (simp add: active_def)
qed simp_all

text \<open>
  C31: An input that stays active raises its alarm: after the poll that starts the thread, polls that all
  see the input active and span at least 100 ms leave the alarm raised.
\<close>

theorem held_input_raises:
  assumes "watches t d" and "lc d = 0" and "t = 1 \<or> t = 2" and "span (c1 # c2 # cs) < 2 ^ 31"
    and "\<forall>c \<in> set (c2 # cs). active t (snd c)" and "100 \<le> span cs"
  shows "alarm_on (scans (c1 # c2 # cs) d) = 1"
  by (rule held_raises [OF assms])

theorem held_input_raises_witness:
  "alarm_on (scans [(1, False), (30, True), (30, True), (40, True), (30, True)] demo_door) = 1"
  by (rule held_input_raises [OF door_watched(1,2)]) (simp_all add: active_def)



text \<open>
  C33: The daylight saving test agrees with the calendar: on every valid date, with its
  weekday, \<open>isDST\<close> holds exactly from two o'clock on the last Sunday of March to two o'clock
  on the last Sunday of October, in standard time.
\<close>

theorem daylight_saving_rule:
  assumes "clock_shows y r t"
  shows "isDST r \<longleftrightarrow> summer y (unat (t_month r)) (unat (t_mday r)) (unat (t_hour r))"
  by (rule isDST_summer [OF assms])

theorem daylight_saving_rule_witness:
  "isDST (rtc_of_tm (localtime 1711850400))
     \<longleftrightarrow> summer (tm_year (localtime 1711850400)) (unat (t_month (rtc_of_tm (localtime 1711850400))))
           (unat (t_mday (rtc_of_tm (localtime 1711850400)))) (unat (t_hour (rtc_of_tm (localtime 1711850400))))"
  by (rule daylight_saving_rule [OF clock_shows_localtime])

text \<open>
  C34: The EEPROM driver: on a chip in any state of its write cycle, writing a field that stays in
  its page and reading it back gives the field, and no field elsewhere changes.
\<close>

theorem EEwrite_then_EEread:
  assumes "ee_ready d" and "bs \<noteq> []" and "ee_fits (unat addr) (length bs)"
  shows "\<exists>d1 d2. EEwrite addr bs d = Some d1 \<and> EEread addr (length bs) d1 = Some (bs, d2) \<and> ee_ready d2
     \<and> (\<forall>b n. ee_fits b n \<longrightarrow> unat addr + length bs \<le> b \<or> b + n \<le> unat addr
          \<longrightarrow> eeRd b n (ee_mem d2) = eeRd b n (ee_mem d))"
  by (rule EEwrite_read_back [OF assms])

theorem EEwrite_then_EEread_witness:
  "\<exists>d1 d2. EEwrite 0x60 [1, 2, 3] demo_chip = Some d1 \<and> EEread 0x60 (length [1, 2, 3 :: byte]) d1 = Some ([1, 2, 3], d2) \<and> ee_ready d2"
  using EEwrite_then_EEread [OF demo_chip_ready, where bs = "[1, 2, 3]" and addr = "0x60"]
  by (auto simp: ee_fits_def EE_PAGE_def EE_SIZE_def)

text \<open>
  C35: Looking up a tag in a form finds the value of that tag, wherever it stands in the form and
  whatever follows the form in the buffer.
\<close>

theorem form_tag_found:
  assumes "form_ok kvs" and "(u, w) \<in> set kvs" and "sys_ok s"
  shows "parse_at (''<'' @ u @ ''>'') (form kvs @ ys) (of_nat (length (form kvs))) s
       = Some (of_nat (length w), s\<lparr>tb := w @ 0 # drop (length w + 1) (tb s), iBuf := 0\<rparr>)"
  by (rule parse_at_form [OF assms])

theorem form_tag_found_witness:
  "parse_at (''<'' @ ''ZONA'' @ ''>'') (form [(''SNTP1'', str ''hr.pool.ntp.org''), (''ZONA'', str ''2'')] @ [])
      (of_nat (length (form [(''SNTP1'', str ''hr.pool.ntp.org''), (''ZONA'', str ''2'')]))) blank_sys
     = Some (of_nat (length (str ''2'')),
         blank_sys\<lparr>tb := str ''2'' @ 0 # drop (length (str ''2'') + 1) (tb blank_sys), iBuf := 0\<rparr>)"
  by (rule form_tag_found) (simp_all add: form_ok_def field_ok_def plain_text_def form_simps elem_def asc_def)

text \<open>
  C36: A message survives the gateway: what \<open>rfc1738_escape\<close> writes for any text that
  fits, \<open>rfc1738_unescape\<close> turns back into the text.
\<close>

theorem escape_round_trip:
  assumes "0 \<notin> set url" and "3 * length url + 1 < sz" and "sz \<le> length buf"
  shows "\<exists>out m. rfc1738_escape (url @ 0 # r) buf sz = Some out \<and> rfc1738_unescape out = Some m \<and> c_str m = Some url"
  by (rule escape_unescape [OF assms])

theorem escape_round_trip_witness:
  "\<exists>out m. rfc1738_escape (str ''Hladnjaca 3: -18 C'' @ 0 # []) (replicate 64 1) 60 = Some out
     \<and> rfc1738_unescape out = Some m \<and> c_str m = Some (str ''Hladnjaca 3: -18 C'')"
  by (rule escape_round_trip) (simp_all add: asc_def)

text \<open>
  C37: The bound of \<open>rfc1738_escape\<close>: it always returns, and changes nothing from two
  bytes after its bound on; a buffer must be two bytes longer than the size that is passed.
\<close>

theorem escape_stays_near_bound:
  assumes "0 \<notin> set url" and "sz + 2 \<le> length buf" and "0 < sz"
  shows "\<exists>out. rfc1738_escape (url @ 0 # r) buf sz = Some out \<and> length out = length buf
     \<and> (\<forall>k \<ge> sz + 2. k < length buf \<longrightarrow> out ! k = buf ! k)"
  using escape_loop_bound [OF assms(1,2), of 0 r] assms(3) by (simp add: rfc1738_escape_def)

theorem escape_stays_near_bound_witness:
  "\<exists>out. rfc1738_escape (str ''a b c'' @ 0 # []) (replicate 6 7) 3 = Some out \<and> out ! 5 = 7"
  using escape_stays_near_bound [of "str ''a b c''" 3 "replicate 6 7" "[]"] by (auto simp: asc_def)

text \<open>
  C38: \<open>Base64Decode\<close> restores what \<open>Base64Encode\<close> encoded, whatever
  follows the text; the length it reports is that of the text, or one more when it wrote a closing
  NUL.
\<close>

theorem Base64_round_trip:
  assumes "4 * ((length src + 2) div 3) \<le> w" and "length src < n" and "length src < length dest"
  shows "\<exists>k old. Base64Decode (Base64Encode src w @ ys) (length (Base64Encode src w)) dest n = Some (k, src @ old)
     \<and> length src \<le> k \<and> k \<le> length src + 1"
  using Base64Decode_Encode [OF assms refl, of ys] by auto

theorem Base64_round_trip_witness:
  "\<exists>k old. Base64Decode (Base64Encode (str ''s:s'') 108 @ []) (length (Base64Encode (str ''s:s'') 108)) (replicate 80 0) 80
       = Some (k, str ''s:s'' @ old) \<and> length (str ''s:s'') \<le> k \<and> k \<le> length (str ''s:s'') + 1"
  by (rule Base64_round_trip) simp_all

text \<open>
  C39: A password of 16 characters resets the device: its closing NUL wraps inside the EEPROM page
  onto the mark of \<open>InitParam\<close>, so that the next start writes the factory settings
  over everything.
\<close>

theorem long_password_resets:
  assumes "http_ok h" and "ds \<noteq> []" and "concat ds = form (account_form pw un)"
    and "length pw = 16" and "0 \<notin> set pw" and "account_ok un"
  shows "\<exists>h'. post E (str ''/pass.sva'') ds h = Some (Running h')
     \<and> (\<forall>s jumper. ee s = ee (dev h') \<longrightarrow> InitParam jumper s = write_defaults s)"
  by (rule posted_long_password [OF assms])

theorem long_password_resets_witness:
  "\<exists>h'. post blank_env (str ''/pass.sva'') [form (account_form (str ''0123456789abcdef'') (str ''ured''))] marked_http
        = Some (Running h')
     \<and> (\<forall>s jumper. ee s = ee (dev h') \<longrightarrow> InitParam jumper s = write_defaults s)"
  by (rule long_password_resets [where pw = "str ''0123456789abcdef''" and un = "str ''ured''"])
    (simp_all add: account_ok_def asc_def)

text \<open>
  C40: The text message of the first sensor reads outside \<open>senzor\<close>: \<open>SendSMS\<close> takes the limits
  of the sensor before the one it is called for, which for the first is index 255.
\<close>

theorem sms_of_first_sensor_faults:
  assumes "sys_ok s"
  shows "SendSMS ftoa 0 1 s = None"
  by (rule SendSMS_first_sensor [OF assms])

theorem sms_of_first_sensor_faults_witness: "SendSMS (\<lambda>_ _. str ''9.00'') 0 1 blank_sys = None"
  by (rule sms_of_first_sensor_faults) simp

section \<open>Further facts\<close>

text \<open>
  Collecting a body: the result of a POST depends on the concatenation of the pieces only, and
  is that of \<open>httpd_post_finished\<close> on the whole body; a body of 4096 bytes or more
  runs over \<open>post_buffer\<close>.
\<close>

theorem body_in_pieces:
  assumes "http_ok h" and "length uri < 64" and "ds \<noteq> []"
  shows "post E uri ds h =
           (if length (concat ds) < 4096 then httpd_post_finished E (collected uri (concat ds) h) else None)"
  using post_pieces [OF assms] .

theorem body_in_pieces_witness:
  "post blank_env (str ''/reset.sva'') [[1, 2], [], [3]] blank_http
     = httpd_post_finished blank_env (collected (str ''/reset.sva'') [1, 2, 3] blank_http)"
  using body_in_pieces [of blank_http "str ''/reset.sva''" "[[1, 2], [], [3]]" blank_env] by simp

text \<open>
  A bounce on release latches the alarm: when the input is active again at the poll that ends the
  release time, the alarm stays raised however long the input is then inactive.
\<close>

theorem release_bounce_latches:
  assumes "watches t d" and "lc d = 0" and "t = 1 \<or> t = 2"
    and "span ([(n1, x), (n2, on), (n3, on), (n4, off), (n5, on)] @ cs) < 2 ^ 31"
    and "active t on" and "\<not> active t off" and "100 \<le> n3" and "100 \<le> n5" and "\<forall>c \<in> set cs. \<not> active t (snd c)"
  shows "alarm_on (scans ([(n1, x), (n2, on), (n3, on), (n4, off), (n5, on)] @ cs) d) = 1"
  by (rule bounce_latches [OF assms])

theorem release_bounce_latches_witness:
  "alarm_on (scans ([(1, False), (1, True), (100, True), (1, False), (100, True)] @ [(1000, False), (100000, False)]) demo_door) = 1"
  by (rule release_bounce_latches [OF door_watched(1,2)]) (simp_all add: active_def)

text \<open>
  A software timer armed for \<open>i\<close> milliseconds and polled at least every
  \<open>d\<close>: the first poll that finds it expired comes no earlier than the deadline and
  less than \<open>max d 1\<close> after it, also when the millisecond counter wraps in between.
\<close>

theorem timer_polled:
  assumes "i < 2 ^ 31" and "n < 2 ^ 31" and "timer_expired (elapse n c) (timer_set c (of_nat i))"
    and "n = 0 \<or> (\<exists>k < n. n - k \<le> d \<and> \<not> timer_expired (elapse k c) (timer_set c (of_nat i)))"
  shows "i \<le> n \<and> n < i + max d 1"
  by (rule tmr.first_due_poll [OF assms])

theorem timer_polled_witness: "(100 :: nat) \<le> 103 \<and> (103 :: nat) < 100 + max 5 1"
proof -
  let ?c = "\<lparr>Timex = 0xFFFFFFF0, LocalTime = 0, sysTyck = 0, I2CTimer = 0\<rparr>"
  have "timer_expired (elapse 103 ?c) (timer_set ?c (of_nat 100))" "\<not> timer_expired (elapse 98 ?c) (timer_set ?c (of_nat 100))"
    by (subst tmr.due_iff; simp)+
  then show ?thesis using timer_polled [of 100 103 ?c 5] by force
qed

text \<open>
  A damaged identifier is refused: when the eight bytes of a sensor's identifier pass
  \<open>OWI_CheckRomCRC\<close> and any one of them is replaced, the result does not pass.
\<close>

theorem damaged_code_refused:
  assumes "length rom = 8" and "OWI_CheckRomCRC rom = Some OWI_CRC_OK" and "i < 8" and "x \<noteq> rom ! i"
  shows "OWI_CheckRomCRC (rom[i := x]) = Some OWI_CRC_ERROR"
  by (rule rom_damage_detected [OF assms])

theorem damaged_code_refused_witness:
  "OWI_CheckRomCRC ([0, 0, 0, 0, 0, 0, 0, 0][3 := 0x28]) = Some OWI_CRC_ERROR"
proof (rule damaged_code_refused)
  show "OWI_CheckRomCRC [0, 0, 0, 0, 0, 0, 0, 0] = Some OWI_CRC_OK"
    by (simp add: rom_passes_iff) (simp add: crc8_def OWI_ComputeCRC8_eq crc_step_funpow_0)
qed simp_all

text \<open>
  The EEPROM driver reads any number of bytes from any address as the memory image holds
  them, rolling over at the end of the memory, and leaves the chip ready.
\<close>

theorem EEread_implements:
  assumes "ee_ready d" and "0 < n"
  shows "\<exists>d'. EEread addr n d = Some (eeRd (unat addr) n (ee_mem d), d') \<and> ee_mem d' = ee_mem d \<and> ee_ready d'"
  by (rule EEread_refines [OF assms])

theorem EEread_implements_witness:
  "\<exists>d'. EEread 0x3FFE 3 demo_chip = Some (eeRd (unat (0x3FFE :: u16)) 3 (ee_mem demo_chip), d')
     \<and> ee_mem d' = ee_mem demo_chip \<and> ee_ready d'"
  by (rule EEread_implements) (simp_all add: demo_chip_ready)

text \<open>
  The two checksum routines agree: \<open>calc_crc\<close> over the first \<open>n\<close> bytes of a buffer is
  \<open>OWI_ComputeCRC8\<close> run over them byte by byte.
\<close>

theorem checksums_agree:
  assumes "n \<le> length buff"
  shows "calc_crc buff n = Some (foldl (\<lambda>crc8 b. OWI_ComputeCRC8 b crc8) 0 (take n buff))"
  using calc_crc_eq [OF assms] by (simp add: crc8_def)

theorem checksums_agree_witness:
  "calc_crc [0x50, 0x05, 0x4B, 0x46, 0x7F, 0xFF, 0x0C, 0x10, 0x1C] 8
     = Some (foldl (\<lambda>crc8 b. OWI_ComputeCRC8 b crc8) 0 [0x50, 0x05, 0x4B, 0x46, 0x7F, 0xFF, 0x0C, 0x10])"
  using checksums_agree [of 8 "[0x50, 0x05, 0x4B, 0x46, 0x7F, 0xFF, 0x0C, 0x10, 0x1C]"] by simp

text \<open>
  A tag that does not occur is reported as found with 255 characters, and the text that the
  caller then converts is what the last tag left in \<open>tb\<close>.
\<close>

theorem missing_tag_is_length_255:
  assumes "msg_ok msg len" and "tag \<noteq> ''''" and "length tag \<le> 30"
    and "\<forall>p. p \<le> unat len \<longrightarrow> \<not> occurs_at (str tag) (take (unat len) msg) p"
  shows "parse_at tag msg len s = Some (255, s\<lparr>iBuf := 0\<rparr>)"
  by (rule parse_at_missing [OF assms])

theorem missing_tag_is_length_255_witness:
  "parse_at ''<HIST>'' (str ''<LOWLIMIT>5<'') 12 blank_sys = Some (255, blank_sys\<lparr>iBuf := 0\<rparr>)"
proof (rule missing_tag_is_length_255)
  have "find_from (str ''<HIST>'') (str ''<LOWLIMIT>5<'') 0 = None" by (simp add: asc_def)
  from find_from_NoneD [OF this]
  show "\<forall>p. p \<le> unat (12 :: u16) \<longrightarrow> \<not> occurs_at (str ''<HIST>'') (take (unat (12 :: u16)) (str ''<LOWLIMIT>5<'')) p"
    by (auto simp: occurs_at_def)
qed (simp_all add: msg_ok_def)

text \<open>
  A long message leaves its array: the encoder is given the size of the whole array, although four bytes
  of it are in use; a message of 1020 encoded bytes or more is written behind its end.
\<close>

theorem long_message_overruns:
  assumes "sys_ok s" and "length b = 1024" and "gsm_settings un pw oname msg nums s"
    and "1020 \<le> length (esc do_escape (gsm_xml un pw oname msg (receivers nums (gsm_enable (sms s)))))"
  shows "CrateInfobipXMLString b s = None"
  by (rule message_text(2) [OF assms(1-3,1,3,4)])

theorem long_message_overruns_witness:
  "CrateInfobipXMLString (replicate 1024 0) (pager (replicate 31 (asc CHR ''#'')) (replicate 159 (asc CHR ''#'')) [1, 1, 1, 1, 0]) = None"
proof -
  let ?c = "asc CHR ''#''" and ?e = "[1, 1, 1, 1, 0] :: byte list"
  let ?v = "replicate 31 ?c" and ?m = "replicate 159 ?c"
  let ?s = "pager ?v ?m ?e" and ?x = "gsm_xml [] [] [] ?m [?v, ?v, ?v, ?v]"
  have p: "length ?v < 32" "0 \<notin> set ?v" "length ?m < 160" "0 \<notin> set ?m" "length ?e = 5" by (simp_all add: asc_def)
  have r: "receivers (replicate 5 ?v) (gsm_enable (sms ?s)) = [?v, ?v, ?v, ?v]"
    by (simp add: pager_def receivers_def upt_rec del: replicate_Suc)
  have f: "filter do_escape (replicate n ?c) = replicate n ?c" for n
    by (simp add: do_escape_def rfc1738_unsafe_chars_def asc_def)
  have "159 + 4 * 31 \<le> length (filter do_escape ?x)"
    using filter_line [of do_escape ?m "''text''"] filter_line [of do_escape ?v "''gsm''"]
    unfolding f length_replicate gsm_xml_def filter_append length_append by simp
  moreover have "length ?x = 525" by (simp add: gsm_xml_def length_lines)
  ultimately have "1020 \<le> length (esc do_escape ?x)" unfolding esc_count by simp
  then show ?thesis
    using long_message_overruns [OF pager_settings(1) [OF p] _ pager_settings(2) [OF p], of "replicate 1024 0"] unfolding r by simp
qed

text \<open>
  A user name whose length is a multiple of three, posted with a longer password, is stored
  with the tail of the password behind it.
\<close>

theorem user_name_gets_tail:
  assumes "http_ok h" and "ds \<noteq> []" and "concat ds = form (account_form pw un)"
    and "account_ok pw" and "un \<noteq> []" "0 \<notin> set un" and "length un mod 3 = 0" and "length un < length pw"
  shows "\<exists>h'. post E (str ''/pass.sva'') ds h = Some (Running h')
     \<and> c_str (eeRd EE_USERNAME 16 (ee (dev h'))) = Some (un @ drop (length un) pw)"
  by (rule posted_tail [OF assms])

theorem user_name_gets_tail_witness:
  "\<exists>h'. post blank_env (str ''/pass.sva'') [form (account_form (str ''lozinka'') (str ''ana''))] blank_http = Some (Running h')
     \<and> c_str (eeRd EE_USERNAME 16 (ee (dev h'))) = Some (str ''anainka'')"
  using user_name_gets_tail [of blank_http "[form (account_form (str ''lozinka'') (str ''ana''))]" "str ''lozinka''" "str ''ana''" blank_env]
  by (simp add: account_ok_def asc_def)

text \<open>
  A temperature limit: the decimal text of any signed 8 bit number, with its minus sign, is
  read back by \<open>getTemp\<close> as that number.
\<close>

theorem limit_read_back:
  assumes "tb s = dec_int i @ 0 # ys" and "iBuf s = 0" and "- 128 \<le> i" and "i < 128"
  shows "\<exists>v s'. getTemp (of_nat (length (dec_int i))) s = Some (v, s') \<and> sint v = i"
proof -
  have "\<bar>i\<bar> < 1000" using assms(3,4) by simp
  from getTemp_dec_int [OF assms(1,2) this] show ?thesis
    using assms(3,4) by (auto simp: signed_of_int signed_take_bit_int_eq_self)
qed

theorem limit_read_back_witness:
  "\<exists>v s'. getTemp (of_nat (length (dec_int (- 18)))) (blank_sys\<lparr>tb := dec_int (- 18) @ 0 # replicate 126 0\<rparr>) = Some (v, s')
     \<and> sint v = - 18"
  by (rule limit_read_back [where ys = "replicate 126 0"]) (simp_all add: blank_sys_def)

text \<open>
  A 32 bit value written with \<open>EEwrite_32\<close> is read back by
  \<open>EEread_32\<close>.
\<close>

theorem EEwrite_32_then_EEread_32:
  assumes "ee_ready d" and "ee_fits (unat addr) 4"
  shows "\<exists>d1 d2. EEwrite_32 addr v d = Some d1 \<and> EEread_32 addr d1 = Some (v, d2) \<and> ee_ready d2"
  by (rule EE32_read_back [OF assms])

theorem EEwrite_32_then_EEread_32_witness:
  "\<exists>d1 d2. EEwrite_32 0x130 0xC0A801C8 demo_chip = Some d1 \<and> EEread_32 0x130 d1 = Some (0xC0A801C8, d2) \<and> ee_ready d2"
  by (rule EEwrite_32_then_EEread_32) (simp_all add: demo_chip_ready ee_fits_def EE_PAGE_def EE_SIZE_def)

text \<open>
  The page \<open>/time.xml\<close> shows the time, the date and the weekday of the real time
  clock, the year with 2000 added.
\<close>

theorem clock_page:
  assumes "sys_ok s"
  shows "\<exists>s'. XMLTime s = Some (of_nat (length (XMLBuf s')), s') \<and> XMLBuf s' = time_page (rtc s) \<and> ee s' = ee s"
  by (rule XMLTime_shows [OF assms])

theorem clock_page_witness:
  "\<exists>s'. XMLTime blank_sys = Some (of_nat (length (XMLBuf s')), s') \<and> XMLBuf s' = time_page (rtc blank_sys)
     \<and> ee s' = ee blank_sys"
  by (rule clock_page) simp

text \<open>
  \<open>itoay\<close> writes the decimal digits of a number of up to seven digits, and
  \<open>atoi\<close> reads the number back.
\<close>

theorem itoay_decimal:
  assumes "n < 10 ^ 7"
  shows "itoay (int n) = Some (dec n) \<and> atoi (dec n) = int n"
proof -
  have "n < 2 ^ 31" using assms by simp
  then show ?thesis using itoay_dec [OF assms] atoi_dec' [of n] by simp
qed

theorem itoay_decimal_witness: "itoay (int 4096) = Some (dec 4096) \<and> atoi (dec 4096) = int 4096"
  by (rule itoay_decimal) simp

end
